(* ===== verification/Prelude.thy ===== *)
theory Prelude
  imports Complex_Main "HOL-Library.Sublist"
begin

section \<open>Shared vocabulary of the development\<close>

text \<open>
  What every component uses: the stable diagnostic codes the program reports, the dynamic
  values a decoded JSON command can hold, Python's text (a list of code points) with its UTF-8
  encoding, and generic lemmas on lists, maps and results. Collections of facts that several
  theories fill are declared here.
\<close>

named_theorems guard_simps \<open>conditions the code's argument checks reduce to\<close>
named_theorems inv_intros \<open>preservation of a component's invariant, one fact per operation\<close>

subsection \<open>Diagnostic codes\<close>

text \<open>
  Every error the program reports across a component boundary is one of its fixed diagnostic
  strings, either the \<open>code\<close> of a \<open>DesktopError\<close> or the error argument of a completion. They
  are constructors here, named as the strings are. Those of the host desktop's portal, login and media
  parts, which mostly pass through the code as they come, are \<open>Host_code\<close> with the string itself.
\<close>

datatype code =
    PROTOCOL_INVALID | INVALID_ARGUMENT | NATIVE_RESOLUTION_UNSUPPORTED | STALE_DESKTOP
  | INVALID_FRAME | VIEW_ONLY | TRANSPORT_BACKPRESSURE | TRANSPORT_CLOSED
  | KEY_UNSUPPORTED | INPUT_KEYS_HELD | VIDEO_ENCODER_UNAVAILABLE | VIDEO_ENCODER_FAILED
  | CAPTURE_LAYOUT_UNSUPPORTED | CAPTURE_UNAVAILABLE
  | INPUT_DELIVERY_TIMEOUT | INPUT_DELIVERY_FAILED | INPUT_CONTEXT_UNAVAILABLE
  | INPUT_MODULE_VERSION_UNSUPPORTED | INPUT_SESSION_EXHAUSTED | INPUT_MARKER_UNAVAILABLE
  | INPUT_TARGET_UNAVAILABLE | INPUT_TEXT_INVALID | INPUT_TEXT_TOO_LONG
  | INPUT_SEQUENCE_INVALID | INPUT_VERSION_UNSUPPORTED | INPUT_OPERATION_INVALID
  | INPUT_NOT_AUTHORIZED | CLIPBOARD_TEXT_INVALID | CLIPBOARD_UNAVAILABLE
  | REQUEST_SEQUENCE_INVALID | REQUEST_INVALID | METHOD_UNSUPPORTED
  | APPLICATION_UNAVAILABLE | FRAME_TARGET_UNAVAILABLE | WINDOW_UNAVAILABLE
  | CAPTURE_TIMEOUT | CAPTURE_CANCELLED | CAPTURE_TARGET_CHANGED | CAPTURE_PROTOCOL_INVALID
  | CAPTURE_SOURCE_CHANGED | CAPTURE_SEQUENCE_EXHAUSTED
  | Host_code string

subsection \<open>Text and its UTF-8 encoding\<close>

text \<open>
  A Python \<open>str\<close> is a list of code points below \<open>0x110000\<close>; the surrogate range cannot be
  encoded (\<open>str.encode\<close> raises \<open>UnicodeEncodeError\<close>). Bytes are numbers below 256.
\<close>

type_synonym pystr = "nat list"
type_synonym bytes = "nat list"

definition surrogate :: "nat \<Rightarrow> bool" where
  "surrogate c \<longleftrightarrow> 0xD800 \<le> c \<and> c \<le> 0xDFFF"

definition scalar :: "nat \<Rightarrow> bool" where
  "scalar c \<longleftrightarrow> c < 0x110000 \<and> \<not> surrogate c"

definition utf8_char :: "nat \<Rightarrow> bytes" where
  "utf8_char c =
     (if c < 0x80 then [c]
      else if c < 0x800 then [0xC0 + c div 64, 0x80 + c mod 64]
      else if c < 0x10000 then [0xE0 + c div 4096, 0x80 + c div 64 mod 64, 0x80 + c mod 64]
      else [0xF0 + c div 262144, 0x80 + c div 4096 mod 64, 0x80 + c div 64 mod 64, 0x80 + c mod 64])"

text \<open>\<open>text.encode('utf-8')\<close>: \<open>None\<close> is the \<open>UnicodeEncodeError\<close>.\<close>

definition utf8_encode :: "pystr \<Rightarrow> bytes option" where
  "utf8_encode s = (if list_all scalar s then Some (concat (map utf8_char s)) else None)"

definition utf8_width :: "nat \<Rightarrow> nat" where
  "utf8_width c = (if c < 0x80 then 1 else if c < 0x800 then 2 else if c < 0x10000 then 3 else 4)"

lemma length_utf8_char [simp]: "length (utf8_char c) = utf8_width c"
  by (simp add: utf8_char_def utf8_width_def)

lemma utf8_width_bounds: "1 \<le> utf8_width c \<and> utf8_width c \<le> 4"
  by (simp add: utf8_width_def)

lemma utf8_char_nonempty [simp]: "utf8_char c \<noteq> []"
  by (simp add: utf8_char_def)

lemma utf8_encode_Some_iff:
  "utf8_encode s = Some b \<longleftrightarrow> list_all scalar s \<and> b = concat (map utf8_char s)"
  by (auto simp: utf8_encode_def)

lemma utf8_encode_append:
  "list_all scalar s \<Longrightarrow> list_all scalar t \<Longrightarrow>
     utf8_encode (s @ t) = Some (the (utf8_encode s) @ the (utf8_encode t))"
  by (simp add: utf8_encode_def)

subsection \<open>Dynamic values\<close>

text \<open>
  The value a decoded message field can hold. \<open>bool\<close> is a subclass of \<open>int\<close> in Python; the code
  tells them apart with \<open>type(value) is int\<close>, so they are distinct constructors. A \<open>float\<close> is its
  rational value, or \<open>PInfinite\<close> (an overflowing literal; the program refuses the \<open>NaN\<close> and
  \<open>Infinity\<close> literals when it parses). Dictionaries keep insertion order and distinct keys.
\<close>

datatype pyval =
    PNone
  | PBool bool
  | PInt int
  | PFloat rat
  | PInfinite
  | PStr pystr
  | PList "pyval list"
  | PDict "(pystr \<times> pyval) list"

text \<open>Python's \<open>==\<close> between a decoded value and an \<open>int\<close>: \<open>True == 1\<close> and \<open>1.0 == 1\<close> hold.\<close>

definition py_eq :: "pyval \<Rightarrow> int \<Rightarrow> bool" where
  "py_eq v n =
     (case v of PInt m \<Rightarrow> m = n | PBool b \<Rightarrow> (if b then 1 else 0) = n | PFloat r \<Rightarrow> r = of_int n
      | _ \<Rightarrow> False)"

lemma py_eq_PInt [simp, guard_simps]: "py_eq (PInt m) n \<longleftrightarrow> m = n"
  by (simp add: py_eq_def)

lemma py_eq_inj: "py_eq v m \<Longrightarrow> py_eq v n \<Longrightarrow> m = n"
  by (auto simp: py_eq_def split: pyval.splits)

text \<open>A string literal of the source as Python text.\<close>

definition py :: "string \<Rightarrow> pystr" where
  "py s = map of_char s"

lemma py_inject [simp]: "py s = py t \<longleftrightarrow> s = t"
proof -
  have "inj (of_char :: char \<Rightarrow> nat)" by (rule inj_of_char)
  then show ?thesis by (simp add: py_def inj_map_eq_map)
qed

text \<open>\<open>value.get(key)\<close> on a dictionary.\<close>

definition dict_get :: "(pystr \<times> pyval) list \<Rightarrow> string \<Rightarrow> pyval" where
  "dict_get d k = (case map_of d (py k) of None \<Rightarrow> PNone | Some v \<Rightarrow> v)"

subsection \<open>Decimal numerals\<close>

text \<open>\<open>str(n)\<close> of a natural number, and its inverse on digit strings.\<close>

fun dec :: "nat \<Rightarrow> string" where
  "dec n = (if n < 10 then [char_of (48 + n)] else dec (n div 10) @ [char_of (48 + n mod 10)])"

declare dec.simps [simp del]

definition undec :: "string \<Rightarrow> nat" where
  "undec s = foldl (\<lambda>a c. 10 * a + (of_char c - 48)) 0 s"

lemma digit_value: "k < 10 \<Longrightarrow> of_char (char_of (48 + k :: nat) :: char) - (48 :: nat) = k"
  by (simp add: of_char_mod_256)

lemma undec_dec [simp]: "undec (dec n) = n"
proof (induction n rule: dec.induct)
  case (1 n)
  show ?case
  proof (cases "n < 10")
    case True
    then show ?thesis by (simp add: dec.simps undec_def digit_value)
  next
    case False
    have "undec (dec n) = 10 * undec (dec (n div 10)) + n mod 10"
      using False by (subst dec.simps) (simp add: undec_def digit_value)
    also have "\<dots> = 10 * (n div 10) + n mod 10" using "1.IH" False by simp
    finally show ?thesis by simp
  qed
qed

lemma dec_inject [simp]: "dec m = dec n \<longleftrightarrow> m = n"
  by (metis undec_dec)

subsection \<open>Generic lemmas\<close>

lemma filter_fst_neq_notin: "o' \<notin> fst ` set (filter (\<lambda>x. fst x \<noteq> o') xs)"
  by auto

lemma length_filter_le': "length (filter P xs) \<le> n" if "length xs \<le> n" for n
  using that length_filter_le [of P xs] by linarith

lemma subseq_filter_append: "subseq (xs @ filter P ys) (xs @ ys)"
  by (rule list_emb_append_mono) simp_all

lemma sum_case_Inr_iff:
  "(case r of Inl e \<Rightarrow> Inl e | Inr x \<Rightarrow> f x) = Inr y \<longleftrightarrow> (\<exists>x. r = Inr x \<and> f x = Inr y)"
  by (cases r) auto

end
