(* ===== verification/Float64.thy ===== *)
theory Float64
  imports Complex_Main Prelude
begin

section \<open>Binary64 rounding\<close>

text \<open>
  Python's \<open>float\<close> is IEEE binary64. The program multiplies and divides sizes in it and takes
  the floor, so the last bit matters. A finite non-negative float is represented by its rational
  value; \<open>fl\<close> is round-to-nearest, ties to even, onto 53-bit significands. The exponent is not
  bounded: the arguments of the code stay far inside the normal range (\<open>fl_error\<close> and the sizes
  involved show that), so overflow and subnormals do not occur.
\<close>

function blen :: "int \<Rightarrow> nat" where
  "blen n = (if n \<le> 0 then 0 else Suc (blen (n div 2)))"
  by pat_completeness auto
termination
  by (relation "measure nat") auto

declare blen.simps [simp del]

definition pow2 :: "int \<Rightarrow> rat" where
  "pow2 k = (if 0 \<le> k then 2 ^ nat k else 1 / 2 ^ nat (- k))"

definition round_half_even :: "rat \<Rightarrow> int" where
  "round_half_even y =
     (let f = \<lfloor>y\<rfloor>; d = y - of_int f
      in if d < 1/2 then f else if 1/2 < d then f + 1 else if even f then f else f + 1)"

definition binexp :: "int \<Rightarrow> int \<Rightarrow> int" where
  "binexp p q =
     (let d = int (blen p) - int (blen q)
      in if of_int p / of_int q < pow2 d then d - 1 else d)"

definition fl :: "rat \<Rightarrow> rat" where
  "fl x =
     (if x \<le> 0 then 0
      else let u = pow2 (binexp (fst (quotient_of x)) (snd (quotient_of x)) - 52)
           in of_int (round_half_even (x / u)) * u)"

subsection \<open>Powers of two\<close>

lemma pow2_pos [simp]: "0 < pow2 k"
  by (simp add: pow2_def)

lemma pow2_nonneg [simp]: "0 \<le> pow2 k"
  using pow2_pos [of k] by linarith

lemma pow2_neq0 [simp]: "pow2 k \<noteq> 0"
  using pow2_pos [of k] by linarith

lemma pow2_0 [simp]: "pow2 0 = 1"
  by (simp add: pow2_def)

lemma pow2_of_nat: "pow2 (int n) = 2 ^ n"
  by (simp add: pow2_def)

lemma pow2_Suc: "pow2 (k + 1) = 2 * pow2 k"
proof (cases "0 \<le> k")
  case True
  then show ?thesis by (simp add: pow2_def nat_add_distrib)
next
  case False
  then obtain n where n: "k = - int (Suc n)"
    by (metis not_less int_cases less_le_not_le of_nat_0_le_iff)
  show ?thesis
    by (cases n) (simp_all add: pow2_def n nat_add_distrib field_simps)
qed

lemma pow2_diff_1: "pow2 (k - 1) = pow2 k / 2"
  using pow2_Suc [of "k - 1"] by simp

lemma pow2_add_nat: "pow2 (k + int n) = pow2 k * 2 ^ n"
proof (induction n)
  case 0
  then show ?case by simp
next
  case (Suc n)
  have "pow2 (k + int (Suc n)) = pow2 ((k + int n) + 1)"
    by (simp add: algebra_simps)
  also have "\<dots> = 2 * pow2 (k + int n)" by (rule pow2_Suc)
  finally show ?case using Suc by simp
qed

lemma pow2_sub_nat: "pow2 (k - int n) = pow2 k / 2 ^ n"
  using pow2_add_nat [of "k - int n" n] by (simp add: field_simps)

lemma pow2_mono: "j \<le> k \<Longrightarrow> pow2 j \<le> pow2 k"
proof -
  assume "j \<le> k"
  then obtain n where "k = j + int n"
    using zle_iff_zadd by blast
  then show ?thesis
    by (simp add: pow2_add_nat)
qed

subsection \<open>The exponent normalises\<close>

lemma blen_bounds: "0 < n \<Longrightarrow> 2 ^ (blen n - 1) \<le> n \<and> n < 2 ^ blen n"
proof (induction n rule: blen.induct)
  case (1 n)
  show ?case
  proof (cases "n div 2 \<le> 0")
    case True
    with "1.prems" have "n = 1" by auto
    then show ?thesis by (simp add: blen.simps)
  next
    case False
    with 1 have IH: "2 ^ (blen (n div 2) - 1) \<le> n div 2" "n div 2 < 2 ^ blen (n div 2)"
      by auto
    from False have b: "blen n = Suc (blen (n div 2))"
      by (subst blen.simps) auto
    from False have "0 < blen (n div 2)"
      by (subst blen.simps) auto
    then obtain k where k: "blen (n div 2) = Suc k"
      by (cases "blen (n div 2)") auto
    from IH(1) IH(2) k have "2 * 2 ^ k \<le> n" "n < 2 * (2 * 2 ^ k)"
      by auto
    then show ?thesis using b k by simp
  qed
qed

lemma blen_pos: "0 < n \<Longrightarrow> 0 < blen n"
  by (subst blen.simps) simp

lemma blen_rat_bounds:
  assumes "0 < n"
  shows "(2::rat) ^ blen n \<le> 2 * of_int n \<and> of_int n < (2::rat) ^ blen n"
proof -
  obtain k where k: "blen n = Suc k"
    using blen_pos [OF assms] by (cases "blen n") auto
  with blen_bounds [OF assms] have "2 ^ k \<le> n" "n < 2 ^ Suc k" by auto
  then have "of_int (2 ^ k) \<le> (of_int n :: rat)" "(of_int n :: rat) < of_int (2 ^ Suc k)"
    by (simp_all only: of_int_le_iff of_int_less_iff)
  then show ?thesis by (simp add: k)
qed

lemma binexp_bounds:
  assumes "0 < p" "0 < q"
  shows "pow2 (binexp p q) \<le> of_int p / of_int q \<and> of_int p / of_int q < pow2 (binexp p q + 1)"
proof -
  define a where "a = blen p"
  define b where "b = blen q"
  note a' = blen_rat_bounds [OF assms(1), folded a_def]
  note b' = blen_rat_bounds [OF assms(2), folded b_def]
  have q0: "(0::rat) < of_int q" using assms by simp
  have d: "pow2 (int a - int b) = 2 ^ a / 2 ^ b"
    by (simp add: pow2_sub_nat pow2_of_nat)
  have "(2::rat) ^ a * of_int q < (2 * of_int p) * 2 ^ b"
    using a' b' q0 by (intro mult_le_less_imp_less) auto
  then have lo: "pow2 (int a - int b) / 2 < of_int p / of_int q"
    using q0 by (simp add: d field_simps)
  have "of_int p * (2::rat) ^ b < 2 ^ a * (2 * of_int q)"
    using a' b' q0 assms by (intro mult_less_le_imp_less) auto
  then have hi: "of_int p / of_int q < 2 * pow2 (int a - int b)"
    using q0 by (simp add: d field_simps)
  show ?thesis
    using lo hi by (auto simp: binexp_def Let_def a_def b_def pow2_Suc pow2_diff_1)
qed

lemma quotient_of_pos:
  assumes "0 < x"
  obtains p q where "quotient_of x = (p, q)" "0 < p" "0 < q" "x = of_int p / of_int q"
proof -
  obtain a b where ab: "quotient_of x = (a, b)" by (cases "quotient_of x")
  have b: "0 < b" using ab quotient_of_denom_pos by blast
  have x: "x = of_int a / of_int b" using ab quotient_of_div by blast
  with assms b have "0 < a" by (simp add: zero_less_divide_iff)
  with b ab x show thesis by (intro that)
qed

lemma fl_unit:
  assumes "0 < x"
  obtains e where "pow2 e \<le> x" "x < pow2 (e + 1)"
    "fl x = of_int (round_half_even (x / pow2 (e - 52))) * pow2 (e - 52)"
proof -
  obtain p q where *: "quotient_of x = (p, q)" "0 < p" "0 < q" "x = of_int p / of_int q"
    using quotient_of_pos [OF assms] .
  have "fl x = of_int (round_half_even (x / pow2 (binexp p q - 52))) * pow2 (binexp p q - 52)"
    using assms by (simp add: fl_def Let_def *(1))
  with binexp_bounds [OF *(2,3)] show thesis
    unfolding *(4) [symmetric] by (intro that [of "binexp p q"]) auto
qed

subsection \<open>Rounding error and exactness\<close>

lemma round_half_even_error: "\<bar>of_int (round_half_even y) - y\<bar> \<le> 1/2"
proof -
  have "of_int \<lfloor>y\<rfloor> \<le> y" "y < of_int \<lfloor>y\<rfloor> + 1" by linarith+
  then show ?thesis
    by (auto simp: round_half_even_def Let_def)
qed

lemma round_half_even_int [simp]: "round_half_even (of_int n) = n"
  by (simp add: round_half_even_def)

lemma fl_0 [simp]: "fl 0 = 0"
  by (simp add: fl_def)

lemma fl_error:
  assumes "0 < x"
  shows "\<bar>fl x - x\<bar> \<le> x / 2 ^ 53"
proof -
  obtain e where e: "pow2 e \<le> x" "x < pow2 (e + 1)"
    "fl x = of_int (round_half_even (x / pow2 (e - 52))) * pow2 (e - 52)"
    using fl_unit [OF assms] .
  let ?u = "pow2 (e - 52)"
  have u: "?u = pow2 e / 2 ^ 52"
    using pow2_sub_nat [of e 52] by simp
  have "fl x - x = (of_int (round_half_even (x / ?u)) - x / ?u) * ?u"
    by (simp add: e(3) left_diff_distrib)
  then have "\<bar>fl x - x\<bar> = \<bar>of_int (round_half_even (x / ?u)) - x / ?u\<bar> * ?u"
    by (simp add: abs_mult)
  also have "\<dots> \<le> 1/2 * ?u"
    by (intro mult_right_mono round_half_even_error) simp
  also have "\<dots> \<le> x / 2 ^ 53"
    using e(1) by (simp add: u field_simps)
  finally show ?thesis .
qed

lemma fl_pos: "0 < x \<Longrightarrow> 0 < fl x"
proof -
  assume x: "0 < x"
  have "x / 2 ^ 53 < x" using x by (simp add: field_simps)
  with fl_error [OF x] x show ?thesis by linarith
qed

lemma fl_nonneg [simp]: "0 \<le> fl x"
  using fl_pos [of x] by (cases "0 < x") (auto simp: fl_def)

lemma fl_upper: "0 \<le> x \<Longrightarrow> fl x \<le> x + x / 2 ^ 53"
  using fl_error [of x] by (cases "x = 0") (simp, linarith)

lemma fl_lower: "0 \<le> x \<Longrightarrow> x - x / 2 ^ 53 \<le> fl x"
  using fl_error [of x] by (cases "x = 0") (simp, linarith)

text \<open>Dyadic rationals with at most 53 significant bits are floats.\<close>

lemma fl_dyadic:
  assumes "n < 2 ^ 53"
  shows "fl (of_nat n / 2 ^ k) = of_nat n / 2 ^ k"
proof (cases "n = 0")
  case True
  then show ?thesis by simp
next
  case False
  let ?x = "of_nat n / 2 ^ k :: rat"
  have x0: "0 < ?x" using False by simp
  obtain e where e: "pow2 e \<le> ?x" "?x < pow2 (e + 1)"
    "fl ?x = of_int (round_half_even (?x / pow2 (e - 52))) * pow2 (e - 52)"
    using fl_unit [OF x0] .
  have xk: "?x = of_nat n * pow2 (- int k)"
    using pow2_sub_nat [of 0 k] by (simp add: field_simps)
  have n53: "of_nat n < (2::rat) ^ 53"
    using assms by (metis of_nat_less_iff of_nat_numeral of_nat_power)
  have "?x < pow2 (53 - int k)"
  proof -
    have "pow2 (53 - int k) = 2 ^ 53 / 2 ^ k"
      using pow2_sub_nat [of 53 k] pow2_of_nat [of 53] by simp
    with n53 show ?thesis by (simp add: divide_strict_right_mono)
  qed
  with e(1) have "pow2 e < pow2 (53 - int k)" by linarith
  then have ek: "e < 53 - int k"
    using pow2_mono [of "53 - int k" e] by linarith
  then obtain j where j: "- int k = (e - 52) + int j"
    using zle_iff_zadd [of "e - 52" "- int k"] by auto
  have "?x / pow2 (e - 52) = of_int (int n * 2 ^ j)"
    using j by (simp add: xk pow2_add_nat)
  then have "fl ?x = of_int (int n * 2 ^ j) * pow2 (e - 52)"
    by (simp add: e(3) del: of_int_mult)
  also have "\<dots> = ?x"
    using j by (simp add: xk pow2_add_nat)
  finally show ?thesis .
qed

lemma fl_of_nat: "n < 2 ^ 53 \<Longrightarrow> fl (of_nat n) = of_nat n"
  using fl_dyadic [of n 0] by simp

end
