(* ===== verification/Contract.thy ===== *)
theory Contract
  imports Float64
begin

section \<open>Desktop authority and frame credit (host\_desktop\_contract.py)\<close>

text \<open>
  The argument checks every command goes through, the capture size computation in binary64, the
  authority that binds input to frames sent and painted in the current generation, and the credit
  window of undelivered frames. A method that raises \<open>DesktopError\<close> before it changes a field
  returns \<open>Inl\<close> of the code; none changes a field and then raises.
\<close>

subsection \<open>Argument checks\<close>

definition max_id :: int where
  "max_id = 2 ^ 53 - 1"

definition in_range :: "int \<Rightarrow> int \<Rightarrow> int \<Rightarrow> bool" where
  "in_range n low high \<longleftrightarrow> low \<le> n \<and> n \<le> high"

definition integer :: "pyval \<Rightarrow> int \<Rightarrow> int \<Rightarrow> bool" where
  "integer v low high = (case v of PInt n \<Rightarrow> in_range n low high | _ \<Rightarrow> False)"

definition text_value :: "pyval \<Rightarrow> nat \<Rightarrow> bool" where
  "text_value v maximum =
     (case v of
        PStr s \<Rightarrow> 0 \<notin> set s \<and> (case utf8_encode s of None \<Rightarrow> False | Some b \<Rightarrow> length b \<le> maximum)
      | _ \<Rightarrow> False)"

lemma integer_PInt [simp, guard_simps]: "integer (PInt n) low high \<longleftrightarrow> low \<le> n \<and> n \<le> high"
  by (simp add: integer_def in_range_def)

lemma integerE:
  assumes "integer v low high"
  obtains n where "v = PInt n" "low \<le> n" "n \<le> high"
  using assms by (cases v) (auto simp: integer_def in_range_def)

subsection \<open>Capture size\<close>

text \<open>
  \<open>limit / max(width, height)\<close> is a correctly rounded quotient; \<open>min(1, _)\<close> is exact; the
  product by \<open>scale\<close> and the halving each round.
\<close>

definition scale_of :: "int \<Rightarrow> int \<Rightarrow> rat" where
  "scale_of longest limit = min 1 (fl (of_int limit / of_int longest))"

definition scaled_edge :: "int \<Rightarrow> rat \<Rightarrow> int" where
  "scaled_edge n scale = max 2 (\<lfloor>fl (fl (of_int n * scale) / 2)\<rfloor> * 2)"

definition capture_size :: "int \<Rightarrow> int \<Rightarrow> int \<Rightarrow> bool \<Rightarrow> code + (int \<times> int)" where
  "capture_size width height limit native =
     (if \<not> in_range width 2 32768 \<or> \<not> in_range height 2 32768 \<or> \<not> in_range limit 2 4096
      then Inl INVALID_ARGUMENT
      else if native then
        (if width > 8192 \<or> height > 8192 \<or> width * height > 16 * 2 ^ 20
            \<or> width mod 2 \<noteq> 0 \<or> height mod 2 \<noteq> 0
         then Inl NATIVE_RESOLUTION_UNSUPPORTED
         else Inr (width, height))
      else let scale = scale_of (max width height) limit
           in Inr (scaled_edge width scale, scaled_edge height scale))"

lemma scaled_edge_even: "even (scaled_edge n scale)"
  by (simp add: scaled_edge_def max_def)

lemma scaled_edge_ge2: "2 \<le> scaled_edge n scale"
  by (simp add: scaled_edge_def)

lemma scale_of_pos: "0 < m \<Longrightarrow> 0 < l \<Longrightarrow> 0 < scale_of m l"
  by (simp add: scale_of_def fl_pos)

lemma scale_of_le1: "scale_of m l \<le> 1"
  by (simp add: scale_of_def)

text \<open>A picture that fits under the limit is not scaled at all.\<close>

lemma scale_of_fits:
  assumes "0 < m" "m \<le> l" "l \<le> 32768"
  shows "scale_of m l = 1"
proof (cases "m = l")
  case True
  with assms fl_of_nat [of 1] show ?thesis by (simp add: scale_of_def)
next
  case False
  with assms have "m + 1 \<le> l" by simp
  then have ml: "of_int m + 1 \<le> (of_int l :: rat)"
    by (metis of_int_1 of_int_add of_int_le_iff)
  define x where "x = (of_int l / of_int m :: rat)"
  define r where "r = (1 / of_int m :: rat)"
  have m0: "(0::rat) < of_int m" using assms by simp
  have "of_int l \<le> (32768::rat)" using assms(3) by (metis of_int_le_iff of_int_numeral)
  then have hi: "x \<le> 32768 * r"
    using m0 by (simp add: x_def r_def divide_right_mono)
  have "(of_int m + 1) / of_int m \<le> x"
    unfolding x_def using ml m0 by (intro divide_right_mono) auto
  then have lo: "1 + r \<le> x" using m0 by (simp add: add_divide_distrib r_def)
  have "0 < r" using m0 by (simp add: r_def)
  with hi lo have "1 \<le> x - x / 2 ^ 53" by simp
  moreover have "x - x / 2 ^ 53 \<le> fl x"
    using m0 assms by (intro fl_lower) (auto simp: x_def)
  ultimately show ?thesis by (simp add: scale_of_def x_def)
qed

lemma scaled_edge_1:
  assumes "2 \<le> n" "n \<le> 32768"
  shows "scaled_edge n 1 = n div 2 * 2"
proof -
  obtain k where k: "n = int k" using assms nonneg_int_cases [of n] by auto
  have small: "k < 2 ^ 53" using assms k by simp
  have "fl (of_nat k) = of_nat k" and half: "fl (of_nat k / 2 ^ 1) = of_nat k / 2 ^ 1"
    using fl_of_nat [OF small] fl_dyadic [OF small] by blast+
  then have "fl (fl (of_int n * 1) / 2) = of_int (int k) / of_int 2"
    by (simp only: k of_int_of_nat_eq mult_1_right power_one_right of_int_numeral)
  then have "\<lfloor>fl (fl (of_int n * 1) / 2)\<rfloor> = \<lfloor>of_int (int k) / of_int 2 :: rat\<rfloor>"
    by (simp only:)
  also have "\<dots> = n div 2"
    unfolding floor_divide_of_int_eq k ..
  finally show ?thesis using assms by (simp add: scaled_edge_def)
qed

text \<open>The three roundings together push a scaled edge up by less than one pixel.\<close>

lemma fl_chain_upper:
  assumes y: "0 \<le> y" "y \<le> L + L / 2 ^ 53" and L: "0 < L" "L \<le> 4096"
  shows "fl (fl y / 2) < L / 2 + 1/2"
proof -
  have "fl y \<le> y + y / 2 ^ 53" using y(1) by (rule fl_upper)
  moreover have "fl (fl y / 2) \<le> fl y / 2 + fl y / 2 / 2 ^ 53"
    by (intro fl_upper) simp
  ultimately show ?thesis using y L by simp
qed

lemma scaled_edge_le_limit:
  assumes n: "2 \<le> n" "n \<le> m" and m: "m \<le> 32768" and l: "2 \<le> l" "l \<le> 4096"
  shows "scaled_edge n (scale_of m l) \<le> l"
proof -
  have m0: "(0::rat) < of_int m" using n by simp
  have nm: "of_int n \<le> (of_int m :: rat)" using n by simp
  have l': "0 < (of_int l :: rat)" "of_int l \<le> (4096::rat)"
    using l by (simp, metis of_int_le_iff of_int_numeral)
  have s0: "0 \<le> scale_of m l" using scale_of_pos [of m l] n l by simp
  have "scale_of m l \<le> fl (of_int l / of_int m)" by (simp add: scale_of_def)
  also have "\<dots> \<le> of_int l / of_int m + of_int l / of_int m / 2 ^ 53"
    using m0 l' by (intro fl_upper) simp
  finally have "scale_of m l * of_int m \<le> (of_int l / of_int m + of_int l / of_int m / 2 ^ 53) * of_int m"
    by (rule mult_right_mono [OF _ less_imp_le [OF m0]])
  also have "\<dots> = of_int l + of_int l / 2 ^ 53" using m0 by (simp add: field_simps)
  finally have "scale_of m l * of_int m \<le> of_int l + of_int l / 2 ^ 53" .
  moreover have "scale_of m l * of_int n \<le> scale_of m l * of_int m"
    using s0 nm by (simp add: mult_left_mono)
  ultimately have "scale_of m l * of_int n \<le> of_int l + of_int l / 2 ^ 53" by linarith
  then have "fl (fl (of_int n * scale_of m l) / 2) < of_int l / 2 + 1/2"
    using s0 n l' by (intro fl_chain_upper) (auto simp: mult.commute)
  then have "\<lfloor>fl (fl (of_int n * scale_of m l) / 2)\<rfloor> * 2 \<le> l"
    by linarith
  then show ?thesis using l by (simp add: scaled_edge_def)
qed

subsection \<open>Authority\<close>

datatype mode = View | Control

text \<open>
  The \<open>state\<close> field holds one of these strings, or the diagnostic code the helper suspended with.
\<close>

datatype status =
    Disconnected | Active | Locked | Locking | Ready | SessionUnavailable | UserSwitched
  | CaptureFailed | PermissionRevoked | Suspended code

record authority =
  au_generation :: int
  au_display :: "pyval"
  au_mode :: mode
  au_state :: status
  last_sent :: int
  last_painted :: int
  locked_frame :: int

definition new_authority :: authority where
  "new_authority = \<lparr>au_generation = 0, au_display = PNone, au_mode = View, au_state = Disconnected,
     last_sent = 0, last_painted = 0, locked_frame = 0\<rparr>"

definition mode_of :: "pyval \<Rightarrow> mode option" where
  "mode_of v = (if v = PStr (py ''view'') then Some View
                else if v = PStr (py ''control'') then Some Control else None)"

definition display_id_ok :: "pyval \<Rightarrow> bool" where
  "display_id_ok v = (case v of PStr s \<Rightarrow> 0 < length s \<and> length s \<le> 160 | _ \<Rightarrow> False)"

definition auth_bind :: "pyval \<Rightarrow> pyval \<Rightarrow> authority \<Rightarrow> code + authority" where
  "auth_bind display md a =
     (if \<not> display_id_ok display then Inl INVALID_ARGUMENT
      else case mode_of md of None \<Rightarrow> Inl INVALID_ARGUMENT
      | Some m \<Rightarrow> Inr (a\<lparr>au_generation := au_generation a + 1, au_display := display, au_mode := m,
                       au_state := Active, last_sent := 0, last_painted := 0, locked_frame := 0\<rparr>))"

definition auth_revoke :: "status \<Rightarrow> authority \<Rightarrow> authority" where
  "auth_revoke st a = a\<lparr>au_generation := au_generation a + 1, au_state := st, last_sent := 0,
     last_painted := 0, locked_frame := 0\<rparr>"

definition bind_locked_frame :: "pyval \<Rightarrow> authority \<Rightarrow> code + authority" where
  "bind_locked_frame frame a =
     (case frame of
        PInt n \<Rightarrow> if au_state a \<noteq> Locked \<or> \<not> in_range n 1 max_id then Inl STALE_DESKTOP
                  else Inr (a\<lparr>locked_frame := n\<rparr>)
      | _ \<Rightarrow> Inl STALE_DESKTOP)"

definition unlock_input :: "pyval \<Rightarrow> pyval \<Rightarrow> authority \<Rightarrow> code + unit" where
  "unlock_input generation frame a =
     (if au_state a \<noteq> Locked \<or> \<not> py_eq generation (au_generation a) \<or> \<not> py_eq frame (locked_frame a)
      then Inl STALE_DESKTOP else Inr ())"

definition auth_sent :: "pyval \<Rightarrow> authority \<Rightarrow> code + authority" where
  "auth_sent frame a =
     (case frame of
        PInt n \<Rightarrow> if in_range n (last_sent a + 1) max_id then Inr (a\<lparr>last_sent := n\<rparr>) else Inl INVALID_FRAME
      | _ \<Rightarrow> Inl INVALID_FRAME)"

definition auth_paint :: "pyval \<Rightarrow> pyval \<Rightarrow> authority \<Rightarrow> code + authority" where
  "auth_paint generation frame a =
     (case frame of
        PInt n \<Rightarrow> if au_state a \<noteq> Active \<or> \<not> py_eq generation (au_generation a) \<or>
                     \<not> in_range n (max 1 (last_painted a)) (last_sent a)
                  then Inl STALE_DESKTOP else Inr (a\<lparr>last_painted := n\<rparr>)
      | _ \<Rightarrow> Inl STALE_DESKTOP)"

definition auth_input :: "pyval \<Rightarrow> authority \<Rightarrow> code + unit" where
  "auth_input generation a =
     (if au_state a \<noteq> Active \<or> \<not> py_eq generation (au_generation a) \<or> last_painted a = 0
      then Inl STALE_DESKTOP
      else if au_mode a \<noteq> Control then Inl VIEW_ONLY else Inr ())"

lemmas authority_defs = auth_bind_def auth_revoke_def bind_locked_frame_def auth_sent_def auth_paint_def



subsubsection \<open>Sequences of authority operations\<close>

datatype auth_op =
    Bind pyval pyval | Revoke status | BindLocked pyval | Sent pyval | Paint pyval pyval

fun auth_op_step :: "auth_op \<Rightarrow> authority \<Rightarrow> code + authority" where
  "auth_op_step (Bind d m) a = auth_bind d m a"
| "auth_op_step (Revoke st) a = Inr (auth_revoke st a)"
| "auth_op_step (BindLocked f) a = bind_locked_frame f a"
| "auth_op_step (Sent f) a = auth_sent f a"
| "auth_op_step (Paint g f) a = auth_paint g f a"

fun_cases auth_op_Bind: "auth_op_step (Bind d m) a = Inr b"
fun_cases auth_op_Sent: "auth_op_step (Sent f) a = Inr b"
fun_cases auth_op_Paint: "auth_op_step (Paint g f) a = Inr b"


text \<open>
  A refused operation raises and leaves the object as it was. The second component collects the
  operations accepted since the generation last changed, that operation first.
\<close>

definition auth_next :: "authority \<times> auth_op list \<Rightarrow> auth_op \<Rightarrow> authority \<times> auth_op list" where
  "auth_next s p =
     (case auth_op_step p (fst s) of
        Inl _ \<Rightarrow> s
      | Inr b \<Rightarrow> (b, if au_generation b \<noteq> au_generation (fst s) then [p] else snd s @ [p]))"
















text \<open>Generations only grow, and a rebind or a revocation always takes a new one.\<close>

lemma auth_op_generation:
  "auth_op_step p a = Inr b \<Longrightarrow> au_generation a \<le> au_generation b"
  by (cases p) (auto simp: authority_defs split: if_splits option.splits pyval.splits)

lemma auth_next_generation: "au_generation (fst s) \<le> au_generation (fst (auth_next s p))"
  by (auto simp: auth_next_def auth_op_generation split: sum.splits)

lemma auth_foldl_generation: "au_generation (fst s) \<le> au_generation (fst (foldl auth_next s ops))"
proof (induction ops arbitrary: s)
  case Nil
  then show ?case by simp
next
  case (Cons p ops)
  show ?case using auth_next_generation [of s p] Cons.IH [of "auth_next s p"] by simp
qed


subsection \<open>Frame credit\<close>

record frame_credit =
  fc_capacity :: int
  fc_sequence :: int
  fc_acknowledged :: int

definition new_credit :: "int \<Rightarrow> code + frame_credit" where
  "new_credit capacity =
     (if in_range capacity 1 8
      then Inr \<lparr>fc_capacity = capacity, fc_sequence = 0, fc_acknowledged = 0\<rparr>
      else Inl INVALID_ARGUMENT)"

definition fc_pending :: "frame_credit \<Rightarrow> int" where
  "fc_pending c = fc_sequence c - fc_acknowledged c"

definition fc_reserve :: "frame_credit \<Rightarrow> int option \<times> frame_credit" where
  "fc_reserve c =
     (if fc_pending c \<ge> fc_capacity c then (None, c)
      else (Some (fc_sequence c + 1), c\<lparr>fc_sequence := fc_sequence c + 1\<rparr>))"

definition fc_acknowledge :: "pyval \<Rightarrow> frame_credit \<Rightarrow> code + frame_credit" where
  "fc_acknowledge frame c =
     (case frame of
        PInt n \<Rightarrow> if in_range n 1 (fc_sequence c)
                  then Inr (c\<lparr>fc_acknowledged := max (fc_acknowledged c) n\<rparr>) else Inl INVALID_FRAME
      | _ \<Rightarrow> Inl INVALID_FRAME)"

definition fc_reset :: "frame_credit \<Rightarrow> frame_credit" where
  "fc_reset c = c\<lparr>fc_acknowledged := fc_sequence c\<rparr>"

definition fc_inv :: "frame_credit \<Rightarrow> bool" where
  "fc_inv c \<longleftrightarrow> in_range (fc_capacity c) 1 8 \<and> 0 \<le> fc_acknowledged c \<and>
     fc_acknowledged c \<le> fc_sequence c \<and> fc_pending c \<le> fc_capacity c"

lemma fc_inv_new [inv_intros]: "new_credit n = Inr c \<Longrightarrow> fc_inv c"
  by (auto simp: new_credit_def fc_inv_def fc_pending_def in_range_def split: if_splits)

lemma fc_inv_reserve [inv_intros]: "fc_inv c \<Longrightarrow> fc_inv (snd (fc_reserve c))"
  by (auto simp: fc_reserve_def fc_inv_def fc_pending_def in_range_def)

lemma fc_inv_acknowledge [inv_intros]: "fc_acknowledge f c = Inr c' \<Longrightarrow> fc_inv c \<Longrightarrow> fc_inv c'"
  by (auto simp: fc_acknowledge_def fc_inv_def fc_pending_def in_range_def
        split: pyval.splits if_splits)

lemma fc_inv_reset [inv_intros]: "fc_inv c \<Longrightarrow> fc_inv (fc_reset c)"
  by (auto simp: fc_reset_def fc_inv_def fc_pending_def in_range_def)

subsubsection \<open>The contract of a delivery window\<close>

text \<open>A producer that asks for an identifier \<open>k\<close> times, until there is none.\<close>

fun reserve_many :: "('w \<Rightarrow> int option \<times> 'w) \<Rightarrow> nat \<Rightarrow> 'w \<Rightarrow> int list \<times> 'w" where
  "reserve_many reserve 0 w = ([], w)"
| "reserve_many reserve (Suc k) w =
     (case reserve w of
        (None, w') \<Rightarrow> ([], w')
      | (Some n, w') \<Rightarrow> (let (ns, w'') = reserve_many reserve k w' in (n # ns, w'')))"

text \<open>
  What a producer of frames relies on, whatever the credit is made of: identifiers are handed out
  in order and never twice, at most \<open>cap\<close> of them are outstanding, and an acknowledgement retires
  exactly the identifiers up to it.
\<close>

locale delivery_window =
  fixes outstanding :: "'w \<Rightarrow> int set"
    and issued :: "'w \<Rightarrow> int"
    and cap :: "'w \<Rightarrow> nat"
    and reserve :: "'w \<Rightarrow> int option \<times> 'w"
    and acknowledge :: "int \<Rightarrow> 'w \<Rightarrow> 'w"
    and ok :: "'w \<Rightarrow> bool"
  assumes finite_out: "ok w \<Longrightarrow> finite (outstanding w) \<and> (\<forall>n \<in> outstanding w. n \<le> issued w)"
    and bounded: "ok w \<Longrightarrow> card (outstanding w) \<le> cap w"
    and reserve_full: "ok w \<Longrightarrow> card (outstanding w) = cap w \<Longrightarrow> reserve w = (None, w)"
    and reserve_free: "ok w \<Longrightarrow> card (outstanding w) < cap w \<Longrightarrow>
          \<exists>w'. reserve w = (Some (issued w + 1), w') \<and> ok w' \<and> issued w' = issued w + 1 \<and>
               cap w' = cap w \<and> outstanding w' = insert (issued w + 1) (outstanding w)"
    and ack: "ok w \<Longrightarrow> 1 \<le> n \<Longrightarrow> n \<le> issued w \<Longrightarrow>
          ok (acknowledge n w) \<and> issued (acknowledge n w) = issued w \<and> cap (acknowledge n w) = cap w \<and>
          outstanding (acknowledge n w) = {m \<in> outstanding w. n < m}"
begin

lemma reserve_many_spec:
  "ok w \<Longrightarrow> fst (reserve_many reserve k w) = map (\<lambda>i. issued w + 1 + int i) [0..<min k (cap w - card (outstanding w))]"
proof (induction k arbitrary: w)
  case 0
  then show ?case by simp
next
  case (Suc k)
  show ?case
  proof (cases "card (outstanding w) = cap w")
    case True
    then show ?thesis using reserve_full Suc.prems by simp
  next
    case False
    with bounded Suc.prems have less: "card (outstanding w) < cap w" by fastforce
    from reserve_free [OF Suc.prems less] obtain w' where w':
      "reserve w = (Some (issued w + 1), w')" "ok w'" "issued w' = issued w + 1" "cap w' = cap w"
      "outstanding w' = insert (issued w + 1) (outstanding w)" by blast
    have "issued w + 1 \<notin> outstanding w" using finite_out [OF Suc.prems] by fastforce
    then have c: "card (outstanding w') = Suc (card (outstanding w))"
      using w' finite_out [OF Suc.prems] by simp
    have m: "min (Suc k) (cap w - card (outstanding w)) =
             Suc (min k (cap w' - card (outstanding w')))"
      using less w' c by simp
    show ?thesis
      using Suc.IH [OF w'(2)] w' unfolding m
      by (simp add: case_prod_beta map_upt_Suc algebra_simps del: upt_Suc)
  qed
qed

lemma reserve_full_after_cap: "ok w \<Longrightarrow> length (fst (reserve_many reserve (cap w + k) w)) = cap w - card (outstanding w)"
  by (simp add: reserve_many_spec)

end

definition fc_outstanding :: "frame_credit \<Rightarrow> int set" where
  "fc_outstanding c = {fc_acknowledged c<..fc_sequence c}"

definition fc_ack_int :: "int \<Rightarrow> frame_credit \<Rightarrow> frame_credit" where
  "fc_ack_int n c = (case fc_acknowledge (PInt n) c of Inl _ \<Rightarrow> c | Inr c' \<Rightarrow> c')"

lemma card_fc_outstanding: "card (fc_outstanding c) = nat (fc_pending c)"
  by (simp add: fc_outstanding_def fc_pending_def)

interpretation credit: delivery_window fc_outstanding fc_sequence "\<lambda>c. nat (fc_capacity c)"
  fc_reserve fc_ack_int fc_inv
proof (unfold_locales, goal_cases)
  case (4 w)
  then have "fc_inv (snd (fc_reserve w))" by (intro fc_inv_reserve)
  with 4 show ?case
    by (auto simp: fc_reserve_def card_fc_outstanding fc_outstanding_def fc_inv_def fc_pending_def)
next
  case (5 w n)
  then have "fc_inv (fc_ack_int n w)"
    using fc_inv_acknowledge by (auto simp: fc_ack_int_def split: sum.splits)
  with 5 show ?case
    by (auto simp: fc_ack_int_def fc_acknowledge_def in_range_def fc_outstanding_def)
qed (auto simp: card_fc_outstanding fc_inv_def fc_pending_def fc_reserve_def fc_outstanding_def in_range_def)


subsection \<open>Properties\<close>

text \<open>A requested capture size is refused exactly when an argument is out of its range, or, in native
  resolution, when the picture is odd, wider or higher than 8192 or above sixteen megapixels. What is
  returned is even, at least 2 by 2 and, unless native, within the limit on both edges, with the
  rounding of the binary64 arithmetic included.\<close>
theorem capture_size_bounds:
  "case capture_size width height limit native of
     Inl e \<Rightarrow>
       (e = INVALID_ARGUMENT \<and>
          \<not> (2 \<le> width \<and> width \<le> 32768 \<and> 2 \<le> height \<and> height \<le> 32768 \<and> 2 \<le> limit \<and> limit \<le> 4096)) \<or>
       (e = NATIVE_RESOLUTION_UNSUPPORTED \<and> native \<and>
          (width > 8192 \<or> height > 8192 \<or> width * height > 16777216 \<or> odd width \<or> odd height))
   | Inr (w, h) \<Rightarrow> even w \<and> even h \<and> 2 \<le> w \<and> 2 \<le> h \<and>
       (if native then w = width \<and> h = height \<and> w * h \<le> 16777216 else w \<le> limit \<and> h \<le> limit)"
proof (cases "in_range width 2 32768 \<and> in_range height 2 32768 \<and> in_range limit 2 4096")
  case False
  then show ?thesis by (auto simp: capture_size_def in_range_def)
next
  case True
  then have r: "2 \<le> width" "width \<le> 32768" "2 \<le> height" "height \<le> 32768" "2 \<le> limit" "limit \<le> 4096"
    by (simp_all add: in_range_def)
  show ?thesis
  proof (cases native)
    case True
    with r show ?thesis by (auto simp: capture_size_def in_range_def even_iff_mod_2_eq_zero)
  next
    case False
    have "scaled_edge width (scale_of (max width height) limit) \<le> limit"
      "scaled_edge height (scale_of (max width height) limit) \<le> limit"
      using r by (auto intro!: scaled_edge_le_limit)
    with False r show ?thesis
      by (simp add: capture_size_def in_range_def scaled_edge_even scaled_edge_ge2 Let_def)
  qed
qed

lemma capture_size_bounds_witness:
  "\<exists>w h. capture_size 1921 1080 1280 False = Inr (w, h) \<and> w \<le> 1280 \<and> h \<le> 1280"
  using capture_size_bounds [of 1921 1080 1280 False] by (auto split: sum.splits)

text \<open>A picture that already fits under the limit is captured at its own size, rounded down to even
  edges: no binary64 rounding loses a pixel there.\<close>
theorem capture_size_fits:
  assumes "2 \<le> width" "2 \<le> height" "width \<le> limit" "height \<le> limit" "limit \<le> 4096"
  shows "capture_size width height limit False = Inr (width div 2 * 2, height div 2 * 2)"
proof -
  have "scale_of (max width height) limit = 1" using assms by (intro scale_of_fits) auto
  moreover have "scaled_edge width 1 = width div 2 * 2" "scaled_edge height 1 = height div 2 * 2"
    using assms by (auto intro: scaled_edge_1)
  ultimately show ?thesis using assms by (simp add: capture_size_def in_range_def Let_def)
qed

lemma capture_size_fits_witness: "capture_size 1279 721 1920 False = Inr (1278, 720)"
  using capture_size_fits [of 1279 721 1920] by simp

text \<open>Scaling down can miss the limit: for a 2156 by 2 picture under the limit 1600 the rounded
  product 2156 * (1600 / 2156) is below 1600, so the longest edge is 1598 although 1600 is even and
  allowed.\<close>
theorem capture_size_misses_limit: "capture_size 2156 2 1600 False = Inr (1598, 2)"
  by code_simp



text \<open>A generation that is not the current one is refused for good: whatever is bound, revoked, sent
  or painted later, input and paint under it fail with \<open>STALE_DESKTOP\<close>.\<close>
theorem stale_generation_refused:
  assumes "py_eq g n" "n < au_generation (fst s)"
  shows "auth_input g (fst (foldl auth_next s ops)) = Inl STALE_DESKTOP \<and>
    auth_paint g f (fst (foldl auth_next s ops)) = Inl STALE_DESKTOP"
proof -
  have "n < au_generation (fst (foldl auth_next s ops))"
    using assms(2) auth_foldl_generation [of s ops] by linarith
  then have "\<not> py_eq g (au_generation (fst (foldl auth_next s ops)))" using py_eq_inj [OF assms(1)] by force
  then show ?thesis by (auto simp: auth_input_def auth_paint_def split: pyval.split)
qed

lemma stale_generation_refused_witness:
  "auth_input (PInt 0) (fst (foldl auth_next (new_authority\<lparr>au_generation := 3\<rparr>, []) [Sent (PInt 1)])) = Inl STALE_DESKTOP"
  by (rule stale_generation_refused [of "PInt 0" 0, THEN conjunct1]) simp_all

text \<open>Right after a revocation to the locked state, input for frame 0 of the new generation unlocks,
  although no locked frame has been bound: the reset value of \<open>locked_frame\<close> passes its own check.\<close>
theorem unlock_without_frame:
  "unlock_input (PInt (au_generation a + 1)) (PInt 0) (auth_revoke Locked a) = Inr ()"
  by (simp add: unlock_input_def auth_revoke_def)

text \<open>Frames are reserved in order with no identifier skipped or reused, until the credit is full;
  a producer that keeps asking gets exactly as many identifiers as there is credit left.\<close>
theorem credit_reserves_in_order:
  assumes "fc_inv c"
  shows "fst (reserve_many fc_reserve k c) =
    map (\<lambda>i. fc_sequence c + 1 + int i) [0..<min k (nat (fc_capacity c) - card (fc_outstanding c))]"
  using assms by (rule credit.reserve_many_spec)

lemma credit_reserves_in_order_witness:
  "fst (reserve_many fc_reserve 9 \<lparr>fc_capacity = 4, fc_sequence = 6, fc_acknowledged = 5\<rparr>) = [7, 8, 9]"
proof -
  let ?c = "\<lparr>fc_capacity = 4, fc_sequence = 6, fc_acknowledged = 5\<rparr>"
  have "fc_inv ?c" by (simp add: fc_inv_def fc_pending_def in_range_def)
  from credit_reserves_in_order [OF this, of 9] show ?thesis
    by (simp add: card_fc_outstanding fc_pending_def upt_rec)
qed

end
