(* ===== verification/Held_Input.thy ===== *)
theory Held_Input
  imports Contract
begin

section \<open>Physical keys and held input (host\_desktop\_input.py)\<close>

text \<open>
  The table of physical key identities and \<open>HeldInput\<close>, which owns every key and button it has
  pressed so that they can be released whatever happened to the session. The backend is the
  portal or X11 adapter the constructor is given: a parameter that decides, from the history of
  what was sent, whether a call returns or raises. The history itself is recorded, a call that
  raised included.
\<close>

subsection \<open>Key codes\<close>

definition key_codes_literal :: "(string \<times> int) list" where
  "key_codes_literal = [
    (''Escape'', 1), (''Minus'', 12), (''Equal'', 13), (''Backspace'', 14), (''Tab'', 15),
    (''BracketLeft'', 26), (''BracketRight'', 27), (''Enter'', 28), (''ControlLeft'', 29),
    (''Semicolon'', 39), (''Quote'', 40), (''Backquote'', 41), (''ShiftLeft'', 42), (''Backslash'', 43),
    (''Comma'', 51), (''Period'', 52), (''Slash'', 53), (''ShiftRight'', 54), (''NumpadMultiply'', 55),
    (''AltLeft'', 56), (''Space'', 57), (''CapsLock'', 58), (''NumLock'', 69), (''ScrollLock'', 70),
    (''Numpad7'', 71), (''Numpad8'', 72), (''Numpad9'', 73), (''NumpadSubtract'', 74),
    (''Numpad4'', 75), (''Numpad5'', 76), (''Numpad6'', 77), (''NumpadAdd'', 78),
    (''Numpad1'', 79), (''Numpad2'', 80), (''Numpad3'', 81), (''Numpad0'', 82), (''NumpadDecimal'', 83),
    (''IntlBackslash'', 86), (''F11'', 87), (''F12'', 88), (''NumpadEnter'', 96), (''ControlRight'', 97),
    (''NumpadDivide'', 98), (''PrintScreen'', 99), (''AltRight'', 100), (''Home'', 102),
    (''ArrowUp'', 103), (''PageUp'', 104), (''ArrowLeft'', 105), (''ArrowRight'', 106),
    (''End'', 107), (''ArrowDown'', 108), (''PageDown'', 109), (''Insert'', 110), (''Delete'', 111),
    (''Pause'', 119), (''MetaLeft'', 125), (''MetaRight'', 126), (''ContextMenu'', 127),
    (''IntlRo'', 89), (''IntlYen'', 124), (''NumpadEqual'', 117)]"

text \<open>\<open>enumerate(row, start)\<close> over the characters of a row, each name prefixed.\<close>

fun key_row :: "string \<Rightarrow> int \<Rightarrow> string \<Rightarrow> (string \<times> int) list" where
  "key_row name start [] = []"
| "key_row name start (c # cs) = (name @ [c], start) # key_row name (start + 1) cs"

definition key_codes_function :: "(string \<times> int) list" where
  "key_codes_function =
     [(''F1'', 59), (''F2'', 60), (''F3'', 61), (''F4'', 62), (''F5'', 63),
      (''F6'', 64), (''F7'', 65), (''F8'', 66), (''F9'', 67), (''F10'', 68)]"

definition KEY_CODES :: "(string \<times> int) list" where
  "KEY_CODES = key_codes_literal @ key_row ''Digit'' 2 ''1234567890'' @
     key_row ''Key'' 16 ''QWERTYUIOP'' @ key_row ''Key'' 30 ''ASDFGHJKL'' @
     key_row ''Key'' 44 ''ZXCVBNM'' @ key_codes_function"

definition physical_key :: "pyval \<Rightarrow> code + int" where
  "physical_key v =
     (case v of
        PStr s \<Rightarrow> (case map_of (map (\<lambda>(n, c). (py n, c)) KEY_CODES) s of
                     None \<Rightarrow> Inl KEY_UNSUPPORTED | Some c \<Rightarrow> Inr c)
      | _ \<Rightarrow> Inl KEY_UNSUPPORTED)"

lemma KEY_CODES_distinct: "distinct (map fst KEY_CODES) \<and> distinct (map snd KEY_CODES)"
  by code_simp

lemma KEY_CODES_range: "list_all (\<lambda>(n, c). 1 \<le> c \<and> c \<le> 127) KEY_CODES"
  by code_simp

lemma physical_key_in_table: "physical_key v = Inr c \<Longrightarrow> \<exists>n. v = PStr (py n) \<and> (n, c) \<in> set KEY_CODES"
  by (auto simp: physical_key_def split: pyval.splits option.splits dest!: map_of_SomeD)

subsection \<open>Held keys and buttons\<close>

datatype hid = Key int bool | Button int bool

type_synonym hid_history = "(hid \<times> bool) list"
type_synonym backend = "hid_history \<Rightarrow> hid \<Rightarrow> bool"

record held =
  held_keys :: "int list"
  held_buttons :: "int list"
  hid_history :: hid_history

definition new_held :: held where
  "new_held = \<lparr>held_keys = [], held_buttons = [], hid_history = []\<rparr>"

text \<open>One call of the backend; \<open>False\<close> is an exception.\<close>

definition send_hid :: "backend \<Rightarrow> hid \<Rightarrow> held \<Rightarrow> bool \<times> held" where
  "send_hid b e h =
     (let ok = b (hid_history h) e in (ok, h\<lparr>hid_history := hid_history h @ [(e, ok)]\<rparr>))"

definition held_key :: "backend \<Rightarrow> int \<Rightarrow> bool \<Rightarrow> held \<Rightarrow> bool \<times> held" where
  "held_key b code down h =
     (if down then send_hid b (Key code True) (h\<lparr>held_keys := List.insert code (held_keys h)\<rparr>)
      else if code \<notin> set (held_keys h) then (True, h)
      else case send_hid b (Key code False) h of
             (False, h') \<Rightarrow> (False, h')
           | (True, h') \<Rightarrow> (True, h'\<lparr>held_keys := removeAll code (held_keys h')\<rparr>))"

definition held_button :: "backend \<Rightarrow> int \<Rightarrow> bool \<Rightarrow> held \<Rightarrow> bool \<times> held" where
  "held_button b code down h =
     (if down then send_hid b (Button code True) (h\<lparr>held_buttons := List.insert code (held_buttons h)\<rparr>)
      else if code \<notin> set (held_buttons h) then (True, h)
      else case send_hid b (Button code False) h of
             (False, h') \<Rightarrow> (False, h')
           | (True, h') \<Rightarrow> (True, h'\<lparr>held_buttons := removeAll code (held_buttons h')\<rparr>))"

text \<open>The loops of \<open>release\<close>: an exception of one call is swallowed, the next is still made.\<close>

fun send_all :: "backend \<Rightarrow> hid list \<Rightarrow> held \<Rightarrow> held" where
  "send_all b [] h = h"
| "send_all b (e # es) h = send_all b es (snd (send_hid b e h))"

definition held_release :: "backend \<Rightarrow> held \<Rightarrow> held" where
  "held_release b h =
     send_all b (map (\<lambda>c. Key c False) (held_keys h) @ map (\<lambda>c. Button c False) (held_buttons h))
       (h\<lparr>held_keys := [], held_buttons := []\<rparr>)"

datatype paste_result = Pasted | PasteRefused code | PasteRaised

fun key_sequence :: "backend \<Rightarrow> (int \<times> bool) list \<Rightarrow> held \<Rightarrow> bool \<times> held" where
  "key_sequence b [] h = (True, h)"
| "key_sequence b ((c, d) # ks) h =
     (case held_key b c d h of (False, h') \<Rightarrow> (False, h') | (True, h') \<Rightarrow> key_sequence b ks h')"

definition held_paste :: "backend \<Rightarrow> held \<Rightarrow> paste_result \<times> held" where
  "held_paste b h =
     (if held_keys h \<noteq> [] \<or> held_buttons h \<noteq> [] then (PasteRefused INPUT_KEYS_HELD, h)
      else let (ok, h') = key_sequence b [(29, True), (47, True), (47, False), (29, False)] h
           in (if ok then Pasted else PasteRaised, held_release b h'))"

subsection \<open>What the operating system still holds\<close>

text \<open>The keys (buttons) whose last delivered event is a press.\<close>

fun down_step :: "int set \<times> int set \<Rightarrow> hid \<times> bool \<Rightarrow> int set \<times> int set" where
  "down_step s (_, False) = s"
| "down_step (K, B) (Key c True, True) = (insert c K, B)"
| "down_step (K, B) (Key c False, True) = (K - {c}, B)"
| "down_step (K, B) (Button c True, True) = (K, insert c B)"
| "down_step (K, B) (Button c False, True) = (K, B - {c})"

definition os_down :: "hid_history \<Rightarrow> int set \<times> int set" where
  "os_down t = foldl down_step ({}, {}) t"

lemma os_down_snoc [simp]: "os_down (t @ [x]) = down_step (os_down t) x"
  by (simp add: os_down_def)

text \<open>Whatever the system holds is owned by the object, so it can be released.\<close>

definition held_inv :: "held \<Rightarrow> bool" where
  "held_inv h \<longleftrightarrow> fst (os_down (hid_history h)) \<subseteq> set (held_keys h) \<and>
     snd (os_down (hid_history h)) \<subseteq> set (held_buttons h)"

lemma down_step_cases:
  "fst (down_step s (Key c True, ok)) \<subseteq> insert c (fst s)"
  "snd (down_step s (Key c d, ok)) = snd s"
  "fst (down_step s (Button c d, ok)) = fst s"
  "snd (down_step s (Button c True, ok)) \<subseteq> insert c (snd s)"
  "fst (down_step s (Key c False, ok)) \<subseteq> fst s"
  "snd (down_step s (Button c False, ok)) \<subseteq> snd s"
  "ok \<Longrightarrow> c \<notin> fst (down_step s (Key c False, ok))"
  "ok \<Longrightarrow> c \<notin> snd (down_step s (Button c False, ok))"
  by (cases s; cases ok; cases d; auto)+

lemma held_inv_new [inv_intros]: "held_inv new_held"
  by (simp add: held_inv_def new_held_def os_down_def)

lemma send_hid_simps [simp]:
  "held_keys (snd (send_hid b e h)) = held_keys h"
  "held_buttons (snd (send_hid b e h)) = held_buttons h"
  "hid_history (snd (send_hid b e h)) = hid_history h @ [(e, fst (send_hid b e h))]"
  by (simp_all add: send_hid_def Let_def)

lemma held_inv_key [inv_intros]:
  assumes "held_inv h"
  shows "held_inv (snd (held_key b c d h))"
proof -
  note D = down_step_cases [where s = "os_down (hid_history h)" and c = c]
  show ?thesis
  proof (cases d)
    case True
    then show ?thesis
      using assms D(1,2) by (fastforce simp: held_inv_def held_key_def send_hid_def Let_def)
  next
    case False
    then show ?thesis
      using assms D(2,5,7)
      by (cases "c \<in> set (held_keys h)"; cases "b (hid_history h) (Key c False)")
         (fastforce simp: held_inv_def held_key_def send_hid_def Let_def)+
  qed
qed

lemma held_inv_button [inv_intros]:
  assumes "held_inv h"
  shows "held_inv (snd (held_button b c d h))"
proof -
  note D = down_step_cases [where s = "os_down (hid_history h)" and c = c]
  show ?thesis
  proof (cases d)
    case True
    then show ?thesis
      using assms D(3,4) by (fastforce simp: held_inv_def held_button_def send_hid_def Let_def)
  next
    case False
    then show ?thesis
      using assms D(3,6,8)
      by (cases "c \<in> set (held_buttons h)"; cases "b (hid_history h) (Button c False)")
         (fastforce simp: held_inv_def held_button_def send_hid_def Let_def)+
  qed
qed

subsection \<open>Release\<close>

lemma send_all_keeps [simp]:
  "held_keys (send_all b es h) = held_keys h"
  "held_buttons (send_all b es h) = held_buttons h"
  by (induction es arbitrary: h) simp_all



lemma held_release_empty [simp]:
  "held_keys (held_release b h) = []" "held_buttons (held_release b h) = []"
  by (simp_all add: held_release_def)




subsection \<open>Paste\<close>

lemma held_inv_sequence: "held_inv h \<Longrightarrow> held_inv (snd (key_sequence b ks h))"
proof (induction b ks h rule: key_sequence.induct)
  case (2 b c d ks h)
  then show ?case using held_inv_key [of h b c d] by (auto split: prod.splits bool.splits)
qed simp

text \<open>A key call that returns, as a rewrite rule.\<close>

lemma held_key_press:
  "held_key b c True h = (True, h') \<longleftrightarrow> b (hid_history h) (Key c True) \<and>
     h' = h\<lparr>held_keys := List.insert c (held_keys h),
            hid_history := hid_history h @ [(Key c True, True)]\<rparr>"
  by (auto simp: held_key_def send_hid_def Let_def)

lemma held_key_lift:
  "c \<in> set (held_keys h) \<Longrightarrow> held_key b c False h = (True, h') \<longleftrightarrow> b (hid_history h) (Key c False) \<and>
     h' = h\<lparr>held_keys := removeAll c (held_keys h),
            hid_history := hid_history h @ [(Key c False, True)]\<rparr>"
  by (cases "b (hid_history h) (Key c False)") (auto simp: held_key_def send_hid_def Let_def)

lemma key_sequence_Cons_True:
  "key_sequence b ((c, d) # ks) h = (True, h') \<longleftrightarrow>
     (\<exists>h1. held_key b c d h = (True, h1) \<and> key_sequence b ks h1 = (True, h'))"
  by (auto split: prod.splits bool.splits)

lemma key_sequence_paste:
  assumes "key_sequence b [(29, True), (47, True), (47, False), (29, False)] h = (True, h')"
    "held_keys h = []"
  shows "held_keys h' = [] \<and> held_buttons h' = held_buttons h \<and>
    hid_history h' = hid_history h @
      [(Key 29 True, True), (Key 47 True, True), (Key 47 False, True), (Key 29 False, True)]"
  using assms
  by (auto simp: key_sequence_Cons_True held_key_press held_key_lift simp del: key_sequence.simps(2))


subsection \<open>Properties\<close>

text \<open>The table of physical keys is a bijection between its key names and its key codes, and every
  code it gives out is a valid evdev code between 1 and 127.\<close>
theorem physical_key_injective:
  assumes "physical_key v = Inr c" "physical_key w = Inr c"
  shows "v = w \<and> 1 \<le> c \<and> c \<le> 127"
proof -
  from assms obtain m n where mn: "v = PStr (py m)" "(m, c) \<in> set KEY_CODES" "w = PStr (py n)" "(n, c) \<in> set KEY_CODES"
    by (meson physical_key_in_table)
  have "inj_on snd (set KEY_CODES)" using KEY_CODES_distinct by (simp add: distinct_map)
  from inj_onD [OF this _ mn(2) mn(4)] have "(m, c) = (n, c)" by simp
  then have "m = n" by simp
  moreover have "1 \<le> c \<and> c \<le> 127" using KEY_CODES_range mn(2) by (auto simp: list_all_iff)
  ultimately show ?thesis using mn by simp
qed

lemma physical_key_injective_witness: "1 \<le> (30::int) \<and> (30::int) \<le> 127"
proof -
  have "physical_key (PStr (py ''KeyA'')) = Inr 30" by code_simp
  from physical_key_injective [OF this this] show ?thesis by blast
qed



text \<open>Whatever keys and buttons are pressed and released, with a backend that may refuse any event,
  every key or button the system holds is owned by the object, so a release reaches it.\<close>
theorem held_owns_what_is_down:
  assumes "held_inv h"
  shows "held_inv (snd (held_key b c down h)) \<and> held_inv (snd (held_button b n down h)) \<and>
    held_inv (snd (key_sequence b ks h))"
  using held_inv_key [OF assms] held_inv_button [OF assms] held_inv_sequence [OF assms] by simp

lemma held_owns_what_is_down_witness: "held_inv (snd (held_key (\<lambda>_ _. False) 30 False new_held))"
  using held_owns_what_is_down [OF held_inv_new] by blast

text \<open>A paste is refused while anything is held; one that succeeds is exactly control down, V down, V
  up, control up, each accepted by the backend; and after any paste that was not refused nothing is
  owned any more, so a failure in the middle releases what was pressed.\<close>
theorem paste_is_one_chord:
  "case held_paste b h of
     (PasteRefused e, h') \<Rightarrow> e = INPUT_KEYS_HELD \<and> h' = h \<and> (held_keys h \<noteq> [] \<or> held_buttons h \<noteq> [])
   | (Pasted, h') \<Rightarrow> held_keys h' = [] \<and> held_buttons h' = [] \<and> hid_history h' = hid_history h @
       [(Key 29 True, True), (Key 47 True, True), (Key 47 False, True), (Key 29 False, True)]
   | (PasteRaised, h') \<Rightarrow> held_keys h' = [] \<and> held_buttons h' = []"
proof (cases "held_keys h \<noteq> [] \<or> held_buttons h \<noteq> []")
  case True
  then show ?thesis by (simp add: held_paste_def)
next
  case False
  obtain ok h' where k: "key_sequence b [(29, True), (47, True), (47, False), (29, False)] h = (ok, h')"
    by (cases "key_sequence b [(29, True), (47, True), (47, False), (29, False)] h")
  show ?thesis
  proof (cases ok)
    case True
    with k have "key_sequence b [(29, True), (47, True), (47, False), (29, False)] h = (True, h')" by simp
    from key_sequence_paste [OF this] False
    have seq: "held_keys h' = []" "held_buttons h' = []" "hid_history h' = hid_history h @
      [(Key 29 True, True), (Key 47 True, True), (Key 47 False, True), (Key 29 False, True)]" by simp_all
    then have "hid_history (held_release b h') = hid_history h'" by (simp add: held_release_def)
    with seq k True False show ?thesis unfolding held_paste_def by (simp del: key_sequence.simps)
  next
    case False
    with k show ?thesis unfolding held_paste_def by (simp del: key_sequence.simps)
  qed
qed

lemma paste_is_one_chord_witness: "held_keys (snd (held_paste (\<lambda>_ _. False) new_held)) = []"
  using paste_is_one_chord [where b = "\<lambda>_ _. False" and h = new_held]
  by (auto simp: new_held_def split: prod.splits paste_result.splits)

end
