(* ===== verification/Marker.thy ===== *)
theory Marker
  imports Prelude "HOL-Library.AList"
begin

section \<open>Marker transactions (input\_marker.py)\<close>

text \<open>
  Marker identities beneath the input scheduler. A transaction occupies a key code until the
  native key release is seen; cancelling it only drops its text, so the code stays a tombstone.
  Each method runs under the object's lock, so it is one atomic function of the state. The
  \<open>slots\<close> dictionary is an association list with distinct keys.
\<close>

definition FIRST_CODE :: nat where "FIRST_CODE = 2048"
definition SLOT_COUNT :: nat where "SLOT_COUNT = 32"
definition X11_CODE :: nat where "X11_CODE = 0"

record 'o transaction =
  tr_generation :: nat
  tr_text :: "pystr option"
  tr_owner :: "'o option"
  tr_pressed :: bool

record 'o markers =
  mk_generation :: nat
  mk_slots :: "(nat \<times> 'o transaction) list"
  mk_next :: nat

datatype marker_error = AlreadyPending | CapacityExhausted | ReleasesNotObserved | UnknownMarker

definition new_markers :: "'o markers" where
  "new_markers = \<lparr>mk_generation = 1, mk_slots = [], mk_next = 0\<rparr>"

definition mk_pending :: "'o markers \<Rightarrow> bool" where
  "mk_pending m = list_ex (\<lambda>(c, t). tr_text t \<noteq> None) (mk_slots m)"

definition mk_codes :: "'o markers \<Rightarrow> bool \<Rightarrow> nat list" where
  "mk_codes m x11 =
     (if x11 then [X11_CODE]
      else map (\<lambda>offset. FIRST_CODE + (mk_next m + offset) mod SLOT_COUNT) [0..<SLOT_COUNT])"

definition mk_enqueue ::
  "pystr \<Rightarrow> 'o option \<Rightarrow> bool \<Rightarrow> 'o markers \<Rightarrow> (marker_error + nat) \<times> 'o markers" where
  "mk_enqueue text owner x11 m =
     (if mk_pending m then (Inl AlreadyPending, m)
      else case find (\<lambda>c. map_of (mk_slots m) c = None) (mk_codes m x11) of
             None \<Rightarrow> (Inl CapacityExhausted, m)
           | Some c \<Rightarrow>
               (Inr c,
                m\<lparr>mk_slots := AList.update c
                    \<lparr>tr_generation = mk_generation m, tr_text = Some text, tr_owner = owner,
                     tr_pressed = False\<rparr> (mk_slots m),
                  mk_next := (if x11 then mk_next m else (c - FIRST_CODE + 1) mod SLOT_COUNT)\<rparr>))"

definition mk_revoke :: "'o markers \<Rightarrow> 'o markers" where
  "mk_revoke m = m\<lparr>mk_generation := mk_generation m + 1,
     mk_slots := map (\<lambda>(c, t). (c, t\<lparr>tr_text := None\<rparr>)) (mk_slots m)\<rparr>"

definition mk_remove_owner :: "'o option \<Rightarrow> 'o markers \<Rightarrow> 'o markers" where
  "mk_remove_owner owner m =
     m\<lparr>mk_slots := filter (\<lambda>(c, t). tr_owner t \<noteq> owner) (mk_slots m)\<rparr>"

definition mk_key ::
  "nat \<Rightarrow> bool \<Rightarrow> bool \<Rightarrow> 'o option \<Rightarrow> 'o markers \<Rightarrow> pystr option \<times> 'o markers" where
  "mk_key code released focused owner m =
     (case map_of (mk_slots m) code of
        None \<Rightarrow> (None, m)
      | Some t \<Rightarrow>
          if tr_owner t \<noteq> owner then (None, m)
          else if released then
            (None, if tr_pressed t then m\<lparr>mk_slots := AList.delete code (mk_slots m)\<rparr> else m)
          else if tr_pressed t then (None, m)
          else (if \<not> focused \<or> tr_generation t \<noteq> mk_generation m then None else tr_text t,
                m\<lparr>mk_slots := AList.update code (t\<lparr>tr_pressed := True, tr_text := None\<rparr>) (mk_slots m)\<rparr>))"

text \<open>
  \<open>wait_drained\<close> in the state in which its wait ends: the condition holds, or the timeout ran out.
\<close>

definition mk_wait_drained :: "'o markers \<Rightarrow> marker_error + unit" where
  "mk_wait_drained m = (if mk_slots m = [] then Inr () else Inl ReleasesNotObserved)"

definition marker_command :: "nat \<Rightarrow> marker_error + string" where
  "marker_command code =
     (if FIRST_CODE \<le> code \<and> code < FIRST_CODE + SLOT_COUNT
      then Inr (''key '' @ dec code @ '' 1'' @ [char_of (10::nat)] @
                ''key '' @ dec code @ '' 0'' @ [char_of (10::nat)])
      else Inl UnknownMarker)"

subsection \<open>Invariant\<close>

definition slot_ok :: "nat \<Rightarrow> nat \<times> 'o transaction \<Rightarrow> bool" where
  "slot_ok g = (\<lambda>(c, t).
     (c = X11_CODE \<or> FIRST_CODE \<le> c \<and> c < FIRST_CODE + SLOT_COUNT) \<and> tr_generation t \<le> g \<and>
     (tr_text t \<noteq> None \<longrightarrow> \<not> tr_pressed t \<and> tr_generation t = g))"

definition carries_text :: "nat \<times> 'o transaction \<Rightarrow> bool" where
  "carries_text = (\<lambda>(c, t). tr_text t \<noteq> None)"

definition mk_inv :: "'o markers \<Rightarrow> bool" where
  "mk_inv m \<longleftrightarrow>
     distinct (map fst (mk_slots m)) \<and> mk_next m < SLOT_COUNT \<and>
     list_all (slot_ok (mk_generation m)) (mk_slots m) \<and>
     length (filter carries_text (mk_slots m)) \<le> 1"

lemma mk_pending_iff: "mk_pending m \<longleftrightarrow> filter carries_text (mk_slots m) \<noteq> []"
  by (auto simp: mk_pending_def list_ex_iff carries_text_def filter_empty_conv)

lemma find_SomeE:
  assumes "find P xs = Some x"
  obtains "P x" "x \<in> set xs"
  using assms by (metis find_Some_iff nth_mem)

lemma rotation_hits:
  fixes n k :: nat
  assumes "k < 32"
  shows "\<exists>i<32. (n + i) mod 32 = k"
proof (intro exI conjI)
  show "(k + (32 - n mod 32)) mod 32 < 32" by simp
  have "(n + (k + (32 - n mod 32)) mod 32) mod 32 = (n mod 32 + (k + (32 - n mod 32))) mod 32"
    by (metis mod_add_left_eq mod_add_right_eq)
  also have "n mod 32 + (k + (32 - n mod 32)) = k + 32"
    using mod_less_divisor [of 32 n] by linarith
  also have "(k + 32) mod 32 = k" using assms by simp
  finally show "(n + (k + (32 - n mod 32)) mod 32) mod 32 = k" .
qed

lemma mk_codes_range:
  "set (mk_codes m False) = {FIRST_CODE..<FIRST_CODE + SLOT_COUNT}"
proof -
  have "(\<lambda>i. (mk_next m + i) mod 32) ` {0..<32} = {0..<32::nat}"
    using rotation_hits [of _ "mk_next m"] by (force simp: image_iff)
  then have "(+) FIRST_CODE ` (\<lambda>i. (mk_next m + i) mod 32) ` {0..<32} = (+) FIRST_CODE ` {0..<32}"
    by simp
  then show ?thesis
    by (simp add: mk_codes_def image_image SLOT_COUNT_def add.commute)
qed

lemma mk_codes_ok:
  "set (mk_codes m x11) \<subseteq> insert X11_CODE {FIRST_CODE..<FIRST_CODE + SLOT_COUNT}"
  by (cases x11) (use mk_codes_range [of m] in \<open>auto simp: mk_codes_def\<close>)

lemma mk_inv_new [inv_intros]: "mk_inv new_markers"
  by (simp add: mk_inv_def new_markers_def SLOT_COUNT_def)

text \<open>A free code: the association list grows at its end.\<close>

lemma update_fresh: "map_of al k = None \<Longrightarrow> AList.update k v al = al @ [(k, v)]"
  by (induction al) (auto split: if_splits)

lemma mk_enqueue_Inr:
  assumes "mk_enqueue text owner x11 m = (Inr c, m')"
  shows "\<not> mk_pending m \<and> c \<in> set (mk_codes m x11) \<and> c \<notin> fst ` set (mk_slots m) \<and>
    mk_generation m' = mk_generation m \<and>
    mk_slots m' = mk_slots m @
      [(c, \<lparr>tr_generation = mk_generation m, tr_text = Some text, tr_owner = owner, tr_pressed = False\<rparr>)]"
  using assms
  by (auto simp: mk_enqueue_def update_fresh map_of_eq_None_iff split: if_splits option.splits
      elim!: find_SomeE)

lemma mk_enqueue_next: "mk_next m < SLOT_COUNT \<Longrightarrow> mk_next (snd (mk_enqueue text owner x11 m)) < SLOT_COUNT"
  by (auto simp: mk_enqueue_def SLOT_COUNT_def split: option.splits)

lemma mk_inv_enqueue [inv_intros]:
  assumes "mk_inv m"
  shows "mk_inv (snd (mk_enqueue text owner x11 m))"
proof (cases "fst (mk_enqueue text owner x11 m)")
  case (Inl e)
  then have "snd (mk_enqueue text owner x11 m) = m"
    by (auto simp: mk_enqueue_def split: if_splits option.splits)
  with assms show ?thesis by simp
next
  case (Inr c)
  define m' where "m' = snd (mk_enqueue text owner x11 m)"
  have eq: "mk_enqueue text owner x11 m = (Inr c, m')" using Inr by (simp add: m'_def prod_eq_iff)
  have E: "\<not> mk_pending m" "c \<in> set (mk_codes m x11)" "c \<notin> fst ` set (mk_slots m)"
    "mk_generation m' = mk_generation m"
    "mk_slots m' = mk_slots m @
      [(c, \<lparr>tr_generation = mk_generation m, tr_text = Some text, tr_owner = owner, tr_pressed = False\<rparr>)]"
    using mk_enqueue_Inr [OF eq] by blast+
  have n: "mk_next m' < SLOT_COUNT"
    using assms mk_enqueue_next [of m "text" owner x11] by (simp add: mk_inv_def m'_def)
  have cr: "c \<in> insert X11_CODE {FIRST_CODE..<FIRST_CODE + SLOT_COUNT}"
    using E(2) mk_codes_ok by blast
  have "mk_inv m'"
    using assms n E(1,3,4,5) cr
    by (auto simp: mk_inv_def mk_pending_iff slot_ok_def carries_text_def)
  then show ?thesis by (simp add: m'_def)
qed

text \<open>Rewriting every slot, and dropping slots.\<close>

lemma length_filter_map_le:
  "(\<And>x. x \<in> set xs \<Longrightarrow> P (f x) \<Longrightarrow> P x) \<Longrightarrow> length (filter P (map f xs)) \<le> length (filter P xs)"
  by (induction xs) (auto simp: le_Suc_eq)

lemma mk_inv_map:
  assumes "mk_inv m" and "mk_generation m \<le> g"
    and "\<And>x. x \<in> set (mk_slots m) \<Longrightarrow> fst (f x) = fst x \<and>
           tr_generation (snd (f x)) = tr_generation (snd x) \<and>
           (tr_text (snd (f x)) \<noteq> None \<longrightarrow> f x = x \<and> g = mk_generation m)"
  shows "mk_inv (m\<lparr>mk_generation := g, mk_slots := map f (mk_slots m)\<rparr>)"
proof -
  have keep: "fst (f x) = fst x" "tr_generation (snd (f x)) = tr_generation (snd x)"
    "tr_text (snd (f x)) \<noteq> None \<Longrightarrow> f x = x" "tr_text (snd (f x)) \<noteq> None \<Longrightarrow> g = mk_generation m"
    if "x \<in> set (mk_slots m)" for x
    using assms(3) [OF that] by blast+
  have "map fst (map f (mk_slots m)) = map fst (mk_slots m)" using keep(1) by simp
  moreover have "length (filter carries_text (map f (mk_slots m))) \<le> length (filter carries_text (mk_slots m))"
    using keep(3) by (intro length_filter_map_le) (fastforce simp: carries_text_def case_prod_beta)
  moreover have "slot_ok g (f x)" if x: "x \<in> set (mk_slots m)" for x
  proof -
    have "slot_ok (mk_generation m) x" using assms(1) x by (simp add: mk_inv_def list_all_iff)
    then show ?thesis
      using keep [OF x] assms(2) by (cases "tr_text (snd (f x)) = None") (auto simp: slot_ok_def case_prod_beta)
  qed
  then have "list_all (slot_ok g) (map f (mk_slots m))" by (auto simp: list_all_iff)
  ultimately show ?thesis using assms(1) by (simp add: mk_inv_def del: map_map)
qed

lemma mk_inv_filter: "mk_inv m \<Longrightarrow> mk_inv (m\<lparr>mk_slots := filter P (mk_slots m)\<rparr>)"
proof -
  assume I: "mk_inv m"
  have "length (filter carries_text (filter P (mk_slots m))) = length (filter P (filter carries_text (mk_slots m)))"
    by (simp add: conj_commute)
  also have "\<dots> \<le> length (filter carries_text (mk_slots m))" by (rule length_filter_le)
  finally show ?thesis
    using I by (auto simp: mk_inv_def distinct_map_filter list_all_iff)
qed

lemma update_present:
  "distinct (map fst al) \<Longrightarrow> k \<in> fst ` set al \<Longrightarrow>
     AList.update k v al = map (\<lambda>(l, w). (l, if l = k then v else w)) al"
proof (induction al)
  case (Cons x al)
  have "k \<notin> fst ` set al \<Longrightarrow> map (\<lambda>(l, w). (l, if l = k then v else w)) al = al"
    by (induction al) auto
  with Cons show ?case by (cases x) auto
qed simp

lemma mk_inv_revoke [inv_intros]: "mk_inv m \<Longrightarrow> mk_inv (mk_revoke m)"
  unfolding mk_revoke_def by (rule mk_inv_map) auto

lemma mk_inv_remove_owner [inv_intros]: "mk_inv m \<Longrightarrow> mk_inv (mk_remove_owner owner m)"
  unfolding mk_remove_owner_def by (rule mk_inv_filter)

lemma mk_inv_press:
  assumes I: "mk_inv m" and t: "map_of (mk_slots m) c = Some t"
    and u: "tr_text u = None" "tr_generation u = tr_generation t"
  shows "mk_inv (m\<lparr>mk_slots := AList.update c u (mk_slots m)\<rparr>)"
proof -
  have d: "distinct (map fst (mk_slots m))" using I by (simp add: mk_inv_def)
  have ct: "(c, t) \<in> set (mk_slots m)" using t by (rule map_of_SomeD)
  then have eq: "AList.update c u (mk_slots m) = map (\<lambda>(l, w). (l, if l = c then u else w)) (mk_slots m)"
    using d by (intro update_present) force+
  have "(l, w) \<in> set (mk_slots m) \<Longrightarrow> l = c \<Longrightarrow> w = t" for l w
    using d t by simp
  then have "mk_inv (m\<lparr>mk_generation := mk_generation m,
               mk_slots := map (\<lambda>(l, w). (l, if l = c then u else w)) (mk_slots m)\<rparr>)"
    using I u by (intro mk_inv_map) auto
  then show ?thesis by (simp add: eq)
qed

lemma mk_inv_key [inv_intros]:
  assumes "mk_inv m"
  shows "mk_inv (snd (mk_key c r f w m))"
proof (cases "map_of (mk_slots m) c")
  case None
  with assms show ?thesis by (simp add: mk_key_def)
next
  case (Some t)
  have "mk_inv (m\<lparr>mk_slots := AList.delete c (mk_slots m)\<rparr>)"
    using mk_inv_filter [OF assms] by (simp add: AList.delete_eq)
  with assms mk_inv_press [OF assms Some] Some show ?thesis
    by (auto simp: mk_key_def)
qed

subsection \<open>Specification: a one-place mailbox\<close>

text \<open>
  What the owner of the markers relies on, with the codes and tombstones left out: the text that
  waits, with the code that fetches it and the owner it is for.
\<close>

definition mk_mail :: "'o markers \<Rightarrow> (nat \<times> 'o option \<times> pystr) option" where
  "mk_mail m =
     (case filter carries_text (mk_slots m) of
        [] \<Rightarrow> None
      | (c, t) # _ \<Rightarrow> Some (c, tr_owner t, the (tr_text t)))"

lemma mk_mail_Some:
  assumes "mk_inv m" "map_of (mk_slots m) c = Some t" "tr_text t = Some s"
  shows "mk_mail m = Some (c, tr_owner t, s)"
proof -
  have "(c, t) \<in> set (filter carries_text (mk_slots m))"
    using map_of_SomeD [OF assms(2)] assms(3) by (simp add: carries_text_def)
  moreover have "length (filter carries_text (mk_slots m)) \<le> 1" using assms(1) by (simp add: mk_inv_def)
  ultimately have "filter carries_text (mk_slots m) = [(c, t)]"
    by (cases "filter carries_text (mk_slots m)") auto
  then show ?thesis using assms(3) by (simp add: mk_mail_def)
qed

lemma mk_mail_None: "mk_mail m = None \<longleftrightarrow> \<not> mk_pending m"
  by (auto simp: mk_mail_def mk_pending_iff split: list.splits prod.splits)

lemma mk_key_result:
  assumes "mk_inv m" "fst (mk_key c r f w m) = Some s"
  shows "\<not> r \<and> f \<and> mk_mail m = Some (c, w, s) \<and> mk_mail (snd (mk_key c r f w m)) = None"
proof -
  obtain t where t: "map_of (mk_slots m) c = Some t" "tr_owner t = w" "\<not> r" "f" "tr_text t = Some s"
    "\<not> tr_pressed t"
    "snd (mk_key c r f w m) = m\<lparr>mk_slots := AList.update c (t\<lparr>tr_pressed := True, tr_text := None\<rparr>) (mk_slots m)\<rparr>"
    using assms(2) by (auto simp: mk_key_def split: option.splits if_splits)
  have mail: "mk_mail m = Some (c, w, s)"
    using mk_mail_Some [OF assms(1) t(1,5)] t(2) by simp
  have I': "mk_inv (snd (mk_key c r f w m))" using assms(1) by (rule mk_inv_key)
  have d: "distinct (map fst (mk_slots m))" using assms(1) by (simp add: mk_inv_def)
  have "\<not> mk_pending (snd (mk_key c r f w m))"
  proof
    assume "mk_pending (snd (mk_key c r f w m))"
    then obtain d u where u: "(d, u) \<in> set (AList.update c (t\<lparr>tr_pressed := True, tr_text := None\<rparr>) (mk_slots m))"
      "tr_text u \<noteq> None"
      by (auto simp: t(7) mk_pending_def list_ex_iff)
    have ct: "(c, t) \<in> set (mk_slots m)" using t(1) by (rule map_of_SomeD)
    then have "AList.update c (t\<lparr>tr_pressed := True, tr_text := None\<rparr>) (mk_slots m) =
        map (\<lambda>(l, w). (l, if l = c then t\<lparr>tr_pressed := True, tr_text := None\<rparr> else w)) (mk_slots m)"
      using d by (intro update_present) force+
    with u have "d \<noteq> c" "(d, u) \<in> set (mk_slots m)" by (auto split: if_splits)
    then have "map_of (mk_slots m) d = Some u" using d by simp
    with mk_mail_Some [OF assms(1)] u(2) mail \<open>d \<noteq> c\<close> show False by fastforce
  qed
  then show ?thesis using t mail by (simp add: mk_mail_None)
qed


subsection \<open>The mailbox\<close>

text \<open>
  Seen through \<open>mk_mail\<close> the sixty-five codes, their tombstones and the rotation disappear: a
  mailbox with one letter, fetched by the press of its own code.
\<close>

lemma mk_mail_enqueue:
  assumes "mk_inv m" "fst (mk_enqueue s w x11 m) = Inr c"
  shows "mk_mail m = None \<and> mk_mail (snd (mk_enqueue s w x11 m)) = Some (c, w, s)"
proof -
  let ?m' = "snd (mk_enqueue s w x11 m)"
  from assms(2) have free: "\<not> mk_pending m"
    and slots: "mk_slots ?m' = AList.update c \<lparr>tr_generation = mk_generation m, tr_text = Some s,
      tr_owner = w, tr_pressed = False\<rparr> (mk_slots m)"
    by (auto simp: mk_enqueue_def split: if_splits option.splits)
  have "map_of (mk_slots ?m') c = Some \<lparr>tr_generation = mk_generation m, tr_text = Some s, tr_owner = w, tr_pressed = False\<rparr>"
    by (simp add: slots update_conv)
  from mk_mail_Some [OF mk_inv_enqueue [OF assms(1)] this, of s] free show ?thesis
    by (simp add: mk_mail_None)
qed

lemma mk_enqueue_Inl: "fst (mk_enqueue s w x11 m) = Inl err \<Longrightarrow> snd (mk_enqueue s w x11 m) = m"
  by (auto simp: mk_enqueue_def split: if_splits option.splits)

lemma mk_mail_revoke: "mk_mail (mk_revoke m) = None"
  by (simp add: mk_mail_None mk_pending_def mk_revoke_def list_ex_iff split_beta)

lemma mk_mail_remove_owner:
  assumes "mk_inv m"
  shows "mk_mail (mk_remove_owner w m) =
    (case mk_mail m of None \<Rightarrow> None | Some (c, v, s) \<Rightarrow> if v = w then None else Some (c, v, s))"
proof -
  have f: "filter carries_text (mk_slots (mk_remove_owner w m)) =
      filter (\<lambda>(c, t). tr_owner t \<noteq> w) (filter carries_text (mk_slots m))"
    by (simp add: mk_remove_owner_def conj_commute)
  have "length (filter carries_text (mk_slots m)) \<le> 1" using assms by (simp add: mk_inv_def)
  then consider "filter carries_text (mk_slots m) = []" | c t where "filter carries_text (mk_slots m) = [(c, t)]"
    by (cases "filter carries_text (mk_slots m)") auto
  then show ?thesis by cases (auto simp: mk_mail_def f)
qed

lemma mk_slots_key:
  "mk_slots (snd (mk_key c r f w m)) = mk_slots m \<or>
   (\<exists>t. map_of (mk_slots m) c = Some t \<and> tr_owner t = w \<and> r \<and> tr_pressed t \<and>
      mk_slots (snd (mk_key c r f w m)) = AList.delete c (mk_slots m)) \<or>
   (\<exists>t. map_of (mk_slots m) c = Some t \<and> tr_owner t = w \<and> \<not> r \<and> \<not> tr_pressed t \<and>
      mk_slots (snd (mk_key c r f w m)) = AList.update c (t\<lparr>tr_pressed := True, tr_text := None\<rparr>) (mk_slots m))"
  by (auto simp: mk_key_def split: option.split)

lemma mk_mail_slot:
  assumes "mk_mail m = Some (d, w, s)"
  obtains u where "(d, u) \<in> set (mk_slots m)" "tr_text u = Some s" "tr_owner u = w"
proof -
  from assms obtain u rest where u: "filter carries_text (mk_slots m) = (d, u) # rest"
    "w = tr_owner u" "s = the (tr_text u)"
    by (auto simp: mk_mail_def split: list.splits)
  have "(d, u) \<in> set (filter carries_text (mk_slots m))" unfolding u(1) by simp
  then have "(d, u) \<in> set (mk_slots m)" "tr_text u = Some s" using u(3) by (auto simp: carries_text_def)
  then show thesis using that u(2) by blast
qed

text \<open>A key event that hands out nothing empties the mailbox or leaves it.\<close>

lemma mk_mail_key_silent:
  assumes "mk_inv m"
  shows "mk_mail (snd (mk_key c r f w m)) = mk_mail m \<or> mk_mail (snd (mk_key c r f w m)) = None"
proof (cases "mk_mail (snd (mk_key c r f w m))")
  case (Some x)
  obtain d u s where du: "(d, u) \<in> set (mk_slots (snd (mk_key c r f w m)))" "tr_text u = Some s" "x = (d, tr_owner u, s)"
    using Some by (metis mk_mail_slot prod_cases3)
  have d: "distinct (map fst (mk_slots m))" using assms by (simp add: mk_inv_def)
  from mk_slots_key [of c r f w m] have "(d, u) \<in> set (mk_slots m)"
  proof (elim disjE exE conjE)
    fix t
    assume t: "map_of (mk_slots m) c = Some t"
      and k: "mk_slots (snd (mk_key c r f w m)) = AList.update c (t\<lparr>tr_pressed := True, tr_text := None\<rparr>) (mk_slots m)"
    have "AList.update c (t\<lparr>tr_pressed := True, tr_text := None\<rparr>) (mk_slots m) =
        map (\<lambda>(l, w). (l, if l = c then t\<lparr>tr_pressed := True, tr_text := None\<rparr> else w)) (mk_slots m)"
      using d map_of_SomeD [OF t] by (intro update_present) force+
    with k du(1,2) show ?thesis by (auto split: if_splits)
  qed (use du(1) in \<open>auto simp: AList.delete_eq\<close>)
  then have "map_of (mk_slots m) d = Some u" using d by simp
  from mk_mail_Some [OF assms this du(2)] du(3) Some show ?thesis by simp
qed simp

subsection \<open>Histories\<close>

datatype 'o marker_op =
    Enqueue pystr "'o option" bool
  | Revoke_markers
  | Remove_owner "'o option"
  | Key_event nat bool bool "'o option"

fun marker_step :: "'o marker_op \<Rightarrow> 'o markers \<Rightarrow> 'o markers" where
  "marker_step (Enqueue s w x11) m = snd (mk_enqueue s w x11 m)"
| "marker_step Revoke_markers m = mk_revoke m"
| "marker_step (Remove_owner w) m = mk_remove_owner w m"
| "marker_step (Key_event c r f w) m = snd (mk_key c r f w m)"

text \<open>The texts an operation accepts, and the texts it hands out, each with its owner.\<close>

fun marker_accepts :: "'o marker_op \<Rightarrow> 'o markers \<Rightarrow> ('o option \<times> pystr) list" where
  "marker_accepts (Enqueue s w x11) m = (case fst (mk_enqueue s w x11 m) of Inl _ \<Rightarrow> [] | Inr _ \<Rightarrow> [(w, s)])"
| "marker_accepts _ m = []"

fun marker_delivers :: "'o marker_op \<Rightarrow> 'o markers \<Rightarrow> ('o option \<times> pystr) list" where
  "marker_delivers (Key_event c r f w) m = (case fst (mk_key c r f w m) of None \<Rightarrow> [] | Some s \<Rightarrow> [(w, s)])"
| "marker_delivers _ m = []"

primrec markers_after :: "'o marker_op list \<Rightarrow> 'o markers \<Rightarrow> 'o markers" where
  "markers_after [] m = m"
| "markers_after (x # xs) m = markers_after xs (marker_step x m)"

primrec accepted_texts :: "'o marker_op list \<Rightarrow> 'o markers \<Rightarrow> ('o option \<times> pystr) list" where
  "accepted_texts [] m = []"
| "accepted_texts (x # xs) m = marker_accepts x m @ accepted_texts xs (marker_step x m)"

primrec delivered_texts :: "'o marker_op list \<Rightarrow> 'o markers \<Rightarrow> ('o option \<times> pystr) list" where
  "delivered_texts [] m = []"
| "delivered_texts (x # xs) m = marker_delivers x m @ delivered_texts xs (marker_step x m)"

definition letter :: "'o markers \<Rightarrow> ('o option \<times> pystr) list" where
  "letter m = (case mk_mail m of None \<Rightarrow> [] | Some (c, w, s) \<Rightarrow> [(w, s)])"

lemma marker_step_inv [inv_intros]: "mk_inv m \<Longrightarrow> mk_inv (marker_step x m)"
  by (cases x) (simp_all add: inv_intros)

text \<open>One operation: what it hands out and leaves in the box was in the box or is newly accepted.\<close>

lemma marker_step_letter:
  assumes "mk_inv m"
  shows "subseq (marker_delivers x m @ letter (marker_step x m)) (letter m @ marker_accepts x m)"
proof (cases x)
  case (Enqueue s w x11)
  show ?thesis
  proof (cases "fst (mk_enqueue s w x11 m)")
    case (Inl e)
    with Enqueue mk_enqueue_Inl [OF Inl] show ?thesis by simp
  next
    case (Inr c)
    with Enqueue mk_mail_enqueue [OF assms Inr] show ?thesis by (simp add: letter_def)
  qed
next
  case Revoke_markers
  then show ?thesis by (simp add: letter_def mk_mail_revoke)
next
  case (Remove_owner w)
  then show ?thesis by (simp add: letter_def mk_mail_remove_owner [OF assms] split: option.split)
next
  case (Key_event c r f w)
  show ?thesis
  proof (cases "fst (mk_key c r f w m)")
    case None
    with Key_event mk_mail_key_silent [OF assms, of c r f w] show ?thesis by (auto simp: letter_def)
  next
    case (Some s)
    then have "mk_mail m = Some (c, w, s)" "mk_mail (snd (mk_key c r f w m)) = None"
      using mk_key_result [OF assms Some] by blast+
    with Key_event Some show ?thesis by (simp add: letter_def)
  qed
qed

lemma delivered_subseq:
  "mk_inv m \<Longrightarrow> subseq (delivered_texts xs m) (letter m @ accepted_texts xs m)"
proof (induction xs arbitrary: m)
  case (Cons x xs)
  have "subseq (marker_delivers x m @ delivered_texts xs (marker_step x m))
      (marker_delivers x m @ letter (marker_step x m) @ accepted_texts xs (marker_step x m))"
    using Cons.IH [OF marker_step_inv [OF Cons.prems]] by (simp add: list_emb_append_mono)
  also have "subseq \<dots> ((letter m @ marker_accepts x m) @ accepted_texts xs (marker_step x m))"
    using marker_step_letter [OF Cons.prems, of x] list_emb_append_mono [of "(=)"]
    by (metis append_assoc subseq_order.order_refl)
  finally show ?case by simp
qed simp

lemma delivered_after_revoke:
  "mk_inv m \<Longrightarrow> letter m = [] \<Longrightarrow> subseq (delivered_texts xs m) (accepted_texts xs m)"
  using delivered_subseq [of m xs] by simp

subsection \<open>Properties\<close>

text \<open>C9: Whatever the order of enqueues, revocations, owner removals and key events, the texts handed
  out with their owners are a subsequence of the texts accepted with theirs: no text is delivered
  twice, to another owner, or out of order.\<close>
theorem markers_deliver_in_order:
  "subseq (delivered_texts xs new_markers) (accepted_texts xs new_markers)"
  by (rule delivered_after_revoke [OF mk_inv_new]) (simp add: letter_def mk_mail_def new_markers_def)

text \<open>After a revocation no key event, in whatever order, hands out a text accepted before it: the
  texts delivered from then on are a subsequence of the texts accepted from then on.\<close>
theorem revoke_retires_texts:
  "subseq (delivered_texts ys (mk_revoke (markers_after xs new_markers)))
     (accepted_texts ys (mk_revoke (markers_after xs new_markers)))"
proof (rule delivered_after_revoke)
  have "mk_inv m \<Longrightarrow> mk_inv (markers_after xs m)" for m :: "'a markers"
    by (induction xs arbitrary: m) (simp_all add: inv_intros)
  then show "mk_inv (mk_revoke (markers_after xs new_markers))" by (simp add: inv_intros)
qed (simp add: letter_def mk_mail_revoke)

text \<open>With no text waiting, an enqueue fails only when all the codes it may use still await their
  release, and otherwise returns a code of its range that no unreleased transaction holds.\<close>
theorem marker_enqueue_capacity:
  assumes "\<not> mk_pending m"
  shows "(case fst (mk_enqueue s w x m) of
      Inl e \<Rightarrow> e = CapacityExhausted \<and>
        (if x then {X11_CODE} else {FIRST_CODE..<FIRST_CODE + SLOT_COUNT}) \<subseteq> fst ` set (mk_slots m)
    | Inr c \<Rightarrow> c \<in> (if x then {X11_CODE} else {FIRST_CODE..<FIRST_CODE + SLOT_COUNT}) \<and>
        c \<notin> fst ` set (mk_slots m))"
proof -
  have codes: "set (mk_codes m x) = (if x then {X11_CODE} else {FIRST_CODE..<FIRST_CODE + SLOT_COUNT})"
    using mk_codes_range [of m] by (simp add: mk_codes_def)
  show ?thesis
  proof (cases "find (\<lambda>c. map_of (mk_slots m) c = None) (mk_codes m x)")
    case None
    then have "\<forall>c \<in> set (mk_codes m x). c \<in> fst ` set (mk_slots m)"
      by (auto simp: find_None_iff map_of_eq_None_iff)
    with None assms codes show ?thesis by (auto simp: mk_enqueue_def)
  next
    case (Some c)
    from Some obtain "map_of (mk_slots m) c = None" "c \<in> set (mk_codes m x)" by (rule find_SomeE)
    with Some assms codes show ?thesis by (simp add: mk_enqueue_def map_of_eq_None_iff)
  qed
qed

lemma marker_enqueue_capacity_witness:
  "fst (mk_enqueue [104] (None :: nat option) True new_markers) = Inr X11_CODE"
  using marker_enqueue_capacity [where m = "new_markers :: nat markers" and s = "[104]" and w = None and x = True]
  by (auto simp: mk_pending_def new_markers_def split: sum.splits)

end
