(* ===== verification/Input_Order.thy ===== *)
theory Input_Order
  imports Prelude
begin

section \<open>The ordered input scheduler (input\_order.py)\<close>

text \<open>
  \<open>OrderedInput\<close> is one bounded queue of input operations shared by every transport. At most one
  confirmed text delivery is outstanding; nothing behind it is admitted until its own completion,
  its deadline or its cancellation. The object calls back into its client (availability, admission,
  results, overflow) and into text adapters (commit, cancel), and those calls may re-enter it.

  The client's state is the field \<open>oenv\<close> of the scheduler's record. A callback that can re-enter
  \<open>drain\<close> takes the function to call for it: \<open>drain\<close> itself outside the loop, the identity inside
  it, where \<open>self.draining\<close> makes the nested call return at once (\<open>drain_nested\<close>).
  A \<open>pending\<close> tuple is compared by identity in the code; here it carries a ticket that is never
  reused. A timer is named by the ticket it was armed for, and \<open>oarmed\<close> lists the event loop's
  live timers. The fields \<open>oenqueued\<close> and \<open>oadmitted\<close> record what was queued and what was handed
  to the client, in order; the code has no such fields and nothing reads them but the theorems.
\<close>

definition DELIVERY_TIMEOUT_MS :: nat where "DELIVERY_TIMEOUT_MS = 30000"

definition queue_limit :: nat where "queue_limit = 256"

definition valid_text :: "pyval \<Rightarrow> bool" where
  "valid_text v =
     (case v of
        PStr s \<Rightarrow> s \<noteq> [] \<and> (case utf8_encode s of None \<Rightarrow> False | Some b \<Rightarrow> length b \<le> 16000) \<and> 0 \<notin> set s
      | _ \<Rightarrow> False)"

datatype ('o, 'a, 't) pending =
  Pending (p_ticket: nat) (p_owner: 'o) (p_sequence: int) (p_adapter: 'a) (p_token: 't)

record ('o, 'p, 'a, 't, 'e) order =
  oq :: "('o \<times> 'p) list"
  opend :: "('o, 'a, 't) pending option"
  otimer :: "nat option"
  oarmed :: "nat list"
  oclosed :: bool
  odraining :: bool
  oticket :: nat
  oenqueued :: "('o \<times> 'p) list"
  oadmitted :: "('o \<times> 'p) list"
  oenv :: 'e

type_synonym ('o, 'p, 'a, 't, 'e) drainer =
  "('o, 'p, 'a, 't, 'e) order \<Rightarrow> ('o, 'p, 'a, 't, 'e) order"

text \<open>
  How a call of \<open>adapter.commit\<close> ends: it has called \<open>completed\<close> (its last action), it keeps the
  callback for later, or it raised.
\<close>

datatype commit_outcome = Completed "code option" | Deferred | Raised

record ('o, 'p, 'a, 't, 'e) client =
  c_available :: "'o \<Rightarrow> 'e \<Rightarrow> bool"
  c_admit :: "('o, 'p, 'a, 't, 'e) drainer \<Rightarrow> 'o \<Rightarrow> 'p \<Rightarrow> ('o, 'p, 'a, 't, 'e) order \<Rightarrow>
                (int \<times> 'a \<times> 't \<times> pystr) option \<times> ('o, 'p, 'a, 't, 'e) order"
  c_result :: "('o, 'p, 'a, 't, 'e) drainer \<Rightarrow> 'o \<Rightarrow> int \<Rightarrow> code option \<Rightarrow> ('o, 'p, 'a, 't, 'e) drainer"
  c_overflow :: "('o, 'p, 'a, 't, 'e) drainer \<Rightarrow> 'o \<Rightarrow> ('o, 'p, 'a, 't, 'e) drainer"
  c_commit :: "'a \<Rightarrow> 't \<Rightarrow> pystr \<Rightarrow> nat \<Rightarrow> 'e \<Rightarrow> commit_outcome \<times> 'e"
  c_cancel :: "'a \<Rightarrow> 't \<Rightarrow> 'e \<Rightarrow> 'e"

subsection \<open>Operations\<close>

definition new_order :: "'e \<Rightarrow> ('o, 'p, 'a, 't, 'e) order" where
  "new_order e = \<lparr>oq = [], opend = None, otimer = None, oarmed = [], oclosed = False,
     odraining = False, oticket = 0, oenqueued = [], oadmitted = [], oenv = e\<rparr>"

definition clear_timer :: "('o, 'p, 'a, 't, 'e) drainer" where
  "clear_timer s =
     (case otimer s of
        None \<Rightarrow> s
      | Some t \<Rightarrow> s\<lparr>oarmed := remove1 t (oarmed s), otimer := None\<rparr>)"

definition cancel_pending ::
  "('a \<Rightarrow> 't \<Rightarrow> 'e \<Rightarrow> 'e) \<Rightarrow> ('o, 'p, 'a, 't, 'e) drainer" where
  "cancel_pending cancel s =
     (case opend s of
        None \<Rightarrow> s
      | Some p \<Rightarrow>
          let s1 = clear_timer (s\<lparr>opend := None\<rparr>)
          in s1\<lparr>oenv := cancel (p_adapter p) (p_token p) (oenv s1)\<rparr>)"

text \<open>The closure \<open>completed\<close> of the delivery with this ticket.\<close>

definition completed ::
  "('o, 'p, 'a, 't, 'e) client \<Rightarrow> ('o, 'p, 'a, 't, 'e) drainer \<Rightarrow> nat \<Rightarrow> code option \<Rightarrow>
     ('o, 'p, 'a, 't, 'e) drainer" where
  "completed c dr tk err s =
     (case opend s of
        None \<Rightarrow> s
      | Some p \<Rightarrow>
          if p_ticket p \<noteq> tk then s
          else
            let s1 = (clear_timer s)\<lparr>opend := None\<rparr>;
                s2 = (if err \<noteq> None then s1\<lparr>oenv := c_cancel c (p_adapter p) (p_token p) (oenv s1)\<rparr> else s1);
                s3 = (if c_available c (p_owner p) (oenv s2)
                      then c_result c dr (p_owner p) (p_sequence p) err s2 else s2)
            in dr s3)"

text \<open>The closure \<open>expired\<close>: it returns \<open>False\<close>, so the event loop drops the source.\<close>

definition expired ::
  "('o, 'p, 'a, 't, 'e) client \<Rightarrow> ('o, 'p, 'a, 't, 'e) drainer \<Rightarrow> nat \<Rightarrow>
     ('o, 'p, 'a, 't, 'e) drainer" where
  "expired c dr tk s =
     (let s0 = s\<lparr>oarmed := remove1 tk (oarmed s)\<rparr>
      in case opend s0 of
           None \<Rightarrow> s0
         | Some p \<Rightarrow>
             if p_ticket p \<noteq> tk then s0
             else completed c dr tk (Some INPUT_DELIVERY_TIMEOUT) (s0\<lparr>otimer := None\<rparr>))"

definition start_delivery ::
  "('o, 'p, 'a, 't, 'e) client \<Rightarrow> 'o \<Rightarrow> int \<Rightarrow> 'a \<Rightarrow> 't \<Rightarrow> pystr \<Rightarrow> ('o, 'p, 'a, 't, 'e) drainer" where
  "start_delivery c ow sequence adapter token tx s =
     (let tk = oticket s;
          s1 = s\<lparr>opend := Some (Pending tk ow sequence adapter token), oticket := tk + 1,
                 otimer := Some tk, oarmed := oarmed s @ [tk]\<rparr>
      in case c_commit c adapter token tx tk (oenv s1) of
           (Completed err, e) \<Rightarrow> completed c (\<lambda>x. x) tk err (s1\<lparr>oenv := e\<rparr>)
         | (Deferred, e) \<Rightarrow> s1\<lparr>oenv := e\<rparr>
         | (Raised, e) \<Rightarrow> completed c (\<lambda>x. x) tk (Some INPUT_DELIVERY_FAILED) (s1\<lparr>oenv := e\<rparr>))"

text \<open>
  The \<open>while\<close> loop of \<open>drain\<close>. Each round takes an item off the queue and callbacks only shrink it,
  so the queue's length is fuel enough: the loop always ends with its guard false (\<open>drain_settles\<close>).
\<close>

fun drain_loop :: "('o, 'p, 'a, 't, 'e) client \<Rightarrow> nat \<Rightarrow> ('o, 'p, 'a, 't, 'e) drainer" where
  "drain_loop c 0 s = s"
| "drain_loop c (Suc n) s =
     (case oq s of
        [] \<Rightarrow> s
      | (ow, operation) # rest \<Rightarrow>
          if opend s \<noteq> None \<or> oclosed s then s
          else
            let s1 = s\<lparr>oq := rest\<rparr>
            in if \<not> c_available c ow (oenv s1) then drain_loop c n s1
               else
                 case c_admit c (\<lambda>x. x) ow operation (s1\<lparr>oadmitted := oadmitted s1 @ [(ow, operation)]\<rparr>) of
                   (None, s2) \<Rightarrow> drain_loop c n s2
                 | (Some (sequence, adapter, token, tx), s2) \<Rightarrow>
                     drain_loop c n (start_delivery c ow sequence adapter token tx s2))"

definition drain :: "('o, 'p, 'a, 't, 'e) client \<Rightarrow> ('o, 'p, 'a, 't, 'e) drainer" where
  "drain c s =
     (if odraining s \<or> oclosed s then s
      else (drain_loop c (length (oq s)) (s\<lparr>odraining := True\<rparr>))\<lparr>odraining := False\<rparr>)"

text \<open>
  \<open>invalidate\<close> returns the sequence of the delivery it cancelled and the operations it dropped.
\<close>

definition invalidate ::
  "('a \<Rightarrow> 't \<Rightarrow> 'e \<Rightarrow> 'e) \<Rightarrow> ('o, 'p, 'a, 't, 'e) drainer \<Rightarrow> 'o \<Rightarrow> ('o, 'p, 'a, 't, 'e) order \<Rightarrow>
     (int option \<times> 'p list) \<times> ('o, 'p, 'a, 't, 'e) order" where
  "invalidate cancel dr ow s =
     (let cancelled = map snd (filter (\<lambda>x. fst x = ow) (oq s));
          s1 = s\<lparr>oq := filter (\<lambda>x. fst x \<noteq> ow) (oq s)\<rparr>
      in case opend s1 of
           None \<Rightarrow> ((None, cancelled), dr s1)
         | Some p \<Rightarrow>
             if p_owner p = ow then ((Some (p_sequence p), cancelled), dr (cancel_pending cancel s1))
             else ((None, cancelled), dr s1))"

definition enqueue ::
  "('o, 'p, 'a, 't, 'e) client \<Rightarrow> ('o, 'p, 'a, 't, 'e) drainer \<Rightarrow> 'o \<Rightarrow> 'p \<Rightarrow>
     ('o, 'p, 'a, 't, 'e) drainer" where
  "enqueue c dr ow operation s =
     (if oclosed s \<or> \<not> c_available c ow (oenv s) then s
      else if queue_limit \<le> length (oq s) then snd (invalidate (c_cancel c) dr ow (c_overflow c dr ow s))
      else dr (s\<lparr>oq := oq s @ [(ow, operation)], oenqueued := oenqueued s @ [(ow, operation)]\<rparr>))"

definition close_order :: "('o, 'p, 'a, 't, 'e) client \<Rightarrow> ('o, 'p, 'a, 't, 'e) drainer" where
  "close_order c s = cancel_pending (c_cancel c) (s\<lparr>oclosed := True, oq := []\<rparr>)"

lemma drain_nested: "odraining s \<Longrightarrow> drain c s = s"
  by (simp add: drain_def)

subsection \<open>What a callback may do to the scheduler\<close>

text \<open>
  Between two calls of \<open>drain\<close>, a callback only withdraws work: it may drop queued operations and
  the outstanding delivery (with its timer).
\<close>

definition same_delivery :: "('o, 'p, 'a, 't, 'e) order \<Rightarrow> ('o, 'p, 'a, 't, 'e) order \<Rightarrow> bool" where
  "same_delivery x y \<longleftrightarrow> opend y = opend x \<and> otimer y = otimer x \<and> oarmed y = oarmed x"

definition dropped_delivery :: "('o, 'p, 'a, 't, 'e) order \<Rightarrow> ('o, 'p, 'a, 't, 'e) order \<Rightarrow> bool" where
  "dropped_delivery x y \<longleftrightarrow> opend y = None \<and> otimer y = None \<and>
     oarmed y = (case otimer x of None \<Rightarrow> oarmed x | Some t \<Rightarrow> remove1 t (oarmed x))"

definition shrinks :: "('o, 'p, 'a, 't, 'e) order \<Rightarrow> ('o, 'p, 'a, 't, 'e) order \<Rightarrow> bool" where
  "shrinks x y \<longleftrightarrow>
     subseq (oq y) (oq x) \<and> (same_delivery x y \<or> dropped_delivery x y) \<and>
     oclosed y = oclosed x \<and> odraining y = odraining x \<and> oticket y = oticket x \<and>
     oenqueued y = oenqueued x \<and> oadmitted y = oadmitted x"

lemma shrinks_refl [simp]: "shrinks x x"
  by (simp add: shrinks_def same_delivery_def)

lemma shrinks_env [simp]: "shrinks x (x\<lparr>oenv := e\<rparr>)"
  by (simp add: shrinks_def same_delivery_def)

lemma delivery_trans:
  "same_delivery x y \<or> dropped_delivery x y \<Longrightarrow> same_delivery y z \<or> dropped_delivery y z \<Longrightarrow>
     same_delivery x z \<or> dropped_delivery x z"
  unfolding same_delivery_def dropped_delivery_def by (elim disjE conjE) (simp_all split: option.split)

lemma shrinks_trans:
  assumes "shrinks x y" "shrinks y z"
  shows "shrinks x z"
proof -
  have "subseq (oq z) (oq x)"
    using assms by (meson shrinks_def subseq_order.trans)
  moreover have "same_delivery x z \<or> dropped_delivery x z"
    using assms by (intro delivery_trans [of x y z]) (simp_all add: shrinks_def)
  ultimately show ?thesis using assms by (simp add: shrinks_def)
qed

lemma shrinks_clear: "shrinks x ((clear_timer x)\<lparr>opend := None\<rparr>)"
  by (auto simp: shrinks_def dropped_delivery_def clear_timer_def split: option.splits)

lemma shrinks_cancel_pending: "shrinks x (cancel_pending cancel x)"
  by (auto simp: cancel_pending_def shrinks_def dropped_delivery_def same_delivery_def clear_timer_def
      split: option.splits)

lemma shrinks_filter: "shrinks x (x\<lparr>oq := filter P (oq x)\<rparr>)"
  by (simp add: shrinks_def same_delivery_def)

text \<open>\<open>invalidate\<close> is a withdrawal followed by the drain it was given.\<close>

lemma invalidate_eq:
  "snd (invalidate cancel dr ow s) =
     dr (let s1 = s\<lparr>oq := filter (\<lambda>x. fst x \<noteq> ow) (oq s)\<rparr>
         in case opend s of
              None \<Rightarrow> s1
            | Some p \<Rightarrow> if p_owner p = ow then cancel_pending cancel s1 else s1)"
  by (simp add: invalidate_def Let_def split: option.split)

lemma cancel_pending_env:
  "oenv (cancel_pending cancel s) = oenv s \<or> (\<exists>a t. oenv (cancel_pending cancel s) = cancel a t (oenv s))"
  by (auto simp: cancel_pending_def clear_timer_def split: option.split)

lemma invalidate_split:
  "\<exists>y. shrinks s y \<and> snd (invalidate cancel dr ow s) = dr y \<and>
     (oenv y = oenv s \<or> (\<exists>a t. oenv y = cancel a t (oenv s)))"
proof -
  let ?s1 = "s\<lparr>oq := filter (\<lambda>x. fst x \<noteq> ow) (oq s)\<rparr>"
  let ?y = "case opend s of None \<Rightarrow> ?s1 | Some p \<Rightarrow> if p_owner p = ow then cancel_pending cancel ?s1 else ?s1"
  have "shrinks s ?y"
    by (auto split: option.split intro: shrinks_filter shrinks_trans [OF shrinks_filter shrinks_cancel_pending])
  moreover have "snd (invalidate cancel dr ow s) = dr ?y"
    unfolding invalidate_eq Let_def by (rule refl)
  moreover have "oenv ?y = oenv s \<or> (\<exists>a t. oenv ?y = cancel a t (oenv s))"
    using cancel_pending_env [of cancel ?s1] by (auto split: option.split)
  ultimately show ?thesis by blast
qed

text \<open>
  A callback's own effect: it withdraws work and moves the client's state along \<open>le\<close>, the order in
  which that state evolves (\<open>\<lambda>_ _. True\<close> when nothing is claimed of it).
\<close>

definition withdrawal ::
  "('e \<Rightarrow> 'e \<Rightarrow> bool) \<Rightarrow> ('o, 'p, 'a, 't, 'e) order \<Rightarrow> ('o, 'p, 'a, 't, 'e) order \<Rightarrow> bool" where
  "withdrawal le x y \<longleftrightarrow> shrinks x y \<and> le (oenv x) (oenv y)"

text \<open>A property that withdrawals and the given drain keep.\<close>

definition kept_by ::
  "('e \<Rightarrow> 'e \<Rightarrow> bool) \<Rightarrow> ('o, 'p, 'a, 't, 'e) drainer \<Rightarrow> (('o, 'p, 'a, 't, 'e) order \<Rightarrow> bool) \<Rightarrow> bool" where
  "kept_by le dr I \<longleftrightarrow> (\<forall>x. I x \<longrightarrow> I (dr x)) \<and> (\<forall>x y. I x \<longrightarrow> withdrawal le x y \<longrightarrow> I y)"

lemma kept_by_drain: "kept_by le dr I \<Longrightarrow> I x \<Longrightarrow> I (dr x)"
  by (simp add: kept_by_def)

lemma kept_by_withdrawal: "kept_by le dr I \<Longrightarrow> I x \<Longrightarrow> withdrawal le x y \<Longrightarrow> I y"
  by (simp add: kept_by_def)

lemma kept_by_env:
  assumes "kept_by le dr I" "I x" "le (oenv x) e"
  shows "I (x\<lparr>oenv := e\<rparr>)"
  using assms(1,2) by (rule kept_by_withdrawal) (simp add: withdrawal_def assms(3))

lemma kept_by_invalidate:
  assumes "kept_by le dr I" "I s" and le: "\<And>e. le e e" "\<And>a t e. le e (cancel a t e)"
  shows "I (snd (invalidate cancel dr ow s))"
proof -
  obtain y where y: "shrinks s y" "snd (invalidate cancel dr ow s) = dr y"
    "oenv y = oenv s \<or> (\<exists>a t. oenv y = cancel a t (oenv s))"
    using invalidate_split [of s cancel dr ow] by blast
  then have "withdrawal le s y" using le by (auto simp: withdrawal_def)
  with assms(1,2) have "I y" by (rule kept_by_withdrawal)
  with assms(1) have "I (dr y)" by (rule kept_by_drain)
  with y(2) show ?thesis by simp
qed

subsection \<open>The contract of a client\<close>

text \<open>
  A client keeps everything that withdrawals and the drain it is given keep: it reaches the
  scheduler through \<open>invalidate\<close> and otherwise changes its own state only, along \<open>le\<close>.
\<close>

locale ordered_client =
  fixes c :: "('o, 'p, 'a, 't, 'e) client"
    and le :: "'e \<Rightarrow> 'e \<Rightarrow> bool"
  assumes le_refl: "le e e"
    and le_trans: "le e f \<Longrightarrow> le f g \<Longrightarrow> le e g"
    and cancel_le: "le e (c_cancel c a t e)"
    and commit_le: "le e (snd (c_commit c a t tx k e))"
    and admit_keeps: "kept_by le dr I \<Longrightarrow> I s \<Longrightarrow> I (snd (c_admit c dr ow x s))"
    and result_keeps: "kept_by le dr I \<Longrightarrow> I s \<Longrightarrow> I (c_result c dr ow q err s)"
    and overflow_keeps: "kept_by le dr I \<Longrightarrow> I s \<Longrightarrow> I (c_overflow c dr ow s)"
begin

lemma withdrawal_refl: "withdrawal le s s"
  by (simp add: withdrawal_def le_refl)

lemma withdrawal_trans: "withdrawal le x y \<Longrightarrow> withdrawal le y z \<Longrightarrow> withdrawal le x z"
  unfolding withdrawal_def using shrinks_trans le_trans by blast

lemma kept_by_id: "kept_by le (\<lambda>x. x) (withdrawal le s)"
  unfolding kept_by_def using withdrawal_trans by blast

lemma admit_withdraws: "withdrawal le s (snd (c_admit c (\<lambda>x. x) ow x s))"
  by (rule admit_keeps [OF kept_by_id]) (rule withdrawal_refl)

lemma completed_from:
  assumes K: "kept_by le dr I" and s1: "I ((clear_timer s)\<lparr>opend := None\<rparr>)"
    and p: "opend s = Some p" "p_ticket p = tk"
  shows "\<exists>y. I y \<and> completed c dr tk err s = dr y"
proof -
  let ?s1 = "(clear_timer s)\<lparr>opend := None\<rparr>"
  let ?s2 = "if err \<noteq> None then ?s1\<lparr>oenv := c_cancel c (p_adapter p) (p_token p) (oenv ?s1)\<rparr> else ?s1"
  let ?s3 = "if c_available c (p_owner p) (oenv ?s2)
      then c_result c dr (p_owner p) (p_sequence p) err ?s2 else ?s2"
  from s1 have s2: "I ?s2" using kept_by_env [OF K] cancel_le by simp
  have "I (c_result c dr (p_owner p) (p_sequence p) err ?s2)" using K s2 by (rule result_keeps)
  with s2 have "I ?s3" by presburger
  moreover have "completed c dr tk err s = dr ?s3"
    using p(2) unfolding completed_def p(1) Let_def option.case by presburger
  ultimately show ?thesis by blast
qed

lemma completed_matched:
  assumes K: "kept_by le dr I" and S: "I s" and p: "opend s = Some p" "p_ticket p = tk"
  shows "\<exists>y. I y \<and> completed c dr tk err s = dr y"
proof -
  have "withdrawal le s ((clear_timer s)\<lparr>opend := None\<rparr>)"
    using shrinks_clear [of s] by (simp add: withdrawal_def le_refl clear_timer_def split: option.split)
  with K S have "I ((clear_timer s)\<lparr>opend := None\<rparr>)" by (rule kept_by_withdrawal)
  then show ?thesis using p by (rule completed_from [OF K])
qed

lemma completed_keeps:
  assumes "kept_by le dr I" "I s"
  shows "I (completed c dr tk err s)"
proof (cases "\<exists>p. opend s = Some p \<and> p_ticket p = tk")
  case True
  then obtain p where "opend s = Some p" "p_ticket p = tk" by blast
  from completed_matched [OF assms this] obtain y where "I y" "completed c dr tk err s = dr y" by blast
  with kept_by_drain [OF assms(1)] show ?thesis by simp
next
  case False
  then have "completed c dr tk err s = s" by (auto simp: completed_def split: option.split)
  with assms(2) show ?thesis by simp
qed

lemma completed_withdraws: "withdrawal le s (completed c (\<lambda>x. x) tk err s)"
  by (rule completed_keeps [OF kept_by_id]) (rule withdrawal_refl)

lemma start_delivery_pending:
  "start_delivery c ow q ad tk tx s =
     (let s1 = s\<lparr>opend := Some (Pending (oticket s) ow q ad tk), oticket := oticket s + 1,
                 otimer := Some (oticket s), oarmed := oarmed s @ [oticket s]\<rparr>;
          r = c_commit c ad tk tx (oticket s) (oenv s1)
      in case fst r of
           Completed err \<Rightarrow> completed c (\<lambda>x. x) (oticket s) err (s1\<lparr>oenv := snd r\<rparr>)
         | Deferred \<Rightarrow> s1\<lparr>oenv := snd r\<rparr>
         | Raised \<Rightarrow> completed c (\<lambda>x. x) (oticket s) (Some INPUT_DELIVERY_FAILED) (s1\<lparr>oenv := snd r\<rparr>))"
  by (simp add: start_delivery_def Let_def case_prod_beta split: commit_outcome.split)

end

subsection \<open>Invariant\<close>

text \<open>
  The queue is bounded; a deadline is armed exactly while a delivery is outstanding and it is that
  delivery's; after \<open>close\<close> nothing is queued or outstanding.
\<close>

fun deadline_ok :: "('o, 'a, 't) pending option \<Rightarrow> nat option \<Rightarrow> nat list \<Rightarrow> nat \<Rightarrow> bool" where
  "deadline_ok None timer armed ticket \<longleftrightarrow> timer = None \<and> armed = []"
| "deadline_ok (Some p) timer armed ticket \<longleftrightarrow>
     timer = Some (p_ticket p) \<and> armed = [p_ticket p] \<and> p_ticket p < ticket"

definition order_inv :: "('o, 'p, 'a, 't, 'e) order \<Rightarrow> bool" where
  "order_inv s \<longleftrightarrow>
     length (oq s) \<le> queue_limit \<and> deadline_ok (opend s) (otimer s) (oarmed s) (oticket s) \<and>
     (oclosed s \<longrightarrow> oq s = [] \<and> opend s = None)"

text \<open>Admitted and still queued operations, as a subsequence of what was queued.\<close>

definition order_history :: "('o, 'p, 'a, 't, 'e) order \<Rightarrow> bool" where
  "order_history s \<longleftrightarrow> subseq (oadmitted s @ oq s) (oenqueued s)"

definition admitted_by :: "'o \<Rightarrow> ('o, 'p, 'a, 't, 'e) order \<Rightarrow> ('o \<times> 'p) list" where
  "admitted_by ow s = filter (\<lambda>x. fst x = ow) (oadmitted s)"

definition retired :: "nat \<Rightarrow> ('o, 'p, 'a, 't, 'e) order \<Rightarrow> bool" where
  "retired tk s \<longleftrightarrow> tk < oticket s \<and> (\<forall>p. opend s = Some p \<longrightarrow> p_ticket p \<noteq> tk)"

lemma retired_shrinks: "retired tk x \<Longrightarrow> shrinks x y \<Longrightarrow> retired tk y"
  by (auto simp: retired_def shrinks_def same_delivery_def dropped_delivery_def)

text \<open>Nothing is left to do: the loop's guard is false.\<close>

definition order_settled :: "('o, 'p, 'a, 't, 'e) order \<Rightarrow> bool" where
  "order_settled s \<longleftrightarrow> oq s = [] \<or> opend s \<noteq> None \<or> oclosed s"

definition order_good :: "('o, 'p, 'a, 't, 'e) order \<Rightarrow> bool" where
  "order_good s \<longleftrightarrow> order_inv s \<and> order_history s"

lemma order_good_shrinks:
  assumes "order_good s" "shrinks s t"
  shows "order_good t"
proof -
  have sub: "subseq (oq t) (oq s)" using assms(2) by (simp add: shrinks_def)
  then have "length (oq t) \<le> length (oq s)" by (rule list_emb_length)
  moreover have "subseq (oadmitted s @ oq t) (oadmitted s @ oq s)"
    using sub by (simp add: list_emb_append_mono)
  moreover have "oclosed s \<longrightarrow> oq t = []" using assms sub by (auto simp: order_good_def order_inv_def)
  ultimately show ?thesis
    using assms unfolding order_good_def order_inv_def order_history_def shrinks_def
    by (cases "opend s")
       (auto simp: same_delivery_def dropped_delivery_def intro: subseq_order.trans split: option.splits)
qed

lemma order_good_new [inv_intros]: "order_good (new_order e)"
  by (simp add: order_good_def order_inv_def order_history_def new_order_def)

text \<open>
  What a whole round of the loop may do: withdraw queued work and change the outstanding delivery.
\<close>

definition withdraws :: "('o, 'p, 'a, 't, 'e) order \<Rightarrow> ('o, 'p, 'a, 't, 'e) order \<Rightarrow> bool" where
  "withdraws x y \<longleftrightarrow> subseq (oq y) (oq x) \<and> oclosed y = oclosed x \<and> odraining y = odraining x \<and>
     oenqueued y = oenqueued x \<and> oadmitted y = oadmitted x"

lemma shrinks_withdraws: "shrinks x y \<Longrightarrow> withdraws x y"
  by (simp add: shrinks_def withdraws_def)

subsection \<open>Steps and reachable states\<close>

text \<open>
  What the transports, the event loop and the adapters do to an idle scheduler, in any order: an
  operation arrives, a delivery completes (perhaps one long gone), a live timer fires, an owner is
  invalidated, the scheduler is closed, or the client's own state changes.
\<close>

inductive order_step ::
  "('o, 'p, 'a, 't, 'e) client \<Rightarrow> ('o, 'p, 'a, 't, 'e) order \<Rightarrow> ('o, 'p, 'a, 't, 'e) order \<Rightarrow> bool"
  for c where
  step_enqueue: "order_step c s (enqueue c (drain c) ow operation s)"
| step_completed: "order_step c s (completed c (drain c) tk err s)"
| step_expired: "tk \<in> set (oarmed s) \<Longrightarrow> order_step c s (expired c (drain c) tk s)"
| step_invalidate: "order_step c s (snd (invalidate (c_cancel c) (drain c) ow s))"
| step_close: "order_step c s (close_order c s)"
| step_env: "order_step c s (s\<lparr>oenv := e\<rparr>)"

inductive order_reachable ::
  "('o, 'p, 'a, 't, 'e) client \<Rightarrow> ('o, 'p, 'a, 't, 'e) order \<Rightarrow> bool" for c where
  reach_new: "order_reachable c (new_order e)"
| reach_step: "order_reachable c s \<Longrightarrow> order_step c s t \<Longrightarrow> order_reachable c t"

definition order_idle :: "('o, 'p, 'a, 't, 'e) order \<Rightarrow> bool" where
  "order_idle s \<longleftrightarrow> order_good s \<and> \<not> odraining s"

text \<open>A delivery in progress stops the loop at once.\<close>

lemma drain_busy: "opend s \<noteq> None \<Longrightarrow> drain c s = s"
  by (cases s; cases "oq s") (auto simp: drain_def)

lemma completed_stale:
  "(\<forall>p. opend s = Some p \<longrightarrow> p_ticket p \<noteq> tk) \<Longrightarrow> completed c dr tk err s = s"
  by (simp add: completed_def split: option.split)

context ordered_client
begin

lemma start_delivery_good:
  assumes "order_good s" "opend s = None" "\<not> oclosed s"
  shows "order_good (start_delivery c ow q ad tk tx s) \<and> withdraws s (start_delivery c ow q ad tk tx s) \<and>
    le (oenv s) (oenv (start_delivery c ow q ad tk tx s))"
proof -
  let ?s1 = "s\<lparr>opend := Some (Pending (oticket s) ow q ad tk), oticket := oticket s + 1,
               otimer := Some (oticket s), oarmed := oarmed s @ [oticket s]\<rparr>"
  let ?e = "snd (c_commit c ad tk tx (oticket s) (oenv s))"
  have g: "order_good (?s1\<lparr>oenv := ?e\<rparr>)"
    using assms by (simp add: order_good_def order_inv_def order_history_def)
  have w: "withdraws s (?s1\<lparr>oenv := ?e\<rparr>)" by (simp add: withdraws_def)
  have ok: "order_good y \<and> withdraws s y \<and> le (oenv s) (oenv y)" if "withdrawal le (?s1\<lparr>oenv := ?e\<rparr>) y" for y
  proof -
    have y: "shrinks (?s1\<lparr>oenv := ?e\<rparr>) y" "le ?e (oenv y)" using that by (simp_all add: withdrawal_def)
    from g y(1) have "order_good y" by (rule order_good_shrinks)
    moreover have "withdraws s y" using y(1) by (simp add: withdraws_def shrinks_def)
    moreover have "le (oenv s) (oenv y)" using commit_le y(2) by (rule le_trans)
    ultimately show ?thesis by blast
  qed
  show ?thesis
    unfolding start_delivery_pending Let_def
    using ok [OF withdrawal_refl] ok [OF completed_withdraws] by (simp split: commit_outcome.split)
qed

lemma start_delivery_retired:
  assumes "retired tk s"
  shows "retired tk (start_delivery c ow q ad tok tx s)"
proof -
  let ?s1 = "s\<lparr>opend := Some (Pending (oticket s) ow q ad tok), oticket := oticket s + 1,
               otimer := Some (oticket s), oarmed := oarmed s @ [oticket s]\<rparr>"
  have ok: "retired tk y" if "withdrawal le (?s1\<lparr>oenv := e\<rparr>) y" for y e
    using that assms by (intro retired_shrinks [of tk "?s1\<lparr>oenv := e\<rparr>" y])
      (auto simp: withdrawal_def retired_def)
  then show ?thesis
    unfolding start_delivery_pending Let_def
    using ok [OF withdrawal_refl] ok [OF completed_withdraws] by (simp split: commit_outcome.split)
qed

lemma drain_loop_good:
  assumes "order_good s" "odraining s" "length (oq s) \<le> n"
  shows "order_good (drain_loop c n s) \<and> odraining (drain_loop c n s) \<and>
    order_settled (drain_loop c n s) \<and> le (oenv s) (oenv (drain_loop c n s))"
  using assms
proof (induction n arbitrary: s)
  case 0
  then show ?case by (simp add: order_settled_def le_refl)
next
  case (Suc n)
  show ?case
  proof (cases "oq s = [] \<or> opend s \<noteq> None \<or> oclosed s")
    case True
    with Suc.prems show ?thesis by (auto simp: order_settled_def le_refl split: list.split)
  next
    case False
    then obtain ow x rest where q: "oq s = (ow, x) # rest" and idle: "opend s = None" "\<not> oclosed s"
      by (cases "oq s") auto
    let ?s1 = "s\<lparr>oq := rest\<rparr>"
    let ?s2 = "?s1\<lparr>oadmitted := oadmitted s @ [(ow, x)]\<rparr>"
    have good1: "order_good ?s1"
      using q by (intro order_good_shrinks [OF Suc.prems(1)])
        (simp add: shrinks_def same_delivery_def list_emb_Cons)
    have good2: "order_good ?s2"
      using Suc.prems(1) q by (simp add: order_good_def order_inv_def order_history_def)
    obtain r s3 where adm: "c_admit c (\<lambda>x. x) ow x ?s2 = (r, s3)" by (cases "c_admit c (\<lambda>x. x) ow x ?s2")
    have sh: "shrinks ?s2 s3" and le3: "le (oenv s) (oenv s3)"
      using admit_withdraws [of ?s2 ow x] adm by (simp_all add: withdrawal_def)
    have len3: "length (oq s3) \<le> n"
      using sh Suc.prems(3) q by (auto simp: shrinks_def dest!: list_emb_length)
    have good3: "order_good s3" using good2 sh by (rule order_good_shrinks)
    have d3: "odraining s3" "opend s3 = None" "\<not> oclosed s3"
      using sh Suc.prems(2) idle by (auto simp: shrinks_def same_delivery_def dropped_delivery_def)
    show ?thesis
    proof (cases "c_available c ow (oenv ?s1)")
      case False
      with Suc.IH [of ?s1] good1 Suc.prems q idle show ?thesis by simp
    next
      case True
      show ?thesis
      proof (cases r)
        case None
        then have "drain_loop c (Suc n) s = drain_loop c n s3" using True q idle adm by simp
        with Suc.IH [OF good3 d3(1) len3] le3 show ?thesis using le_trans by (simp; blast?)
      next
        case (Some d)
        obtain sq ad tk tx where d: "d = (sq, ad, tk, tx)" by (cases d) auto
        let ?s4 = "start_delivery c ow sq ad tk tx s3"
        have good4: "order_good ?s4" and w4: "withdraws s3 ?s4" and "le (oenv s3) (oenv ?s4)"
          using start_delivery_good good3 d3 by blast+
        then have le4: "le (oenv s) (oenv ?s4)" using le3 le_trans by blast
        have "odraining ?s4" "length (oq ?s4) \<le> n"
          using w4 d3 len3 by (auto simp: withdraws_def dest!: list_emb_length)
        moreover have "drain_loop c (Suc n) s = drain_loop c n ?s4" using True q idle adm Some d by simp
        ultimately show ?thesis using Suc.IH [OF good4] le4 le_trans by (simp; blast?)
      qed
    qed
  qed
qed

text \<open>An owner is shut out at \<open>e\<close> when it stays unavailable as the client's state evolves.\<close>

definition shut :: "'e \<Rightarrow> 'o \<Rightarrow> bool" where
  "shut e ow \<longleftrightarrow> (\<forall>f. le e f \<longrightarrow> \<not> c_available c ow f)"

text \<open>What the three kinds of round keep, the loop keeps.\<close>

lemma drain_loop_keeps:
  assumes skip: "\<And>x ow y rest. J x \<Longrightarrow> oq x = (ow, y) # rest \<Longrightarrow> J (x\<lparr>oq := rest\<rparr>)"
    and admit: "\<And>x ow y rest z. J x \<Longrightarrow> oq x = (ow, y) # rest \<Longrightarrow> c_available c ow (oenv x) \<Longrightarrow>
      withdrawal le (x\<lparr>oq := rest, oadmitted := oadmitted x @ [(ow, y)]\<rparr>) z \<Longrightarrow> J z"
    and start: "\<And>x ow q ad tk tx. J x \<Longrightarrow> order_good x \<Longrightarrow> opend x = None \<Longrightarrow> \<not> oclosed x \<Longrightarrow>
      J (start_delivery c ow q ad tk tx x)"
    and init: "J s" "order_good s" "odraining s" "length (oq s) \<le> n"
  shows "J (drain_loop c n s)"
  using init
proof (induction n arbitrary: s)
  case (Suc n)
  show ?case
  proof (cases "oq s = [] \<or> opend s \<noteq> None \<or> oclosed s")
    case True
    then show ?thesis using Suc.prems(1) by (auto split: list.split)
  next
    case False
    then obtain ow x rest where q: "oq s = (ow, x) # rest" and idle: "opend s = None" "\<not> oclosed s"
      by (cases "oq s") auto
    let ?s2 = "s\<lparr>oq := rest, oadmitted := oadmitted s @ [(ow, x)]\<rparr>"
    have good1: "order_good (s\<lparr>oq := rest\<rparr>)"
      using q by (intro order_good_shrinks [OF Suc.prems(2)])
        (simp add: shrinks_def same_delivery_def list_emb_Cons)
    have good2: "order_good ?s2"
      using Suc.prems(2) q by (simp add: order_good_def order_inv_def order_history_def)
    obtain r s3 where adm: "c_admit c (\<lambda>x. x) ow x ?s2 = (r, s3)" by (cases "c_admit c (\<lambda>x. x) ow x ?s2")
    have w3: "withdrawal le ?s2 s3" using admit_withdraws [of ?s2 ow x] adm by simp
    then have sh: "shrinks ?s2 s3" by (simp add: withdrawal_def)
    have len3: "length (oq s3) \<le> n"
      using sh Suc.prems(4) q by (auto simp: shrinks_def dest!: list_emb_length)
    have good3: "order_good s3" using good2 sh by (rule order_good_shrinks)
    have d3: "odraining s3" "opend s3 = None" "\<not> oclosed s3"
      using sh Suc.prems(3) idle by (auto simp: shrinks_def same_delivery_def dropped_delivery_def)
    show ?thesis
    proof (cases "c_available c ow (oenv s)")
      case False
      with Suc.IH [of "s\<lparr>oq := rest\<rparr>"] skip [OF Suc.prems(1) q] good1 Suc.prems q idle show ?thesis by simp
    next
      case True
      have J3: "J s3" using Suc.prems(1) q True w3 by (rule admit)
      show ?thesis
      proof (cases r)
        case None
        with Suc.IH [OF J3 good3 d3(1) len3] True q idle adm show ?thesis by simp
      next
        case (Some d)
        obtain sq ad tk tx where d: "d = (sq, ad, tk, tx)" by (cases d) auto
        let ?s4 = "start_delivery c ow sq ad tk tx s3"
        have good4: "order_good ?s4" and w4: "withdraws s3 ?s4"
          using start_delivery_good good3 d3 by blast+
        have "odraining ?s4" "length (oq ?s4) \<le> n"
          using w4 d3 len3 by (auto simp: withdraws_def dest!: list_emb_length)
        moreover have "J ?s4" using J3 good3 d3(2,3) by (rule start)
        moreover have "drain_loop c (Suc n) s = drain_loop c n ?s4" using True q idle adm Some d by simp
        ultimately show ?thesis using Suc.IH good4 by simp
      qed
    qed
  qed
qed simp

lemma drain_keeps_of_loop:
  assumes "order_idle s" "\<And>x b. J (x\<lparr>odraining := b\<rparr>) = J x" "J s"
    and "\<And>n t. J t \<Longrightarrow> order_good t \<Longrightarrow> odraining t \<Longrightarrow> length (oq t) \<le> n \<Longrightarrow> J (drain_loop c n t)"
  shows "J (drain c s)"
proof -
  have "order_good (s\<lparr>odraining := True\<rparr>)"
    using assms(1) by (simp add: order_idle_def order_good_def order_inv_def order_history_def)
  then have "J (drain_loop c (length (oq s)) (s\<lparr>odraining := True\<rparr>))"
    using assms(2,3) by (intro assms(4)) simp_all
  with assms(2,3) show ?thesis by (simp add: drain_def)
qed

lemma drain_shut:
  assumes "shut e ow" "le e (oenv s)" "order_idle s"
  shows "admitted_by ow (drain c s) = admitted_by ow s"
proof -
  let ?J = "\<lambda>x. le e (oenv x) \<and> admitted_by ow x = admitted_by ow s"
  have "?J (drain c s)"
  proof (rule drain_keeps_of_loop [OF assms(3)])
    fix n and t :: "('o, 'p, 'a, 't, 'e) order"
    assume t: "?J t" "order_good t" "odraining t" "length (oq t) \<le> n"
    show "?J (drain_loop c n t)"
    proof (rule drain_loop_keeps [where J = ?J])
      fix x o1 y rest z
      assume x: "?J x" and av: "c_available c o1 (oenv x)"
        and w: "withdrawal le (x\<lparr>oq := rest, oadmitted := oadmitted x @ [(o1, y)]\<rparr>) z"
      have "o1 \<noteq> ow" using x av assms(1) by (auto simp: shut_def)
      then show "?J z" using x w le_trans by (auto simp: withdrawal_def shrinks_def admitted_by_def)
    next
      fix x :: "('o, 'p, 'a, 't, 'e) order" and o1 q ad tk tx
      assume x: "?J x" and "order_good x" "opend x = None" "\<not> oclosed x"
      then show "?J (start_delivery c o1 q ad tk tx x)"
        using start_delivery_good [of x o1 q ad tk tx] le_trans by (auto simp: withdraws_def admitted_by_def)
    qed (use t in \<open>auto simp: admitted_by_def\<close>)
  qed (simp_all add: admitted_by_def assms(2))
  then show ?thesis by blast
qed

text \<open>A ticket is retired when it was given out and is not the outstanding delivery's.\<close>

lemma drain_retired:
  assumes "retired tk s" "order_idle s"
  shows "retired tk (drain c s)"
proof (rule drain_keeps_of_loop [OF assms(2)])
  fix n and t :: "('o, 'p, 'a, 't, 'e) order"
  assume t: "retired tk t" "order_good t" "odraining t" "length (oq t) \<le> n"
  show "retired tk (drain_loop c n t)"
  proof (rule drain_loop_keeps [where J = "retired tk"])
    fix x z :: "('o, 'p, 'a, 't, 'e) order" and ow y rest
    assume x: "retired tk x" and w: "withdrawal le (x\<lparr>oq := rest, oadmitted := oadmitted x @ [(ow, y)]\<rparr>) z"
    from x have "retired tk (x\<lparr>oq := rest, oadmitted := oadmitted x @ [(ow, y)]\<rparr>)" by (simp add: retired_def)
    with w show "retired tk z" unfolding withdrawal_def using retired_shrinks by blast
  next
    fix x :: "('o, 'p, 'a, 't, 'e) order" and ow q ad tok tx
    assume x: "retired tk x" "order_good x" "opend x = None" "\<not> oclosed x"
    then show "retired tk (start_delivery c ow q ad tok tx x)" by (intro start_delivery_retired)
  qed (use t in \<open>auto simp: retired_def\<close>)
qed (use assms(1) in \<open>simp_all add: retired_def\<close>)

lemma drain_good:
  assumes "order_idle s"
  shows "order_idle (drain c s) \<and> order_settled (drain c s) \<and> le (oenv s) (oenv (drain c s))"
proof (cases "oclosed s")
  case True
  with assms show ?thesis by (simp add: drain_def order_settled_def order_idle_def le_refl)
next
  case False
  have "order_good (s\<lparr>odraining := True\<rparr>)"
    using assms by (simp add: order_idle_def order_good_def order_inv_def order_history_def)
  then have "order_good (drain_loop c (length (oq s)) (s\<lparr>odraining := True\<rparr>)) \<and>
      order_settled (drain_loop c (length (oq s)) (s\<lparr>odraining := True\<rparr>)) \<and>
      le (oenv s) (oenv (drain_loop c (length (oq s)) (s\<lparr>odraining := True\<rparr>)))"
    using drain_loop_good [of "s\<lparr>odraining := True\<rparr>" "length (oq s)"] by simp
  with False assms show ?thesis
    by (simp add: drain_def order_idle_def order_good_def order_inv_def order_history_def order_settled_def)
qed

text \<open>
  What every operation keeps: the invariants, the client's state above where it was, and what was
  admitted of an owner that is shut out.
\<close>

definition idle_above ::
  "'e \<Rightarrow> 'o \<Rightarrow> ('o \<times> 'p) list \<Rightarrow> nat set \<Rightarrow> ('o, 'p, 'a, 't, 'e) order \<Rightarrow> bool" where
  "idle_above e o1 A T s \<longleftrightarrow> order_idle s \<and> le e (oenv s) \<and> (shut e o1 \<longrightarrow> admitted_by o1 s = A) \<and>
     (\<forall>tk \<in> T. retired tk s)"

lemma kept_by_drain_idle: "kept_by le (drain c) (idle_above e o1 A T)"
  unfolding kept_by_def
proof (intro conjI allI impI)
  fix x y :: "('o, 'p, 'a, 't, 'e) order"
  assume x: "idle_above e o1 A T x" and w: "withdrawal le x y"
  then have "order_good y" by (auto simp: idle_above_def order_idle_def withdrawal_def intro: order_good_shrinks)
  moreover have "le e (oenv y)" using x w le_trans by (auto simp: idle_above_def withdrawal_def)
  ultimately show "idle_above e o1 A T y"
    using x w retired_shrinks by (auto simp: idle_above_def order_idle_def withdrawal_def shrinks_def admitted_by_def)
next
  fix x :: "('o, 'p, 'a, 't, 'e) order"
  assume "idle_above e o1 A T x"
  then show "idle_above e o1 A T (drain c x)"
    using drain_good [of x] drain_shut [of e o1 x] drain_retired le_trans by (auto simp: idle_above_def)
qed

lemma drain_done:
  assumes "idle_above e o1 A T s"
  shows "idle_above e o1 A T (drain c s) \<and> order_settled (drain c s)"
  using kept_by_drain [OF kept_by_drain_idle assms] drain_good [of s] assms by (simp add: idle_above_def)

lemma invalidate_done:
  assumes "idle_above e o1 A T s"
  shows "idle_above e o1 A T (snd (invalidate (c_cancel c) (drain c) ow s)) \<and>
    order_settled (snd (invalidate (c_cancel c) (drain c) ow s))"
proof -
  obtain y where y: "shrinks s y" "snd (invalidate (c_cancel c) (drain c) ow s) = drain c y"
    "oenv y = oenv s \<or> (\<exists>a t. oenv y = c_cancel c a t (oenv s))"
    using invalidate_split [of s "c_cancel c" "drain c" ow] by blast
  then have "withdrawal le s y" using le_refl cancel_le by (auto simp: withdrawal_def)
  then have "idle_above e o1 A T y" by (rule kept_by_withdrawal [OF kept_by_drain_idle assms])
  with y(2) show ?thesis using drain_done by simp
qed

lemma enqueue_done:
  assumes "idle_above e o1 A T s" "order_settled s"
  shows "idle_above e o1 A T (enqueue c (drain c) ow x s) \<and> order_settled (enqueue c (drain c) ow x s)"
proof -
  consider (closed) "enqueue c (drain c) ow x s = s"
    | (full) "enqueue c (drain c) ow x s =
        snd (invalidate (c_cancel c) (drain c) ow (c_overflow c (drain c) ow s))"
    | (room) "\<not> oclosed s" "length (oq s) < queue_limit" "enqueue c (drain c) ow x s =
         drain c (s\<lparr>oq := oq s @ [(ow, x)], oenqueued := oenqueued s @ [(ow, x)]\<rparr>)"
  proof (cases "oclosed s \<or> \<not> c_available c ow (oenv s)")
    case True
    then show ?thesis by (intro that(1)) (auto simp: enqueue_def)
  next
    case False
    then show ?thesis
      by (cases "queue_limit \<le> length (oq s)") (intro that(2) that(3); simp add: enqueue_def)+
  qed
  then show ?thesis
  proof cases
    case closed
    with assms show ?thesis by simp
  next
    case full
    have "idle_above e o1 A T (c_overflow c (drain c) ow s)"
      using kept_by_drain_idle assms(1) by (rule overflow_keeps)
    with full show ?thesis using invalidate_done by simp
  next
    case room
    have "idle_above e o1 A T (s\<lparr>oq := oq s @ [(ow, x)], oenqueued := oenqueued s @ [(ow, x)]\<rparr>)"
      using assms(1) room(1,2) list_emb_append_mono [of "(=)" "oadmitted s @ oq s" "oenqueued s" "[(ow, x)]" "[(ow, x)]"]
      by (simp add: idle_above_def order_idle_def order_good_def order_inv_def order_history_def admitted_by_def
          retired_def)
    with room(3) show ?thesis using drain_done by simp
  qed
qed

lemma completed_done:
  assumes "idle_above e o1 A T s" "order_settled s"
  shows "idle_above e o1 A T (completed c (drain c) tk err s) \<and> order_settled (completed c (drain c) tk err s)"
proof (cases "\<exists>p. opend s = Some p \<and> p_ticket p = tk")
  case True
  then obtain p where "opend s = Some p" "p_ticket p = tk" by blast
  from completed_matched [OF kept_by_drain_idle assms(1) this, of err] drain_done show ?thesis by metis
next
  case False
  with completed_stale [of s tk c "drain c" err] assms show ?thesis by auto
qed

lemma completed_retires:
  assumes s: "order_idle s" and p: "opend s = Some p"
  shows "retired (p_ticket p) (completed c (drain c) (p_ticket p) err s)"
proof -
  let ?s1 = "(clear_timer s)\<lparr>opend := None\<rparr>"
  have "idle_above (oenv s) o1 (admitted_by o1 s) {} ?s1" for o1
    using s shrinks_clear [of s] kept_by_withdrawal [OF kept_by_drain_idle, of "oenv s" o1 "admitted_by o1 s" "{}" s ?s1]
    by (simp add: idle_above_def withdrawal_def clear_timer_def le_refl split: option.splits)
  moreover have "retired (p_ticket p) ?s1"
    using s p by (auto simp: retired_def order_idle_def order_good_def order_inv_def clear_timer_def split: option.split)
  ultimately have "idle_above (oenv s) (p_owner p) (admitted_by (p_owner p) s) {p_ticket p} ?s1"
    by (simp add: idle_above_def)
  from completed_from [OF kept_by_drain_idle this p refl, of err]
  obtain y where "order_idle y" "retired (p_ticket p) y" "completed c (drain c) (p_ticket p) err s = drain c y"
    by (auto simp: idle_above_def)
  then show ?thesis using drain_retired by simp
qed

lemma expired_is_completed:
  assumes "order_good s" "tk \<in> set (oarmed s)"
  shows "expired c dr tk s = completed c dr tk (Some INPUT_DELIVERY_TIMEOUT) s"
  using assms
  by (cases "opend s")
     (auto simp: order_good_def order_inv_def expired_def completed_def clear_timer_def Let_def)

lemma close_done:
  assumes "idle_above e o1 A T s"
  shows "idle_above e o1 A T (close_order c s) \<and> order_settled (close_order c s)"
proof -
  let ?s0 = "s\<lparr>oclosed := True, oq := []\<rparr>"
  have c: "close_order c s = cancel_pending (c_cancel c) ?s0" by (simp add: close_order_def)
  have "order_idle (close_order c s)"
    using assms
    by (cases "opend s")
       (auto simp: c cancel_pending_def clear_timer_def idle_above_def order_idle_def order_good_def
        order_inv_def order_history_def Let_def split: option.splits
        intro: subseq_order.trans [OF list_emb_prefix [of "(=)", OF subseq_order.refl]])
  moreover have "le e (oenv (close_order c s))"
    using assms cancel_le le_trans
    by (auto simp: c cancel_pending_def clear_timer_def idle_above_def Let_def split: option.split)
  moreover have "admitted_by o1 (close_order c s) = admitted_by o1 s"
    by (simp add: close_order_def cancel_pending_def clear_timer_def admitted_by_def Let_def split: option.split)
  moreover have "order_settled (close_order c s)"
    by (simp add: close_order_def cancel_pending_def clear_timer_def order_settled_def Let_def split: option.split)
  moreover have "retired tk (close_order c s)" if "retired tk s" for tk
    using that by (auto simp: close_order_def cancel_pending_def clear_timer_def retired_def Let_def
        split: option.split)
  ultimately show ?thesis using assms by (simp add: idle_above_def)
qed

lemma step_done:
  assumes "order_step c s t" "order_idle s" "order_settled s"
  shows "order_idle t \<and> order_settled t \<and> (le (oenv s) (oenv t) \<or> t = s\<lparr>oenv := oenv t\<rparr>) \<and>
    (shut (oenv s) o1 \<longrightarrow> admitted_by o1 t = admitted_by o1 s) \<and>
    (\<forall>tk. retired tk s \<longrightarrow> retired tk t)"
proof -
  have above: "idle_above (oenv s) o1 (admitted_by o1 s) {tk. retired tk s} s" using assms(2) by (simp add: idle_above_def le_refl)
  have "(idle_above (oenv s) o1 (admitted_by o1 s) {tk. retired tk s} t \<and> order_settled t) \<or> (order_idle t \<and> order_settled t \<and> t = s\<lparr>oenv := oenv t\<rparr>)"
    using assms(1)
  proof cases
    case (step_expired tk)
    then show ?thesis
      using expired_is_completed completed_done [OF above assms(3)] assms(2) by (simp add: order_idle_def)
  next
    case (step_env e)
    with assms(2,3) show ?thesis
      by (simp add: order_idle_def order_good_def order_inv_def order_history_def order_settled_def)
  qed (simp_all add: enqueue_done [OF above assms(3)] completed_done [OF above assms(3)]
      invalidate_done [OF above] close_done [OF above])
  then show ?thesis
  proof
    assume "order_idle t \<and> order_settled t \<and> t = s\<lparr>oenv := oenv t\<rparr>"
    moreover from this obtain e where "t = s\<lparr>oenv := e\<rparr>" by blast
    ultimately show ?thesis by (simp add: admitted_by_def retired_def)
  qed (simp add: idle_above_def)
qed

theorem reachable_idle_settled: "order_reachable c s \<Longrightarrow> order_idle s \<and> order_settled s"
proof (induction rule: order_reachable.induct)
  case (reach_new e)
  then show ?case
    using order_good_new [of e] by (simp add: order_idle_def order_settled_def new_order_def)
qed (blast dest: step_done)

end

end
