(* ===== verification/Text_Adapter.thy ===== *)
theory Text_Adapter
  imports Input_Order
begin

section \<open>The contract between the scheduler and a text adapter\<close>

text \<open>
  An adapter (\<open>Contexts\<close>, \<open>XIM\<close>, \<open>NativeClipboard\<close>) takes one confirmed text at a time:
  \<open>commit(token, text, completed)\<close> either answers at once or keeps the callback, \<open>cancel(token)\<close>
  forgets it silently, and the toolkit's or the helper's messages complete it later. The contract
  states that the callback is kept only by an idle adapter and given up by the message that calls
  it. From it alone follows that a delivery is completed at most once and never after it was
  cancelled. A callback is named by the ticket the scheduler made it for.
\<close>

datatype ('tok, 'ev) adapter_op =
    Commit 'tok pystr nat
  | Cancel 'tok
  | Message 'ev

primrec op_tickets :: "('tok, 'ev) adapter_op \<Rightarrow> nat list" where
  "op_tickets (Commit tok s k) = [k]"
| "op_tickets (Cancel tok) = []"
| "op_tickets (Message ev) = []"

text \<open>
  One operation: the callbacks it calls, and the adapter after it. When \<open>commit\<close> raises, the
  scheduler reports the failure and cancels the token.
\<close>

fun adapter_step ::
  "('tok \<Rightarrow> pystr \<Rightarrow> nat \<Rightarrow> 's \<Rightarrow> commit_outcome \<times> 's) \<Rightarrow> ('tok \<Rightarrow> 's \<Rightarrow> 's) \<Rightarrow>
     ('ev \<Rightarrow> 's \<Rightarrow> (nat \<times> code option) option \<times> 's) \<Rightarrow>
     ('tok, 'ev) adapter_op \<Rightarrow> 's \<Rightarrow> (nat \<times> code option) list \<times> 's" where
  "adapter_step commit cancel message (Commit tok x k) s =
     (case commit tok x k s of
        (Completed err, t) \<Rightarrow> ([(k, err)], t)
      | (Deferred, t) \<Rightarrow> ([], t)
      | (Raised, t) \<Rightarrow> ([(k, Some INPUT_DELIVERY_FAILED)], cancel tok t))"
| "adapter_step commit cancel message (Cancel tok) s = ([], cancel tok s)"
| "adapter_step commit cancel message (Message ev) s =
     (case message ev s of (None, t) \<Rightarrow> ([], t) | (Some c, t) \<Rightarrow> ([c], t))"

primrec adapter_run ::
  "('tok \<Rightarrow> pystr \<Rightarrow> nat \<Rightarrow> 's \<Rightarrow> commit_outcome \<times> 's) \<Rightarrow> ('tok \<Rightarrow> 's \<Rightarrow> 's) \<Rightarrow>
     ('ev \<Rightarrow> 's \<Rightarrow> (nat \<times> code option) option \<times> 's) \<Rightarrow>
     ('tok, 'ev) adapter_op list \<Rightarrow> 's \<Rightarrow> (nat \<times> code option) list \<times> 's" where
  "adapter_run commit cancel message [] s = ([], s)"
| "adapter_run commit cancel message (x # xs) s =
     (let r = adapter_step commit cancel message x s;
          q = adapter_run commit cancel message xs (snd r)
      in (fst r @ fst q, snd q))"

locale text_adapter =
  fixes waiting :: "'s \<Rightarrow> nat option"
    and commit :: "'tok \<Rightarrow> pystr \<Rightarrow> nat \<Rightarrow> 's \<Rightarrow> commit_outcome \<times> 's"
    and cancel :: "'tok \<Rightarrow> 's \<Rightarrow> 's"
    and message :: "'ev \<Rightarrow> 's \<Rightarrow> (nat \<times> code option) option \<times> 's"
  assumes keeps_one: "fst (commit tok x k s) = Deferred \<Longrightarrow>
        waiting s = None \<and> waiting (snd (commit tok x k s)) = Some k"
    and answers_now: "fst (commit tok x k s) = Completed err \<Longrightarrow>
        waiting (snd (commit tok x k s)) = waiting s"
    and raise_recovers: "fst (commit tok x k s) = Raised \<Longrightarrow>
        waiting (cancel tok (snd (commit tok x k s))) = waiting s \<or>
        waiting (cancel tok (snd (commit tok x k s))) = None"
    and cancel_silent: "waiting (cancel tok s) = waiting s \<or> waiting (cancel tok s) = None"
    and message_completes: "fst (message ev s) = Some (k, err) \<Longrightarrow>
        waiting s = Some k \<and> waiting (snd (message ev s)) = None"
    and message_silent: "fst (message ev s) = None \<Longrightarrow>
        waiting (snd (message ev s)) = waiting s \<or> waiting (snd (message ev s)) = None"
begin

abbreviation step where "step \<equiv> adapter_step commit cancel message"
abbreviation run where "run \<equiv> adapter_run commit cancel message"

lemma busy_refuses: "waiting s \<noteq> None \<Longrightarrow> fst (commit tok x k s) \<noteq> Deferred"
  using keeps_one by fastforce

text \<open>Every ticket an operation completes or leaves waiting was waiting before or is its own.\<close>

lemma step_tickets:
  "(\<forall>k \<in> fst ` set (fst (step x s)). k \<in> set_option (waiting s) \<union> set (op_tickets x)) \<and>
   set_option (waiting (snd (step x s))) \<subseteq> set_option (waiting s) \<union> set (op_tickets x)"
proof (cases x)
  case (Commit tok y k)
  obtain r t where rt: "commit tok y k s = (r, t)" by (cases "commit tok y k s")
  show ?thesis
    using keeps_one [of tok y k s] answers_now [of tok y k s] raise_recovers [of tok y k s] rt Commit by (cases r) auto
next
  case (Cancel tok)
  then show ?thesis using cancel_silent [of tok s] by auto
next
  case (Message ev)
  obtain r t where rt: "message ev s = (r, t)" by (cases "message ev s")
  show ?thesis
  proof (cases r)
    case None
    then show ?thesis using message_silent [of ev s] rt Message by auto
  next
    case (Some a)
    then show ?thesis using message_completes [of ev s "fst a" "snd a"] rt Message by auto
  qed
qed

text \<open>A step completes at most one ticket, and that ticket is no longer waiting.\<close>

lemma step_single:
  assumes "set_option (waiting s) \<inter> set (op_tickets x) = {}"
  shows "distinct (map fst (fst (step x s))) \<and>
         fst ` set (fst (step x s)) \<inter> set_option (waiting (snd (step x s))) = {}"
proof (cases x)
  case (Commit tok y k)
  obtain r t where rt: "commit tok y k s = (r, t)" by (cases "commit tok y k s")
  show ?thesis
    using keeps_one [of tok y k s] answers_now [of tok y k s] raise_recovers [of tok y k s] rt Commit assms by (cases r) auto
next
  case (Cancel tok)
  then show ?thesis by simp
next
  case (Message ev)
  obtain r t where rt: "message ev s = (r, t)" by (cases "message ev s")
  show ?thesis
  proof (cases r)
    case (Some a)
    then show ?thesis using message_completes [of ev s "fst a" "snd a"] rt Message by auto
  qed (use rt Message in simp)
qed

lemma run_tickets:
  "fst ` set (fst (run ops s)) \<subseteq> set_option (waiting s) \<union> set (concat (map op_tickets ops))"
proof (induction ops arbitrary: s)
  case (Cons x xs)
  have "fst ` set (fst (run xs (snd (step x s)))) \<subseteq>
      set_option (waiting s) \<union> set (op_tickets x) \<union> set (concat (map op_tickets xs))"
    using Cons.IH [of "snd (step x s)"] step_tickets [of x s] by blast
  moreover have "fst ` set (fst (step x s)) \<subseteq> set_option (waiting s) \<union> set (op_tickets x)"
    using step_tickets [of x s] by blast
  ultimately show ?case by (auto simp: Let_def)
qed simp

theorem run_at_most_once:
  assumes "distinct (concat (map op_tickets ops))"
    and "set_option (waiting s) \<inter> set (concat (map op_tickets ops)) = {}"
  shows "distinct (map fst (fst (run ops s)))"
  using assms
proof (induction ops arbitrary: s)
  case (Cons x xs)
  let ?t = "snd (step x s)"
  have fresh: "set (op_tickets x) \<inter> set (concat (map op_tickets xs)) = {}"
    and later: "distinct (concat (map op_tickets xs))" using Cons.prems(1) by auto
  have now: "set_option (waiting s) \<inter> set (op_tickets x) = {}"
    and rest: "set_option (waiting s) \<inter> set (concat (map op_tickets xs)) = {}"
    using Cons.prems(2) by auto
  have t: "set_option (waiting ?t) \<inter> set (concat (map op_tickets xs)) = {}"
    using step_tickets [of x s] fresh rest by blast
  have "distinct (map fst (fst (run xs ?t)))" using Cons.IH later t by blast
  moreover have "fst ` set (fst (step x s)) \<inter> fst ` set (fst (run xs ?t)) = {}"
    using step_tickets [of x s] step_single [OF now] run_tickets [of xs ?t] fresh rest by blast
  ultimately show ?case using step_single [OF now] by (simp add: Let_def)
qed simp

text \<open>What is not waiting (any more) is only completed by a new commit under its ticket.\<close>

lemma run_not_waiting:
  "waiting s \<noteq> Some k \<Longrightarrow> k \<notin> set (concat (map op_tickets ops)) \<Longrightarrow>
     k \<notin> fst ` set (fst (run ops s))"
  using run_tickets [of ops s] by auto

end

end
