(* ===== verification/Input_Context.thy ===== *)
theory Input_Context
  imports Text_Adapter
begin

section \<open>Toolkit input contexts on the private bus (input\_context.py)\<close>

text \<open>
  \<open>Contexts\<close> hands a confirmed text to the input module inside the focused application. The module
  registers on a private bus, takes the text when the marker event reaches it and acknowledges when
  its toolkit has returned to the event loop. The bus, the X display and the monotonic clock are
  parameters: \<open>clock\<close> is \<open>marker_clock()\<close>, \<open>mark\<close> is \<open>self.marker\<close>, \<open>inside child parent\<close> and
  \<open>focused\<close> are \<open>display.descendant\<close> and \<open>display.focused_within\<close>.
\<close>

type_synonym sender = string

datatype toolkit = Gtk3 | Gtk4 | Qt5 | Qt6

record toolkit_context =
  cx_sender :: sender
  cx_toolkit :: toolkit
  cx_unsupported :: bool

type_synonym context_token = "int \<times> int \<times> sender"

text \<open>\<open>ct_text\<close> is \<open>None\<close> once \<open>take\<close> has popped the text.\<close>

record context_operation =
  ct_token :: context_token
  ct_sender :: sender
  ct_xid :: int
  ct_sequence :: int
  ct_text :: "pystr option"
  ct_completed :: nat

record contexts =
  cx_contexts :: "int \<rightharpoonup> toolkit_context"
  cx_pending :: "context_operation option"
  cx_sequence :: int

definition new_contexts :: contexts where
  "new_contexts = \<lparr>cx_contexts = Map.empty, cx_pending = None, cx_sequence = 0\<rparr>"

subsection \<open>Operations\<close>

text \<open>\<open>_finish\<close>: the callback to call (with its error) and the state; its call is the last action.\<close>

definition cx_finish :: "code option \<Rightarrow> contexts \<Rightarrow> (nat \<times> code option) option \<times> contexts" where
  "cx_finish err s =
     (case cx_pending s of
        None \<Rightarrow> (None, s)
      | Some p \<Rightarrow> (Some (ct_completed p, err), s\<lparr>cx_pending := None\<rparr>))"

definition cx_owner_changed ::
  "sender \<Rightarrow> bool \<Rightarrow> contexts \<Rightarrow> (nat \<times> code option) option \<times> contexts" where
  "cx_owner_changed sender has_new s =
     (if has_new then (None, s)
      else
        let s1 = s\<lparr>cx_contexts := (\<lambda>pid. case cx_contexts s pid of
                     None \<Rightarrow> None
                   | Some x \<Rightarrow> if cx_sender x = sender then None else Some x)\<rparr>
        in case cx_pending s1 of
             None \<Rightarrow> (None, s1)
           | Some p \<Rightarrow> if ct_sender p = sender then cx_finish (Some INPUT_CONTEXT_UNAVAILABLE) s1
                       else (None, s1))"

definition cx_context_for :: "int \<Rightarrow> int \<Rightarrow> contexts \<Rightarrow> context_token option" where
  "cx_context_for xid pid s =
     (case cx_contexts s pid of None \<Rightarrow> None | Some x \<Rightarrow> Some (pid, xid, cx_sender x))"

definition cx_commit ::
  "int \<Rightarrow> (int \<Rightarrow> int \<Rightarrow> bool) \<Rightarrow> context_token \<Rightarrow> pystr \<Rightarrow> nat \<Rightarrow> contexts \<Rightarrow> commit_outcome \<times> contexts" where
  "cx_commit clock mark token tx k s =
     (let (pid, xid, sender) = token in
      case cx_contexts s pid of
        None \<Rightarrow> (Completed (Some INPUT_CONTEXT_UNAVAILABLE), s)
      | Some x \<Rightarrow>
          if cx_pending s \<noteq> None \<or> cx_sender x \<noteq> sender
          then (Completed (Some INPUT_CONTEXT_UNAVAILABLE), s)
          else if cx_unsupported x then (Completed (Some INPUT_MODULE_VERSION_UNSUPPORTED), s)
          else
            let q = max (cx_sequence s + 1) clock;
                s1 = s\<lparr>cx_sequence := q\<rparr>
            in if q > 0xffffffff then (Completed (Some INPUT_SESSION_EXHAUSTED), s1)
               else
                 let s2 = s1\<lparr>cx_pending := Some \<lparr>ct_token = token, ct_sender = sender, ct_xid = xid,
                             ct_sequence = q, ct_text = Some tx, ct_completed = k\<rparr>\<rparr>
                 in if mark q xid then (Deferred, s2)
                    else (Completed (Some INPUT_MARKER_UNAVAILABLE),
                          snd (cx_finish (Some INPUT_MARKER_UNAVAILABLE) s2)))"

definition cx_cancel :: "context_token \<Rightarrow> contexts \<Rightarrow> contexts" where
  "cx_cancel token s =
     (case cx_pending s of
        None \<Rightarrow> s
      | Some p \<Rightarrow> if ct_token p = token then s\<lparr>cx_pending := None\<rparr> else s)"

definition cx_take ::
  "(int \<Rightarrow> int \<Rightarrow> bool) \<Rightarrow> (int \<Rightarrow> bool) \<Rightarrow> sender \<Rightarrow> int \<Rightarrow> int \<Rightarrow> contexts \<Rightarrow>
     (int \<times> pystr) option \<times> (nat \<times> code option) option \<times> contexts" where
  "cx_take inside focused sender sequence xid s =
     (case cx_pending s of
        None \<Rightarrow> (None, None, s)
      | Some p \<Rightarrow>
          (case ct_text p of
             None \<Rightarrow> (None, None, s)
           | Some tx \<Rightarrow>
               if ct_sender p \<noteq> sender \<or> ct_sequence p \<noteq> sequence then (None, None, s)
               else if \<not> inside xid (ct_xid p) \<or> \<not> focused (ct_xid p)
               then (None, cx_finish (Some INPUT_TARGET_UNAVAILABLE) s)
               else (Some (ct_sequence p, tx), None, s\<lparr>cx_pending := Some (p\<lparr>ct_text := None\<rparr>)\<rparr>)))"

definition cx_done :: "sender \<Rightarrow> int \<Rightarrow> contexts \<Rightarrow> bool \<times> (nat \<times> code option) option \<times> contexts" where
  "cx_done sender sequence s =
     (case cx_pending s of
        None \<Rightarrow> (False, None, s)
      | Some p \<Rightarrow>
          if ct_sender p \<noteq> sender \<or> ct_sequence p \<noteq> sequence \<or> ct_text p \<noteq> None then (False, None, s)
          else (True, cx_finish None s))"

definition cx_close :: "contexts \<Rightarrow> contexts" where
  "cx_close s = s\<lparr>cx_pending := None, cx_contexts := Map.empty\<rparr>"

subsection \<open>The bus methods\<close>

datatype bus_call =
    Register int "toolkit option" int
  | Take int int
  | Done int

datatype bus_reply =
    Returned
  | Text_reply int pystr
  | Invalid_version
  | Duplicate_owner
  | Unavailable

text \<open>
  \<open>_call\<close>. In \<open>Register version toolkit pid\<close> the toolkit is \<open>None\<close> for a name the code does not
  know, and \<open>pid\<close> is what the bus daemon answers for the sender's process.
\<close>

definition cx_register :: "sender \<Rightarrow> int \<Rightarrow> toolkit option \<Rightarrow> int \<Rightarrow> contexts \<Rightarrow> bus_reply \<times> contexts" where
  "cx_register sender version tk pid s =
     (case tk of
        None \<Rightarrow> (Invalid_version, s)
      | Some toolkit \<Rightarrow>
          if (case cx_contexts s pid of None \<Rightarrow> False | Some x \<Rightarrow> cx_sender x \<noteq> sender)
          then (Duplicate_owner, s)
          else
            let s1 = s\<lparr>cx_contexts := (cx_contexts s)(pid \<mapsto>
                        \<lparr>cx_sender = sender, cx_toolkit = toolkit, cx_unsupported = (version \<noteq> 1)\<rparr>)\<rparr>
            in (if version \<noteq> 1 then Invalid_version else Returned, s1))"

definition cx_call ::
  "(int \<Rightarrow> int \<Rightarrow> bool) \<Rightarrow> (int \<Rightarrow> bool) \<Rightarrow> sender \<Rightarrow> bus_call \<Rightarrow> contexts \<Rightarrow>
     bus_reply \<times> (nat \<times> code option) option \<times> contexts" where
  "cx_call inside focused sender call s =
     (case call of
        Register version tk pid \<Rightarrow>
          (let (r, t) = cx_register sender version tk pid s in (r, None, t))
      | Take sequence xid \<Rightarrow>
          (case cx_take inside focused sender sequence xid s of
             (Some (q, tx), c, t) \<Rightarrow> (Text_reply q tx, c, t)
           | (None, c, t) \<Rightarrow> (Unavailable, c, t))
      | Done sequence \<Rightarrow>
          (case cx_done sender sequence s of
             (True, c, t) \<Rightarrow> (Returned, c, t)
           | (False, c, t) \<Rightarrow> (Unavailable, c, t)))"

datatype bus_event =
    Call sender bus_call "int \<Rightarrow> int \<Rightarrow> bool" "int \<Rightarrow> bool"
  | Owner_changed sender bool
  | Closed

definition cx_event :: "bus_event \<Rightarrow> contexts \<Rightarrow> (nat \<times> code option) option \<times> contexts" where
  "cx_event ev s =
     (case ev of
        Call sender call inside focused \<Rightarrow> snd (cx_call inside focused sender call s)
      | Owner_changed sender has_new \<Rightarrow> cx_owner_changed sender has_new s
      | Closed \<Rightarrow> (None, cx_close s))"

definition cx_waiting :: "contexts \<Rightarrow> nat option" where
  "cx_waiting s = map_option ct_completed (cx_pending s)"


subsection \<open>The adapter contract\<close>

text \<open>A commit carries the clock's value and the marker's answer it meets.\<close>

type_synonym context_commit = "context_token \<times> int \<times> (int \<Rightarrow> int \<Rightarrow> bool)"

definition cx_commit_op :: "context_commit \<Rightarrow> pystr \<Rightarrow> nat \<Rightarrow> contexts \<Rightarrow> commit_outcome \<times> contexts" where
  "cx_commit_op a tx k s = (case a of (token, clock, mark) \<Rightarrow> cx_commit clock mark token tx k s)"

definition cx_cancel_op :: "context_commit \<Rightarrow> contexts \<Rightarrow> contexts" where
  "cx_cancel_op a s = cx_cancel (fst a) s"

lemmas cx_defs = cx_finish_def cx_owner_changed_def cx_commit_def cx_cancel_def cx_take_def
  cx_done_def cx_close_def cx_register_def cx_waiting_def

lemma cx_commit_returns: "fst (cx_commit clock mark token tx k s) \<noteq> Raised"
  by (simp add: cx_commit_def Let_def split: prod.split option.split)

lemma cx_commit_waiting:
  "case cx_commit clock mark token tx k s of
     (Deferred, t) \<Rightarrow> cx_waiting s = None \<and> cx_waiting t = Some k
   | (_, t) \<Rightarrow> cx_waiting t = cx_waiting s"
  by (auto simp: cx_commit_def cx_waiting_def cx_finish_def Let_def split: prod.split option.split)

lemma cx_take_waiting:
  "case cx_take inside focused sender q xid s of
     (_, Some (k, err), t) \<Rightarrow> cx_waiting s = Some k \<and> cx_waiting t = None
   | (_, None, t) \<Rightarrow> cx_waiting t = cx_waiting s"
  by (auto simp: cx_take_def cx_waiting_def cx_finish_def split: option.split)

lemma cx_done_waiting:
  "case cx_done sender q s of
     (_, Some (k, err), t) \<Rightarrow> cx_waiting s = Some k \<and> cx_waiting t = None
   | (_, None, t) \<Rightarrow> cx_waiting t = cx_waiting s"
  by (auto simp: cx_done_def cx_waiting_def cx_finish_def split: option.split)

lemma cx_register_waiting [simp]: "cx_waiting (snd (cx_register sender v tk pid s)) = cx_waiting s"
  by (simp add: cx_register_def cx_waiting_def Let_def split: option.split)

lemma cx_event_waiting:
  "case cx_event ev s of
     (Some (k, err), t) \<Rightarrow> cx_waiting s = Some k \<and> cx_waiting t = None
   | (None, t) \<Rightarrow> cx_waiting t = cx_waiting s \<or> cx_waiting t = None"
proof (cases ev)
  case (Call sender call inside focused)
  show ?thesis
  proof (cases call)
    case (Register v tk pid)
    obtain r t where rt: "cx_register sender v tk pid s = (r, t)" by (cases "cx_register sender v tk pid s")
    with Call Register cx_register_waiting [of sender v tk pid s] show ?thesis
      by (simp add: cx_event_def cx_call_def)
  next
    case (Take q xid)
    with Call cx_take_waiting [where inside = inside and focused = focused and sender = sender and q = q
        and xid = xid and s = s] show ?thesis
      by (auto simp: cx_event_def cx_call_def split: prod.splits option.splits)
  next
    case (Done q)
    with Call cx_done_waiting [where sender = sender and q = q and s = s] show ?thesis
      by (auto simp: cx_event_def cx_call_def split: prod.splits option.splits bool.splits)
  qed
next
  case (Owner_changed sender new)
  then show ?thesis
    by (auto simp: cx_event_def cx_owner_changed_def cx_finish_def cx_waiting_def Let_def split: option.splits)
next
  case Closed
  then show ?thesis by (simp add: cx_event_def cx_close_def cx_waiting_def)
qed

interpretation toolkit: text_adapter cx_waiting cx_commit_op cx_cancel_op cx_event
proof
  fix a :: context_commit and tx k s
  obtain token clock mark where a: "a = (token, clock, mark)" by (cases a) auto
  note w = cx_commit_waiting [where clock = clock and mark = mark and token = token and tx = tx and k = k and s = s]
  show "fst (cx_commit_op a tx k s) = Deferred \<Longrightarrow>
      cx_waiting s = None \<and> cx_waiting (snd (cx_commit_op a tx k s)) = Some k"
    using w by (auto simp: a cx_commit_op_def split: prod.splits)
  show "fst (cx_commit_op a tx k s) = Completed err \<Longrightarrow>
      cx_waiting (snd (cx_commit_op a tx k s)) = cx_waiting s" for err
    using w by (auto simp: a cx_commit_op_def split: prod.splits commit_outcome.splits)
  show "fst (cx_commit_op a tx k s) = Raised \<Longrightarrow>
      cx_waiting (cx_cancel_op a (snd (cx_commit_op a tx k s))) = cx_waiting s \<or>
      cx_waiting (cx_cancel_op a (snd (cx_commit_op a tx k s))) = None"
    using cx_commit_returns [of clock mark token tx k s] by (simp add: a cx_commit_op_def)
  show "cx_waiting (cx_cancel_op a s) = cx_waiting s \<or> cx_waiting (cx_cancel_op a s) = None"
    by (auto simp: cx_cancel_op_def cx_cancel_def cx_waiting_def split: option.split)
next
  fix ev s k err
  note w = cx_event_waiting [where ev = ev and s = s]
  show "fst (cx_event ev s) = Some (k, err) \<Longrightarrow> cx_waiting s = Some k \<and> cx_waiting (snd (cx_event ev s)) = None"
    using w by (auto split: prod.splits)
  show "fst (cx_event ev s) = None \<Longrightarrow>
      cx_waiting (snd (cx_event ev s)) = cx_waiting s \<or> cx_waiting (snd (cx_event ev s)) = None"
    using w by (auto split: prod.splits)
qed

subsection \<open>Invariant\<close>

text \<open>
  A waiting text belongs to the process that is registered under its sender now, and carries the
  last sequence given out, which fits the 32-bit timestamp it travels in.
\<close>

definition cx_inv :: "contexts \<Rightarrow> bool" where
  "cx_inv s \<longleftrightarrow>
     (case cx_pending s of
        None \<Rightarrow> True
      | Some p \<Rightarrow>
          (case ct_token p of (pid, xid, sender) \<Rightarrow>
             xid = ct_xid p \<and> sender = ct_sender p \<and>
             map_option cx_sender (cx_contexts s pid) = Some sender) \<and>
          ct_sequence p = cx_sequence s \<and> cx_sequence s \<le> 0xffffffff)"

lemma cx_inv_idle: "cx_pending s = None \<Longrightarrow> cx_inv s"
  by (simp add: cx_inv_def)

lemma cx_inv_new [inv_intros]: "cx_inv new_contexts"
  by (simp add: cx_inv_def new_contexts_def)

lemma cx_inv_commit [inv_intros]:
  assumes "cx_inv s"
  shows "cx_inv (snd (cx_commit clock mark token tx k s))"
  using assms
  by (cases "cx_pending s") (auto simp: cx_commit_def cx_finish_def cx_inv_def Let_def split: prod.split option.split)

lemma cx_inv_cancel [inv_intros]: "cx_inv s \<Longrightarrow> cx_inv (cx_cancel token s)"
  by (auto simp: cx_cancel_def cx_inv_def split: option.split)

lemma cx_inv_finish: "cx_inv (snd (cx_finish err s))"
  by (auto simp: cx_finish_def cx_inv_def split: option.split)

lemma cx_inv_owner_changed [inv_intros]:
  assumes "cx_inv s"
  shows "cx_inv (snd (cx_owner_changed sender new s))"
proof (cases "cx_pending s")
  case None
  then show ?thesis by (simp add: cx_owner_changed_def cx_inv_def Let_def)
next
  case (Some p)
  show ?thesis
  proof (cases "\<not> new \<and> ct_sender p = sender")
    case True
    with Some cx_inv_finish show ?thesis by (simp add: cx_owner_changed_def Let_def)
  next
    case False
    with Some assms show ?thesis by (auto simp: cx_owner_changed_def cx_inv_def Let_def)
  qed
qed

lemma cx_inv_register [inv_intros]:
  assumes "cx_inv s"
  shows "cx_inv (snd (cx_register sender v tk pid s))"
  using assms by (auto simp: cx_register_def cx_inv_def Let_def split: option.splits if_splits)

lemma cx_inv_take [inv_intros]:
  assumes "cx_inv s"
  shows "cx_inv (snd (snd (cx_take inside focused sender q xid s)))"
  using assms cx_inv_finish [of "Some INPUT_TARGET_UNAVAILABLE" s]
  by (auto simp: cx_take_def cx_inv_def split: option.splits)

lemma cx_inv_done [inv_intros]:
  assumes "cx_inv s"
  shows "cx_inv (snd (snd (cx_done sender q s)))"
  using assms cx_inv_finish [of None s] by (auto simp: cx_done_def split: option.splits)

lemma cx_inv_event [inv_intros]:
  assumes "cx_inv s"
  shows "cx_inv (snd (cx_event ev s))"
proof (cases ev)
  case (Call sender call inside focused)
  show ?thesis
  proof (cases call)
    case (Register v tk pid)
    obtain r t where rt: "cx_register sender v tk pid s = (r, t)" by (cases "cx_register sender v tk pid s")
    with Call Register cx_inv_register [OF assms, of sender v tk pid] show ?thesis
      by (simp add: cx_event_def cx_call_def)
  next
    case (Take q xid)
    with Call cx_inv_take [OF assms, of inside focused sender q xid] show ?thesis
      by (auto simp: cx_event_def cx_call_def split: prod.splits option.splits)
  next
    case (Done q)
    with Call cx_inv_done [OF assms, of sender q] show ?thesis
      by (auto simp: cx_event_def cx_call_def split: prod.splits bool.splits)
  qed
next
  case (Owner_changed sender new)
  then show ?thesis using cx_inv_owner_changed [OF assms] by (simp add: cx_event_def)
next
  case Closed
  then show ?thesis by (simp add: cx_event_def cx_close_def cx_inv_def)
qed


subsection \<open>What the bus hands out\<close>

text \<open>The texts an operation gives away: to whom, under which sequence.\<close>

type_synonym context_op = "(context_commit, bus_event) adapter_op"

fun cx_given :: "context_op \<Rightarrow> contexts \<Rightarrow> (sender \<times> int \<times> pystr) list" where
  "cx_given (Message (Call sender call inside focused)) s =
     (case cx_call inside focused sender call s of
        (Text_reply q tx, _) \<Rightarrow> [(sender, q, tx)]
      | _ \<Rightarrow> [])"
| "cx_given x s = []"

abbreviation cx_step :: "context_op \<Rightarrow> contexts \<Rightarrow> (nat \<times> code option) list \<times> contexts" where
  "cx_step \<equiv> adapter_step cx_commit_op cx_cancel_op cx_event"

primrec cx_handed :: "context_op list \<Rightarrow> contexts \<Rightarrow> (sender \<times> int \<times> pystr) list" where
  "cx_handed [] s = []"
| "cx_handed (x # xs) s = cx_given x s @ cx_handed xs (snd (cx_step x s))"

lemma cx_given_cases:
  assumes "g \<in> set (cx_given x s)"
  obtains sender xid inside focused p tx where
    "x = Message (Call sender (Take (ct_sequence p) xid) inside focused)" "cx_pending s = Some p"
    "ct_text p = Some tx" "ct_sender p = sender" "g = (sender, ct_sequence p, tx)"
    "inside xid (ct_xid p)" "focused (ct_xid p)" "cx_given x s = [g]"
    "snd (cx_step x s) = s\<lparr>cx_pending := Some (p\<lparr>ct_text := None\<rparr>)\<rparr>"
proof -
  from assms obtain sender call inside focused where x: "x = Message (Call sender call inside focused)"
    by (cases "(x, s)" rule: cx_given.cases) auto
  from assms x obtain q xid where call: "call = Take q xid"
    by (cases call) (auto simp: cx_call_def cx_register_def Let_def split: prod.splits bool.splits option.splits if_splits)
  from assms obtain p tx where "cx_pending s = Some p" "ct_text p = Some tx"
    and "ct_sender p = sender" "ct_sequence p = q" "g = (sender, q, tx)"
    and "inside xid (ct_xid p)" "focused (ct_xid p)"
    unfolding x call by (auto simp: cx_call_def cx_take_def split: option.splits if_splits)
  then show thesis
    by (intro that [where p = p and xid = xid and inside = inside and focused = focused])
      (simp_all add: x call cx_call_def cx_take_def cx_event_def)
qed

text \<open>The text waiting to be taken, if any.\<close>

definition cx_offered :: "contexts \<Rightarrow> (sender \<times> int \<times> pystr) option" where
  "cx_offered s =
     (case cx_pending s of
        None \<Rightarrow> None
      | Some p \<Rightarrow> map_option (\<lambda>tx. (ct_sender p, ct_sequence p, tx)) (ct_text p))"

lemma cx_commit_op_returns: "cx_commit_op a tx k s \<noteq> (Raised, t)"
  using cx_commit_returns by (auto simp: cx_commit_op_def dest: arg_cong [where f = fst] split: prod.split)

lemma cx_step_state:
  "snd (cx_step (Commit a tx k) s) = snd (cx_commit_op a tx k s)"
  "snd (cx_step (Cancel a) s) = cx_cancel (fst a) s"
  "snd (cx_step (Message ev) s) = snd (cx_event ev s)"
  by (auto simp: cx_cancel_op_def cx_commit_op_returns split: prod.split commit_outcome.split option.split)

lemma cx_inv_step [inv_intros]: "cx_inv s \<Longrightarrow> cx_inv (snd (cx_step x s))"
  by (cases x) (auto simp: cx_step_state cx_commit_op_def simp del: adapter_step.simps
      intro: inv_intros split: prod.split)

text \<open>Only a commit gives out a sequence, and what is offered under the old one does not outlive it.\<close>

lemma cx_sequence_step:
  "cx_sequence s \<le> cx_sequence (snd (cx_step x s))"
proof (cases x)
  case (Commit a tx k)
  then show ?thesis
    by (simp add: cx_step_state cx_commit_op_def cx_commit_def cx_finish_def Let_def max_def
        del: adapter_step.simps split: prod.split option.split)
next
  case (Cancel a)
  then show ?thesis by (simp add: cx_step_state cx_cancel_def del: adapter_step.simps split: option.split)
next
  case (Message ev)
  have "cx_sequence (snd (cx_event ev s)) = cx_sequence s"
    by (cases ev)
      (auto simp: cx_event_def cx_call_def cx_register_def cx_take_def cx_done_def cx_finish_def
        cx_owner_changed_def cx_close_def Let_def split: bus_call.split prod.splits option.splits bool.splits if_splits)
  with Message show ?thesis by (simp only: cx_step_state)
qed

text \<open>Every sequence handed out from now on is above this.\<close>

definition cx_floor :: "contexts \<Rightarrow> int" where
  "cx_floor s = (if cx_offered s = None then cx_sequence s else cx_sequence s - 1)"


lemma cx_offered_pending:
  "cx_offered s = Some (sender, q, tx) \<longleftrightarrow>
     (\<exists>p. cx_pending s = Some p \<and> ct_sender p = sender \<and> ct_sequence p = q \<and> ct_text p = Some tx)"
  by (auto simp: cx_offered_def split: option.splits)

text \<open>A message leaves the waiting operation alone, ends it, or takes its text.\<close>

lemma cx_event_pending:
  "cx_pending (snd (cx_event ev s)) \<in> {None, cx_pending s, map_option (ct_text_update (\<lambda>_. None)) (cx_pending s)}"
proof (cases ev)
  case (Call sender call inside focused)
  have take: "cx_pending (snd (snd (cx_take inside focused sender q xid s))) \<in>
      {None, cx_pending s, map_option (ct_text_update (\<lambda>_. None)) (cx_pending s)}" for q xid
    by (simp add: cx_take_def cx_finish_def split: option.split)
  have done_q: "cx_pending (snd (snd (cx_done sender q s))) \<in> {None, cx_pending s}" for q
    by (simp add: cx_done_def cx_finish_def split: option.split)
  show ?thesis
  proof (cases call)
    case (Register v tk pid)
    with Call show ?thesis
      by (simp add: cx_event_def cx_call_def cx_register_def Let_def split: prod.split option.split)
  next
    case (Take q xid)
    with Call take [of q xid] show ?thesis
      by (cases "cx_take inside focused sender q xid s") (auto simp: cx_event_def cx_call_def split: option.splits)
  next
    case (Done q)
    with Call done_q [of q] show ?thesis
      by (cases "cx_done sender q s") (auto simp: cx_event_def cx_call_def split: bool.splits)
  qed
next
  case (Owner_changed sender new)
  then show ?thesis
    by (simp add: cx_event_def cx_owner_changed_def cx_finish_def Let_def split: option.split)
next
  case Closed
  then show ?thesis by (simp add: cx_event_def cx_close_def)
qed

lemma cx_offered_message:
  "cx_offered (snd (cx_event ev s)) = cx_offered s \<or> cx_offered (snd (cx_event ev s)) = None"
  using cx_event_pending [of ev s] by (auto simp: cx_offered_def split: option.splits)

lemma cx_offered_commit:
  assumes "cx_offered (snd (cx_commit clock mark token tx k s)) = Some (sender, q, ty)"
  shows "cx_offered s = Some (sender, q, ty) \<or>
    (tx = ty \<and> (\<exists>pid xid. token = (pid, xid, sender)) \<and> cx_sequence s < q \<and>
     cx_sequence s < cx_sequence (snd (cx_commit clock mark token tx k s)))"
proof -
  obtain pid xid to where token: "token = (pid, xid, to)" by (cases token) auto
  have "cx_pending (snd (cx_commit clock mark token tx k s)) = cx_pending s \<or>
      cx_pending (snd (cx_commit clock mark token tx k s)) = None \<or>
      (cx_sequence s < cx_sequence (snd (cx_commit clock mark token tx k s)) \<and>
       (\<exists>p. cx_pending (snd (cx_commit clock mark token tx k s)) = Some p \<and> ct_sender p = to \<and>
         cx_sequence s < ct_sequence p \<and> ct_text p = Some tx))"
    unfolding token cx_commit_def by (simp add: cx_finish_def Let_def max_def split: option.split)
  then show ?thesis
    using assms unfolding cx_offered_pending token by (elim disjE conjE exE) auto
qed

lemma cx_offered_step:
  assumes "cx_offered (snd (cx_step x s)) = Some (sender, q, tx)"
  shows "cx_offered s = Some (sender, q, tx) \<or>
    ((\<exists>pid xid clock mark k. x = Commit ((pid, xid, sender), clock, mark) tx k) \<and>
     cx_sequence s < cx_sequence (snd (cx_step x s)))"
proof (cases x)
  case (Commit a ty k)
  obtain token clock mark where a: "a = (token, clock, mark)" by (cases a) auto
  from assms Commit a cx_offered_commit [of clock mark token ty k s sender q tx] show ?thesis
    by (auto simp: cx_step_state cx_commit_op_def simp del: adapter_step.simps)
next
  case (Cancel a)
  with assms show ?thesis
    by (auto simp: cx_step_state cx_cancel_def cx_offered_def simp del: adapter_step.simps split: option.splits if_splits)
next
  case (Message ev)
  with assms cx_offered_message [of ev s] show ?thesis
    by (auto simp: cx_step_state simp del: adapter_step.simps)
qed

lemma cx_floor_step: "cx_floor s \<le> cx_floor (snd (cx_step x s))"
proof (cases "cx_offered (snd (cx_step x s))")
  case None
  then show ?thesis using cx_sequence_step [of s x] by (simp add: cx_floor_def)
next
  case (Some g)
  obtain sender q tx where g: "g = (sender, q, tx)" by (cases g) auto
  show ?thesis
    using cx_offered_step [OF Some [unfolded g]] cx_sequence_step [of s x] Some by (auto simp: cx_floor_def)
qed

lemma cx_given_offered:
  assumes "cx_inv s" "g \<in> set (cx_given x s)"
  shows "cx_offered s = Some g" "cx_given x s = [g]" "cx_floor s < fst (snd g)"
    "fst (snd g) \<le> cx_floor (snd (cx_step x s))"
  using assms(2)
  by (auto elim!: cx_given_cases simp: cx_offered_def cx_floor_def simp del: adapter_step.simps)
    (use assms(1) in \<open>auto simp: cx_inv_def\<close>)

lemma cx_handed_floor:
  "cx_inv s \<Longrightarrow> g \<in> set (cx_handed ops s) \<Longrightarrow> cx_floor s < fst (snd g)"
proof (induction ops arbitrary: s)
  case (Cons x xs)
  show ?case
  proof (cases "g \<in> set (cx_given x s)")
    case True
    then show ?thesis using cx_given_offered(3) [OF Cons.prems(1)] by blast
  next
    case False
    then have "g \<in> set (cx_handed xs (snd (cx_step x s)))" using Cons.prems(2) by simp
    then have "cx_floor (snd (cx_step x s)) < fst (snd g)" using Cons cx_inv_step by blast
    then show ?thesis using cx_floor_step [of s x] by linarith
  qed
qed simp

lemma cx_handed_increasing:
  "cx_inv s \<Longrightarrow> sorted_wrt (<) (map (fst \<circ> snd) (cx_handed ops s))"
proof (induction ops arbitrary: s)
  case (Cons x xs)
  let ?t = "snd (cx_step x s)"
  have t: "cx_inv ?t" using Cons.prems by (rule cx_inv_step)
  note rest = Cons.IH [OF t]
  show ?case
  proof (cases "cx_given x s")
    case Nil
    with rest show ?thesis by simp
  next
    case (Cons g gs)
    then have g: "g \<in> set (cx_given x s)" by simp
    have "fst (snd g) < fst (snd h)" if "h \<in> set (cx_handed xs ?t)" for h
      using cx_given_offered(4) [OF Cons.prems g] cx_handed_floor [OF t that] by linarith
    with rest cx_given_offered(2) [OF Cons.prems g] show ?thesis by simp
  qed
qed simp

text \<open>What reaches a bus name was committed to that name.\<close>

lemma cx_handed_committed:
  "cx_inv s \<Longrightarrow> (sender, q, tx) \<in> set (cx_handed ops s) \<Longrightarrow>
     cx_offered s = Some (sender, q, tx) \<or>
     (\<exists>pid xid clock mark k. Commit ((pid, xid, sender), clock, mark) tx k \<in> set ops)"
proof (induction ops arbitrary: s)
  case (Cons x xs)
  show ?case
  proof (cases "(sender, q, tx) \<in> set (cx_given x s)")
    case True
    then show ?thesis using cx_given_offered(1) [OF Cons.prems(1)] by blast
  next
    case False
    then have "(sender, q, tx) \<in> set (cx_handed xs (snd (cx_step x s)))" using Cons.prems(2) by simp
    from Cons.IH [OF cx_inv_step [OF Cons.prems(1)] this] show ?thesis
    proof
      assume "cx_offered (snd (cx_step x s)) = Some (sender, q, tx)"
      from cx_offered_step [OF this] show ?thesis using list.set_intros(1) [of x xs] by blast
    qed (use list.set_intros(2) [of _ xs x] in blast)
  qed
qed simp


subsection \<open>Properties\<close>

text \<open>Texts leave the private bus in strictly increasing sequence, each at most once, and every text a
  bus name takes was committed for that very name: no other client of the bus, no stale marker and no
  repeated \<open>Take\<close> ever receives one.\<close>
theorem contexts_hand_out_once:
  "sorted_wrt (<) (map (fst \<circ> snd) (cx_handed ops new_contexts)) \<and>
   (\<forall>(sender, q, tx) \<in> set (cx_handed ops new_contexts).
      \<exists>pid xid clock mark k. Commit ((pid, xid, sender), clock, mark) tx k \<in> set ops)"
proof -
  have "cx_offered new_contexts = None" by (simp add: cx_offered_def new_contexts_def)
  then show ?thesis
    using cx_handed_increasing [OF cx_inv_new] cx_handed_committed [OF cx_inv_new] by auto
qed

lemma contexts_hand_out_once_witness:
  "sorted_wrt (<) (map (fst \<circ> snd) (cx_handed
     [Message (Call ''a'' (Register 1 (Some Qt5) 7) (\<lambda>_ _. True) (\<lambda>_. True)),
      Commit ((7, 3, ''a''), 100, \<lambda>_ _. True) [104] 0,
      Message (Call ''a'' (Take 100 3) (\<lambda>_ _. True) (\<lambda>_. True))] new_contexts))"
  using contexts_hand_out_once by blast

text \<open>The toolkit adapter calls each completion callback at most once, whatever commits,
  cancellations, bus calls and disconnections happen, in any order.\<close>
theorem contexts_complete_once:
  assumes "distinct (concat (map op_tickets ops))"
  shows "distinct (map fst (fst (adapter_run cx_commit_op cx_cancel_op cx_event ops new_contexts)))"
  using assms by (rule toolkit.run_at_most_once) (simp add: cx_waiting_def new_contexts_def)

lemma contexts_complete_once_witness:
  "distinct (map fst (fst (adapter_run cx_commit_op cx_cancel_op cx_event
     [Commit ((7, 3, ''a''), 100, \<lambda>_ _. True) [104] 0, Message Closed] new_contexts)))"
  by (rule contexts_complete_once) simp

end
