(* ===== verification/Input_Xim.thy ===== *)
theory Input_Xim
  imports Text_Adapter
begin

section \<open>The XIM text adapter (input\_xim.py)\<close>

text \<open>
  \<open>XIM\<close> commits a text to the focused X input context in bounded UTF-8 fragments, one per sync
  acknowledgement. libxcb and xcb-imdkit are not under src/: what the code hands to them is the list
  \<open>xi_out\<close>; \<open>encode\<close> is \<open>xcb_utf8_to_compound_text\<close> (\<open>None\<close>: it failed or its result exceeds
  65535 bytes); \<open>parent\<close>, \<open>focus\<close> and \<open>keymap\<close> are the replies to the tree, focus and keymap
  queries (\<open>None\<close>: no reply). A callback of the library is one \<open>xim_event\<close>. Contexts, clients and
  windows are their non-null handles.
\<close>

subsection \<open>Fragments\<close>

definition fragment_limit :: nat where "fragment_limit = 256"

text \<open>The generator's loop: \<open>fragment\<close> and \<open>n\<close> are its locals \<open>fragment\<close> and \<open>size\<close>.\<close>

fun fragments_loop :: "pystr \<Rightarrow> pystr \<Rightarrow> nat \<Rightarrow> pystr list" where
  "fragments_loop [] fragment n = (if fragment = [] then [] else [fragment])"
| "fragments_loop (c # cs) fragment n =
     (let width = length (utf8_char c)
      in if n + width > fragment_limit
         then fragment # fragments_loop cs [c] width
         else fragments_loop cs (fragment @ [c]) (n + width))"

definition text_fragments :: "pystr \<Rightarrow> pystr list" where
  "text_fragments x = fragments_loop x [] 0"

definition utf8_size :: "pystr \<Rightarrow> nat" where
  "utf8_size x = length (concat (map utf8_char x))"

lemma utf8_size_simps [simp]:
  "utf8_size [] = 0" "utf8_size (x @ y) = utf8_size x + utf8_size y" "utf8_size [c] = utf8_width c"
  by (simp_all add: utf8_size_def)

lemma fragments_loop_concat: "concat (fragments_loop cs f n) = f @ cs"
  by (induction cs f n rule: fragments_loop.induct) (auto simp: Let_def)

lemma fragments_loop_bounds:
  "utf8_size f = n \<Longrightarrow> n \<le> fragment_limit \<Longrightarrow> x \<in> set (fragments_loop cs f n) \<Longrightarrow>
     x \<noteq> [] \<and> utf8_size x \<le> fragment_limit"
proof (induction cs f n rule: fragments_loop.induct)
  case (2 c cs f n)
  have w: "utf8_width c \<le> fragment_limit" using utf8_width_bounds [of c] by (simp add: fragment_limit_def)
  show ?case
  proof (cases "fragment_limit < n + utf8_width c")
    case True
    have "f \<noteq> []" using True w "2.prems"(1) by auto
    with True "2.prems" "2.IH"(1) w show ?thesis by (auto simp: Let_def)
  next
    case False
    with "2.prems" "2.IH"(2) show ?thesis by (simp add: Let_def)
  qed
qed (auto split: if_splits)

text \<open>Fragments are cut as late as possible: a fragment and the next character never fit.\<close>

lemma fragments_loop_greedy:
  "utf8_size f = n \<Longrightarrow> n \<le> fragment_limit \<Longrightarrow> fragments_loop cs f n = xs @ y # (c # z) # zs \<Longrightarrow>
     fragment_limit < utf8_size y + utf8_width c"
proof (induction cs f n arbitrary: xs rule: fragments_loop.induct)
  case (2 d cs f n)
  have w: "utf8_width d \<le> fragment_limit" using utf8_width_bounds [of d] by (simp add: fragment_limit_def)
  have head: "\<exists>w ws. fragments_loop es g m = (e # w) # ws" if "g = e # v" for es g m e v
    using that by (induction es g m arbitrary: v rule: fragments_loop.induct) (auto simp: Let_def)
  show ?case
  proof (cases "fragment_limit < n + utf8_width d")
    case True
    show ?thesis
    proof (cases xs)
      case Nil
      with head [of "[d]" d "[]" cs "utf8_width d"] True "2.prems" show ?thesis by (auto simp: Let_def)
    next
      case (Cons u us)
      with True "2.prems" "2.IH"(1) [of "utf8_width d" us] w show ?thesis by (simp add: Let_def)
    qed
  next
    case False
    with "2.prems" "2.IH"(2) [OF refl, of xs] show ?thesis by (simp add: Let_def)
  qed
qed (auto split: if_splits simp: append_eq_Cons_conv Cons_eq_append_conv)

subsection \<open>Windows\<close>

text \<open>The bounded walk to the root: at most 64 parents are asked for.\<close>

fun descendant_walk :: "(nat \<Rightarrow> nat option) \<Rightarrow> nat \<Rightarrow> nat \<Rightarrow> nat \<Rightarrow> bool" where
  "descendant_walk parent 0 child window = False"
| "descendant_walk parent (Suc n) child window =
     (if child = window then True
      else if child \<le> 1 then False
      else case parent child of None \<Rightarrow> False | Some up \<Rightarrow> descendant_walk parent n up window)"

definition descendant :: "(nat \<Rightarrow> nat option) \<Rightarrow> nat \<Rightarrow> nat \<Rightarrow> bool" where
  "descendant parent child window = descendant_walk parent 64 child window"

lemma descendant_self [simp]: "descendant parent window window"
proof -
  have "(64::nat) = Suc 63" by simp
  then show ?thesis unfolding descendant_def by (simp only: descendant_walk.simps if_True simp_thms)
qed

definition focused_within :: "(nat \<Rightarrow> nat option) \<Rightarrow> nat option \<Rightarrow> nat \<Rightarrow> bool" where
  "focused_within parent focus xid =
     (case focus of None \<Rightarrow> False | Some f \<Rightarrow> descendant parent f xid)"

text \<open>The window's chain of ancestors, as the server answers it.\<close>

fun ancestor :: "(nat \<Rightarrow> nat option) \<Rightarrow> nat \<Rightarrow> nat \<Rightarrow> nat option" where
  "ancestor parent 0 child = Some child"
| "ancestor parent (Suc n) child =
     (if child \<le> 1 then None else Option.bind (parent child) (ancestor parent n))"

lemma descendant_walk_iff:
  "descendant_walk parent n child window \<longleftrightarrow> (\<exists>k < n. ancestor parent k child = Some window)"
proof (induction n arbitrary: child)
  case (Suc n)
  show ?case
  proof (cases "child = window")
    case True
    then show ?thesis by (auto intro: exI [of _ 0])
  next
    case False
    have "(\<exists>k < Suc n. ancestor parent k child = Some window) \<longleftrightarrow>
        (\<exists>k < n. ancestor parent (Suc k) child = Some window)"
      using False by (auto simp: less_Suc_eq_0_disj)
    with Suc.IH False show ?thesis by (auto split: option.split)
  qed
qed simp

subsection \<open>State\<close>

datatype xim_out =
    Commit_string nat bytes
  | Sync nat
  | Forward nat
  | Marker_event int nat

record xim =
  xi_focused :: "nat option"
  xi_pending :: "(nat \<times> nat) option"
  xi_fragments :: "pystr list"
  xi_cancelled :: "nat set"
  xi_locales :: "nat \<rightharpoonup> bool"
  xi_supported :: "nat set"
  xi_watch :: bool
  xi_out :: "xim_out list"

definition new_xim :: xim where
  "new_xim = \<lparr>xi_focused = None, xi_pending = None, xi_fragments = [], xi_cancelled = {},
     xi_locales = Map.empty, xi_supported = {}, xi_watch = True, xi_out = []\<rparr>"

subsection \<open>Operations\<close>

text \<open>
  \<open>_send_fragment\<close> pops the first of the remaining fragments; its callers check that there is one.
\<close>

definition send_fragment ::
  "(bytes \<Rightarrow> bytes option) \<Rightarrow> nat \<Rightarrow> xim \<Rightarrow> (nat \<times> code option) option \<times> xim" where
  "send_fragment encode token s =
     (case xi_fragments s of
        [] \<Rightarrow> (None, s)
      | f # rest \<Rightarrow>
          let s1 = s\<lparr>xi_fragments := rest\<rparr>
          in case encode (concat (map utf8_char f)) of
               None \<Rightarrow>
                 (case xi_pending s1 of
                    None \<Rightarrow> (None, s1)
                  | Some p \<Rightarrow> (Some (snd p, Some INPUT_TEXT_TOO_LONG),
                               s1\<lparr>xi_pending := None, xi_fragments := []\<rparr>))
             | Some data \<Rightarrow> (None, s1\<lparr>xi_out := xi_out s1 @ [Commit_string token data, Sync token]\<rparr>))"

text \<open>An empty text has no fragment to pop: the \<open>IndexError\<close> leaves \<open>pending\<close> set.\<close>

definition xim_commit ::
  "(bytes \<Rightarrow> bytes option) \<Rightarrow> nat \<Rightarrow> pystr \<Rightarrow> nat \<Rightarrow> xim \<Rightarrow> commit_outcome \<times> xim" where
  "xim_commit encode token x k s =
     (if xi_focused s \<noteq> Some token \<or> xi_pending s \<noteq> None \<or> token \<in> xi_cancelled s
      then (Completed (Some INPUT_CONTEXT_UNAVAILABLE), s)
      else
        let s1 = s\<lparr>xi_pending := Some (token, k), xi_fragments := text_fragments x\<rparr>
        in if xi_fragments s1 = [] then (Raised, s1)
           else
             (case send_fragment encode token s1 of
                (None, t) \<Rightarrow> (Deferred, t)
              | (Some (_, err), t) \<Rightarrow> (Completed err, t)))"

definition xim_cancel :: "nat \<Rightarrow> xim \<Rightarrow> xim" where
  "xim_cancel token s =
     (case xi_pending s of
        None \<Rightarrow> s
      | Some p \<Rightarrow>
          if fst p = token
          then s\<lparr>xi_pending := None, xi_fragments := [], xi_cancelled := insert token (xi_cancelled s)\<rparr>
          else s)"

text \<open>\<open>name.partition('.')[2].partition('@')[0].lower().replace('-', '') == 'utf8'\<close>\<close>

definition after_dot :: "string \<Rightarrow> string" where
  "after_dot s = (case dropWhile (\<lambda>c. c \<noteq> CHR ''.'') s of [] \<Rightarrow> [] | _ # rest \<Rightarrow> rest)"

definition lower_char :: "char \<Rightarrow> char" where
  "lower_char c = (let n = of_char c :: nat in if 65 \<le> n \<and> n \<le> 90 then char_of (n + 32) else c)"

definition utf8_locale :: "string \<Rightarrow> bool" where
  "utf8_locale name \<longleftrightarrow>
     filter (\<lambda>c. c \<noteq> CHR ''-'') (map lower_char (takeWhile (\<lambda>c. c \<noteq> CHR ''@'') (after_dot name))) = ''utf8''"

text \<open>The library's callback by its major code: 30 open, 50 create context, 3 and 32 disconnect and
  close, 58 and 59 focus and unfocus, 60 forward, 62 sync reply, 52 destroy context.\<close>

datatype xim_event =
    Opened nat string
  | Created nat nat
  | Client_gone nat
  | Focus_in nat
  | Focus_out nat
  | Forwarded nat
  | Sync_reply nat
  | Destroyed nat
  | Hangup
  | Stop

definition drop_focus :: "nat \<Rightarrow> xim \<Rightarrow> xim" where
  "drop_focus context s = (if xi_focused s = Some context then s\<lparr>xi_focused := None\<rparr> else s)"

definition fail_pending :: "xim \<Rightarrow> (nat \<times> code option) option \<times> xim" where
  "fail_pending s =
     (case xi_pending s of
        None \<Rightarrow> (None, s)
      | Some p \<Rightarrow> (Some (snd p, Some INPUT_CONTEXT_UNAVAILABLE), s\<lparr>xi_pending := None, xi_fragments := []\<rparr>))"

definition xim_callback ::
  "(bytes \<Rightarrow> bytes option) \<Rightarrow> xim_event \<Rightarrow> xim \<Rightarrow> (nat \<times> code option) option \<times> xim" where
  "xim_callback encode ev s =
     (case ev of
        Opened client name \<Rightarrow> (None, s\<lparr>xi_locales := (xi_locales s)(client \<mapsto> utf8_locale name)\<rparr>)
      | Created client context \<Rightarrow>
          (None, if xi_locales s client = Some True
                 then s\<lparr>xi_supported := insert context (xi_supported s)\<rparr> else s)
      | Client_gone client \<Rightarrow> (None, s\<lparr>xi_locales := (xi_locales s)(client := None)\<rparr>)
      | Focus_in context \<Rightarrow>
          (None, s\<lparr>xi_focused := (if context \<in> xi_supported s then Some context else None)\<rparr>)
      | Focus_out context \<Rightarrow> (None, drop_focus context s)
      | Forwarded context \<Rightarrow> (None, s\<lparr>xi_out := xi_out s @ [Forward context]\<rparr>)
      | Sync_reply context \<Rightarrow>
          (case xi_pending s of
             None \<Rightarrow> (None, s)
           | Some p \<Rightarrow>
               if fst p \<noteq> context then (None, s)
               else if xi_focused s = Some context \<and> xi_fragments s \<noteq> [] then send_fragment encode context s
               else (Some (snd p, if xi_focused s = Some context then None else Some INPUT_CONTEXT_UNAVAILABLE),
                     s\<lparr>xi_pending := None, xi_fragments := []\<rparr>))
      | Destroyed context \<Rightarrow>
          (let s1 = drop_focus context s;
               s2 = s1\<lparr>xi_supported := xi_supported s1 - {context}, xi_cancelled := xi_cancelled s1 - {context}\<rparr>
           in case xi_pending s2 of
                None \<Rightarrow> (None, s2)
              | Some p \<Rightarrow> if fst p = context then fail_pending s2 else (None, s2))
      | Hangup \<Rightarrow> fail_pending (s\<lparr>xi_focused := None, xi_watch := False\<rparr>)
      | Stop \<Rightarrow> (None, s\<lparr>xi_pending := None, xi_fragments := [], xi_watch := False\<rparr>))"

text \<open>
  \<open>context_for\<close> first reads: it lets the library filter every queued event. \<open>win\<close> is the context's
  focus window, or its client window when it has none.
\<close>

primrec xim_read ::
  "(bytes \<Rightarrow> bytes option) \<Rightarrow> xim_event list \<Rightarrow> xim \<Rightarrow> (nat \<times> code option) list \<times> xim" where
  "xim_read encode [] s = ([], s)"
| "xim_read encode (ev # evs) s =
     (case xim_callback encode ev s of
        (c, t) \<Rightarrow> (case xim_read encode evs t of (cs, u) \<Rightarrow> ((case c of None \<Rightarrow> cs | Some x \<Rightarrow> x # cs), u)))"

definition xim_context_for ::
  "(bytes \<Rightarrow> bytes option) \<Rightarrow> (nat \<Rightarrow> nat option) \<Rightarrow> (nat \<Rightarrow> nat) \<Rightarrow> xim_event list \<Rightarrow> nat \<Rightarrow> xim \<Rightarrow>
     nat option \<times> (nat \<times> code option) list \<times> xim" where
  "xim_context_for encode parent win evs xid s =
     (case xim_read encode evs s of
        (cs, t) \<Rightarrow>
          (case xi_focused t of
             None \<Rightarrow> (None, cs, t)
           | Some context \<Rightarrow>
               (if descendant parent (win context) xid then Some context else None, cs, t)))"

text \<open>\<open>marker\<close>; \<open>flushed\<close> is \<open>flush(connection) > 0\<close>.\<close>

definition xim_marker ::
  "nat list option \<Rightarrow> (nat \<Rightarrow> nat option) \<Rightarrow> nat option \<Rightarrow> bool \<Rightarrow> int \<Rightarrow> nat \<Rightarrow> xim \<Rightarrow> bool \<times> xim" where
  "xim_marker keymap parent focus flushed sequence xid s =
     (case keymap of
        None \<Rightarrow> (False, s)
      | Some values \<Rightarrow>
          if \<not> (\<forall>v \<in> set values. v = 0) then (False, s)
          else
            (case focus of
               None \<Rightarrow> (False, s)
             | Some window \<Rightarrow>
                 if \<not> descendant parent window xid then (False, s)
                 else (flushed, s\<lparr>xi_out := xi_out s @ [Marker_event sequence window]\<rparr>)))"


subsection \<open>The adapter contract\<close>

definition xim_waiting :: "xim \<Rightarrow> nat option" where
  "xim_waiting s = map_option snd (xi_pending s)"

lemma send_fragment_pending:
  "xi_pending (snd (send_fragment encode token s)) =
     (if fst (send_fragment encode token s) = None then xi_pending s else None)"
  "fst (send_fragment encode token s) = Some c \<Longrightarrow> \<exists>p. xi_pending s = Some p \<and> c = (snd p, Some INPUT_TEXT_TOO_LONG)"
  by (auto simp: send_fragment_def Let_def split: list.splits option.splits)

lemma xim_commit_cases:
  obtains (refused) "xim_commit encode token x k s = (Completed (Some INPUT_CONTEXT_UNAVAILABLE), s)"
      "xi_focused s \<noteq> Some token \<or> xi_pending s \<noteq> None \<or> token \<in> xi_cancelled s"
  | (raised) "text_fragments x = []" "xi_pending s = None" "xim_commit encode token x k s =
      (Raised, s\<lparr>xi_pending := Some (token, k), xi_fragments := []\<rparr>)"
  | (sent) "xi_focused s = Some token" "xi_pending s = None" "token \<notin> xi_cancelled s" "text_fragments x \<noteq> []"
      "xim_commit encode token x k s =
        (case send_fragment encode token (s\<lparr>xi_pending := Some (token, k), xi_fragments := text_fragments x\<rparr>) of
           (None, t) \<Rightarrow> (Deferred, t)
         | (Some (_, err), t) \<Rightarrow> (Completed err, t))"
proof (cases "xi_focused s \<noteq> Some token \<or> xi_pending s \<noteq> None \<or> token \<in> xi_cancelled s")
  case True
  then show ?thesis by (intro refused) (auto simp: xim_commit_def)
next
  case False
  then have idle: "xi_focused s = Some token" "xi_pending s = None" "token \<notin> xi_cancelled s" by (cases "xi_pending s"; auto)+
  show ?thesis
  proof (cases "text_fragments x = []")
    case True
    with idle show ?thesis by (intro raised) (simp_all add: xim_commit_def)
  next
    case False
    with idle show ?thesis by (intro sent) (simp_all add: xim_commit_def)
  qed
qed

interpretation xim: text_adapter xim_waiting "xim_commit encode" xim_cancel "xim_callback encode"
  for encode :: "bytes \<Rightarrow> bytes option"
proof
  fix token x k and s :: xim
  let ?s1 = "s\<lparr>xi_pending := Some (token, k), xi_fragments := text_fragments x\<rparr>"
  obtain c t where ct: "send_fragment encode token ?s1 = (c, t)" by (cases "send_fragment encode token ?s1")
  have p: "xi_pending t = (if c = None then Some (token, k) else None)"
    using send_fragment_pending(1) [of encode token ?s1] ct by simp
  show "fst (xim_commit encode token x k s) = Deferred \<Longrightarrow>
      xim_waiting s = None \<and> xim_waiting (snd (xim_commit encode token x k s)) = Some k"
    by (cases rule: xim_commit_cases [where encode = encode and token = token and x = x and k = k and s = s])
      (use ct p in \<open>auto simp: xim_waiting_def split: option.splits\<close>)
  show "fst (xim_commit encode token x k s) = Completed err \<Longrightarrow>
      xim_waiting (snd (xim_commit encode token x k s)) = xim_waiting s" for err
    by (cases rule: xim_commit_cases [where encode = encode and token = token and x = x and k = k and s = s])
      (use ct p in \<open>auto simp: xim_waiting_def split: option.splits\<close>)
  show "fst (xim_commit encode token x k s) = Raised \<Longrightarrow>
      xim_waiting (xim_cancel token (snd (xim_commit encode token x k s))) = xim_waiting s \<or>
      xim_waiting (xim_cancel token (snd (xim_commit encode token x k s))) = None"
    by (cases rule: xim_commit_cases [where encode = encode and token = token and x = x and k = k and s = s])
      (use ct p in \<open>auto simp: xim_waiting_def xim_cancel_def split: option.splits\<close>)
  show "xim_waiting (xim_cancel token s) = xim_waiting s \<or> xim_waiting (xim_cancel token s) = None"
    by (simp add: xim_cancel_def xim_waiting_def split: option.split)
next
  fix ev s k err
  show "fst (xim_callback encode ev s) = Some (k, err) \<Longrightarrow>
      xim_waiting s = Some k \<and> xim_waiting (snd (xim_callback encode ev s)) = None"
    using send_fragment_pending [of encode _ s]
    by (cases ev)
      (fastforce simp: xim_callback_def xim_waiting_def fail_pending_def drop_focus_def Let_def
        split: option.splits if_splits)+
  show "fst (xim_callback encode ev s) = None \<Longrightarrow>
      xim_waiting (snd (xim_callback encode ev s)) = xim_waiting s \<or>
      xim_waiting (snd (xim_callback encode ev s)) = None"
    using send_fragment_pending(1) [of encode _ s]
    by (cases ev)
      (auto simp: xim_callback_def xim_waiting_def fail_pending_def drop_focus_def Let_def
        split: option.splits if_splits)
qed

subsection \<open>Invariant\<close>

text \<open>
  Only a context of a UTF-8 client is ever focused; a waiting delivery's context was not cancelled;
  fragments are left only while a delivery waits, and each of them fits a consumer's buffer.
\<close>

definition xim_inv :: "xim \<Rightarrow> bool" where
  "xim_inv s \<longleftrightarrow>
     (\<forall>c. xi_focused s = Some c \<longrightarrow> c \<in> xi_supported s) \<and>
     (\<forall>p. xi_pending s = Some p \<longrightarrow> fst p \<notin> xi_cancelled s) \<and>
     (xi_pending s = None \<longrightarrow> xi_fragments s = []) \<and>
     (\<forall>f \<in> set (xi_fragments s). f \<noteq> [] \<and> utf8_size f \<le> fragment_limit)"

lemma text_fragments_bounds: "f \<in> set (text_fragments x) \<Longrightarrow> f \<noteq> [] \<and> utf8_size f \<le> fragment_limit"
  using fragments_loop_bounds [of "[]" 0 f x] by (simp add: text_fragments_def)

lemma xim_inv_new [inv_intros]: "xim_inv new_xim"
  by (simp add: xim_inv_def new_xim_def)

lemma xim_inv_send:
  assumes "xim_inv s"
  shows "xim_inv (snd (send_fragment encode token s))"
  using assms by (auto simp: xim_inv_def send_fragment_def Let_def split: list.split option.split)

lemma xim_inv_commit [inv_intros]:
  assumes "xim_inv s" "text_fragments x \<noteq> []"
  shows "xim_inv (snd (xim_commit encode token x k s))"
proof (cases rule: xim_commit_cases [where encode = encode and token = token and x = x and k = k and s = s])
  case sent
  let ?s1 = "s\<lparr>xi_pending := Some (token, k), xi_fragments := text_fragments x\<rparr>"
  have "xim_inv ?s1" using assms(1) sent text_fragments_bounds by (simp add: xim_inv_def)
  with sent(5) xim_inv_send [of ?s1 encode token] show ?thesis by (auto split: prod.splits option.splits)
qed (use assms in simp_all)

lemma xim_inv_cancel [inv_intros]: "xim_inv s \<Longrightarrow> xim_inv (xim_cancel token s)"
  by (auto simp: xim_inv_def xim_cancel_def split: option.split)

lemma xim_inv_callback [inv_intros]:
  assumes "xim_inv s"
  shows "xim_inv (snd (xim_callback encode ev s))"
proof (cases ev)
  case (Sync_reply ic)
  with assms xim_inv_send [OF assms, of encode ic] show ?thesis
    by (auto simp: xim_callback_def xim_inv_def split: option.split)
next
  case (Destroyed ic)
  with assms show ?thesis
    by (auto simp: xim_callback_def drop_focus_def fail_pending_def xim_inv_def Let_def split: option.split)
qed (use assms in \<open>auto simp: xim_callback_def drop_focus_def fail_pending_def xim_inv_def split: option.split\<close>)

subsection \<open>Delivery\<close>





text \<open>Text bytes only ever go to the focused, supported context of the waiting delivery.\<close>

lemma xim_callback_out:
  assumes "xim_inv s" "Commit_string c b \<in> set (xi_out (snd (xim_callback encode ev s)))"
  shows "Commit_string c b \<in> set (xi_out s) \<or>
    (ev = Sync_reply c \<and> xi_focused s = Some c \<and> c \<in> xi_supported s \<and> c \<notin> xi_cancelled s)"
  using assms
  by (cases ev)
    (auto simp: xim_callback_def send_fragment_def drop_focus_def fail_pending_def xim_inv_def Let_def
      split: option.splits list.splits if_splits)

lemma xim_callback_confirms:
  "fst (xim_callback encode ev s) = Some (k, None) \<Longrightarrow>
     xi_fragments s = [] \<and> (\<exists>c. ev = Sync_reply c \<and> xi_pending s = Some (c, k) \<and> xi_focused s = Some c)"
  by (cases ev)
    (auto simp: xim_callback_def send_fragment_def fail_pending_def drop_focus_def Let_def
      split: option.splits list.splits if_splits)


subsection \<open>Properties\<close>

text \<open>The fragments of a text, put together, are the text; none is empty, each is at most 256 bytes of
  UTF-8 so it fits a consumer's fixed buffer, and each is as long as it can be: it and the next
  character would not fit.\<close>
theorem text_fragments_spec:
  "concat (text_fragments x) = x \<and>
   (\<forall>f \<in> set (text_fragments x). f \<noteq> [] \<and> utf8_size f \<le> 256) \<and>
   (\<forall>xs y c z zs. text_fragments x = xs @ y # (c # z) # zs \<longrightarrow> 256 < utf8_size y + utf8_width c)"
  using fragments_loop_concat [of x "[]" 0] text_fragments_bounds [of _ x]
    fragments_loop_greedy [of "[]" 0 x]
  by (auto simp: text_fragments_def fragment_limit_def)

lemma text_fragments_spec_witness: "concat (text_fragments [104, 105]) = [104, 105]"
  using text_fragments_spec by blast



text \<open>The X adapter calls each completion callback at most once, whatever commits, cancellations,
  library callbacks and hang-ups happen, in any order.\<close>
theorem xim_completes_once:
  assumes "distinct (concat (map op_tickets ops))"
  shows "distinct (map fst (fst (adapter_run (xim_commit encode) xim_cancel (xim_callback encode) ops new_xim)))"
  using assms by (rule xim.run_at_most_once) (simp add: xim_waiting_def new_xim_def)

lemma xim_completes_once_witness:
  "distinct (map fst (fst (adapter_run (xim_commit Some) xim_cancel (xim_callback Some)
     [Commit 9 [104] 0, Message Hangup] new_xim)))"
  by (rule xim_completes_once) simp

text \<open>The bounded walk decides ancestry: it answers yes exactly when the window is reached within 63
  parents of the child, through windows that exist and are above the root's reserved numbers; a
  cyclic or vanished hierarchy is a refusal, not a hang.\<close>
theorem descendant_iff_ancestor:
  "descendant parent child window \<longleftrightarrow> (\<exists>n < 64. ancestor parent n child = Some window)"
  by (simp add: descendant_def descendant_walk_iff)

end
