(* ===== verification/Input_Dispatch.thy ===== *)
theory Input_Dispatch
  imports Input_Context Input_Xim
begin

section \<open>The Xpra admission adapter (input\_dispatch.py)\<close>

text \<open>
  \<open>InputDispatch\<close> composes the scheduler with the two text adapters and admits the packets of the
  attached viewers. The server it reads (Xpra) and the X display are the record \<open>world\<close>: what their
  calls answer now, and what they were asked to do (\<open>w_results\<close>, \<open>w_cleared\<close>, \<open>w_closed\<close>). A
  native handler is a function on the world together with the protocols whose cleanup it triggers.
  A protocol is named by a number, a native window object by another.
\<close>

record source =
  so_version :: int
  so_uuid :: "string option"
  so_visible :: "nat \<Rightarrow> bool"

record world =
  w_source :: "nat \<rightharpoonup> source"
  w_closed :: "nat \<Rightarrow> bool"
  w_driver :: "string option"
  w_readonly :: bool
  w_windows :: "int \<rightharpoonup> nat"
  w_xid :: "nat \<Rightarrow> nat"
  w_pid :: "nat \<Rightarrow> int"
  w_clock :: int
  w_parent :: "nat \<Rightarrow> nat option"
  w_focus :: "nat option"
  w_keymap :: "nat list option"
  w_flushed :: bool
  w_top :: "nat \<Rightarrow> nat"
  w_queued :: "xim_event list"
  w_cleared :: nat
  w_results :: "(nat \<times> int \<times> code option) list"

text \<open>\<open>connections\<close> holds \<open>{'sequence': 0, 'failed': False}\<close> for a protocol not seen before.\<close>

record connection =
  cn_sequence :: int
  cn_failed :: bool

record input_env =
  ie_world :: world
  ie_connections :: "nat \<rightharpoonup> connection"
  ie_contexts :: contexts
  ie_xim :: xim

datatype text_adapter_name = Toolkit_contexts | Xim_contexts

datatype text_token = Toolkit_token context_token | Xim_token nat

datatype input_operation =
    Native "world \<Rightarrow> world \<times> nat list"
  | Confirmed int int pystr "nat option"

type_synonym dispatch_order =
  "(nat, input_operation, text_adapter_name, text_token, input_env) order"

type_synonym dispatch_drainer = "dispatch_order \<Rightarrow> dispatch_order"

subsection \<open>The connections and the adapters\<close>

definition conn_state :: "nat \<Rightarrow> input_env \<Rightarrow> connection" where
  "conn_state protocol e =
     (case ie_connections e protocol of None \<Rightarrow> \<lparr>cn_sequence = 0, cn_failed = False\<rparr> | Some x \<Rightarrow> x)"

definition set_conn :: "nat \<Rightarrow> (connection \<Rightarrow> connection) \<Rightarrow> input_env \<Rightarrow> input_env" where
  "set_conn protocol f e =
     e\<lparr>ie_connections := (ie_connections e)(protocol \<mapsto> f (conn_state protocol e))\<rparr>"

definition disp_available :: "nat \<Rightarrow> input_env \<Rightarrow> bool" where
  "disp_available protocol e \<longleftrightarrow>
     w_source (ie_world e) protocol \<noteq> None \<and> \<not> w_closed (ie_world e) protocol \<and>
     \<not> cn_failed (conn_state protocol e)"

text \<open>\<open>pending[2].cancel(pending[3])\<close>\<close>

definition disp_cancel :: "text_adapter_name \<Rightarrow> text_token \<Rightarrow> input_env \<Rightarrow> input_env" where
  "disp_cancel adapter token e =
     (case (adapter, token) of
        (Toolkit_contexts, Toolkit_token t) \<Rightarrow> e\<lparr>ie_contexts := cx_cancel t (ie_contexts e)\<rparr>
      | (Xim_contexts, Xim_token t) \<Rightarrow> e\<lparr>ie_xim := xim_cancel t (ie_xim e)\<rparr>
      | _ \<Rightarrow> e)"

text \<open>
  \<open>adapter.commit\<close>. \<open>Contexts\<close> was given \<open>xim.marker\<close>, which it calls exactly when it goes on to
  keep the operation or to report the marker's failure.
\<close>

definition disp_marker :: "world \<Rightarrow> int \<Rightarrow> int \<Rightarrow> xim \<Rightarrow> bool \<times> xim" where
  "disp_marker w sequence xid x =
     xim_marker (w_keymap w) (w_parent w) (w_focus w) (w_flushed w) sequence (nat xid) x"

definition disp_commit ::
  "(bytes \<Rightarrow> bytes option) \<Rightarrow> text_adapter_name \<Rightarrow> text_token \<Rightarrow> pystr \<Rightarrow> nat \<Rightarrow> input_env \<Rightarrow>
     commit_outcome \<times> input_env" where
  "disp_commit encode adapter token x k e =
     (case (adapter, token) of
        (Toolkit_contexts, Toolkit_token t) \<Rightarrow>
          (let w = ie_world e;
               (r, cx) = cx_commit (w_clock w) (\<lambda>q xid. fst (disp_marker w q xid (ie_xim e))) t x k (ie_contexts e);
               e1 = e\<lparr>ie_contexts := cx\<rparr>
           in (r, if r = Deferred \<or> r = Completed (Some INPUT_MARKER_UNAVAILABLE)
                  then e1\<lparr>ie_xim := snd (disp_marker w (cx_sequence cx) (fst (snd t)) (ie_xim e))\<rparr>
                  else e1))
      | (Xim_contexts, Xim_token t) \<Rightarrow>
          (let (r, xi) = xim_commit encode t x k (ie_xim e) in (r, e\<lparr>ie_xim := xi\<rparr>))
      | _ \<Rightarrow> (Raised, e))"

subsection \<open>Rejection and results\<close>

definition send_result :: "nat \<Rightarrow> int \<Rightarrow> code option \<Rightarrow> input_env \<Rightarrow> input_env" where
  "send_result protocol sequence err e =
     e\<lparr>ie_world := (ie_world e)\<lparr>w_results := w_results (ie_world e) @ [(protocol, sequence, err)]\<rparr>\<rparr>"

definition clear_keys :: "nat \<Rightarrow> input_env \<Rightarrow> input_env" where
  "clear_keys protocol e =
     (let w = ie_world e in
      case (w_source w protocol, w_driver w) of
        (Some src, Some driver) \<Rightarrow>
          if so_uuid src = Some driver then e\<lparr>ie_world := w\<lparr>w_cleared := w_cleared w + 1\<rparr>\<rparr> else e
      | _ \<Rightarrow> e)"

definition disp_invalidate :: "dispatch_drainer \<Rightarrow> nat \<Rightarrow> dispatch_drainer" where
  "disp_invalidate dr protocol s = snd (invalidate disp_cancel dr protocol s)"

definition disp_reject :: "dispatch_drainer \<Rightarrow> nat \<Rightarrow> int \<Rightarrow> code \<Rightarrow> dispatch_drainer" where
  "disp_reject dr protocol sequence err s =
     (let present = w_source (ie_world (oenv s)) protocol \<noteq> None;
          e1 = clear_keys protocol (set_conn protocol (cn_failed_update (\<lambda>_. True)) (oenv s));
          s1 = disp_invalidate dr protocol (s\<lparr>oenv := e1\<rparr>)
      in if present \<and> \<not> w_closed (ie_world (oenv s1)) protocol
         then s1\<lparr>oenv := send_result protocol sequence (Some err) (oenv s1)\<rparr>
         else s1)"

definition disp_result :: "dispatch_drainer \<Rightarrow> nat \<Rightarrow> int \<Rightarrow> code option \<Rightarrow> dispatch_drainer" where
  "disp_result dr protocol sequence err s =
     (case err of
        Some e \<Rightarrow> disp_reject dr protocol sequence e s
      | None \<Rightarrow> s\<lparr>oenv := send_result protocol sequence None (oenv s)\<rparr>)"

definition close_protocol :: "nat \<Rightarrow> input_env \<Rightarrow> input_env" where
  "close_protocol protocol e =
     e\<lparr>ie_world := (ie_world e)\<lparr>w_closed := (w_closed (ie_world e))(protocol := True)\<rparr>\<rparr>"

definition disp_overflow :: "dispatch_drainer \<Rightarrow> nat \<Rightarrow> dispatch_drainer" where
  "disp_overflow dr protocol s = s\<lparr>oenv := close_protocol protocol (oenv s)\<rparr>"

subsection \<open>Admission\<close>

text \<open>The protocols a handler cleans up reach \<open>cleanup_protocol\<close>, which invalidates them.\<close>

definition disp_native :: "dispatch_drainer \<Rightarrow> (world \<Rightarrow> world \<times> nat list) \<Rightarrow> dispatch_drainer" where
  "disp_native dr handler s =
     (let (w, gone) = handler (ie_world (oenv s))
      in fold (disp_invalidate dr) gone (s\<lparr>oenv := (oenv s)\<lparr>ie_world := w\<rparr>\<rparr>))"

definition target_ok :: "world \<Rightarrow> nat \<Rightarrow> int \<Rightarrow> nat option \<Rightarrow> bool" where
  "target_ok w protocol wid original \<longleftrightarrow>
     \<not> w_readonly w \<and> w_windows w wid \<noteq> None \<and> w_windows w wid = original \<and>
     (case w_source w protocol of
        None \<Rightarrow> False
      | Some src \<Rightarrow> so_visible src (the original) \<and>
          (case w_driver w of None \<Rightarrow> True | Some driver \<Rightarrow> so_uuid src = Some driver))"

text \<open>
  The token and its adapter: the registered toolkit context of the window's process, or the focused
  X input context. Completions that the library reports while XIM reads its queue belong to no
  outstanding delivery here, so the scheduler's closures ignore them (\<open>completed_stale\<close>).
\<close>

definition select_context ::
  "(bytes \<Rightarrow> bytes option) \<Rightarrow> nat \<Rightarrow> input_env \<Rightarrow> (text_adapter_name \<times> text_token) option \<times> input_env" where
  "select_context encode window e =
     (let w = ie_world e; xid = w_xid w window in
      case cx_context_for (int xid) (w_pid w window) (ie_contexts e) of
        Some t \<Rightarrow> (Some (Toolkit_contexts, Toolkit_token t), e)
      | None \<Rightarrow>
          (case xim_context_for encode (w_parent w) (w_top w) (w_queued w) xid (ie_xim e) of
             (found, _, xi) \<Rightarrow>
               (map_option (\<lambda>t. (Xim_contexts, Xim_token t)) found,
                e\<lparr>ie_xim := xi, ie_world := w\<lparr>w_queued := []\<rparr>\<rparr>)))"

definition disp_admit ::
  "(bytes \<Rightarrow> bytes option) \<Rightarrow> dispatch_drainer \<Rightarrow> nat \<Rightarrow> input_operation \<Rightarrow> dispatch_order \<Rightarrow>
     (int \<times> text_adapter_name \<times> text_token \<times> pystr) option \<times> dispatch_order" where
  "disp_admit encode dr protocol operation s =
     (case operation of
        Native handler \<Rightarrow> (None, disp_native dr handler s)
      | Confirmed sequence wid x original \<Rightarrow>
          if sequence \<le> cn_sequence (conn_state protocol (oenv s))
          then (None, disp_reject dr protocol sequence INPUT_SEQUENCE_INVALID s)
          else
            let s1 = s\<lparr>oenv := set_conn protocol (cn_sequence_update (\<lambda>_. sequence)) (oenv s)\<rparr>;
                w = ie_world (oenv s1)
            in if \<not> target_ok w protocol wid original
               then (None, disp_reject dr protocol sequence INPUT_TARGET_UNAVAILABLE s1)
               else if \<not> focused_within (w_parent w) (w_focus w) (w_xid w (the original))
               then (None, disp_reject dr protocol sequence INPUT_CONTEXT_UNAVAILABLE s1)
               else
                 (case select_context encode (the original) (oenv s1) of
                    (None, e) \<Rightarrow> (None, disp_reject dr protocol sequence INPUT_CONTEXT_UNAVAILABLE (s1\<lparr>oenv := e\<rparr>))
                  | (Some (adapter, token), e) \<Rightarrow> (Some (sequence, adapter, token, x), s1\<lparr>oenv := e\<rparr>)))"

text \<open>The scheduler's client.\<close>

definition dispatch_client ::
  "(bytes \<Rightarrow> bytes option) \<Rightarrow> (nat, input_operation, text_adapter_name, text_token, input_env) client" where
  "dispatch_client encode =
     \<lparr>c_available = disp_available, c_admit = disp_admit encode, c_result = disp_result,
      c_overflow = disp_overflow, c_commit = disp_commit encode, c_cancel = disp_cancel\<rparr>"

lemma dispatch_client_sel [simp]:
  "c_available (dispatch_client encode) = disp_available"
  "c_admit (dispatch_client encode) = disp_admit encode"
  "c_result (dispatch_client encode) = disp_result"
  "c_overflow (dispatch_client encode) = disp_overflow"
  "c_commit (dispatch_client encode) = disp_commit encode"
  "c_cancel (dispatch_client encode) = disp_cancel"
  by (simp_all add: dispatch_client_def)

abbreviation disp_drain :: "(bytes \<Rightarrow> bytes option) \<Rightarrow> dispatch_drainer" where
  "disp_drain encode \<equiv> drain (dispatch_client encode)"

subsection \<open>Packets\<close>

text \<open>
  \<open>enqueue\<close> of a text packet \<open>['floe-input', sequence, wid, text]\<close> (no handler), and of a native
  one. The window object is retained when the packet arrives.
\<close>

fun text_fields :: "pyval list \<Rightarrow> (int \<times> int \<times> pystr) option" where
  "text_fields [_, PInt sequence, PInt wid, PStr x] =
     (if 1 \<le> sequence \<and> sequence \<le> 9007199254740991 then Some (sequence, wid, x) else None)"
| "text_fields _ = None"

definition disp_enqueue_text ::
  "(bytes \<Rightarrow> bytes option) \<Rightarrow> nat \<Rightarrow> pyval list \<Rightarrow> dispatch_drainer" where
  "disp_enqueue_text encode protocol packet s =
     (if oclosed s \<or> \<not> disp_available protocol (oenv s) then s
      else if map_option so_version (w_source (ie_world (oenv s)) protocol) \<noteq> Some 1
      then disp_reject (disp_drain encode) protocol 0 INPUT_VERSION_UNSUPPORTED s
      else
        (case text_fields packet of
           None \<Rightarrow>
             (let s1 = disp_invalidate (disp_drain encode) protocol s
              in s1\<lparr>oenv := close_protocol protocol (oenv s1)\<rparr>)
         | Some (sequence, wid, x) \<Rightarrow>
             if \<not> valid_text (PStr x)
             then disp_reject (disp_drain encode) protocol sequence INPUT_TEXT_INVALID s
             else enqueue (dispatch_client encode) (disp_drain encode) protocol
                    (Confirmed sequence wid x (w_windows (ie_world (oenv s)) wid)) s))"

definition disp_enqueue_native ::
  "(bytes \<Rightarrow> bytes option) \<Rightarrow> nat \<Rightarrow> (world \<Rightarrow> world \<times> nat list) \<Rightarrow> dispatch_drainer" where
  "disp_enqueue_native encode protocol handler s =
     (if oclosed s \<or> \<not> disp_available protocol (oenv s) then s
      else if map_option so_version (w_source (ie_world (oenv s)) protocol) \<noteq> Some 1
      then disp_reject (disp_drain encode) protocol 0 INPUT_VERSION_UNSUPPORTED s
      else enqueue (dispatch_client encode) (disp_drain encode) protocol (Native handler) s)"

text \<open>Messages of the private bus and of the X input method, and the scheduler's close.\<close>

definition complete_with ::
  "(bytes \<Rightarrow> bytes option) \<Rightarrow> (nat \<times> code option) option \<Rightarrow> dispatch_drainer" where
  "complete_with encode r s =
     (case r of None \<Rightarrow> s | Some (k, err) \<Rightarrow> completed (dispatch_client encode) (disp_drain encode) k err s)"

definition disp_bus_event :: "(bytes \<Rightarrow> bytes option) \<Rightarrow> bus_event \<Rightarrow> dispatch_drainer" where
  "disp_bus_event encode ev s =
     (let (r, cx) = cx_event ev (ie_contexts (oenv s))
      in complete_with encode r (s\<lparr>oenv := (oenv s)\<lparr>ie_contexts := cx\<rparr>\<rparr>))"

definition disp_xim_event :: "(bytes \<Rightarrow> bytes option) \<Rightarrow> xim_event \<Rightarrow> dispatch_drainer" where
  "disp_xim_event encode ev s =
     (let (r, xi) = xim_callback encode ev (ie_xim (oenv s))
      in complete_with encode r (s\<lparr>oenv := (oenv s)\<lparr>ie_xim := xi\<rparr>\<rparr>))"

definition disp_close :: "(bytes \<Rightarrow> bytes option) \<Rightarrow> dispatch_drainer" where
  "disp_close encode s =
     (let s1 = close_order (dispatch_client encode) s;
          e = oenv s1
      in s1\<lparr>oenv := e\<lparr>ie_contexts := cx_close (ie_contexts e),
                      ie_xim := snd (xim_callback encode Stop (ie_xim e))\<rparr>\<rparr>)"


subsection \<open>The dispatcher is a client of the scheduler\<close>

text \<open>A connection's sequence never falls and its failure is never taken back.\<close>

definition conn_le :: "input_env \<Rightarrow> input_env \<Rightarrow> bool" where
  "conn_le e f \<longleftrightarrow>
     (\<forall>p. cn_sequence (conn_state p e) \<le> cn_sequence (conn_state p f) \<and>
          (cn_failed (conn_state p e) \<longrightarrow> cn_failed (conn_state p f)))"

lemma conn_le_refl [simp]: "conn_le e e"
  by (simp add: conn_le_def)

lemma conn_le_trans: "conn_le e f \<Longrightarrow> conn_le f g \<Longrightarrow> conn_le e g"
  by (meson conn_le_def order_trans)

lemma conn_le_eq: "ie_connections f = ie_connections e \<Longrightarrow> conn_le e f"
  by (simp add: conn_le_def conn_state_def)

lemma conn_state_set [simp]:
  "conn_state q (set_conn p f e) = (if q = p then f (conn_state p e) else conn_state q e)"
  by (simp add: conn_state_def set_conn_def)

lemma conn_le_failed [simp]: "conn_le e (set_conn p (cn_failed_update (\<lambda>_. True)) e)"
  by (simp add: conn_le_def)

lemma conn_le_sequence: "cn_sequence (conn_state p e) \<le> q \<Longrightarrow> conn_le e (set_conn p (cn_sequence_update (\<lambda>_. q)) e)"
  by (simp add: conn_le_def)

lemma conn_unchanged [simp]:
  "ie_connections (disp_cancel a t e) = ie_connections e"
  "ie_connections (snd (disp_commit encode a t x k e)) = ie_connections e"
  "ie_connections (send_result p q err e) = ie_connections e"
  "ie_connections (clear_keys p e) = ie_connections e"
  "ie_connections (close_protocol p e) = ie_connections e"
  "ie_connections (snd (select_context encode w e)) = ie_connections e"
  by (simp_all add: disp_cancel_def disp_commit_def send_result_def clear_keys_def close_protocol_def
      select_context_def Let_def split: prod.split text_adapter_name.split text_token.split option.split)

lemma kept_by_disp_invalidate:
  "kept_by conn_le dr I \<Longrightarrow> I s \<Longrightarrow> I (disp_invalidate dr p s)"
  unfolding disp_invalidate_def by (rule kept_by_invalidate [where le = conn_le]) (simp_all add: conn_le_eq)

lemma kept_by_fold:
  "kept_by conn_le dr I \<Longrightarrow> I s \<Longrightarrow> I (fold (disp_invalidate dr) ps s)"
  by (induction ps arbitrary: s) (simp_all add: kept_by_disp_invalidate)

lemma kept_by_disp_reject:
  assumes K: "kept_by conn_le dr I" and "I s"
  shows "I (disp_reject dr p q err s)"
proof -
  let ?e1 = "clear_keys p (set_conn p (cn_failed_update (\<lambda>_. True)) (oenv s))"
  let ?s1 = "disp_invalidate dr p (s\<lparr>oenv := ?e1\<rparr>)"
  have "conn_le (oenv s) ?e1"
    by (rule conn_le_trans [OF conn_le_failed [of _ p]]) (simp add: conn_le_eq)
  with assms have "I (s\<lparr>oenv := ?e1\<rparr>)" by (rule kept_by_env)
  with K have s1: "I ?s1" by (rule kept_by_disp_invalidate)
  have "I (?s1\<lparr>oenv := send_result p q (Some err) (oenv ?s1)\<rparr>)"
    using K s1 by (rule kept_by_env) (simp add: conn_le_eq)
  with s1 show ?thesis by (simp add: disp_reject_def Let_def)
qed

lemma kept_by_disp_native:
  assumes K: "kept_by conn_le dr I" and "I s"
  shows "I (disp_native dr handler s)"
proof -
  obtain w gone where h: "handler (ie_world (oenv s)) = (w, gone)" by (cases "handler (ie_world (oenv s))")
  have "I (s\<lparr>oenv := (oenv s)\<lparr>ie_world := w\<rparr>\<rparr>)"
    using assms by (rule kept_by_env) (simp add: conn_le_eq)
  with K h show ?thesis by (simp add: disp_native_def kept_by_fold)
qed

lemma kept_by_disp_admit:
  assumes K: "kept_by conn_le dr I" and s: "I s"
  shows "I (snd (disp_admit encode dr p operation s))"
proof (cases operation)
  case (Native handler)
  with kept_by_disp_native [OF assms] show ?thesis by (simp add: disp_admit_def)
next
  case (Confirmed q wid x original)
  let ?s1 = "s\<lparr>oenv := set_conn p (cn_sequence_update (\<lambda>_. q)) (oenv s)\<rparr>"
  note reject = kept_by_disp_reject [OF K]
  show ?thesis
  proof (cases "q \<le> cn_sequence (conn_state p (oenv s))")
    case True
    with Confirmed reject [OF s] show ?thesis by (simp add: disp_admit_def)
  next
    case False
    then have s1: "I ?s1" by (intro kept_by_env [OF assms] conn_le_sequence) simp
    obtain r e where sel: "select_context encode (the original) (oenv ?s1) = (r, e)"
      by (cases "select_context encode (the original) (oenv ?s1)")
    have "conn_le (oenv ?s1) e"
      by (rule conn_le_eq) (metis conn_unchanged(6) sel snd_conv)
    with K s1 have s2: "I (?s1\<lparr>oenv := e\<rparr>)" by (rule kept_by_env)
    from False Confirmed sel reject [OF s1] reject [OF s2] s2 show ?thesis
      by (simp add: disp_admit_def Let_def split: option.split prod.split)
  qed
qed

lemma kept_by_disp_result:
  assumes K: "kept_by conn_le dr I" and s: "I s"
  shows "I (disp_result dr p q err s)"
proof (cases err)
  case None
  have "I (s\<lparr>oenv := send_result p q None (oenv s)\<rparr>)" using assms by (rule kept_by_env) (simp add: conn_le_eq)
  with None show ?thesis by (simp add: disp_result_def)
next
  case (Some e)
  with kept_by_disp_reject [OF assms] show ?thesis by (simp add: disp_result_def)
qed

interpretation dispatch: ordered_client "dispatch_client encode" conn_le
  for encode :: "bytes \<Rightarrow> bytes option"
proof
  fix dr I s ow q err x
  assume K: "kept_by conn_le dr I" and s: "I (s :: dispatch_order)"
  show "I (snd (c_admit (dispatch_client encode) dr ow x s))" using kept_by_disp_admit [OF K s] by simp
  show "I (c_result (dispatch_client encode) dr ow q err s)" using kept_by_disp_result [OF K s] by simp
  show "I (c_overflow (dispatch_client encode) dr ow s)"
    using kept_by_env [OF K s, of "close_protocol ow (oenv s)"] by (simp add: disp_overflow_def conn_le_eq)
qed (auto simp: conn_le_eq intro: conn_le_trans)

subsection \<open>The dispatcher's own steps\<close>

text \<open>
  Packets of attached viewers, the adapters' messages, the deadline, a disconnected protocol and the
  dispatcher's close, in any order; the server, the display and the clock change in between.
\<close>

inductive disp_step :: "(bytes \<Rightarrow> bytes option) \<Rightarrow> dispatch_order \<Rightarrow> dispatch_order \<Rightarrow> bool"
  for encode where
  disp_text: "disp_step encode s (disp_enqueue_text encode p packet s)"
| disp_handler: "disp_step encode s (disp_enqueue_native encode p handler s)"
| disp_bus: "disp_step encode s (disp_bus_event encode bus s)"
| disp_xim: "disp_step encode s (disp_xim_event encode xev s)"
| disp_deadline: "tk \<in> set (oarmed s) \<Longrightarrow>
    disp_step encode s (expired (dispatch_client encode) (disp_drain encode) tk s)"
| disp_cleanup: "disp_step encode s (disp_invalidate (disp_drain encode) p s)"
| disp_closed: "disp_step encode s (disp_close encode s)"
| disp_world: "disp_step encode s (s\<lparr>oenv := (oenv s)\<lparr>ie_world := w\<rparr>\<rparr>)"

inductive disp_steps :: "(bytes \<Rightarrow> bytes option) \<Rightarrow> dispatch_order \<Rightarrow> dispatch_order \<Rightarrow> bool"
  for encode where
  disp_done: "disp_steps encode s s"
| disp_more: "disp_steps encode s t \<Longrightarrow> disp_step encode t u \<Longrightarrow> disp_steps encode s u"

definition disp_init :: "world \<Rightarrow> dispatch_order" where
  "disp_init w = new_order \<lparr>ie_world = w, ie_connections = Map.empty, ie_contexts = new_contexts, ie_xim = new_xim\<rparr>"

text \<open>Every step keeps what the scheduler's operations keep, ends settled and moves connections up.\<close>

lemma disp_reject_done:
  assumes "dispatch.idle_above encode e o1 A T s"
  shows "dispatch.idle_above encode e o1 A T (disp_reject (disp_drain encode) p q err s) \<and>
    order_settled (disp_reject (disp_drain encode) p q err s)"
proof -
  let ?e1 = "clear_keys p (set_conn p (cn_failed_update (\<lambda>_. True)) (oenv s))"
  have "conn_le (oenv s) ?e1"
    by (rule conn_le_trans [OF conn_le_failed [of _ p]]) (simp add: conn_le_eq)
  with dispatch.kept_by_drain_idle assms have "dispatch.idle_above encode e o1 A T (s\<lparr>oenv := ?e1\<rparr>)"
    by (rule kept_by_env)
  from dispatch.invalidate_done [OF this, of p]
  have "order_settled (disp_invalidate (disp_drain encode) p (s\<lparr>oenv := ?e1\<rparr>))"
    by (simp add: disp_invalidate_def)
  moreover have "dispatch.idle_above encode e o1 A T (disp_reject (disp_drain encode) p q err s)"
    using dispatch.kept_by_drain_idle assms by (rule kept_by_disp_reject)
  ultimately show ?thesis by (simp add: disp_reject_def order_settled_def Let_def)
qed

lemma disp_close_invalid_done:
  assumes "dispatch.idle_above encode e o1 A T s"
  shows "dispatch.idle_above encode e o1 A T (let s1 = disp_invalidate (disp_drain encode) p s
      in s1\<lparr>oenv := close_protocol p (oenv s1)\<rparr>) \<and>
    order_settled (let s1 = disp_invalidate (disp_drain encode) p s
      in s1\<lparr>oenv := close_protocol p (oenv s1)\<rparr>)"
proof -
  let ?s1 = "disp_invalidate (disp_drain encode) p s"
  have s1: "dispatch.idle_above encode e o1 A T ?s1" "order_settled ?s1"
    using dispatch.invalidate_done [OF assms, of p] by (simp_all add: disp_invalidate_def)
  have "dispatch.idle_above encode e o1 A T (?s1\<lparr>oenv := close_protocol p (oenv ?s1)\<rparr>)"
    using dispatch.kept_by_drain_idle s1(1) by (rule kept_by_env) (simp add: conn_le_eq)
  with s1(2) show ?thesis by (simp add: Let_def order_settled_def)
qed

lemma complete_with_done:
  assumes "dispatch.idle_above encode e o1 A T s" "order_settled s"
  shows "dispatch.idle_above encode e o1 A T (complete_with encode r s) \<and> order_settled (complete_with encode r s)"
  using assms dispatch.completed_done [OF assms] by (auto simp: complete_with_def split: option.split)

lemma disp_env_done:
  assumes "dispatch.idle_above encode e o1 A T s" "order_settled s" "ie_connections f = ie_connections (oenv s)"
  shows "dispatch.idle_above encode e o1 A T (s\<lparr>oenv := f\<rparr>) \<and> order_settled (s\<lparr>oenv := f\<rparr>)"
  using kept_by_env [OF dispatch.kept_by_drain_idle assms(1) conn_le_eq [OF assms(3)]] assms(2)
  by (simp add: order_settled_def)

lemma disp_step_done:
  assumes step: "disp_step encode s t" and s: "dispatch.idle_above encode e o1 A T s" "order_settled s"
  shows "dispatch.idle_above encode e o1 A T t \<and> order_settled t"
  using step
proof cases
  case (disp_text p packet)
  with disp_reject_done [OF s(1), of p] disp_close_invalid_done [OF s(1), of p]
    dispatch.enqueue_done [OF s, of p] s
  show ?thesis by (auto simp: disp_enqueue_text_def Let_def split: option.split)
next
  case (disp_handler p handler)
  then show ?thesis
    using disp_reject_done [OF s(1), of p] dispatch.enqueue_done [OF s, of p] s
    by (simp add: disp_enqueue_native_def)
next
  case (disp_bus bus)
  obtain r cx where "cx_event bus (ie_contexts (oenv s)) = (r, cx)" by (cases "cx_event bus (ie_contexts (oenv s))")
  with disp_bus disp_env_done [OF s, of "(oenv s)\<lparr>ie_contexts := cx\<rparr>"] complete_with_done [of encode e o1 A T]
  show ?thesis by (simp add: disp_bus_event_def)
next
  case (disp_xim xev)
  obtain r xi where "xim_callback encode xev (ie_xim (oenv s)) = (r, xi)"
    by (cases "xim_callback encode xev (ie_xim (oenv s))")
  with disp_xim disp_env_done [OF s, of "(oenv s)\<lparr>ie_xim := xi\<rparr>"] complete_with_done [of encode e o1 A T]
  show ?thesis by (simp add: disp_xim_event_def)
next
  case (disp_deadline tk)
  then show ?thesis
    using dispatch.expired_is_completed dispatch.completed_done [OF s] s
    by (simp add: dispatch.idle_above_def order_idle_def)
next
  case (disp_cleanup p)
  then show ?thesis using dispatch.invalidate_done [OF s(1)] by (simp add: disp_invalidate_def)
next
  case disp_closed
  then show ?thesis
    using dispatch.close_done [OF s(1)] disp_env_done [of encode e o1 A T "close_order (dispatch_client encode) s"]
    by (simp add: disp_close_def Let_def)
next
  case (disp_world w)
  then show ?thesis using disp_env_done [OF s] by simp
qed

lemma disp_steps_done:
  "disp_steps encode s t \<Longrightarrow> dispatch.idle_above encode e o1 A T s \<Longrightarrow> order_settled s \<Longrightarrow>
     dispatch.idle_above encode e o1 A T t \<and> order_settled t"
  by (induction rule: disp_steps.induct) (blast dest: disp_step_done)+

lemma disp_init_above:
  "dispatch.idle_above encode (oenv (disp_init w)) o1 [] {} (disp_init w) \<and> order_settled (disp_init w)"
  using order_good_new [of "\<lparr>ie_world = w, ie_connections = Map.empty, ie_contexts = new_contexts, ie_xim = new_xim\<rparr>"]
  by (simp add: dispatch.idle_above_def order_idle_def order_settled_def disp_init_def new_order_def admitted_by_def)

lemma disp_reachable_above:
  assumes "disp_steps encode (disp_init w) s"
  shows "dispatch.idle_above encode (oenv s) o1 (admitted_by o1 s) {tk. retired tk s} s \<and> order_settled s"
  using disp_steps_done [OF assms conjunct1 [OF disp_init_above] conjunct2 [OF disp_init_above], of o1]
  by (simp add: dispatch.idle_above_def)

lemma failed_shut: "cn_failed (conn_state p e) \<Longrightarrow> dispatch.shut encode e p"
  by (auto simp: dispatch.shut_def conn_le_def disp_available_def)


subsection \<open>Properties\<close>


text \<open>C1: Once a viewer's connection has been failed by a rejection, no later packet, adapter message,
  deadline or change of the server makes the dispatcher admit any input of it again, and it stays
  failed.\<close>
theorem dispatch_failed_shut_out:
  assumes "disp_steps encode (disp_init w) s" "cn_failed (conn_state p (oenv s))" "disp_steps encode s t"
  shows "admitted_by p t = admitted_by p s \<and> cn_failed (conn_state p (oenv t))"
proof -
  have "dispatch.idle_above encode (oenv s) p (admitted_by p s) {tk. retired tk s} s" "order_settled s"
    using disp_reachable_above [OF assms(1)] by simp_all
  then have "dispatch.idle_above encode (oenv s) p (admitted_by p s) {tk. retired tk s} t"
    using disp_steps_done [OF assms(3)] by blast
  with failed_shut [OF assms(2)] assms(2) show ?thesis
    by (auto simp: dispatch.idle_above_def conn_le_def)
qed

text \<open>C2: A delivery is completed once: after its completion, whatever happens next, any further call
  of its callback (a late acknowledgement, its deadline, a second report) changes nothing.\<close>
theorem dispatch_completes_once:
  assumes "disp_steps encode (disp_init w) s" "opend s = Some p"
    and "disp_steps encode (completed (dispatch_client encode) (disp_drain encode) (p_ticket p) err s) t"
  shows "completed (dispatch_client encode) (disp_drain encode) (p_ticket p) err2 t = t"
proof -
  let ?u = "completed (dispatch_client encode) (disp_drain encode) (p_ticket p) err s"
  have above: "dispatch.idle_above encode (oenv s) o1 (admitted_by o1 s) {} s" "order_settled s" for o1
    using disp_reachable_above [OF assms(1)] by (auto simp: dispatch.idle_above_def)
  then have "dispatch.idle_above encode (oenv s) (p_owner p) (admitted_by (p_owner p) s) {} ?u" "order_settled ?u"
    using dispatch.completed_done by blast+
  moreover have "retired (p_ticket p) ?u"
    using above(1) assms(2) by (intro dispatch.completed_retires) (simp_all add: dispatch.idle_above_def)
  ultimately have "dispatch.idle_above encode (oenv s) (p_owner p) (admitted_by (p_owner p) s) {p_ticket p} ?u"
    by (simp add: dispatch.idle_above_def)
  from disp_steps_done [OF assms(3) this \<open>order_settled ?u\<close>] have "retired (p_ticket p) t"
    by (simp add: dispatch.idle_above_def)
  then show ?thesis by (intro completed_stale) (auto simp: retired_def)
qed


text \<open>A server with one viewer of an old protocol version, and one with a current viewer.\<close>

definition sample_world :: "int \<Rightarrow> world" where
  "sample_world version =
     \<lparr>w_source = (\<lambda>p. if p = 2 then Some \<lparr>so_version = version, so_uuid = None, so_visible = (\<lambda>_. True)\<rparr> else None),
      w_closed = (\<lambda>_. False), w_driver = None, w_readonly = False,
      w_windows = (\<lambda>wid. if wid = 5 then Some 7 else None), w_xid = (\<lambda>_. 40), w_pid = (\<lambda>_. 900),
      w_clock = 1000, w_parent = (\<lambda>_. None), w_focus = Some 40, w_keymap = Some [0], w_flushed = True,
      w_top = (\<lambda>c. c), w_queued = [], w_cleared = 0, w_results = []\<rparr>"

text \<open>A toolkit context registers, and a confirmed text for its window is admitted.\<close>

definition registered_state :: dispatch_order where
  "registered_state = disp_bus_event (\<lambda>_. None)
     (Call ''client'' (Register 1 (Some Gtk3) 900) (\<lambda>_ _. True) (\<lambda>_. True)) (disp_init (sample_world 1))"

definition delivering_state :: dispatch_order where
  "delivering_state = disp_enqueue_text (\<lambda>_. None) 2 [PNone, PInt 3, PInt 5, PStr [104, 105]] registered_state"

definition registered_env :: input_env where
  "registered_env = \<lparr>ie_world = sample_world 1, ie_connections = Map.empty,
     ie_contexts = new_contexts\<lparr>cx_contexts := [900 \<mapsto> \<lparr>cx_sender = ''client'', cx_toolkit = Gtk3, cx_unsupported = False\<rparr>]\<rparr>,
     ie_xim = new_xim\<rparr>"

lemma registered_state_eq: "registered_state = new_order registered_env"
  by (simp add: registered_state_def registered_env_def disp_bus_event_def cx_event_def cx_call_def
      cx_register_def complete_with_def disp_init_def new_order_def new_contexts_def Let_def)

lemma registered_admits:
  "oenv s = registered_env \<Longrightarrow>
   disp_admit (\<lambda>_. None) dr 2 (Confirmed 3 5 [104, 105] (Some 7)) s =
     (Some (3, Toolkit_contexts, Toolkit_token (900, 40, ''client''), [104, 105]),
      s\<lparr>oenv := set_conn 2 (cn_sequence_update (\<lambda>_. 3)) registered_env\<rparr>)"
  by (simp add: registered_env_def disp_admit_def conn_state_def set_conn_def target_ok_def focused_within_def
      select_context_def cx_context_for_def sample_world_def new_contexts_def Let_def)

lemma registered_enqueues:
  "delivering_state = drain (dispatch_client (\<lambda>_. None))
     ((new_order registered_env)\<lparr>oq := [(2, Confirmed 3 5 [104, 105] (Some 7))],
        oenqueued := [(2, Confirmed 3 5 [104, 105] (Some 7))]\<rparr>)"
  by (simp add: delivering_state_def registered_state_eq disp_enqueue_text_def enqueue_def queue_limit_def
      registered_env_def sample_world_def disp_available_def conn_state_def new_order_def valid_text_def
      utf8_encode_def utf8_char_def scalar_def surrogate_def)

lemma registered_delivers:
  assumes "oenv s = set_conn 2 (cn_sequence_update (\<lambda>_. 3)) registered_env"
  shows "opend (start_delivery (dispatch_client (\<lambda>_. None)) 2 3 Toolkit_contexts
      (Toolkit_token (900, 40, ''client'')) [104, 105] s) =
    Some (Pending (oticket s) 2 3 Toolkit_contexts (Toolkit_token (900, 40, ''client'')))"
  using assms
  by (simp add: start_delivery_def disp_commit_def cx_commit_def disp_marker_def xim_marker_def set_conn_def
      registered_env_def sample_world_def new_contexts_def Let_def)

lemma delivering_pending:
  "opend delivering_state = Some (Pending 0 2 3 Toolkit_contexts (Toolkit_token (900, 40, ''client'')))"
proof -
  have "disp_available 2 registered_env"
    by (simp add: registered_env_def sample_world_def disp_available_def conn_state_def)
  then show ?thesis
    by (simp add: registered_enqueues drain_def new_order_def registered_admits registered_delivers)
qed

lemma delivering_reachable: "disp_steps (\<lambda>_. None) (disp_init (sample_world 1)) delivering_state"
  unfolding delivering_state_def registered_state_def by (rule disp_more [OF disp_more [OF disp_done disp_bus] disp_text])


definition failed_state :: dispatch_order where
  "failed_state = disp_enqueue_native (\<lambda>_. None) 2 (\<lambda>w. (w, [])) (disp_init (sample_world 0))"

lemma failed_state_failed: "cn_failed (conn_state 2 (oenv failed_state))"
  by (simp add: failed_state_def disp_enqueue_native_def disp_init_def new_order_def sample_world_def
      disp_available_def conn_state_def disp_reject_def disp_invalidate_def invalidate_def drain_def
      clear_keys_def set_conn_def send_result_def Let_def)

lemma dispatch_failed_shut_out_witness:
  "admitted_by 2 (disp_enqueue_native (\<lambda>_. None) 2 (\<lambda>w. (w, [])) failed_state) = admitted_by 2 failed_state"
proof -
  have "disp_steps (\<lambda>_. None) (disp_init (sample_world 0)) failed_state"
    unfolding failed_state_def by (rule disp_more [OF disp_done disp_handler])
  from dispatch_failed_shut_out [OF this failed_state_failed disp_more [OF disp_done disp_handler]]
  show ?thesis by blast
qed

lemma dispatch_completes_once_witness:
  "completed (dispatch_client (\<lambda>_. None)) (disp_drain (\<lambda>_. None)) 0 (Some INPUT_DELIVERY_TIMEOUT)
     (completed (dispatch_client (\<lambda>_. None)) (disp_drain (\<lambda>_. None)) 0 None delivering_state) =
   completed (dispatch_client (\<lambda>_. None)) (disp_drain (\<lambda>_. None)) 0 None delivering_state"
  using dispatch_completes_once [OF delivering_reachable delivering_pending disp_done] by simp


end
