(* ===== verification/Json.thy ===== *)
theory Json
  imports Float64
begin

section \<open>JSON as the program reads and writes it\<close>

text \<open>
  Python's \<open>json.loads\<close> with \<open>object_pairs_hook=unique_object\<close> and a \<open>parse_constant\<close> that raises,
  and \<open>json.dumps(..., separators=(',', ':'), allow_nan=False)\<close>. Every failure (\<open>ValueError\<close> and
  its subclasses) is \<open>None\<close>: the callers treat them alike. The interpreter's recursion limit is
  not modelled. A character is its code point.
\<close>

subsection \<open>Strings\<close>

definition hex_value :: "nat \<Rightarrow> nat option" where
  "hex_value c =
     (if 48 \<le> c \<and> c \<le> 57 then Some (c - 48)
      else if 97 \<le> c \<and> c \<le> 102 then Some (c - 87)
      else if 65 \<le> c \<and> c \<le> 70 then Some (c - 55)
      else None)"

definition hex4 :: "nat \<Rightarrow> nat \<Rightarrow> nat \<Rightarrow> nat \<Rightarrow> nat option" where
  "hex4 a b c d =
     (case (hex_value a, hex_value b, hex_value c, hex_value d) of
        (Some w, Some x, Some y, Some z) \<Rightarrow> Some (((w * 16 + x) * 16 + y) * 16 + z)
      | _ \<Rightarrow> None)"

definition escape_value :: "nat \<Rightarrow> nat option" where
  "escape_value c =
     (if c = 34 \<or> c = 92 \<or> c = 47 then Some c
      else if c = 98 then Some 8 else if c = 102 then Some 12 else if c = 110 then Some 10
      else if c = 114 then Some 13 else if c = 116 then Some 9 else None)"

text \<open>A high surrogate escape followed by a low one is one character; otherwise it stands alone.\<close>

definition low_surrogate_escape :: "pystr \<Rightarrow> (nat \<times> pystr) option" where
  "low_surrogate_escape s =
     (case s of
        e # u # a # b # c # d # r \<Rightarrow>
          if e = 92 \<and> u = 117 then
            (case hex4 a b c d of
               None \<Rightarrow> None
             | Some x \<Rightarrow> if 0xDC00 \<le> x \<and> x \<le> 0xDFFF then Some (x, r) else None)
          else None
      | _ \<Rightarrow> None)"

lemma low_surrogate_escape_shorter:
  "low_surrogate_escape s = Some (x, r) \<Longrightarrow> length r < length s"
  by (auto simp: low_surrogate_escape_def split: list.splits option.splits if_splits)

text \<open>What follows the opening quote.\<close>

function string_body :: "pystr \<Rightarrow> (pystr \<times> pystr) option" where
  "string_body [] = None"
| "string_body (c # r) =
     (if c = 34 then Some ([], r)
      else if c < 32 then None
      else if c \<noteq> 92 then map_option (map_prod (Cons c) id) (string_body r)
      else
        (case r of
           [] \<Rightarrow> None
         | e # r1 \<Rightarrow>
             if e \<noteq> 117 then
               (case escape_value e of
                  None \<Rightarrow> None
                | Some x \<Rightarrow> map_option (map_prod (Cons x) id) (string_body r1))
             else
               (case r1 of
                  a # b # c' # d # r2 \<Rightarrow>
                    (case hex4 a b c' d of
                       None \<Rightarrow> None
                     | Some x \<Rightarrow>
                         (case (if 0xD800 \<le> x \<and> x \<le> 0xDBFF then low_surrogate_escape r2 else None) of
                            Some (y, r3) \<Rightarrow>
                              map_option (map_prod (Cons (0x10000 + (x - 0xD800) * 1024 + (y - 0xDC00))) id) (string_body r3)
                          | None \<Rightarrow> map_option (map_prod (Cons x) id) (string_body r2)))
                | _ \<Rightarrow> None)))"
  by pat_completeness auto
termination
  by (relation "measure length") (auto dest: low_surrogate_escape_shorter split: if_splits)

declare string_body.simps(2) [simp del]

definition hex_digit :: "nat \<Rightarrow> nat" where
  "hex_digit n = (if n < 10 then 48 + n else 87 + n)"

definition u_escape :: "nat \<Rightarrow> pystr" where
  "u_escape c = [92, 117, hex_digit (c div 4096), hex_digit (c div 256 mod 16),
     hex_digit (c div 16 mod 16), hex_digit (c mod 16)]"

definition escape_char :: "bool \<Rightarrow> nat \<Rightarrow> pystr" where
  "escape_char ascii c =
     (if c = 34 then [92, 34] else if c = 92 then [92, 92]
      else if c = 8 then [92, 98] else if c = 12 then [92, 102] else if c = 10 then [92, 110]
      else if c = 13 then [92, 114] else if c = 9 then [92, 116]
      else if c < 32 then u_escape c
      else if \<not> ascii \<or> c < 127 then [c]
      else if c < 0x10000 then u_escape c
      else u_escape (0xD800 + (c - 0x10000) div 1024) @ u_escape (0xDC00 + (c - 0x10000) mod 1024))"

definition json_string :: "bool \<Rightarrow> pystr \<Rightarrow> pystr" where
  "json_string ascii s = 34 # concat (map (escape_char ascii) s) @ [34]"

lemma hex_value_digit [simp]: "n < 16 \<Longrightarrow> hex_value (hex_digit n) = Some n"
  by (simp add: hex_value_def hex_digit_def)

lemma hex4_digits:
  assumes "c < 0x10000"
  shows "hex4 (hex_digit (c div 4096)) (hex_digit (c div 256 mod 16)) (hex_digit (c div 16 mod 16))
    (hex_digit (c mod 16)) = Some c"
proof -
  have "c div 4096 < 16" using assms by (simp add: div_less_iff_less_mult)
  moreover have "((c div 4096 * 16 + c div 256 mod 16) * 16 + c div 16 mod 16) * 16 + c mod 16 = c"
  proof -
    define x where "x = c div 16"
    define y where "y = x div 16"
    have "c div 256 = y" unfolding y_def x_def using div_mult2_eq [of c 16 16] by simp
    moreover have "c div 4096 = y div 16" unfolding y_def x_def using div_mult2_eq [of c "16 * 16" 16] div_mult2_eq [of c 16 16] by simp
    moreover have "y div 16 * 16 + y mod 16 = y" "y * 16 + x mod 16 = x" "x * 16 + c mod 16 = c"
      unfolding y_def x_def by (rule div_mult_mod_eq)+
    ultimately show ?thesis by (simp add: x_def)
  qed
  ultimately show ?thesis by (simp add: hex4_def)
qed

lemma string_body_unicode:
  assumes "hex4 a b c' d = Some x"
  shows "string_body (92 # 117 # a # b # c' # d # r) =
    (case (if 0xD800 \<le> x \<and> x \<le> 0xDBFF then low_surrogate_escape r else None) of
       Some (y, r3) \<Rightarrow> map_option (map_prod (Cons (0x10000 + (x - 0xD800) * 1024 + (y - 0xDC00))) id) (string_body r3)
     | None \<Rightarrow> map_option (map_prod (Cons x) id) (string_body r))"
  by (subst string_body.simps(2)) (simp add: assms)

lemma string_body_u:
  assumes "c < 0x10000" "\<not> (0xD800 \<le> c \<and> c \<le> 0xDBFF)"
  shows "string_body (u_escape c @ r) = map_option (map_prod (Cons c) id) (string_body r)"
  using string_body_unicode [OF hex4_digits [OF assms(1)], of r] assms(2) by (simp only: u_escape_def append.simps if_False option.case)

lemma string_body_pair:
  assumes "0x10000 \<le> c" "c < 0x110000"
  shows "string_body (u_escape (0xD800 + (c - 0x10000) div 1024) @ u_escape (0xDC00 + (c - 0x10000) mod 1024) @ r) =
    map_option (map_prod (Cons c) id) (string_body r)"
proof -
  define hi lo where "hi = 0xD800 + (c - 0x10000) div 1024" and "lo = 0xDC00 + (c - 0x10000) mod 1024"
  have "(c - 0x10000) div 1024 < 1024" using assms(2) by (simp add: div_less_iff_less_mult)
  then have hi: "0xD800 \<le> hi" "hi \<le> 0xDBFF" "hi < 0x10000" by (simp_all add: hi_def)
  have "(c - 0x10000) mod 1024 < 1024" by simp
  then have lo: "0xDC00 \<le> lo" "lo \<le> 0xDFFF" "lo < 0x10000" unfolding lo_def by linarith+
  have "0x10000 + (hi - 0xD800) * 1024 + (lo - 0xDC00) = 0x10000 + ((c - 0x10000) div 1024 * 1024 + (c - 0x10000) mod 1024)"
    unfolding hi_def lo_def by simp
  also have "\<dots> = c" unfolding div_mult_mod_eq using assms(1) by simp
  finally have merged: "0x10000 + (hi - 0xD800) * 1024 + (lo - 0xDC00) = c" .
  have "low_surrogate_escape (u_escape lo @ r) = Some (lo, r)"
    using hex4_digits [OF lo(3)] lo(1,2) by (simp add: low_surrogate_escape_def u_escape_def)
  then have "string_body (u_escape hi @ u_escape lo @ r) =
      map_option (map_prod (Cons (0x10000 + (hi - 0xD800) * 1024 + (lo - 0xDC00))) id) (string_body r)"
    using string_body_unicode [OF hex4_digits [OF hi(3)], of "u_escape lo @ r"] hi(1,2)
    by (simp add: u_escape_def)
  then show ?thesis unfolding merged by (simp only: hi_def lo_def)
qed

text \<open>Every character comes back, whatever escape it was written with.\<close>

lemma string_body_plain:
  "32 \<le> c \<Longrightarrow> c \<noteq> 34 \<Longrightarrow> c \<noteq> 92 \<Longrightarrow> string_body (c # r) = map_option (map_prod (Cons c) id) (string_body r)"
  by (subst string_body.simps(2)) simp

lemma string_body_short:
  "e \<noteq> 117 \<Longrightarrow> escape_value e = Some x \<Longrightarrow>
     string_body (92 # e # r) = map_option (map_prod (Cons x) id) (string_body r)"
  by (subst string_body.simps(2)) simp

lemma string_body_escape_char:
  assumes "scalar c"
  shows "string_body (escape_char ascii c @ r) = map_option (map_prod (Cons c) id) (string_body r)"
proof -
  have c: "c < 0x110000" "\<not> (0xD800 \<le> c \<and> c \<le> 0xDBFF)"
    using assms by (auto simp: scalar_def surrogate_def)
  consider (short) "c \<in> {34, 92, 8, 12, 10, 13, 9}"
    | (low) "c < 32" "c \<notin> {34, 92, 8, 12, 10, 13, 9}"
    | (plain) "32 \<le> c" "c \<notin> {34, 92}" "\<not> ascii \<or> c < 127"
    | (bmp) "127 \<le> c" "ascii" "c < 0x10000"
    | (astral) "ascii" "0x10000 \<le> c" by force
  then show ?thesis
  proof cases
    case short
    then show ?thesis by (auto simp: escape_char_def string_body_short escape_value_def)
  next
    case low
    then show ?thesis using string_body_u [OF _ c(2)] by (simp add: escape_char_def)
  next
    case plain
    then show ?thesis by (simp add: escape_char_def string_body_plain)
  next
    case bmp
    then show ?thesis using string_body_u [OF _ c(2)] by (simp add: escape_char_def)
  next
    case astral
    then show ?thesis using string_body_pair [OF astral(2) c(1)] by (simp add: escape_char_def)
  qed
qed

lemma string_body_json:
  "list_all scalar s \<Longrightarrow> string_body (concat (map (escape_char ascii) s) @ 34 # r) = Some (s, r)"
  by (induction s) (simp_all add: string_body_escape_char string_body.simps(2) [of 34])

lemma string_body_shorter: "string_body s = Some (x, r) \<Longrightarrow> length r < length s"
proof (induction "length s" arbitrary: s x r rule: less_induct)
  case less
  show ?case
  proof (cases s)
    case Nil
    with less.prems show ?thesis by simp
  next
    case (Cons c t)
    have IH: "length r < length u" if "length u < length s" "string_body u = Some (y, r)" for u y
      using less.hyps that by blast
    from less.prems show ?thesis
      unfolding Cons
      by (subst (asm) string_body.simps(2))
        (auto split: if_splits list.splits option.splits simp: Cons
          dest!: IH [rotated] low_surrogate_escape_shorter)
  qed
qed


subsection \<open>Numbers\<close>

definition digit :: "nat \<Rightarrow> bool" where
  "digit c \<longleftrightarrow> 48 \<le> c \<and> c \<le> 57"

definition digits_value :: "pystr \<Rightarrow> nat" where
  "digits_value ds = foldl (\<lambda>a c. 10 * a + (c - 48)) 0 ds"

text \<open>The nearest binary64 number, gradual underflow and overflow to infinity included.\<close>

definition to_float :: "rat \<Rightarrow> pyval" where
  "to_float x =
     (let a = \<bar>x\<bar>;
          r = (if a < pow2 (- 1022) then of_int (round_half_even (a * pow2 1074)) * pow2 (- 1074) else fl a)
      in if pow2 1024 \<le> r then PInfinite else PFloat (if x < 0 then - r else r))"

text \<open>The interpreter refuses to convert integers of more than 4300 digits.\<close>

definition int_digits_limit :: nat where "int_digits_limit = 4300"

definition exponent_part :: "pystr \<Rightarrow> (int \<times> pystr) option" where
  "exponent_part s =
     (case s of
        [] \<Rightarrow> None
      | e # r \<Rightarrow>
          if e \<noteq> 101 \<and> e \<noteq> 69 then None
          else
            let (negative, t) = (case r of [] \<Rightarrow> (False, []) | c # r' \<Rightarrow>
                  if c = 45 then (True, r') else if c = 43 then (False, r') else (False, r));
                ds = takeWhile digit t
            in if ds = [] then None
               else Some (if negative then - int (digits_value ds) else int (digits_value ds), dropWhile digit t))"

definition fraction_part :: "pystr \<Rightarrow> (pystr \<times> pystr) option" where
  "fraction_part s =
     (case s of
        [] \<Rightarrow> None
      | c # r \<Rightarrow>
          if c = 46 \<and> takeWhile digit r \<noteq> [] then Some (takeWhile digit r, dropWhile digit r) else None)"

definition scale10 :: "rat \<Rightarrow> int \<Rightarrow> rat" where
  "scale10 x k = (if 0 \<le> k then x * 10 ^ nat k else x / 10 ^ nat (- k))"

definition unsigned_number :: "bool \<Rightarrow> pystr \<Rightarrow> (pyval \<times> pystr) option" where
  "unsigned_number negative s =
     (case s of
        [] \<Rightarrow> None
      | c # r \<Rightarrow>
          if \<not> digit c then None
          else
            let (ip, t) = (if c = 48 then ([48], r) else (takeWhile digit s, dropWhile digit s));
                (fp, u) = (case fraction_part t of None \<Rightarrow> (None, t) | Some (ds, u) \<Rightarrow> (Some ds, u));
                (ep, w) = (case exponent_part u of None \<Rightarrow> (None, u) | Some (k, w) \<Rightarrow> (Some k, w))
            in if fp = None \<and> ep = None then
                 if length ip > int_digits_limit then None
                 else Some (PInt (if negative then - int (digits_value ip) else int (digits_value ip)), w)
               else
                 let ds = ip @ (case fp of None \<Rightarrow> [] | Some f \<Rightarrow> f);
                     k = (case ep of None \<Rightarrow> 0 | Some k \<Rightarrow> k) - int (case fp of None \<Rightarrow> 0 | Some f \<Rightarrow> length f);
                     x = scale10 (of_nat (digits_value ds)) k
                 in Some (to_float (if negative then - x else x), w))"

definition number :: "pystr \<Rightarrow> (pyval \<times> pystr) option" where
  "number s =
     (case s of
        [] \<Rightarrow> None
      | c # r \<Rightarrow> if c = 45 then unsigned_number True r else unsigned_number False s)"

definition digits :: "nat \<Rightarrow> pystr" where
  "digits n = py (dec n)"

definition int_text :: "int \<Rightarrow> pystr" where
  "int_text n = (if n < 0 then 45 # digits (nat (- n)) else digits (nat n))"

lemma digits_rec: "digits n = (if n < 10 then [48 + n] else digits (n div 10) @ [48 + n mod 10])"
  by (cases "n < 10") (simp_all add: digits_def py_def dec.simps [of n] of_char_mod_256)

lemma digit_code: "k < 10 \<Longrightarrow> digit (48 + k)"
  by (simp add: digit_def)

lemma digits_all: "list_all digit (digits n)"
proof (induction n rule: dec.induct)
  case (1 n)
  then show ?case by (subst digits_rec) (simp add: digit_code)
qed

lemma digits_nonempty [simp]: "digits n \<noteq> []"
  by (subst digits_rec) simp

lemma digits_head: "10 \<le> n \<Longrightarrow> hd (digits n) \<noteq> 48"
proof (induction n rule: dec.induct)
  case (1 n)
  show ?case
  proof (cases "n div 10 < 10")
    case True
    with "1.prems" have "digits n = [48 + n div 10, 48 + n mod 10]"
      by (subst digits_rec, subst digits_rec) auto
    moreover have "0 < n div 10" using "1.prems" by (simp add: div_greater_zero_iff)
    ultimately show ?thesis by simp
  next
    case False
    then have "hd (digits (n div 10)) \<noteq> 48" using 1 by simp
    then show ?thesis using "1.prems" by (subst digits_rec) (simp add: hd_append)
  qed
qed

lemma digits_value_digits [simp]: "digits_value (digits n) = n"
proof (induction n rule: dec.induct)
  case (1 n)
  then show ?case by (subst digits_rec) (auto simp: digits_value_def)
qed

text \<open>What may follow a value in compact JSON: a separator, a closing bracket or the end.\<close>

definition stops :: "pystr \<Rightarrow> bool" where
  "stops r \<longleftrightarrow> r = [] \<or> hd r \<in> {44, 93, 125}"

lemma digits_takeWhile:
  assumes "stops r"
  shows "takeWhile digit (digits n @ r) = digits n" "dropWhile digit (digits n @ r) = r"
proof -
  have "\<forall>c \<in> set (digits n). digit c" using digits_all [of n] by (simp add: list_all_iff)
  moreover have "takeWhile digit r = []" "dropWhile digit r = r"
    using assms by (cases r; auto simp: stops_def digit_def)+
  ultimately show "takeWhile digit (digits n @ r) = digits n" "dropWhile digit (digits n @ r) = r"
    by (simp_all add: takeWhile_append2 dropWhile_append2)
qed

lemma unsigned_digits:
  assumes "stops r" "length (digits n) \<le> int_digits_limit"
  shows "unsigned_number negative (digits n @ r) = Some (PInt (if negative then - int n else int n), r)"
proof -
  obtain c t where ct: "digits n = c # t" by (cases "digits n") auto
  have c: "digit c" using digits_all [of n] ct by simp
  have none: "fraction_part r = None" "exponent_part r = None"
    using assms(1) by (auto simp: fraction_part_def exponent_part_def stops_def split: list.split)
  show ?thesis
  proof (cases "c = 48")
    case True
    with digits_head [of n] ct have "n < 10" by fastforce
    then have "digits n = [48 + n]" by (subst digits_rec) simp
    with ct True have "n = 0" "t = []" by simp_all
    with ct True c none assms(2) show ?thesis
      by (simp add: unsigned_number_def digits_value_def int_digits_limit_def)
  next
    case False
    have "takeWhile digit (c # t @ r) = c # t" "dropWhile digit (c # t @ r) = r"
      using digits_takeWhile [OF assms(1), of n] ct by simp_all
    moreover have "digits_value (c # t) = n" using digits_value_digits [of n] ct by simp
    ultimately show ?thesis using False c none assms(2)
      by (simp add: unsigned_number_def ct del: takeWhile.simps dropWhile.simps)
  qed
qed

lemma number_int_text:
  assumes "stops r" "length (digits (nat \<bar>n\<bar>)) \<le> int_digits_limit"
  shows "number (int_text n @ r) = Some (PInt n, r)"
proof (cases "n < 0")
  case True
  with assms show ?thesis by (simp add: number_def int_text_def unsigned_digits)
next
  case False
  obtain c t where ct: "digits (nat n) = c # t" by (cases "digits (nat n)") auto
  have "c \<noteq> 45" using digits_all [of "nat n"] ct by (auto simp: digit_def)
  with False assms unsigned_digits [of r "nat n" False] ct show ?thesis by (simp add: number_def int_text_def)
qed


subsection \<open>Values\<close>

definition space :: "nat \<Rightarrow> bool" where
  "space c \<longleftrightarrow> c = 32 \<or> c = 9 \<or> c = 10 \<or> c = 13"

definition skip_space :: "pystr \<Rightarrow> pystr" where
  "skip_space s = dropWhile space s"

definition literal :: "string \<Rightarrow> pyval \<Rightarrow> pystr \<Rightarrow> (pyval \<times> pystr) option" where
  "literal w v s = (if take (length w) s = py w then Some (v, drop (length w) s) else None)"

text \<open>
  One value, the rest of an array after an element may begin, and the rest of an object after a key
  may begin. Fuel bounds the depth of the calls; twice the length of the text is always enough
  (\<open>parse_fuel\<close>). A repeated key is the \<open>ValueError\<close> of \<open>unique_object\<close>.
\<close>

fun parse_value :: "nat \<Rightarrow> pystr \<Rightarrow> (pyval \<times> pystr) option"
and parse_items :: "nat \<Rightarrow> pystr \<Rightarrow> (pyval list \<times> pystr) option"
and parse_members :: "nat \<Rightarrow> pystr \<Rightarrow> ((pystr \<times> pyval) list \<times> pystr) option" where
  "parse_value 0 s = None"
| "parse_value (Suc n) s =
     (case s of
        [] \<Rightarrow> None
      | c # r \<Rightarrow>
          if c = 34 then map_option (map_prod PStr id) (string_body r)
          else if c = 91 then
            (case skip_space r of
               [] \<Rightarrow> None
             | d # t \<Rightarrow> if d = 93 then Some (PList [], t)
                        else map_option (map_prod PList id) (parse_items n (d # t)))
          else if c = 123 then
            (case skip_space r of
               [] \<Rightarrow> None
             | d # t \<Rightarrow> if d = 125 then Some (PDict [], t)
                        else
                          (case parse_members n (d # t) of
                             None \<Rightarrow> None
                           | Some (ms, t') \<Rightarrow> if distinct (map fst ms) then Some (PDict ms, t') else None))
          else if c = 110 then literal ''null'' PNone s
          else if c = 116 then literal ''true'' (PBool True) s
          else if c = 102 then literal ''false'' (PBool False) s
          else number s)"
| "parse_items 0 s = None"
| "parse_items (Suc n) s =
     (case parse_value n s of
        None \<Rightarrow> None
      | Some (v, r) \<Rightarrow>
          (case skip_space r of
             [] \<Rightarrow> None
           | c # t \<Rightarrow>
               if c = 93 then Some ([v], t)
               else if c = 44 then map_option (map_prod (Cons v) id) (parse_items n (skip_space t))
               else None))"
| "parse_members 0 s = None"
| "parse_members (Suc n) s =
     (case s of
        [] \<Rightarrow> None
      | q # body \<Rightarrow>
          if q \<noteq> 34 then None
          else
            (case string_body body of
               None \<Rightarrow> None
             | Some (k, r) \<Rightarrow>
                 (case skip_space r of
                    [] \<Rightarrow> None
                  | c # t \<Rightarrow>
                      if c \<noteq> 58 then None
                      else
                        (case parse_value n (skip_space t) of
                           None \<Rightarrow> None
                         | Some (v, u) \<Rightarrow>
                             (case skip_space u of
                                [] \<Rightarrow> None
                              | d # w \<Rightarrow>
                                  if d = 125 then Some ([(k, v)], w)
                                  else if d = 44
                                  then map_option (map_prod (Cons (k, v)) id) (parse_members n (skip_space w))
                                  else None)))))"

text \<open>\<open>json.loads\<close> of a text: a byte order mark and anything after the value are refused.\<close>

definition json_loads :: "pystr \<Rightarrow> pyval option" where
  "json_loads s =
     (if take 1 s = [0xFEFF] then None
      else
        (case parse_value (2 * length s + 2) (skip_space s) of
           None \<Rightarrow> None
         | Some (v, r) \<Rightarrow> if skip_space r = [] then Some v else None))"

text \<open>\<open>repr\<close> of a float is the parameter \<open>fr\<close>.\<close>

fun json_value :: "(rat \<Rightarrow> pystr) \<Rightarrow> bool \<Rightarrow> pyval \<Rightarrow> pystr"
and json_items :: "(rat \<Rightarrow> pystr) \<Rightarrow> bool \<Rightarrow> pyval list \<Rightarrow> pystr"
and json_members :: "(rat \<Rightarrow> pystr) \<Rightarrow> bool \<Rightarrow> (pystr \<times> pyval) list \<Rightarrow> pystr" where
  "json_value fr ascii PNone = py ''null''"
| "json_value fr ascii (PBool b) = py (if b then ''true'' else ''false'')"
| "json_value fr ascii (PInt n) = int_text n"
| "json_value fr ascii (PFloat x) = fr x"
| "json_value fr ascii PInfinite = []"
| "json_value fr ascii (PStr s) = json_string ascii s"
| "json_value fr ascii (PList vs) = 91 # json_items fr ascii vs"
| "json_value fr ascii (PDict ms) = 123 # json_members fr ascii ms"
| "json_items fr ascii [] = [93]"
| "json_items fr ascii (v # vs) =
     json_value fr ascii v @ (if vs = [] then [93] else 44 # json_items fr ascii vs)"
| "json_members fr ascii [] = [125]"
| "json_members fr ascii ((k, v) # ms) =
     json_string ascii k @ 58 # json_value fr ascii v @ (if ms = [] then [125] else 44 # json_members fr ascii ms)"

text \<open>What \<open>dumps\<close> accepts: no infinity, no integer too long to print.\<close>

fun dumpable :: "pyval \<Rightarrow> bool" where
  "dumpable (PInt n) = (length (digits (nat \<bar>n\<bar>)) \<le> int_digits_limit)"
| "dumpable PInfinite = False"
| "dumpable (PList vs) = (\<forall>v \<in> set vs. dumpable v)"
| "dumpable (PDict ms) = (\<forall>m \<in> set ms. dumpable (snd m))"
| "dumpable _ = True"

definition json_dumps :: "(rat \<Rightarrow> pystr) \<Rightarrow> bool \<Rightarrow> pyval \<Rightarrow> pystr option" where
  "json_dumps fr ascii v = (if dumpable v then Some (json_value fr ascii v) else None)"

subsection \<open>Round trip\<close>

text \<open>Values without floats, with encodable text and the distinct keys of a dictionary.\<close>

fun plain_value :: "pyval \<Rightarrow> bool" where
  "plain_value (PFloat x) = False"
| "plain_value PInfinite = False"
| "plain_value (PInt n) = (length (digits (nat \<bar>n\<bar>)) \<le> int_digits_limit)"
| "plain_value (PStr s) = list_all scalar s"
| "plain_value (PList vs) = (\<forall>v \<in> set vs. plain_value v)"
| "plain_value (PDict ms) = (distinct (map fst ms) \<and> (\<forall>m \<in> set ms. list_all scalar (fst m) \<and> plain_value (snd m)))"
| "plain_value _ = True"

fun value_size :: "pyval \<Rightarrow> nat" where
  "value_size (PList vs) = Suc (sum_list (map (\<lambda>v. Suc (value_size v)) vs))"
| "value_size (PDict ms) = Suc (sum_list (map (\<lambda>m. Suc (value_size (snd m))) ms))"
| "value_size _ = 1"

lemma plain_dumpable: "plain_value v \<Longrightarrow> dumpable v"
  by (induction v rule: dumpable.induct) auto


lemma skip_space_Cons [simp]: "\<not> space c \<Longrightarrow> skip_space (c # s) = c # s"
  by (simp add: skip_space_def)

lemma int_text_head: "\<exists>c t. int_text n = c # t \<and> (c = 45 \<or> digit c)"
proof (cases "n < 0")
  case False
  obtain c t where "digits (nat n) = c # t" by (cases "digits (nat n)") auto
  with False digits_all [of "nat n"] show ?thesis by (simp add: int_text_def)
qed (simp add: int_text_def)

lemma json_value_head:
  assumes "plain_value v"
  obtains c t where "json_value fr ascii v = c # t" "\<not> space c" "c \<noteq> 93" "c \<noteq> 125"
proof (cases v)
  case (PInt n)
  with int_text_head [of n] that show thesis by (auto simp: digit_def space_def)
next
  case (PBool b)
  with that show thesis by (cases b) (auto simp: py_def space_def)
qed (use assms that in \<open>auto simp: py_def json_string_def space_def split: if_splits\<close>)

lemma literal_py: "literal w v (py w @ r) = Some (v, r)"
  by (simp add: literal_def py_def)

lemma parse_value_string:
  "list_all scalar s \<Longrightarrow> parse_value (Suc n) (json_string ascii s @ r) = Some (PStr s, r)"
  by (simp add: json_string_def string_body_json)

lemma parse_value_int:
  assumes "stops r" "length (digits (nat \<bar>n\<bar>)) \<le> int_digits_limit"
  shows "parse_value (Suc k) (int_text n @ r) = Some (PInt n, r)"
proof -
  obtain c t where c: "int_text n = c # t" "c = 45 \<or> digit c" using int_text_head by blast
  then have "parse_value (Suc k) (int_text n @ r) = number (int_text n @ r)" by (auto simp: digit_def)
  with number_int_text [OF assms] show ?thesis by simp
qed

lemma parse_value_words:
  "parse_value (Suc n) (py ''null'' @ r) = Some (PNone, r)"
  "parse_value (Suc n) (py ''true'' @ r) = Some (PBool True, r)"
  "parse_value (Suc n) (py ''false'' @ r) = Some (PBool False, r)"
  using literal_py [of "''null''" PNone r] literal_py [of "''true''" "PBool True" r]
    literal_py [of "''false''" "PBool False" r]
  by (simp_all add: py_def)

lemma parse_printed:
  "plain_value v \<Longrightarrow> stops r \<Longrightarrow> value_size v \<le> n \<Longrightarrow>
     parse_value n (json_value fr ascii v @ r) = Some (v, r)"
  "vs \<noteq> [] \<Longrightarrow> \<forall>v \<in> set vs. plain_value v \<Longrightarrow> sum_list (map (\<lambda>v. Suc (value_size v)) vs) \<le> n \<Longrightarrow>
     parse_items n (json_items fr ascii vs @ r) = Some (vs, r)"
  "ms \<noteq> [] \<Longrightarrow> \<forall>m \<in> set ms. list_all scalar (fst m) \<and> plain_value (snd m) \<Longrightarrow>
     sum_list (map (\<lambda>m. Suc (value_size (snd m))) ms) \<le> n \<Longrightarrow>
     parse_members n (json_members fr ascii ms @ r) = Some (ms, r)"
proof (induction fr ascii v and fr ascii vs and fr ascii ms arbitrary: r n and r n and r n
    rule: json_value_json_items_json_members.induct)
  case (1 fr ascii)
  then show ?case using parse_value_words(1) by (cases n) (simp_all del: parse_value.simps)
next
  case (2 fr ascii b)
  then show ?case using parse_value_words(2,3) by (cases n) (simp_all del: parse_value.simps)
next
  case (3 fr ascii k)
  then show ?case using parse_value_int by (cases n) (simp_all del: parse_value.simps)
next
  case (6 fr ascii s)
  then show ?case using parse_value_string by (cases n) (simp_all del: parse_value.simps)
next
  case (7 fr ascii vs)
  then obtain m where n: "n = Suc m" by (cases n) auto
  show ?case
  proof (cases vs)
    case Nil
    with n show ?thesis by (simp add: space_def)
  next
    case (Cons v ws)
    have "plain_value v" using 7 Cons by simp
    then obtain c t where c: "json_value fr ascii v = c # t" "\<not> space c" "c \<noteq> 93" by (rule json_value_head)
    have "parse_items m (json_items fr ascii vs @ r) = Some (vs, r)" using 7 n Cons by simp
    with n c Cons show ?thesis by simp
  qed
next
  case (8 fr ascii ms)
  then obtain m where n: "n = Suc m" by (cases n) auto
  show ?case
  proof (cases ms)
    case Nil
    with n show ?thesis by (simp add: space_def)
  next
    case (Cons kv ws)
    obtain k v where kv: "kv = (k, v)" by (cases kv)
    have "parse_members m (json_members fr ascii ms @ r) = Some (ms, r)" using 8 n Cons by simp
    with n Cons kv 8(2) show ?thesis by (simp add: json_string_def space_def)
  qed
next
  case (10 fr ascii v vs)
  then obtain m where n: "n = Suc m" by (cases n) auto
  show ?case
  proof (cases vs)
    case Nil
    have "parse_value m (json_value fr ascii v @ 93 # r) = Some (v, 93 # r)"
      using 10 n by (simp add: stops_def)
    with n Nil show ?thesis by (simp add: space_def)
  next
    case (Cons w ws)
    have "plain_value w" using 10 Cons by simp
    then obtain c t where c: "json_value fr ascii w = c # t" "\<not> space c" by (rule json_value_head)
    have "parse_value m (json_value fr ascii v @ 44 # json_items fr ascii vs @ r) =
        Some (v, 44 # json_items fr ascii vs @ r)"
      using 10(1) 10(4,5) n by (simp add: stops_def)
    moreover have "parse_items m (json_items fr ascii vs @ r) = Some (vs, r)"
      using 10(2) 10(4,5) n Cons by simp
    ultimately show ?thesis using n Cons c by (simp add: space_def)
  qed
next
  case (12 fr ascii k v ms)
  then obtain m where n: "n = Suc m" by (cases n) auto
  have k: "list_all scalar k" and v: "plain_value v" using 12 by simp_all
  obtain c t where c: "json_value fr ascii v = c # t" "\<not> space c" using v by (rule json_value_head)
  show ?case
  proof (cases ms)
    case Nil
    have "parse_value m (json_value fr ascii v @ 125 # r) = Some (v, 125 # r)"
      using 12 n by (simp add: stops_def)
    with n Nil k c show ?thesis by (simp add: space_def json_string_def string_body_json)
  next
    case (Cons kw ws)
    obtain k' w where kw: "kw = (k', w)" by (cases kw)
    have "parse_value m (json_value fr ascii v @ 44 # json_members fr ascii ms @ r) =
        Some (v, 44 # json_members fr ascii ms @ r)"
      using 12(1) 12(4,5) n by (simp add: stops_def)
    moreover have "parse_members m (json_members fr ascii ms @ r) = Some (ms, r)"
      using 12(2) 12(4,5) n Cons by simp
    ultimately show ?thesis using n Cons kw k c by (simp add: space_def json_string_def string_body_json)
  qed
qed simp_all

lemma value_size_length:
  "plain_value v \<Longrightarrow> value_size v \<le> length (json_value fr ascii v)"
  "\<forall>v \<in> set vs. plain_value v \<Longrightarrow> sum_list (map (\<lambda>v. Suc (value_size v)) vs) \<le> length (json_items fr ascii vs)"
  "\<forall>m \<in> set ms. list_all scalar (fst m) \<and> plain_value (snd m) \<Longrightarrow>
     sum_list (map (\<lambda>m. Suc (value_size (snd m))) ms) \<le> length (json_members fr ascii ms)"
proof (induction fr ascii v and fr ascii vs and fr ascii ms rule: json_value_json_items_json_members.induct)
  case (3 fr ascii n)
  then show ?case using int_text_head [of n] by auto
next
  case (10 fr ascii v vs)
  then show ?case by (cases vs) simp_all
next
  case (12 fr ascii k v ms)
  then show ?case by (cases ms) simp_all
qed (simp_all add: py_def json_string_def)

lemma loads_dumps:
  assumes "plain_value v"
  shows "json_loads (json_value fr ascii v) = Some v"
proof -
  obtain c t where c: "json_value fr ascii v = c # t" "\<not> space c"
    and f: "c \<noteq> 0xFEFF"
  proof (cases v)
    case (PInt n)
    with int_text_head [of n] that show thesis by (auto simp: digit_def space_def)
  next
    case (PBool b)
    with that show thesis by (cases b) (auto simp: py_def space_def)
  qed (use assms that in \<open>auto simp: py_def json_string_def space_def split: if_splits\<close>)
  have "value_size v \<le> 2 * length (json_value fr ascii v) + 2"
    using value_size_length(1) [OF assms, of fr ascii] by linarith
  from parse_printed(1) [OF assms _ this, of "[]" fr ascii]
  have "parse_value (2 * length (json_value fr ascii v) + 2) (json_value fr ascii v) = Some (v, [])"
    by (simp add: stops_def)
  with c f show ?thesis by (simp add: json_loads_def skip_space_def del: parse_value.simps)
qed


subsection \<open>The fuel is enough\<close>

lemma skip_space_le: "length (skip_space r) \<le> length r"
  by (simp add: skip_space_def length_dropWhile_le)

lemma skip_space_length: "skip_space r = c # t \<Longrightarrow> length t < length r"
  using skip_space_le [of r] by simp

lemma fraction_part_length: "fraction_part s = Some (ds, r) \<Longrightarrow> length r \<le> length s"
  by (auto simp: fraction_part_def split: list.splits if_splits intro: le_SucI length_dropWhile_le)

lemma exponent_part_length: "exponent_part s = Some (k, r) \<Longrightarrow> length r \<le> length s"
  by (auto simp: exponent_part_def Let_def split: list.splits if_splits
      intro: le_SucI length_dropWhile_le le_trans [OF length_dropWhile_le])

lemma unsigned_number_shorter:
  assumes "unsigned_number b s = Some (v, r)"
  shows "length r < length s"
proof -
  obtain c t where s: "s = c # t" "digit c" using assms by (auto simp: unsigned_number_def split: list.splits if_splits)
  define u where "u = (if c = 48 then t else dropWhile digit s)"
  have u: "length u < length s" using s length_dropWhile_le [of digit t] by (auto simp: u_def)
  define u1 where "u1 = (case fraction_part u of None \<Rightarrow> u | Some (ds, u1) \<Rightarrow> u1)"
  define u2 where "u2 = (case exponent_part u1 of None \<Rightarrow> u1 | Some (k, u2) \<Rightarrow> u2)"
  have "length u1 \<le> length u" using fraction_part_length by (auto simp: u1_def split: option.split)
  moreover have "length u2 \<le> length u1" using exponent_part_length by (auto simp: u2_def split: option.split)
  moreover have "r = u2"
    using assms s unfolding unsigned_number_def u2_def u1_def u_def
    by (cases "c = 48") (auto simp: Let_def split: option.splits if_splits prod.splits)
  ultimately show ?thesis using u by simp
qed

lemma number_shorter: "number s = Some (v, r) \<Longrightarrow> length r < length s"
  by (auto simp: number_def split: list.splits if_splits dest: unsigned_number_shorter)

lemma literal_shorter: "w \<noteq> [] \<Longrightarrow> literal w v s = Some (x, r) \<Longrightarrow> length r < length s"
  by (cases s; cases w) (auto simp: literal_def py_def split: if_splits)

text \<open>How each of the three parsers succeeds.\<close>

lemma parse_value_Some:
  assumes "parse_value (Suc n) (c # t) = Some (v, r)"
  shows "(\<exists>x. string_body t = Some (x, r)) \<or> (\<exists>d. skip_space t = d # r) \<or>
    (\<exists>vs. parse_items n (skip_space t) = Some (vs, r)) \<or>
    (\<exists>ms. parse_members n (skip_space t) = Some (ms, r)) \<or>
    (\<exists>w x. w \<noteq> [] \<and> literal w x (c # t) = Some (v, r)) \<or> number (c # t) = Some (v, r)"
  using assms by (auto split: if_splits list.splits option.splits)

lemma parse_items_Some:
  assumes "parse_items (Suc n) s = Some (vs, r)"
  obtains v u c t where "parse_value n s = Some (v, u)" "skip_space u = c # t"
    "r = t \<or> (\<exists>ws. parse_items n (skip_space t) = Some (ws, r))"
  using assms by (auto split: if_splits list.splits option.splits)

lemma parse_members_Some:
  assumes "parse_members (Suc n) s = Some (ms, r)"
  obtains body k u c t v w d x where "s = 34 # body" "string_body body = Some (k, u)" "skip_space u = c # t"
    "parse_value n (skip_space t) = Some (v, w)" "skip_space w = d # x"
    "r = x \<or> (\<exists>ws. parse_members n (skip_space x) = Some (ws, r))"
  using assms by (auto split: if_splits list.splits option.splits)

lemma parse_shorter:
  "(\<forall>s v r. parse_value n s = Some (v, r) \<longrightarrow> length r < length s) \<and>
   (\<forall>s vs r. parse_items n s = Some (vs, r) \<longrightarrow> length r < length s) \<and>
   (\<forall>s ms r. parse_members n s = Some (ms, r) \<longrightarrow> length r < length s)"
proof (induction n)
  case (Suc n)
  have v: "length r < length s" if p: "parse_value (Suc n) s = Some (v, r)" for s v r
  proof (cases s)
    case Nil
    with p show ?thesis by simp
  next
    case (Cons c t)
    have "length (skip_space t) < length s" using skip_space_le [of t] Cons by simp
    then show ?thesis
      using parse_value_Some [OF p [unfolded Cons]] Suc.IH string_body_shorter skip_space_length [of t]
        literal_shorter number_shorter Cons less_trans
      by (elim disjE exE conjE) fastforce+
  qed
  have i: "length r < length s" if p: "parse_items (Suc n) s = Some (vs, r)" for s vs r
  proof -
    from p obtain v u c t where h: "parse_value n s = Some (v, u)" "skip_space u = c # t"
      "r = t \<or> (\<exists>ws. parse_items n (skip_space t) = Some (ws, r))" by (rule parse_items_Some)
    have "length u < length s" "length t < length u" using Suc.IH h(1) skip_space_length [OF h(2)] by blast+
    moreover have "length r \<le> length t"
      using h(3) Suc.IH skip_space_le [of t] less_imp_le le_trans by (metis order_refl)
    ultimately show ?thesis by linarith
  qed
  have m: "length r < length s" if p: "parse_members (Suc n) s = Some (ms, r)" for s ms r
  proof -
    from p obtain body k u c t v w d x where h: "s = 34 # body" "string_body body = Some (k, u)"
      "skip_space u = c # t" "parse_value n (skip_space t) = Some (v, w)" "skip_space w = d # x"
      "r = x \<or> (\<exists>ws. parse_members n (skip_space x) = Some (ws, r))" by (rule parse_members_Some)
    have "length u < length s" "length t < length u" "length w < length (skip_space t)" "length x < length w"
      using string_body_shorter [OF h(2)] skip_space_length [OF h(3)] Suc.IH h(4) skip_space_length [OF h(5)] h(1)
      by auto
    moreover have "length r \<le> length x"
      using h(6) Suc.IH skip_space_le [of x] less_imp_le le_trans by (metis order_refl)
    ultimately show ?thesis using skip_space_le [of t] by linarith
  qed
  from v i m show ?case by blast
qed simp

text \<open>More fuel only matters to a call through the calls it makes.\<close>

lemma parse_value_cong:
  assumes "parse_items k (skip_space t) = parse_items n (skip_space t)"
    "parse_members k (skip_space t) = parse_members n (skip_space t)"
  shows "parse_value (Suc k) (c # t) = parse_value (Suc n) (c # t)"
  using assms by (cases "skip_space t") simp_all

lemma parse_items_cong:
  assumes "parse_value k s = parse_value n s"
    and "\<And>x r c t. parse_value n s = Some (x, r) \<Longrightarrow> skip_space r = c # t \<Longrightarrow>
      parse_items k (skip_space t) = parse_items n (skip_space t)"
  shows "parse_items (Suc k) s = parse_items (Suc n) s"
proof (cases "parse_value n s")
  case None
  with assms(1) show ?thesis by simp
next
  case (Some xr)
  obtain x r where xr: "xr = (x, r)" by (cases xr)
  show ?thesis
  proof (cases "skip_space r")
    case (Cons c t)
    with assms(2) [of x r c t] assms(1) Some xr show ?thesis by simp
  qed (use assms(1) Some xr in simp)
qed

lemma parse_members_cong:
  assumes "\<And>x r c t. string_body body = Some (x, r) \<Longrightarrow> skip_space r = c # t \<Longrightarrow>
      parse_value k (skip_space t) = parse_value n (skip_space t)"
    and "\<And>x r c t y u d w. string_body body = Some (x, r) \<Longrightarrow> skip_space r = c # t \<Longrightarrow>
      parse_value n (skip_space t) = Some (y, u) \<Longrightarrow> skip_space u = d # w \<Longrightarrow>
      parse_members k (skip_space w) = parse_members n (skip_space w)"
  shows "parse_members (Suc k) (q # body) = parse_members (Suc n) (q # body)"
proof (cases "string_body body")
  case None
  then show ?thesis by simp
next
  case (Some xr)
  obtain x r where xr: "string_body body = Some (x, r)" using Some by (cases xr) simp
  show ?thesis
  proof (cases "skip_space r")
    case Nil
    with xr show ?thesis by simp
  next
    case (Cons c t)
    note pv = assms(1) [OF xr Cons]
    show ?thesis
    proof (cases "parse_value n (skip_space t)")
      case None
      with xr Cons pv show ?thesis by simp
    next
      case (Some yu)
      obtain y u where yu: "parse_value n (skip_space t) = Some (y, u)" using Some by (cases yu) simp
      show ?thesis
      proof (cases "skip_space u")
        case Nil
        with xr Cons pv yu show ?thesis by simp
      next
        case (Cons d w)
        from assms(2) [OF xr \<open>skip_space r = c # t\<close> yu Cons] xr \<open>skip_space r = c # t\<close> pv yu Cons
        show ?thesis by simp
      qed
    qed
  qed
qed

lemma parse_fuel_enough:
  "(\<forall>s. 2 * length s < n \<longrightarrow> n \<le> m \<longrightarrow> parse_value m s = parse_value n s) \<and>
   (\<forall>s. 2 * length s + 1 < n \<longrightarrow> n \<le> m \<longrightarrow> parse_items m s = parse_items n s) \<and>
   (\<forall>s. 2 * length s + 1 < n \<longrightarrow> n \<le> m \<longrightarrow> parse_members m s = parse_members n s)"
proof (induction n arbitrary: m)
  case (Suc n)
  show ?case
  proof (cases "Suc n \<le> m")
    case True
    then obtain k where k: "m = Suc k" "n \<le> k" by (cases m) auto
    have IHv: "parse_value k s = parse_value n s" if "2 * length s < n" for s
      using Suc.IH [of k] k(2) that by blast
    have IHi: "parse_items k s = parse_items n s" if "2 * length s + 1 < n" for s
      using Suc.IH [of k] k(2) that by blast
    have IHm: "parse_members k s = parse_members n s" if "2 * length s + 1 < n" for s
      using Suc.IH [of k] k(2) that by blast
    have v: "parse_value m s = parse_value (Suc n) s" if b: "2 * length s < Suc n" for s
    proof (cases s)
      case (Cons c t)
      have "2 * length (skip_space t) + 1 < n" using b skip_space_le [of t] Cons by simp
      then show ?thesis unfolding k(1) Cons by (intro parse_value_cong IHi IHm)
    qed (simp add: k(1))
    have i: "parse_items m s = parse_items (Suc n) s" if b: "2 * length s + 1 < Suc n" for s
      unfolding k(1)
    proof (rule parse_items_cong)
      show "parse_value k s = parse_value n s" using b by (intro IHv) simp
      fix x r c t
      assume h: "parse_value n s = Some (x, r)" "skip_space r = c # t"
      have "length r < length s" using parse_shorter h(1) by blast
      moreover have "length t < length r" using h(2) by (rule skip_space_length)
      ultimately have "2 * length (skip_space t) + 1 < n" using b skip_space_le [of t] by linarith
      then show "parse_items k (skip_space t) = parse_items n (skip_space t)" by (rule IHi)
    qed
    have mm: "parse_members m s = parse_members (Suc n) s" if b: "2 * length s + 1 < Suc n" for s
    proof (cases s)
      case (Cons q body)
      show ?thesis
        unfolding k(1) Cons
      proof (rule parse_members_cong)
        fix x r c t
        assume h: "string_body body = Some (x, r)" "skip_space r = c # t"
        show "parse_value k (skip_space t) = parse_value n (skip_space t)"
          using string_body_shorter [OF h(1)] skip_space_length [OF h(2)] skip_space_le [of t] b Cons
          by (intro IHv) simp
        fix y u d w
        assume g: "parse_value n (skip_space t) = Some (y, u)" "skip_space u = d # w"
        have "length u < length (skip_space t)" using parse_shorter g(1) by blast
        then show "parse_members k (skip_space w) = parse_members n (skip_space w)"
          using string_body_shorter [OF h(1)] skip_space_length [OF h(2)] skip_space_le [of t]
            skip_space_length [OF g(2)] skip_space_le [of w] b Cons
          by (intro IHm) simp
      qed
    qed (simp add: k(1))
    from v i mm show ?thesis by blast
  qed simp
qed simp

lemma parse_fuel:
  "2 * length s + 2 \<le> n \<Longrightarrow> parse_value n (skip_space s) = parse_value (2 * length s + 2) (skip_space s)"
  using parse_fuel_enough [of "2 * length s + 2" n] skip_space_le [of s] by (simp del: parse_value.simps)

end
