(* ===== verification/Utf8.thy ===== *)
theory Utf8
  imports Prelude
begin

section \<open>Decoding UTF-8\<close>

text \<open>
  Python's strict \<open>bytes.decode('utf-8')\<close>: \<open>None\<close> is the \<open>UnicodeDecodeError\<close>. Overlong forms,
  surrogates, values above \<open>0x10FFFF\<close> and truncated sequences are refused, so decoding is the
  inverse of \<open>utf8_encode\<close> in both directions.
\<close>

definition tail_byte :: "nat \<Rightarrow> bool" where
  "tail_byte b \<longleftrightarrow> 0x80 \<le> b \<and> b < 0xC0"

text \<open>The character a sequence of this many bytes starts with, and what follows it.\<close>

definition utf8_next :: "bytes \<Rightarrow> (nat \<times> bytes) option" where
  "utf8_next s =
     (case s of
        [] \<Rightarrow> None
      | a # r \<Rightarrow>
          if a < 0x80 then Some (a, r)
          else if a < 0xC0 then None
          else if a < 0xE0 then
            (case r of
               b # t \<Rightarrow>
                 let c = (a - 0xC0) * 64 + (b - 0x80)
                 in if tail_byte b \<and> 0x80 \<le> c then Some (c, t) else None
             | _ \<Rightarrow> None)
          else if a < 0xF0 then
            (case r of
               b # b' # t \<Rightarrow>
                 let c = ((a - 0xE0) * 64 + (b - 0x80)) * 64 + (b' - 0x80)
                 in if tail_byte b \<and> tail_byte b' \<and> 0x800 \<le> c \<and> \<not> surrogate c then Some (c, t) else None
             | _ \<Rightarrow> None)
          else if a < 0xF8 then
            (case r of
               b # b' # b'' # t \<Rightarrow>
                 let c = (((a - 0xF0) * 64 + (b - 0x80)) * 64 + (b' - 0x80)) * 64 + (b'' - 0x80)
                 in if tail_byte b \<and> tail_byte b' \<and> tail_byte b'' \<and> 0x10000 \<le> c \<and> c < 0x110000
                    then Some (c, t) else None
             | _ \<Rightarrow> None)
          else None)"

lemma utf8_next_shorter: "utf8_next s = Some (c, r) \<Longrightarrow> length r < length s"
  by (auto simp: utf8_next_def Let_def split: list.splits if_splits)

function utf8_decode :: "bytes \<Rightarrow> pystr option" where
  "utf8_decode s =
     (if s = [] then Some []
      else case utf8_next s of
             None \<Rightarrow> None
           | Some (c, r) \<Rightarrow> map_option (Cons c) (utf8_decode r))"
  by pat_completeness auto
termination
  by (relation "measure length") (auto dest: utf8_next_shorter)

declare utf8_decode.simps [simp del]

lemma utf8_decode_Nil [simp]: "utf8_decode [] = Some []"
  by (simp add: utf8_decode.simps)

subsection \<open>The two directions\<close>

lemma div_mod_64: "(n::nat) div 64 * 64 + n mod 64 = n"
  by simp

lemma utf8_next_char:
  assumes "scalar c"
  shows "utf8_next (utf8_char c @ r) = Some (c, r)"
proof -
  have c: "c < 0x110000" "\<not> surrogate c" using assms by (simp_all add: scalar_def)
  define x where "x = c div 64"
  define y where "y = x div 64"
  define z where "z = y div 64"
  have parts: "c = x * 64 + c mod 64" "x = y * 64 + x mod 64" "y = z * 64 + y mod 64"
    unfolding x_def y_def z_def by simp_all
  have eqs: "c div 4096 = y" "c div 262144 = z" "c div 64 = x"
    unfolding z_def y_def x_def using div_mult2_eq [of c 64 64] div_mult2_eq [of c "64 * 64" 64] by simp_all
  have tb: "tail_byte (0x80 + n mod 64)" for n using mod_less_divisor [of 64 n] by (simp add: tail_byte_def)
  consider "c < 0x80" | "0x80 \<le> c" "c < 0x800" | "0x800 \<le> c" "c < 0x10000" | "0x10000 \<le> c" by linarith
  then show ?thesis
  proof cases
    case 1
    then show ?thesis by (simp add: utf8_char_def utf8_next_def)
  next
    case 2
    then have "x < 32" "2 \<le> x" using parts(1) mod_less_divisor [of 64 c] by linarith+
    with 2 parts(1) show ?thesis by (simp add: utf8_char_def utf8_next_def eqs tb)
  next
    case 3
    then have "x < 1024" using parts(1) by linarith
    then have "y < 16" using parts(2) by linarith
    moreover have "(y * 64 + x mod 64) * 64 + c mod 64 = c" using parts by presburger
    ultimately show ?thesis using 3 c(2) by (simp add: utf8_char_def utf8_next_def eqs tb)
  next
    case 4
    then have "x < 17408" using parts(1) c(1) by linarith
    then have "y < 272" using parts(2) by linarith
    then have "z < 8" using parts(3) by linarith
    moreover have "((z * 64 + y mod 64) * 64 + x mod 64) * 64 + c mod 64 = c" using parts by presburger
    ultimately show ?thesis using 4 c(1) by (simp add: utf8_char_def utf8_next_def eqs tb)
  qed
qed

lemma utf8_decode_chars:
  "list_all scalar s \<Longrightarrow> utf8_decode (concat (map utf8_char s)) = Some s"
proof (induction s)
  case (Cons c s)
  then show ?case
    by (subst utf8_decode.simps) (simp add: utf8_next_char)
qed simp

lemma utf8_decode_encode: "utf8_encode s = Some b \<Longrightarrow> utf8_decode b = Some s"
  by (auto simp: utf8_encode_Some_iff utf8_decode_chars)

lemma tail_byteE:
  assumes "tail_byte b"
  obtains k where "k < 64" "b = 0x80 + k"
proof -
  have "b - 0x80 < 64" "b = 0x80 + (b - 0x80)" using assms by (simp_all add: tail_byte_def less_diff_conv2)
  then show thesis by (rule that)
qed

lemma div_mod_pack: "k < 64 \<Longrightarrow> (j * 64 + k) div 64 = (j::nat)" "k < 64 \<Longrightarrow> (j * 64 + k) mod 64 = (k::nat)"
  by simp_all

lemma div_4096: "(n::nat) div 4096 = n div 64 div 64"
  using div_mult2_eq [of n 64 64] by simp

lemma div_262144: "(n::nat) div 262144 = n div 64 div 64 div 64"
  using div_mult2_eq [of n "64 * 64" 64] div_4096 [of n] by simp

lemma utf8_next_two:
  assumes "utf8_next (a # t) = Some (c, r)" "0xC0 \<le> a" "a < 0xE0"
  obtains j k where "j < 32" "k < 64" "a = 0xC0 + j" "t = (0x80 + k) # r" "c = j * 64 + k" "0x80 \<le> c"
proof -
  from assms obtain b where b: "t = b # r" "tail_byte b" "c = (a - 0xC0) * 64 + (b - 0x80)" "0x80 \<le> c"
    by (auto simp: utf8_next_def Let_def split: list.splits if_splits)
  from b(2) obtain k where "k < 64" "b = 0x80 + k" by (rule tail_byteE)
  with b assms(2,3) show thesis by (intro that [of "a - 0xC0" k]) simp_all
qed

lemma utf8_next_three:
  assumes "utf8_next (a # t) = Some (c, r)" "0xE0 \<le> a" "a < 0xF0"
  obtains j k l where "j < 16" "k < 64" "l < 64" "a = 0xE0 + j" "t = (0x80 + k) # (0x80 + l) # r"
    "c = (j * 64 + k) * 64 + l" "0x800 \<le> c" "\<not> surrogate c"
proof -
  from assms obtain b b' where b: "t = b # b' # r" "tail_byte b" "tail_byte b'"
    "c = ((a - 0xE0) * 64 + (b - 0x80)) * 64 + (b' - 0x80)" "0x800 \<le> c" "\<not> surrogate c"
    by (auto simp: utf8_next_def Let_def split: list.splits if_splits)
  from b(2) obtain k where k: "k < 64" "b = 0x80 + k" by (rule tail_byteE)
  from b(3) obtain l where "l < 64" "b' = 0x80 + l" by (rule tail_byteE)
  with b k assms(2,3) show thesis by (intro that [of "a - 0xE0" k l]) simp_all
qed

lemma utf8_next_four:
  assumes "utf8_next (a # t) = Some (c, r)" "0xF0 \<le> a"
  obtains j k l m where "j < 8" "k < 64" "l < 64" "m < 64" "a = 0xF0 + j"
    "t = (0x80 + k) # (0x80 + l) # (0x80 + m) # r" "c = ((j * 64 + k) * 64 + l) * 64 + m" "0x10000 \<le> c" "c < 0x110000"
proof -
  from assms obtain b b' b'' where b: "t = b # b' # b'' # r" "tail_byte b" "tail_byte b'" "tail_byte b''"
    "c = (((a - 0xF0) * 64 + (b - 0x80)) * 64 + (b' - 0x80)) * 64 + (b'' - 0x80)" "0x10000 \<le> c" "c < 0x110000" "a < 0xF8"
    by (auto simp: utf8_next_def Let_def split: list.splits if_splits)
  from b(2) obtain k where k: "k < 64" "b = 0x80 + k" by (rule tail_byteE)
  from b(3) obtain l where l: "l < 64" "b' = 0x80 + l" by (rule tail_byteE)
  from b(4) obtain m where "m < 64" "b'' = 0x80 + m" by (rule tail_byteE)
  with b k l assms(2) show thesis by (intro that [of "a - 0xF0" k l m]) simp_all
qed

lemma utf8_char_next:
  assumes "utf8_next s = Some (c, r)"
  shows "scalar c \<and> s = utf8_char c @ r"
proof -
  obtain a t where s: "s = a # t" using assms by (auto simp: utf8_next_def split: list.splits)
  consider (one) "a < 0x80" | (bad) "0x80 \<le> a" "a < 0xC0" | (two) "0xC0 \<le> a" "a < 0xE0"
    | (three) "0xE0 \<le> a" "a < 0xF0" | (four) "0xF0 \<le> a" by linarith
  then show ?thesis
  proof cases
    case one
    with assms s show ?thesis by (simp add: utf8_next_def utf8_char_def scalar_def surrogate_def)
  next
    case bad
    with assms s show ?thesis by (simp add: utf8_next_def)
  next
    case two
    from assms [unfolded s] two obtain j k where h: "j < 32" "k < 64" "a = 0xC0 + j" "t = (0x80 + k) # r"
      "c = j * 64 + k" "0x80 \<le> c" by (rule utf8_next_two)
    then have "c < 0x800" by simp
    with h s show ?thesis by (simp add: utf8_char_def scalar_def surrogate_def div_mod_pack)
  next
    case three
    from assms [unfolded s] three obtain j k l where h: "j < 16" "k < 64" "l < 64" "a = 0xE0 + j"
      "t = (0x80 + k) # (0x80 + l) # r" "c = (j * 64 + k) * 64 + l" "0x800 \<le> c" "\<not> surrogate c"
      by (rule utf8_next_three)
    then have "c < 0x10000" by simp
    with h(7,8) s have "scalar c" "utf8_char c = [0xE0 + c div 64 div 64, 0x80 + c div 64 mod 64, 0x80 + c mod 64]"
      by (simp_all add: utf8_char_def scalar_def div_4096)
    with h s show ?thesis by (simp only: div_mod_pack append.simps simp_thms)
  next
    case four
    from assms [unfolded s] four obtain j k l m where h: "j < 8" "k < 64" "l < 64" "m < 64" "a = 0xF0 + j"
      "t = (0x80 + k) # (0x80 + l) # (0x80 + m) # r" "c = ((j * 64 + k) * 64 + l) * 64 + m" "0x10000 \<le> c" "c < 0x110000"
      by (rule utf8_next_four)
    then have "scalar c" "utf8_char c = [0xF0 + c div 64 div 64 div 64, 0x80 + c div 64 div 64 mod 64,
        0x80 + c div 64 mod 64, 0x80 + c mod 64]"
      by (simp_all only: utf8_char_def scalar_def surrogate_def div_4096 div_262144) simp_all
    with h s show ?thesis by (simp only: div_mod_pack append.simps simp_thms)
  qed
qed

lemma utf8_encode_decode: "utf8_decode b = Some s \<Longrightarrow> utf8_encode s = Some b"
proof (induction b arbitrary: s rule: utf8_decode.induct)
  case (1 b)
  show ?case
  proof (cases "b = []")
    case True
    with "1.prems" show ?thesis by (simp add: utf8_encode_def)
  next
    case False
    with "1.prems" obtain c r u where cr: "utf8_next b = Some (c, r)" "utf8_decode r = Some u" "s = c # u"
      by (subst (asm) utf8_decode.simps) (auto split: option.splits)
    have "utf8_encode u = Some r" using "1.IH" [OF False cr(1) refl cr(2)] .
    with utf8_char_next [OF cr(1)] cr(3) show ?thesis by (auto simp: utf8_encode_Some_iff)
  qed
qed

lemma utf8_decode_iff: "utf8_decode b = Some s \<longleftrightarrow> utf8_encode s = Some b"
  using utf8_decode_encode utf8_encode_decode by blast

end
