(* ===== verification/Ascii.thy ===== *)
theory Ascii
  imports Json Utf8
begin

section \<open>Records of the private channels\<close>

text \<open>
  The compositor and the input helpers speak lines of ASCII words. A decoded line is a HOL string;
  here are the parts of Python's standard library the readers and writers of such lines use:
  \<open>str.split\<close>, \<open>int\<close>, \<open>float\<close>, \<open>bytes.fromhex\<close>, \<open>bytes.hex\<close> and \<open>str\<close> of an integer.
\<close>

subsection \<open>Words\<close>

definition space_char :: "char \<Rightarrow> bool" where
  "space_char c = (let n = of_char c :: nat in n = 32 \<or> 9 \<le> n \<and> n \<le> 13 \<or> 28 \<le> n \<and> n \<le> 31)"

function py_split :: "string \<Rightarrow> string list" where
  "py_split s =
     (case dropWhile space_char s of
        [] \<Rightarrow> []
      | c # r \<Rightarrow> (c # takeWhile (\<lambda>x. \<not> space_char x) r) # py_split (dropWhile (\<lambda>x. \<not> space_char x) r))"
  by pat_completeness auto
termination
proof (relation "measure length")
  fix s :: string and c r
  assume "dropWhile space_char s = c # r"
  then have "Suc (length r) \<le> length s" using length_dropWhile_le [of space_char s] by simp
  then show "(dropWhile (\<lambda>x. \<not> space_char x) r, s) \<in> measure length"
    using length_dropWhile_le [of "\<lambda>x. \<not> space_char x" r] by simp
qed simp

declare py_split.simps [simp del]

fun unwords :: "string list \<Rightarrow> string" where
  "unwords [] = []"
| "unwords [w] = w"
| "unwords (w # ws) = w @ '' '' @ unwords ws"

definition is_word :: "string \<Rightarrow> bool" where
  "is_word w \<longleftrightarrow> w \<noteq> [] \<and> list_all (\<lambda>c. \<not> space_char c) w"

lemma space_char_blank [simp]: "space_char CHR '' ''"
  by (simp add: space_char_def)

lemma py_split_Nil [simp]: "py_split [] = []"
  by (simp add: py_split.simps)

lemma py_split_blank: "py_split (CHR '' '' # s) = py_split s"
  by (subst (1 2) py_split.simps) simp

lemma py_split_word:
  assumes "is_word w" "r = [] \<or> space_char (hd r)"
  shows "py_split (w @ r) = w # py_split r"
proof -
  from assms(1) obtain c v where w: "w = c # v" "\<not> space_char c" "list_all (\<lambda>c. \<not> space_char c) v"
    by (cases w) (auto simp: is_word_def)
  have all: "\<forall>x \<in> set v. \<not> space_char x" using w(3) by (simp add: list_all_iff)
  have "takeWhile (\<lambda>x. \<not> space_char x) (v @ r) = v" "dropWhile (\<lambda>x. \<not> space_char x) (v @ r) = r"
    using all assms(2) by (cases r; simp)+
  then show ?thesis using w(1,2) by (subst py_split.simps) simp
qed

lemma py_split_unwords: "list_all is_word ws \<Longrightarrow> py_split (unwords ws) = ws"
proof (induction ws rule: unwords.induct)
  case (2 w)
  then show ?case using py_split_word [of w "[]"] by simp
next
  case (3 w v ws)
  then show ?case by (simp add: py_split_word py_split_blank)
qed simp

lemma py_split_words: "list_all is_word (py_split s)"
proof (induction s rule: py_split.induct)
  case (1 s)
  show ?case
  proof (cases "dropWhile space_char s")
    case Nil
    have "py_split s = []" by (subst py_split.simps) (simp only: Nil list.case)
    then show ?thesis by simp
  next
    case (Cons c r)
    have eq: "py_split s = (c # takeWhile (\<lambda>x. \<not> space_char x) r) # py_split (dropWhile (\<lambda>x. \<not> space_char x) r)"
      by (subst py_split.simps) (simp only: Cons list.case)
    have "\<not> space_char c" using Cons by (metis hd_dropWhile list.distinct(1) list.sel(1))
    then have "is_word (c # takeWhile (\<lambda>x. \<not> space_char x) r)"
      by (auto simp: is_word_def list_all_iff dest: set_takeWhileD)
    with 1 [OF Cons] eq show ?thesis by simp
  qed
qed

subsection \<open>Integers\<close>

definition digit_char :: "char \<Rightarrow> bool" where
  "digit_char c \<longleftrightarrow> digit (of_char c)"

fun digits_rest :: "string \<Rightarrow> bool" where
  "digits_rest [] = True"
| "digits_rest (c # s) =
     (if c = CHR ''_'' then (case s of [] \<Rightarrow> False | d # t \<Rightarrow> digit_char d \<and> digits_rest s)
      else digit_char c \<and> digits_rest s)"

text \<open>Digits with single underscores between them.\<close>

definition digits_part :: "string \<Rightarrow> bool" where
  "digits_part s = (case s of [] \<Rightarrow> False | c # t \<Rightarrow> digit_char c \<and> digits_rest t)"

definition bare_digits :: "string \<Rightarrow> string" where
  "bare_digits s = filter digit_char s"

definition signed_part :: "string \<Rightarrow> bool \<times> string" where
  "signed_part s =
     (case s of
        [] \<Rightarrow> (False, [])
      | c # t \<Rightarrow> if c = CHR ''-'' then (True, t) else if c = CHR ''+'' then (False, t) else (False, s))"

text \<open>\<open>int(s)\<close> of one word; \<open>None\<close> is the \<open>ValueError\<close>.\<close>

definition py_int :: "string \<Rightarrow> int option" where
  "py_int s =
     (let (negative, t) = signed_part s
      in if digits_part t \<and> length (bare_digits t) \<le> int_digits_limit
         then Some (if negative then - int (undec (bare_digits t)) else int (undec (bare_digits t)))
         else None)"

text \<open>\<open>str(n)\<close>.\<close>

definition py_str :: "int \<Rightarrow> string" where
  "py_str n = (if n < 0 then CHR ''-'' # dec (nat (- n)) else dec (nat n))"

lemma digit_char_dec: "k < 10 \<Longrightarrow> digit_char (char_of (48 + k :: nat))"
  by (simp add: digit_char_def digit_def of_char_mod_256)

lemma digit_char_simps [simp]:
  "\<not> digit_char CHR ''_''" "\<not> digit_char CHR ''-''" "\<not> digit_char CHR ''+''" "\<not> digit_char CHR '' ''"
  by (simp_all add: digit_char_def digit_def)

lemma dec_digits: "dec n \<noteq> [] \<and> list_all digit_char (dec n)"
proof (induction n rule: dec.induct)
  case (1 n)
  then show ?case by (subst (1 2) dec.simps) (simp add: digit_char_dec)
qed

lemma digits_rest_all: "list_all digit_char s \<Longrightarrow> digits_rest s"
  by (induction s) auto

lemma digits_part_all: "s \<noteq> [] \<Longrightarrow> list_all digit_char s \<Longrightarrow> digits_part s"
  by (cases s) (auto simp: digits_part_def digits_rest_all)

lemma bare_digits_all: "list_all digit_char s \<Longrightarrow> bare_digits s = s"
  by (simp add: bare_digits_def list_all_iff)

lemma digit_not_space: "digit_char c \<Longrightarrow> \<not> space_char c"
  by (simp add: digit_char_def digit_def space_char_def)

lemma word_dec: "is_word (dec n)"
  using dec_digits [of n] digit_not_space by (auto simp: is_word_def list_all_iff)

lemma word_py_str: "is_word (py_str n)"
  using word_dec by (simp add: py_str_def is_word_def space_char_def)

lemma length_dec: "n < 10 ^ k \<Longrightarrow> 0 < k \<Longrightarrow> length (dec n) \<le> k"
proof (induction n arbitrary: k rule: dec.induct)
  case (1 n)
  show ?case
  proof (cases "n < 10")
    case True
    with 1(3) show ?thesis by (subst dec.simps) simp
  next
    case False
    obtain j where k: "k = Suc j" using 1(3) by (cases k) auto
    have "0 < j" using False 1(2) k by (cases j) auto
    moreover have "n div 10 < 10 ^ j" using 1(2) k by (simp add: less_mult_imp_div_less)
    ultimately have "length (dec (n div 10)) \<le> j" using 1(1) [OF False] by simp
    with False k show ?thesis by (subst dec.simps) simp
  qed
qed

text \<open>Every integer of the program is below \<open>10 ^ 20\<close>, far from the limit on digits.\<close>

lemma length_dec_20: "n < 10 ^ 20 \<Longrightarrow> length (dec n) \<le> int_digits_limit"
  using length_dec [of n 20] by (simp add: int_digits_limit_def)

lemma py_int_dec: "n < 10 ^ 20 \<Longrightarrow> py_int (dec n) = Some (int n)"
proof -
  assume n: "n < 10 ^ 20"
  from dec_digits [of n] obtain c t where d: "dec n = c # t" "digit_char c" by (cases "dec n") auto
  have "signed_part (dec n) = (False, dec n)" using d by (auto simp: signed_part_def)
  then show ?thesis using dec_digits [of n] length_dec_20 [OF n] by (simp add: py_int_def digits_part_all bare_digits_all)
qed

lemma py_int_str:
  assumes "\<bar>n\<bar> < 10 ^ 20"
  shows "py_int (py_str n) = Some n"
proof (cases "n < 0")
  case True
  have "nat (- n) < 10 ^ 20" using assms True by (simp add: nat_less_iff)
  then show ?thesis using True dec_digits [of "nat (- n)"] length_dec_20
    by (simp add: py_int_def py_str_def signed_part_def digits_part_all bare_digits_all)
next
  case False
  have "nat n < 10 ^ 20" using assms False by (simp add: nat_less_iff)
  from py_int_dec [OF this] False show ?thesis by (simp add: py_str_def)
qed

text \<open>The checked integers of the record readers: \<open>None\<close> is the \<open>ValueError\<close>.\<close>

definition field_int :: "string \<Rightarrow> int \<Rightarrow> int \<Rightarrow> int option" where
  "field_int s low high =
     (case py_int s of None \<Rightarrow> None | Some n \<Rightarrow> if low \<le> n \<and> n \<le> high then Some n else None)"

lemma field_int_bounds: "field_int s low high = Some n \<Longrightarrow> low \<le> n \<and> n \<le> high"
  by (auto simp: field_int_def split: option.splits if_splits)

lemma field_int_str:
  assumes "\<bar>n\<bar> < 10 ^ 20" "low \<le> n" "n \<le> high"
  shows "field_int (py_str n) low high = Some n"
  by (simp add: field_int_def py_int_str [OF assms(1)] assms(2,3))

lemma bind_field_int: "Option.bind (field_int s low high) f = Some y \<longleftrightarrow>
    (\<exists>n. field_int s low high = Some n \<and> f n = Some y)"
  by (cases "field_int s low high") auto

subsection \<open>Floating-point numbers\<close>

datatype pyfloat = Finite rat | Infinite | Not_a_number

definition exponent_word :: "string \<Rightarrow> int option" where
  "exponent_word s =
     (case s of
        [] \<Rightarrow> Some 0
      | c # t \<Rightarrow>
          if c \<noteq> CHR ''e'' \<and> c \<noteq> CHR ''E'' then None
          else
            let (negative, ds) = signed_part t
            in if digits_part ds
               then Some (if negative then - int (undec (bare_digits ds)) else int (undec (bare_digits ds)))
               else None)"

definition digit_or_underscore :: "char \<Rightarrow> bool" where
  "digit_or_underscore c \<longleftrightarrow> digit_char c \<or> c = CHR ''_''"

definition lower_ascii :: "string \<Rightarrow> string" where
  "lower_ascii s = map (\<lambda>c. let n = of_char c :: nat in if 65 \<le> n \<and> n \<le> 90 then char_of (n + 32) else c) s"

text \<open>\<open>float(s)\<close> of one word; the sign of a zero or of an infinity is not kept.\<close>

definition py_float :: "string \<Rightarrow> pyfloat option" where
  "py_float s =
     (let (negative, t) = signed_part s
      in if lower_ascii t \<in> {''inf'', ''infinity''} then Some Infinite
         else if lower_ascii t = ''nan'' then Some Not_a_number
         else
           let ip = takeWhile digit_or_underscore t;
               u = dropWhile digit_or_underscore t;
               (fp, w) = (case u of
                   [] \<Rightarrow> ([], [])
                 | c # r \<Rightarrow> if c = CHR ''.'' then (takeWhile digit_or_underscore r, dropWhile digit_or_underscore r) else ([], u))
           in if (ip = [] \<or> digits_part ip) \<and> (fp = [] \<or> digits_part fp) \<and> (ip \<noteq> [] \<or> fp \<noteq> []) then
                (case exponent_word w of
                   None \<Rightarrow> None
                 | Some k \<Rightarrow>
                     let x = scale10 (of_nat (undec (bare_digits ip @ bare_digits fp))) (k - int (length (bare_digits fp)))
                     in (case to_float (if negative then - x else x) of PFloat r \<Rightarrow> Some (Finite r) | _ \<Rightarrow> Some Infinite))
              else None)"

subsection \<open>Hexadecimal\<close>

definition hex_nibble :: "char \<Rightarrow> nat option" where
  "hex_nibble c = hex_value (of_char c)"

text \<open>\<open>bytes.fromhex(s)\<close> of one word.\<close>

fun from_hex :: "string \<Rightarrow> bytes option" where
  "from_hex [] = Some []"
| "from_hex [c] = None"
| "from_hex (c # d # s) =
     (case (hex_nibble c, hex_nibble d, from_hex s) of
        (Some a, Some b, Some r) \<Rightarrow> Some ((16 * a + b) # r)
      | _ \<Rightarrow> None)"

definition hex_char :: "nat \<Rightarrow> char" where
  "hex_char n = char_of (hex_digit n)"

text \<open>\<open>data.hex()\<close>.\<close>

definition to_hex :: "bytes \<Rightarrow> string" where
  "to_hex bs = concat (map (\<lambda>b. [hex_char (b div 16), hex_char (b mod 16)]) bs)"

lemma hex_nibble_char [simp]: "n < 16 \<Longrightarrow> hex_nibble (hex_char n) = Some n"
  by (auto simp: hex_nibble_def hex_char_def hex_value_def hex_digit_def of_char_mod_256)

lemma to_hex_Nil [simp]: "to_hex [] = []"
  by (simp add: to_hex_def)

lemma to_hex_Cons: "to_hex (b # bs) = hex_char (b div 16) # hex_char (b mod 16) # to_hex bs"
  by (simp add: to_hex_def)

lemma from_hex_to_hex: "list_all (\<lambda>b. b < 256) bs \<Longrightarrow> from_hex (to_hex bs) = Some bs"
proof (induction bs)
  case (Cons b bs)
  then have "b div 16 < 16" by (simp add: less_mult_imp_div_less)
  then have "hex_nibble (hex_char (b div 16)) = Some (b div 16)" by (rule hex_nibble_char)
  with Cons show ?case by (simp add: to_hex_Cons)
qed simp

lemma length_to_hex [simp]: "length (to_hex bs) = 2 * length bs"
  by (induction bs) (simp_all add: to_hex_Cons)

lemma to_hex_append: "to_hex (a @ b) = to_hex a @ to_hex b"
  by (simp add: to_hex_def)

lemma hex_nibble_less: "hex_nibble c = Some n \<Longrightarrow> n < 16"
  by (auto simp: hex_nibble_def hex_value_def split: if_splits)

lemma from_hex_length: "from_hex s = Some bs \<Longrightarrow> length s = 2 * length bs \<and> list_all (\<lambda>b. b < 256) bs"
proof (induction s arbitrary: bs rule: from_hex.induct)
  case (3 c d s)
  from "3.prems" obtain a b r where r: "hex_nibble c = Some a" "hex_nibble d = Some b" "from_hex s = Some r"
    "bs = (16 * a + b) # r" by (auto split: option.splits)
  with "3.IH" [OF r(3)] hex_nibble_less [OF r(1)] hex_nibble_less [OF r(2)] show ?case by simp
qed auto

text \<open>No character outside \<open>'0123456789abcdef'\<close>.\<close>

definition lower_hex :: "string \<Rightarrow> bool" where
  "lower_hex s = list_all (\<lambda>c. digit_char c \<or> 97 \<le> (of_char c :: nat) \<and> (of_char c :: nat) \<le> 102) s"

lemma lower_hex_char: "n < 16 \<Longrightarrow> lower_hex [hex_char n]"
  by (auto simp: lower_hex_def hex_char_def hex_digit_def digit_char_def digit_def of_char_mod_256)

lemma lower_hex_Cons: "lower_hex (c # s) \<longleftrightarrow> lower_hex [c] \<and> lower_hex s"
  by (simp add: lower_hex_def)

lemma lower_hex_to_hex: "list_all (\<lambda>b. b < 256) bs \<Longrightarrow> lower_hex (to_hex bs)"
proof (induction bs)
  case (Cons b bs)
  then have "lower_hex [hex_char (b div 16)]" "lower_hex [hex_char (b mod 16)]"
    by (auto intro!: lower_hex_char simp: less_mult_imp_div_less)
  with Cons show ?case unfolding to_hex_Cons
    by (subst lower_hex_Cons, subst (2) lower_hex_Cons) simp
qed (simp add: lower_hex_def)

lemma lower_hex_nibble: "lower_hex [x] \<Longrightarrow> \<exists>n. hex_nibble x = Some n"
  by (auto simp: lower_hex_def digit_char_def digit_def hex_nibble_def hex_value_def)

lemma from_hex_lower: "lower_hex s \<Longrightarrow> even (length s) \<Longrightarrow> \<exists>bs. from_hex s = Some bs"
proof (induction s rule: from_hex.induct)
  case (3 c d s)
  have h: "lower_hex [c]" "lower_hex [d]" "lower_hex s" using "3.prems"(1) lower_hex_Cons [of c] lower_hex_Cons [of d] by blast+
  obtain a b where "hex_nibble c = Some a" "hex_nibble d = Some b" using h lower_hex_nibble by blast
  moreover obtain r where "from_hex s = Some r" using 3(1) [OF h(3)] 3(3) by auto
  ultimately show ?case by simp
qed auto

end
