(* ===== verification/Native_View.thy ===== *)
theory Native_View
  imports Ascii Contract
begin

section \<open>What the native scene shows its clipboard and its cursor\<close>

text \<open>
  \<open>NativeClipboard\<close> and \<open>NativeCursor\<close> read four things of the \<open>NativeDesktop\<close> that owns them:
  whether it is closed, its connection epoch, its current target and the state of its channel (open or
  not, and the room left in its output buffer). Targets are compared with \<open>is\<close> in the code; a scene record creates a target with a
  generation larger than every earlier one, so two targets are the same object exactly when window
  and generation agree.
\<close>

record native_target =
  tg_window :: int
  tg_generation :: int

text \<open>
  \<open>NativeChannel.send\<close>: it queues the record, refuses it on a closed channel, or closes the channel,
  which runs \<open>NativeDesktop.lost\<close> before it raises.
\<close>

datatype channel_result = Queued | Refused_send | Channel_lost

record native_view =
  nv_closed :: bool
  nv_epoch :: int
  nv_target :: "native_target option"
  nv_open :: bool
  nv_room :: nat

definition channel_answer :: "native_view \<Rightarrow> string \<Rightarrow> channel_result" where
  "channel_answer v record =
     (if \<not> nv_open v then Refused_send else if nv_room v < length record then Channel_lost else Queued)"

text \<open>\<open>NativeDesktop.submit\<close>, the guard before the records are sent.\<close>

definition submit_ok :: "int \<Rightarrow> native_target \<Rightarrow> native_view \<Rightarrow> bool" where
  "submit_ok epoch target v \<longleftrightarrow>
     \<not> nv_closed v \<and> epoch \<noteq> 0 \<and> epoch = nv_epoch v \<and> nv_target v = Some target"

definition submit_record :: "int \<Rightarrow> native_target \<Rightarrow> string \<Rightarrow> string" where
  "submit_record epoch target command =
     ''input '' @ py_str epoch @ '' '' @ py_str (tg_window target) @ '' '' @ py_str (tg_generation target) @ '' '' @ command @ ''\<newline>''"

definition MAX_ID :: int where "MAX_ID = 9007199254740991"

definition CHUNK :: nat where "CHUNK = 1024"

text \<open>The characters of a data word: \<open>-\<close> for no data, or one to \<open>CHUNK\<close> bytes in lower-case hexadecimal.\<close>

definition chunk_word :: "string \<Rightarrow> bool" where
  "chunk_word s \<longleftrightarrow> s = ''-'' \<or> 2 \<le> length s \<and> length s \<le> 2 * CHUNK \<and> even (length s) \<and> lower_hex s"

lemma channel_answer_Queued: "nv_open v \<Longrightarrow> length record \<le> nv_room v \<Longrightarrow> channel_answer v record = Queued"
  by (simp add: channel_answer_def)

lemma length_py_str: "0 \<le> n \<Longrightarrow> n \<le> MAX_ID \<Longrightarrow> length (py_str n) \<le> 16"
  using length_dec [of "nat n" 16] by (simp add: py_str_def MAX_ID_def)

text \<open>Room for any request of a reader.\<close>

definition roomy :: "native_view \<Rightarrow> bool" where
  "roomy v \<longleftrightarrow> nv_open v \<and> 64 \<le> nv_room v"

lemma field_int_MAX_ID: "0 \<le> n \<Longrightarrow> low \<le> n \<Longrightarrow> n \<le> high \<Longrightarrow> n \<le> MAX_ID \<Longrightarrow> field_int (py_str n) low high = Some n"
  by (rule field_int_str) (simp_all add: MAX_ID_def)

lemma chunk_word_to_hex:
  assumes "list_all (\<lambda>b. b < 256) bs" "bs \<noteq> []" "length bs \<le> CHUNK"
  shows "chunk_word (to_hex bs)"
  using assms lower_hex_to_hex [OF assms(1)] by (cases bs) (simp_all add: chunk_word_def)

lemma chunk_word_bytes:
  assumes "chunk_word s" "s \<noteq> ''-''"
  shows "\<exists>bs. from_hex s = Some bs"
  using assms from_hex_lower by (auto simp: chunk_word_def)

subsection \<open>Reading in chunks\<close>

text \<open>
  The clipboard and the cursor pull a value of \<open>total\<close> bytes in chunks, one request outstanding.
  \<open>serve\<close> answers the request; \<open>reading n\<close> is the state with \<open>n\<close> bytes read. What a reader promises
  of one answer is enough to know what all answers give.
\<close>

locale chunk_reader =
  fixes serve :: "'s \<Rightarrow> 's"
    and reading :: "nat \<Rightarrow> 's \<Rightarrow> bool"
    and idle :: "'s \<Rightarrow> bool"
    and total :: nat
    and out :: "'s \<Rightarrow> 'o"
    and deliver :: "'o \<Rightarrow> 'o"
  assumes unfinished: "reading n s \<Longrightarrow> n < total"
    and next_chunk: "reading n s \<Longrightarrow> n + CHUNK < total \<Longrightarrow> reading (n + CHUNK) (serve s) \<and> out (serve s) = out s"
    and last_chunk: "reading n s \<Longrightarrow> \<not> n + CHUNK < total \<Longrightarrow> idle (serve s) \<and> out (serve s) = deliver (out s)"
    and idle_serve: "idle s \<Longrightarrow> serve s = s"
begin

lemma idle_funpow: "idle s \<Longrightarrow> (serve ^^ m) s = s"
  by (induction m) (simp_all add: idle_serve)

lemma served:
  assumes "reading n s" "total \<le> n + m * CHUNK"
  shows "idle ((serve ^^ m) s) \<and> out ((serve ^^ m) s) = deliver (out s)"
  using assms
proof (induction m arbitrary: n s)
  case 0
  then show ?case using unfinished [of n s] by simp
next
  case (Suc m)
  have shift: "(serve ^^ Suc m) s = (serve ^^ m) (serve s)" by (simp only: funpow_Suc_right o_apply)
  show ?case
  proof (cases "n + CHUNK < total")
    case True
    have "total \<le> n + CHUNK + m * CHUNK" using Suc.prems(2) by simp
    with Suc.IH [of "n + CHUNK" "serve s"] next_chunk [OF Suc.prems(1) True] shift show ?thesis by metis
  next
    case False
    with last_chunk [OF Suc.prems(1)] shift idle_funpow show ?thesis by simp
  qed
qed

end

end
