(* ===== verification/Native_Channel.thy ===== *)
theory Native_Channel
  imports Native_View
begin

section \<open>The compositor's control channel (desktop\_native.py, NativeChannel)\<close>

text \<open>
  One nonblocking socket carries ASCII lines both ways. \<open>read\<close> appends what was received and hands
  every complete line to \<open>observed\<close>; \<open>send\<close> appends to a bounded buffer that \<open>write\<close> drains. The
  callbacks act on the world \<open>'w\<close> that owns the channel, which may close it: \<open>observed\<close> answers
  whether it raised.
\<close>

definition MAX_BUFFER :: nat where "MAX_BUFFER = 131072"
definition MAX_RECORD :: nat where "MAX_RECORD = 4096"
definition READ_CHUNK :: nat where "READ_CHUNK = 16384"

record channel =
  ch_input :: bytes
  ch_output :: string
  ch_closed :: bool

definition new_channel :: channel where
  "new_channel = \<lparr>ch_input = [], ch_output = [], ch_closed = False\<rparr>"

subsection \<open>Sending\<close>

definition newline :: char where "newline = CHR ''\<newline>''"

definition ascii :: "string \<Rightarrow> bool" where
  "ascii s = list_all (\<lambda>c. (of_char c :: nat) < 128) s"

text \<open>What \<open>send\<close> does with its data: \<open>Channel_lost\<close> closes the channel before it raises.\<close>

definition send_answer :: "channel \<Rightarrow> string \<Rightarrow> channel_result" where
  "send_answer c data =
     (if \<not> ascii data \<or> ch_closed c then Refused_send
      else if data = [] \<or> last data \<noteq> newline \<or> length (ch_output c) + length data > MAX_BUFFER then Channel_lost
      else Queued)"

definition channel_append :: "string \<Rightarrow> channel \<Rightarrow> channel" where
  "channel_append data c = c\<lparr>ch_output := ch_output c @ data\<rparr>"

text \<open>\<open>close\<close>, without its call of \<open>lost\<close>.\<close>

definition channel_shut :: "channel \<Rightarrow> channel" where
  "channel_shut c = c\<lparr>ch_closed := True, ch_input := [], ch_output := []\<rparr>"

text \<open>\<open>write\<close> when the socket takes \<open>count\<close> bytes (none closes the channel): whether it must close.\<close>

definition channel_write :: "nat \<Rightarrow> channel \<Rightarrow> bool \<times> channel" where
  "channel_write count c =
     (if ch_closed c \<or> ch_output c = [] then (False, c)
      else
        let n = min count (length (take READ_CHUNK (ch_output c)))
        in if n = 0 then (True, c) else (False, c\<lparr>ch_output := drop n (ch_output c)\<rparr>))"

subsection \<open>Receiving\<close>

datatype read_end = Waits bytes | Read_raised | Read_closed

function read_lines ::
  "(string \<Rightarrow> 'w \<Rightarrow> bool \<times> 'w) \<Rightarrow> ('w \<Rightarrow> bool) \<Rightarrow> bytes \<Rightarrow> 'w \<Rightarrow> read_end \<times> 'w" where
  "read_lines observed shut input w =
     (if 10 \<notin> set input then (if length input > MAX_RECORD then Read_raised else Waits input, w)
      else
        let line = takeWhile (\<lambda>b. b \<noteq> 10) input; rest = tl (dropWhile (\<lambda>b. b \<noteq> 10) input)
        in if length line > MAX_RECORD \<or> \<not> list_all (\<lambda>b. b < 128) line then (Read_raised, w)
           else
             (case observed (map char_of line) w of
                (raised, u) \<Rightarrow>
                  if raised then (Read_raised, u)
                  else if shut u then (Read_closed, u)
                  else read_lines observed shut rest u))"
  by pat_completeness auto
termination
proof (relation "measure (\<lambda>(observed, shut, input, w). length input)", goal_cases)
  case 1
  then show ?case by simp
next
  case (2 observed shut input w line rest raised u)
  then have "dropWhile (\<lambda>b. b \<noteq> 10) input \<noteq> []" by auto
  then have "0 < length (dropWhile (\<lambda>b. b \<noteq> 10) input)" by blast
  moreover have "length (dropWhile (\<lambda>b. b \<noteq> 10) input) \<le> length input" by (rule length_dropWhile_le)
  ultimately have "length (dropWhile (\<lambda>b. b \<noteq> 10) input) - 1 < length input" by linarith
  with 2 show ?case by simp
qed

declare read_lines.simps [simp del]

lemma read_lines_wait: "10 \<notin> set input \<Longrightarrow>
    read_lines observed shut input w = (if length input > MAX_RECORD then Read_raised else Waits input, w)"
  by (subst read_lines.simps) simp

lemma read_lines_line:
  assumes "10 \<notin> set line"
  shows "read_lines observed shut (line @ 10 # rest) w =
    (if length line > MAX_RECORD \<or> \<not> list_all (\<lambda>b. b < 128) line then (Read_raised, w)
     else case observed (map char_of line) w of
       (raised, u) \<Rightarrow> if raised then (Read_raised, u) else if shut u then (Read_closed, u)
         else read_lines observed shut rest u)"
proof -
  have "takeWhile (\<lambda>b. b \<noteq> 10) (line @ 10 # rest) = line" "dropWhile (\<lambda>b. b \<noteq> 10) (line @ 10 # rest) = 10 # rest"
    using assms by (auto simp: takeWhile_append dropWhile_append)
  then show ?thesis by (subst read_lines.simps) simp
qed

lemma split_line:
  assumes "10 \<in> set input"
  obtains line rest where "input = line @ 10 # rest" "10 \<notin> set line"
  using assms by (metis split_list_first)

text \<open>How the bytes arrive does not matter: reading two pieces is reading them as one.\<close>

lemma read_lines_append:
  "read_lines observed shut (a @ b) w =
     (case read_lines observed shut a w of
        (Waits r, u) \<Rightarrow> read_lines observed shut (r @ b) u
      | other \<Rightarrow> other)"
proof (induction "length a" arbitrary: a w rule: less_induct)
  case less
  show ?case
  proof (cases "10 \<in> set a")
    case True
    then obtain line rest where a: "a = line @ 10 # rest" "10 \<notin> set line" by (rule split_line)
    obtain raised u where o: "observed (map char_of line) w = (raised, u)" by fastforce
    have "length rest < length a" by (simp add: a(1))
    from less [OF this, of u] show ?thesis using a by (simp add: read_lines_line o)
  next
    case False
    show ?thesis
    proof (cases "length a > MAX_RECORD")
      case long: True
      show ?thesis
      proof (cases "10 \<in> set b")
        case True
        then obtain line rest where b: "b = line @ 10 # rest" "10 \<notin> set line" by (rule split_line)
        have "10 \<notin> set (a @ line)" using False b by simp
        from read_lines_line [OF this, of observed shut rest w] False long b show ?thesis
          by (simp add: read_lines_wait)
      qed (use False long in \<open>simp add: read_lines_wait\<close>)
    qed (use False in \<open>simp add: read_lines_wait\<close>)
  qed
qed

fun read_pieces ::
  "(string \<Rightarrow> 'w \<Rightarrow> bool \<times> 'w) \<Rightarrow> ('w \<Rightarrow> bool) \<Rightarrow> bytes list \<Rightarrow> read_end \<times> 'w \<Rightarrow> read_end \<times> 'w" where
  "read_pieces observed shut (p # ps) (Waits r, w) = read_pieces observed shut ps (read_lines observed shut (r @ p) w)"
| "read_pieces observed shut _ e = e"

lemma read_lines_waits:
  "read_lines observed shut input w = (Waits q, u) \<Longrightarrow> length q \<le> MAX_RECORD \<and> 10 \<notin> set q"
proof (induction "length input" arbitrary: input w rule: less_induct)
  case less
  show ?case
  proof (cases "10 \<in> set input")
    case True
    then obtain line rest where a: "input = line @ 10 # rest" "10 \<notin> set line" by (rule split_line)
    obtain raised v where o: "observed (map char_of line) w = (raised, v)" by fastforce
    have "length rest < length input" by (simp add: a(1))
    from less.hyps [OF this, of v] less.prems a show ?thesis
      by (simp add: read_lines_line o split: if_splits)
  next
    case False
    with less.prems show ?thesis by (simp add: read_lines_wait split: if_splits)
  qed
qed

lemma read_pieces_concat:
  assumes "length r \<le> MAX_RECORD" "10 \<notin> set r"
  shows "read_pieces observed shut ps (Waits r, w) = read_lines observed shut (r @ concat ps) w"
  using assms
proof (induction ps arbitrary: r w)
  case Nil
  then show ?case by (simp add: read_lines_wait)
next
  case (Cons p ps)
  obtain e u where e: "read_lines observed shut (r @ p) w = (e, u)" by fastforce
  have wait: "e = Waits q \<Longrightarrow> length q \<le> MAX_RECORD \<and> 10 \<notin> set q" for q
    using e read_lines_waits [of observed shut "r @ p" w q u] by simp
  have "read_lines observed shut ((r @ p) @ concat ps) w =
      (case (e, u) of (Waits q, u) \<Rightarrow> read_lines observed shut (q @ concat ps) u | other \<Rightarrow> other)"
    using read_lines_append [of observed shut "r @ p" "concat ps" w] unfolding e .
  then have whole: "read_lines observed shut (r @ concat (p # ps)) w =
      (case (e, u) of (Waits q, u) \<Rightarrow> read_lines observed shut (q @ concat ps) u | other \<Rightarrow> other)"
    by simp
  have first: "read_pieces observed shut (p # ps) (Waits r, w) = read_pieces observed shut ps (e, u)"
    by (simp only: read_pieces.simps e)
  show ?case
  proof (cases e)
    case (Waits q)
    have "read_pieces observed shut ps (Waits q, u) = read_lines observed shut (q @ concat ps) u"
      by (rule Cons.IH) (use wait Waits in auto)
    then show ?thesis unfolding whole first by (simp add: Waits)
  qed (simp_all only: whole first, simp_all)
qed

text \<open>The lines the scene observes do not depend on how the socket cuts the stream: reading any pieces one
  after the other ends in the same state, with the same bytes left over, as reading their
  concatenation at once (a too long line, a byte above 127 or a refused record included).\<close>
theorem channel_reading_piecewise:
  "read_pieces observed shut ps (Waits [], w) = read_lines observed shut (concat ps) w"
  using read_pieces_concat [of "[]"] by simp

end
