(* ===== verification/Clipboard.thy ===== *)
theory Clipboard
  imports Native_View Text_Adapter
begin

section \<open>The text selection exchange (desktop\_clipboard.py)\<close>

text \<open>
  \<open>NativeClipboard\<close> is one adapter of the input scheduler: \<open>commit\<close> publishes a confirmed text as the
  native selection, and a \<open>clipboard-published\<close> or \<open>clipboard-rejected\<close> record completes it. The other
  way, a \<open>clipboard-state\<close> record announces a selection, which is read in chunks of at most 1024
  bytes with one request outstanding, and reported by \<open>changed\<close>.

  The state holds the native scene it reads (\<open>cb_native\<close>), the records it sent and the selections it
  reported, oldest first. A token is an object; \<open>ck_identity\<close> numbers them, and a completion callback is
  the ticket the scheduler made it for.
\<close>

definition CLIP_LIMIT :: nat where "CLIP_LIMIT = 16000"

record clip_token =
  ck_identity :: nat
  ck_epoch :: int
  ck_target :: native_target

record reading =
  rd_revision :: int
  rd_token :: clip_token
  rd_size :: int
  rd_data :: bytes

record clip =
  cb_native :: native_view
  cb_sequence :: int
  cb_revision :: int
  cb_pending :: "(int \<times> clip_token \<times> nat) option"
  cb_reading :: "reading option"
  cb_request :: "(int \<times> int) option"
  cb_closed :: bool
  cb_tokens :: nat
  cb_sent :: "string list"
  cb_changed :: "(native_target \<times> int \<times> pystr option) list"

definition new_clip :: "native_view \<Rightarrow> clip" where
  "new_clip v = \<lparr>cb_native = v, cb_sequence = 0, cb_revision = 0, cb_pending = None, cb_reading = None,
     cb_request = None, cb_closed = False, cb_tokens = 0, cb_sent = [], cb_changed = []\<rparr>"

definition clip_token_for :: "native_target \<Rightarrow> clip \<Rightarrow> clip_token option \<times> clip" where
  "clip_token_for target s =
     (if \<not> cb_closed s \<and> \<not> nv_closed (cb_native s) \<and> nv_epoch (cb_native s) \<noteq> 0 \<and> nv_target (cb_native s) = Some target
      then (Some \<lparr>ck_identity = cb_tokens s, ck_epoch = nv_epoch (cb_native s), ck_target = target\<rparr>,
            s\<lparr>cb_tokens := cb_tokens s + 1\<rparr>)
      else (None, s))"

definition clip_valid :: "clip_token option \<Rightarrow> clip \<Rightarrow> bool" where
  "clip_valid tok s =
     (case tok of
        None \<Rightarrow> False
      | Some t \<Rightarrow> \<not> cb_closed s \<and> \<not> nv_closed (cb_native s) \<and>
          nv_target (cb_native s) = Some (ck_target t) \<and> nv_epoch (cb_native s) = ck_epoch t)"

text \<open>\<open>close\<close> and the callback it completes.\<close>

definition clip_close :: "clip \<Rightarrow> (nat \<times> code option) option \<times> clip" where
  "clip_close s =
     (map_option (\<lambda>(n, t, k). (k, Some CLIPBOARD_UNAVAILABLE)) (cb_pending s),
      s\<lparr>cb_closed := True, cb_reading := None, cb_request := None, cb_pending := None\<rparr>)"

definition clip_cancel :: "clip_token option \<Rightarrow> clip \<Rightarrow> clip" where
  "clip_cancel tok s =
     (case cb_pending s of
        Some (n, t, k) \<Rightarrow> if tok = Some t then s\<lparr>cb_pending := None\<rparr> else s
      | None \<Rightarrow> s)"

text \<open>The bytes \<open>commit\<close> publishes, or its \<open>CLIPBOARD_TEXT_INVALID\<close>.\<close>

definition clip_data :: "pyval \<Rightarrow> bytes option" where
  "clip_data v =
     (case v of
        PStr x \<Rightarrow>
          if 0 \<in> set x then None
          else (case utf8_encode x of None \<Rightarrow> None | Some b \<Rightarrow> if length b > CLIP_LIMIT then None else Some b)
      | _ \<Rightarrow> None)"

definition set_command :: "int \<Rightarrow> bytes \<Rightarrow> string" where
  "set_command n b = ''clipboard-set '' @ py_str n @ '' '' @ (if b = [] then ''-'' else to_hex b)"

text \<open>
  When the channel is lost inside \<open>submit\<close>, \<open>close\<close> has completed the callback before \<open>commit\<close> does so
  again; the second call finds the ticket gone and has no effect, so one completion is recorded.
\<close>

definition clip_commit :: "clip_token option \<Rightarrow> pyval \<Rightarrow> nat \<Rightarrow> clip \<Rightarrow> commit_outcome \<times> clip" where
  "clip_commit tok v k s =
     (case tok of
        None \<Rightarrow> (Completed (Some INPUT_TARGET_UNAVAILABLE), s)
      | Some t \<Rightarrow>
          if cb_pending s \<noteq> None \<or> \<not> clip_valid tok s then (Completed (Some INPUT_TARGET_UNAVAILABLE), s)
          else
            (case clip_data v of
               None \<Rightarrow> (Completed (Some CLIPBOARD_TEXT_INVALID), s)
             | Some b \<Rightarrow>
                 if cb_sequence s + 1 > MAX_ID then (Raised, s)
                 else
                   let n = cb_sequence s + 1;
                       record = submit_record (ck_epoch t) (ck_target t) (set_command n b);
                       s1 = s\<lparr>cb_sequence := n, cb_pending := Some (n, t, k)\<rparr>
                   in if \<not> submit_ok (ck_epoch t) (ck_target t) (cb_native s1)
                      then (Completed (Some CLIPBOARD_UNAVAILABLE), s1\<lparr>cb_pending := None\<rparr>)
                      else
                        (case channel_answer (cb_native s1) record of
                           Queued \<Rightarrow> (Deferred, s1\<lparr>cb_sent := cb_sent s1 @ [record]\<rparr>)
                         | Refused_send \<Rightarrow> (Completed (Some CLIPBOARD_UNAVAILABLE), s1\<lparr>cb_pending := None\<rparr>)
                         | Channel_lost \<Rightarrow> (Completed (Some CLIPBOARD_UNAVAILABLE), snd (clip_close s1)))))"

subsection \<open>Reading a selection\<close>

text \<open>
  \<open>observe\<close> answers whether it raised, the callback it completed, and the state. A record that raises
  makes the channel close, so \<open>lost\<close> and \<open>close\<close> follow (they may have run inside the \<open>send\<close> that
  raised; nothing runs in between).
\<close>

type_synonym clip_result = "bool \<times> (nat \<times> code option) option \<times> clip"

definition read_record :: "int \<Rightarrow> int \<Rightarrow> string" where
  "read_record revision offset = ''clipboard-read '' @ py_str revision @ '' '' @ py_str offset @ ''\<newline>''"

lemma read_record_queued:
  assumes "roomy v" "r \<in> {0..MAX_ID}" "n \<in> {0..MAX_ID}"
  shows "channel_answer v (read_record r n) = Queued"
  using assms length_py_str [of r] length_py_str [of n]
  by (intro channel_answer_Queued) (simp_all add: roomy_def read_record_def)

definition clip_pump :: "clip \<Rightarrow> clip_result" where
  "clip_pump s =
     (case (cb_reading s, cb_request s) of
        (Some r, None) \<Rightarrow>
          if cb_closed s then (False, None, s)
          else
            let off = int (length (rd_data r));
                s1 = s\<lparr>cb_request := Some (rd_revision r, off)\<rparr>
            in if channel_answer (cb_native s1) (read_record (rd_revision r) off) = Queued
               then (False, None, s1\<lparr>cb_sent := cb_sent s1 @ [read_record (rd_revision r) off]\<rparr>)
               else (True, None, s1)
      | _ \<Rightarrow> (False, None, s))"

definition clip_report :: "native_target \<Rightarrow> int \<Rightarrow> pystr option \<Rightarrow> clip \<Rightarrow> clip" where
  "clip_report target epoch x s = s\<lparr>cb_changed := cb_changed s @ [(target, epoch, x)]\<rparr>"

definition clip_published :: "string \<Rightarrow> string list \<Rightarrow> clip \<Rightarrow> clip_result" where
  "clip_published kind args s =
     (case args of
        [f] \<Rightarrow>
          (case field_int f 1 (cb_sequence s) of
             None \<Rightarrow> (True, None, s)
           | Some n \<Rightarrow>
               (case cb_pending s of
                  Some (m, t, k) \<Rightarrow>
                    if n = m then
                      (False,
                       Some (k, if \<not> clip_valid (Some t) s then Some INPUT_TARGET_UNAVAILABLE
                                else if kind = ''clipboard-published'' then None else Some CLIPBOARD_UNAVAILABLE),
                       s\<lparr>cb_pending := None\<rparr>)
                    else (False, None, s)
                | None \<Rightarrow> (False, None, s)))
      | _ \<Rightarrow> (True, None, s))"

definition state_fields :: "string list \<Rightarrow> (int \<times> int \<times> int \<times> int \<times> int) option" where
  "state_fields args =
     (case args of
        [a, b, c, d, e] \<Rightarrow>
          (case (field_int a 1 MAX_ID, field_int b 1 MAX_ID, field_int c 1 MAX_ID, field_int d 1 MAX_ID,
                 field_int e (- 1) (int CLIP_LIMIT)) of
             (Some revision, Some epoch, Some generation, Some window, Some extent) \<Rightarrow>
               Some (revision, epoch, generation, window, extent)
           | _ \<Rightarrow> None)
      | _ \<Rightarrow> None)"

definition clip_state :: "string list \<Rightarrow> clip \<Rightarrow> clip_result" where
  "clip_state args s =
     (case state_fields args of
        None \<Rightarrow> (True, None, s)
      | Some (revision, epoch, generation, window, extent) \<Rightarrow>
          if revision \<le> cb_revision s then (True, None, s)
          else
            let s1 = s\<lparr>cb_revision := revision, cb_reading := None\<rparr>
            in (case nv_target (cb_native s1) of
                  None \<Rightarrow> (False, None, s1)
                | Some target \<Rightarrow>
                    if epoch \<noteq> nv_epoch (cb_native s1) \<or> (tg_window target, tg_generation target) \<noteq> (window, generation)
                    then (False, None, s1)
                    else
                      (case clip_token_for target s1 of
                         (None, s2) \<Rightarrow> (False, None, s2)
                       | (Some t, s2) \<Rightarrow>
                           if extent \<le> 0
                           then (False, None, clip_report target epoch (if extent = 0 then Some [] else None) s2)
                           else clip_pump (s2\<lparr>cb_reading :=
                                  Some \<lparr>rd_revision = revision, rd_token = t, rd_size = extent, rd_data = []\<rparr>\<rparr>))))"

definition decoded_selection :: "bytes \<Rightarrow> pystr option" where
  "decoded_selection b =
     (case utf8_decode b of None \<Rightarrow> None | Some x \<Rightarrow> if 0 \<in> set x then None else Some x)"

text \<open>The data record for the reading it belongs to: \<open>None\<close> is the \<open>ValueError\<close> for a wrong extent.\<close>

definition clip_chunk :: "reading \<Rightarrow> int \<Rightarrow> string \<Rightarrow> clip \<Rightarrow> clip option" where
  "clip_chunk r offset word s =
     (let t = rd_token r
      in if \<not> clip_valid (Some t) s then Some (s\<lparr>cb_reading := None\<rparr>)
         else if word = ''-'' then Some (clip_report (ck_target t) (ck_epoch t) None (s\<lparr>cb_reading := None\<rparr>))
         else if offset \<noteq> int (length (rd_data r)) \<or> int (length word) \<noteq> 2 * min (int CHUNK) (rd_size r - offset)
         then None
         else
           (case from_hex word of
              None \<Rightarrow> None
            | Some b \<Rightarrow>
                let d = rd_data r @ b
                in if int (length d) = rd_size r
                   then Some (clip_report (ck_target t) (ck_epoch t) (decoded_selection d) (s\<lparr>cb_reading := None\<rparr>))
                   else Some (s\<lparr>cb_reading := Some (r\<lparr>rd_data := d\<rparr>)\<rparr>)))"

definition clip_data_record :: "string list \<Rightarrow> clip \<Rightarrow> clip_result" where
  "clip_data_record args s =
     (case args of
        [a, b, word] \<Rightarrow>
          (case (field_int a 1 MAX_ID, field_int b 0 (int CLIP_LIMIT)) of
             (Some revision, Some offset) \<Rightarrow>
               if cb_request s \<noteq> Some (revision, offset) \<or> \<not> chunk_word word then (True, None, s)
               else
                 let s1 = s\<lparr>cb_request := None\<rparr>
                 in (case cb_reading s1 of
                       None \<Rightarrow> clip_pump s1
                     | Some r \<Rightarrow>
                         if revision \<noteq> rd_revision r then clip_pump s1
                         else (case clip_chunk r offset word s1 of
                                 None \<Rightarrow> (True, None, s1)
                               | Some s2 \<Rightarrow> clip_pump s2))
           | _ \<Rightarrow> (True, None, s))
      | _ \<Rightarrow> (True, None, s))"

definition clip_observe :: "string list \<Rightarrow> clip \<Rightarrow> clip_result" where
  "clip_observe parts s =
     (if cb_closed s then (False, None, s)
      else
        case parts of
          [] \<Rightarrow> (True, None, s)
        | kind # args \<Rightarrow>
            if kind = ''clipboard-published'' \<or> kind = ''clipboard-rejected'' then clip_published kind args s
            else if kind = ''clipboard-state'' then clip_state args s
            else if kind = ''clipboard-data'' then clip_data_record args s
            else (True, None, s))"

definition clip_invalidate :: "clip \<Rightarrow> clip" where
  "clip_invalidate s = s\<lparr>cb_reading := None\<rparr>"

subsection \<open>The adapter's operations\<close>

text \<open>What can reach the adapter between two commits: a record, a change of the native scene, or \<open>lost\<close>.\<close>

datatype clip_input = Record "string list" | Scene native_view | Invalidated | Lost

definition clip_close_after :: "clip_result \<Rightarrow> (nat \<times> code option) option \<times> clip" where
  "clip_close_after r =
     (case r of
        (False, c, s) \<Rightarrow> (c, s)
      | (True, c, s) \<Rightarrow> (if c = None then fst (clip_close s) else c, snd (clip_close s)))"

primrec clip_event :: "clip_input \<Rightarrow> clip \<Rightarrow> (nat \<times> code option) option \<times> clip" where
  "clip_event (Record parts) s = clip_close_after (clip_observe parts s)"
| "clip_event (Scene v) s = (None, s\<lparr>cb_native := v\<rparr>)"
| "clip_event Invalidated s = (None, clip_invalidate s)"
| "clip_event Lost s = clip_close s"

text \<open>The scheduler takes a token when it admits the operation and commits with it.\<close>

definition clip_commit_op :: "native_target \<Rightarrow> pystr \<Rightarrow> nat \<Rightarrow> clip \<Rightarrow> commit_outcome \<times> clip" where
  "clip_commit_op target x k s = (case clip_token_for target s of (tok, s1) \<Rightarrow> clip_commit tok (PStr x) k s1)"

definition clip_cancel_op :: "native_target \<Rightarrow> clip \<Rightarrow> clip" where
  "clip_cancel_op target s =
     (case cb_pending s of
        Some (n, t, k) \<Rightarrow> if ck_target t = target then clip_cancel (Some t) s else s
      | None \<Rightarrow> s)"

definition clip_waiting :: "clip \<Rightarrow> nat option" where
  "clip_waiting s = map_option (\<lambda>(n, t, k). k) (cb_pending s)"

lemma clip_waiting_simps [simp]:
  "cb_pending s = None \<Longrightarrow> clip_waiting s = None"
  "cb_pending s = Some (n, t, k) \<Longrightarrow> clip_waiting s = Some k"
  by (simp_all add: clip_waiting_def)

lemma clip_report_simps [simp]:
  "cb_pending (clip_report t e x s) = cb_pending s" "cb_sequence (clip_report t e x s) = cb_sequence s"
  "cb_native (clip_report t e x s) = cb_native s" "cb_closed (clip_report t e x s) = cb_closed s"
  "cb_revision (clip_report t e x s) = cb_revision s" "cb_reading (clip_report t e x s) = cb_reading s"
  "cb_request (clip_report t e x s) = cb_request s"
  "cb_changed (clip_report t e x s) = cb_changed s @ [(t, e, x)]"
  by (simp_all add: clip_report_def)

lemma clip_token_for_fields:
  "clip_token_for target s = (tok, s1) \<Longrightarrow>
     cb_pending s1 = cb_pending s \<and> cb_sequence s1 = cb_sequence s \<and> cb_native s1 = cb_native s \<and>
     cb_closed s1 = cb_closed s \<and> cb_revision s1 = cb_revision s \<and> cb_reading s1 = cb_reading s \<and>
     cb_request s1 = cb_request s \<and> cb_changed s1 = cb_changed s \<and> cb_sent s1 = cb_sent s"
  by (auto simp: clip_token_for_def split: if_splits)

lemma clip_chunk_pending: "clip_chunk r off x s = Some u \<Longrightarrow> cb_pending u = cb_pending s"
  by (auto simp: clip_chunk_def Let_def split: if_splits option.splits)

lemma clip_pump_pending:
  "clip_pump s = (e, c, u) \<Longrightarrow>
     (c = None \<and> cb_pending u = cb_pending s) \<or> (c = fst (clip_close s) \<and> e \<and> cb_pending u = None)"
  by (auto simp: clip_pump_def clip_close_def Let_def split: option.splits if_splits channel_result.splits)

lemma clip_state_pending:
  "clip_state args s = (e, c, u) \<Longrightarrow>
     (c = None \<and> cb_pending u = cb_pending s) \<or> (c = fst (clip_close s) \<and> e \<and> cb_pending u = None)"
  using clip_pump_pending
  by (fastforce simp: clip_state_def clip_close_def Let_def dest: clip_token_for_fields
      split: option.splits if_splits prod.splits)

lemma clip_data_pending:
  "clip_data_record args s = (e, c, u) \<Longrightarrow>
     (c = None \<and> cb_pending u = cb_pending s) \<or> (c = fst (clip_close s) \<and> e \<and> cb_pending u = None)"
  using clip_pump_pending
  by (fastforce simp: clip_data_record_def clip_close_def Let_def dest: clip_chunk_pending
      split: list.splits option.splits if_splits)

lemma clip_close_facts [simp]:
  "cb_pending (snd (clip_close s)) = None"
  "fst (clip_close s) = Some (k, err) \<longleftrightarrow> clip_waiting s = Some k \<and> err = Some CLIPBOARD_UNAVAILABLE"
  by (auto simp: clip_close_def clip_waiting_def)

lemma clip_published_pending:
  "clip_published kind args s = (e, c, u) \<Longrightarrow>
     (c = None \<and> cb_pending u = cb_pending s) \<or>
     (\<exists>k err. c = Some (k, err) \<and> clip_waiting s = Some k \<and> cb_pending u = None \<and> \<not> e)"
  by (auto simp: clip_published_def clip_waiting_def split: list.splits option.splits if_splits)

lemma clip_observe_pending:
  "clip_observe parts s = (e, c, u) \<Longrightarrow>
     (c = None \<and> cb_pending u = cb_pending s) \<or>
     (\<exists>k err. c = Some (k, err) \<and> clip_waiting s = Some k \<and> cb_pending u = None) \<or>
     (c = fst (clip_close s) \<and> e \<and> cb_pending u = None)"
  by (fastforce simp: clip_observe_def split: list.splits if_splits
      dest: clip_published_pending clip_state_pending clip_data_pending)

lemma clip_event_waiting:
  "case fst (clip_event ev s) of
     None \<Rightarrow> clip_waiting (snd (clip_event ev s)) = clip_waiting s \<or> clip_waiting (snd (clip_event ev s)) = None
   | Some (k, err) \<Rightarrow> clip_waiting s = Some k \<and> clip_waiting (snd (clip_event ev s)) = None"
proof (cases ev)
  case (Record parts)
  obtain e c u where o: "clip_observe parts s = (e, c, u)" by (cases "clip_observe parts s") auto
  have "(case fst (clip_close u) of None \<Rightarrow> True | Some (k, err) \<Rightarrow> clip_waiting u = Some k)"
    by (simp split: option.split prod.split)
  then show ?thesis
    using clip_observe_pending [OF o] o Record
    by (cases e; cases "cb_pending s"; cases "cb_pending u")
      (auto simp: clip_close_after_def clip_waiting_def clip_close_def)
qed (auto simp: clip_close_def clip_waiting_def clip_invalidate_def split: option.splits)

lemma clip_commit_waiting:
  "case clip_commit tok v k s of
     (Completed err, t) \<Rightarrow> clip_waiting t = clip_waiting s
   | (Deferred, t) \<Rightarrow> clip_waiting s = None \<and> clip_waiting t = Some k
   | (Raised, t) \<Rightarrow> t = s"
  by (cases "cb_pending s") (auto simp: clip_commit_def clip_waiting_def clip_close_def Let_def split: option.splits channel_result.splits)

lemma clip_cancel_op_waiting: "clip_waiting (clip_cancel_op t s) = clip_waiting s \<or> clip_waiting (clip_cancel_op t s) = None"
  by (auto simp: clip_cancel_op_def clip_cancel_def split: option.splits)

interpretation selection: text_adapter clip_waiting clip_commit_op clip_cancel_op clip_event
proof
  fix t x k s
  obtain tok s1 where tk: "clip_token_for t s = (tok, s1)" by (cases "clip_token_for t s")
  have w1: "clip_waiting s1 = clip_waiting s"
    using clip_token_for_fields [OF tk] by (simp add: clip_waiting_def)
  note w = clip_commit_waiting [where tok = tok and v = "PStr x" and k = k and s = s1]
  show "fst (clip_commit_op t x k s) = Deferred \<Longrightarrow>
      clip_waiting s = None \<and> clip_waiting (snd (clip_commit_op t x k s)) = Some k"
    using w w1 by (auto simp: clip_commit_op_def tk split: prod.splits)
  show "fst (clip_commit_op t x k s) = Completed err \<Longrightarrow>
      clip_waiting (snd (clip_commit_op t x k s)) = clip_waiting s" for err
    using w w1 by (auto simp: clip_commit_op_def tk split: prod.splits)
  show "fst (clip_commit_op t x k s) = Raised \<Longrightarrow>
      clip_waiting (clip_cancel_op t (snd (clip_commit_op t x k s))) = clip_waiting s \<or>
      clip_waiting (clip_cancel_op t (snd (clip_commit_op t x k s))) = None"
    using w w1 clip_cancel_op_waiting [of t s1] by (auto simp: clip_commit_op_def tk split: prod.splits)
  show "clip_waiting (clip_cancel_op t s) = clip_waiting s \<or> clip_waiting (clip_cancel_op t s) = None"
    by (rule clip_cancel_op_waiting)
next
  fix ev s k err
  note w = clip_event_waiting [where ev = ev and s = s]
  show "fst (clip_event ev s) = Some (k, err) \<Longrightarrow> clip_waiting s = Some k \<and> clip_waiting (snd (clip_event ev s)) = None"
    using w by auto
  show "fst (clip_event ev s) = None \<Longrightarrow>
      clip_waiting (snd (clip_event ev s)) = clip_waiting s \<or> clip_waiting (snd (clip_event ev s)) = None"
    using w by auto
qed

subsection \<open>The reader's invariant\<close>

definition clip_inv :: "clip \<Rightarrow> bool" where
  "clip_inv s \<longleftrightarrow>
     0 \<le> cb_sequence s \<and> cb_sequence s \<le> MAX_ID \<and> 0 \<le> cb_revision s \<and>
     (\<forall>n t k. cb_pending s = Some (n, t, k) \<longrightarrow> 1 \<le> n \<and> n \<le> cb_sequence s) \<and>
     (\<forall>q off. cb_request s = Some (q, off) \<longrightarrow> q \<le> cb_revision s) \<and>
     (\<forall>r. cb_reading s = Some r \<longrightarrow>
        rd_revision r = cb_revision s \<and> int (length (rd_data r)) < rd_size r \<and> rd_size r \<le> int CLIP_LIMIT \<and>
        list_all (\<lambda>b. b < 256) (rd_data r) \<and>
        (\<forall>off. cb_request s = Some (rd_revision r, off) \<longrightarrow> off = int (length (rd_data r)))) \<and>
     (cb_closed s \<longrightarrow> cb_reading s = None \<and> cb_request s = None \<and> cb_pending s = None)"

text \<open>A selection being read has a request outstanding, its own or the one it waits for.\<close>

definition clip_flowing :: "clip \<Rightarrow> bool" where
  "clip_flowing s \<longleftrightarrow> (cb_reading s \<noteq> None \<longrightarrow> cb_request s \<noteq> None)"

lemma clip_inv_new [intro]: "clip_inv (new_clip v)"
  by (simp add: clip_inv_def new_clip_def MAX_ID_def)

lemma clip_inv_close: "clip_inv s \<Longrightarrow> clip_inv (snd (clip_close s))"
  by (simp add: clip_inv_def clip_close_def)

lemma clip_inv_pump: "clip_inv s \<Longrightarrow> clip_inv (snd (snd (clip_pump s)))"
  by (auto simp: clip_inv_def clip_pump_def clip_close_def Let_def split: option.splits channel_result.splits)

lemma clip_flowing_pump: "clip_inv s \<Longrightarrow> \<not> fst (clip_pump s) \<Longrightarrow> clip_flowing (snd (snd (clip_pump s)))"
  by (auto simp: clip_inv_def clip_flowing_def clip_pump_def clip_close_def Let_def
      split: option.splits channel_result.splits)

lemma clip_inv_published: "clip_inv s \<Longrightarrow> clip_inv (snd (snd (clip_published kind args s)))"
  by (auto simp: clip_inv_def clip_published_def split: list.splits option.splits)

lemma state_fields_bounds:
  "state_fields args = Some (revision, epoch, generation, window, extent) \<Longrightarrow>
     1 \<le> revision \<and> revision \<le> MAX_ID \<and> extent \<le> int CLIP_LIMIT"
  by (auto simp: state_fields_def dest!: field_int_bounds split: list.splits option.splits)

lemma clip_inv_state:
  assumes "clip_inv s" "\<not> cb_closed s"
  shows "clip_inv (snd (snd (clip_state args s))) \<and>
    (\<not> fst (clip_state args s) \<longrightarrow> clip_flowing (snd (snd (clip_state args s))))"
proof (cases "state_fields args")
  case None
  then show ?thesis using assms by (simp add: clip_state_def)
next
  case (Some x)
  obtain revision epoch generation window extent where x: "x = (revision, epoch, generation, window, extent)"
    by (cases x) auto
  show ?thesis
  proof (cases "revision \<le> cb_revision s")
    case True
    then show ?thesis using assms Some x by (simp add: clip_state_def)
  next
    case False
    define s1 where "s1 = s\<lparr>cb_revision := revision, cb_reading := None\<rparr>"
    have b: "1 \<le> revision" "extent \<le> int CLIP_LIMIT" using state_fields_bounds Some x by blast+
    have i1: "clip_inv s1" using assms False b by (fastforce simp: clip_inv_def s1_def)
    have f1: "clip_flowing s1" by (simp add: clip_flowing_def s1_def)
    show ?thesis
    proof (cases "nv_target (cb_native s)")
      case None
      with i1 f1 Some x False show ?thesis by (simp add: clip_state_def s1_def)
    next
      case (Some target)
      obtain tok s2 where tk: "clip_token_for target s1 = (tok, s2)" by (cases "clip_token_for target s1")
      have s2: "cb_reading s2 = None" "clip_inv s2" "clip_flowing s2"
        using clip_token_for_fields [OF tk] i1 by (simp_all add: clip_inv_def clip_flowing_def s1_def)
      have read: "clip_inv (s2\<lparr>cb_reading := Some \<lparr>rd_revision = revision, rd_token = t, rd_size = extent, rd_data = []\<rparr>\<rparr>)"
        if "0 < extent" for t
        using s2 clip_token_for_fields [OF tk] that b False assms
        by (fastforce simp: clip_inv_def s1_def)
      have report: "clip_inv (clip_report target e y s2)" "clip_flowing (clip_report target e y s2)" for e y
        using s2 by (simp_all add: clip_inv_def clip_flowing_def)
      have "clip_state args s =
        (if epoch \<noteq> nv_epoch (cb_native s) \<or> (tg_window target, tg_generation target) \<noteq> (window, generation)
         then (False, None, s1)
         else case tok of None \<Rightarrow> (False, None, s2)
           | Some t \<Rightarrow> if extent \<le> 0 then (False, None, clip_report target epoch (if extent = 0 then Some [] else None) s2)
               else clip_pump (s2\<lparr>cb_reading := Some \<lparr>rd_revision = revision, rd_token = t, rd_size = extent, rd_data = []\<rparr>\<rparr>))"
        using \<open>state_fields args = Some x\<close> x False Some tk
        by (cases tok) (simp_all add: clip_state_def Let_def s1_def)
      then show ?thesis
        using i1 f1 s2 report read clip_inv_pump clip_flowing_pump by (simp split: option.split)
    qed
  qed
qed

lemma clip_inv_chunk:
  assumes "clip_inv s" "cb_reading s = Some r" "cb_request s = None" "clip_chunk r off x s = Some u" "\<not> cb_closed s"
  shows "clip_inv u \<and> \<not> cb_closed u"
proof -
  have "\<And>b. from_hex x = Some b \<Longrightarrow> int (length x) = 2 * min (int CHUNK) (rd_size r - int (length (rd_data r))) \<Longrightarrow>
      int (length (rd_data r @ b)) \<le> rd_size r \<and> list_all (\<lambda>b. b < 256) b"
    using from_hex_length [of x] assms(1,2) by (fastforce simp: clip_inv_def)
  with assms show ?thesis
    by (auto simp: clip_chunk_def clip_inv_def Let_def split: if_splits option.splits)
qed

lemma clip_inv_data:
  assumes "clip_inv s" "\<not> cb_closed s" "clip_flowing s"
  shows "clip_inv (snd (snd (clip_data_record args s))) \<and>
    (\<not> fst (clip_data_record args s) \<longrightarrow> clip_flowing (snd (snd (clip_data_record args s))))"
proof -
  have i1: "clip_inv (s\<lparr>cb_request := None\<rparr>)" using assms(1) by (auto simp: clip_inv_def)
  note pump = clip_inv_pump clip_flowing_pump
  show ?thesis
    using assms pump [OF i1] i1 clip_inv_chunk [OF i1] pump
    by (auto simp: clip_data_record_def Let_def split: list.split option.split)
qed

lemma clip_inv_observe:
  assumes "clip_inv s" "clip_flowing s"
  shows "clip_inv (snd (snd (clip_observe parts s))) \<and>
    (\<not> fst (clip_observe parts s) \<longrightarrow> clip_flowing (snd (snd (clip_observe parts s))))"
proof -
  have "clip_flowing (snd (snd (clip_published kind args s)))" for kind args
    using assms(2) by (auto simp: clip_flowing_def clip_published_def split: list.splits option.splits)
  then show ?thesis
    using assms clip_inv_published [OF assms(1)] clip_inv_state [OF assms(1)] clip_inv_data [OF assms(1) _ assms(2)]
    by (simp add: clip_observe_def split: list.split)
qed

lemma clip_closed_flowing: "clip_inv s \<Longrightarrow> cb_closed s \<Longrightarrow> clip_flowing s"
  by (simp add: clip_inv_def clip_flowing_def)

lemma clip_inv_event:
  assumes "clip_inv s" "clip_flowing s"
  shows "clip_inv (snd (clip_event ev s)) \<and> clip_flowing (snd (clip_event ev s))"
proof (cases ev)
  case (Record parts)
  obtain e c u where o: "clip_observe parts s = (e, c, u)" by (cases "clip_observe parts s") auto
  have "clip_flowing (snd (clip_close u))" by (simp add: clip_flowing_def clip_close_def)
  then show ?thesis
    using clip_inv_observe [OF assms, of parts] clip_inv_close [of u] o Record
    by (cases e) (simp_all add: clip_close_after_def)
qed (use assms in \<open>auto simp: clip_inv_def clip_flowing_def clip_invalidate_def clip_close_def\<close>)

lemma clip_inv_commit:
  assumes "clip_inv s" "clip_flowing s"
  shows "clip_inv (snd (clip_commit tok v k s)) \<and> clip_flowing (snd (clip_commit tok v k s))"
  using assms
  by (auto simp: clip_commit_def clip_inv_def clip_flowing_def clip_close_def clip_valid_def Let_def
      split: option.splits channel_result.splits)

lemma clip_inv_token:
  assumes "clip_inv s" "clip_flowing s"
  shows "clip_inv (snd (clip_token_for t s)) \<and> clip_flowing (snd (clip_token_for t s))"
  using assms by (simp add: clip_token_for_def clip_inv_def clip_flowing_def)

lemma clip_inv_step:
  assumes "clip_inv s" "clip_flowing s"
  shows "clip_inv (snd (adapter_step clip_commit_op clip_cancel_op clip_event x s)) \<and>
    clip_flowing (snd (adapter_step clip_commit_op clip_cancel_op clip_event x s))"
proof (cases x)
  case (Commit t y k)
  have c: "clip_inv (snd (clip_commit_op t y k s)) \<and> clip_flowing (snd (clip_commit_op t y k s))"
    using clip_inv_token [OF assms, of t] clip_inv_commit
    by (cases "clip_token_for t s") (simp add: clip_commit_op_def)
  have cancel: "clip_inv (clip_cancel_op t u) \<and> clip_flowing (clip_cancel_op t u)"
    if "clip_inv u" "clip_flowing u" for u
    using that by (auto simp: clip_cancel_op_def clip_cancel_def clip_inv_def clip_flowing_def split: option.splits)
  obtain r u where ru: "clip_commit_op t y k s = (r, u)" by (cases "clip_commit_op t y k s")
  show ?thesis using c cancel Commit ru by (cases r) simp_all
next
  case (Cancel t)
  then show ?thesis using assms
    by (auto simp: clip_cancel_op_def clip_cancel_def clip_inv_def clip_flowing_def split: option.splits)
next
  case (Message ev)
  obtain r u where "clip_event ev s = (r, u)" by (cases "clip_event ev s")
  with clip_inv_event [OF assms, of ev] Message show ?thesis by (cases r) simp_all
qed

lemma clip_inv_run:
  assumes "clip_inv s" "clip_flowing s"
  shows "clip_inv (snd (adapter_run clip_commit_op clip_cancel_op clip_event ops s)) \<and>
    clip_flowing (snd (adapter_run clip_commit_op clip_cancel_op clip_event ops s))"
  using assms
proof (induction ops arbitrary: s)
  case (Cons x xs)
  show ?case using Cons.IH clip_inv_step [OF Cons.prems, of x] by (simp add: Let_def)
qed simp

subsection \<open>A selection is reassembled\<close>





subsection \<open>Properties\<close>


text \<open>The selection adapter calls each completion callback at most once, whatever commits,
  cancellations, records, scene changes and channel losses happen, in any order.\<close>
theorem clipboard_completes_once:
  assumes "distinct (concat (map op_tickets ops))"
  shows "distinct (map fst (fst (adapter_run clip_commit_op clip_cancel_op clip_event ops (new_clip v))))"
  using assms by (rule selection.run_at_most_once) (simp add: clip_waiting_def new_clip_def)

text \<open>Whatever happens, the reader keeps its bounds (a selection being read is shorter than its
  announced extent, itself at most 16000 bytes, and belongs to the newest revision) and never stalls:
  while a selection is being read, a request is outstanding.\<close>
theorem clipboard_reader_bounded:
  assumes "(r, s) = adapter_run clip_commit_op clip_cancel_op clip_event ops (new_clip v)"
    and "cb_reading s = Some x"
  shows "int (length (rd_data x)) < rd_size x \<and> rd_size x \<le> 16000 \<and> rd_revision x = cb_revision s \<and>
    cb_request s \<noteq> None \<and> \<not> cb_closed s"
proof -
  have "clip_flowing (new_clip v)" by (simp add: clip_flowing_def new_clip_def)
  from clip_inv_run [OF clip_inv_new this, of ops] assms have "clip_inv s" "clip_flowing s"
    by (metis snd_conv)+
  with assms(2) show ?thesis by (auto simp: clip_inv_def clip_flowing_def CLIP_LIMIT_def)
qed


lemma clipboard_completes_once_witness:
  "distinct (map fst (fst (adapter_run clip_commit_op clip_cancel_op clip_event
     [Commit \<lparr>tg_window = 7, tg_generation = 5\<rparr> [104] 0, Message Lost]
     (new_clip \<lparr>nv_closed = False, nv_epoch = 3, nv_target = Some \<lparr>tg_window = 7, tg_generation = 5\<rparr>, nv_open = True, nv_room = 1000\<rparr>))))"
  by (rule clipboard_completes_once) simp

lemma clipboard_reader_bounded_witness:
  "cb_request (snd (adapter_run clip_commit_op clip_cancel_op clip_event
     [Message (Record [''clipboard-state'', py_str 1, py_str 3, py_str 5, py_str 7, py_str 2])]
     (new_clip \<lparr>nv_closed = False, nv_epoch = 3, nv_target = Some \<lparr>tg_window = 7, tg_generation = 5\<rparr>, nv_open = True, nv_room = 1000\<rparr>))) \<noteq> None"
proof -
  let ?v = "\<lparr>nv_closed = False, nv_epoch = 3, nv_target = Some \<lparr>tg_window = 7, tg_generation = 5\<rparr>, nv_open = True, nv_room = 1000\<rparr>"
  have ints: "field_int (py_str 1) 1 MAX_ID = Some 1" "field_int (py_str 3) 1 MAX_ID = Some 3"
    "field_int (py_str 5) 1 MAX_ID = Some 5" "field_int (py_str 7) 1 MAX_ID = Some 7"
    "field_int (py_str 2) (- 1) (int CLIP_LIMIT) = Some 2"
    by (rule field_int_MAX_ID; simp add: MAX_ID_def CLIP_LIMIT_def)+
  have queued: "channel_answer ?v (read_record 1 0) = Queued"
    by (rule read_record_queued) (simp_all add: roomy_def MAX_ID_def)
  have "cb_reading (snd (adapter_run clip_commit_op clip_cancel_op clip_event
     [Message (Record [''clipboard-state'', py_str 1, py_str 3, py_str 5, py_str 7, py_str 2])] (new_clip ?v))) =
     Some \<lparr>rd_revision = 1, rd_token = \<lparr>ck_identity = 0, ck_epoch = 3, ck_target = \<lparr>tg_window = 7, tg_generation = 5\<rparr>\<rparr>,
       rd_size = 2, rd_data = []\<rparr>"
    using queued by (simp add: new_clip_def clip_close_after_def clip_observe_def clip_state_def state_fields_def ints
        clip_token_for_def clip_pump_def Let_def)
  from clipboard_reader_bounded [OF prod.collapse this] show ?thesis by blast
qed

end
