(* ===== verification/Wire.thy ===== *)
theory Wire
  imports Contract Json Utf8
begin

section \<open>The helper's transport (host\_desktop\_wire.py)\<close>

text \<open>
  Commands and results are JSON headers framed by a four-byte length, a result followed by its
  payload. \<open>Writer\<close> hands packets to a thread over a bounded queue, so a slow reader costs bounded
  memory and is reported once. A stream is the list of its bytes; \<open>source.read(n)\<close> of the buffered
  source is the next \<open>n\<close> bytes, fewer at the end of the stream.
\<close>

definition HEADER_LIMIT :: nat where "HEADER_LIMIT = 8388608"
definition PAYLOAD_LIMIT :: nat where "PAYLOAD_LIMIT = 67108864"

text \<open>\<open>struct.pack('!I', n)\<close> and \<open>unpack\<close>.\<close>

definition pack4 :: "nat \<Rightarrow> bytes" where
  "pack4 n = [n div 16777216 mod 256, n div 65536 mod 256, n div 256 mod 256, n mod 256]"

definition unpack4 :: "bytes \<Rightarrow> nat" where
  "unpack4 bs = foldl (\<lambda>a b. a * 256 + b) 0 bs"

lemma length_pack4 [simp]: "length (pack4 n) = 4"
  by (simp add: pack4_def)

lemma unpack4_pack4:
  assumes "n < 4294967296"
  shows "unpack4 (pack4 n) = n"
proof -
  define x y z where "x = n div 256" and "y = x div 256" and "z = y div 256"
  have d: "n div 65536 = y" "n div 16777216 = z"
    unfolding x_def y_def z_def using div_mult2_eq [of n 256 256] div_mult2_eq [of n "256 * 256" 256] by simp_all
  have parts: "n = x * 256 + n mod 256" "x = y * 256 + x mod 256" "y = z * 256 + y mod 256"
    unfolding x_def y_def z_def by simp_all
  then have "z < 256" using assms by linarith
  then have "unpack4 (pack4 n) = ((z * 256 + y mod 256) * 256 + x mod 256) * 256 + n mod 256"
    by (simp add: unpack4_def pack4_def d x_def [symmetric])
  with parts show ?thesis by presburger
qed

subsection \<open>Commands\<close>

definition read_bytes :: "nat \<Rightarrow> bytes \<Rightarrow> bytes \<times> bytes" where
  "read_bytes n s = (take n s, drop n s)"

definition command_ok :: "pyval \<Rightarrow> bool" where
  "command_ok v =
     (case v of
        PDict d \<Rightarrow> dict_get d ''version'' = PInt 1 \<and> integer (dict_get d ''id'') 1 max_id
      | _ \<Rightarrow> False)"

text \<open>\<open>read_command\<close>: \<open>Inr None\<close> is the end of the stream between two commands.\<close>

definition read_command :: "bytes \<Rightarrow> (code + pyval option) \<times> bytes" where
  "read_command source =
     (let (prefix, s1) = read_bytes 4 source
      in if prefix = [] then (Inr None, s1)
         else if length prefix \<noteq> 4 then (Inl PROTOCOL_INVALID, s1)
         else
           let size = unpack4 prefix
           in if \<not> (0 < size \<and> size \<le> HEADER_LIMIT) then (Inl PROTOCOL_INVALID, s1)
              else
                let (data, s2) = read_bytes size s1
                in if length data \<noteq> size then (Inl PROTOCOL_INVALID, s2)
                   else
                     (case Option.bind (utf8_decode data) json_loads of
                        None \<Rightarrow> (Inl PROTOCOL_INVALID, s2)
                      | Some v \<Rightarrow> (if command_ok v then Inr (Some v) else Inl PROTOCOL_INVALID, s2)))"

subsection \<open>Packets\<close>

text \<open>\<open>dict(message, key=value)\<close>: an existing key keeps its place.\<close>

fun dict_set :: "(pystr \<times> pyval) list \<Rightarrow> pystr \<Rightarrow> pyval \<Rightarrow> (pystr \<times> pyval) list" where
  "dict_set [] k v = [(k, v)]"
| "dict_set ((l, w) # d) k v = (if l = k then (k, v) # d else (l, w) # dict_set d k v)"

datatype packet_error = Refused code | Value_error

text \<open>\<open>Value_error\<close> is what \<open>json.dumps\<close> and \<open>str.encode\<close> raise.\<close>

definition packet :: "(rat \<Rightarrow> pystr) \<Rightarrow> (pystr \<times> pyval) list \<Rightarrow> bytes \<Rightarrow> packet_error + bytes" where
  "packet fr message data =
     (if length data > PAYLOAD_LIMIT then Inl (Refused PROTOCOL_INVALID)
      else
        let d = dict_set (dict_set message (py ''version'') (PInt 1)) (py ''bytes'') (PInt (int (length data)))
        in case Option.bind (json_dumps fr False (PDict d)) utf8_encode of
             None \<Rightarrow> Inl Value_error
           | Some header \<Rightarrow>
               if length header > HEADER_LIMIT then Inl (Refused PROTOCOL_INVALID)
               else Inr (pack4 (length header) @ header @ data))"

lemma dict_set_same [simp]: "map_of (dict_set d k v) l = (if l = k then Some v else map_of d l)"
  by (induction d k v rule: dict_set.induct) auto

lemma dict_set_keys: "set (map fst (dict_set d k v)) = insert k (set (map fst d))"
  by (induction d k v rule: dict_set.induct) auto

lemma dict_set_distinct: "distinct (map fst d) \<Longrightarrow> distinct (map fst (dict_set d k v))"
  using dict_set_keys by (induction d k v rule: dict_set.induct) (auto split: if_splits)

lemma dict_set_members: "m \<in> set (dict_set d k v) \<Longrightarrow> m \<in> set d \<or> m = (k, v)"
  by (induction d k v rule: dict_set.induct) (auto split: if_splits)

lemma plain_dict_set:
  assumes "plain_value (PDict d)" "list_all scalar k" "plain_value v"
  shows "plain_value (PDict (dict_set d k v))"
proof -
  have "list_all scalar (fst m) \<and> plain_value (snd m)" if "m \<in> set (dict_set d k v)" for m
    using dict_set_members [OF that] assms by auto
  with assms(1) dict_set_distinct show ?thesis by simp
qed

lemma plain_small_int: "n < 10 \<Longrightarrow> 0 \<le> n \<Longrightarrow> plain_value (PInt n)"
  by (simp add: int_digits_limit_def digits_rec [of "nat n"] nat_less_iff)

lemma json_value_nonempty: "plain_value v \<Longrightarrow> json_value fr ascii v \<noteq> []"
  by (rule json_value_head [of v fr ascii]) auto

lemma read_command_framed:
  assumes "0 < length header" "length header \<le> HEADER_LIMIT"
    "utf8_decode header = Some x" "json_loads x = Some v" "command_ok v"
  shows "read_command (pack4 (length header) @ header @ rest) = (Inr (Some v), rest)"
proof -
  have "length header < 4294967296" using assms(2) by (simp add: HEADER_LIMIT_def)
  then have size: "unpack4 (pack4 (length header)) = length header" by (rule unpack4_pack4)
  have "pack4 (length header) \<noteq> []" by (simp add: pack4_def)
  with assms size show ?thesis
    by (simp add: read_command_def read_bytes_def Let_def)
qed

subsection \<open>The writer\<close>

text \<open>
  The lock makes \<open>send\<close> and the accounting of \<open>_write\<close> atomic; the queue's own operations are not
  under it. A step is one such atomic action of the sender, the thread or the closer, so every
  interleaving is a sequence of steps. \<open>wr_accepted\<close> (the packets queued so far) is not in the code.
\<close>

datatype writer_thread = Waiting | Writing bytes bytes | Exited

datatype close_phase = Open | Emptying | Taking | Stopping | Full_emptying | Full_taking | Closed_ok | Close_raised

record writer =
  wr_queue :: "bytes option list"
  wr_pending :: int
  wr_closed :: bool
  wr_closing :: bool
  wr_thread :: writer_thread
  wr_phase :: close_phase
  wr_failed :: "code list"
  wr_output :: bytes
  wr_accepted :: "bytes list"

definition new_writer :: writer where
  "new_writer = \<lparr>wr_queue = [], wr_pending = 0, wr_closed = False, wr_closing = False,
     wr_thread = Waiting, wr_phase = Open, wr_failed = [], wr_output = [], wr_accepted = []\<rparr>"

definition writer_send :: "nat \<Rightarrow> int \<Rightarrow> bytes \<Rightarrow> writer \<Rightarrow> writer" where
  "writer_send capacity maximum value w =
     (if wr_closed w then w
      else if wr_pending w + int (length value) > maximum \<or> capacity \<le> length (wr_queue w)
      then w\<lparr>wr_closed := True, wr_failed := wr_failed w @ [TRANSPORT_BACKPRESSURE]\<rparr>
      else w\<lparr>wr_pending := wr_pending w + int (length value), wr_queue := wr_queue w @ [Some value],
             wr_accepted := wr_accepted w @ [value]\<rparr>)"

text \<open>\<open>queue.get()\<close> of the thread.\<close>

definition thread_get :: "writer \<Rightarrow> writer" where
  "thread_get w =
     (case (wr_thread w, wr_queue w) of
        (Waiting, None # q) \<Rightarrow> w\<lparr>wr_queue := q, wr_thread := Exited\<rparr>
      | (Waiting, Some v # q) \<Rightarrow> w\<lparr>wr_queue := q, wr_thread := Writing v v\<rparr>
      | _ \<Rightarrow> w)"

text \<open>\<open>os.write\<close> of the rest takes \<open>count\<close> bytes; the packet's accounting follows its last byte.\<close>

definition thread_write :: "nat \<Rightarrow> writer \<Rightarrow> writer" where
  "thread_write count w =
     (case wr_thread w of
        Writing v rest \<Rightarrow>
          if rest = [] then w\<lparr>wr_pending := wr_pending w - int (length v), wr_thread := Waiting\<rparr>
          else w\<lparr>wr_output := wr_output w @ take count rest, wr_thread := Writing v (drop count rest)\<rparr>
      | _ \<Rightarrow> w)"

definition thread_fail :: "writer \<Rightarrow> writer" where
  "thread_fail w =
     (case wr_thread w of
        Writing v rest \<Rightarrow>
          if wr_closed w then w\<lparr>wr_thread := Exited\<rparr>
          else w\<lparr>wr_closed := True, wr_thread := Exited, wr_failed := wr_failed w @ [TRANSPORT_CLOSED]\<rparr>
      | _ \<Rightarrow> w)"

definition close_start :: "bool \<Rightarrow> writer \<Rightarrow> writer" where
  "close_start drain w =
     (if wr_closing w then w
      else w\<lparr>wr_closing := True, wr_closed := True, wr_phase := (if drain then Stopping else Emptying)\<rparr>)"

text \<open>
  The rest of \<open>close\<close>, one queue operation at a time: \<open>empty()\<close>, \<open>get_nowait()\<close> (which raises on an
  empty queue), \<open>put(None, timeout)\<close>. Only \<open>put\<close> with a timeout can give up on a full queue.
\<close>

definition queue_length :: "bytes option \<Rightarrow> int" where
  "queue_length x = (case x of None \<Rightarrow> 0 | Some v \<Rightarrow> int (length v))"

definition close_next :: "nat \<Rightarrow> writer \<Rightarrow> writer" where
  "close_next capacity w =
     (case wr_phase w of
        Emptying \<Rightarrow> w\<lparr>wr_phase := (if wr_queue w = [] then Stopping else Taking)\<rparr>
      | Taking \<Rightarrow>
          (case wr_queue w of
             [] \<Rightarrow> w\<lparr>wr_phase := Close_raised\<rparr>
           | x # q \<Rightarrow> w\<lparr>wr_queue := q, wr_pending := wr_pending w - queue_length x, wr_phase := Emptying\<rparr>)
      | Stopping \<Rightarrow>
          if length (wr_queue w) < capacity
          then w\<lparr>wr_queue := wr_queue w @ [None], wr_phase := Closed_ok\<rparr>
          else w\<lparr>wr_phase := Full_emptying\<rparr>
      | Full_emptying \<Rightarrow>
          if wr_queue w = [] then w\<lparr>wr_queue := [None], wr_phase := Closed_ok\<rparr>
          else w\<lparr>wr_phase := Full_taking\<rparr>
      | Full_taking \<Rightarrow>
          (case wr_queue w of
             [] \<Rightarrow> w\<lparr>wr_phase := Close_raised\<rparr>
           | x # q \<Rightarrow> w\<lparr>wr_queue := q, wr_phase := Full_emptying\<rparr>)
      | _ \<Rightarrow> w)"

inductive writer_step :: "nat \<Rightarrow> int \<Rightarrow> writer \<Rightarrow> writer \<Rightarrow> bool" for capacity maximum where
  ws_send: "writer_step capacity maximum w (writer_send capacity maximum v w)"
| ws_get: "writer_step capacity maximum w (thread_get w)"
| ws_write: "0 < count \<Longrightarrow> writer_step capacity maximum w (thread_write count w)"
| ws_fail: "writer_step capacity maximum w (thread_fail w)"
| ws_close: "writer_step capacity maximum w (close_start drain w)"
| ws_next: "writer_step capacity maximum w (close_next capacity w)"

inductive writer_reachable :: "nat \<Rightarrow> int \<Rightarrow> writer \<Rightarrow> bool" for capacity maximum where
  wr_new: "writer_reachable capacity maximum new_writer"
| wr_step: "writer_reachable capacity maximum w \<Longrightarrow> writer_step capacity maximum w u \<Longrightarrow>
    writer_reachable capacity maximum u"


subsection \<open>Invariants of the writer\<close>

definition in_flight :: "writer \<Rightarrow> int" where
  "in_flight w = (case wr_thread w of Writing v rest \<Rightarrow> int (length v) | _ \<Rightarrow> 0)"

definition queued_values :: "writer \<Rightarrow> bytes list" where
  "queued_values w = concat (map (\<lambda>x. case x of None \<Rightarrow> [] | Some v \<Rightarrow> [v]) (wr_queue w))"

definition held_bytes :: "writer \<Rightarrow> int" where
  "held_bytes w = sum_list (map queue_length (wr_queue w)) + in_flight w"

definition writer_ok :: "nat \<Rightarrow> int \<Rightarrow> writer \<Rightarrow> bool" where
  "writer_ok capacity maximum w \<longleftrightarrow>
     held_bytes w \<le> maximum \<and> length (wr_queue w) \<le> capacity \<and> length (wr_failed w) \<le> 1 \<and>
     (wr_closing w \<longrightarrow> wr_closed w) \<and> (wr_phase w = Open \<longleftrightarrow> \<not> wr_closing w) \<and>
     (\<not> wr_closed w \<longrightarrow> wr_failed w = [] \<and> wr_pending w = held_bytes w)"

text \<open>What has been written: whole accepted packets in order, the last perhaps in part.\<close>

definition written :: "writer \<Rightarrow> bytes list \<Rightarrow> bytes \<Rightarrow> bool" where
  "written w packets rest \<longleftrightarrow>
     wr_output w @ rest = concat packets \<and>
     subseq (packets @ queued_values w) (wr_accepted w) \<and>
     (wr_phase w = Open \<longrightarrow> packets @ queued_values w = wr_accepted w) \<and>
     (wr_thread w = Waiting \<longrightarrow> rest = []) \<and>
     (\<forall>v r. wr_thread w = Writing v r \<longrightarrow> rest = r)"

lemma queue_length_nonneg [simp]: "0 \<le> queue_length x"
  by (simp add: queue_length_def split: option.split)

lemma in_flight_simps [simp]:
  "wr_thread w = Waiting \<Longrightarrow> in_flight w = 0"
  "wr_thread w = Exited \<Longrightarrow> in_flight w = 0"
  "wr_thread w = Writing v r \<Longrightarrow> in_flight w = int (length v)"
  by (simp_all add: in_flight_def)

lemma writer_ok_send: "writer_ok c m w \<Longrightarrow> writer_ok c m (writer_send c m v w)"
  by (auto simp: writer_send_def writer_ok_def held_bytes_def in_flight_def queue_length_def)

lemma writer_ok_get: "writer_ok c m w \<Longrightarrow> writer_ok c m (thread_get w)"
  by (auto simp: thread_get_def writer_ok_def held_bytes_def in_flight_def queue_length_def
      split: writer_thread.split list.split option.split)

lemma writer_ok_write: "writer_ok c m w \<Longrightarrow> writer_ok c m (thread_write k w)"
  by (auto simp: thread_write_def writer_ok_def held_bytes_def in_flight_def split: writer_thread.split)

lemma writer_ok_fail: "writer_ok c m w \<Longrightarrow> writer_ok c m (thread_fail w)"
  by (auto simp: thread_fail_def writer_ok_def held_bytes_def in_flight_def split: writer_thread.split)

lemma writer_ok_close: "writer_ok c m w \<Longrightarrow> writer_ok c m (close_start d w)"
  by (auto simp: close_start_def writer_ok_def held_bytes_def in_flight_def)

lemma writer_ok_next:
  assumes "writer_ok c m w" "0 < c"
  shows "writer_ok c m (close_next c w)"
proof (cases "wr_phase w")
  case Taking
  with assms show ?thesis
    by (cases "wr_queue w")
      (auto simp: close_next_def writer_ok_def held_bytes_def in_flight_def intro: order_trans [rotated])
next
  case Full_taking
  with assms show ?thesis
    by (cases "wr_queue w")
      (auto simp: close_next_def writer_ok_def held_bytes_def in_flight_def intro: order_trans [rotated])
qed (use assms in \<open>auto simp: close_next_def writer_ok_def held_bytes_def in_flight_def queue_length_def\<close>)

lemma writer_reachable_ok:
  "writer_reachable c m w \<Longrightarrow> 0 < c \<Longrightarrow> 0 \<le> m \<Longrightarrow> writer_ok c m w"
proof (induction rule: writer_reachable.induct)
  case wr_new
  then show ?case by (simp add: writer_ok_def new_writer_def held_bytes_def in_flight_def)
next
  case (wr_step w u)
  from wr_step(2) show ?case
    by cases (use wr_step in \<open>simp_all add: writer_ok_send writer_ok_get writer_ok_write writer_ok_fail
        writer_ok_close writer_ok_next\<close>)
qed

lemma written_send:
  assumes "written w ps r" shows "written (writer_send c m v w) ps r"
proof -
  have "subseq (ps @ queued_values w @ [v]) (wr_accepted w @ [v])"
    using assms list_emb_append_mono [of "(=)" "ps @ queued_values w" "wr_accepted w" "[v]" "[v]"]
    by (simp add: written_def)
  with assms show ?thesis by (auto simp: writer_send_def written_def queued_values_def)
qed

lemma written_get:
  assumes "written w ps r"
  shows "\<exists>ps' r'. written (thread_get w) ps' r'"
proof (cases "wr_thread w")
  case Waiting
  then have r: "r = []" using assms by (simp add: written_def)
  show ?thesis
  proof (cases "wr_queue w")
    case Nil
    with Waiting assms show ?thesis by (auto simp: thread_get_def)
  next
    case (Cons x q)
    show ?thesis
    proof (cases x)
      case None
      with Waiting Cons assms r have "written (thread_get w) ps []"
        by (auto simp: thread_get_def written_def queued_values_def)
      then show ?thesis by blast
    next
      case (Some v)
      with Waiting Cons assms r have "written (thread_get w) (ps @ [v]) v"
        by (simp add: thread_get_def written_def queued_values_def)
      then show ?thesis by blast
    qed
  qed
qed (use assms in \<open>auto simp: thread_get_def\<close>)

lemma written_write:
  assumes "written w ps r" "0 < k"
  shows "\<exists>ps' r'. written (thread_write k w) ps' r'"
proof (cases "wr_thread w")
  case (Writing v rest)
  show ?thesis
  proof (cases "rest = []")
    case True
    with Writing assms have "written (thread_write k w) ps []"
      by (auto simp: thread_write_def written_def queued_values_def)
    then show ?thesis by blast
  next
    case False
    with Writing assms have "written (thread_write k w) ps (drop k rest)"
      by (auto simp: thread_write_def written_def queued_values_def)
    then show ?thesis by blast
  qed
qed (use assms in \<open>auto simp: thread_write_def\<close>)

lemma subseq_drop_one: "subseq (ps @ x # q) a \<Longrightarrow> subseq (ps @ q) a"
  by (rule subseq_order.trans [of _ "ps @ x # q"]) (simp_all add: list_emb_append_mono list_emb_Cons)

lemma written_next:
  assumes "written w ps r"
  shows "written (close_next c w) ps r"
proof (cases "wr_phase w")
  case Taking
  with assms show ?thesis
    by (cases "wr_queue w")
      (auto simp: close_next_def written_def queued_values_def split: option.splits dest: subseq_drop_one)
next
  case Full_taking
  with assms show ?thesis
    by (cases "wr_queue w")
      (auto simp: close_next_def written_def queued_values_def split: option.splits dest: subseq_drop_one)
qed (use assms in \<open>auto simp: close_next_def written_def queued_values_def\<close>)

lemma writer_reachable_written:
  "writer_reachable c m w \<Longrightarrow> \<exists>ps r. written w ps r"
proof (induction rule: writer_reachable.induct)
  case wr_new
  have "written new_writer [] []" by (simp add: written_def new_writer_def queued_values_def)
  then show ?case by blast
next
  case (wr_step w u)
  then obtain ps r where w: "written w ps r" by blast
  from wr_step(2) show ?case
  proof cases
    case (ws_send v)
    then show ?thesis using written_send [OF w] by blast
  next
    case ws_get
    then show ?thesis using written_get [OF w] by blast
  next
    case (ws_write count)
    then show ?thesis using written_write [OF w] by blast
  next
    case ws_fail
    with w have "written u ps r"
      by (auto simp: thread_fail_def written_def queued_values_def split: writer_thread.split)
    then show ?thesis by blast
  next
    case (ws_close drain)
    with w have "written u ps r" by (auto simp: close_start_def written_def queued_values_def)
    then show ?thesis by blast
  next
    case ws_next
    then show ?thesis using written_next [OF w] by blast
  qed
qed

subsection \<open>Properties\<close>

text \<open>A command survives the wire: the packet of a message with a valid id, read back by
  \<open>read_command\<close>, is that message with its version and payload length set, and reading stops exactly
  at the packet's end, whatever follows.\<close>
theorem command_round_trip:
  assumes "packet fr message [] = Inr p" "plain_value (PDict message)"
    "integer (dict_get message ''id'') 1 max_id"
  shows "read_command (p @ rest) =
    (Inr (Some (PDict (dict_set (dict_set message (py ''version'') (PInt 1)) (py ''bytes'') (PInt 0)))), rest)"
proof -
  define d where "d = dict_set (dict_set message (py ''version'') (PInt 1)) (py ''bytes'') (PInt 0)"
  have "plain_value (PInt 1)" "plain_value (PInt 0)" by (rule plain_small_int; simp)+
  then have plain: "plain_value (PDict d)"
    unfolding d_def by (intro plain_dict_set assms(2)) (simp_all add: py_def scalar_def surrogate_def)
  have ok: "command_ok (PDict d)"
    using assms(3) by (simp add: command_ok_def dict_get_def d_def)
  from assms(1) obtain header where h: "utf8_encode (json_value fr False (PDict d)) = Some header"
    "length header \<le> HEADER_LIMIT" "p = pack4 (length header) @ header"
    using plain_dumpable [OF plain]
    by (auto simp: packet_def json_dumps_def d_def Let_def split: option.splits if_splits)
  have "header \<noteq> []"
    using h(1) json_value_nonempty [OF plain] utf8_char_nonempty
    by (cases "json_value fr False (PDict d)") (auto simp: utf8_encode_Some_iff)
  then have "read_command (pack4 (length header) @ header @ rest) = (Inr (Some (PDict d)), rest)"
    using read_command_framed [OF _ h(2) utf8_decode_encode [OF h(1)] loads_dumps [OF plain] ok] by simp
  then show ?thesis by (simp add: h(3) d_def)
qed

text \<open>Whatever the sender, the writing thread and the closer do, in any interleaving, the bytes held
  for a slow reader never exceed the writer's maximum nor the records its capacity, a failure is
  reported at most once, and the accounting is exact while the writer is open.\<close>
theorem writer_bounded:
  assumes "writer_reachable capacity maximum w" "0 < capacity" "0 \<le> maximum"
  shows "held_bytes w \<le> maximum \<and> length (wr_queue w) \<le> capacity \<and> length (wr_failed w) \<le> 1 \<and>
    (wr_closed w \<or> wr_pending w = held_bytes w)"
  using writer_reachable_ok [OF assms] by (auto simp: writer_ok_def)

text \<open>The bytes written are whole packets the writer accepted, in the order it accepted them, the last
  perhaps in part; until \<open>close\<close> none is missing.\<close>
theorem writer_stream_in_order:
  assumes "writer_reachable capacity maximum w"
  shows "\<exists>packets rest. wr_output w @ rest = concat packets \<and> subseq packets (wr_accepted w) \<and>
    (wr_phase w = Open \<longrightarrow> prefix packets (wr_accepted w))"
proof -
  obtain ps r where w: "written w ps r" using writer_reachable_written [OF assms] by blast
  have "subseq ps (ps @ queued_values w)" by (rule list_emb_prefix) simp
  then have "subseq ps (wr_accepted w)" using w subseq_order.trans by (auto simp: written_def)
  moreover have "wr_phase w = Open \<longrightarrow> prefix ps (wr_accepted w)" using w by (metis prefixI written_def)
  ultimately show ?thesis using w by (auto simp: written_def)
qed

text \<open>Closing without draining can fail: between \<open>queue.empty()\<close> and \<open>get_nowait()\<close> the thread can
  take the last packet, so \<open>close\<close> raises with the writer marked closing and no stop record queued,
  and the thread waits for good (a later \<open>close\<close> returns at once).\<close>
theorem writer_close_can_raise:
  "\<exists>w. writer_reachable 8 100 w \<and> wr_phase w = Close_raised \<and> wr_queue w = [] \<and> wr_thread w = Waiting \<and>
     (\<forall>v. writer_send 8 100 v w = w) \<and> (\<forall>drain. close_start drain w = w) \<and> close_next 8 w = w \<and> thread_get w = w"
proof -
  let ?w = "\<lambda>q p t ph out. \<lparr>wr_queue = q, wr_pending = p, wr_closed = True, wr_closing = True,
     wr_thread = t, wr_phase = ph, wr_failed = [], wr_output = out, wr_accepted = [[1]]\<rparr>"
  have "writer_reachable 8 100 (writer_send 8 100 [1] new_writer)" by (rule wr_step [OF wr_new ws_send])
  from wr_step [OF this ws_close [where drain = False]] have "writer_reachable 8 100 (?w [Some [1]] 1 Waiting Emptying [])"
    by (simp add: writer_send_def new_writer_def close_start_def)
  from wr_step [OF this ws_next] have "writer_reachable 8 100 (?w [Some [1]] 1 Waiting Taking [])"
    by (simp add: close_next_def)
  from wr_step [OF this ws_get] have "writer_reachable 8 100 (?w [] 1 (Writing [1] [1]) Taking [])"
    by (simp add: thread_get_def)
  from wr_step [OF this ws_next] have "writer_reachable 8 100 (?w [] 1 (Writing [1] [1]) Close_raised [])"
    by (simp add: close_next_def)
  from wr_step [OF this ws_write [of 1]] have "writer_reachable 8 100 (?w [] 1 (Writing [1] []) Close_raised [1])"
    by (simp add: thread_write_def)
  from wr_step [OF this ws_write [of 1]] have "writer_reachable 8 100 (?w [] 0 Waiting Close_raised [1])"
    by (simp add: thread_write_def)
  then show ?thesis
    by (intro exI [of _ "?w [] 0 Waiting Close_raised [1]"])
      (simp add: writer_send_def close_start_def close_next_def thread_get_def)
qed

lemma writer_bounded_witness:
  "held_bytes (writer_send 2 10 [1, 2, 3] new_writer) \<le> 10"
  using writer_bounded [OF wr_step [OF wr_new ws_send], of 2 10 "[1, 2, 3]"] by simp

lemma writer_stream_in_order_witness:
  "\<exists>packets rest. wr_output new_writer @ rest = concat packets \<and> subseq packets (wr_accepted new_writer)"
  using writer_stream_in_order [OF wr_new] by blast

lemma command_round_trip_witness:
  "\<exists>p. packet (\<lambda>_. []) [(py ''id'', PInt 7)] [] = Inr p \<and>
     read_command p = (Inr (Some (PDict [(py ''id'', PInt 7), (py ''version'', PInt 1), (py ''bytes'', PInt 0)])), [])"
proof -
  have p: "packet (\<lambda>_. []) [(py ''id'', PInt 7)] [] =
      Inr (pack4 (length ''{\"id\":7,\"version\":1,\"bytes\":0}'') @ py ''{\"id\":7,\"version\":1,\"bytes\":0}'')"
    by (simp add: packet_def json_dumps_def json_string_def escape_char_def py_def int_text_def
        digits_rec utf8_encode_def utf8_char_def scalar_def surrogate_def int_digits_limit_def
        PAYLOAD_LIMIT_def HEADER_LIMIT_def)
  have "plain_value (PDict [(py ''id'', PInt 7)])" "integer (dict_get [(py ''id'', PInt 7)] ''id'') 1 max_id"
    using plain_small_int [of 7] by (simp_all add: py_def scalar_def surrogate_def dict_get_def max_id_def)
  from command_round_trip [OF p this, of "[]"] p show ?thesis by simp
qed

end
