(* ===== verification/Cursor.thy ===== *)
theory Cursor
  imports Native_View Wire
begin

section \<open>The native cursor (desktop\_cursor.py)\<close>

text \<open>
  The latest cursor image is pulled in chunks of straight RGBA bytes and framed as PNG for the
  target it belongs to. \<open>zlib.compress\<close> is the parameter \<open>compress\<close>; \<open>zlib.crc32\<close> is the CRC the PNG
  standard names. \<open>cu_changes\<close> counts the calls of \<open>changed\<close>, whose receiver reads \<open>cu_current\<close>.
\<close>

definition CURSOR_LIMIT :: int where "CURSOR_LIMIT = 1024"

subsection \<open>PNG framing\<close>

fun crc_bits :: "nat \<Rightarrow> nat \<Rightarrow> nat" where
  "crc_bits 0 c = c"
| "crc_bits (Suc k) c = crc_bits k (if odd c then xor 3988292384 (c div 2) else c div 2)"

definition crc32 :: "bytes \<Rightarrow> nat" where
  "crc32 bs = xor 4294967295 (foldl (\<lambda>c b. crc_bits 8 (xor c b)) 4294967295 bs)"

definition png_chunk :: "bytes \<Rightarrow> bytes \<Rightarrow> bytes" where
  "png_chunk kind data = pack4 (length data) @ kind @ data @ pack4 (crc32 (kind @ data))"

text \<open>The filter byte 0 before every row.\<close>

function png_rows :: "nat \<Rightarrow> bytes \<Rightarrow> bytes" where
  "png_rows stride pixels =
     (if stride = 0 \<or> pixels = [] then [] else 0 # take stride pixels @ png_rows stride (drop stride pixels))"
  by pat_completeness auto
termination
  by (relation "measure (\<lambda>(stride, pixels). length pixels)") auto

declare png_rows.simps [simp del]

definition png_signature :: bytes where "png_signature = [137, 80, 78, 71, 13, 10, 26, 10]"

definition rgba_png :: "(bytes \<Rightarrow> bytes) \<Rightarrow> nat \<Rightarrow> nat \<Rightarrow> bytes \<Rightarrow> bytes" where
  "rgba_png compress width height pixels =
     png_signature @
     png_chunk (py ''IHDR'') (pack4 width @ pack4 height @ [8, 6, 0, 0, 0]) @
     png_chunk (py ''IDAT'') (compress (png_rows (width * 4) pixels)) @
     png_chunk (py ''IEND'') []"

text \<open>A reader of such a file, which checks every length and CRC.\<close>

definition read_chunk :: "bytes \<Rightarrow> ((bytes \<times> bytes) \<times> bytes) option" where
  "read_chunk s =
     (let n = unpack4 (take 4 s); kind = take 4 (drop 4 s); data = take n (drop 8 s)
      in if length s < n + 12 \<or> take 4 (drop (n + 8) s) \<noteq> pack4 (crc32 (kind @ data)) then None
         else Some ((kind, data), drop (n + 12) s))"

function png_unfilter :: "nat \<Rightarrow> bytes \<Rightarrow> bytes option" where
  "png_unfilter stride rows =
     (if rows = [] then Some []
      else if hd rows \<noteq> 0 \<or> length rows < stride + 1 then None
      else map_option (\<lambda>r. take stride (tl rows) @ r) (png_unfilter stride (drop stride (tl rows))))"
  by pat_completeness auto
termination
  by (relation "measure (\<lambda>(stride, rows). length rows)") (auto simp: neq_Nil_conv)

declare png_unfilter.simps [simp del]

definition png_read :: "(bytes \<Rightarrow> bytes option) \<Rightarrow> bytes \<Rightarrow> (nat \<times> nat \<times> bytes) option" where
  "png_read decompress s =
     (if take 8 s \<noteq> png_signature then None
      else
        case read_chunk (drop 8 s) of
          None \<Rightarrow> None
        | Some ((k1, header), s1) \<Rightarrow>
            (case read_chunk s1 of
               None \<Rightarrow> None
             | Some ((k2, data), s2) \<Rightarrow>
                 if k1 \<noteq> py ''IHDR'' \<or> k2 \<noteq> py ''IDAT'' \<or> length header \<noteq> 13 \<or> drop 8 header \<noteq> [8, 6, 0, 0, 0] \<or>
                    read_chunk s2 \<noteq> Some ((py ''IEND'', []), [])
                 then None
                 else
                   let width = unpack4 (take 4 header); height = unpack4 (take 4 (drop 4 header))
                   in (case Option.bind (decompress data) (png_unfilter (width * 4)) of
                         None \<Rightarrow> None
                       | Some pixels \<Rightarrow> if length pixels = width * 4 * height then Some (width, height, pixels) else None)))"

lemma read_chunk_framed:
  assumes "length kind = 4" "length data < 4294967296"
  shows "read_chunk (png_chunk kind data @ rest) = Some ((kind, data), rest)"
  using assms by (simp add: read_chunk_def png_chunk_def Let_def unpack4_pack4)

lemma png_unfilter_rows:
  assumes "0 < stride" "length pixels = stride * n"
  shows "png_unfilter stride (png_rows stride pixels) = Some pixels"
  using assms(2)
proof (induction n arbitrary: pixels)
  case 0
  then show ?case by (simp add: png_rows.simps png_unfilter.simps)
next
  case (Suc n)
  then have "png_unfilter stride (png_rows stride (drop stride pixels)) = Some (drop stride pixels)"
    by (intro Suc.IH) simp
  moreover have "pixels \<noteq> []" "stride \<le> length pixels" using assms(1) Suc.prems by auto
  ultimately show ?case
    using assms(1) by (subst png_rows.simps, subst png_unfilter.simps) simp
qed

lemma png_read_rgba:
  assumes "decompress (compress (png_rows (width * 4) pixels)) = Some (png_rows (width * 4) pixels)"
    and "length (compress (png_rows (width * 4) pixels)) < 4294967296"
    and "0 < width" "width < 4294967296" "height < 4294967296" "length pixels = width * height * 4"
  shows "png_read decompress (rgba_png compress width height pixels) = Some (width, height, pixels)"
proof -
  have "png_unfilter (width * 4) (png_rows (width * 4) pixels) = Some pixels"
    by (rule png_unfilter_rows [where n = height]) (use assms in \<open>simp_all add: algebra_simps\<close>)
  moreover have "length (py k) = length k" for k by (simp add: py_def)
  ultimately show ?thesis
    using assms read_chunk_framed [of "py ''IEND''" "[]" "[]"]
    by (simp add: png_read_def rgba_png_def read_chunk_framed png_signature_def unpack4_pack4 Let_def)
qed

subsection \<open>The cursor's state\<close>

record cursor_image =
  ci_width :: int
  ci_height :: int
  ci_logical_width :: int
  ci_logical_height :: int
  ci_xhot :: rat
  ci_yhot :: rat

record cursor_description =
  cd_sequence :: int
  cd_generation :: int
  cd_window :: int
  cd_mode :: string
  cd_image :: "cursor_image option"

record pending_cursor =
  pc_target :: native_target
  pc_description :: cursor_description
  pc_image :: cursor_image
  pc_data :: bytes

record cursor =
  cu_native :: native_view
  cu_revision :: int
  cu_current :: "(cursor_description \<times> bytes option) option"
  cu_pending :: "pending_cursor option"
  cu_request :: "(int \<times> int) option"
  cu_closed :: bool
  cu_sent :: "string list"
  cu_changes :: nat

definition new_cursor :: "native_view \<Rightarrow> cursor" where
  "new_cursor v = \<lparr>cu_native = v, cu_revision = 0, cu_current = None, cu_pending = None, cu_request = None,
     cu_closed = False, cu_sent = [], cu_changes = 0\<rparr>"

text \<open>The \<open>target\<close> and \<open>connection\<close> callbacks of \<open>NativeDesktop\<close>.\<close>

definition cu_target :: "cursor \<Rightarrow> native_target option" where
  "cu_target s = (if nv_epoch (cu_native s) \<noteq> 0 then nv_target (cu_native s) else None)"

definition cu_notify :: "cursor \<Rightarrow> cursor" where
  "cu_notify s = s\<lparr>cu_changes := cu_changes s + 1\<rparr>"

definition cu_invalidate :: "cursor \<Rightarrow> cursor" where
  "cu_invalidate s = cu_notify (s\<lparr>cu_pending := None, cu_current := None\<rparr>)"

definition cu_close :: "cursor \<Rightarrow> cursor" where
  "cu_close s = cu_invalidate (s\<lparr>cu_closed := True, cu_request := None\<rparr>)"

definition cursor_read_record :: "int \<Rightarrow> int \<Rightarrow> string" where
  "cursor_read_record revision offset = ''cursor-read '' @ py_str revision @ '' '' @ py_str offset @ ''\<newline>''"

text \<open>As for the clipboard, an operation answers whether it raised, and \<open>close\<close> follows when it did.\<close>

lemma cursor_record_queued:
  assumes "roomy v" "r \<in> {0..MAX_ID}" "n \<in> {0..MAX_ID}"
  shows "channel_answer v (cursor_read_record r n) = Queued"
  using assms length_py_str [of r] length_py_str [of n]
  by (intro channel_answer_Queued) (simp_all add: roomy_def cursor_read_record_def)

definition cu_pump :: "cursor \<Rightarrow> bool \<times> cursor" where
  "cu_pump s =
     (case (cu_pending s, cu_request s) of
        (Some p, None) \<Rightarrow>
          if cu_closed s then (False, s)
          else
            let off = int (length (pc_data p)); n = cd_sequence (pc_description p);
                s1 = s\<lparr>cu_request := Some (n, off)\<rparr>
            in if channel_answer (cu_native s1) (cursor_read_record n off) = Queued
               then (False, s1\<lparr>cu_sent := cu_sent s1 @ [cursor_read_record n off]\<rparr>)
               else (True, s1)
      | _ \<Rightarrow> (False, s))"

subsection \<open>Records\<close>

definition hotspot_ok :: "pyfloat \<Rightarrow> int \<Rightarrow> rat option" where
  "hotspot_ok x extent =
     (case x of Finite r \<Rightarrow> if 0 \<le> r \<and> r < of_int extent then Some r else None | _ \<Rightarrow> None)"

definition image_fields :: "string list \<Rightarrow> cursor_image option" where
  "image_fields args =
     (case args of
        [a, b, c, d, e, f] \<Rightarrow>
          (case (field_int a 1 CURSOR_LIMIT, field_int b 1 CURSOR_LIMIT, field_int c 1 CURSOR_LIMIT, field_int d 1 CURSOR_LIMIT) of
             (Some w, Some h, Some lw, Some lh) \<Rightarrow>
               (case (Option.bind (py_float e) (\<lambda>x. hotspot_ok x lw), Option.bind (py_float f) (\<lambda>y. hotspot_ok y lh)) of
                  (Some x, Some y) \<Rightarrow> Some \<lparr>ci_width = w, ci_height = h, ci_logical_width = lw, ci_logical_height = lh,
                     ci_xhot = x, ci_yhot = y\<rparr>
                | _ \<Rightarrow> None)
           | _ \<Rightarrow> None)
      | _ \<Rightarrow> None)"

text \<open>A \<open>cursor-state\<close> record: its connection and its description.\<close>

definition cursor_state_fields :: "string list \<Rightarrow> (int \<times> cursor_description) option" where
  "cursor_state_fields args =
     (case args of
        a # b # c # d # mode # rest \<Rightarrow>
          (case (field_int a 1 MAX_ID, field_int b 1 MAX_ID, field_int c 0 MAX_ID, field_int d 0 MAX_ID) of
             (Some revision, Some connection, Some generation, Some window) \<Rightarrow>
               let description = \<lparr>cd_sequence = revision, cd_generation = generation, cd_window = window,
                     cd_mode = mode, cd_image = None\<rparr>
               in if mode = ''image'' then
                    (case image_fields rest of
                       None \<Rightarrow> None
                     | Some i \<Rightarrow> Some (connection, description\<lparr>cd_image := Some i\<rparr>))
                  else if rest = [] \<and> (mode = ''hidden'' \<or> mode = ''default'') then Some (connection, description)
                  else None
           | _ \<Rightarrow> None)
      | _ \<Rightarrow> None)"

definition cu_state :: "string list \<Rightarrow> cursor \<Rightarrow> bool \<times> cursor" where
  "cu_state args s =
     (case cursor_state_fields args of
        None \<Rightarrow> (True, s)
      | Some (connection, d) \<Rightarrow>
          if cd_sequence d \<le> cu_revision s then (True, s)
          else
            let s1 = s\<lparr>cu_revision := cd_sequence d, cu_pending := None\<rparr>
            in (case cu_target s1 of
                  None \<Rightarrow> (False, cu_notify (s1\<lparr>cu_current := None\<rparr>))
                | Some target \<Rightarrow>
                    if connection \<noteq> nv_epoch (cu_native s1) \<or> (tg_window target, tg_generation target) \<noteq> (cd_window d, cd_generation d)
                    then (False, cu_notify (s1\<lparr>cu_current := None\<rparr>))
                    else
                      (case cd_image d of
                         Some i \<Rightarrow> cu_pump (s1\<lparr>cu_pending := Some \<lparr>pc_target = target, pc_description = d, pc_image = i, pc_data = []\<rparr>\<rparr>)
                       | None \<Rightarrow> (False, cu_notify (s1\<lparr>cu_current := Some (d, None)\<rparr>)))))"

definition image_bytes :: "cursor_image \<Rightarrow> int" where
  "image_bytes i = ci_width i * ci_height i * 4"

definition cu_chunk :: "(bytes \<Rightarrow> bytes) \<Rightarrow> pending_cursor \<Rightarrow> int \<Rightarrow> string \<Rightarrow> cursor \<Rightarrow> cursor option" where
  "cu_chunk compress p offset word s =
     (if cu_target s \<noteq> Some (pc_target p) \<or> word = ''-'' then Some (cu_notify (s\<lparr>cu_pending := None, cu_current := None\<rparr>))
      else
        let i = pc_image p; expected = min (int CHUNK) (image_bytes i - int (length (pc_data p)))
        in if offset \<noteq> int (length (pc_data p)) \<or> int (length word) \<noteq> expected * 2 then None
           else
             (case from_hex word of
                None \<Rightarrow> None
              | Some b \<Rightarrow>
                  let d = pc_data p @ b
                  in if int (length d) = image_bytes i
                     then Some (cu_notify (s\<lparr>cu_pending := None,
                       cu_current := Some (pc_description p, Some (rgba_png compress (nat (ci_width i)) (nat (ci_height i)) d))\<rparr>))
                     else Some (s\<lparr>cu_pending := Some (p\<lparr>pc_data := d\<rparr>)\<rparr>)))"

definition cu_data :: "(bytes \<Rightarrow> bytes) \<Rightarrow> string list \<Rightarrow> cursor \<Rightarrow> bool \<times> cursor" where
  "cu_data compress args s =
     (case args of
        [a, b, word] \<Rightarrow>
          (case (field_int a 1 MAX_ID, field_int b 0 (CURSOR_LIMIT * CURSOR_LIMIT * 4)) of
             (Some revision, Some offset) \<Rightarrow>
               if cu_request s \<noteq> Some (revision, offset) \<or> \<not> chunk_word word then (True, s)
               else
                 (case cu_pending s of
                    None \<Rightarrow> cu_pump (s\<lparr>cu_request := None\<rparr>)
                  | Some p \<Rightarrow>
                      if revision \<noteq> cd_sequence (pc_description p) then cu_pump (s\<lparr>cu_request := None\<rparr>)
                      else (case cu_chunk compress p offset word s of
                              None \<Rightarrow> (True, s)
                            | Some s1 \<Rightarrow> cu_pump (s1\<lparr>cu_request := None\<rparr>)))
           | _ \<Rightarrow> (True, s))
      | _ \<Rightarrow> (True, s))"

definition cu_observe :: "(bytes \<Rightarrow> bytes) \<Rightarrow> string list \<Rightarrow> cursor \<Rightarrow> bool \<times> cursor" where
  "cu_observe compress parts s =
     (if cu_closed s then (False, s)
      else
        case parts of
          [] \<Rightarrow> (True, s)
        | kind # args \<Rightarrow>
            if kind = ''cursor-state'' then cu_state args s
            else if kind = ''cursor-data'' then cu_data compress args s
            else (True, s))"

subsection \<open>The reader's invariant\<close>

text \<open>What can reach the cursor: a record (one that raises closes the channel, so \<open>close\<close> follows), a
  change of the native scene, \<open>invalidate\<close> and \<open>lost\<close>.\<close>

datatype cursor_input = Cursor_record "string list" | Cursor_scene native_view | Cursor_invalidated | Cursor_lost

primrec cu_event :: "(bytes \<Rightarrow> bytes) \<Rightarrow> cursor_input \<Rightarrow> cursor \<Rightarrow> cursor" where
  "cu_event compress (Cursor_record parts) s =
     (case cu_observe compress parts s of (raised, u) \<Rightarrow> if raised then cu_close u else u)"
| "cu_event compress (Cursor_scene v) s = s\<lparr>cu_native := v\<rparr>"
| "cu_event compress Cursor_invalidated s = cu_invalidate s"
| "cu_event compress Cursor_lost s = cu_close s"

definition cu_run :: "(bytes \<Rightarrow> bytes) \<Rightarrow> cursor_input list \<Rightarrow> cursor \<Rightarrow> cursor" where
  "cu_run compress evs s = fold (cu_event compress) evs s"

definition image_ok :: "cursor_image \<Rightarrow> bool" where
  "image_ok i \<longleftrightarrow> ci_width i \<in> {1..CURSOR_LIMIT} \<and> ci_height i \<in> {1..CURSOR_LIMIT} \<and>
     0 \<le> ci_xhot i \<and> ci_xhot i < of_int (ci_logical_width i) \<and> 0 \<le> ci_yhot i \<and> ci_yhot i < of_int (ci_logical_height i)"

definition cu_inv :: "cursor \<Rightarrow> bool" where
  "cu_inv s \<longleftrightarrow>
     0 \<le> cu_revision s \<and>
     (\<forall>q off. cu_request s = Some (q, off) \<longrightarrow> q \<le> cu_revision s) \<and>
     (\<forall>p. cu_pending s = Some p \<longrightarrow>
        cd_sequence (pc_description p) = cu_revision s \<and> cd_image (pc_description p) = Some (pc_image p) \<and>
        image_ok (pc_image p) \<and> int (length (pc_data p)) < image_bytes (pc_image p) \<and>
        (\<forall>off. cu_request s = Some (cu_revision s, off) \<longrightarrow> off = int (length (pc_data p)))) \<and>
     (\<forall>d b. cu_current s = Some (d, b) \<longrightarrow> (b \<noteq> None \<longleftrightarrow> cd_image d \<noteq> None) \<and> cd_sequence d \<le> cu_revision s) \<and>
     (cu_closed s \<longrightarrow> cu_pending s = None \<and> cu_request s = None \<and> cu_current s = None)"

definition cu_flowing :: "cursor \<Rightarrow> bool" where
  "cu_flowing s \<longleftrightarrow> (cu_pending s \<noteq> None \<longrightarrow> cu_request s \<noteq> None)"

lemma hotspot_ok_bounds: "hotspot_ok x extent = Some r \<Longrightarrow> 0 \<le> r \<and> r < of_int extent"
  by (auto simp: hotspot_ok_def split: pyfloat.splits if_splits)

lemma image_fields_ok: "image_fields args = Some i \<Longrightarrow> image_ok i"
  by (auto simp: image_fields_def image_ok_def bind_eq_Some_conv dest!: field_int_bounds hotspot_ok_bounds
      split: list.splits option.splits)

lemma image_bytes_pos: "image_ok i \<Longrightarrow> 0 < image_bytes i"
  by (simp add: image_ok_def image_bytes_def)

lemma image_bytes_le: "image_ok i \<Longrightarrow> image_bytes i \<le> CURSOR_LIMIT * CURSOR_LIMIT * 4"
  by (simp add: image_ok_def image_bytes_def mult_mono)

lemma cursor_state_fields_ok:
  "cursor_state_fields args = Some (connection, d) \<Longrightarrow> 1 \<le> cd_sequence d \<and> (\<forall>i. cd_image d = Some i \<longrightarrow> image_ok i)"
  by (auto simp: cursor_state_fields_def Let_def dest!: field_int_bounds dest: image_fields_ok
      split: list.splits option.splits if_splits)

lemma cu_inv_new: "cu_inv (new_cursor v)"
  by (simp add: cu_inv_def new_cursor_def)

lemma cu_inv_invalidate: "cu_inv s \<Longrightarrow> cu_inv (cu_invalidate s)"
  by (auto simp: cu_inv_def cu_invalidate_def cu_notify_def)

lemma cu_inv_close: "cu_inv s \<Longrightarrow> cu_inv (cu_close s)"
  by (auto simp: cu_inv_def cu_close_def cu_invalidate_def cu_notify_def)

lemma cu_inv_notify [simp]: "cu_inv (cu_notify s) = cu_inv s"
  by (simp add: cu_inv_def cu_notify_def)

lemma cu_inv_pump:
  assumes "cu_inv s"
  shows "cu_inv (snd (cu_pump s)) \<and> (\<not> fst (cu_pump s) \<longrightarrow> cu_flowing (snd (cu_pump s)))"
  using assms cu_inv_close [of "s\<lparr>cu_request := r\<rparr>" for r]
  by (auto simp: cu_pump_def cu_flowing_def cu_inv_def cu_close_def cu_invalidate_def cu_notify_def Let_def
      split: option.splits channel_result.splits)

lemma cu_target_same [simp]: "cu_target (s\<lparr>cu_revision := n, cu_pending := p\<rparr>) = cu_target s"
  by (simp add: cu_target_def)

lemma cu_inv_state:
  assumes "cu_inv s" "\<not> cu_closed s" "cu_flowing s"
  shows "cu_inv (snd (cu_state args s)) \<and> (\<not> fst (cu_state args s) \<longrightarrow> cu_flowing (snd (cu_state args s)))"
proof (cases "cursor_state_fields args")
  case None
  then show ?thesis using assms by (simp add: cu_state_def)
next
  case (Some x)
  obtain connection d where x: "x = (connection, d)" by (cases x)
  have d: "1 \<le> cd_sequence d" "cd_image d = Some i \<Longrightarrow> image_ok i" for i
    using cursor_state_fields_ok Some x by blast+
  show ?thesis
  proof (cases "cd_sequence d \<le> cu_revision s")
    case True
    then show ?thesis using assms Some x by (simp add: cu_state_def)
  next
    case False
    define s1 where "s1 = s\<lparr>cu_revision := cd_sequence d, cu_pending := None\<rparr>"
    have i1: "cu_inv s1" using assms False by (fastforce simp: cu_inv_def s1_def)
    have gone: "cu_inv (s1\<lparr>cu_current := None\<rparr>)" "cu_flowing (cu_notify (s1\<lparr>cu_current := None\<rparr>))"
      using i1 by (auto simp: cu_inv_def cu_flowing_def s1_def cu_notify_def)
    have plain: "cu_inv (s1\<lparr>cu_current := Some (d, None)\<rparr>)" if "cd_image d = None"
      using i1 that assms(2) by (auto simp: cu_inv_def s1_def)
    have plain_flow: "cu_flowing (cu_notify (s1\<lparr>cu_current := c\<rparr>))" for c
      by (simp add: cu_flowing_def s1_def cu_notify_def)
    have img: "cu_inv (s1\<lparr>cu_pending := Some \<lparr>pc_target = target, pc_description = d, pc_image = i, pc_data = []\<rparr>\<rparr>)"
      if "cd_image d = Some i" for target i
      using i1 that assms False d image_bytes_pos by (fastforce simp: cu_inv_def s1_def)
    have eq: "cu_state args s =
        (case cu_target s of
           None \<Rightarrow> (False, cu_notify (s1\<lparr>cu_current := None\<rparr>))
         | Some target \<Rightarrow>
             if connection \<noteq> nv_epoch (cu_native s) \<or> (tg_window target, tg_generation target) \<noteq> (cd_window d, cd_generation d)
             then (False, cu_notify (s1\<lparr>cu_current := None\<rparr>))
             else
               (case cd_image d of
                  Some i \<Rightarrow> cu_pump (s1\<lparr>cu_pending := Some \<lparr>pc_target = target, pc_description = d, pc_image = i, pc_data = []\<rparr>\<rparr>)
                | None \<Rightarrow> (False, cu_notify (s1\<lparr>cu_current := Some (d, None)\<rparr>))))"
      using Some x False by (cases "cu_target s"; cases "cd_image d") (simp_all add: cu_state_def s1_def Let_def)
    show ?thesis
      unfolding eq using gone plain plain_flow img cu_inv_pump by (simp split: option.split)
  qed
qed

lemma cu_inv_chunk:
  assumes "cu_inv s" "cu_pending s = Some p" "cu_request s = Some (cu_revision s, off)"
    "cu_chunk compress p off x s = Some u" "\<not> cu_closed s"
  shows "cu_inv (u\<lparr>cu_request := None\<rparr>)"
proof -
  have "int (length (pc_data p @ b)) \<le> image_bytes (pc_image p)"
    if "from_hex x = Some b" "int (length x) = min (int CHUNK) (image_bytes (pc_image p) - int (length (pc_data p))) * 2" for b
    using from_hex_length [OF that(1)] that(2) by auto
  with assms show ?thesis
    by (auto simp: cu_chunk_def cu_inv_def cu_notify_def Let_def split: if_splits option.splits)
qed

lemma cu_inv_data:
  assumes "cu_inv s" "\<not> cu_closed s" "cu_flowing s"
  shows "cu_inv (snd (cu_data compress args s)) \<and>
    (\<not> fst (cu_data compress args s) \<longrightarrow> cu_flowing (snd (cu_data compress args s)))"
proof -
  have i1: "cu_inv (s\<lparr>cu_request := None\<rparr>)" using assms(1) by (auto simp: cu_inv_def)
  have chunk: "cu_inv (u\<lparr>cu_request := None\<rparr>)"
    if "cu_pending s = Some p" "cu_request s = Some (cd_sequence (pc_description p), off)"
      "cu_chunk compress p off x s = Some u" for p off x u
  proof -
    have "cd_sequence (pc_description p) = cu_revision s" using assms(1) that(1) by (auto simp: cu_inv_def)
    with cu_inv_chunk [OF assms(1) that(1) _ that(3) assms(2)] that(2) show ?thesis by simp
  qed
  show ?thesis
    using assms chunk cu_inv_pump [OF i1] cu_inv_pump
    by (auto simp: cu_data_def split: list.split option.split)
qed

lemma cu_inv_event:
  assumes "cu_inv s" "cu_flowing s"
  shows "cu_inv (cu_event compress ev s) \<and> cu_flowing (cu_event compress ev s)"
proof (cases ev)
  case (Cursor_record parts)
  have closed: "cu_flowing (cu_close u)" for u
    by (simp add: cu_flowing_def cu_close_def cu_invalidate_def cu_notify_def)
  have "cu_inv (snd (cu_observe compress parts s)) \<and> (\<not> fst (cu_observe compress parts s) \<longrightarrow> cu_flowing (snd (cu_observe compress parts s)))"
    using assms cu_inv_state [OF assms(1) _ assms(2)] cu_inv_data [OF assms(1) _ assms(2)]
    by (simp add: cu_observe_def split: list.split)
  with closed cu_inv_close Cursor_record show ?thesis
    by (cases "cu_observe compress parts s") simp
qed (use assms in \<open>auto simp: cu_inv_def cu_flowing_def cu_close_def cu_invalidate_def cu_notify_def\<close>)

lemma cu_inv_run: "cu_inv s \<Longrightarrow> cu_flowing s \<Longrightarrow> cu_inv (cu_run compress evs s) \<and> cu_flowing (cu_run compress evs s)"
  by (induction evs arbitrary: s) (simp_all add: cu_run_def cu_inv_event)

subsection \<open>An image is reassembled\<close>

definition cu_serve :: "(bytes \<Rightarrow> bytes) \<Rightarrow> bytes \<Rightarrow> cursor \<Rightarrow> cursor" where
  "cu_serve compress b s =
     (case cu_request s of
        None \<Rightarrow> s
      | Some (revision, offset) \<Rightarrow>
          cu_event compress (Cursor_record [''cursor-data'', py_str revision, py_str offset,
            to_hex (take CHUNK (drop (nat offset) b))]) s)"

definition cu_reading :: "cursor_description \<Rightarrow> cursor_image \<Rightarrow> native_target \<Rightarrow> bytes \<Rightarrow> nat \<Rightarrow> cursor \<Rightarrow> bool" where
  "cu_reading d i target b n s \<longleftrightarrow>
     cu_pending s = Some \<lparr>pc_target = target, pc_description = d, pc_image = i, pc_data = take n b\<rparr> \<and>
     cu_request s = Some (cd_sequence d, int n) \<and> n < length b \<and> \<not> cu_closed s \<and> cu_target s = Some target \<and>
     roomy (cu_native s) \<and>
     image_ok i \<and> int (length b) = image_bytes i \<and> list_all (\<lambda>x. x < 256) b \<and> cd_sequence d \<in> {1..MAX_ID}"

lemma cu_serve_step:
  assumes "cu_reading d i target b n s"
  shows "if n + CHUNK < length b
    then cu_reading d i target b (n + CHUNK) (cu_serve compress b s) \<and> cu_current (cu_serve compress b s) = cu_current s
    else cu_pending (cu_serve compress b s) = None \<and> cu_request (cu_serve compress b s) = None \<and>
      cu_current (cu_serve compress b s) =
        Some (d, Some (rgba_png compress (nat (ci_width i)) (nat (ci_height i)) b))"
proof -
  define part where "part = take CHUNK (drop n b)"
  have r: "cu_pending s = Some \<lparr>pc_target = target, pc_description = d, pc_image = i, pc_data = take n b\<rparr>"
    "cu_request s = Some (cd_sequence d, int n)" "n < length b" "\<not> cu_closed s" "cu_target s = Some target"
    "roomy (cu_native s)" "image_ok i" "int (length b) = image_bytes i" "list_all (\<lambda>x. x < 256) b"
    "cd_sequence d \<in> {1..MAX_ID}"
    using assms by (simp_all add: cu_reading_def)
  have part: "list_all (\<lambda>x. x < 256) part" "part \<noteq> []" "length part = min CHUNK (length b - n)"
    using r(3,9) by (auto simp: part_def list_all_iff CHUNK_def dest!: in_set_takeD in_set_dropD)
  have hex: "from_hex (to_hex part) = Some part" "chunk_word (to_hex part)" "to_hex part \<noteq> ''-''"
    using from_hex_to_hex [OF part(1)] chunk_word_to_hex [OF part(1,2)] part(3) by auto
  have "int n \<le> CURSOR_LIMIT * CURSOR_LIMIT * 4" using r(3,8) image_bytes_le [OF r(7)] by linarith
  then have ints: "field_int (py_str (cd_sequence d)) 1 MAX_ID = Some (cd_sequence d)"
    "field_int (py_str (int n)) 0 (CURSOR_LIMIT * CURSOR_LIMIT * 4) = Some (int n)"
    using r(10) by (auto intro!: field_int_MAX_ID simp: CURSOR_LIMIT_def MAX_ID_def)
  have queued: "n + CHUNK < length b \<Longrightarrow>
      channel_answer (cu_native s) (cursor_read_record (cd_sequence d) (int n + int CHUNK)) = Queued"
    using r(6,8,10) image_bytes_le [OF r(7)]
    by (intro cursor_record_queued) (simp_all add: MAX_ID_def CURSOR_LIMIT_def)
  have joined: "take n b @ part = take (n + CHUNK) b" by (simp add: part_def take_add)
  have extent: "int (length (to_hex part)) = min (int CHUNK) (image_bytes i - int n) * 2"
    using r(3) by (simp add: part(3) of_nat_diff flip: r(8))
  have len: "length (take n b) = n" using r(3) by simp
  have full: "int (length (take (n + CHUNK) b)) = image_bytes i \<longleftrightarrow> \<not> n + CHUNK < length b"
    by (simp flip: r(8)) linarith
  have chunk: "cu_chunk compress \<lparr>pc_target = target, pc_description = d, pc_image = i, pc_data = take n b\<rparr>
      (int n) (to_hex part) s =
    (if n + CHUNK < length b
     then Some (s\<lparr>cu_pending := Some \<lparr>pc_target = target, pc_description = d, pc_image = i, pc_data = take (n + CHUNK) b\<rparr>\<rparr>)
     else Some (cu_notify (s\<lparr>cu_pending := None,
       cu_current := Some (d, Some (rgba_png compress (nat (ci_width i)) (nat (ci_height i)) b))\<rparr>)))"
    using r(5) hex extent len full by (simp add: cu_chunk_def joined Let_def)
  have serve: "cu_serve compress b s = cu_event compress (Cursor_record
      [''cursor-data'', py_str (cd_sequence d), py_str (int n), to_hex part]) s"
    by (simp add: cu_serve_def r(2) part_def)
  show ?thesis
    using r chunk queued
    by (auto simp: serve cu_observe_def cu_data_def ints hex cu_pump_def cu_reading_def cu_notify_def cu_target_def Let_def)
qed

interpretation cursor_chunks: chunk_reader "cu_serve compress b" "cu_reading d i target b"
    "\<lambda>s. cu_pending s = None \<and> cu_request s = None" "length b" cu_current
    "\<lambda>out. Some (d, Some (rgba_png compress (nat (ci_width i)) (nat (ci_height i)) b))" for compress b d i target
proof (unfold_locales, goal_cases)
  case (1 n s)
  then show ?case by (simp add: cu_reading_def)
next
  case (2 n s)
  then show ?case using cu_serve_step [of d i target b n s compress] by simp
next
  case (3 n s)
  then show ?case using cu_serve_step [of d i target b n s compress] by simp
next
  case (4 s)
  then show ?case by (simp add: cu_serve_def)
qed

subsection \<open>Properties\<close>

text \<open>C39: A cursor image survives the trip: the PNG file the helper builds from straight RGBA bytes, read
  back by a reader that checks every length and CRC, gives the same width, height and bytes, whenever
  decompression undoes the compression.\<close>
theorem cursor_png_round_trip:
  assumes "\<And>x. decompress (compress x) = Some x" "\<And>x. length (compress x) \<le> 2 * length x + 1024"
    and "0 < width" "width \<le> 1024" "height \<le> 1024" "length pixels = width * height * 4"
  shows "png_read decompress (rgba_png compress width height pixels) = Some (width, height, pixels)"
proof -
  have rows: "length (png_rows stride p) \<le> 2 * length p" for stride p
  proof (induction stride p rule: png_rows.induct)
    case (1 stride p)
    then show ?case by (subst png_rows.simps) (cases p; auto simp: Suc_le_eq min_def)
  qed
  have "width * height * 4 \<le> 1024 * 1024 * 4" using assms(4,5) by (intro mult_mono) simp_all
  then have "length (compress (png_rows (width * 4) pixels)) < 4294967296"
    using assms(2) [of "png_rows (width * 4) pixels"] rows [of "width * 4" pixels] assms(6) by linarith
  then show ?thesis using assms by (intro png_read_rgba) simp_all
qed

text \<open>A cursor announced for the current target arrives whole: at most 4096 answers to the reader's
  own requests complete the image, and the cursor shown is exactly the PNG of the compositor's bytes
  with the announced description.\<close>
theorem cursor_image_read:
  assumes "cu_reading d i target b 0 s"
  shows "cu_current ((cu_serve compress b ^^ 4096) s) =
      Some (d, Some (rgba_png compress (nat (ci_width i)) (nat (ci_height i)) b)) \<and>
    cu_request ((cu_serve compress b ^^ 4096) s) = None"
proof -
  have "int (length b) \<le> CURSOR_LIMIT * CURSOR_LIMIT * 4"
    using assms image_bytes_le [of i] by (simp add: cu_reading_def)
  then have "length b \<le> 0 + 4096 * CHUNK" by (simp add: CURSOR_LIMIT_def CHUNK_def)
  from cursor_chunks.served [OF assms this] show ?thesis by blast
qed

text \<open>Whatever records, scene changes and losses come in any order, the cursor reader never holds
  more than the announced image of at most 4 MiB, its hotspot lies inside the logical image, and while
  an image is being read a request is outstanding.\<close>
theorem cursor_reader_bounded:
  assumes "cu_pending (cu_run compress evs (new_cursor v)) = Some p"
  shows "length (pc_data p) < 4194304 \<and> int (length (pc_data p)) < image_bytes (pc_image p) \<and>
    ci_xhot (pc_image p) < of_int (ci_logical_width (pc_image p)) \<and>
    cd_sequence (pc_description p) = cu_revision (cu_run compress evs (new_cursor v)) \<and>
    cu_request (cu_run compress evs (new_cursor v)) \<noteq> None"
proof -
  have "cu_flowing (new_cursor v)" by (simp add: cu_flowing_def new_cursor_def)
  from cu_inv_run [OF cu_inv_new this] have inv: "cu_inv (cu_run compress evs (new_cursor v))"
    and flow: "cu_flowing (cu_run compress evs (new_cursor v))" by blast+
  have "image_ok (pc_image p)" using inv assms by (auto simp: cu_inv_def)
  then have "image_bytes (pc_image p) \<le> 4194304" using image_bytes_le by (simp add: CURSOR_LIMIT_def)
  moreover have "int (length (pc_data p)) < image_bytes (pc_image p)" using inv assms by (auto simp: cu_inv_def)
  ultimately have "length (pc_data p) < 4194304" by linarith
  with inv flow assms \<open>image_ok (pc_image p)\<close> show ?thesis by (auto simp: cu_inv_def cu_flowing_def image_ok_def)
qed

lemma cursor_png_round_trip_witness:
  "png_read Some (rgba_png id 1 2 [1, 2, 3, 4, 5, 6, 7, 8]) = Some (1, 2, [1, 2, 3, 4, 5, 6, 7, 8])"
  by (rule cursor_png_round_trip) simp_all

lemma cursor_image_read_witness:
  "\<exists>d (i :: cursor_image) s. cu_current ((cu_serve id [1, 2, 3, 4] ^^ 4096) s) = Some (d, Some (rgba_png id (nat (ci_width i)) (nat (ci_height i)) [1, 2, 3, 4]))"
proof -
  let ?t = "\<lparr>tg_window = 7, tg_generation = 5\<rparr>"
  let ?i = "\<lparr>ci_width = 1, ci_height = 1, ci_logical_width = 1, ci_logical_height = 1, ci_xhot = 0, ci_yhot = 0\<rparr>"
  let ?d = "\<lparr>cd_sequence = 2, cd_generation = 5, cd_window = 7, cd_mode = ''image'', cd_image = Some ?i\<rparr>"
  let ?s = "(new_cursor \<lparr>nv_closed = False, nv_epoch = 3, nv_target = Some ?t, nv_open = True, nv_room = 1000\<rparr>)
    \<lparr>cu_pending := Some \<lparr>pc_target = ?t, pc_description = ?d, pc_image = ?i, pc_data = []\<rparr>, cu_request := Some (2, 0)\<rparr>"
  have "cu_reading ?d ?i ?t [1, 2, 3, 4] 0 ?s"
    by (simp add: cu_reading_def new_cursor_def cu_target_def image_ok_def image_bytes_def CURSOR_LIMIT_def MAX_ID_def roomy_def)
  from conjunct1 [OF cursor_image_read [OF this, where compress = id]] show ?thesis by (intro exI)
qed

lemma cursor_reader_bounded_witness:
  "cu_request (cu_run id [Cursor_record [''cursor-state'', py_str 2, py_str 3, py_str 5, py_str 7, ''image'',
       py_str 1, py_str 1, py_str 1, py_str 1, ''0'', ''0'']]
     (new_cursor \<lparr>nv_closed = False, nv_epoch = 3, nv_target = Some \<lparr>tg_window = 7, tg_generation = 5\<rparr>, nv_open = True, nv_room = 1000\<rparr>)) \<noteq> None"
proof -
  let ?t = "\<lparr>tg_window = 7, tg_generation = 5\<rparr>"
  let ?i = "\<lparr>ci_width = 1, ci_height = 1, ci_logical_width = 1, ci_logical_height = 1, ci_xhot = 0, ci_yhot = 0\<rparr>"
  let ?d = "\<lparr>cd_sequence = 2, cd_generation = 5, cd_window = 7, cd_mode = ''image'', cd_image = Some ?i\<rparr>"
  let ?v = "\<lparr>nv_closed = False, nv_epoch = 3, nv_target = Some ?t, nv_open = True, nv_room = 1000\<rparr>"
  let ?e = "[Cursor_record [''cursor-state'', py_str 2, py_str 3, py_str 5, py_str 7, ''image'',
       py_str 1, py_str 1, py_str 1, py_str 1, ''0'', ''0'']]"
  have ints: "field_int (py_str 2) 1 MAX_ID = Some 2" "field_int (py_str 3) 1 MAX_ID = Some 3"
    "field_int (py_str 5) 0 MAX_ID = Some 5" "field_int (py_str 7) 0 MAX_ID = Some 7"
    "field_int (py_str 1) 1 CURSOR_LIMIT = Some 1"
    by (rule field_int_MAX_ID; simp add: MAX_ID_def CURSOR_LIMIT_def)+
  have zero: "py_float ''0'' = Some (Finite 0)"
    by (simp add: py_float_def signed_part_def lower_ascii_def digit_or_underscore_def digit_char_def digit_def
        digits_part_def exponent_word_def bare_digits_def undec_def scale10_def to_float_def pow2_def
        round_half_even_def)
  have queued: "channel_answer ?v (cursor_read_record 2 0) = Queued"
    by (rule cursor_record_queued) (simp_all add: roomy_def MAX_ID_def)
  have "cu_pending (cu_run id ?e (new_cursor ?v)) = Some \<lparr>pc_target = ?t, pc_description = ?d, pc_image = ?i, pc_data = []\<rparr>"
    using queued by (simp add: cu_run_def cu_observe_def cu_state_def cursor_state_fields_def image_fields_def ints zero hotspot_ok_def
        new_cursor_def cu_target_def cu_pump_def Let_def)
  from cursor_reader_bounded [OF this] show ?thesis by blast
qed

end
