(* ===== verification/Native_Scene.thy ===== *)
theory Native_Scene
  imports Native_Channel Clipboard Cursor "HOL-Library.AList"
begin

section \<open>The native scene registry (desktop\_native.py, NativeDesktop)\<close>

text \<open>
  \<open>NativeDesktop\<close> keeps what the compositor reports on its channel (windows, surfaces, focus, text
  contexts, the scene's target), and turns admitted input into records for it. Dictionaries are
  association lists in insertion order. Calls out of the registry (notifications of the registered
  viewers, completion callbacks, calls of the capture object) are logged in \<open>nd_calls\<close> in the order
  they are made; a callback is the ticket its caller chose. The clipboard and the cursor are the
  components of their own theories, and the channel is the one they all send on.

  An operation answers whether it raised. Registered viewers form a Python set, whose order is not
  specified; the list keeps the order of registration.
\<close>

record native_window =
  nw_window :: int
  nw_parent :: int
  nw_protocol :: string
  nw_pid :: int
  nw_width :: int
  nw_height :: int
  nw_mode :: int

record native_focus =
  nf_identity :: int
  nf_window :: int
  nf_pid :: int
  nf_surface :: int
  nf_available :: bool

record text_context =
  tc_identity :: int
  tc_revision :: int
  tc_surface :: int
  tc_enabled :: bool
  tc_serial :: int

record text_request =
  tr_sequence :: int
  tr_barrier :: bool
  tr_epoch :: int
  tr_target :: native_target
  tr_ticket :: nat

text \<open>What a capture gives: a frame, no change of pixels, or an error.\<close>

record frame_description =
  fd_encoding :: string
  fd_width :: nat
  fd_height :: nat
  fd_x :: nat
  fd_y :: nat
  fd_region_width :: nat
  fd_region_height :: nat

datatype capture_result = Frame frame_description bytes | Unchanged | Capture_failed code

record capture_waiter =
  cw_attachment :: nat
  cw_target :: native_target
  cw_ticket :: nat

datatype notice =
    Scene_changed | Metadata_changed | Damage | Cursor_changed
  | Clipboard_changed "native_target \<times> int \<times> pystr option"

datatype outcall =
    Notified nat notice
  | Contexts_changed
  | Clipboard_done nat "code option"
  | Text_done nat "code option"
  | Display_done nat "string option"
  | Scene_reported nat int int
  | Frames_configured "string option"
  | Frames_cancelled
  | Frames_refined
  | Frames_capture native_target
  | Capture_done capture_waiter capture_result

record native =
  nd_channel :: channel
  nd_cursor :: cursor
  nd_clipboard :: clip
  nd_attachment :: "nat option"
  nd_attachments :: "nat list"
  nd_target :: "native_target option"
  nd_waiters :: "capture_waiter list"
  nd_capturing :: bool
  nd_dispatch :: "(capture_waiter list \<times> capture_result) option"
  nd_contexts :: bool
  nd_windows :: "(int \<times> native_window) list"
  nd_declared :: "(int \<times> pystr) list"
  nd_last_window :: int
  nd_generation :: int
  nd_x11_windows :: "(int \<times> int) list"
  nd_surfaces :: "int list"
  nd_last_surface :: int
  nd_focus :: "native_focus option"
  nd_epoch :: int
  nd_last_epoch :: int
  nd_query :: "nat option"
  nd_query_id :: int
  nd_display_requested :: bool
  nd_display_query :: "nat option"
  nd_version :: bool
  nd_closed :: bool
  nd_text_contexts :: "(int \<times> text_context) list"
  nd_last_text_context :: int
  nd_text_request :: "text_request option"
  nd_last_text_request :: int
  nd_calls :: "outcall list"

definition closed_view :: native_view where
  "closed_view = \<lparr>nv_closed = False, nv_epoch = 0, nv_target = None, nv_open = True, nv_room = MAX_BUFFER\<rparr>"

definition new_native :: native where
  "new_native = \<lparr>nd_channel = new_channel, nd_cursor = new_cursor closed_view, nd_clipboard = new_clip closed_view,
     nd_attachment = None, nd_attachments = [], nd_target = None,
     nd_waiters = [], nd_capturing = False, nd_dispatch = None, nd_contexts = False,
     nd_windows = [], nd_declared = [], nd_last_window = 0, nd_generation = 0, nd_x11_windows = [],
     nd_surfaces = [], nd_last_surface = 0, nd_focus = None, nd_epoch = 0, nd_last_epoch = 0,
     nd_query = None, nd_query_id = 0, nd_display_requested = False, nd_display_query = None,
     nd_version = False, nd_closed = False, nd_text_contexts = [], nd_last_text_context = 0,
     nd_text_request = None, nd_last_text_request = 0, nd_calls = []\<rparr>"

definition nd_call :: "outcall \<Rightarrow> native \<Rightarrow> native" where
  "nd_call c d = d\<lparr>nd_calls := nd_calls d @ [c]\<rparr>"

text \<open>\<open>_notify\<close>.\<close>

definition recipients :: "native \<Rightarrow> nat list" where
  "recipients d = (if nd_attachments d \<noteq> [] then nd_attachments d
     else case nd_attachment d of None \<Rightarrow> [] | Some a \<Rightarrow> [a])"

definition nd_notify :: "notice \<Rightarrow> native \<Rightarrow> native" where
  "nd_notify n d = d\<lparr>nd_calls := nd_calls d @ map (\<lambda>a. Notified a n) (recipients d)\<rparr>"

subsection \<open>The clipboard and the cursor\<close>

definition native_view_of :: "native \<Rightarrow> native_view" where
  "native_view_of d = \<lparr>nv_closed = nd_closed d, nv_epoch = nd_epoch d, nv_target = nd_target d,
     nv_open = \<not> ch_closed (nd_channel d), nv_room = MAX_BUFFER - length (ch_output (nd_channel d))\<rparr>"

text \<open>
  An operation of a component runs on the scene as it is now; the records it sent go to the channel
  and the calls of its \<open>changed\<close> callback become notifications.
\<close>

definition nd_with_cursor :: "(cursor \<Rightarrow> 'a \<times> cursor) \<Rightarrow> native \<Rightarrow> 'a \<times> native" where
  "nd_with_cursor f d =
     (let c = (nd_cursor d)\<lparr>cu_native := native_view_of d\<rparr>;
          (r, c') = f c;
          d1 = d\<lparr>nd_cursor := c', nd_channel := channel_append (concat (drop (length (cu_sent c)) (cu_sent c'))) (nd_channel d)\<rparr>
      in (r, (nd_notify Cursor_changed ^^ (cu_changes c' - cu_changes c)) d1))"

definition nd_with_clipboard :: "(clip \<Rightarrow> 'a \<times> clip) \<Rightarrow> native \<Rightarrow> 'a \<times> native" where
  "nd_with_clipboard f d =
     (let c = (nd_clipboard d)\<lparr>cb_native := native_view_of d\<rparr>;
          (r, c') = f c;
          d1 = d\<lparr>nd_clipboard := c', nd_channel := channel_append (concat (drop (length (cb_sent c)) (cb_sent c'))) (nd_channel d)\<rparr>
      in (r, fold (\<lambda>x. nd_notify (Clipboard_changed x)) (drop (length (cb_changed c)) (cb_changed c')) d1))"

definition nd_complete :: "(nat \<times> code option) option \<Rightarrow> native \<Rightarrow> native" where
  "nd_complete c d = (case c of None \<Rightarrow> d | Some (k, e) \<Rightarrow> nd_call (Clipboard_done k e) d)"

subsection \<open>Losing the channel, and sending\<close>

definition nd_changed :: "native \<Rightarrow> native" where
  "nd_changed d =
     nd_notify Scene_changed
       (snd (nd_with_clipboard (\<lambda>c. ((), clip_invalidate c))
         (snd (nd_with_cursor (\<lambda>c. ((), cu_invalidate c)) d))))"

definition nd_drop_text :: "native \<Rightarrow> native" where
  "nd_drop_text d =
     (case nd_text_request d of
        None \<Rightarrow> d
      | Some r \<Rightarrow> nd_call (Text_done (tr_ticket r) (Some INPUT_TARGET_UNAVAILABLE)) (d\<lparr>nd_text_request := None\<rparr>))"

definition nd_drop_display :: "native \<Rightarrow> native" where
  "nd_drop_display d =
     (case nd_display_query d of None \<Rightarrow> d | Some k \<Rightarrow> nd_call (Display_done k None) (d\<lparr>nd_display_query := None\<rparr>))"

definition nd_drop_query :: "native \<Rightarrow> native" where
  "nd_drop_query d =
     (case nd_query d of None \<Rightarrow> d | Some k \<Rightarrow> nd_call (Scene_reported k 0 0) (d\<lparr>nd_query := None\<rparr>))"

definition nd_forget :: "native \<Rightarrow> native" where
  "nd_forget d = d\<lparr>nd_closed := True, nd_target := None, nd_focus := None, nd_epoch := 0, nd_text_contexts := []\<rparr>"

definition nd_lost :: "native \<Rightarrow> native" where
  "nd_lost d =
     (if nd_closed d then d
      else
        case nd_with_clipboard clip_close (snd (nd_with_cursor (\<lambda>c. ((), cu_close c)) (nd_forget d))) of
          (done, u) \<Rightarrow> nd_changed (nd_drop_query (nd_drop_display (nd_drop_text (nd_complete done u)))))"

text \<open>\<open>NativeChannel.close\<close>.\<close>

definition nd_close_channel :: "native \<Rightarrow> native" where
  "nd_close_channel d =
     (if ch_closed (nd_channel d) then d else nd_lost (d\<lparr>nd_channel := channel_shut (nd_channel d)\<rparr>))"

text \<open>\<open>NativeChannel.send\<close>.\<close>

definition nd_send :: "string \<Rightarrow> native \<Rightarrow> bool \<times> native" where
  "nd_send data d =
     (case send_answer (nd_channel d) data of
        Queued \<Rightarrow> (False, d\<lparr>nd_channel := channel_append data (nd_channel d)\<rparr>)
      | Refused_send \<Rightarrow> (True, d)
      | Channel_lost \<Rightarrow> (True, nd_close_channel d))"

definition nd_write :: "nat \<Rightarrow> native \<Rightarrow> native" where
  "nd_write count d =
     (let (lost, c) = channel_write count (nd_channel d)
      in if lost then nd_close_channel d else d\<lparr>nd_channel := c\<rparr>)"

subsection \<open>Titles\<close>

text \<open>
  \<open>bytes.decode('utf-8', errors='replace')\<close>: an invalid sequence becomes one replacement character,
  which stands for the longest start of a valid sequence, or for one byte.
\<close>

definition second_byte_ok :: "nat \<Rightarrow> nat \<Rightarrow> bool" where
  "second_byte_ok a b \<longleftrightarrow>
     (if a = 0xE0 then 0xA0 \<le> b \<and> b < 0xC0 else if a = 0xED then 0x80 \<le> b \<and> b < 0xA0
      else if a = 0xF0 then 0x90 \<le> b \<and> b < 0xC0 else if a = 0xF4 then 0x80 \<le> b \<and> b < 0x90
      else tail_byte b)"

definition bad_prefix :: "bytes \<Rightarrow> nat" where
  "bad_prefix s =
     (case s of
        a # b # r \<Rightarrow>
          if a < 0xC2 \<or> 0xF4 < a \<or> \<not> second_byte_ok a b then 1
          else (case r of
                  c # _ \<Rightarrow> if tail_byte c \<and> 0xF0 \<le> a then 3 else 2
                | [] \<Rightarrow> 2)
      | _ \<Rightarrow> 1)"

function utf8_replace :: "bytes \<Rightarrow> pystr" where
  "utf8_replace s =
     (if s = [] then []
      else case utf8_next s of
             Some (c, r) \<Rightarrow> c # utf8_replace r
           | None \<Rightarrow> 0xFFFD # utf8_replace (drop (bad_prefix s) s))"
  by pat_completeness auto
termination
proof (relation "measure length", goal_cases)
  case (2 s)
  have "0 < bad_prefix s" by (simp add: bad_prefix_def split: list.split)
  with 2 show ?case by simp
next
  case (3 s x2 c r)
  then show ?case using utf8_next_shorter [of s c r] by simp
qed simp

declare utf8_replace.simps [simp del]

definition title_of :: "string \<Rightarrow> pystr option" where
  "title_of encoded = (if encoded = ''-'' then Some [] else map_option utf8_replace (from_hex encoded))"

subsection \<open>Records of the compositor\<close>

text \<open>
  One definition per record kind, on the words after the kind; \<open>None\<close> is a \<open>ValueError\<close> raised before
  anything changed.
\<close>

definition obs_version :: "string list \<Rightarrow> native \<Rightarrow> native option" where
  "obs_version args d = (if args = [''1''] \<and> \<not> nd_version d then Some (d\<lparr>nd_version := True\<rparr>) else None)"

text \<open>A reply to a barrier, and a reply that reports success.\<close>

definition barrier_reply :: "string \<Rightarrow> bool" where
  "barrier_reply kind \<longleftrightarrow> kind = ''client-barrier-done'' \<or> kind = ''client-barrier-cancelled''"

definition success_reply :: "string \<Rightarrow> bool" where
  "success_reply kind \<longleftrightarrow> kind = ''client-barrier-done'' \<or> kind = ''text-dispatched''"

definition obs_text_response :: "string \<Rightarrow> string list \<Rightarrow> native \<Rightarrow> native option" where
  "obs_text_response kind args d =
     (case args of
        [a] \<Rightarrow>
          if \<not> nd_version d then None
          else
            (case field_int a 1 MAX_ID of
               None \<Rightarrow> None
             | Some sequence \<Rightarrow>
                 (case nd_text_request d of
                    None \<Rightarrow> Some d
                  | Some r \<Rightarrow>
                      if sequence \<noteq> tr_sequence r then Some d
                      else if tr_barrier r \<noteq> barrier_reply kind then None
                      else
                        let result = (if nd_epoch d \<noteq> tr_epoch r \<or> nd_target d \<noteq> Some (tr_target r)
                              then Some INPUT_TARGET_UNAVAILABLE
                              else if success_reply kind then None
                              else Some INPUT_CONTEXT_UNAVAILABLE)
                        in Some (nd_call (Text_done (tr_ticket r) result) (d\<lparr>nd_text_request := None\<rparr>))))
      | _ \<Rightarrow> None)"

definition nd_contexts_changed :: "native \<Rightarrow> native" where
  "nd_contexts_changed d = (if nd_contexts d then nd_call Contexts_changed d else d)"

definition text_context_fields :: "string list \<Rightarrow> text_context option" where
  "text_context_fields args =
     (case args of
        [a, b, c, e, f] \<Rightarrow>
          (case (field_int a 1 MAX_ID, field_int b 1 MAX_ID, field_int c 0 MAX_ID, field_int e 0 1, field_int f 0 4294967295) of
             (Some identity, Some revision, Some surface, Some enabled, Some serial) \<Rightarrow>
               Some \<lparr>tc_identity = identity, tc_revision = revision, tc_surface = surface,
                 tc_enabled = (enabled = 1), tc_serial = serial\<rparr>
           | _ \<Rightarrow> None)
      | _ \<Rightarrow> None)"

definition text_context_ok :: "text_context \<Rightarrow> native \<Rightarrow> bool" where
  "text_context_ok x d \<longleftrightarrow>
     (case map_of (nd_text_contexts d) (tc_identity x) of
        None \<Rightarrow> nd_last_text_context d < tc_identity x \<and> length (nd_text_contexts d) < 64
      | Some previous \<Rightarrow> tc_revision previous \<le> tc_revision x) \<and>
     (tc_surface x = 0 \<or> tc_surface x \<in> set (nd_surfaces d)) \<and> (\<not> tc_enabled x \<or> tc_surface x \<noteq> 0)"

definition obs_text_context :: "string list \<Rightarrow> native \<Rightarrow> native option" where
  "obs_text_context args d =
     (if \<not> nd_version d then None
      else
        case text_context_fields args of
          None \<Rightarrow> None
        | Some x \<Rightarrow>
            if \<not> text_context_ok x d then None
            else Some (nd_contexts_changed (d\<lparr>nd_last_text_context := max (tc_identity x) (nd_last_text_context d),
                    nd_text_contexts := AList.update (tc_identity x) x (nd_text_contexts d)\<rparr>)))"

definition obs_context_retired :: "string list \<Rightarrow> native \<Rightarrow> native option" where
  "obs_context_retired args d =
     (case args of
        [a] \<Rightarrow> map_option (\<lambda>n. nd_contexts_changed (d\<lparr>nd_text_contexts := AList.delete n (nd_text_contexts d)\<rparr>))
                 (field_int a 1 MAX_ID)
      | _ \<Rightarrow> None)"

definition obs_surrounding :: "string list \<Rightarrow> native \<Rightarrow> native option" where
  "obs_surrounding args d =
     (case args of
        [a, b, c, e] \<Rightarrow>
          (case (field_int a 0 4294967295, field_int b 0 4000) of
             (Some _, Some extent) \<Rightarrow>
               if nd_version d \<and> field_int c 0 extent \<noteq> None \<and> field_int e 0 extent \<noteq> None then Some d else None
           | _ \<Rightarrow> None)
      | _ \<Rightarrow> None)"

definition display_name_ok :: "string \<Rightarrow> bool" where
  "display_name_ok s =
     (s = ''-'' \<or> (case s of [] \<Rightarrow> False | c # t \<Rightarrow> c = CHR '':'' \<and> 1 \<le> length t \<and> length t \<le> 5 \<and> list_all digit_char t))"

definition obs_display :: "string list \<Rightarrow> native \<Rightarrow> native option" where
  "obs_display args d =
     (case (args, nd_display_query d) of
        ([name], Some k) \<Rightarrow>
          if nd_version d \<and> display_name_ok name
          then Some (nd_call (Display_done k (if name = ''-'' then None else Some name)) (d\<lparr>nd_display_query := None\<rparr>))
          else None
      | _ \<Rightarrow> None)"

definition obs_window_instance :: "string list \<Rightarrow> native \<Rightarrow> native option" where
  "obs_window_instance args d =
     (case args of
        [a] \<Rightarrow>
          (case field_int a 1 MAX_ID of
             None \<Rightarrow> None
           | Some wid \<Rightarrow>
               if \<not> nd_version d \<or> wid \<le> nd_last_window d \<or> 256 \<le> length (nd_declared d) then None
               else Some (d\<lparr>nd_declared := AList.update wid [] (nd_declared d), nd_last_window := wid\<rparr>))
      | _ \<Rightarrow> None)"

definition obs_title :: "string list \<Rightarrow> native \<Rightarrow> native option" where
  "obs_title args d =
     (case args of
        [a, encoded] \<Rightarrow>
          if \<not> nd_version d \<or> length encoded > 2048 then None
          else
            (case field_int a 1 MAX_ID of
               None \<Rightarrow> None
             | Some wid \<Rightarrow>
                 (case (map_of (nd_declared d) wid, title_of encoded) of
                    (Some old, Some title) \<Rightarrow>
                      Some (if old = title then d
                            else nd_notify Metadata_changed (d\<lparr>nd_declared := AList.update wid title (nd_declared d)\<rparr>))
                  | _ \<Rightarrow> None))
      | _ \<Rightarrow> None)"

definition obs_surface_instance :: "string list \<Rightarrow> native \<Rightarrow> native option" where
  "obs_surface_instance args d =
     (case args of
        [a] \<Rightarrow>
          (case field_int a 1 MAX_ID of
             None \<Rightarrow> None
           | Some sid \<Rightarrow>
               if \<not> nd_version d \<or> sid \<le> nd_last_surface d \<or> 4096 \<le> length (nd_surfaces d) then None
               else Some (d\<lparr>nd_last_surface := sid, nd_surfaces := List.insert sid (nd_surfaces d)\<rparr>))
      | _ \<Rightarrow> None)"

definition obs_surface_retired :: "string list \<Rightarrow> native \<Rightarrow> native option" where
  "obs_surface_retired args d =
     (case args of
        [a] \<Rightarrow>
          (case field_int a 1 MAX_ID of
             None \<Rightarrow> None
           | Some sid \<Rightarrow>
               let d1 = d\<lparr>nd_surfaces := removeAll sid (nd_surfaces d)\<rparr>
               in Some (case nd_focus d1 of
                          Some f \<Rightarrow> if nf_identity f = sid then nd_changed (d1\<lparr>nd_focus := None, nd_target := None\<rparr>) else d1
                        | None \<Rightarrow> d1))
      | _ \<Rightarrow> None)"

definition focus_fields :: "string list \<Rightarrow> native \<Rightarrow> native_focus option option" where
  "focus_fields args d =
     (case args of
        [a, b, c, e, f] \<Rightarrow>
          (case (field_int a 0 MAX_ID, field_int b 0 MAX_ID, field_int c 0 MAX_ID, field_int e 0 MAX_ID, field_int f 0 MAX_ID) of
             (Some sid, Some wid, Some pid, Some surface, Some ready) \<Rightarrow>
               if sid = 0 then (if wid = 0 \<and> pid = 0 \<and> surface = 0 \<and> ready = 0 then Some None else None)
               else if sid \<notin> set (nd_surfaces d) \<or> map_of (nd_declared d) wid = None \<or> pid = 0 \<or> surface = 0 \<or> 1 < ready then None
               else Some (Some \<lparr>nf_identity = sid, nf_window = wid, nf_pid = pid, nf_surface = surface, nf_available = (ready = 1)\<rparr>)
           | _ \<Rightarrow> None)
      | _ \<Rightarrow> None)"

definition obs_focus :: "string list \<Rightarrow> native \<Rightarrow> native option" where
  "obs_focus args d =
     (if \<not> nd_version d then None
      else
        case focus_fields args d of
          None \<Rightarrow> None
        | Some focus \<Rightarrow> Some (if focus = nd_focus d then d else nd_changed (d\<lparr>nd_focus := focus, nd_target := None\<rparr>)))"

definition window_fields :: "string list \<Rightarrow> native_window option" where
  "window_fields args =
     (case args of
        [a, b, protocol, c, e, f, g] \<Rightarrow>
          (case (field_int a 1 MAX_ID, field_int b 0 MAX_ID, field_int c (- 1) 2147483647,
                 field_int e 1 65536, field_int f 1 65536, field_int g 0 8) of
             (Some wid, Some parent, Some pid, Some width, Some height, Some mode) \<Rightarrow>
               if (protocol \<noteq> ''wayland'' \<and> protocol \<noteq> ''x11'') \<or> parent = wid then None
               else Some \<lparr>nw_window = wid, nw_parent = parent, nw_protocol = protocol, nw_pid = pid,
                 nw_width = width, nw_height = height, nw_mode = mode\<rparr>
           | _ \<Rightarrow> None)
      | _ \<Rightarrow> None)"

text \<open>\<open>mode & 4\<close>: the window is minimized.\<close>

definition minimized :: "int \<Rightarrow> bool" where
  "minimized m \<longleftrightarrow> odd (m div 4)"

definition window_ok :: "native_window \<Rightarrow> native \<Rightarrow> bool" where
  "window_ok w d \<longleftrightarrow>
     map_of (nd_declared d) (nw_window w) \<noteq> None \<and>
     (case map_of (nd_windows d) (nw_window w) of
        None \<Rightarrow> True
      | Some p \<Rightarrow> nw_protocol p = nw_protocol w \<and> nw_pid p = nw_pid w) \<and>
     (nw_parent w = 0 \<or> map_of (nd_declared d) (nw_parent w) \<noteq> None)"

text \<open>A change of a window that takes the target away; a decoration grab (mode 8) keeps it.\<close>

definition retargets :: "native_window option \<Rightarrow> native_window \<Rightarrow> bool" where
  "retargets previous w \<longleftrightarrow>
     minimized (nw_mode w) \<or>
     (case previous of None \<Rightarrow> False | Some p \<Rightarrow> nw_mode p = 8 \<and> nw_mode w \<noteq> 8) \<or>
     nw_mode w \<noteq> 8 \<and>
     (case previous of None \<Rightarrow> True
      | Some p \<Rightarrow> (nw_parent p, nw_width p, nw_height p) \<noteq> (nw_parent w, nw_width w, nw_height w))"

definition targets_window :: "native \<Rightarrow> int \<Rightarrow> bool" where
  "targets_window d wid = (case nd_target d of None \<Rightarrow> False | Some t \<Rightarrow> tg_window t = wid)"

definition obs_window_state :: "string list \<Rightarrow> native \<Rightarrow> native option" where
  "obs_window_state args d =
     (if \<not> nd_version d then None
      else
        case window_fields args of
          None \<Rightarrow> None
        | Some w \<Rightarrow>
            if \<not> window_ok w d then None
            else
              let previous = map_of (nd_windows d) (nw_window w);
                  d1 = d\<lparr>nd_windows := AList.update (nw_window w) w (nd_windows d)\<rparr>
              in Some (if previous = Some w then d1
                       else if targets_window d (nw_window w) \<and> retargets previous w then nd_changed (d1\<lparr>nd_target := None\<rparr>)
                       else nd_notify Metadata_changed d1))"

definition obs_window_x11 :: "string list \<Rightarrow> native \<Rightarrow> native option" where
  "obs_window_x11 args d =
     (case args of
        [a, b] \<Rightarrow>
          (case (field_int a 1 MAX_ID, field_int b 1 4294967295) of
             (Some wid, Some xid) \<Rightarrow>
               (case map_of (nd_windows d) wid of
                  None \<Rightarrow> None
                | Some w \<Rightarrow>
                    if \<not> nd_version d \<or> nw_protocol w \<noteq> ''x11'' \<or>
                       (map_of (nd_x11_windows d) wid \<noteq> None \<and> map_of (nd_x11_windows d) wid \<noteq> Some xid) \<or>
                       (\<exists>(other, value) \<in> set (nd_x11_windows d). other \<noteq> wid \<and> value = xid)
                    then None
                    else Some (d\<lparr>nd_x11_windows := AList.update wid xid (nd_x11_windows d)\<rparr>))
           | _ \<Rightarrow> None)
      | _ \<Rightarrow> None)"

definition obs_window_retired :: "string list \<Rightarrow> native \<Rightarrow> native option" where
  "obs_window_retired args d =
     (case args of
        [a] \<Rightarrow>
          (case field_int a 1 MAX_ID of
             None \<Rightarrow> None
           | Some wid \<Rightarrow>
               let d1 = d\<lparr>nd_windows := AList.delete wid (nd_windows d), nd_declared := AList.delete wid (nd_declared d),
                      nd_x11_windows := AList.delete wid (nd_x11_windows d)\<rparr>
               in Some (if targets_window d wid then nd_changed (d1\<lparr>nd_target := None\<rparr>) else d1))
      | _ \<Rightarrow> None)"

definition focus_ready :: "native \<Rightarrow> int \<Rightarrow> bool" where
  "focus_ready d wid = (case nd_focus d of None \<Rightarrow> False | Some f \<Rightarrow> nf_available f \<and> nf_window f = wid)"

definition obs_scene :: "string list \<Rightarrow> native \<Rightarrow> native option" where
  "obs_scene args d =
     (case args of
        [a, b] \<Rightarrow>
          (case (field_int a 1 MAX_ID, field_int b 0 MAX_ID) of
             (Some generation, Some wid) \<Rightarrow>
               if \<not> nd_version d \<or> generation \<le> nd_generation d then None
               else
                 (case map_of (nd_windows d) wid of
                    None \<Rightarrow>
                      if wid \<noteq> 0 then None else Some (nd_changed (d\<lparr>nd_generation := generation, nd_target := None\<rparr>))
                  | Some w \<Rightarrow>
                      if (wid \<noteq> 0 \<and> \<not> focus_ready d wid) \<or> minimized (nw_mode w) then None
                      else Some (nd_changed (d\<lparr>nd_generation := generation,
                             nd_target := Some \<lparr>tg_window = wid, tg_generation = generation\<rparr>\<rparr>)))
           | _ \<Rightarrow> None)
      | _ \<Rightarrow> None)"

definition obs_scene_at :: "string list \<Rightarrow> native \<Rightarrow> native option" where
  "obs_scene_at args d =
     (case (args, nd_query d) of
        ([a, b, c], Some k) \<Rightarrow>
          (case (py_int a, field_int b 0 MAX_ID, field_int c 0 MAX_ID) of
             (Some n, Some generation, Some window) \<Rightarrow>
               if n \<noteq> nd_query_id d then None
               else Some (nd_call (Scene_reported k window generation) (d\<lparr>nd_query := None\<rparr>))
           | _ \<Rightarrow> None)
      | _ \<Rightarrow> None)"

definition obs_damage :: "string list \<Rightarrow> native \<Rightarrow> native option" where
  "obs_damage args d =
     (case args of
        [a, b] \<Rightarrow> if field_int a 1 MAX_ID \<noteq> None \<and> field_int b 0 MAX_ID \<noteq> None then Some (nd_notify Damage d) else None
      | _ \<Rightarrow> None)"

definition ignored_kinds :: "string list" where
  "ignored_kinds = [''ready'', ''frame'', ''window-added'', ''window-mapped'', ''window-protocol'', ''window-restored'',
     ''window-removed'', ''context'', ''pointer'', ''capture-authorized'', ''connection-ready'', ''input-rejected'',
     ''selection-unavailable'', ''close-unavailable'', ''text-queued'', ''text-unavailable'']"

definition observe_record :: "string \<Rightarrow> string list \<Rightarrow> native \<Rightarrow> native option" where
  "observe_record kind args d =
     (if kind = ''native-version'' then obs_version args d
      else if kind \<in> {''client-barrier-done'', ''client-barrier-cancelled'', ''text-dispatched'', ''text-rejected''}
        then obs_text_response kind args d
      else if kind = ''text-context'' then obs_text_context args d
      else if kind = ''text-context-retired'' then obs_context_retired args d
      else if kind = ''context-surrounding'' then obs_surrounding args d
      else if kind = ''native-display'' then obs_display args d
      else if kind = ''window-instance'' then obs_window_instance args d
      else if kind = ''window-title'' then obs_title args d
      else if kind = ''surface-instance'' then obs_surface_instance args d
      else if kind = ''surface-retired'' then obs_surface_retired args d
      else if kind = ''focus'' then obs_focus args d
      else if kind = ''window-state'' then obs_window_state args d
      else if kind = ''window-x11'' then obs_window_x11 args d
      else if kind = ''window-retired'' then obs_window_retired args d
      else if kind = ''scene'' then obs_scene args d
      else if kind = ''scene-at'' then obs_scene_at args d
      else if kind = ''damage'' then obs_damage args d
      else if kind \<in> set ignored_kinds then Some d else None)"

definition nd_observe :: "(bytes \<Rightarrow> bytes) \<Rightarrow> string \<Rightarrow> native \<Rightarrow> bool \<times> native" where
  "nd_observe compress line d =
     (if nd_closed d then (False, d)
      else
        case py_split line of
          [] \<Rightarrow> (True, d)
        | kind # args \<Rightarrow>
            if kind \<in> {''clipboard-state'', ''clipboard-data'', ''clipboard-published'', ''clipboard-rejected''} then
              (if \<not> nd_version d then (True, d)
               else
                 let ((raised, done), d1) = nd_with_clipboard (\<lambda>c. case clip_observe (kind # args) c of (e, r, c') \<Rightarrow> ((e, r), c')) d
                 in (raised, nd_complete done d1))
            else if kind \<in> {''cursor-state'', ''cursor-data''} then
              (if \<not> nd_version d then (True, d) else nd_with_cursor (cu_observe compress (kind # args)) d)
            else (case observe_record kind args d of None \<Rightarrow> (True, d) | Some d1 \<Rightarrow> (False, d1)))"

text \<open>\<open>NativeChannel.read\<close> with the received bytes (none at the end of the stream).\<close>

definition nd_read :: "(bytes \<Rightarrow> bytes) \<Rightarrow> bytes \<Rightarrow> native \<Rightarrow> native" where
  "nd_read compress data d =
     (if ch_closed (nd_channel d) then d
      else if data = [] then nd_close_channel d
      else
        case read_lines (nd_observe compress) (\<lambda>u. ch_closed (nd_channel u)) (ch_input (nd_channel d) @ data) d of
          (Waits rest, u) \<Rightarrow> u\<lparr>nd_channel := (nd_channel u)\<lparr>ch_input := rest\<rparr>\<rparr>
        | (Read_raised, u) \<Rightarrow> nd_close_channel u
        | (Read_closed, u) \<Rightarrow> u)"

subsection \<open>Operations of the viewers\<close>

text \<open>\<open>snapshot\<close>; the lookup of a window's title could raise.\<close>

definition bool_bit :: "int \<Rightarrow> int \<Rightarrow> pyval" where
  "bool_bit m k = PBool (odd (m div k))"

definition window_snapshot :: "native \<Rightarrow> native_window \<Rightarrow> pyval option" where
  "window_snapshot d w =
     (case map_of (nd_declared d) (nw_window w) of
        None \<Rightarrow> None
      | Some title \<Rightarrow> Some (PDict
          [(py ''window'', PInt (nw_window w)), (py ''parent'', if nw_parent w = 0 then PNone else PInt (nw_parent w)),
           (py ''protocol'', PStr (py (nw_protocol w))), (py ''width'', PInt (nw_width w)), (py ''height'', PInt (nw_height w)),
           (py ''title'', PStr title), (py ''maximized'', bool_bit (nw_mode w) 1), (py ''fullscreen'', bool_bit (nw_mode w) 2),
           (py ''minimized'', bool_bit (nw_mode w) 4), (py ''interacting'', bool_bit (nw_mode w) 8)]))"

definition nd_snapshot :: "native \<Rightarrow> pyval option" where
  "nd_snapshot d =
     map_option (\<lambda>ws. PDict
       [(py ''state'', PStr (py (if nd_closed d then ''unavailable'' else if nd_target d \<noteq> None then ''running'' else ''waiting''))),
        (py ''window'', case nd_target d of None \<Rightarrow> PNone | Some t \<Rightarrow> PInt (tg_window t)),
        (py ''generation'', PInt (nd_generation d)), (py ''windows'', PList ws)])
       (those (map (window_snapshot d \<circ> snd) (nd_windows d)))"

definition nd_query_display :: "nat \<Rightarrow> native \<Rightarrow> bool \<times> native" where
  "nd_query_display k d =
     (if nd_closed d \<or> \<not> nd_version d \<or> nd_display_requested d then (True, d)
      else
        case nd_send ''display-query\<newline>'' (d\<lparr>nd_display_requested := True, nd_display_query := Some k\<rparr>) of
          (raised, u) \<Rightarrow> (False, if raised then nd_lost u else u))"

definition nd_query_scene :: "nat \<Rightarrow> native \<Rightarrow> bool \<times> native" where
  "nd_query_scene k d =
     (if nd_closed d \<or> nd_query d \<noteq> None \<or> nd_query_id d + 1 > MAX_ID then (True, d)
      else
        let n = nd_query_id d + 1
        in nd_send (''scene-query '' @ py_str n @ ''\<newline>'') (d\<lparr>nd_query_id := n, nd_query := Some k\<rparr>))"

definition nd_bind :: "int \<Rightarrow> native \<Rightarrow> bool \<times> native" where
  "nd_bind epoch d =
     (if \<not> (1 \<le> epoch \<and> epoch \<le> MAX_ID) \<or> \<not> nd_version d \<or> epoch \<le> nd_last_epoch d then (True, d)
      else
        let d1 = nd_call (Frames_configured None) (d\<lparr>nd_epoch := epoch, nd_last_epoch := epoch\<rparr>)
        in if nd_closed d1 then (False, d1) else nd_send (''connection '' @ py_str epoch @ ''\<newline>'') d1)"

text \<open>\<open>register_attachment\<close> returns \<open>nd_epoch\<close> of the state it leaves.\<close>

definition nd_register :: "nat \<Rightarrow> int \<Rightarrow> native \<Rightarrow> bool \<times> native" where
  "nd_register a epoch d =
     (if \<not> nd_version d then (True, d)
      else
        let first = nd_attachments d = [];
            d1 = d\<lparr>nd_attachments := (if a \<in> set (nd_attachments d) then nd_attachments d else nd_attachments d @ [a]),
                   nd_attachment := (case nd_attachment d of None \<Rightarrow> Some a | Some b \<Rightarrow> Some b)\<rparr>
        in if first then nd_bind (max epoch (nd_last_epoch d1 + 1)) d1 else (False, d1))"

definition nd_release :: "int \<Rightarrow> native \<Rightarrow> bool \<times> native" where
  "nd_release epoch d =
     (if \<not> nd_closed d \<and> epoch = nd_epoch d then nd_send (''release '' @ py_str epoch @ ''\<newline>'') d else (False, d))"

definition nd_unbind :: "int \<Rightarrow> native \<Rightarrow> bool \<times> native" where
  "nd_unbind epoch d =
     (if nd_closed d \<or> epoch \<noteq> nd_epoch d then (False, nd_call Frames_cancelled d)
      else
        case nd_send (''detach '' @ py_str epoch @ ''\<newline>'') d of
          (True, u) \<Rightarrow> (True, u)
        | (False, u) \<Rightarrow>
            (False, nd_call Frames_cancelled
               (snd (nd_with_clipboard (\<lambda>c. ((), clip_invalidate c))
                 (snd (nd_with_cursor (\<lambda>c. ((), cu_invalidate c)) (u\<lparr>nd_epoch := 0\<rparr>)))))))"

definition remaining_attachment :: "nat \<Rightarrow> nat list \<Rightarrow> nat option \<Rightarrow> nat option" where
  "remaining_attachment a left current =
     (if current = Some a then (case left of [] \<Rightarrow> None | b # _ \<Rightarrow> Some b) else current)"

definition nd_unregister :: "nat \<Rightarrow> native \<Rightarrow> bool \<times> native" where
  "nd_unregister a d =
     (let d1 = d\<lparr>nd_attachments := removeAll a (nd_attachments d)\<rparr>;
          d2 = d1\<lparr>nd_attachment := remaining_attachment a (nd_attachments d1) (nd_attachment d1),
                 nd_waiters := filter (\<lambda>w. cw_attachment w \<noteq> a) (nd_waiters d1)\<rparr>
      in if nd_attachments d2 = [] \<and> nd_epoch d2 \<noteq> 0 then nd_unbind (nd_epoch d2) d2 else (False, d2))"

text \<open>\<open>select\<close> and \<open>close_window\<close>.\<close>

definition window_command :: "string \<Rightarrow> int \<Rightarrow> native \<Rightarrow> bool \<times> native" where
  "window_command name window d =
     (if \<not> (1 \<le> window \<and> window \<le> MAX_ID) \<or> nd_closed d \<or> nd_epoch d = 0 \<or> map_of (nd_windows d) window = None then (True, d)
      else nd_send (name @ '' '' @ py_str (nd_epoch d) @ '' '' @ py_str window @ ''\<newline>'') d)"

definition nd_select :: "int \<Rightarrow> native \<Rightarrow> bool \<times> native" where
  "nd_select = window_command ''select''"

definition nd_close_window :: "int \<Rightarrow> native \<Rightarrow> bool \<times> native" where
  "nd_close_window = window_command ''close-window''"

definition nd_submit :: "int \<Rightarrow> native_target \<Rightarrow> string list \<Rightarrow> native \<Rightarrow> bool \<times> native" where
  "nd_submit epoch target commands d =
     (if \<not> submit_ok epoch target (native_view_of d) then (True, d)
      else nd_send (concat (map (submit_record epoch target) commands)) d)"

definition nd_sync_clipboard :: "int \<Rightarrow> native_target \<Rightarrow> native \<Rightarrow> bool \<times> native" where
  "nd_sync_clipboard epoch target = nd_submit epoch target [''clipboard-sync'']"

subsection \<open>Confirmed text\<close>

text \<open>
  \<open>text_operation\<close>: a barrier, or the text of a context. The request it returns is the record kept in
  \<open>nd_text_request\<close>; its sequence number identifies it.
\<close>

definition text_command :: "int \<Rightarrow> (int \<times> pystr) option \<Rightarrow> string option" where
  "text_command sequence content =
     (case content of
        None \<Rightarrow> Some (''client-barrier '' @ py_str sequence)
      | Some (context, x) \<Rightarrow>
          map_option (\<lambda>b. ''text-commit '' @ py_str sequence @ '' '' @ py_str context @ '' '' @ to_hex b) (utf8_encode x))"

definition nd_text_operation ::
  "int \<Rightarrow> native_target \<Rightarrow> (int \<times> pystr) option \<Rightarrow> nat \<Rightarrow> native \<Rightarrow> text_request option \<times> native" where
  "nd_text_operation epoch target content k d =
     (if nd_text_request d \<noteq> None \<or> nd_last_text_request d + 1 > MAX_ID then (None, d)
      else
        let n = nd_last_text_request d + 1; d1 = d\<lparr>nd_last_text_request := n\<rparr>
        in (case text_command n content of
              None \<Rightarrow> (None, d1)
            | Some command \<Rightarrow>
                let r = \<lparr>tr_sequence = n, tr_barrier = (content = None), tr_epoch = epoch, tr_target = target, tr_ticket = k\<rparr>
                in (case nd_submit epoch target [command] (d1\<lparr>nd_text_request := Some r\<rparr>) of
                      (True, u) \<Rightarrow> (None, u\<lparr>nd_text_request := None\<rparr>)
                    | (False, u) \<Rightarrow> (Some r, u))))"

definition nd_cancel_text :: "text_request \<Rightarrow> native \<Rightarrow> bool \<times> native" where
  "nd_cancel_text r d =
     (if nd_text_request d \<noteq> Some r then (False, d)
      else
        let d1 = d\<lparr>nd_text_request := None\<rparr>
        in if \<not> nd_closed d1 \<and> tr_barrier r then nd_send (''cancel-barrier '' @ py_str (tr_sequence r) @ ''\<newline>'') d1
           else (False, d1))"

subsection \<open>Sharing one capture\<close>

text \<open>
  All viewers share one capture object. \<open>_start_capture\<close> meets one of three outcomes of its \<open>capture\<close>:
  it begins, it answers before it returns, or it raises. \<open>_capture_completed\<close> hands the result to the
  waiters in turn; each callback may call back into the registry, so handing over is a step of its own
  (\<open>nd_dispatch\<close> holds the waiters not yet served).
\<close>

datatype capture_outcome = Begun | Answered capture_result | Refused_capture

definition nd_capture_result :: "capture_result \<Rightarrow> native \<Rightarrow> native" where
  "nd_capture_result r d = d\<lparr>nd_capturing := False, nd_dispatch := Some (nd_waiters d, r), nd_waiters := []\<rparr>"

definition nd_start_capture :: "capture_outcome \<Rightarrow> native_target \<Rightarrow> native \<Rightarrow> native" where
  "nd_start_capture outcome target d =
     (if nd_capturing d \<or> nd_waiters d = [] then d
      else
        let d1 = nd_call (Frames_capture target) (d\<lparr>nd_capturing := True\<rparr>)
        in (case outcome of
              Begun \<Rightarrow> d1
            | Answered r \<Rightarrow> nd_capture_result r d1
            | Refused_capture \<Rightarrow>
                fold (\<lambda>w. nd_call (Capture_done w (Capture_failed CAPTURE_UNAVAILABLE))) (nd_waiters d1)
                  (d1\<lparr>nd_capturing := False, nd_waiters := []\<rparr>)))"

definition nd_capture :: "capture_outcome \<Rightarrow> capture_waiter \<Rightarrow> native \<Rightarrow> bool \<times> native" where
  "nd_capture outcome w d =
     (if nd_closed d \<or> nd_target d \<noteq> Some (cw_target w) then (True, d)
      else
        let d1 = d\<lparr>nd_waiters := nd_waiters d @ [w]\<rparr>
        in (False, if \<not> nd_capturing d1 \<and> nd_dispatch d1 = None then nd_start_capture outcome (cw_target w) d1 else d1))"

definition nd_hand_over :: "capture_outcome \<Rightarrow> native \<Rightarrow> native" where
  "nd_hand_over outcome d =
     (case nd_dispatch d of
        None \<Rightarrow> d
      | Some (w # ws, r) \<Rightarrow>
          let d1 = d\<lparr>nd_dispatch := Some (ws, r)\<rparr>
          in if cw_attachment w \<in> set (nd_attachments d1) then nd_call (Capture_done w r) d1 else d1
      | Some ([], r) \<Rightarrow>
          let d1 = d\<lparr>nd_dispatch := None\<rparr>
          in (case nd_waiters d1 of
                [] \<Rightarrow> d1
              | w # _ \<Rightarrow> if nd_closed d1 then d1 else nd_start_capture outcome (cw_target w) d1))"

end
