(* ===== verification/Native_Registry.thy ===== *)
theory Native_Registry
  imports Native_Scene
begin

section \<open>The invariant of the native scene\<close>

text \<open>
  What \<open>observe\<close> and the viewers' operations keep of the registry: windows stay declared, IDs only grow
  and stay within their limits, and the target is a ready, focused window of the newest generation.
\<close>

subsection \<open>The parts of the invariant\<close>

text \<open>Logging, notifying and running a component leave the registry itself alone.\<close>

lemma nd_call_fields [simp]:
  "nd_attachment (nd_call c d) = nd_attachment d"
  "nd_attachments (nd_call c d) = nd_attachments d"
  "nd_target (nd_call c d) = nd_target d"
  "nd_waiters (nd_call c d) = nd_waiters d"
  "nd_capturing (nd_call c d) = nd_capturing d"
  "nd_dispatch (nd_call c d) = nd_dispatch d"
  "nd_contexts (nd_call c d) = nd_contexts d"
  "nd_windows (nd_call c d) = nd_windows d"
  "nd_declared (nd_call c d) = nd_declared d"
  "nd_last_window (nd_call c d) = nd_last_window d"
  "nd_generation (nd_call c d) = nd_generation d"
  "nd_x11_windows (nd_call c d) = nd_x11_windows d"
  "nd_surfaces (nd_call c d) = nd_surfaces d"
  "nd_last_surface (nd_call c d) = nd_last_surface d"
  "nd_focus (nd_call c d) = nd_focus d"
  "nd_epoch (nd_call c d) = nd_epoch d"
  "nd_last_epoch (nd_call c d) = nd_last_epoch d"
  "nd_query (nd_call c d) = nd_query d"
  "nd_query_id (nd_call c d) = nd_query_id d"
  "nd_display_requested (nd_call c d) = nd_display_requested d"
  "nd_display_query (nd_call c d) = nd_display_query d"
  "nd_version (nd_call c d) = nd_version d"
  "nd_closed (nd_call c d) = nd_closed d"
  "nd_text_contexts (nd_call c d) = nd_text_contexts d"
  "nd_last_text_context (nd_call c d) = nd_last_text_context d"
  "nd_text_request (nd_call c d) = nd_text_request d"
  "nd_last_text_request (nd_call c d) = nd_last_text_request d"
  "nd_channel (nd_call c d) = nd_channel d"
  "nd_cursor (nd_call c d) = nd_cursor d"
  "nd_clipboard (nd_call c d) = nd_clipboard d"
  by (simp_all add: nd_call_def)

lemma nd_notify_fields [simp]:
  "nd_attachment (nd_notify n d) = nd_attachment d"
  "nd_attachments (nd_notify n d) = nd_attachments d"
  "nd_target (nd_notify n d) = nd_target d"
  "nd_waiters (nd_notify n d) = nd_waiters d"
  "nd_capturing (nd_notify n d) = nd_capturing d"
  "nd_dispatch (nd_notify n d) = nd_dispatch d"
  "nd_contexts (nd_notify n d) = nd_contexts d"
  "nd_windows (nd_notify n d) = nd_windows d"
  "nd_declared (nd_notify n d) = nd_declared d"
  "nd_last_window (nd_notify n d) = nd_last_window d"
  "nd_generation (nd_notify n d) = nd_generation d"
  "nd_x11_windows (nd_notify n d) = nd_x11_windows d"
  "nd_surfaces (nd_notify n d) = nd_surfaces d"
  "nd_last_surface (nd_notify n d) = nd_last_surface d"
  "nd_focus (nd_notify n d) = nd_focus d"
  "nd_epoch (nd_notify n d) = nd_epoch d"
  "nd_last_epoch (nd_notify n d) = nd_last_epoch d"
  "nd_query (nd_notify n d) = nd_query d"
  "nd_query_id (nd_notify n d) = nd_query_id d"
  "nd_display_requested (nd_notify n d) = nd_display_requested d"
  "nd_display_query (nd_notify n d) = nd_display_query d"
  "nd_version (nd_notify n d) = nd_version d"
  "nd_closed (nd_notify n d) = nd_closed d"
  "nd_text_contexts (nd_notify n d) = nd_text_contexts d"
  "nd_last_text_context (nd_notify n d) = nd_last_text_context d"
  "nd_text_request (nd_notify n d) = nd_text_request d"
  "nd_last_text_request (nd_notify n d) = nd_last_text_request d"
  "nd_channel (nd_notify n d) = nd_channel d"
  "nd_cursor (nd_notify n d) = nd_cursor d"
  "nd_clipboard (nd_notify n d) = nd_clipboard d"
  by (simp_all add: nd_notify_def)

lemma nd_notify_many [simp]:
  "nd_attachment ((nd_notify n ^^ k) d) = nd_attachment d"
  "nd_attachments ((nd_notify n ^^ k) d) = nd_attachments d"
  "nd_target ((nd_notify n ^^ k) d) = nd_target d"
  "nd_waiters ((nd_notify n ^^ k) d) = nd_waiters d"
  "nd_capturing ((nd_notify n ^^ k) d) = nd_capturing d"
  "nd_dispatch ((nd_notify n ^^ k) d) = nd_dispatch d"
  "nd_contexts ((nd_notify n ^^ k) d) = nd_contexts d"
  "nd_windows ((nd_notify n ^^ k) d) = nd_windows d"
  "nd_declared ((nd_notify n ^^ k) d) = nd_declared d"
  "nd_last_window ((nd_notify n ^^ k) d) = nd_last_window d"
  "nd_generation ((nd_notify n ^^ k) d) = nd_generation d"
  "nd_x11_windows ((nd_notify n ^^ k) d) = nd_x11_windows d"
  "nd_surfaces ((nd_notify n ^^ k) d) = nd_surfaces d"
  "nd_last_surface ((nd_notify n ^^ k) d) = nd_last_surface d"
  "nd_focus ((nd_notify n ^^ k) d) = nd_focus d"
  "nd_epoch ((nd_notify n ^^ k) d) = nd_epoch d"
  "nd_last_epoch ((nd_notify n ^^ k) d) = nd_last_epoch d"
  "nd_query ((nd_notify n ^^ k) d) = nd_query d"
  "nd_query_id ((nd_notify n ^^ k) d) = nd_query_id d"
  "nd_display_requested ((nd_notify n ^^ k) d) = nd_display_requested d"
  "nd_display_query ((nd_notify n ^^ k) d) = nd_display_query d"
  "nd_version ((nd_notify n ^^ k) d) = nd_version d"
  "nd_closed ((nd_notify n ^^ k) d) = nd_closed d"
  "nd_text_contexts ((nd_notify n ^^ k) d) = nd_text_contexts d"
  "nd_last_text_context ((nd_notify n ^^ k) d) = nd_last_text_context d"
  "nd_text_request ((nd_notify n ^^ k) d) = nd_text_request d"
  "nd_last_text_request ((nd_notify n ^^ k) d) = nd_last_text_request d"
  "nd_channel ((nd_notify n ^^ k) d) = nd_channel d"
  "nd_cursor ((nd_notify n ^^ k) d) = nd_cursor d"
  "nd_clipboard ((nd_notify n ^^ k) d) = nd_clipboard d"
  by (induction k) simp_all

lemma nd_notify_fold [simp]:
  "nd_attachment (fold (\<lambda>x. nd_notify (f x)) xs d) = nd_attachment d"
  "nd_attachments (fold (\<lambda>x. nd_notify (f x)) xs d) = nd_attachments d"
  "nd_target (fold (\<lambda>x. nd_notify (f x)) xs d) = nd_target d"
  "nd_waiters (fold (\<lambda>x. nd_notify (f x)) xs d) = nd_waiters d"
  "nd_capturing (fold (\<lambda>x. nd_notify (f x)) xs d) = nd_capturing d"
  "nd_dispatch (fold (\<lambda>x. nd_notify (f x)) xs d) = nd_dispatch d"
  "nd_contexts (fold (\<lambda>x. nd_notify (f x)) xs d) = nd_contexts d"
  "nd_windows (fold (\<lambda>x. nd_notify (f x)) xs d) = nd_windows d"
  "nd_declared (fold (\<lambda>x. nd_notify (f x)) xs d) = nd_declared d"
  "nd_last_window (fold (\<lambda>x. nd_notify (f x)) xs d) = nd_last_window d"
  "nd_generation (fold (\<lambda>x. nd_notify (f x)) xs d) = nd_generation d"
  "nd_x11_windows (fold (\<lambda>x. nd_notify (f x)) xs d) = nd_x11_windows d"
  "nd_surfaces (fold (\<lambda>x. nd_notify (f x)) xs d) = nd_surfaces d"
  "nd_last_surface (fold (\<lambda>x. nd_notify (f x)) xs d) = nd_last_surface d"
  "nd_focus (fold (\<lambda>x. nd_notify (f x)) xs d) = nd_focus d"
  "nd_epoch (fold (\<lambda>x. nd_notify (f x)) xs d) = nd_epoch d"
  "nd_last_epoch (fold (\<lambda>x. nd_notify (f x)) xs d) = nd_last_epoch d"
  "nd_query (fold (\<lambda>x. nd_notify (f x)) xs d) = nd_query d"
  "nd_query_id (fold (\<lambda>x. nd_notify (f x)) xs d) = nd_query_id d"
  "nd_display_requested (fold (\<lambda>x. nd_notify (f x)) xs d) = nd_display_requested d"
  "nd_display_query (fold (\<lambda>x. nd_notify (f x)) xs d) = nd_display_query d"
  "nd_version (fold (\<lambda>x. nd_notify (f x)) xs d) = nd_version d"
  "nd_closed (fold (\<lambda>x. nd_notify (f x)) xs d) = nd_closed d"
  "nd_text_contexts (fold (\<lambda>x. nd_notify (f x)) xs d) = nd_text_contexts d"
  "nd_last_text_context (fold (\<lambda>x. nd_notify (f x)) xs d) = nd_last_text_context d"
  "nd_text_request (fold (\<lambda>x. nd_notify (f x)) xs d) = nd_text_request d"
  "nd_last_text_request (fold (\<lambda>x. nd_notify (f x)) xs d) = nd_last_text_request d"
  "nd_channel (fold (\<lambda>x. nd_notify (f x)) xs d) = nd_channel d"
  "nd_cursor (fold (\<lambda>x. nd_notify (f x)) xs d) = nd_cursor d"
  "nd_clipboard (fold (\<lambda>x. nd_notify (f x)) xs d) = nd_clipboard d"
  by (induction xs arbitrary: d) simp_all

lemma nd_with_cursor_fields [simp]:
  "nd_attachment (snd (nd_with_cursor f d)) = nd_attachment d"
  "nd_attachments (snd (nd_with_cursor f d)) = nd_attachments d"
  "nd_target (snd (nd_with_cursor f d)) = nd_target d"
  "nd_waiters (snd (nd_with_cursor f d)) = nd_waiters d"
  "nd_capturing (snd (nd_with_cursor f d)) = nd_capturing d"
  "nd_dispatch (snd (nd_with_cursor f d)) = nd_dispatch d"
  "nd_contexts (snd (nd_with_cursor f d)) = nd_contexts d"
  "nd_windows (snd (nd_with_cursor f d)) = nd_windows d"
  "nd_declared (snd (nd_with_cursor f d)) = nd_declared d"
  "nd_last_window (snd (nd_with_cursor f d)) = nd_last_window d"
  "nd_generation (snd (nd_with_cursor f d)) = nd_generation d"
  "nd_x11_windows (snd (nd_with_cursor f d)) = nd_x11_windows d"
  "nd_surfaces (snd (nd_with_cursor f d)) = nd_surfaces d"
  "nd_last_surface (snd (nd_with_cursor f d)) = nd_last_surface d"
  "nd_focus (snd (nd_with_cursor f d)) = nd_focus d"
  "nd_epoch (snd (nd_with_cursor f d)) = nd_epoch d"
  "nd_last_epoch (snd (nd_with_cursor f d)) = nd_last_epoch d"
  "nd_query (snd (nd_with_cursor f d)) = nd_query d"
  "nd_query_id (snd (nd_with_cursor f d)) = nd_query_id d"
  "nd_display_requested (snd (nd_with_cursor f d)) = nd_display_requested d"
  "nd_display_query (snd (nd_with_cursor f d)) = nd_display_query d"
  "nd_version (snd (nd_with_cursor f d)) = nd_version d"
  "nd_closed (snd (nd_with_cursor f d)) = nd_closed d"
  "nd_text_contexts (snd (nd_with_cursor f d)) = nd_text_contexts d"
  "nd_last_text_context (snd (nd_with_cursor f d)) = nd_last_text_context d"
  "nd_text_request (snd (nd_with_cursor f d)) = nd_text_request d"
  "nd_last_text_request (snd (nd_with_cursor f d)) = nd_last_text_request d"
  "nd_clipboard (snd (nd_with_cursor f d)) = nd_clipboard d"
  by (simp_all add: nd_with_cursor_def Let_def split: prod.split)

lemma nd_with_clipboard_fields [simp]:
  "nd_attachment (snd (nd_with_clipboard f d)) = nd_attachment d"
  "nd_attachments (snd (nd_with_clipboard f d)) = nd_attachments d"
  "nd_target (snd (nd_with_clipboard f d)) = nd_target d"
  "nd_waiters (snd (nd_with_clipboard f d)) = nd_waiters d"
  "nd_capturing (snd (nd_with_clipboard f d)) = nd_capturing d"
  "nd_dispatch (snd (nd_with_clipboard f d)) = nd_dispatch d"
  "nd_contexts (snd (nd_with_clipboard f d)) = nd_contexts d"
  "nd_windows (snd (nd_with_clipboard f d)) = nd_windows d"
  "nd_declared (snd (nd_with_clipboard f d)) = nd_declared d"
  "nd_last_window (snd (nd_with_clipboard f d)) = nd_last_window d"
  "nd_generation (snd (nd_with_clipboard f d)) = nd_generation d"
  "nd_x11_windows (snd (nd_with_clipboard f d)) = nd_x11_windows d"
  "nd_surfaces (snd (nd_with_clipboard f d)) = nd_surfaces d"
  "nd_last_surface (snd (nd_with_clipboard f d)) = nd_last_surface d"
  "nd_focus (snd (nd_with_clipboard f d)) = nd_focus d"
  "nd_epoch (snd (nd_with_clipboard f d)) = nd_epoch d"
  "nd_last_epoch (snd (nd_with_clipboard f d)) = nd_last_epoch d"
  "nd_query (snd (nd_with_clipboard f d)) = nd_query d"
  "nd_query_id (snd (nd_with_clipboard f d)) = nd_query_id d"
  "nd_display_requested (snd (nd_with_clipboard f d)) = nd_display_requested d"
  "nd_display_query (snd (nd_with_clipboard f d)) = nd_display_query d"
  "nd_version (snd (nd_with_clipboard f d)) = nd_version d"
  "nd_closed (snd (nd_with_clipboard f d)) = nd_closed d"
  "nd_text_contexts (snd (nd_with_clipboard f d)) = nd_text_contexts d"
  "nd_last_text_context (snd (nd_with_clipboard f d)) = nd_last_text_context d"
  "nd_text_request (snd (nd_with_clipboard f d)) = nd_text_request d"
  "nd_last_text_request (snd (nd_with_clipboard f d)) = nd_last_text_request d"
  "nd_cursor (snd (nd_with_clipboard f d)) = nd_cursor d"
  by (simp_all add: nd_with_clipboard_def Let_def split: prod.split)

lemma nd_changed_fields [simp]:
  "nd_attachment (nd_changed d) = nd_attachment d"
  "nd_attachments (nd_changed d) = nd_attachments d"
  "nd_target (nd_changed d) = nd_target d"
  "nd_waiters (nd_changed d) = nd_waiters d"
  "nd_capturing (nd_changed d) = nd_capturing d"
  "nd_dispatch (nd_changed d) = nd_dispatch d"
  "nd_contexts (nd_changed d) = nd_contexts d"
  "nd_windows (nd_changed d) = nd_windows d"
  "nd_declared (nd_changed d) = nd_declared d"
  "nd_last_window (nd_changed d) = nd_last_window d"
  "nd_generation (nd_changed d) = nd_generation d"
  "nd_x11_windows (nd_changed d) = nd_x11_windows d"
  "nd_surfaces (nd_changed d) = nd_surfaces d"
  "nd_last_surface (nd_changed d) = nd_last_surface d"
  "nd_focus (nd_changed d) = nd_focus d"
  "nd_epoch (nd_changed d) = nd_epoch d"
  "nd_last_epoch (nd_changed d) = nd_last_epoch d"
  "nd_query (nd_changed d) = nd_query d"
  "nd_query_id (nd_changed d) = nd_query_id d"
  "nd_display_requested (nd_changed d) = nd_display_requested d"
  "nd_display_query (nd_changed d) = nd_display_query d"
  "nd_version (nd_changed d) = nd_version d"
  "nd_closed (nd_changed d) = nd_closed d"
  "nd_text_contexts (nd_changed d) = nd_text_contexts d"
  "nd_last_text_context (nd_changed d) = nd_last_text_context d"
  "nd_text_request (nd_changed d) = nd_text_request d"
  "nd_last_text_request (nd_changed d) = nd_last_text_request d"
  by (simp_all add: nd_changed_def)

lemma nd_complete_fields [simp]:
  "nd_attachment (nd_complete c d) = nd_attachment d"
  "nd_attachments (nd_complete c d) = nd_attachments d"
  "nd_target (nd_complete c d) = nd_target d"
  "nd_waiters (nd_complete c d) = nd_waiters d"
  "nd_capturing (nd_complete c d) = nd_capturing d"
  "nd_dispatch (nd_complete c d) = nd_dispatch d"
  "nd_contexts (nd_complete c d) = nd_contexts d"
  "nd_windows (nd_complete c d) = nd_windows d"
  "nd_declared (nd_complete c d) = nd_declared d"
  "nd_last_window (nd_complete c d) = nd_last_window d"
  "nd_generation (nd_complete c d) = nd_generation d"
  "nd_x11_windows (nd_complete c d) = nd_x11_windows d"
  "nd_surfaces (nd_complete c d) = nd_surfaces d"
  "nd_last_surface (nd_complete c d) = nd_last_surface d"
  "nd_focus (nd_complete c d) = nd_focus d"
  "nd_epoch (nd_complete c d) = nd_epoch d"
  "nd_last_epoch (nd_complete c d) = nd_last_epoch d"
  "nd_query (nd_complete c d) = nd_query d"
  "nd_query_id (nd_complete c d) = nd_query_id d"
  "nd_display_requested (nd_complete c d) = nd_display_requested d"
  "nd_display_query (nd_complete c d) = nd_display_query d"
  "nd_version (nd_complete c d) = nd_version d"
  "nd_closed (nd_complete c d) = nd_closed d"
  "nd_text_contexts (nd_complete c d) = nd_text_contexts d"
  "nd_last_text_context (nd_complete c d) = nd_last_text_context d"
  "nd_text_request (nd_complete c d) = nd_text_request d"
  "nd_last_text_request (nd_complete c d) = nd_last_text_request d"
  "nd_channel (nd_complete c d) = nd_channel d"
  "nd_cursor (nd_complete c d) = nd_cursor d"
  "nd_clipboard (nd_complete c d) = nd_clipboard d"
  by (simp_all add: nd_complete_def split: option.split)

lemma nd_contexts_changed_fields [simp]:
  "nd_attachment (nd_contexts_changed d) = nd_attachment d"
  "nd_attachments (nd_contexts_changed d) = nd_attachments d"
  "nd_target (nd_contexts_changed d) = nd_target d"
  "nd_waiters (nd_contexts_changed d) = nd_waiters d"
  "nd_capturing (nd_contexts_changed d) = nd_capturing d"
  "nd_dispatch (nd_contexts_changed d) = nd_dispatch d"
  "nd_contexts (nd_contexts_changed d) = nd_contexts d"
  "nd_windows (nd_contexts_changed d) = nd_windows d"
  "nd_declared (nd_contexts_changed d) = nd_declared d"
  "nd_last_window (nd_contexts_changed d) = nd_last_window d"
  "nd_generation (nd_contexts_changed d) = nd_generation d"
  "nd_x11_windows (nd_contexts_changed d) = nd_x11_windows d"
  "nd_surfaces (nd_contexts_changed d) = nd_surfaces d"
  "nd_last_surface (nd_contexts_changed d) = nd_last_surface d"
  "nd_focus (nd_contexts_changed d) = nd_focus d"
  "nd_epoch (nd_contexts_changed d) = nd_epoch d"
  "nd_last_epoch (nd_contexts_changed d) = nd_last_epoch d"
  "nd_query (nd_contexts_changed d) = nd_query d"
  "nd_query_id (nd_contexts_changed d) = nd_query_id d"
  "nd_display_requested (nd_contexts_changed d) = nd_display_requested d"
  "nd_display_query (nd_contexts_changed d) = nd_display_query d"
  "nd_version (nd_contexts_changed d) = nd_version d"
  "nd_closed (nd_contexts_changed d) = nd_closed d"
  "nd_text_contexts (nd_contexts_changed d) = nd_text_contexts d"
  "nd_last_text_context (nd_contexts_changed d) = nd_last_text_context d"
  "nd_text_request (nd_contexts_changed d) = nd_text_request d"
  "nd_last_text_request (nd_contexts_changed d) = nd_last_text_request d"
  "nd_channel (nd_contexts_changed d) = nd_channel d"
  "nd_cursor (nd_contexts_changed d) = nd_cursor d"
  "nd_clipboard (nd_contexts_changed d) = nd_clipboard d"
  by (simp_all add: nd_contexts_changed_def)

definition windows_ok :: "native \<Rightarrow> bool" where
  "windows_ok d \<longleftrightarrow>
     distinct (map fst (nd_declared d)) \<and> (\<forall>k \<in> fst ` set (nd_declared d). 1 \<le> k \<and> k \<le> nd_last_window d) \<and>
     length (nd_declared d) \<le> 256 \<and> 0 \<le> nd_last_window d \<and>
     distinct (map fst (nd_windows d)) \<and> fst ` set (nd_windows d) \<subseteq> fst ` set (nd_declared d) \<and>
     (\<forall>k w. map_of (nd_windows d) k = Some w \<longrightarrow> nw_window w = k) \<and>
     distinct (map fst (nd_x11_windows d)) \<and> fst ` set (nd_x11_windows d) \<subseteq> fst ` set (nd_windows d) \<and>
     (\<forall>j k x. map_of (nd_x11_windows d) j = Some x \<longrightarrow> map_of (nd_x11_windows d) k = Some x \<longrightarrow> j = k)"

definition surfaces_ok :: "native \<Rightarrow> bool" where
  "surfaces_ok d \<longleftrightarrow>
     distinct (nd_surfaces d) \<and> (\<forall>k \<in> set (nd_surfaces d). 1 \<le> k \<and> k \<le> nd_last_surface d) \<and>
     length (nd_surfaces d) \<le> 4096 \<and> 0 \<le> nd_last_surface d \<and>
     (\<forall>f. nd_focus d = Some f \<longrightarrow> nf_identity f \<in> set (nd_surfaces d))"

definition contexts_ok :: "native \<Rightarrow> bool" where
  "contexts_ok d \<longleftrightarrow>
     distinct (map fst (nd_text_contexts d)) \<and> length (nd_text_contexts d) \<le> 64 \<and> 0 \<le> nd_last_text_context d \<and>
     (\<forall>k \<in> fst ` set (nd_text_contexts d). 1 \<le> k \<and> k \<le> nd_last_text_context d)"

text \<open>The target is a declared window that is not minimized, holds the ready focus, and carries the
  newest generation.\<close>

definition scene_ok :: "native \<Rightarrow> bool" where
  "scene_ok d \<longleftrightarrow>
     0 \<le> nd_generation d \<and>
     (\<forall>t. nd_target d = Some t \<longrightarrow>
        \<not> nd_closed d \<and> tg_generation t = nd_generation d \<and> focus_ready d (tg_window t) \<and>
        (\<exists>w. map_of (nd_windows d) (tg_window t) = Some w \<and> \<not> minimized (nw_mode w)))"

definition counters_ok :: "native \<Rightarrow> bool" where
  "counters_ok d \<longleftrightarrow>
     0 \<le> nd_epoch d \<and> (nd_epoch d \<noteq> 0 \<longrightarrow> nd_epoch d = nd_last_epoch d) \<and> 0 \<le> nd_last_epoch d \<and> nd_last_epoch d \<le> MAX_ID \<and>
     0 \<le> nd_query_id d \<and> nd_query_id d \<le> MAX_ID \<and>
     0 \<le> nd_last_text_request d \<and> nd_last_text_request d \<le> MAX_ID \<and>
     (\<forall>r. nd_text_request d = Some r \<longrightarrow> 1 \<le> tr_sequence r \<and> tr_sequence r \<le> nd_last_text_request d) \<and>
     distinct (nd_attachments d) \<and> (nd_attachments d = [] \<longrightarrow> nd_attachment d = None) \<and>
     (\<forall>a. nd_attachment d = Some a \<longrightarrow> a \<in> set (nd_attachments d))"

definition registry_ok :: "native \<Rightarrow> bool" where
  "registry_ok d \<longleftrightarrow> windows_ok d \<and> surfaces_ok d \<and> contexts_ok d \<and> scene_ok d \<and> counters_ok d"

lemmas registry_defs = windows_ok_def surfaces_ok_def contexts_ok_def scene_ok_def counters_ok_def

lemma focus_ready_other [simp]:
  "focus_ready (d\<lparr>nd_channel := v_channel\<rparr>) w = focus_ready d w"
  "focus_ready (d\<lparr>nd_cursor := v_cursor\<rparr>) w = focus_ready d w"
  "focus_ready (d\<lparr>nd_clipboard := v_clipboard\<rparr>) w = focus_ready d w"
  "focus_ready (d\<lparr>nd_attachment := v_attachment\<rparr>) w = focus_ready d w"
  "focus_ready (d\<lparr>nd_attachments := v_attachments\<rparr>) w = focus_ready d w"
  "focus_ready (d\<lparr>nd_target := v_target\<rparr>) w = focus_ready d w"
  "focus_ready (d\<lparr>nd_waiters := v_waiters\<rparr>) w = focus_ready d w"
  "focus_ready (d\<lparr>nd_capturing := v_capturing\<rparr>) w = focus_ready d w"
  "focus_ready (d\<lparr>nd_dispatch := v_dispatch\<rparr>) w = focus_ready d w"
  "focus_ready (d\<lparr>nd_contexts := v_contexts\<rparr>) w = focus_ready d w"
  "focus_ready (d\<lparr>nd_windows := v_windows\<rparr>) w = focus_ready d w"
  "focus_ready (d\<lparr>nd_declared := v_declared\<rparr>) w = focus_ready d w"
  "focus_ready (d\<lparr>nd_last_window := v_last_window\<rparr>) w = focus_ready d w"
  "focus_ready (d\<lparr>nd_generation := v_generation\<rparr>) w = focus_ready d w"
  "focus_ready (d\<lparr>nd_x11_windows := v_x11_windows\<rparr>) w = focus_ready d w"
  "focus_ready (d\<lparr>nd_surfaces := v_surfaces\<rparr>) w = focus_ready d w"
  "focus_ready (d\<lparr>nd_last_surface := v_last_surface\<rparr>) w = focus_ready d w"
  "focus_ready (d\<lparr>nd_epoch := v_epoch\<rparr>) w = focus_ready d w"
  "focus_ready (d\<lparr>nd_last_epoch := v_last_epoch\<rparr>) w = focus_ready d w"
  "focus_ready (d\<lparr>nd_query := v_query\<rparr>) w = focus_ready d w"
  "focus_ready (d\<lparr>nd_query_id := v_query_id\<rparr>) w = focus_ready d w"
  "focus_ready (d\<lparr>nd_display_requested := v_display_requested\<rparr>) w = focus_ready d w"
  "focus_ready (d\<lparr>nd_display_query := v_display_query\<rparr>) w = focus_ready d w"
  "focus_ready (d\<lparr>nd_version := v_version\<rparr>) w = focus_ready d w"
  "focus_ready (d\<lparr>nd_closed := v_closed\<rparr>) w = focus_ready d w"
  "focus_ready (d\<lparr>nd_text_contexts := v_text_contexts\<rparr>) w = focus_ready d w"
  "focus_ready (d\<lparr>nd_last_text_context := v_last_text_context\<rparr>) w = focus_ready d w"
  "focus_ready (d\<lparr>nd_text_request := v_text_request\<rparr>) w = focus_ready d w"
  "focus_ready (d\<lparr>nd_last_text_request := v_last_text_request\<rparr>) w = focus_ready d w"
  "focus_ready (d\<lparr>nd_calls := v_calls\<rparr>) w = focus_ready d w"
  by (simp_all add: focus_ready_def)

text \<open>Each part of the invariant depends on its own fields only.\<close>

lemma windows_ok_other [simp]:
  "windows_ok (d\<lparr>nd_channel := v_channel\<rparr>) = windows_ok d"
  "windows_ok (d\<lparr>nd_cursor := v_cursor\<rparr>) = windows_ok d"
  "windows_ok (d\<lparr>nd_clipboard := v_clipboard\<rparr>) = windows_ok d"
  "windows_ok (d\<lparr>nd_attachment := v_attachment\<rparr>) = windows_ok d"
  "windows_ok (d\<lparr>nd_attachments := v_attachments\<rparr>) = windows_ok d"
  "windows_ok (d\<lparr>nd_target := v_target\<rparr>) = windows_ok d"
  "windows_ok (d\<lparr>nd_waiters := v_waiters\<rparr>) = windows_ok d"
  "windows_ok (d\<lparr>nd_capturing := v_capturing\<rparr>) = windows_ok d"
  "windows_ok (d\<lparr>nd_dispatch := v_dispatch\<rparr>) = windows_ok d"
  "windows_ok (d\<lparr>nd_contexts := v_contexts\<rparr>) = windows_ok d"
  "windows_ok (d\<lparr>nd_generation := v_generation\<rparr>) = windows_ok d"
  "windows_ok (d\<lparr>nd_surfaces := v_surfaces\<rparr>) = windows_ok d"
  "windows_ok (d\<lparr>nd_last_surface := v_last_surface\<rparr>) = windows_ok d"
  "windows_ok (d\<lparr>nd_focus := v_focus\<rparr>) = windows_ok d"
  "windows_ok (d\<lparr>nd_epoch := v_epoch\<rparr>) = windows_ok d"
  "windows_ok (d\<lparr>nd_last_epoch := v_last_epoch\<rparr>) = windows_ok d"
  "windows_ok (d\<lparr>nd_query := v_query\<rparr>) = windows_ok d"
  "windows_ok (d\<lparr>nd_query_id := v_query_id\<rparr>) = windows_ok d"
  "windows_ok (d\<lparr>nd_display_requested := v_display_requested\<rparr>) = windows_ok d"
  "windows_ok (d\<lparr>nd_display_query := v_display_query\<rparr>) = windows_ok d"
  "windows_ok (d\<lparr>nd_version := v_version\<rparr>) = windows_ok d"
  "windows_ok (d\<lparr>nd_closed := v_closed\<rparr>) = windows_ok d"
  "windows_ok (d\<lparr>nd_text_contexts := v_text_contexts\<rparr>) = windows_ok d"
  "windows_ok (d\<lparr>nd_last_text_context := v_last_text_context\<rparr>) = windows_ok d"
  "windows_ok (d\<lparr>nd_text_request := v_text_request\<rparr>) = windows_ok d"
  "windows_ok (d\<lparr>nd_last_text_request := v_last_text_request\<rparr>) = windows_ok d"
  "windows_ok (d\<lparr>nd_calls := v_calls\<rparr>) = windows_ok d"
  by (simp_all add: windows_ok_def focus_ready_def)

lemma windows_ok_same [simp]:
  "windows_ok (nd_call c d) = windows_ok d"
  "windows_ok (nd_notify n d) = windows_ok d"
  "windows_ok (snd (nd_with_cursor f d)) = windows_ok d"
  "windows_ok (snd (nd_with_clipboard g d)) = windows_ok d"
  "windows_ok (nd_changed d) = windows_ok d"
  "windows_ok (nd_complete x d) = windows_ok d"
  "windows_ok (nd_contexts_changed d) = windows_ok d"
  by (simp_all add: windows_ok_def focus_ready_def)

lemma surfaces_ok_other [simp]:
  "surfaces_ok (d\<lparr>nd_channel := v_channel\<rparr>) = surfaces_ok d"
  "surfaces_ok (d\<lparr>nd_cursor := v_cursor\<rparr>) = surfaces_ok d"
  "surfaces_ok (d\<lparr>nd_clipboard := v_clipboard\<rparr>) = surfaces_ok d"
  "surfaces_ok (d\<lparr>nd_attachment := v_attachment\<rparr>) = surfaces_ok d"
  "surfaces_ok (d\<lparr>nd_attachments := v_attachments\<rparr>) = surfaces_ok d"
  "surfaces_ok (d\<lparr>nd_target := v_target\<rparr>) = surfaces_ok d"
  "surfaces_ok (d\<lparr>nd_waiters := v_waiters\<rparr>) = surfaces_ok d"
  "surfaces_ok (d\<lparr>nd_capturing := v_capturing\<rparr>) = surfaces_ok d"
  "surfaces_ok (d\<lparr>nd_dispatch := v_dispatch\<rparr>) = surfaces_ok d"
  "surfaces_ok (d\<lparr>nd_contexts := v_contexts\<rparr>) = surfaces_ok d"
  "surfaces_ok (d\<lparr>nd_windows := v_windows\<rparr>) = surfaces_ok d"
  "surfaces_ok (d\<lparr>nd_declared := v_declared\<rparr>) = surfaces_ok d"
  "surfaces_ok (d\<lparr>nd_last_window := v_last_window\<rparr>) = surfaces_ok d"
  "surfaces_ok (d\<lparr>nd_generation := v_generation\<rparr>) = surfaces_ok d"
  "surfaces_ok (d\<lparr>nd_x11_windows := v_x11_windows\<rparr>) = surfaces_ok d"
  "surfaces_ok (d\<lparr>nd_epoch := v_epoch\<rparr>) = surfaces_ok d"
  "surfaces_ok (d\<lparr>nd_last_epoch := v_last_epoch\<rparr>) = surfaces_ok d"
  "surfaces_ok (d\<lparr>nd_query := v_query\<rparr>) = surfaces_ok d"
  "surfaces_ok (d\<lparr>nd_query_id := v_query_id\<rparr>) = surfaces_ok d"
  "surfaces_ok (d\<lparr>nd_display_requested := v_display_requested\<rparr>) = surfaces_ok d"
  "surfaces_ok (d\<lparr>nd_display_query := v_display_query\<rparr>) = surfaces_ok d"
  "surfaces_ok (d\<lparr>nd_version := v_version\<rparr>) = surfaces_ok d"
  "surfaces_ok (d\<lparr>nd_closed := v_closed\<rparr>) = surfaces_ok d"
  "surfaces_ok (d\<lparr>nd_text_contexts := v_text_contexts\<rparr>) = surfaces_ok d"
  "surfaces_ok (d\<lparr>nd_last_text_context := v_last_text_context\<rparr>) = surfaces_ok d"
  "surfaces_ok (d\<lparr>nd_text_request := v_text_request\<rparr>) = surfaces_ok d"
  "surfaces_ok (d\<lparr>nd_last_text_request := v_last_text_request\<rparr>) = surfaces_ok d"
  "surfaces_ok (d\<lparr>nd_calls := v_calls\<rparr>) = surfaces_ok d"
  by (simp_all add: surfaces_ok_def focus_ready_def)

lemma surfaces_ok_same [simp]:
  "surfaces_ok (nd_call c d) = surfaces_ok d"
  "surfaces_ok (nd_notify n d) = surfaces_ok d"
  "surfaces_ok (snd (nd_with_cursor f d)) = surfaces_ok d"
  "surfaces_ok (snd (nd_with_clipboard g d)) = surfaces_ok d"
  "surfaces_ok (nd_changed d) = surfaces_ok d"
  "surfaces_ok (nd_complete x d) = surfaces_ok d"
  "surfaces_ok (nd_contexts_changed d) = surfaces_ok d"
  by (simp_all add: surfaces_ok_def focus_ready_def)

lemma contexts_ok_other [simp]:
  "contexts_ok (d\<lparr>nd_channel := v_channel\<rparr>) = contexts_ok d"
  "contexts_ok (d\<lparr>nd_cursor := v_cursor\<rparr>) = contexts_ok d"
  "contexts_ok (d\<lparr>nd_clipboard := v_clipboard\<rparr>) = contexts_ok d"
  "contexts_ok (d\<lparr>nd_attachment := v_attachment\<rparr>) = contexts_ok d"
  "contexts_ok (d\<lparr>nd_attachments := v_attachments\<rparr>) = contexts_ok d"
  "contexts_ok (d\<lparr>nd_target := v_target\<rparr>) = contexts_ok d"
  "contexts_ok (d\<lparr>nd_waiters := v_waiters\<rparr>) = contexts_ok d"
  "contexts_ok (d\<lparr>nd_capturing := v_capturing\<rparr>) = contexts_ok d"
  "contexts_ok (d\<lparr>nd_dispatch := v_dispatch\<rparr>) = contexts_ok d"
  "contexts_ok (d\<lparr>nd_contexts := v_contexts\<rparr>) = contexts_ok d"
  "contexts_ok (d\<lparr>nd_windows := v_windows\<rparr>) = contexts_ok d"
  "contexts_ok (d\<lparr>nd_declared := v_declared\<rparr>) = contexts_ok d"
  "contexts_ok (d\<lparr>nd_last_window := v_last_window\<rparr>) = contexts_ok d"
  "contexts_ok (d\<lparr>nd_generation := v_generation\<rparr>) = contexts_ok d"
  "contexts_ok (d\<lparr>nd_x11_windows := v_x11_windows\<rparr>) = contexts_ok d"
  "contexts_ok (d\<lparr>nd_surfaces := v_surfaces\<rparr>) = contexts_ok d"
  "contexts_ok (d\<lparr>nd_last_surface := v_last_surface\<rparr>) = contexts_ok d"
  "contexts_ok (d\<lparr>nd_focus := v_focus\<rparr>) = contexts_ok d"
  "contexts_ok (d\<lparr>nd_epoch := v_epoch\<rparr>) = contexts_ok d"
  "contexts_ok (d\<lparr>nd_last_epoch := v_last_epoch\<rparr>) = contexts_ok d"
  "contexts_ok (d\<lparr>nd_query := v_query\<rparr>) = contexts_ok d"
  "contexts_ok (d\<lparr>nd_query_id := v_query_id\<rparr>) = contexts_ok d"
  "contexts_ok (d\<lparr>nd_display_requested := v_display_requested\<rparr>) = contexts_ok d"
  "contexts_ok (d\<lparr>nd_display_query := v_display_query\<rparr>) = contexts_ok d"
  "contexts_ok (d\<lparr>nd_version := v_version\<rparr>) = contexts_ok d"
  "contexts_ok (d\<lparr>nd_closed := v_closed\<rparr>) = contexts_ok d"
  "contexts_ok (d\<lparr>nd_text_request := v_text_request\<rparr>) = contexts_ok d"
  "contexts_ok (d\<lparr>nd_last_text_request := v_last_text_request\<rparr>) = contexts_ok d"
  "contexts_ok (d\<lparr>nd_calls := v_calls\<rparr>) = contexts_ok d"
  by (simp_all add: contexts_ok_def focus_ready_def)

lemma contexts_ok_same [simp]:
  "contexts_ok (nd_call c d) = contexts_ok d"
  "contexts_ok (nd_notify n d) = contexts_ok d"
  "contexts_ok (snd (nd_with_cursor f d)) = contexts_ok d"
  "contexts_ok (snd (nd_with_clipboard g d)) = contexts_ok d"
  "contexts_ok (nd_changed d) = contexts_ok d"
  "contexts_ok (nd_complete x d) = contexts_ok d"
  "contexts_ok (nd_contexts_changed d) = contexts_ok d"
  by (simp_all add: contexts_ok_def focus_ready_def)

lemma scene_ok_other [simp]:
  "scene_ok (d\<lparr>nd_channel := v_channel\<rparr>) = scene_ok d"
  "scene_ok (d\<lparr>nd_cursor := v_cursor\<rparr>) = scene_ok d"
  "scene_ok (d\<lparr>nd_clipboard := v_clipboard\<rparr>) = scene_ok d"
  "scene_ok (d\<lparr>nd_attachment := v_attachment\<rparr>) = scene_ok d"
  "scene_ok (d\<lparr>nd_attachments := v_attachments\<rparr>) = scene_ok d"
  "scene_ok (d\<lparr>nd_waiters := v_waiters\<rparr>) = scene_ok d"
  "scene_ok (d\<lparr>nd_capturing := v_capturing\<rparr>) = scene_ok d"
  "scene_ok (d\<lparr>nd_dispatch := v_dispatch\<rparr>) = scene_ok d"
  "scene_ok (d\<lparr>nd_contexts := v_contexts\<rparr>) = scene_ok d"
  "scene_ok (d\<lparr>nd_declared := v_declared\<rparr>) = scene_ok d"
  "scene_ok (d\<lparr>nd_last_window := v_last_window\<rparr>) = scene_ok d"
  "scene_ok (d\<lparr>nd_x11_windows := v_x11_windows\<rparr>) = scene_ok d"
  "scene_ok (d\<lparr>nd_surfaces := v_surfaces\<rparr>) = scene_ok d"
  "scene_ok (d\<lparr>nd_last_surface := v_last_surface\<rparr>) = scene_ok d"
  "scene_ok (d\<lparr>nd_epoch := v_epoch\<rparr>) = scene_ok d"
  "scene_ok (d\<lparr>nd_last_epoch := v_last_epoch\<rparr>) = scene_ok d"
  "scene_ok (d\<lparr>nd_query := v_query\<rparr>) = scene_ok d"
  "scene_ok (d\<lparr>nd_query_id := v_query_id\<rparr>) = scene_ok d"
  "scene_ok (d\<lparr>nd_display_requested := v_display_requested\<rparr>) = scene_ok d"
  "scene_ok (d\<lparr>nd_display_query := v_display_query\<rparr>) = scene_ok d"
  "scene_ok (d\<lparr>nd_version := v_version\<rparr>) = scene_ok d"
  "scene_ok (d\<lparr>nd_text_contexts := v_text_contexts\<rparr>) = scene_ok d"
  "scene_ok (d\<lparr>nd_last_text_context := v_last_text_context\<rparr>) = scene_ok d"
  "scene_ok (d\<lparr>nd_text_request := v_text_request\<rparr>) = scene_ok d"
  "scene_ok (d\<lparr>nd_last_text_request := v_last_text_request\<rparr>) = scene_ok d"
  "scene_ok (d\<lparr>nd_calls := v_calls\<rparr>) = scene_ok d"
  by (simp_all add: scene_ok_def focus_ready_def)

lemma scene_ok_same [simp]:
  "scene_ok (nd_call c d) = scene_ok d"
  "scene_ok (nd_notify n d) = scene_ok d"
  "scene_ok (snd (nd_with_cursor f d)) = scene_ok d"
  "scene_ok (snd (nd_with_clipboard g d)) = scene_ok d"
  "scene_ok (nd_changed d) = scene_ok d"
  "scene_ok (nd_complete x d) = scene_ok d"
  "scene_ok (nd_contexts_changed d) = scene_ok d"
  by (simp_all add: scene_ok_def focus_ready_def)

lemma counters_ok_other [simp]:
  "counters_ok (d\<lparr>nd_channel := v_channel\<rparr>) = counters_ok d"
  "counters_ok (d\<lparr>nd_cursor := v_cursor\<rparr>) = counters_ok d"
  "counters_ok (d\<lparr>nd_clipboard := v_clipboard\<rparr>) = counters_ok d"
  "counters_ok (d\<lparr>nd_target := v_target\<rparr>) = counters_ok d"
  "counters_ok (d\<lparr>nd_waiters := v_waiters\<rparr>) = counters_ok d"
  "counters_ok (d\<lparr>nd_capturing := v_capturing\<rparr>) = counters_ok d"
  "counters_ok (d\<lparr>nd_dispatch := v_dispatch\<rparr>) = counters_ok d"
  "counters_ok (d\<lparr>nd_contexts := v_contexts\<rparr>) = counters_ok d"
  "counters_ok (d\<lparr>nd_windows := v_windows\<rparr>) = counters_ok d"
  "counters_ok (d\<lparr>nd_declared := v_declared\<rparr>) = counters_ok d"
  "counters_ok (d\<lparr>nd_last_window := v_last_window\<rparr>) = counters_ok d"
  "counters_ok (d\<lparr>nd_generation := v_generation\<rparr>) = counters_ok d"
  "counters_ok (d\<lparr>nd_x11_windows := v_x11_windows\<rparr>) = counters_ok d"
  "counters_ok (d\<lparr>nd_surfaces := v_surfaces\<rparr>) = counters_ok d"
  "counters_ok (d\<lparr>nd_last_surface := v_last_surface\<rparr>) = counters_ok d"
  "counters_ok (d\<lparr>nd_focus := v_focus\<rparr>) = counters_ok d"
  "counters_ok (d\<lparr>nd_query := v_query\<rparr>) = counters_ok d"
  "counters_ok (d\<lparr>nd_display_requested := v_display_requested\<rparr>) = counters_ok d"
  "counters_ok (d\<lparr>nd_display_query := v_display_query\<rparr>) = counters_ok d"
  "counters_ok (d\<lparr>nd_version := v_version\<rparr>) = counters_ok d"
  "counters_ok (d\<lparr>nd_closed := v_closed\<rparr>) = counters_ok d"
  "counters_ok (d\<lparr>nd_text_contexts := v_text_contexts\<rparr>) = counters_ok d"
  "counters_ok (d\<lparr>nd_last_text_context := v_last_text_context\<rparr>) = counters_ok d"
  "counters_ok (d\<lparr>nd_calls := v_calls\<rparr>) = counters_ok d"
  by (simp_all add: counters_ok_def focus_ready_def)

lemma counters_ok_same [simp]:
  "counters_ok (nd_call c d) = counters_ok d"
  "counters_ok (nd_notify n d) = counters_ok d"
  "counters_ok (snd (nd_with_cursor f d)) = counters_ok d"
  "counters_ok (snd (nd_with_clipboard g d)) = counters_ok d"
  "counters_ok (nd_changed d) = counters_ok d"
  "counters_ok (nd_complete x d) = counters_ok d"
  "counters_ok (nd_contexts_changed d) = counters_ok d"
  by (simp_all add: counters_ok_def focus_ready_def)


lemma registry_ok_new: "registry_ok new_native"
  by (simp add: registry_ok_def registry_defs new_native_def MAX_ID_def)

lemma registry_ok_same [simp]:
  "registry_ok (nd_call c d) = registry_ok d"
  "registry_ok (nd_notify n d) = registry_ok d"
  "registry_ok (snd (nd_with_cursor f d)) = registry_ok d"
  "registry_ok (snd (nd_with_clipboard g d)) = registry_ok d"
  "registry_ok (nd_changed d) = registry_ok d"
  "registry_ok (nd_complete x d) = registry_ok d"
  "registry_ok (nd_contexts_changed d) = registry_ok d"
  by (simp_all add: registry_ok_def)

lemma registry_ok_channel [simp]: "registry_ok (d\<lparr>nd_channel := c\<rparr>) = registry_ok d"
  by (simp add: registry_ok_def)

text \<open>Association lists.\<close>

lemma dom_delete: "fst ` set (AList.delete k al) = fst ` set al - {k}"
  using arg_cong [OF AList.delete_keys [of k al], of set] by auto

lemma length_update_new: "length (AList.update k v al) \<le> Suc (length al)"
  by (induction al) auto

lemma length_update_same: "k \<in> fst ` set al \<Longrightarrow> length (AList.update k v al) = length al"
  by (induction al) auto

lemma dom_update_same: "k \<in> fst ` set al \<Longrightarrow> fst ` set (AList.update k v al) = fst ` set al"
  by (auto simp: AList.dom_update)

lemma map_of_Some_dom: "map_of al k = Some v \<Longrightarrow> k \<in> fst ` set al"
  by (metis map_of_eq_None_iff option.distinct(1))

lemmas alist_facts = AList.dom_update AList.distinct_update AList.distinct_delete AList.update_conv' AList.delete_conv' dom_delete

subsection \<open>Records\<close>

named_theorems registry_steps \<open>what each record keeps of the registry's invariant\<close>

lemma registry_ok_version [registry_steps]: "registry_ok d \<Longrightarrow> obs_version args d = Some u \<Longrightarrow> registry_ok u"
  by (auto simp: obs_version_def registry_ok_def split: if_splits)

lemma counters_ok_text: "counters_ok d \<Longrightarrow> counters_ok (d\<lparr>nd_text_request := None\<rparr>)"
  by (simp add: counters_ok_def)

lemma registry_ok_text_response [registry_steps]:
  assumes "registry_ok d" "obs_text_response kind args d = Some u"
  shows "registry_ok u"
proof -
  have "u = d \<or> (\<exists>c. u = nd_call c (d\<lparr>nd_text_request := None\<rparr>))"
    using assms(2) unfolding obs_text_response_def Let_def by (fastforce split: list.splits option.splits if_splits)
  with assms(1) show ?thesis by (auto simp: registry_ok_def counters_ok_text)
qed

lemma text_context_fields_bounds: "text_context_fields args = Some x \<Longrightarrow> 1 \<le> tc_identity x \<and> 0 \<le> tc_surface x"
  by (auto simp: text_context_fields_def dest!: field_int_bounds split: list.splits option.splits)

lemma registry_ok_text_context [registry_steps]:
  assumes "registry_ok d" "obs_text_context args d = Some u"
  shows "registry_ok u"
proof -
  from assms(2) obtain x where x: "text_context_fields args = Some x" "text_context_ok x d"
    and u: "u = nd_contexts_changed (d\<lparr>nd_last_text_context := max (tc_identity x) (nd_last_text_context d),
                    nd_text_contexts := AList.update (tc_identity x) x (nd_text_contexts d)\<rparr>)"
    by (auto simp: obs_text_context_def split: if_splits option.splits)
  have c: "contexts_ok d" using assms(1) by (simp add: registry_ok_def)
  have len: "length (AList.update (tc_identity x) x (nd_text_contexts d)) \<le> 64"
  proof (cases "map_of (nd_text_contexts d) (tc_identity x)")
    case None
    then show ?thesis using x(2) length_update_new [of "tc_identity x" x "nd_text_contexts d"] by (simp add: text_context_ok_def)
  next
    case (Some y)
    then show ?thesis using c length_update_same [OF map_of_Some_dom [OF Some], of x] by (simp add: contexts_ok_def)
  qed
  have "contexts_ok (d\<lparr>nd_last_text_context := max (tc_identity x) (nd_last_text_context d),
      nd_text_contexts := AList.update (tc_identity x) x (nd_text_contexts d)\<rparr>)"
    using c len text_context_fields_bounds [OF x(1)]
    by (simp add: contexts_ok_def AList.dom_update AList.distinct_update del: set_map) (auto intro: le_max_iff_disj [THEN iffD2])
  with assms(1) show ?thesis by (simp add: u registry_ok_def)
qed

lemma registry_ok_context_retired [registry_steps]:
  assumes "registry_ok d" "obs_context_retired args d = Some u"
  shows "registry_ok u"
proof -
  from assms(2) obtain n where u: "u = nd_contexts_changed (d\<lparr>nd_text_contexts := AList.delete n (nd_text_contexts d)\<rparr>)"
    by (auto simp: obs_context_retired_def split: list.splits)
  have "contexts_ok (d\<lparr>nd_text_contexts := AList.delete n (nd_text_contexts d)\<rparr>)"
    using assms(1) AList.length_delete_le [of n "nd_text_contexts d"]
    by (auto simp: registry_ok_def contexts_ok_def dom_delete AList.distinct_delete simp del: set_map)
  with assms(1) show ?thesis by (simp add: u registry_ok_def)
qed

lemma registry_ok_surrounding [registry_steps]:
  "registry_ok d \<Longrightarrow> obs_surrounding args d = Some u \<Longrightarrow> registry_ok u"
  by (auto simp: obs_surrounding_def split: list.splits option.splits if_splits)

lemma registry_ok_display [registry_steps]:
  "registry_ok d \<Longrightarrow> obs_display args d = Some u \<Longrightarrow> registry_ok u"
  by (auto simp: obs_display_def registry_ok_def split: list.splits option.splits if_splits)

lemma registry_ok_window_instance [registry_steps]:
  assumes "registry_ok d" "obs_window_instance args d = Some u"
  shows "registry_ok u"
proof -
  from assms(2) obtain wid where w: "1 \<le> wid" "nd_last_window d < wid" "length (nd_declared d) < 256"
    and u: "u = d\<lparr>nd_declared := AList.update wid [] (nd_declared d), nd_last_window := wid\<rparr>"
    by (auto simp: obs_window_instance_def dest!: field_int_bounds split: list.splits option.splits if_splits)
  have "length (AList.update wid [] (nd_declared d)) \<le> 256"
    using w(3) length_update_new [of wid "[]" "nd_declared d"] by linarith
  moreover have "k \<le> wid" if "k \<in> fst ` set (nd_declared d)" for k
    using that assms(1) w(2) by (auto simp: registry_ok_def windows_ok_def)
  ultimately have "windows_ok u"
    using assms(1) w(1,2) by (simp add: u registry_ok_def windows_ok_def AList.dom_update AList.distinct_update) blast
  with assms(1) show ?thesis by (simp add: u registry_ok_def)
qed

lemma registry_ok_title [registry_steps]:
  assumes "registry_ok d" "obs_title args d = Some u"
  shows "registry_ok u"
proof -
  from assms(2) obtain wid old title where w: "map_of (nd_declared d) wid = Some old"
    and u: "u = d \<or> u = nd_notify Metadata_changed (d\<lparr>nd_declared := AList.update wid title (nd_declared d)\<rparr>)"
    by (auto simp: obs_title_def split: list.splits option.splits if_splits)
  note same = dom_update_same [OF map_of_Some_dom [OF w]] length_update_same [OF map_of_Some_dom [OF w]]
  have "windows_ok (d\<lparr>nd_declared := AList.update wid title (nd_declared d)\<rparr>)"
    using assms(1) by (simp add: registry_ok_def windows_ok_def same AList.distinct_update)
  with u assms(1) show ?thesis by (auto simp: registry_ok_def)
qed

lemma registry_ok_surface_instance [registry_steps]:
  assumes "registry_ok d" "obs_surface_instance args d = Some u"
  shows "registry_ok u"
proof -
  from assms(2) obtain sid where s: "1 \<le> sid" "nd_last_surface d < sid" "length (nd_surfaces d) < 4096"
    and u: "u = d\<lparr>nd_last_surface := sid, nd_surfaces := List.insert sid (nd_surfaces d)\<rparr>"
    by (auto simp: obs_surface_instance_def dest!: field_int_bounds split: list.splits option.splits if_splits)
  have "length (List.insert sid (nd_surfaces d)) \<le> 4096" using s(3) by (simp add: List.insert_def)
  moreover have "k \<le> sid" if "k \<in> set (nd_surfaces d)" for k
    using that assms(1) s(2) by (auto simp: registry_ok_def surfaces_ok_def)
  ultimately have "surfaces_ok u" using assms(1) s(1,2) by (simp add: u registry_ok_def surfaces_ok_def)
  with assms(1) show ?thesis by (simp add: u registry_ok_def)
qed

lemma scene_ok_no_target: "0 \<le> nd_generation d \<Longrightarrow> nd_target d = None \<Longrightarrow> scene_ok d"
  by (simp add: scene_ok_def)

lemma registry_ok_surface_retired [registry_steps]:
  assumes "registry_ok d" "obs_surface_retired args d = Some u"
  shows "registry_ok u"
proof -
  from assms(2) obtain sid where u: "u = d\<lparr>nd_surfaces := removeAll sid (nd_surfaces d)\<rparr> \<and>
        (\<forall>f. nd_focus d = Some f \<longrightarrow> nf_identity f \<noteq> sid) \<or>
      u = nd_changed (d\<lparr>nd_surfaces := removeAll sid (nd_surfaces d), nd_focus := None, nd_target := None\<rparr>)"
    by (auto simp: obs_surface_retired_def Let_def split: list.splits option.splits if_splits)
  have s: "surfaces_ok d" "scene_ok d" using assms(1) by (simp_all add: registry_ok_def)
  have "surfaces_ok (d\<lparr>nd_surfaces := removeAll sid (nd_surfaces d), nd_focus := None\<rparr>)"
    using s(1) by (auto simp: surfaces_ok_def distinct_removeAll intro: order_trans [OF length_removeAll_less_eq])
  moreover have "surfaces_ok (d\<lparr>nd_surfaces := removeAll sid (nd_surfaces d)\<rparr>)" if "\<forall>f. nd_focus d = Some f \<longrightarrow> nf_identity f \<noteq> sid"
    using s(1) that by (auto simp: surfaces_ok_def distinct_removeAll intro: order_trans [OF length_removeAll_less_eq])
  moreover have "scene_ok (d\<lparr>nd_surfaces := removeAll sid (nd_surfaces d), nd_focus := None, nd_target := None\<rparr>)"
    using s(2) by (intro scene_ok_no_target) (simp_all add: scene_ok_def)
  ultimately show ?thesis using u assms(1) by (auto simp: registry_ok_def)
qed

lemma focus_fields_known: "focus_fields args d = Some (Some f) \<Longrightarrow> nf_identity f \<in> set (nd_surfaces d)"
  by (auto simp: focus_fields_def split: list.splits option.splits if_splits)

lemma registry_ok_focus [registry_steps]:
  assumes "registry_ok d" "obs_focus args d = Some u"
  shows "registry_ok u"
proof -
  from assms(2) obtain focus where f: "focus_fields args d = Some focus"
    and u: "u = d \<or> u = nd_changed (d\<lparr>nd_focus := focus, nd_target := None\<rparr>)"
    by (auto simp: obs_focus_def split: option.splits if_splits)
  have "surfaces_ok (d\<lparr>nd_focus := focus\<rparr>)"
    using assms(1) focus_fields_known f by (auto simp: registry_ok_def surfaces_ok_def)
  moreover have "scene_ok (d\<lparr>nd_focus := focus, nd_target := None\<rparr>)"
    using assms(1) by (intro scene_ok_no_target) (simp_all add: registry_ok_def scene_ok_def)
  ultimately show ?thesis using u assms(1) by (auto simp: registry_ok_def)
qed

lemma registry_ok_window_state [registry_steps]:
  assumes "registry_ok d" "obs_window_state args d = Some u"
  shows "registry_ok u"
proof -
  from assms(2) obtain w where f: "window_fields args = Some w"
    by (cases "window_fields args") (auto simp: obs_window_state_def split: if_splits)
  have w: "window_ok w d" using assms(2) f by (auto simp: obs_window_state_def split: if_splits)
  have ver: "nd_version d" using assms(2) by (cases "nd_version d") (simp_all add: obs_window_state_def)
  have u: "u = (if map_of (nd_windows d) (nw_window w) = Some w then d\<lparr>nd_windows := AList.update (nw_window w) w (nd_windows d)\<rparr>
       else if targets_window d (nw_window w) \<and> retargets (map_of (nd_windows d) (nw_window w)) w
       then nd_changed (d\<lparr>nd_windows := AList.update (nw_window w) w (nd_windows d), nd_target := None\<rparr>)
       else nd_notify Metadata_changed (d\<lparr>nd_windows := AList.update (nw_window w) w (nd_windows d)\<rparr>))"
    using assms(2) by (simp only: obs_window_state_def f option.case ver w not_True_eq_False if_False Let_def option.inject)
  let ?d = "d\<lparr>nd_windows := AList.update (nw_window w) w (nd_windows d)\<rparr>"
  have wins: "windows_ok d" and sc: "scene_ok d" using assms(1) by (simp_all add: registry_ok_def)
  obtain title where "map_of (nd_declared d) (nw_window w) = Some title" using w by (auto simp: window_ok_def)
  then have dec: "nw_window w \<in> fst ` set (nd_declared d)" by (rule map_of_Some_dom)
  have wins': "windows_ok ?d"
    using wins dec by (auto simp: windows_ok_def AList.dom_update AList.distinct_update AList.update_conv' simp del: set_map)
  have none: "scene_ok (?d\<lparr>nd_target := None\<rparr>)" using sc by (intro scene_ok_no_target) (simp_all add: scene_ok_def)
  have same: "scene_ok ?d" if "\<not> targets_window d (nw_window w) \<or> \<not> minimized (nw_mode w) \<or> map_of (nd_windows d) (nw_window w) = Some w"
    using sc that by (auto simp: scene_ok_def targets_window_def AList.update_conv' split: option.splits)
  have keep: "\<not> targets_window d (nw_window w) \<or> \<not> minimized (nw_mode w)"
    if "\<not> (targets_window d (nw_window w) \<and> retargets (map_of (nd_windows d) (nw_window w)) w)"
    using that by (auto simp: retargets_def)
  show ?thesis
  proof (cases "map_of (nd_windows d) (nw_window w) = Some w")
    case True
    then show ?thesis using u wins' same assms(1) by (simp add: registry_ok_def)
  next
    case False
    then show ?thesis using u wins' none same keep assms(1) by (cases "targets_window d (nw_window w) \<and>
        retargets (map_of (nd_windows d) (nw_window w)) w") (auto simp: registry_ok_def)
  qed
qed

lemma registry_ok_window_x11 [registry_steps]:
  assumes "registry_ok d" "obs_window_x11 args d = Some u"
  shows "registry_ok u"
proof -
  from assms(2) obtain wid xid w where w: "map_of (nd_windows d) wid = Some w"
    and fresh: "\<forall>(other, value) \<in> set (nd_x11_windows d). other = wid \<or> value \<noteq> xid"
    and u: "u = d\<lparr>nd_x11_windows := AList.update wid xid (nd_x11_windows d)\<rparr>"
    unfolding obs_window_x11_def by (fastforce split: list.splits option.splits if_splits)
  have wins: "windows_ok d" using assms(1) by (simp add: registry_ok_def)
  have other: "j = wid" if "map_of (nd_x11_windows d) j = Some xid" for j
    using fresh map_of_SomeD [OF that] by auto
  have "windows_ok u"
    using wins other map_of_Some_dom [OF w]
    by (auto simp: u windows_ok_def AList.dom_update AList.distinct_update AList.update_conv' simp del: set_map)
  with assms(1) show ?thesis by (simp add: u registry_ok_def)
qed

lemma registry_ok_window_retired [registry_steps]:
  assumes "registry_ok d" "obs_window_retired args d = Some u"
  shows "registry_ok u"
proof -
  from assms(2) obtain a where a: "args = [a]"
    by (auto simp: obs_window_retired_def split: list.splits)
  with assms(2) obtain wid where wid: "field_int a 1 MAX_ID = Some wid"
    by (cases "field_int a 1 MAX_ID") (simp_all add: obs_window_retired_def)
  have u: "u = (if targets_window d wid then nd_changed (d\<lparr>nd_windows := AList.delete wid (nd_windows d),
      nd_declared := AList.delete wid (nd_declared d), nd_x11_windows := AList.delete wid (nd_x11_windows d), nd_target := None\<rparr>)
    else d\<lparr>nd_windows := AList.delete wid (nd_windows d), nd_declared := AList.delete wid (nd_declared d),
      nd_x11_windows := AList.delete wid (nd_x11_windows d)\<rparr>)"
    using assms(2) by (simp only: obs_window_retired_def a wid list.case option.case Let_def option.inject)
  let ?d = "d\<lparr>nd_windows := AList.delete wid (nd_windows d), nd_declared := AList.delete wid (nd_declared d),
      nd_x11_windows := AList.delete wid (nd_x11_windows d)\<rparr>"
  have wins: "windows_ok d" and sc: "scene_ok d" using assms(1) by (simp_all add: registry_ok_def)
  have len: "length (AList.delete wid (nd_declared d)) \<le> 256"
    using AList.length_delete_le [of wid "nd_declared d"] wins by (simp add: windows_ok_def)
  have x: "\<forall>j k x. map_of (nd_x11_windows ?d) j = Some x \<longrightarrow> map_of (nd_x11_windows ?d) k = Some x \<longrightarrow> j = k"
    using wins by (simp add: windows_ok_def AList.delete_conv')
  have n: "\<forall>k w. map_of (nd_windows ?d) k = Some w \<longrightarrow> nw_window w = k"
    using wins by (simp add: windows_ok_def AList.delete_conv')
  have sub: "fst ` set (nd_windows ?d) \<subseteq> fst ` set (nd_declared ?d)" "fst ` set (nd_x11_windows ?d) \<subseteq> fst ` set (nd_windows ?d)"
    using wins by (auto simp: windows_ok_def dom_delete simp del: set_map)
  have wins': "windows_ok ?d"
    unfolding windows_ok_def
  proof (intro conjI x n sub len)
    show "\<forall>k \<in> fst ` set (nd_declared ?d). 1 \<le> k \<and> k \<le> nd_last_window ?d"
      using wins by (auto simp: windows_ok_def dom_delete simp del: set_map)
  qed (use wins len in \<open>simp_all add: windows_ok_def AList.distinct_delete\<close>)
  have "scene_ok (?d\<lparr>nd_target := None\<rparr>)" using sc by (intro scene_ok_no_target) (simp_all add: scene_ok_def)
  moreover have "scene_ok ?d" if "\<not> targets_window d wid"
    using sc that by (auto simp: scene_ok_def targets_window_def AList.delete_conv' split: option.splits)
  ultimately show ?thesis using u wins' assms(1) by (cases "targets_window d wid") (simp_all add: registry_ok_def)
qed

lemma registry_ok_scene [registry_steps]:
  assumes "registry_ok d" "obs_scene args d = Some u" "\<not> nd_closed d"
  shows "registry_ok u"
proof -
  have sc: "scene_ok d" and wins: "windows_ok d" using assms(1) by (simp_all add: registry_ok_def)
  from assms(2) obtain generation wid where g: "1 \<le> generation" and u:
    "u = nd_changed (d\<lparr>nd_generation := generation, nd_target := None\<rparr>) \<or>
     (u = nd_changed (d\<lparr>nd_generation := generation, nd_target := Some \<lparr>tg_window = wid, tg_generation = generation\<rparr>\<rparr>) \<and>
      (wid = 0 \<or> focus_ready d wid) \<and> (\<exists>w. map_of (nd_windows d) wid = Some w \<and> \<not> minimized (nw_mode w)))"
    by (auto simp: obs_scene_def dest!: field_int_bounds split: list.splits option.splits if_splits)
  have nonzero: "map_of (nd_windows d) 0 = None"
    using wins by (fastforce simp: windows_ok_def map_of_eq_None_iff simp del: set_map)
  have "scene_ok (d\<lparr>nd_generation := generation, nd_target := None\<rparr>)" using g by (intro scene_ok_no_target) simp_all
  moreover have "scene_ok (d\<lparr>nd_generation := generation, nd_target := Some \<lparr>tg_window = wid, tg_generation = generation\<rparr>\<rparr>)"
    if "focus_ready d wid" "\<exists>w. map_of (nd_windows d) wid = Some w \<and> \<not> minimized (nw_mode w)"
    using that g assms(3) by (simp add: scene_ok_def)
  ultimately show ?thesis using u nonzero assms(1) by (auto simp: registry_ok_def)
qed

lemma registry_ok_scene_at [registry_steps]:
  assumes "registry_ok d" "obs_scene_at args d = Some u"
  shows "registry_ok u"
proof -
  from assms(2) obtain c where "u = nd_call c (d\<lparr>nd_query := None\<rparr>)"
    by (auto simp: obs_scene_at_def split: list.splits option.splits if_splits)
  with assms(1) show ?thesis by (simp add: registry_ok_def)
qed

lemma registry_ok_damage [registry_steps]:
  assumes "registry_ok d" "obs_damage args d = Some u"
  shows "registry_ok u"
proof -
  from assms(2) have "u = nd_notify Damage d" by (auto simp: obs_damage_def split: list.splits if_splits)
  with assms(1) show ?thesis by simp
qed

text \<open>All records together.\<close>

definition keeps_registry :: "native option \<Rightarrow> bool" where
  "keeps_registry r \<longleftrightarrow> (\<forall>u. r = Some u \<longrightarrow> registry_ok u)"

lemma keeps_registry_if: "keeps_registry a \<Longrightarrow> keeps_registry b \<Longrightarrow> keeps_registry (if c then a else b)"
  by simp

lemma registry_ok_record:
  assumes "registry_ok d" "\<not> nd_closed d" "observe_record kind args d = Some u"
  shows "registry_ok u"
proof -
  note steps = registry_steps [OF assms(1)]
  have "keeps_registry (observe_record kind args d)"
    unfolding observe_record_def
    by (intro keeps_registry_if; unfold keeps_registry_def; intro allI impI; (erule steps)?; (use assms in simp)?)
  with assms(3) show ?thesis by (simp add: keeps_registry_def)
qed

end
