(* ===== verification/Native_Run.thy ===== *)
theory Native_Run
  imports Native_Registry
begin

section \<open>Runs of the native scene\<close>

text \<open>
  Every operation the compositor and the viewers can cause, as one step function, with the registry's
  invariant and the bound on the channel's buffer over every run.
\<close>

subsection \<open>The channel's buffer\<close>

definition buffer_ok :: "native \<Rightarrow> bool" where
  "buffer_ok d \<longleftrightarrow> length (ch_output (nd_channel d)) \<le> MAX_BUFFER \<and> length (ch_input (nd_channel d)) \<le> MAX_RECORD \<and>
     (ch_closed (nd_channel d) \<longrightarrow> ch_output (nd_channel d) = [] \<and> nd_closed d)"

text \<open>A component's answer from the view of the channel is the channel's own answer.\<close>

lemma channel_answer_send:
  assumes "length (ch_output (nd_channel d)) \<le> MAX_BUFFER" "record \<noteq> []" "last record = newline" "ascii record"
  shows "channel_answer (native_view_of d) record = send_answer (nd_channel d) record"
  using assms by (auto simp: channel_answer_def send_answer_def native_view_of_def)

definition sends_one :: "native_view \<Rightarrow> string list \<Rightarrow> string list \<Rightarrow> bool" where
  "sends_one v old new \<longleftrightarrow> new = old \<or> (\<exists>r. new = old @ [r] \<and> channel_answer v r = Queued)"

lemma sends_one_same [simp]: "sends_one v old old"
  by (simp add: sends_one_def)

lemma sends_one_pump: "sends_one (cu_native c) (cu_sent c) (cu_sent (snd (cu_pump c)))"
  by (auto simp: sends_one_def cu_pump_def Let_def split: option.split)

lemma cu_pump_like:
  "cu_native c' = cu_native c \<Longrightarrow> cu_sent c' = cu_sent c \<Longrightarrow> sends_one (cu_native c) (cu_sent c) (cu_sent (snd (cu_pump c')))"
  using sends_one_pump [of c'] by simp

lemma cu_chunk_sent: "cu_chunk compress p off x c = Some c' \<Longrightarrow> cu_sent c' = cu_sent c \<and> cu_native c' = cu_native c"
  by (auto simp: cu_chunk_def cu_notify_def Let_def split: if_splits option.splits)

lemma sends_one_cursor: "sends_one (cu_native c) (cu_sent c) (cu_sent (snd (cu_observe compress parts c)))"
proof -
  have "sends_one (cu_native c) (cu_sent c) (cu_sent (snd (cu_state args c)))" for args
    by (auto simp: cu_state_def cu_notify_def Let_def cu_pump_like split: option.split prod.split)
  moreover have "sends_one (cu_native c) (cu_sent c) (cu_sent (snd (cu_data compress args c)))" for args
    by (auto simp: cu_data_def cu_pump_like split: list.split option.split dest: cu_chunk_sent)
  ultimately show ?thesis by (simp add: cu_observe_def split: list.split)
qed

lemma sends_one_clip_pump:
  "cb_native c' = cb_native c \<Longrightarrow> cb_sent c' = cb_sent c \<Longrightarrow> sends_one (cb_native c) (cb_sent c) (cb_sent (snd (snd (clip_pump c'))))"
  by (auto simp: sends_one_def clip_pump_def Let_def split: option.split)

lemma clip_chunk_sent: "clip_chunk r off x c = Some c' \<Longrightarrow> cb_sent c' = cb_sent c \<and> cb_native c' = cb_native c"
  by (auto simp: clip_chunk_def clip_report_def Let_def split: if_splits option.splits)

lemma sends_one_clip: "sends_one (cb_native c) (cb_sent c) (cb_sent (snd (snd (clip_observe parts c))))"
proof -
  have "sends_one (cb_native c) (cb_sent c) (cb_sent (snd (snd (clip_published kind args c))))" for kind args
    by (auto simp: clip_published_def split: list.split option.split)
  moreover have "sends_one (cb_native c) (cb_sent c) (cb_sent (snd (snd (clip_state args c))))" for args
    by (auto simp: clip_state_def clip_report_def Let_def sends_one_clip_pump split: option.split prod.split
        dest: clip_token_for_fields)
  moreover have "sends_one (cb_native c) (cb_sent c) (cb_sent (snd (snd (clip_data_record args c))))" for args
    by (auto simp: clip_data_record_def Let_def sends_one_clip_pump split: list.split option.split dest: clip_chunk_sent)
  ultimately show ?thesis by (simp add: clip_observe_def split: list.split)
qed

lemma sends_one_commit: "sends_one (cb_native c) (cb_sent c) (cb_sent (snd (clip_commit tok v k c)))"
  by (auto simp: clip_commit_def sends_one_def clip_close_def Let_def split: option.split channel_result.split)

lemma buffer_ok_sent:
  assumes "buffer_ok d" "sends_one (native_view_of d) old new" "nd_channel u = channel_append (concat (drop (length old) new)) (nd_channel d)"
    "nd_closed u = nd_closed d"
  shows "buffer_ok u"
  using assms by (auto simp: sends_one_def buffer_ok_def channel_append_def channel_answer_def native_view_of_def split: if_splits)

lemma buffer_ok_with_cursor:
  assumes "buffer_ok d" "\<And>c. sends_one (cu_native c) (cu_sent c) (cu_sent (snd (f c)))"
  shows "buffer_ok (snd (nd_with_cursor f d))"
proof -
  let ?c = "(nd_cursor d)\<lparr>cu_native := native_view_of d\<rparr>"
  obtain r c' where f: "f ?c = (r, c')" by fastforce
  show ?thesis
    using assms(2) [of ?c] f
    by (intro buffer_ok_sent [OF assms(1), of "cu_sent ?c" "cu_sent c'"]) (simp_all add: nd_with_cursor_def Let_def)
qed

lemma nd_notify_changes [simp]:
  "nd_channel (fold (\<lambda>x. nd_notify (g x)) xs d) = nd_channel d"
  by (induction xs arbitrary: d) simp_all

lemma buffer_ok_with_clipboard:
  assumes "buffer_ok d" "\<And>c. sends_one (cb_native c) (cb_sent c) (cb_sent (snd (f c)))"
  shows "buffer_ok (snd (nd_with_clipboard f d))"
proof -
  let ?c = "(nd_clipboard d)\<lparr>cb_native := native_view_of d\<rparr>"
  obtain r c' where f: "f ?c = (r, c')" by fastforce
  show ?thesis
    using assms(2) [of ?c] f
    by (intro buffer_ok_sent [OF assms(1), of "cb_sent ?c" "cb_sent c'"]) (simp_all add: nd_with_clipboard_def Let_def)
qed

lemma buffer_ok_simps [simp]:
  "buffer_ok (nd_call c d) = buffer_ok d"
  "buffer_ok (nd_notify n d) = buffer_ok d"
  "buffer_ok (nd_complete x d) = buffer_ok d"
  "buffer_ok (nd_contexts_changed d) = buffer_ok d"
  by (simp_all add: buffer_ok_def)

lemma buffer_ok_changed: "buffer_ok d \<Longrightarrow> buffer_ok (nd_changed d)"
  unfolding nd_changed_def
  by (simp, intro buffer_ok_with_clipboard buffer_ok_with_cursor)
    (simp_all add: clip_invalidate_def cu_invalidate_def cu_notify_def)

lemma buffer_ok_fields:
  "nd_channel u = nd_channel d \<Longrightarrow> nd_closed u = nd_closed d \<Longrightarrow> buffer_ok u = buffer_ok d"
  by (simp add: buffer_ok_def)

subsection \<open>Losing the channel\<close>

lemma registry_ok_forget: "registry_ok d \<Longrightarrow> registry_ok (nd_forget d)"
  by (simp add: registry_ok_def nd_forget_def) (simp add: registry_defs)

lemma registry_ok_drops:
  "registry_ok d \<Longrightarrow> registry_ok (nd_drop_text d)"
  "registry_ok d \<Longrightarrow> registry_ok (nd_drop_display d)"
  "registry_ok d \<Longrightarrow> registry_ok (nd_drop_query d)"
  by (simp_all add: nd_drop_text_def nd_drop_display_def nd_drop_query_def registry_ok_def counters_ok_text split: option.split)

lemma registry_ok_lost: "registry_ok d \<Longrightarrow> registry_ok (nd_lost d)"
proof -
  assume ok: "registry_ok d"
  obtain r u where u: "nd_with_clipboard clip_close (snd (nd_with_cursor (\<lambda>c. ((), cu_close c)) (nd_forget d))) = (r, u)"
    by fastforce
  have "registry_ok u" using registry_ok_forget [OF ok] u by (metis registry_ok_same(3,4) snd_conv)
  then show ?thesis using ok registry_ok_drops by (simp add: nd_lost_def u)
qed

lemma buffer_ok_drops [simp]:
  "buffer_ok (nd_drop_text d) = buffer_ok d"
  "buffer_ok (nd_drop_display d) = buffer_ok d"
  "buffer_ok (nd_drop_query d) = buffer_ok d"
  by (simp_all add: buffer_ok_def nd_drop_text_def nd_drop_display_def nd_drop_query_def split: option.split)

lemma nd_closed_drops [simp]:
  "nd_closed (nd_drop_text d) = nd_closed d"
  "nd_closed (nd_drop_display d) = nd_closed d"
  "nd_closed (nd_drop_query d) = nd_closed d"
  by (simp_all add: nd_drop_text_def nd_drop_display_def nd_drop_query_def split: option.split)

lemma buffer_ok_lost:
  assumes "length (ch_output (nd_channel d)) \<le> MAX_BUFFER" "length (ch_input (nd_channel d)) \<le> MAX_RECORD"
    "ch_closed (nd_channel d) \<longrightarrow> ch_output (nd_channel d) = []"
  shows "buffer_ok (nd_lost d) \<and> nd_closed (nd_lost d)"
proof (cases "nd_closed d")
  case True
  then show ?thesis using assms by (simp add: nd_lost_def buffer_ok_def)
next
  case False
  let ?c = "snd (nd_with_cursor (\<lambda>c. ((), cu_close c)) (nd_forget d))"
  obtain r u where u: "nd_with_clipboard clip_close ?c = (r, u)" by fastforce
  have "buffer_ok (nd_forget d)" using assms by (simp add: buffer_ok_def nd_forget_def)
  then have "buffer_ok ?c"
    by (rule buffer_ok_with_cursor) (simp add: cu_close_def cu_invalidate_def cu_notify_def)
  then have "buffer_ok (snd (nd_with_clipboard clip_close ?c))"
    by (rule buffer_ok_with_clipboard) (simp add: clip_close_def)
  moreover have "nd_closed (snd (nd_with_clipboard clip_close ?c))" by (simp add: nd_forget_def)
  ultimately have "buffer_ok u" "nd_closed u" by (simp_all add: u)
  then show ?thesis using False by (simp add: nd_lost_def u buffer_ok_changed)
qed

definition native_inv :: "native \<Rightarrow> bool" where
  "native_inv d \<longleftrightarrow> registry_ok d \<and> buffer_ok d"

lemma native_inv_lost: "native_inv d \<Longrightarrow> native_inv (nd_lost d)"
  using buffer_ok_lost [of d] by (simp add: native_inv_def registry_ok_lost buffer_ok_def)

lemma native_inv_close: "native_inv d \<Longrightarrow> native_inv (nd_close_channel d)"
  using buffer_ok_lost [of "d\<lparr>nd_channel := channel_shut (nd_channel d)\<rparr>"]
  by (simp add: nd_close_channel_def native_inv_def registry_ok_lost channel_shut_def)

lemma native_inv_send: "native_inv d \<Longrightarrow> native_inv (snd (nd_send data d))"
proof (cases "send_answer (nd_channel d) data")
  case Queued
  moreover assume "native_inv d"
  ultimately show ?thesis
    by (auto simp: nd_send_def native_inv_def buffer_ok_def send_answer_def channel_append_def split: if_splits)
qed (simp_all add: nd_send_def native_inv_close)

lemma native_inv_write: "native_inv d \<Longrightarrow> native_inv (nd_write count d)"
proof (cases "fst (channel_write count (nd_channel d))")
  case True
  then show "native_inv d \<Longrightarrow> ?thesis"
    by (cases "channel_write count (nd_channel d)") (simp add: nd_write_def native_inv_close)
next
  case False
  assume inv: "native_inv d"
  have "length (ch_output (snd (channel_write count (nd_channel d)))) \<le> length (ch_output (nd_channel d))"
    "ch_input (snd (channel_write count (nd_channel d))) = ch_input (nd_channel d)"
    "ch_closed (snd (channel_write count (nd_channel d))) = ch_closed (nd_channel d)"
    by (simp_all add: channel_write_def Let_def)
  with inv False show ?thesis
    by (auto simp: nd_write_def native_inv_def buffer_ok_def split: prod.split)
qed

lemma native_inv_simps [simp]:
  "native_inv (nd_call c d) = native_inv d"
  "native_inv (nd_notify n d) = native_inv d"
  "native_inv (nd_complete x d) = native_inv d"
  by (simp_all add: native_inv_def)

lemma native_inv_with_cursor:
  "native_inv d \<Longrightarrow> (\<And>c. sends_one (cu_native c) (cu_sent c) (cu_sent (snd (f c)))) \<Longrightarrow> native_inv (snd (nd_with_cursor f d))"
  by (simp add: native_inv_def buffer_ok_with_cursor)

lemma native_inv_with_clipboard:
  "native_inv d \<Longrightarrow> (\<And>c. sends_one (cb_native c) (cb_sent c) (cb_sent (snd (f c)))) \<Longrightarrow> native_inv (snd (nd_with_clipboard f d))"
  by (simp add: native_inv_def buffer_ok_with_clipboard)

subsection \<open>Reading records\<close>

text \<open>A record changes the channel and \<open>nd_closed\<close> only through the notifications of \<open>nd_changed\<close>.\<close>

definition same_buffer :: "native \<Rightarrow> native option \<Rightarrow> bool" where
  "same_buffer d r \<longleftrightarrow> (\<forall>u. r = Some u \<longrightarrow> (buffer_ok d \<longrightarrow> buffer_ok u))"

lemma same_buffer_if: "same_buffer d a \<Longrightarrow> same_buffer d b \<Longrightarrow> same_buffer d (if c then a else b)"
  by simp

named_theorems buffer_steps

lemma buffer_other [simp]:
  "buffer_ok (d\<lparr>nd_version := a1\<rparr>) = buffer_ok d"
  "buffer_ok (d\<lparr>nd_text_request := a2\<rparr>) = buffer_ok d"
  "buffer_ok (d\<lparr>nd_text_contexts := a3\<rparr>) = buffer_ok d"
  "buffer_ok (d\<lparr>nd_last_text_context := a4\<rparr>) = buffer_ok d"
  "buffer_ok (d\<lparr>nd_display_query := a5\<rparr>) = buffer_ok d"
  "buffer_ok (d\<lparr>nd_declared := a6\<rparr>) = buffer_ok d"
  "buffer_ok (d\<lparr>nd_last_window := a7\<rparr>) = buffer_ok d"
  "buffer_ok (d\<lparr>nd_surfaces := a8\<rparr>) = buffer_ok d"
  "buffer_ok (d\<lparr>nd_last_surface := a9\<rparr>) = buffer_ok d"
  "buffer_ok (d\<lparr>nd_focus := b1\<rparr>) = buffer_ok d"
  "buffer_ok (d\<lparr>nd_target := b2\<rparr>) = buffer_ok d"
  "buffer_ok (d\<lparr>nd_windows := b3\<rparr>) = buffer_ok d"
  "buffer_ok (d\<lparr>nd_x11_windows := b4\<rparr>) = buffer_ok d"
  "buffer_ok (d\<lparr>nd_generation := b5\<rparr>) = buffer_ok d"
  "buffer_ok (d\<lparr>nd_query := b6\<rparr>) = buffer_ok d"
  "buffer_ok (d\<lparr>nd_epoch := b7\<rparr>) = buffer_ok d"
  "buffer_ok (d\<lparr>nd_last_epoch := b8\<rparr>) = buffer_ok d"
  "buffer_ok (d\<lparr>nd_attachment := b9\<rparr>) = buffer_ok d"
  "buffer_ok (d\<lparr>nd_attachments := c1\<rparr>) = buffer_ok d"
  "buffer_ok (d\<lparr>nd_waiters := c2\<rparr>) = buffer_ok d"
  "buffer_ok (d\<lparr>nd_query_id := c3\<rparr>) = buffer_ok d"
  "buffer_ok (d\<lparr>nd_display_requested := c4\<rparr>) = buffer_ok d"
  "buffer_ok (d\<lparr>nd_last_text_request := c5\<rparr>) = buffer_ok d"
  "buffer_ok (d\<lparr>nd_capturing := c6\<rparr>) = buffer_ok d"
  "buffer_ok (d\<lparr>nd_dispatch := c7\<rparr>) = buffer_ok d"
  by (simp_all add: buffer_ok_def)

lemma same_buffer_version [buffer_steps]: "same_buffer d (obs_version args d)"
  by (simp add: same_buffer_def obs_version_def)
lemma same_buffer_text_response [buffer_steps]: "same_buffer d (obs_text_response kind args d)"
  by (simp add: same_buffer_def obs_text_response_def Let_def split: list.split option.split)
lemma same_buffer_text_context [buffer_steps]: "same_buffer d (obs_text_context args d)"
  by (simp add: same_buffer_def obs_text_context_def split: option.split)
lemma same_buffer_context_retired [buffer_steps]: "same_buffer d (obs_context_retired args d)"
  by (auto simp: same_buffer_def obs_context_retired_def split: list.splits)
lemma same_buffer_surrounding [buffer_steps]: "same_buffer d (obs_surrounding args d)"
  by (auto simp: same_buffer_def obs_surrounding_def split: list.splits option.splits if_splits)
lemma same_buffer_display [buffer_steps]: "same_buffer d (obs_display args d)"
  by (simp add: same_buffer_def obs_display_def split: list.split option.split)
lemma same_buffer_window_instance [buffer_steps]: "same_buffer d (obs_window_instance args d)"
  by (simp add: same_buffer_def obs_window_instance_def split: list.split option.split)
lemma same_buffer_title [buffer_steps]: "same_buffer d (obs_title args d)"
  by (simp add: same_buffer_def obs_title_def split: list.split option.split)
lemma same_buffer_surface_instance [buffer_steps]: "same_buffer d (obs_surface_instance args d)"
  by (simp add: same_buffer_def obs_surface_instance_def split: list.split option.split)
lemma same_buffer_surface_retired [buffer_steps]: "same_buffer d (obs_surface_retired args d)"
  by (simp add: same_buffer_def obs_surface_retired_def Let_def buffer_ok_changed split: list.split option.split)
lemma same_buffer_focus [buffer_steps]: "same_buffer d (obs_focus args d)"
  by (simp add: same_buffer_def obs_focus_def buffer_ok_changed split: option.split)
lemma same_buffer_window_state [buffer_steps]: "same_buffer d (obs_window_state args d)"
  by (simp add: same_buffer_def obs_window_state_def Let_def buffer_ok_changed split: option.split)
lemma same_buffer_window_x11 [buffer_steps]: "same_buffer d (obs_window_x11 args d)"
  by (simp add: same_buffer_def obs_window_x11_def split: list.split option.split)
lemma same_buffer_window_retired [buffer_steps]: "same_buffer d (obs_window_retired args d)"
  by (simp add: same_buffer_def obs_window_retired_def Let_def buffer_ok_changed split: list.split option.split)
lemma same_buffer_scene [buffer_steps]: "same_buffer d (obs_scene args d)"
  by (simp add: same_buffer_def obs_scene_def buffer_ok_changed split: list.split option.split)
lemma same_buffer_scene_at [buffer_steps]: "same_buffer d (obs_scene_at args d)"
  by (simp add: same_buffer_def obs_scene_at_def split: list.split option.split)
lemma same_buffer_damage [buffer_steps]: "same_buffer d (obs_damage args d)"
  by (simp add: same_buffer_def obs_damage_def split: list.split)

lemma buffer_ok_record: "buffer_ok d \<Longrightarrow> observe_record kind args d = Some u \<Longrightarrow> buffer_ok u"
proof -
  have "same_buffer d (observe_record kind args d)"
    unfolding observe_record_def
    by (intro same_buffer_if; (rule buffer_steps)?) (simp_all add: same_buffer_def)
  then show "buffer_ok d \<Longrightarrow> observe_record kind args d = Some u \<Longrightarrow> buffer_ok u" by (simp add: same_buffer_def)
qed

lemma native_inv_observe: "native_inv d \<Longrightarrow> native_inv (snd (nd_observe compress line d))"
proof -
  assume inv: "native_inv d"
  have cl: "native_inv (snd (nd_with_clipboard (\<lambda>c. case clip_observe parts c of (e, r, c') \<Rightarrow> ((e, r), c')) d))" for parts
    using sends_one_clip by (intro native_inv_with_clipboard inv) (simp split: prod.split, metis snd_conv)
  have cu: "native_inv (snd (nd_with_cursor (cu_observe compress parts) d))" for parts
    by (intro native_inv_with_cursor inv sends_one_cursor)
  have rec: "native_inv u" if "observe_record kind args d = Some u" "\<not> nd_closed d" for kind args u
    using inv that registry_ok_record buffer_ok_record unfolding native_inv_def by blast
  have clip: "native_inv (nd_complete x u)"
    if "nd_with_clipboard (\<lambda>c. case clip_observe parts c of (e, r, c') \<Rightarrow> ((e, r), c')) d = ((raised, x), u)" for parts raised x u
    using cl [of parts] that by simp
  show ?thesis
    using inv cu clip rec by (simp add: nd_observe_def split: list.split option.split prod.split)
qed

lemma read_lines_keeps:
  assumes "\<And>line w. P w \<Longrightarrow> P (snd (observed line w))"
  shows "P w \<Longrightarrow> P (snd (read_lines observed shut input w))"
proof (induction "length input" arbitrary: input w rule: less_induct)
  case less
  show ?case
  proof (cases "10 \<in> set input")
    case True
    then obtain line rest where a: "input = line @ 10 # rest" "10 \<notin> set line" by (rule split_line)
    obtain raised v where o: "observed (map char_of line) w = (raised, v)" by fastforce
    have "P v" using assms [OF less.prems, of "map char_of line"] o by simp
    moreover have "length rest < length input" by (simp add: a(1))
    ultimately have "P (snd (read_lines observed shut rest v))" using less.hyps by blast
    with \<open>P v\<close> less.prems a show ?thesis by (simp add: read_lines_line o)
  next
    case False
    with less.prems show ?thesis by (simp add: read_lines_wait)
  qed
qed

lemma native_inv_read: "native_inv d \<Longrightarrow> native_inv (nd_read compress data d)"
proof -
  assume inv: "native_inv d"
  obtain e u where e: "read_lines (nd_observe compress) (\<lambda>u. ch_closed (nd_channel u)) (ch_input (nd_channel d) @ data) d = (e, u)"
    by fastforce
  have "native_inv (snd (read_lines (nd_observe compress) (\<lambda>u. ch_closed (nd_channel u)) (ch_input (nd_channel d) @ data) d))"
    by (rule read_lines_keeps) (rule native_inv_observe, assumption, rule inv)
  then have u: "native_inv u" by (simp only: e snd_conv)
  have "native_inv (u\<lparr>nd_channel := (nd_channel u)\<lparr>ch_input := rest\<rparr>\<rparr>)" if "e = Waits rest" for rest
    using u read_lines_waits [of _ _ _ _ rest u] e that by (auto simp: native_inv_def buffer_ok_def)
  with u inv show ?thesis
    by (cases e) (simp_all add: nd_read_def e native_inv_close)
qed

subsection \<open>The viewers' operations\<close>

lemma native_inv_update:
  "native_inv d \<Longrightarrow> counters_ok u \<Longrightarrow> nd_channel u = nd_channel d \<Longrightarrow> nd_closed u = nd_closed d \<Longrightarrow>
     windows_ok u = windows_ok d \<Longrightarrow> surfaces_ok u = surfaces_ok d \<Longrightarrow> contexts_ok u = contexts_ok d \<Longrightarrow>
     scene_ok u = scene_ok d \<Longrightarrow> native_inv u"
  by (simp add: native_inv_def registry_ok_def buffer_ok_def)

lemma native_inv_counters: "native_inv d \<Longrightarrow> counters_ok d"
  by (simp add: native_inv_def registry_ok_def)

lemma native_inv_bind: "native_inv d \<Longrightarrow> native_inv (snd (nd_bind epoch d))"
proof -
  assume inv: "native_inv d"
  let ?d = "d\<lparr>nd_epoch := epoch, nd_last_epoch := epoch\<rparr>"
  have "native_inv ?d" if "1 \<le> epoch" "epoch \<le> MAX_ID"
    by (rule native_inv_update [OF inv]) (use that native_inv_counters [OF inv] in \<open>simp_all add: counters_ok_def\<close>)
  then show ?thesis using inv native_inv_send by (simp add: nd_bind_def Let_def)
qed

lemma native_inv_register: "native_inv d \<Longrightarrow> native_inv (snd (nd_register a epoch d))"
proof -
  assume inv: "native_inv d"
  let ?d = "d\<lparr>nd_attachments := (if a \<in> set (nd_attachments d) then nd_attachments d else nd_attachments d @ [a]),
                   nd_attachment := (case nd_attachment d of None \<Rightarrow> Some a | Some b \<Rightarrow> Some b)\<rparr>"
  have "native_inv ?d"
    by (rule native_inv_update [OF inv]) (use native_inv_counters [OF inv] in \<open>auto simp: counters_ok_def split: option.split\<close>)
  moreover from this have "native_inv (snd (nd_bind e ?d))" for e by (rule native_inv_bind)
  ultimately show ?thesis using inv
    by (cases "nd_attachments d = []"; cases "nd_version d") (simp_all add: nd_register_def Let_def)
qed

lemma native_inv_invalidates:
  "native_inv d \<Longrightarrow> native_inv (snd (nd_with_clipboard (\<lambda>c. ((), clip_invalidate c)) (snd (nd_with_cursor (\<lambda>c. ((), cu_invalidate c)) d))))"
  by (intro native_inv_with_clipboard native_inv_with_cursor)
    (simp_all add: clip_invalidate_def cu_invalidate_def cu_notify_def)

lemma native_inv_unbind: "native_inv d \<Longrightarrow> native_inv (snd (nd_unbind epoch d))"
proof -
  assume inv: "native_inv d"
  obtain e u where u: "nd_send (''detach '' @ py_str epoch @ ''\<newline>'') d = (e, u)" by fastforce
  then have iu: "native_inv u" using native_inv_send [OF inv] by (metis snd_conv)
  have "native_inv (u\<lparr>nd_epoch := 0\<rparr>)"
    by (rule native_inv_update [OF iu]) (use native_inv_counters [OF iu] in \<open>simp_all add: counters_ok_def\<close>)
  with inv iu show ?thesis unfolding nd_unbind_def u by (cases e) (simp_all add: native_inv_invalidates)
qed

lemma remaining_attachment_in:
  assumes "\<forall>b. current = Some b \<longrightarrow> b \<in> set as"
  shows "(removeAll a as = [] \<longrightarrow> remaining_attachment a (removeAll a as) current = None) \<and>
    (\<forall>b. remaining_attachment a (removeAll a as) current = Some b \<longrightarrow> b \<in> set (removeAll a as))"
proof (cases "current = Some a")
  case True
  show ?thesis
  proof (cases "removeAll a as")
    case (Cons b bs)
    have "b \<in> set (removeAll a as)" unfolding Cons by simp
    with Cons True show ?thesis by (simp add: remaining_attachment_def)
  qed (simp add: True remaining_attachment_def)
next
  case False
  show ?thesis
  proof (cases current)
    case (Some b)
    have b: "b \<in> set (removeAll a as)" using Some False assms by simp
    then have "removeAll a as \<noteq> []" by (metis empty_iff list.set(1))
    with b Some False show ?thesis by (simp add: remaining_attachment_def)
  qed (simp add: remaining_attachment_def)
qed

lemma native_inv_unregister: "native_inv d \<Longrightarrow> native_inv (snd (nd_unregister a d))"
proof -
  assume inv: "native_inv d"
  define left m where "left = removeAll a (nd_attachments d)" and "m = remaining_attachment a left (nd_attachment d)"
  let ?d = "d\<lparr>nd_attachments := left, nd_attachment := m, nd_waiters := filter (\<lambda>w. cw_attachment w \<noteq> a) (nd_waiters d)\<rparr>"
  have c: "counters_ok d" by (rule native_inv_counters [OF inv])
  have "\<forall>b. nd_attachment d = Some b \<longrightarrow> b \<in> set (nd_attachments d)" using c by (simp add: counters_ok_def)
  from remaining_attachment_in [OF this, of a] have m: "left = [] \<longrightarrow> m = None" "\<forall>b. m = Some b \<longrightarrow> b \<in> set left"
    unfolding left_def m_def by blast+
  have "distinct left" using c by (simp add: counters_ok_def distinct_removeAll left_def)
  with m c have "counters_ok ?d" by (simp add: counters_ok_def)
  then have "native_inv ?d" by (rule native_inv_update [OF inv]) simp_all
  then have "native_inv (snd (nd_unbind (nd_epoch d) ?d))" by (rule native_inv_unbind)
  moreover have "nd_unregister a d = (if left = [] \<and> nd_epoch d \<noteq> 0 then nd_unbind (nd_epoch d) ?d else (False, ?d))"
    unfolding nd_unregister_def Let_def left_def m_def by simp
  ultimately show ?thesis using \<open>native_inv ?d\<close> by (cases "left = [] \<and> nd_epoch d \<noteq> 0") simp_all
qed

lemma native_inv_query_display: "native_inv d \<Longrightarrow> native_inv (snd (nd_query_display k d))"
proof -
  assume inv: "native_inv d"
  let ?d = "d\<lparr>nd_display_requested := True, nd_display_query := Some k\<rparr>"
  have "native_inv ?d" by (rule native_inv_update [OF inv]) (use native_inv_counters [OF inv] in simp_all)
  moreover obtain e u where u: "nd_send ''display-query\<newline>'' ?d = (e, u)" by fastforce
  ultimately have "native_inv u" using native_inv_send by (metis snd_conv)
  with inv native_inv_lost show ?thesis by (simp add: nd_query_display_def u)
qed

lemma native_inv_query_scene: "native_inv d \<Longrightarrow> native_inv (snd (nd_query_scene k d))"
proof -
  assume inv: "native_inv d"
  let ?d = "d\<lparr>nd_query_id := nd_query_id d + 1, nd_query := Some k\<rparr>"
  have "native_inv ?d" if "nd_query_id d + 1 \<le> MAX_ID"
    by (rule native_inv_update [OF inv]) (use that native_inv_counters [OF inv] in \<open>simp_all add: counters_ok_def\<close>)
  with inv show ?thesis by (simp add: nd_query_scene_def Let_def native_inv_send)
qed

lemma native_inv_submit: "native_inv d \<Longrightarrow> native_inv (snd (nd_submit epoch target commands d))"
  by (simp add: nd_submit_def native_inv_send)

lemma native_inv_text: "native_inv d \<Longrightarrow> native_inv (snd (nd_text_operation epoch target content k d))"
proof -
  assume inv: "native_inv d"
  let ?n = "nd_last_text_request d + 1"
  have retire: "native_inv (u\<lparr>nd_text_request := None\<rparr>)" if "native_inv u" for u
    by (rule native_inv_update [OF that]) (use native_inv_counters [OF that] in \<open>simp_all add: counters_ok_def\<close>)
  show ?thesis
  proof (cases "nd_text_request d \<noteq> None \<or> ?n > MAX_ID")
    case True
    with inv show ?thesis by (auto simp: nd_text_operation_def)
  next
    case False
    then have n: "?n \<le> MAX_ID" "nd_text_request d = None" by auto
    have d1: "native_inv (d\<lparr>nd_last_text_request := ?n\<rparr>)"
      by (rule native_inv_update [OF inv]) (use n native_inv_counters [OF inv] in \<open>simp_all add: counters_ok_def\<close>)
    show ?thesis
    proof (cases "text_command ?n content")
      case None
      with n d1 show ?thesis by (simp add: nd_text_operation_def Let_def)
    next
      case (Some c)
      let ?r = "\<lparr>tr_sequence = ?n, tr_barrier = (content = None), tr_epoch = epoch, tr_target = target, tr_ticket = k\<rparr>"
      let ?d = "d\<lparr>nd_last_text_request := ?n, nd_text_request := Some ?r\<rparr>"
      have "native_inv ?d"
        by (rule native_inv_update [OF inv]) (use n native_inv_counters [OF inv] in \<open>simp_all add: counters_ok_def\<close>)
      moreover obtain e u where u: "nd_submit epoch target [c] ?d = (e, u)" by fastforce
      ultimately have "native_inv u" using native_inv_submit by (metis snd_conv)
      with retire n Some show ?thesis by (cases e) (simp_all add: nd_text_operation_def Let_def u)
    qed
  qed
qed

lemma native_inv_cancel_text: "native_inv d \<Longrightarrow> native_inv (snd (nd_cancel_text r d))"
proof -
  assume inv: "native_inv d"
  have "native_inv (d\<lparr>nd_text_request := None\<rparr>)"
    by (rule native_inv_update [OF inv]) (use native_inv_counters [OF inv] in \<open>simp_all add: counters_ok_def\<close>)
  with inv show ?thesis by (simp add: nd_cancel_text_def Let_def native_inv_send)
qed

lemma native_inv_waiters: "native_inv d \<Longrightarrow> native_inv (d\<lparr>nd_waiters := ws\<rparr>)"
  and native_inv_capturing: "native_inv d \<Longrightarrow> native_inv (d\<lparr>nd_capturing := b\<rparr>)"
  and native_inv_dispatch: "native_inv d \<Longrightarrow> native_inv (d\<lparr>nd_dispatch := x\<rparr>)"
  by (simp_all add: native_inv_def registry_ok_def)

lemma native_inv_calls: "native_inv d \<Longrightarrow> native_inv (fold (\<lambda>w. nd_call (f w)) ws d)"
  by (induction ws arbitrary: d) simp_all

lemma native_inv_result: "native_inv d \<Longrightarrow> native_inv (nd_capture_result r d)"
  by (simp add: nd_capture_result_def native_inv_def registry_ok_def)

lemma native_inv_start: "native_inv d \<Longrightarrow> native_inv (nd_start_capture outcome target d)"
proof -
  assume inv: "native_inv d"
  let ?d = "nd_call (Frames_capture target) (d\<lparr>nd_capturing := True\<rparr>)"
  have d: "native_inv ?d" by (simp add: native_inv_capturing inv)
  then have "native_inv (?d\<lparr>nd_capturing := False, nd_waiters := []\<rparr>)"
    using native_inv_waiters native_inv_capturing by metis
  with d inv show ?thesis by (cases outcome) (simp_all add: nd_start_capture_def Let_def native_inv_result native_inv_calls)
qed

lemma native_inv_capture: "native_inv d \<Longrightarrow> native_inv (snd (nd_capture outcome w d))"
  by (simp add: nd_capture_def Let_def native_inv_start native_inv_waiters)

lemma native_inv_hand_over: "native_inv d \<Longrightarrow> native_inv (nd_hand_over outcome d)"
  by (simp add: nd_hand_over_def Let_def native_inv_start native_inv_dispatch split: option.split list.split)

text \<open>A selection commit that loses the channel closes it.\<close>

definition nd_clip_commit :: "clip_token option \<Rightarrow> pyval \<Rightarrow> nat \<Rightarrow> native \<Rightarrow> commit_outcome \<times> native" where
  "nd_clip_commit tok v k d =
     (case nd_with_clipboard (clip_commit tok v k) d of
        (r, u) \<Rightarrow> (r, if cb_closed (nd_clipboard u) \<and> \<not> cb_closed (nd_clipboard d) then nd_close_channel u else u))"

lemma native_inv_clip_commit: "native_inv d \<Longrightarrow> native_inv (snd (nd_clip_commit tok v k d))"
proof -
  assume inv: "native_inv d"
  have "native_inv (snd (nd_with_clipboard (clip_commit tok v k) d))"
    by (intro native_inv_with_clipboard inv sends_one_commit)
  then show ?thesis by (cases "nd_with_clipboard (clip_commit tok v k) d") (simp add: nd_clip_commit_def native_inv_close)
qed

subsection \<open>Runs\<close>

datatype native_input =
    Received bytes
  | Written nat
  | Register nat int
  | Unregister nat
  | Release int
  | Unbind int
  | Select int
  | Close_window int
  | Submit int native_target "string list"
  | Text int native_target "(int \<times> pystr) option" nat
  | Cancel_text text_request
  | Clip_commit "clip_token option" pyval nat
  | Query_display nat
  | Query_scene nat
  | Request_capture capture_outcome capture_waiter
  | Capture_finished capture_result
  | Hand_over capture_outcome

primrec nd_step :: "(bytes \<Rightarrow> bytes) \<Rightarrow> native_input \<Rightarrow> native \<Rightarrow> native" where
  "nd_step compress (Received data) d = nd_read compress data d"
| "nd_step compress (Written count) d = nd_write count d"
| "nd_step compress (Register a epoch) d = snd (nd_register a epoch d)"
| "nd_step compress (Unregister a) d = snd (nd_unregister a d)"
| "nd_step compress (Release epoch) d = snd (nd_release epoch d)"
| "nd_step compress (Unbind epoch) d = snd (nd_unbind epoch d)"
| "nd_step compress (Select window) d = snd (nd_select window d)"
| "nd_step compress (Close_window window) d = snd (nd_close_window window d)"
| "nd_step compress (Submit epoch target commands) d = snd (nd_submit epoch target commands d)"
| "nd_step compress (Text epoch target content k) d = snd (nd_text_operation epoch target content k d)"
| "nd_step compress (Cancel_text r) d = snd (nd_cancel_text r d)"
| "nd_step compress (Clip_commit tok v k) d = snd (nd_clip_commit tok v k d)"
| "nd_step compress (Query_display k) d = snd (nd_query_display k d)"
| "nd_step compress (Query_scene k) d = snd (nd_query_scene k d)"
| "nd_step compress (Request_capture outcome w) d = snd (nd_capture outcome w d)"
| "nd_step compress (Capture_finished r) d = (if nd_capturing d then nd_capture_result r d else d)"
| "nd_step compress (Hand_over outcome) d = nd_hand_over outcome d"

definition nd_run :: "(bytes \<Rightarrow> bytes) \<Rightarrow> native_input list \<Rightarrow> native \<Rightarrow> native" where
  "nd_run compress ops d = fold (nd_step compress) ops d"

lemma native_inv_new: "native_inv new_native"
  by (simp add: native_inv_def registry_ok_new) (simp add: buffer_ok_def new_native_def new_channel_def)

lemma native_inv_step: "native_inv d \<Longrightarrow> native_inv (nd_step compress op d)"
  by (cases op)
    (simp_all add: native_inv_read native_inv_write native_inv_register native_inv_unregister native_inv_send
      nd_release_def native_inv_unbind nd_select_def nd_close_window_def window_command_def native_inv_submit
      native_inv_text native_inv_cancel_text native_inv_clip_commit native_inv_query_display native_inv_query_scene
      native_inv_capture native_inv_result native_inv_hand_over)

lemma native_inv_run: "native_inv d \<Longrightarrow> native_inv (nd_run compress ops d)"
  unfolding nd_run_def by (induction ops arbitrary: d) (simp_all add: native_inv_step)

end
