(* ===== verification/Native_Safety.thy ===== *)
theory Native_Safety
  imports Native_Run
begin

section \<open>Identities in the native scene\<close>

text \<open>
  Window identities and scene generations are never reused, so the identity comparisons of the code
  (\<open>target is target\<close>) are comparisons of window and generation.
\<close>

definition advances :: "native \<Rightarrow> native \<Rightarrow> bool" where
  "advances d u \<longleftrightarrow>
     nd_last_window d \<le> nd_last_window u \<and>
     fst ` set (nd_declared u) \<subseteq> fst ` set (nd_declared d) \<union> {nd_last_window d<..} \<and>
     nd_generation d \<le> nd_generation u \<and>
     (nd_generation u = nd_generation d \<longrightarrow> nd_target u = None \<or> nd_target u = nd_target d)"

lemma advances_refl [simp]: "advances d d"
  by (simp add: advances_def)

lemma subset_step: "V \<subseteq> B \<union> U \<Longrightarrow> B \<subseteq> A \<union> D \<Longrightarrow> U \<subseteq> D \<Longrightarrow> V \<subseteq> A \<union> D"
  by blast

lemma advances_trans:
  assumes "advances d u" "advances u v"
  shows "advances d v"
proof -
  have le: "nd_last_window d \<le> nd_last_window u" "nd_last_window u \<le> nd_last_window v"
    "nd_generation d \<le> nd_generation u" "nd_generation u \<le> nd_generation v"
    using assms by (simp_all add: advances_def)
  have "nd_target v = None \<or> nd_target v = nd_target d" if g: "nd_generation v = nd_generation d"
  proof -
    have "nd_generation u = nd_generation d" "nd_generation v = nd_generation u" using g le by linarith+
    then have "nd_target u = None \<or> nd_target u = nd_target d" "nd_target v = None \<or> nd_target v = nd_target u"
      using assms by (simp_all add: advances_def)
    then show ?thesis by auto
  qed
  moreover have "fst ` set (nd_declared v) \<subseteq> fst ` set (nd_declared d) \<union> {nd_last_window d<..}"
  proof -
    have later: "{nd_last_window u<..} \<subseteq> {nd_last_window d<..}" using le(1) by auto
    have "fst ` set (nd_declared v) \<subseteq> fst ` set (nd_declared u) \<union> {nd_last_window u<..}"
      "fst ` set (nd_declared u) \<subseteq> fst ` set (nd_declared d) \<union> {nd_last_window d<..}"
      using assms unfolding advances_def by simp_all
    from subset_step [OF this later] show ?thesis .
  qed
  moreover have "nd_last_window d \<le> nd_last_window v" "nd_generation d \<le> nd_generation v" using le by linarith+
  ultimately show ?thesis unfolding advances_def by (intro conjI impI)
qed

text \<open>What does not touch windows, generation and target advances trivially.\<close>

lemma advances_same:
  "nd_last_window u = nd_last_window d \<Longrightarrow> nd_declared u = nd_declared d \<Longrightarrow> nd_generation u = nd_generation d \<Longrightarrow>
     nd_target u = nd_target d \<or> nd_target u = None \<Longrightarrow> advances d u"
  by (auto simp: advances_def)

definition advances_opt :: "native \<Rightarrow> native option \<Rightarrow> bool" where
  "advances_opt d r \<longleftrightarrow> (\<forall>u. r = Some u \<longrightarrow> advances d u)"

lemma advances_opt_if: "advances_opt d a \<Longrightarrow> advances_opt d b \<Longrightarrow> advances_opt d (if c then a else b)"
  by simp

named_theorems advance_steps

lemma advances_version [advance_steps]: "advances_opt d (obs_version args d)"
  by (simp add: advances_opt_def obs_version_def advances_same)
lemma advances_text_response [advance_steps]: "advances_opt d (obs_text_response kind args d)"
  by (simp add: advances_opt_def obs_text_response_def Let_def advances_same split: list.split option.split)
lemma advances_text_context [advance_steps]: "advances_opt d (obs_text_context args d)"
  by (simp add: advances_opt_def obs_text_context_def advances_same split: option.split)
lemma advances_context_retired [advance_steps]: "advances_opt d (obs_context_retired args d)"
  by (auto simp: advances_opt_def obs_context_retired_def advances_same split: list.splits)
lemma advances_surrounding [advance_steps]: "advances_opt d (obs_surrounding args d)"
  by (auto simp: advances_opt_def obs_surrounding_def split: list.splits option.splits if_splits)
lemma advances_display [advance_steps]: "advances_opt d (obs_display args d)"
  by (simp add: advances_opt_def obs_display_def advances_same split: list.split option.split)
lemma advances_window_instance [advance_steps]: "advances_opt d (obs_window_instance args d)"
  by (simp add: advances_opt_def obs_window_instance_def advances_def AList.dom_update split: list.split option.split)
lemma advances_title [advance_steps]: "advances_opt d (obs_title args d)"
proof (unfold advances_opt_def, intro allI impI)
  fix u
  assume "obs_title args d = Some u"
  then obtain wid old title where w: "map_of (nd_declared d) wid = Some old"
    and u: "u = d \<or> u = nd_notify Metadata_changed (d\<lparr>nd_declared := AList.update wid title (nd_declared d)\<rparr>)"
    by (auto simp: obs_title_def split: list.splits option.splits if_splits)
  with dom_update_same [OF map_of_Some_dom [OF w], of title] show "advances d u"
    by (elim disjE) (simp_all add: advances_def)
qed
lemma advances_surface_instance [advance_steps]: "advances_opt d (obs_surface_instance args d)"
  by (simp add: advances_opt_def obs_surface_instance_def advances_same split: list.split option.split)
lemma advances_surface_retired [advance_steps]: "advances_opt d (obs_surface_retired args d)"
  by (simp add: advances_opt_def obs_surface_retired_def Let_def advances_same split: list.split option.split)
lemma advances_focus [advance_steps]: "advances_opt d (obs_focus args d)"
  by (simp add: advances_opt_def obs_focus_def advances_same split: option.split)
lemma advances_window_state [advance_steps]: "advances_opt d (obs_window_state args d)"
  by (simp add: advances_opt_def obs_window_state_def Let_def advances_same split: option.split)
lemma advances_window_x11 [advance_steps]: "advances_opt d (obs_window_x11 args d)"
  by (simp add: advances_opt_def obs_window_x11_def advances_same split: list.split option.split)
lemma advances_window_retired [advance_steps]: "advances_opt d (obs_window_retired args d)"
  by (simp add: advances_opt_def obs_window_retired_def Let_def advances_def dom_delete split: list.split option.split)
    auto
lemma advances_scene [advance_steps]: "advances_opt d (obs_scene args d)"
  by (auto simp: advances_opt_def obs_scene_def advances_def split: list.splits option.splits if_splits)
lemma advances_scene_at [advance_steps]: "advances_opt d (obs_scene_at args d)"
  by (simp add: advances_opt_def obs_scene_at_def advances_same split: list.split option.split)
lemma advances_damage [advance_steps]: "advances_opt d (obs_damage args d)"
  by (simp add: advances_opt_def obs_damage_def advances_same split: list.split)

lemma advances_record: "observe_record kind args d = Some u \<Longrightarrow> advances d u"
proof -
  have "advances_opt d (observe_record kind args d)"
    unfolding observe_record_def
    by (intro advances_opt_if; (rule advance_steps)?) (simp_all add: advances_opt_def)
  then show "observe_record kind args d = Some u \<Longrightarrow> advances d u" by (simp add: advances_opt_def)
qed

lemma advances_observe: "advances d (snd (nd_observe compress line d))"
proof -
  have clip: "advances d (nd_complete x u)"
    if "nd_with_clipboard f d = ((raised, x), u)" for f :: "clip \<Rightarrow> (bool \<times> (nat \<times> code option) option) \<times> clip" and raised x u
    by (rule advances_same) (use that nd_with_clipboard_fields [of f d] in simp_all)
  have cur: "advances d (snd (nd_with_cursor f d))" for f :: "cursor \<Rightarrow> bool \<times> cursor"
    by (rule advances_same) simp_all
  show ?thesis
    using clip cur advances_record by (simp add: nd_observe_def split: list.split option.split prod.split)
qed

lemma advances_lost: "advances d (nd_lost d)"
proof (cases "nd_closed d")
  case False
  obtain r u where u: "nd_with_clipboard clip_close (snd (nd_with_cursor (\<lambda>c. ((), cu_close c)) (nd_forget d))) = (r, u)"
    by fastforce
  have u': "u = snd (nd_with_clipboard clip_close (snd (nd_with_cursor (\<lambda>c. ((), cu_close c)) (nd_forget d))))"
    by (simp add: u)
  have "nd_last_window u = nd_last_window d \<and> nd_declared u = nd_declared d \<and> nd_generation u = nd_generation d \<and> nd_target u = None"
    unfolding u' by (simp add: nd_forget_def)
  with False show ?thesis
    by (intro advances_same)
      (simp_all add: nd_lost_def u nd_drop_text_def nd_drop_display_def nd_drop_query_def split: option.split)
qed (simp add: nd_lost_def)

lemma advances_close: "advances d (nd_close_channel d)"
  using advances_lost [of "d\<lparr>nd_channel := channel_shut (nd_channel d)\<rparr>"]
  by (simp add: nd_close_channel_def advances_def)

lemma advances_send: "advances d (snd (nd_send data d))"
  by (simp add: nd_send_def advances_close advances_same split: channel_result.split)

lemma advances_sent:
  assumes "nd_last_window u = nd_last_window d" "nd_declared u = nd_declared d" "nd_generation u = nd_generation d"
    "nd_target u = nd_target d \<or> nd_target u = None"
  shows "advances d (snd (nd_send data u))"
  using advances_trans [OF advances_same [OF assms] advances_send] .

lemma advances_write: "advances d (nd_write count d)"
  by (simp add: nd_write_def advances_close advances_same split: prod.split)

lemma advances_read: "advances d (nd_read compress data d)"
proof -
  obtain e u where e: "read_lines (nd_observe compress) (\<lambda>u. ch_closed (nd_channel u)) (ch_input (nd_channel d) @ data) d = (e, u)"
    by fastforce
  have "advances d (snd (read_lines (nd_observe compress) (\<lambda>u. ch_closed (nd_channel u)) (ch_input (nd_channel d) @ data) d))"
    by (rule read_lines_keeps [where P = "advances d"]) (blast intro: advances_trans advances_observe, simp)
  then have u: "advances d u" by (simp only: e snd_conv)
  have "advances d (u\<lparr>nd_channel := c\<rparr>)" for c using u by (simp add: advances_def)
  with u show ?thesis
    by (cases e) (simp_all add: nd_read_def e advances_close advances_trans [OF u advances_close])
qed

lemma advances_bind:
  assumes "nd_last_window u = nd_last_window d" "nd_declared u = nd_declared d" "nd_generation u = nd_generation d"
    "nd_target u = nd_target d \<or> nd_target u = None"
  shows "advances d (snd (nd_bind epoch u))"
  unfolding nd_bind_def Let_def using assms by (auto intro!: advances_same advances_sent)

lemma advances_unbind:
  assumes "nd_last_window u = nd_last_window d" "nd_declared u = nd_declared d" "nd_generation u = nd_generation d"
    "nd_target u = nd_target d \<or> nd_target u = None"
  shows "advances d (snd (nd_unbind epoch u))"
proof -
  obtain e v where v: "nd_send (''detach '' @ py_str epoch @ ''\<newline>'') u = (e, v)" by fastforce
  have "advances d v" using advances_sent [OF assms, of "''detach '' @ py_str epoch @ ''\<newline>''"] unfolding v by simp
  then have w: "advances d (nd_call c (snd (nd_with_clipboard f (snd (nd_with_cursor g (v\<lparr>nd_epoch := 0\<rparr>))))))"
    for c and f :: "clip \<Rightarrow> unit \<times> clip" and g :: "cursor \<Rightarrow> unit \<times> cursor"
    by (rule advances_trans) (rule advances_same; simp)
  have "advances d (nd_call c u)" for c by (rule advances_same) (use assms in simp_all)
  with w \<open>advances d v\<close> show ?thesis unfolding nd_unbind_def v by (cases e) simp_all
qed

lemma advances_submit:
  assumes "nd_last_window u = nd_last_window d" "nd_declared u = nd_declared d" "nd_generation u = nd_generation d"
    "nd_target u = nd_target d \<or> nd_target u = None"
  shows "advances d (snd (nd_submit epoch target commands u))"
  unfolding nd_submit_def using assms by (auto intro!: advances_same advances_sent)

lemma advances_text: "advances d (snd (nd_text_operation epoch target content k d))"
proof -
  have "advances d (u\<lparr>nd_text_request := None\<rparr>)" if "advances d u" for u using that by (simp add: advances_def)
  moreover have "advances d u" if "nd_submit epoch target c (d\<lparr>nd_last_text_request := n, nd_text_request := r\<rparr>) = (e, u)" for c n r e u
    using advances_submit [of "d\<lparr>nd_last_text_request := n, nd_text_request := r\<rparr>" d epoch target c] that by simp
  ultimately show ?thesis
    by (simp add: nd_text_operation_def Let_def advances_same split: option.split prod.split bool.split)
qed

lemma advances_query_display: "advances d (snd (nd_query_display k d))"
proof -
  let ?d = "d\<lparr>nd_display_requested := True, nd_display_query := Some k\<rparr>"
  obtain e u where u: "nd_send ''display-query\<newline>'' ?d = (e, u)" by fastforce
  have "advances d u" using advances_sent [of ?d d "''display-query\<newline>''"] u by simp
  then show ?thesis by (simp add: nd_query_display_def u advances_trans [OF _ advances_lost])
qed

lemma advances_calls:
  "nd_last_window (fold (\<lambda>w. nd_call (f w)) ws d) = nd_last_window d \<and> nd_declared (fold (\<lambda>w. nd_call (f w)) ws d) = nd_declared d \<and>
   nd_generation (fold (\<lambda>w. nd_call (f w)) ws d) = nd_generation d \<and> nd_target (fold (\<lambda>w. nd_call (f w)) ws d) = nd_target d"
  by (induction ws arbitrary: d) simp_all

lemma advances_start:
  assumes "nd_last_window u = nd_last_window d" "nd_declared u = nd_declared d" "nd_generation u = nd_generation d"
    "nd_target u = nd_target d"
  shows "advances d (nd_start_capture outcome target u)"
  using assms by (cases outcome) (auto intro!: advances_same simp: nd_start_capture_def nd_capture_result_def advances_calls Let_def)

lemma advances_clip_commit: "advances d (snd (nd_clip_commit tok v k d))"
proof -
  obtain r u where u: "nd_with_clipboard (clip_commit tok v k) d = (r, u)" by fastforce
  have "advances d u"
    by (rule advances_same) (use nd_with_clipboard_fields [of "clip_commit tok v k" d] u in simp_all)
  then show ?thesis by (simp add: nd_clip_commit_def u advances_trans [OF _ advances_close])
qed

lemma advances_step: "advances d (nd_step compress op d)"
proof (cases op)
  case (Register a epoch)
  then show ?thesis by (auto simp: nd_register_def Let_def intro!: advances_same advances_bind)
next
  case (Unregister a)
  then show ?thesis by (auto simp: nd_unregister_def Let_def intro!: advances_same advances_unbind)
next
  case (Query_scene k)
  then show ?thesis by (auto simp: nd_query_scene_def Let_def intro!: advances_same advances_sent)
next
  case (Cancel_text r)
  then show ?thesis by (auto simp: nd_cancel_text_def Let_def intro!: advances_same advances_sent)
next
  case (Request_capture outcome w)
  then show ?thesis by (auto simp: nd_capture_def Let_def intro!: advances_same advances_start)
next
  case (Hand_over outcome)
  then show ?thesis
    by (auto simp: nd_hand_over_def Let_def intro!: advances_same advances_start split: option.split list.split)
qed (simp_all add: advances_read advances_write nd_release_def advances_send nd_select_def nd_close_window_def
    window_command_def advances_submit advances_unbind advances_text advances_query_display advances_clip_commit
    nd_capture_result_def advances_same)

lemma advances_run: "advances d (nd_run compress ops d)"
  unfolding nd_run_def
proof (induction ops arbitrary: d)
  case (Cons op ops)
  have "advances d (fold (nd_step compress) ops (nd_step compress op d))"
    by (rule advances_trans [OF advances_step Cons.IH])
  then show ?case by simp
qed simp

lemma window_snapshot_total:
  assumes "windows_ok d" "(k, w) \<in> set (nd_windows d)"
  shows "window_snapshot d w \<noteq> None"
proof -
  have m: "map_of (nd_windows d) k = Some w" using assms by (simp add: windows_ok_def)
  have "nw_window w = k" using assms(1) m by (simp add: windows_ok_def)
  have "k \<in> set (map fst (nd_windows d))" using assms(2) by force
  moreover have "set (map fst (nd_windows d)) \<subseteq> set (map fst (nd_declared d))"
    using assms(1) by (simp add: windows_ok_def)
  ultimately have "map_of (nd_declared d) k \<noteq> None" using map_of_eq_None_iff [of "nd_declared d" k] by auto
  with \<open>nw_window w = k\<close> show ?thesis by (auto simp: window_snapshot_def)
qed

lemma those_total: "None \<notin> set xs \<Longrightarrow> those xs \<noteq> None"
proof (induction xs)
  case (Cons x xs)
  then show ?case by (cases x) auto
qed simp

subsection \<open>A run of the registry\<close>

text \<open>A first window is declared, gets a surface and the focus, and becomes the target of scene 1.\<close>

definition record_of :: "string \<Rightarrow> bytes" where "record_of s = map of_char s @ [10]"

lemma changed_channel [simp]:
  "ch_closed (nd_channel (nd_changed d)) = ch_closed (nd_channel d)"
  "ch_input (nd_channel (nd_changed d)) = ch_input (nd_channel d)"
  by (simp_all add: nd_changed_def nd_with_cursor_def nd_with_clipboard_def channel_append_def Let_def split_beta)

lemma nd_read_record:
  assumes "newline \<notin> set s" "length s \<le> MAX_RECORD" "ascii s"
    and d: "\<not> ch_closed (nd_channel d)" "ch_input (nd_channel d) = []"
    and u: "nd_observe compress s d = (False, u)" "\<not> ch_closed (nd_channel u)"
  shows "nd_read compress (record_of s) d = u\<lparr>nd_channel := (nd_channel u)\<lparr>ch_input := []\<rparr>\<rparr>"
proof -
  have same: "map char_of (map (of_char :: char \<Rightarrow> nat) s) = s" by (simp add: o_def)
  have no: "(10::nat) \<notin> set (map of_char s)"
  proof
    assume "(10::nat) \<in> set (map of_char s)"
    then have "(char_of (10::nat) :: char) \<in> set (map char_of (map (of_char :: char \<Rightarrow> nat) s))" by (simp only: set_map image_eqI)
    moreover have "(char_of (10::nat) :: char) = newline" by code_simp
    ultimately show False using assms(1) unfolding same by simp
  qed
  have all: "list_all (\<lambda>b. b < 128) (map (of_char :: char \<Rightarrow> nat) s)" using assms(3) by (simp add: ascii_def list_all_iff)
  show ?thesis
    using read_lines_line [OF no, of "nd_observe compress" "\<lambda>u. ch_closed (nd_channel u)" "[]" d]
    unfolding nd_read_def record_of_def using d u all assms(2) same
    by (simp add: read_lines_wait)
qed

lemma split_eval:
  "py_split ''native-version 1'' = [''native-version'', ''1'']"
  "py_split ''window-instance 1'' = [''window-instance'', ''1'']"
  "py_split ''surface-instance 1'' = [''surface-instance'', ''1'']"
  "py_split ''focus 1 1 5 1 1'' = [''focus'', ''1'', ''1'', ''5'', ''1'', ''1'']"
  "py_split ''window-state 1 0 wayland 5 10 10 0'' = [''window-state'', ''1'', ''0'', ''wayland'', ''5'', ''10'', ''10'', ''0'']"
  "py_split ''scene 1 1'' = [''scene'', ''1'', ''1'']"
  by (simp_all add: py_split.simps space_char_def)

lemma int_eval:
  "py_int ''0'' = Some 0" "py_int ''1'' = Some 1" "py_int ''5'' = Some 5" "py_int ''10'' = Some 10"
  by code_simp+

definition scene_script :: "native_input list" where
  "scene_script = map (Received \<circ> record_of) [''native-version 1'', ''window-instance 1'', ''surface-instance 1'', ''focus 1 1 5 1 1'',
     ''window-state 1 0 wayland 5 10 10 0'', ''scene 1 1'']"

lemma nd_step_record:
  assumes "newline \<notin> set s" "length s \<le> MAX_RECORD" "ascii s"
    and d: "\<not> ch_closed (nd_channel d)" "ch_input (nd_channel d) = []"
    and u: "nd_observe compress s d = (False, u)" "ch_closed (nd_channel u) = ch_closed (nd_channel d)"
   "ch_input (nd_channel u) = ch_input (nd_channel d)"
  shows "nd_step compress (Received (record_of s)) d = u"
proof -
  have "(nd_channel u)\<lparr>ch_input := []\<rparr> = nd_channel u" using u d by (cases "nd_channel u") simp
  then show ?thesis using nd_read_record [OF assms(1-6)] u d by (cases u) simp
qed


lemma new_native_fields:
  "nd_closed new_native = False" "nd_version new_native = False" "nd_last_window new_native = 0" "nd_declared new_native = []"
  "nd_windows new_native = []" "nd_surfaces new_native = []" "nd_last_surface new_native = 0" "nd_focus new_native = None"
  "nd_target new_native = None" "nd_generation new_native = 0"
  "ch_closed (nd_channel new_native) = False" "ch_input (nd_channel new_native) = []"
  by (simp_all add: new_native_def new_channel_def)

definition focused :: native_focus where
  "focused = \<lparr>nf_identity = 1, nf_window = 1, nf_pid = 5, nf_surface = 1, nf_available = True\<rparr>"
definition shown :: native_window where
  "shown = \<lparr>nw_window = 1, nw_parent = 0, nw_protocol = ''wayland'', nw_pid = 5, nw_width = 10, nw_height = 10, nw_mode = 0\<rparr>"

lemmas script_eval = nd_observe_def split_eval int_eval observe_record_def field_int_def MAX_ID_def newline_def MAX_RECORD_def ascii_def

lemma version_step: "nd_step id (Received (record_of ''native-version 1'')) new_native = new_native\<lparr>nd_version := True\<rparr>"
    by (rule nd_step_record) (simp_all add: script_eval new_native_fields obs_version_def)
lemma instance_step: assumes "ch_input (nd_channel d) = [] \<and> \<not> ch_closed (nd_channel d)" "\<not> nd_closed d \<and> nd_version d" "nd_last_window d = 0" "nd_declared d = []"
 shows "nd_step id (Received (record_of ''window-instance 1'')) d = d\<lparr>nd_declared := [(1, [])], nd_last_window := 1\<rparr>"
    by (rule nd_step_record) (simp_all add: assms script_eval new_native_fields obs_window_instance_def)
lemma surface_step: assumes "ch_input (nd_channel d) = [] \<and> \<not> ch_closed (nd_channel d)" "\<not> nd_closed d \<and> nd_version d" "nd_last_surface d = 0" "nd_surfaces d = []"
 shows "nd_step id (Received (record_of ''surface-instance 1'')) d = d\<lparr>nd_last_surface := 1, nd_surfaces := [1]\<rparr>"
    by (rule nd_step_record) (simp_all add: assms script_eval obs_surface_instance_def)
lemma focus_step: assumes "ch_input (nd_channel d) = [] \<and> \<not> ch_closed (nd_channel d)" "\<not> nd_closed d \<and> nd_version d" "nd_focus d = None" "nd_surfaces d = [1]" "nd_declared d = [(1, [])]"
 shows "nd_step id (Received (record_of ''focus 1 1 5 1 1'')) d = nd_changed (d\<lparr>nd_focus := Some focused, nd_target := None\<rparr>)"
    by (rule nd_step_record) (simp_all add: assms script_eval obs_focus_def focus_fields_def focused_def)
lemma window_step: assumes "ch_input (nd_channel d) = [] \<and> \<not> ch_closed (nd_channel d)" "\<not> nd_closed d \<and> nd_version d" "nd_windows d = []" "nd_target d = None" "nd_declared d = [(1, [])]"
 shows "nd_step id (Received (record_of ''window-state 1 0 wayland 5 10 10 0'')) d = nd_notify Metadata_changed (d\<lparr>nd_windows := [(1, shown)]\<rparr>)"
    by (rule nd_step_record) (simp_all add: assms script_eval obs_window_state_def window_fields_def window_ok_def targets_window_def shown_def)
lemma scene_step: assumes "ch_input (nd_channel d) = [] \<and> \<not> ch_closed (nd_channel d)" "\<not> nd_closed d \<and> nd_version d" "nd_generation d = 0" "nd_windows d = [(1,shown)]" "nd_focus d = Some focused"
 shows "nd_step id (Received (record_of ''scene 1 1'')) d = nd_changed (d\<lparr>nd_generation := 1, nd_target := Some \<lparr>tg_window = 1, tg_generation = 1\<rparr>\<rparr>)"
    by (rule nd_step_record) (simp_all add: assms script_eval obs_scene_def focus_ready_def minimized_def shown_def focused_def)

lemma target_reached: "nd_target (nd_run id scene_script new_native) = Some \<lparr>tg_window = 1, tg_generation = 1\<rparr>"
  by (simp add: nd_run_def scene_script_def version_step instance_step surface_step focus_step window_step scene_step new_native_fields del: nd_step.simps)

subsection \<open>Properties\<close>

text \<open>C11: Whatever the compositor sends and the viewers ask, in any order, input is only ever aimed at a
  window that is still declared and shown, is not minimized, holds the focus of a ready surface, and
  belongs to the newest scene generation of an open display.\<close>
theorem scene_target_sound:
  assumes "nd_target (nd_run compress ops new_native) = Some t"
  shows "(\<exists>w. map_of (nd_windows (nd_run compress ops new_native)) (tg_window t) = Some w \<and> \<not> minimized (nw_mode w)) \<and>
    map_of (nd_declared (nd_run compress ops new_native)) (tg_window t) \<noteq> None \<and>
    focus_ready (nd_run compress ops new_native) (tg_window t) \<and>
    tg_generation t = nd_generation (nd_run compress ops new_native) \<and>
    \<not> nd_closed (nd_run compress ops new_native)"
proof -
  let ?d = "nd_run compress ops new_native"
  have inv: "windows_ok ?d" "scene_ok ?d"
    using native_inv_run [OF native_inv_new] by (simp_all add: native_inv_def registry_ok_def)
  then obtain w where w: "map_of (nd_windows ?d) (tg_window t) = Some w" "\<not> minimized (nw_mode w)"
    using assms by (auto simp: scene_ok_def)
  have "tg_window t \<in> fst ` set (nd_declared ?d)"
    using map_of_Some_dom [OF w(1)] inv(1) by (auto simp: windows_ok_def simp del: set_map)
  then have "map_of (nd_declared ?d) (tg_window t) \<noteq> None" by (simp add: map_of_eq_None_iff)
  with w inv(2) assms show ?thesis by (auto simp: scene_ok_def)
qed

text \<open>C31: The registry is bounded in every run: at most 256 windows, 4096 surfaces and 64 text contexts,
  at most 4096 bytes of an unfinished record, and at most 128 KiB waiting to be sent, however slowly
  the compositor reads.\<close>
theorem native_registry_bounded:
  "length (nd_declared (nd_run compress ops new_native)) \<le> 256 \<and>
   length (nd_windows (nd_run compress ops new_native)) \<le> 256 \<and>
   length (nd_surfaces (nd_run compress ops new_native)) \<le> 4096 \<and>
   length (nd_text_contexts (nd_run compress ops new_native)) \<le> 64 \<and>
   length (ch_input (nd_channel (nd_run compress ops new_native))) \<le> 4096 \<and>
   length (ch_output (nd_channel (nd_run compress ops new_native))) \<le> 131072"
proof -
  let ?d = "nd_run compress ops new_native"
  have inv: "windows_ok ?d" "surfaces_ok ?d" "contexts_ok ?d" "buffer_ok ?d"
    using native_inv_run [OF native_inv_new] by (simp_all add: native_inv_def registry_ok_def)
  have "length (map fst (nd_windows ?d)) \<le> length (map fst (nd_declared ?d))"
  proof -
    have "card (set (map fst (nd_windows ?d))) \<le> card (set (map fst (nd_declared ?d)))"
      using inv(1) by (intro card_mono) (simp_all add: windows_ok_def)
    then show ?thesis using inv(1) by (simp only: windows_ok_def distinct_card)
  qed
  with inv show ?thesis
    by (simp add: windows_ok_def surfaces_ok_def contexts_ok_def buffer_ok_def MAX_BUFFER_def MAX_RECORD_def)
qed

text \<open>Identities are never reused: a window that is gone (or whose number has been passed over) is never
  declared again, and as long as the generation is the same the target is the same object or none.\<close>
theorem native_identities_not_reused:
  assumes "k \<le> nd_last_window d" "map_of (nd_declared d) k = None"
  shows "map_of (nd_declared (nd_run compress ops d)) k = None \<and>
    (nd_generation (nd_run compress ops d) = nd_generation d \<longrightarrow> nd_target (nd_run compress ops d) \<in> {None, nd_target d})"
proof -
  have adv: "advances d (nd_run compress ops d)" by (rule advances_run)
  have "k \<notin> fst ` set (nd_declared d)" using assms(2) by (simp add: map_of_eq_None_iff)
  with adv assms(1) have "k \<notin> fst ` set (nd_declared (nd_run compress ops d))"
    unfolding advances_def by (meson Un_iff greaterThan_iff not_less subsetD)
  then have "map_of (nd_declared (nd_run compress ops d)) k = None" by (simp add: map_of_eq_None_iff)
  with adv show ?thesis by (auto simp: advances_def)
qed

text \<open>The state a viewer is shown can always be built: every window of the registry has a declared title,
  so \<open>snapshot\<close> never raises.\<close>
theorem native_snapshot_total: "nd_snapshot (nd_run compress ops new_native) \<noteq> None"
proof -
  let ?d = "nd_run compress ops new_native"
  have inv: "windows_ok ?d"
    using native_inv_run [OF native_inv_new] by (simp add: native_inv_def registry_ok_def)
  have "window_snapshot ?d w \<noteq> None" if "(k, w) \<in> set (nd_windows ?d)" for k w
    by (rule window_snapshot_total [OF inv that])
  then have "None \<notin> set (map (window_snapshot ?d \<circ> snd) (nd_windows ?d))" by force
  then have "those (map (window_snapshot ?d \<circ> snd) (nd_windows ?d)) \<noteq> None" by (rule those_total)
  then show ?thesis by (simp add: nd_snapshot_def)
qed

text \<open>A confirmed text is reported as delivered only for the connection and the target it was admitted for:
  a success reply completes a request whose epoch and target are still current, and the request is
  forgotten, so a late reply cannot complete it again.\<close>
theorem text_success_on_its_target:
  assumes "obs_text_response kind args d = Some u" "nd_calls u = nd_calls d @ [Text_done k None]"
  shows "\<exists>r. nd_text_request d = Some r \<and> tr_ticket r = k \<and> nd_epoch d = tr_epoch r \<and>
    nd_target d = Some (tr_target r) \<and> nd_text_request u = None"
proof -
  obtain a where a: "args = [a]"
    using assms(1) by (cases args; cases "tl args") (simp_all add: obs_text_response_def)
  have v: "nd_version d" using assms(1) a by (simp add: obs_text_response_def split: if_splits)
  obtain n where n: "field_int a 1 MAX_ID = Some n"
    using assms(1) a v by (cases "field_int a 1 MAX_ID") (simp_all add: obs_text_response_def)
  have changed: "u \<noteq> d"
  proof
    assume "u = d"
    with assms(2) show False by simp
  qed
  obtain r where r: "nd_text_request d = Some r"
    using assms(1) a n v changed by (cases "nd_text_request d") (simp_all add: obs_text_response_def)
  have m: "n = tr_sequence r"
  proof (rule ccontr)
    assume "n \<noteq> tr_sequence r"
    with assms(1) a n v r have "u = d" by (simp add: obs_text_response_def)
    with changed show False by simp
  qed
  define e where "e = (if nd_epoch d \<noteq> tr_epoch r \<or> nd_target d \<noteq> Some (tr_target r) then Some INPUT_TARGET_UNAVAILABLE
      else if success_reply kind then None else Some INPUT_CONTEXT_UNAVAILABLE)"
  have "nd_call (Text_done (tr_ticket r) e) (d\<lparr>nd_text_request := None\<rparr>) = u"
    using assms(1) a n v r m by (cases "tr_barrier r = barrier_reply kind") (simp_all add: obs_text_response_def Let_def e_def)
  then have "u = nd_call (Text_done (tr_ticket r) e) (d\<lparr>nd_text_request := None\<rparr>)" ..
  with assms(2) have "tr_ticket r = k" "e = None" "nd_text_request u = None" by (simp_all add: nd_call_def)
  with r show ?thesis unfolding e_def by (simp split: if_splits)
qed

text \<open>Sharing one capture can hand a viewer the result of another target: when the scene changes while a
  capture is in flight, a viewer that asks for the new target only joins the waiters, and receives
  whatever the capture of the old target ends with; the new target is never captured for it.\<close>
theorem capture_waiter_gets_other_target:
  assumes "nd_capturing d" "nd_waiters d = [old]" "nd_dispatch d = None" "\<not> nd_closed d"
    "nd_target d = Some (cw_target new)" "cw_target old \<noteq> cw_target new"
    "cw_attachment old \<in> set (nd_attachments d)" "cw_attachment new \<in> set (nd_attachments d)"
  shows "nd_calls (nd_hand_over o2 (nd_hand_over o1 (nd_capture_result r (snd (nd_capture o0 new d))))) =
    nd_calls d @ [Capture_done old r, Capture_done new r]"
  using assms by (simp add: nd_capture_def nd_capture_result_def nd_hand_over_def nd_call_def Let_def)

lemma scene_target_sound_witness:
  "focus_ready (nd_run id scene_script new_native) 1 \<and> \<not> nd_closed (nd_run id scene_script new_native)"
  using scene_target_sound [OF target_reached] by simp

lemma native_identities_not_reused_witness:
  "\<forall>ops. map_of (nd_declared (nd_run id ops new_native)) 0 = None"
  using native_identities_not_reused [of 0 new_native id] by (simp add: new_native_def)

lemma text_success_on_its_target_witness:
  "\<exists>d. nd_text_request d = Some \<lparr>tr_sequence = 2, tr_barrier = False, tr_epoch = 3,
      tr_target = \<lparr>tg_window = 7, tg_generation = 5\<rparr>, tr_ticket = 9\<rparr> \<and>
    (\<exists>r. nd_text_request d = Some r \<and> tr_ticket r = 9 \<and> nd_epoch d = tr_epoch r \<and> nd_target d = Some (tr_target r) \<and>
      nd_text_request (nd_call (Text_done 9 None) (d\<lparr>nd_text_request := None\<rparr>)) = None)"
proof -
  let ?t = "\<lparr>tg_window = 7, tg_generation = 5\<rparr>"
  let ?d = "new_native\<lparr>nd_version := True, nd_epoch := 3, nd_target := Some ?t,
    nd_text_request := Some \<lparr>tr_sequence = 2, tr_barrier = False, tr_epoch = 3, tr_target = ?t, tr_ticket = 9\<rparr>\<rparr>"
  have two: "field_int (py_str 2) 1 MAX_ID = Some 2" by (rule field_int_MAX_ID) (simp_all add: MAX_ID_def)
  have "obs_text_response ''text-dispatched'' [py_str 2] ?d = Some (nd_call (Text_done 9 None) (?d\<lparr>nd_text_request := None\<rparr>))"
    by (simp add: obs_text_response_def two barrier_reply_def success_reply_def Let_def)
  from text_success_on_its_target [OF this] show ?thesis by (intro exI [of _ ?d]) (simp add: nd_call_def)
qed

lemma capture_waiter_gets_other_target_witness:
  "\<exists>d. nd_calls (nd_hand_over Begun (nd_hand_over Begun (nd_capture_result (Capture_failed CAPTURE_TARGET_CHANGED)
     (snd (nd_capture Begun \<lparr>cw_attachment = 2, cw_target = \<lparr>tg_window = 7, tg_generation = 6\<rparr>, cw_ticket = 11\<rparr> d))))) =
   nd_calls d @ [Capture_done \<lparr>cw_attachment = 1, cw_target = \<lparr>tg_window = 7, tg_generation = 5\<rparr>, cw_ticket = 10\<rparr> (Capture_failed CAPTURE_TARGET_CHANGED),
     Capture_done \<lparr>cw_attachment = 2, cw_target = \<lparr>tg_window = 7, tg_generation = 6\<rparr>, cw_ticket = 11\<rparr> (Capture_failed CAPTURE_TARGET_CHANGED)]"
  by (rule exI [of _ "new_native\<lparr>nd_target := Some \<lparr>tg_window = 7, tg_generation = 6\<rparr>, nd_capturing := True,
      nd_waiters := [\<lparr>cw_attachment = 1, cw_target = \<lparr>tg_window = 7, tg_generation = 5\<rparr>, cw_ticket = 10\<rparr>], nd_attachments := [1, 2]\<rparr>"],
    rule capture_waiter_gets_other_target) (simp_all add: new_native_def)

end
