(* ===== verification/Native_Input.thy ===== *)
theory Native_Input
  imports Native_Scene
begin

section \<open>Input of a viewer as records of the compositor (desktop\_native.py)\<close>

text \<open>
  \<open>validate_input\<close> checks the operation a viewer sent (a decoded JSON value) and \<open>deliver\<close> turns it
  into input records for the target. Coordinates are formatted with \<open>:g\<close>: six significant digits of
  the nearest binary64 value, which a decoded coordinate is already (the rational of its \<open>PFloat\<close>, or
  an integer of at most 4096). A negative zero is decoded to the rational 0 and formatted without its
  sign.
\<close>

subsection \<open>Checking an operation\<close>

text \<open>
  \<open>Checked\<close> returns the operation, \<open>Bad_value\<close> is the \<open>ValueError\<close>, and \<open>Overflowed\<close> the
  \<open>OverflowError\<close> that \<open>math.isfinite\<close> raises for an integer beyond binary64 (one that rounds to
  \<open>2 ^ 1024\<close> or more).
\<close>

datatype 'a input_check = Checked 'a | Bad_value | Overflowed

definition float_overflow :: "int \<Rightarrow> bool" where
  "float_overflow n \<longleftrightarrow> 2 ^ 1024 - 2 ^ 970 \<le> \<bar>n\<bar>"

definition number :: "pyval \<Rightarrow> int \<Rightarrow> int \<Rightarrow> rat input_check" where
  "number v low high =
     (case v of
        PInt n \<Rightarrow>
          if float_overflow n then Overflowed else if low \<le> n \<and> n \<le> high then Checked (of_int n) else Bad_value
      | PFloat r \<Rightarrow> if of_int low \<le> r \<and> r \<le> of_int high then Checked r else Bad_value
      | _ \<Rightarrow> Bad_value)"

type_synonym operation = "(pystr \<times> pyval) list"

definition input_fields :: "(string \<times> string list) list" where
  "input_fields =
     [(''key'', [''code'', ''pressed'']), (''move'', [''x'', ''y'']), (''button'', [''x'', ''y'', ''button'', ''pressed'']),
      (''scroll'', [''x'', ''y'', ''dx'', ''dy'']), (''text'', [''text'']), (''clipboard'', [''text''])]"

text \<open>The kind of an operation that has exactly the fields of its kind.\<close>

definition kind_of :: "operation \<Rightarrow> string option" where
  "kind_of op =
     (case map_of op (py ''kind'') of
        Some (PStr k) \<Rightarrow>
          (case List.find (\<lambda>x. py (fst x) = k) input_fields of
             Some (name, names) \<Rightarrow> if set (map fst op) = py ` set (''kind'' # names) then Some name else None
           | None \<Rightarrow> None)
      | _ \<Rightarrow> None)"

text \<open>The two loops over the axes.\<close>

fun check_axes :: "(string \<times> int \<times> int) list \<Rightarrow> operation \<Rightarrow> unit input_check" where
  "check_axes [] op = Checked ()"
| "check_axes ((axis, low, high) # rest) op =
     (case map_of op (py axis) of
        None \<Rightarrow> check_axes rest op
      | Some v \<Rightarrow> (case number v low high of Checked _ \<Rightarrow> check_axes rest op | Bad_value \<Rightarrow> Bad_value | Overflowed \<Rightarrow> Overflowed))"

definition axes :: "(string \<times> int \<times> int) list" where
  "axes = [(''x'', 0, 4096), (''y'', 0, 4096), (''dx'', - 4096, 4096), (''dy'', - 4096, 4096)]"

definition pressed_ok :: "operation \<Rightarrow> bool" where
  "pressed_ok op = (case map_of op (py ''pressed'') of None \<Rightarrow> True | Some (PBool _) \<Rightarrow> True | _ \<Rightarrow> False)"

definition validate_input :: "pyval \<Rightarrow> operation input_check" where
  "validate_input v =
     (case v of
        PDict op \<Rightarrow>
          (case kind_of op of
             None \<Rightarrow> Bad_value
           | Some kind \<Rightarrow>
               if kind = ''key'' \<and> \<not> integer (dict_get op ''code'') 1 767 \<or>
                  kind = ''button'' \<and> \<not> integer (dict_get op ''button'') 0 4 \<or> \<not> pressed_ok op
               then Bad_value
               else (case check_axes axes op of Checked _ \<Rightarrow> Checked op | Bad_value \<Rightarrow> Bad_value | Overflowed \<Rightarrow> Overflowed))
      | _ \<Rightarrow> Bad_value)"

subsection \<open>Six significant digits\<close>

text \<open>The number of places by which \<open>p / q\<close> is below one.\<close>

function leading :: "int \<Rightarrow> int \<Rightarrow> nat" where
  "leading p q = (if p \<le> 0 \<or> q \<le> p then 0 else Suc (leading (10 * p) q))"
  by pat_completeness auto
termination by (relation "measure (\<lambda>(p, q). nat (q - p))") auto

declare leading.simps [simp del]

text \<open>The decimal exponent: \<open>10 ^ e\<close> is at most \<open>p / q\<close>, and \<open>10 ^ (e + 1)\<close> is more.\<close>

definition exponent10 :: "int \<Rightarrow> int \<Rightarrow> int" where
  "exponent10 p q = (if p < q then - int (leading p q) else int (length (dec (nat (p div q)))) - 1)"

definition pow10 :: "int \<Rightarrow> rat" where
  "pow10 k = (if 0 \<le> k then 10 ^ nat k else 1 / 10 ^ nat (- k))"

text \<open>The six digits and the exponent of a positive number, after rounding.\<close>

definition six_digits :: "rat \<Rightarrow> int \<times> int" where
  "six_digits r =
     (let (p, q) = quotient_of r; e = exponent10 p q; m = round_half_even (r * pow10 (5 - e))
      in if m = 1000000 then (100000, e + 1) else (m, e))"

definition strip_zeros :: "string \<Rightarrow> string" where
  "strip_zeros s = rev (dropWhile (\<lambda>c. c = CHR ''0'') (rev s))"

definition with_fraction :: "string \<Rightarrow> string \<Rightarrow> string" where
  "with_fraction whole part = (let f = strip_zeros part in if f = [] then whole else whole @ ''.'' @ f)"

definition two_digits :: "nat \<Rightarrow> string" where
  "two_digits n = (if n < 10 then CHR ''0'' # dec n else dec n)"

definition fmt_positive :: "rat \<Rightarrow> string" where
  "fmt_positive r =
     (let (m, e) = six_digits r; digits = dec (nat m)
      in if e < - 4 \<or> 6 \<le> e then
           with_fraction (take 1 digits) (drop 1 digits) @ ''e'' @ (if e < 0 then ''-'' else ''+'') @ two_digits (nat \<bar>e\<bar>)
         else if e < 0 then with_fraction ''0'' (replicate (nat (- e) - 1) (CHR ''0'') @ digits)
         else with_fraction (take (nat e + 1) digits) (drop (nat e + 1) digits))"

definition fmt_g :: "rat \<Rightarrow> string" where
  "fmt_g r = (if r = 0 then ''0'' else if r < 0 then CHR ''-'' # fmt_positive (- r) else fmt_positive r)"

subsection \<open>Delivery\<close>

definition number_of :: "operation \<Rightarrow> string \<Rightarrow> rat" where
  "number_of op axis = (case number (dict_get op axis) (- 4096) 4096 of Checked r \<Rightarrow> r | _ \<Rightarrow> 0)"

definition int_of :: "operation \<Rightarrow> string \<Rightarrow> int" where
  "int_of op name = (case dict_get op name of PInt n \<Rightarrow> n | PBool b \<Rightarrow> (if b then 1 else 0) | _ \<Rightarrow> 0)"

text \<open>Buttons are left, middle, right in the protocol; evdev has right before middle.\<close>

definition button_code :: "int \<Rightarrow> int" where
  "button_code b = (if b = 0 then 272 else if b = 1 then 274 else if b = 2 then 273 else 272 + b)"

definition motion :: "operation \<Rightarrow> string list" where
  "motion op =
     (if map_of op (py ''x'') = None then []
      else [''motion '' @ fmt_g (number_of op ''x'') @ '' '' @ fmt_g (number_of op ''y'')])"

text \<open>The commands of a checked operation; \<open>None\<close> is the \<open>ValueError\<close> for text.\<close>

definition input_commands :: "operation \<Rightarrow> string list option" where
  "input_commands op =
     (case kind_of op of
        None \<Rightarrow> None
      | Some kind \<Rightarrow>
          if kind = ''key'' then Some (motion op @ [''key '' @ py_str (int_of op ''code'') @ '' '' @ py_str (int_of op ''pressed'')])
          else if kind = ''button'' then
            Some (motion op @ [''button '' @ py_str (button_code (int_of op ''button'')) @ '' '' @ py_str (int_of op ''pressed'')])
          else if kind = ''scroll'' then
            Some (motion op @ [''scroll '' @ fmt_g (number_of op ''dx'') @ '' '' @ fmt_g (number_of op ''dy'')])
          else if kind = ''move'' then Some (motion op) else None)"

definition delivery_commands :: "pyval \<Rightarrow> string list option" where
  "delivery_commands v = (case validate_input v of Checked op \<Rightarrow> input_commands op | _ \<Rightarrow> None)"

definition nd_deliver :: "int \<Rightarrow> native_target \<Rightarrow> pyval \<Rightarrow> native \<Rightarrow> bool \<times> native" where
  "nd_deliver epoch target v d =
     (case delivery_commands v of None \<Rightarrow> (True, d) | Some commands \<Rightarrow> nd_submit epoch target commands d)"

subsection \<open>Whole numbers are formatted exactly\<close>

lemma dec_times_power: "0 < n \<Longrightarrow> dec (n * 10 ^ k) = dec n @ replicate k (CHR ''0'')"
proof (induction k)
  case (Suc k)
  have "\<not> n * 10 ^ Suc k < 10" using Suc.prems by simp
  then have "dec (n * 10 ^ Suc k) = dec (n * 10 ^ Suc k div 10) @ [char_of (48 + n * 10 ^ Suc k mod 10)]"
    by (subst dec.simps) (simp only: if_False)
  moreover have "n * 10 ^ Suc k div 10 = n * 10 ^ k" "n * 10 ^ Suc k mod 10 = 0" by simp_all
  moreover have "(char_of (48 :: nat) :: char) = CHR ''0''" by code_simp
  ultimately have "dec (n * 10 ^ Suc k) = dec (n * 10 ^ k) @ [CHR ''0'']" by simp
  with Suc show ?case by (simp add: replicate_append_same [symmetric])
qed simp

lemma strip_zeros_replicate [simp]: "strip_zeros (replicate k (CHR ''0'')) = []"
  by (simp add: strip_zeros_def)

lemma length_dec_lower: "0 < n \<Longrightarrow> 10 ^ (length (dec n) - 1) \<le> n"
proof (induction n rule: dec.induct)
  case (1 n)
  show ?case
  proof (cases "n < 10")
    case True
    with 1 show ?thesis by (subst dec.simps) simp
  next
    case False
    then have "10 ^ (length (dec (n div 10)) - 1) \<le> n div 10" using 1 by simp
    moreover have "0 < length (dec (n div 10))" using dec_digits [of "n div 10"] by simp
    ultimately have "10 ^ length (dec (n div 10)) \<le> 10 * (n div 10)"
      by (cases "length (dec (n div 10))") simp_all
    also have "\<dots> \<le> n" by simp
    finally show ?thesis using False by (subst dec.simps) simp
  qed
qed

lemma six_digits_nat:
  assumes "0 < n" "n < 1000000"
  shows "six_digits (of_nat n) = (int n * 10 ^ (6 - length (dec n)), int (length (dec n)) - 1)"
proof -
  let ?k = "length (dec n)"
  have k: "0 < ?k" "?k \<le> 6" using length_dec [of n 6] assms dec_digits [of n] by auto
  have q: "quotient_of (of_nat n) = (int n, 1)" using quotient_of_int [of "int n"] by simp
  have e: "exponent10 (int n) 1 = int ?k - 1" using assms by (simp add: exponent10_def)
  have "pow10 (6 - int ?k) = of_int (10 ^ (6 - ?k))"
    using k by (simp add: pow10_def nat_diff_distrib')
  then have m: "round_half_even (of_nat n * pow10 (6 - int ?k)) = int n * 10 ^ (6 - ?k)"
    using round_half_even_int [of "int n * 10 ^ (6 - ?k)"] by simp
  have "n < 10 ^ ?k"
  proof -
    have "n < 10 ^ length (dec n)"
    proof (induction n rule: dec.induct)
      case (1 n)
      then show ?case by (subst dec.simps) (auto simp: div_less_iff_less_mult)
    qed
    then show ?thesis .
  qed
  then have "n * 10 ^ (6 - ?k) < 10 ^ ?k * 10 ^ (6 - ?k)" by simp
  also have "\<dots> = (10::nat) ^ 6" using k by (simp flip: power_add)
  finally have "int (n * 10 ^ (6 - ?k)) < int (10 ^ 6)" by (simp only: of_nat_less_iff)
  then have "int n * 10 ^ (6 - ?k) \<noteq> 1000000" by simp
  then show ?thesis by (simp add: six_digits_def q e m Let_def)
qed

lemma fmt_g_nat: "n < 1000000 \<Longrightarrow> fmt_g (of_nat n) = dec n"
proof (cases "n = 0")
  case True
  have "dec 0 = ''0''" by code_simp
  with True show ?thesis by (simp add: fmt_g_def)
next
  case False
  assume n: "n < 1000000"
  let ?k = "length (dec n)"
  have k: "0 < ?k" "?k \<le> 6" using length_dec [of n 6] n dec_digits [of n] by auto
  have "nat (int n * 10 ^ (6 - ?k)) = n * 10 ^ (6 - ?k)" by (simp add: nat_mult_distrib nat_power_eq)
  then have "dec (nat (int n * 10 ^ (6 - ?k))) = dec n @ replicate (6 - ?k) (CHR ''0'')"
    using dec_times_power [of n "6 - ?k"] False by simp
  moreover have "Suc (nat (int ?k - 1)) = ?k" using k(1) by linarith
  ultimately have "fmt_positive (of_nat n) = dec n"
    using six_digits_nat [of n] n False k by (simp add: fmt_positive_def with_fraction_def)
  with False show ?thesis by (simp add: fmt_g_def)
qed

lemma fmt_g_int: "\<bar>n\<bar> < 1000000 \<Longrightarrow> fmt_g (of_int n) = py_str n"
proof (cases "n < 0")
  case True
  assume "\<bar>n\<bar> < 1000000"
  with True have "nat (- n) < 1000000" by simp
  then have "fmt_g (of_nat (nat (- n))) = dec (nat (- n))" by (rule fmt_g_nat)
  with True show ?thesis by (simp add: fmt_g_def py_str_def split: if_splits)
next
  case False
  assume "\<bar>n\<bar> < 1000000"
  with False have "nat n < 1000000" by simp
  then have "fmt_g (of_nat (nat n)) = dec (nat n)" by (rule fmt_g_nat)
  with False show ?thesis by (simp add: py_str_def)
qed

subsection \<open>Properties\<close>

definition move_to :: "pyval \<Rightarrow> pyval \<Rightarrow> pyval" where
  "move_to x y = PDict [(py ''kind'', PStr (py ''move'')), (py ''x'', x), (py ''y'', y)]"

lemma kind_of_move [simp]: "kind_of [(py ''kind'', PStr (py ''move'')), (py ''x'', x), (py ''y'', y)] = Some ''move''"
  by (simp add: kind_of_def input_fields_def)

lemma validate_move:
  "validate_input (move_to x y) =
     (case number x 0 4096 of Bad_value \<Rightarrow> Bad_value | Overflowed \<Rightarrow> Overflowed
      | Checked _ \<Rightarrow> (case number y 0 4096 of Bad_value \<Rightarrow> Bad_value | Overflowed \<Rightarrow> Overflowed
          | Checked _ \<Rightarrow> Checked [(py ''kind'', PStr (py ''move'')), (py ''x'', x), (py ''y'', y)]))"
  by (simp add: validate_input_def move_to_def pressed_ok_def axes_def split: input_check.split)

lemma integer_no_overflow: "\<bar>n\<bar> \<le> 4096 \<Longrightarrow> \<not> float_overflow n"
  by (simp add: float_overflow_def)

text \<open>C38: A pointer position in whole pixels reaches the compositor as the same decimal numbers, although it
  is formatted as a float.\<close>
theorem pixels_delivered_exactly:
  assumes "0 \<le> x" "x \<le> 4096" "0 \<le> y" "y \<le> 4096"
  shows "delivery_commands (move_to (PInt x) (PInt y)) = Some [''motion '' @ py_str x @ '' '' @ py_str y]"
  using assms integer_no_overflow [of x] integer_no_overflow [of y] fmt_g_int [of x] fmt_g_int [of y]
  by (simp add: delivery_commands_def validate_move input_commands_def motion_def number_of_def dict_get_def number_def)

text \<open>C12: Input is delivered only to the target and for the connection the registry has now, and what is sent
  is exactly one batch of records, each naming that connection, window and generation; nothing else of
  the registry changes.\<close>
theorem delivery_reaches_current_target:
  assumes "nd_deliver epoch target v d = (False, u)"
  shows "nd_target d = Some target \<and> nd_epoch d = epoch \<and> epoch \<noteq> 0 \<and> \<not> nd_closed d \<and>
    (\<exists>op commands. validate_input v = Checked op \<and> input_commands op = Some commands \<and>
       u = d\<lparr>nd_channel := channel_append (concat (map (submit_record epoch target) commands)) (nd_channel d)\<rparr>)"
proof -
  obtain commands where c: "delivery_commands v = Some commands" and s: "nd_submit epoch target commands d = (False, u)"
    using assms by (auto simp: nd_deliver_def split: option.splits)
  have ok: "submit_ok epoch target (native_view_of d)" using s by (auto simp: nd_submit_def split: if_splits)
  then have "nd_send (concat (map (submit_record epoch target) commands)) d = (False, u)" using s by (simp add: nd_submit_def)
  then have "u = d\<lparr>nd_channel := channel_append (concat (map (submit_record epoch target) commands)) (nd_channel d)\<rparr>"
    by (auto simp: nd_send_def split: channel_result.splits)
  moreover obtain op where "validate_input v = Checked op" "input_commands op = Some commands"
    using c by (auto simp: delivery_commands_def split: input_check.splits)
  ultimately show ?thesis using ok by (auto simp: submit_ok_def native_view_of_def)
qed

text \<open>A coordinate that is a huge integer is not refused as invalid input: the check ends in an
  \<open>OverflowError\<close>, exactly when the integer is beyond binary64.\<close>
theorem huge_coordinate_overflows:
  "validate_input (move_to (PInt x) (PInt y)) = Overflowed \<longleftrightarrow>
     float_overflow x \<or> 0 \<le> x \<and> x \<le> 4096 \<and> float_overflow y"
  by (auto simp: validate_move number_def float_overflow_def)

lemma pixels_delivered_exactly_witness:
  "delivery_commands (move_to (PInt 100) (PInt 4096)) = Some [''motion '' @ py_str 100 @ '' '' @ py_str 4096]"
  by (rule pixels_delivered_exactly) simp_all

lemma delivery_reaches_current_target_witness:
  "\<exists>d u. nd_deliver 3 \<lparr>tg_window = 7, tg_generation = 5\<rparr> (move_to (PInt 1) (PInt 2)) d = (False, u) \<and>
     nd_target d = Some \<lparr>tg_window = 7, tg_generation = 5\<rparr> \<and> nd_epoch d = 3"
proof -
  let ?t = "\<lparr>tg_window = 7, tg_generation = 5\<rparr>"
  let ?d = "new_native\<lparr>nd_epoch := 3, nd_target := Some ?t\<rparr>"
  let ?r = "submit_record 3 ?t (''motion '' @ py_str 1 @ '' '' @ py_str 2)"
  have c: "delivery_commands (move_to (PInt 1) (PInt 2)) = Some [''motion '' @ py_str 1 @ '' '' @ py_str 2]"
    by (rule pixels_delivered_exactly) simp_all
  have "send_answer (nd_channel ?d) ?r = Queued"
    by (simp add: send_answer_def new_native_def new_channel_def submit_record_def MAX_BUFFER_def py_str_def dec.simps
        ascii_def newline_def)
  then have "nd_deliver 3 ?t (move_to (PInt 1) (PInt 2)) ?d = (False, ?d\<lparr>nd_channel := channel_append ?r (nd_channel ?d)\<rparr>)"
    by (simp add: nd_deliver_def c nd_submit_def submit_ok_def native_view_of_def new_native_def nd_send_def)
  from this delivery_reaches_current_target [OF this] show ?thesis by blast
qed

end
