(* ===== verification/Capture.thy ===== *)
theory Capture
  imports Native_Scene
begin

section \<open>One bounded native capture (desktop\_capture.py, NativeFrames)\<close>

text \<open>
  \<open>NativeFrames\<close> asks the capture child for one frame at a time. A capture is bracketed by two scene
  queries on the compositor's channel: the child is asked only after the first reply names the target,
  and the frame is handed over only after the second one does. The child answers with a header of ten
  32-bit words (in the byte order of the machine, little-endian here) and the encoded pixels.

  A completion callback is the ticket its caller chose (\<open>ct_done\<close>); \<open>fr_done\<close> lists the completions in
  order. A ticket object is named by its sequence number, and \<open>fr_query\<close> is the closure the scene holds
  for a query: the sequence number and whether it is the final one. \<open>fr_timers\<close> lists the live timers of
  the event loop by the capture they were armed for.
\<close>

datatype capture_stage = Begin | Header | Pixels | End

record capture_ticket =
  ct_target :: native_target
  ct_done :: nat
  ct_cancelled :: bool
  ct_sequence :: nat
  ct_input :: bytes
  ct_output :: bytes
  ct_stage :: capture_stage
  ct_description :: "frame_description option"
  ct_length :: nat

record frames =
  fr_pending :: "capture_ticket option"
  fr_sequence :: nat
  fr_closed :: bool
  fr_mode :: nat
  fr_reset :: bool
  fr_refining :: bool
  fr_target :: "native_target option"
  fr_query :: "(nat \<times> bool) option"
  fr_timers :: "nat list"
  fr_done :: "(nat \<times> capture_result) list"

definition new_frames :: frames where
  "new_frames = \<lparr>fr_pending = None, fr_sequence = 0, fr_closed = False, fr_mode = 0, fr_reset = True, fr_refining = False,
     fr_target = None, fr_query = None, fr_timers = [], fr_done = []\<rparr>"

text \<open>\<open>struct.pack('=I', n)\<close> and \<open>unpack\<close>.\<close>

definition le4 :: "nat \<Rightarrow> bytes" where "le4 n = rev (pack4 n)"

definition unle4 :: "bytes \<Rightarrow> nat" where "unle4 bs = unpack4 (rev bs)"

fun le_words :: "bytes \<Rightarrow> nat list" where
  "le_words (a # b # c # d # rest) = unle4 [a, b, c, d] # le_words rest"
| "le_words _ = []"

definition MAX_PIXELS :: nat where "MAX_PIXELS = 67108864"

subsection \<open>Ending a capture\<close>

definition failed_result :: "capture_result \<Rightarrow> bool" where
  "failed_result r = (case r of Capture_failed _ \<Rightarrow> True | _ \<Rightarrow> False)"

text \<open>\<open>finish\<close> of the pending ticket.\<close>

definition fr_finish :: "capture_result \<Rightarrow> frames \<Rightarrow> frames" where
  "fr_finish r s =
     (case fr_pending s of
        None \<Rightarrow> s
      | Some t \<Rightarrow> s\<lparr>fr_pending := None, fr_reset := fr_reset s \<or> failed_result r,
             fr_timers := remove1 (ct_sequence t) (fr_timers s), fr_done := fr_done s @ [(ct_done t, r)]\<rparr>)"

definition fr_close :: "code \<Rightarrow> frames \<Rightarrow> frames" where
  "fr_close e s = (if fr_closed s then s else fr_finish (Capture_failed e) (s\<lparr>fr_closed := True\<rparr>))"

definition stream_mode :: "string option \<Rightarrow> nat option" where
  "stream_mode m =
     map_of [(None, 0), (Some ''auto'', 1), (Some ''clarity'', 2), (Some ''smooth'', 3), (Some ''data'', 4)] m"

text \<open>\<open>None\<close> is the \<open>KeyError\<close> for an unknown mode.\<close>

definition fr_configure :: "string option \<Rightarrow> frames \<Rightarrow> frames option" where
  "fr_configure m s =
     map_option (\<lambda>n. if n \<noteq> fr_mode s then s\<lparr>fr_mode := n, fr_reset := True\<rparr> else s) (stream_mode m)"

definition fr_refine :: "frames \<Rightarrow> frames" where "fr_refine s = s\<lparr>fr_refining := True\<rparr>"

definition fr_cancel :: "frames \<Rightarrow> frames" where
  "fr_cancel s = s\<lparr>fr_reset := True, fr_pending := map_option (\<lambda>t. t\<lparr>ct_cancelled := True\<rparr>) (fr_pending s)\<rparr>"

subsection \<open>Scene queries\<close>

text \<open>
  \<open>self.scene(observed)\<close> is \<open>NativeDesktop.query_scene\<close>: it asks; it raises before it keeps the closure
  (a query is outstanding, or the registry is closed); or it loses the channel, which calls the closure
  with \<open>(0, 0)\<close> before it raises. No target has window 0.
\<close>

datatype scene_answer = Asked | Refused_scene | Lost_scene

text \<open>The output of the first matching reply: sequence number, mode and flags.\<close>

definition capture_request :: "capture_ticket \<Rightarrow> frames \<Rightarrow> bytes" where
  "capture_request t s =
     (let reset = fr_reset s \<or> fr_target s \<noteq> Some (ct_target t)
      in le4 (ct_sequence t) @ le4 (fr_mode s) @ le4 ((if reset then 1 else 0) + (if fr_refining s then 2 else 0)))"

definition capture_outcome_of :: "capture_ticket \<Rightarrow> capture_result" where
  "capture_outcome_of t = (case ct_description t of None \<Rightarrow> Unchanged | Some d \<Rightarrow> Frame d (ct_input t))"

text \<open>The closure \<open>observed\<close> of a query for the pending ticket.\<close>

definition fr_matched :: "bool \<Rightarrow> int \<Rightarrow> int \<Rightarrow> capture_ticket \<Rightarrow> frames \<Rightarrow> frames" where
  "fr_matched final window generation t s =
     (if ct_cancelled t then fr_finish (Capture_failed CAPTURE_CANCELLED) s
      else if (window, generation) \<noteq> (tg_window (ct_target t), tg_generation (ct_target t))
      then fr_finish (Capture_failed CAPTURE_TARGET_CHANGED) s
      else if final then fr_finish (capture_outcome_of t) s
      else s\<lparr>fr_pending := Some (t\<lparr>ct_stage := Header, ct_output := capture_request t s\<rparr>),
             fr_reset := False, fr_refining := False, fr_target := Some (ct_target t)\<rparr>)"

definition fr_observed :: "int \<Rightarrow> int \<Rightarrow> frames \<Rightarrow> frames" where
  "fr_observed window generation s =
     (case fr_query s of
        None \<Rightarrow> s
      | Some (n, final) \<Rightarrow>
          let s1 = s\<lparr>fr_query := None\<rparr>
          in (case fr_pending s1 of
                None \<Rightarrow> s1
              | Some t \<Rightarrow> if fr_closed s1 \<or> ct_sequence t \<noteq> n then s1 else fr_matched final window generation t s1))"

definition fr_barrier :: "scene_answer \<Rightarrow> bool \<Rightarrow> frames \<Rightarrow> frames" where
  "fr_barrier answer final s =
     (case fr_pending s of
        None \<Rightarrow> s
      | Some t \<Rightarrow>
          if answer = Refused_scene \<or> fr_query s \<noteq> None then fr_close CAPTURE_UNAVAILABLE s
          else if answer = Asked then s\<lparr>fr_query := Some (ct_sequence t, final)\<rparr>
          else fr_close CAPTURE_UNAVAILABLE (fr_matched final 0 0 t s))"

text \<open>\<open>capture\<close>: whether it raised, and the state.\<close>

definition fr_capture :: "scene_answer \<Rightarrow> native_target \<Rightarrow> nat \<Rightarrow> frames \<Rightarrow> bool \<times> frames" where
  "fr_capture answer target k s =
     (if fr_pending s \<noteq> None then (True, s)
      else if fr_closed s then (False, s\<lparr>fr_done := fr_done s @ [(k, Capture_failed CAPTURE_UNAVAILABLE)]\<rparr>)
      else
        let n = fr_sequence s + 1; s1 = s\<lparr>fr_sequence := n\<rparr>
        in if n > 4294967295
           then let s2 = fr_close CAPTURE_UNAVAILABLE s1
                in (False, s2\<lparr>fr_done := fr_done s2 @ [(k, Capture_failed CAPTURE_SEQUENCE_EXHAUSTED)]\<rparr>)
           else
             (False, fr_barrier answer False
                (s1\<lparr>fr_pending := Some \<lparr>ct_target = target, ct_done = k, ct_cancelled = False, ct_sequence = n, ct_input = [],
                      ct_output = [], ct_stage = Begin, ct_description = None, ct_length = 0\<rparr>,
                    fr_timers := fr_timers s1 @ [n]\<rparr>)))"

text \<open>The closure \<open>expired\<close> of the timer of one capture.\<close>

definition fr_expired :: "nat \<Rightarrow> frames \<Rightarrow> frames" where
  "fr_expired n s =
     (if n \<notin> set (fr_timers s) then s
      else
        let s1 = s\<lparr>fr_timers := remove1 n (fr_timers s)\<rparr>
        in (case fr_pending s1 of
              None \<Rightarrow> s1
            | Some t \<Rightarrow> if ct_sequence t = n then fr_close CAPTURE_TIMEOUT s1 else s1))"

subsection \<open>The capture child's socket\<close>

text \<open>\<open>write\<close> when the socket takes \<open>count\<close> bytes.\<close>

definition fr_write :: "nat \<Rightarrow> frames \<Rightarrow> frames" where
  "fr_write count s =
     (case fr_pending s of
        None \<Rightarrow> s
      | Some t \<Rightarrow>
          if fr_closed s \<or> ct_output t = [] then s
          else if count = 0 then fr_close CAPTURE_UNAVAILABLE s
          else s\<lparr>fr_pending := Some (t\<lparr>ct_output := drop count (ct_output t)\<rparr>)\<rparr>)"

definition png_ok :: "frame_description \<Rightarrow> bytes \<Rightarrow> bool" where
  "png_ok d px \<longleftrightarrow>
     45 \<le> length px \<and> take 16 px = [137, 80, 78, 71, 13, 10, 26, 10, 0, 0, 0, 13, 73, 72, 68, 82] \<and>
     unpack4 (take 4 (drop 16 px)) = fd_region_width d \<and> unpack4 (take 4 (drop 20 px)) = fd_region_height d \<and>
     take 5 (drop 24 px) = [8, 2, 0, 0, 0]"

definition jpeg_ok :: "bytes \<Rightarrow> bool" where
  "jpeg_ok px \<longleftrightarrow> take 2 px = [255, 216] \<and> drop (length px - 2) px = [255, 217]"

definition webp_ok :: "bytes \<Rightarrow> bool" where
  "webp_ok px \<longleftrightarrow> take 4 px = [82, 73, 70, 70] \<and> take 4 (drop 8 px) = [87, 69, 66, 80]"

definition pixels_ok :: "frame_description \<Rightarrow> bytes \<Rightarrow> bool" where
  "pixels_ok d px \<longleftrightarrow>
     (fd_encoding d = ''png'' \<longrightarrow> png_ok d px) \<and> (fd_encoding d = ''jpeg'' \<longrightarrow> jpeg_ok px) \<and>
     (fd_encoding d = ''webp'' \<longrightarrow> webp_ok px)"

definition encoding_of :: "nat \<Rightarrow> string option" where
  "encoding_of fmt =
     (if fmt = 0x20474e50 then Some ''png'' else if fmt = 0x4745504a then Some ''jpeg''
      else if fmt = 0x50424557 then Some ''webp'' else None)"

text \<open>The geometry of a header, checked.\<close>

definition frame_of :: "nat \<Rightarrow> nat \<Rightarrow> nat \<Rightarrow> nat \<Rightarrow> nat \<Rightarrow> nat \<Rightarrow> nat \<Rightarrow> nat \<Rightarrow> frame_description option" where
  "frame_of width height fmt extent x y rw rh =
     (case encoding_of fmt of
        None \<Rightarrow> None
      | Some encoding \<Rightarrow>
          if 0 < width \<and> width \<le> 4096 \<and> 0 < height \<and> height \<le> 4096 \<and> 20 \<le> extent \<and> extent \<le> MAX_PIXELS \<and>
             0 < rw \<and> rw \<le> width \<and> 0 < rh \<and> rh \<le> height \<and> x + rw \<le> width \<and> y + rh \<le> height
          then Some \<lparr>fd_encoding = encoding, fd_width = width, fd_height = height, fd_x = x, fd_y = y,
            fd_region_width = rw, fd_region_height = rh\<rparr>
          else None)"

definition read_header :: "scene_answer \<Rightarrow> bytes \<Rightarrow> capture_ticket \<Rightarrow> frames \<Rightarrow> frames" where
  "read_header answer header t s =
     (case le_words header of
        [n, status, width, height, fmt, extent, x, y, rw, rh] \<Rightarrow>
          let t1 = t\<lparr>ct_input := []\<rparr>; s1 = s\<lparr>fr_pending := Some t1\<rparr>
          in if n \<noteq> ct_sequence t \<or> status \<notin> {1, 2, 3, 4} then fr_close CAPTURE_PROTOCOL_INVALID s1
             else if status \<noteq> 1 then
               (if extent \<noteq> 0 then fr_close CAPTURE_PROTOCOL_INVALID s1
                else if status = 4
                then fr_barrier answer True (s\<lparr>fr_pending := Some (t1\<lparr>ct_description := None, ct_stage := End\<rparr>)\<rparr>)
                else fr_finish (Capture_failed (if status = 2 then CAPTURE_SOURCE_CHANGED else CAPTURE_UNAVAILABLE)) s1)
             else
               (case frame_of width height fmt extent x y rw rh of
                  None \<Rightarrow> fr_close CAPTURE_PROTOCOL_INVALID s1
                | Some d \<Rightarrow> s\<lparr>fr_pending := Some (t1\<lparr>ct_description := Some d, ct_length := extent, ct_stage := Pixels\<rparr>)\<rparr>)
      | _ \<Rightarrow> s)"

definition read_pixels :: "scene_answer \<Rightarrow> bytes \<Rightarrow> capture_ticket \<Rightarrow> frames \<Rightarrow> frames" where
  "read_pixels answer px t s =
     (if ct_cancelled t then fr_finish (Capture_failed CAPTURE_CANCELLED) s
      else
        case ct_description t of
          None \<Rightarrow> s
        | Some d \<Rightarrow>
            if \<not> pixels_ok d px then fr_close CAPTURE_PROTOCOL_INVALID s
            else fr_barrier answer True (s\<lparr>fr_pending := Some (t\<lparr>ct_input := px, ct_stage := End\<rparr>)\<rparr>))"

text \<open>What \<open>recv\<close> gives: bytes (none at the end of the stream), nothing yet, or an \<open>OSError\<close>.\<close>

datatype received = Received_bytes bytes | Would_block | Socket_error

definition reading_stage :: "capture_ticket \<Rightarrow> bool" where
  "reading_stage t \<longleftrightarrow> ct_stage t = Header \<or> ct_stage t = Pixels"

definition wanted :: "capture_ticket \<Rightarrow> nat" where
  "wanted t = (if ct_stage t = Header then 40 else ct_length t)"

definition fr_receive :: "scene_answer \<Rightarrow> bytes \<Rightarrow> capture_ticket \<Rightarrow> frames \<Rightarrow> frames" where
  "fr_receive answer data t s =
     (let chunk = take (min 131072 (wanted t - length (ct_input t))) data; input = ct_input t @ chunk
      in if chunk = [] then fr_close CAPTURE_UNAVAILABLE s
         else if length input \<noteq> wanted t then s\<lparr>fr_pending := Some (t\<lparr>ct_input := input\<rparr>)\<rparr>
         else if ct_stage t = Header then read_header answer input t s
         else read_pixels answer input t s)"

definition fr_read :: "scene_answer \<Rightarrow> received \<Rightarrow> frames \<Rightarrow> frames" where
  "fr_read answer input s =
     (if fr_closed s \<or> input = Would_block then s
      else
        case (fr_pending s, input) of
          (Some t, Received_bytes data) \<Rightarrow>
            if reading_stage t then fr_receive answer data t s else fr_close CAPTURE_PROTOCOL_INVALID s
        | _ \<Rightarrow> fr_close CAPTURE_PROTOCOL_INVALID s)"

subsection \<open>Runs\<close>

datatype capture_event =
    Configure "string option"
  | Refine
  | Request native_target nat scene_answer
  | Scene_reply int int
  | Writable nat
  | Readable received scene_answer
  | Cancel_capture
  | Timer nat
  | Close_frames

primrec fr_event :: "capture_event \<Rightarrow> frames \<Rightarrow> frames" where
  "fr_event (Configure m) s = (case fr_configure m s of None \<Rightarrow> s | Some u \<Rightarrow> u)"
| "fr_event Refine s = fr_refine s"
| "fr_event (Request target k answer) s = snd (fr_capture answer target k s)"
| "fr_event (Scene_reply window generation) s = fr_observed window generation s"
| "fr_event (Writable count) s = fr_write count s"
| "fr_event (Readable input answer) s = fr_read answer input s"
| "fr_event Cancel_capture s = fr_cancel s"
| "fr_event (Timer n) s = fr_expired n s"
| "fr_event Close_frames s = fr_close CAPTURE_UNAVAILABLE s"

definition fr_run :: "capture_event list \<Rightarrow> frames \<Rightarrow> frames" where
  "fr_run evs s = fold fr_event evs s"

subsection \<open>The life of a capture\<close>

text \<open>
  What a caller relies on, without the bytes: the capture in progress (its completion ticket and its
  sequence number), the live timers, whether the object is closed, and the tickets completed so far.
\<close>

type_synonym life_state = "(nat \<times> nat) option \<times> nat list \<times> bool \<times> nat list"

inductive life :: "life_state \<Rightarrow> life_state \<Rightarrow> bool" where
  start: "life (None, [], False, ds) (Some (k, n), [n], False, ds)"
| finish: "life (Some (k, n), [n], False, ds) (None, [], c, ds @ [k])"
| shut: "life (None, [], False, ds) (None, [], True, ds)"
| refuse: "life (None, [], True, ds) (None, [], True, ds @ [k])"

inductive_cases life_pending: "life (Some p, ts, c, ds) u"
inductive_cases life_idle: "life (None, ts, c, ds) u"

definition life_of :: "frames \<Rightarrow> life_state" where
  "life_of s = (map_option (\<lambda>t. (ct_done t, ct_sequence t)) (fr_pending s), fr_timers s, fr_closed s, map fst (fr_done s))"

text \<open>A capture in progress has its timer, and nothing else has one.\<close>

definition timed :: "life_state \<Rightarrow> bool" where
  "timed a = (case a of (None, ts, c, ds) \<Rightarrow> ts = [] | (Some (k, n), ts, c, ds) \<Rightarrow> ts = [n] \<and> \<not> c)"

lemma timed_life: "life a b \<Longrightarrow> timed a \<Longrightarrow> timed b"
  by (induction rule: life.induct) (simp_all add: timed_def)

lemma timed_lives: "life\<^sup>*\<^sup>* a b \<Longrightarrow> timed a \<Longrightarrow> timed b"
  by (induction rule: rtranclp_induct) (auto intro: timed_life)

abbreviation lives :: "frames \<Rightarrow> frames \<Rightarrow> bool" where
  "lives s u \<equiv> life\<^sup>*\<^sup>* (life_of s) (life_of u)"

abbreviation timed_frames :: "frames \<Rightarrow> bool" where
  "timed_frames s \<equiv> timed (life_of s)"

lemma lives_trans: "lives s u \<Longrightarrow> (timed_frames u \<Longrightarrow> lives u v) \<Longrightarrow> timed_frames s \<Longrightarrow> lives s v"
  using timed_lives by (meson rtranclp_trans)

lemma lives_same: "life_of u = life_of s \<Longrightarrow> lives s u"
  by simp

lemma lives_finish: "timed_frames s \<Longrightarrow> lives s (fr_finish r s)"
proof (cases "fr_pending s")
  case (Some t)
  assume "timed_frames s"
  with Some have "fr_timers s = [ct_sequence t]" "\<not> fr_closed s" by (simp_all add: timed_def life_of_def)
  then have "life (life_of s) (life_of (fr_finish r s))"
    using Some by (simp add: life_of_def fr_finish_def life.finish)
  then show ?thesis ..
qed (simp add: fr_finish_def)

lemma lives_close: "timed_frames s \<Longrightarrow> lives s (fr_close e s)"
proof (cases "fr_closed s")
  case False
  assume t: "timed_frames s"
  show ?thesis
  proof (cases "fr_pending s")
    case None
    with t False have "life (life_of s) (life_of (fr_close e s))"
      by (simp add: timed_def life_of_def fr_close_def fr_finish_def life.shut)
    then show ?thesis ..
  next
    case (Some u)
    with t have "fr_timers s = [ct_sequence u]" by (simp add: timed_def life_of_def)
    then have "life (life_of s) (life_of (fr_close e s))"
      using Some False by (simp add: life_of_def fr_close_def fr_finish_def life.finish)
    then show ?thesis ..
  qed
qed (simp add: fr_close_def)

lemma lives_matched:
  assumes "timed_frames s" "fr_pending s = Some t"
  shows "lives s (fr_matched final w g t s)"
  using lives_finish [OF assms(1)] assms(2) by (simp add: fr_matched_def) (simp add: life_of_def)

lemma lives_barrier: "timed_frames s \<Longrightarrow> lives s (fr_barrier a final s)"
proof (cases "fr_pending s")
  case (Some t)
  assume tm: "timed_frames s"
  have "lives s (fr_close e (fr_matched final w g t s))" for e w g
    by (rule lives_trans [OF lives_matched [OF tm Some] lives_close tm])
  with Some lives_close [OF tm] show ?thesis by (simp add: fr_barrier_def) (simp add: life_of_def)
qed (simp add: fr_barrier_def)

lemma life_of_query [simp]:
  "life_of (s\<lparr>fr_query := q\<rparr>) = life_of s"
  "life_of (s\<lparr>fr_sequence := n\<rparr>) = life_of s"
  by (simp_all add: life_of_def)

lemma lives_observed: "timed_frames s \<Longrightarrow> lives s (fr_observed w g s)"
  using lives_matched [of "s\<lparr>fr_query := None\<rparr>"]
  by (simp add: fr_observed_def Let_def split: option.split prod.split)

lemma lives_refused:
  assumes "timed_frames s" "fr_pending s = None" "fr_closed s"
  shows "lives s (s\<lparr>fr_done := fr_done s @ [(k, r)]\<rparr>)"
proof -
  have "life (life_of s) (life_of (s\<lparr>fr_done := fr_done s @ [(k, r)]\<rparr>))"
    using assms by (simp add: timed_def life_of_def life.refuse)
  then show ?thesis ..
qed

lemma lives_capture: "timed_frames s \<Longrightarrow> lives s (snd (fr_capture a target k s))"
proof (cases "fr_pending s = None \<and> \<not> fr_closed s")
  case True
  assume tm: "timed_frames s"
  let ?n = "Suc (fr_sequence s)"
  let ?c = "fr_close CAPTURE_UNAVAILABLE (s\<lparr>fr_sequence := ?n\<rparr>)"
  let ?t = "\<lparr>ct_target = target, ct_done = k, ct_cancelled = False, ct_sequence = ?n, ct_input = [],
      ct_output = [], ct_stage = Begin, ct_description = None, ct_length = 0\<rparr>"
  let ?u = "s\<lparr>fr_sequence := ?n, fr_pending := Some ?t, fr_timers := fr_timers s @ [?n]\<rparr>"
  have "lives s ?c" using lives_close [of "s\<lparr>fr_sequence := ?n\<rparr>"] tm by simp
  moreover have "fr_pending ?c = None" "fr_closed ?c" using True by (simp_all add: fr_close_def fr_finish_def)
  ultimately have exhausted: "lives s (?c\<lparr>fr_done := fr_done ?c @ [(k, r)]\<rparr>)" for r
    using lives_trans [OF _ lives_refused tm] by blast
  have "fr_timers s = []" using tm True by (simp add: timed_def life_of_def)
  then have "life (life_of s) (life_of ?u)" using True by (simp add: life_of_def life.start)
  then have "lives s (fr_barrier a False ?u)"
    using lives_trans [OF _ lives_barrier tm, of ?u] by blast
  with exhausted True show ?thesis by (simp add: fr_capture_def Let_def)
next
  case False
  assume "timed_frames s"
  with False lives_refused [of s k] show ?thesis by (auto simp: fr_capture_def)
qed

lemma lives_expired: "timed_frames s \<Longrightarrow> lives s (fr_expired n s)"
proof (cases "\<exists>t. fr_pending s = Some t \<and> n = ct_sequence t \<and> n \<in> set (fr_timers s)")
  case True
  assume tm: "timed_frames s"
  from True obtain t where t: "fr_pending s = Some t" "n = ct_sequence t" by blast
  with tm have "fr_timers s = [n]" "\<not> fr_closed s" by (simp_all add: timed_def life_of_def)
  with t have "life (life_of s) (life_of (fr_expired n s))"
    by (simp add: life_of_def fr_expired_def fr_close_def fr_finish_def life.finish)
  then show ?thesis ..
next
  case False
  assume "timed_frames s"
  with False have "fr_expired n s = s"
    by (cases "fr_pending s") (auto simp: fr_expired_def timed_def life_of_def)
  then show ?thesis by simp
qed

lemma lives_write: "timed_frames s \<Longrightarrow> lives s (fr_write count s)"
  using lives_close [of s] by (cases "fr_pending s") (simp_all add: fr_write_def, simp add: life_of_def)

text \<open>A step on a ticket of the same capture, after the ticket was updated.\<close>

lemma lives_ticket:
  assumes "timed_frames s" "fr_pending s = Some t" "ct_done u = ct_done t" "ct_sequence u = ct_sequence t"
    "\<And>x. timed_frames x \<Longrightarrow> lives x (f x)"
  shows "lives s (f (s\<lparr>fr_pending := Some u\<rparr>))"
proof -
  have "life_of (s\<lparr>fr_pending := Some u\<rparr>) = life_of s" using assms(2-4) by (simp add: life_of_def)
  with assms(5) [of "s\<lparr>fr_pending := Some u\<rparr>"] assms(1) show ?thesis by simp
qed

lemma lives_receive:
  assumes tm: "timed_frames s" and t: "fr_pending s = Some t"
  shows "lives s (fr_receive a data t s)"
proof -
  have ticket: "lives s (f (s\<lparr>fr_pending := Some u\<rparr>))"
    if "ct_done u = ct_done t \<and> ct_sequence u = ct_sequence t" "\<And>x. timed_frames x \<Longrightarrow> lives x (f x)" for f u
    using lives_ticket [OF tm t] that by blast
  have barrier: "lives s (fr_barrier a True (s\<lparr>fr_pending := Some u\<rparr>))"
    if "ct_done u = ct_done t \<and> ct_sequence u = ct_sequence t" for u
    using ticket [OF that, where f = "fr_barrier a True"] lives_barrier by blast
  have shut: "lives s (fr_close e (s\<lparr>fr_pending := Some u\<rparr>))"
    if "ct_done u = ct_done t \<and> ct_sequence u = ct_sequence t" for u e
    using ticket [OF that, where f = "fr_close e"] lives_close by blast
  have stop: "lives s (fr_finish r (s\<lparr>fr_pending := Some u\<rparr>))"
    if "ct_done u = ct_done t \<and> ct_sequence u = ct_sequence t" for u r
    using ticket [OF that, where f = "fr_finish r"] lives_finish by blast
  have stay: "lives s (s\<lparr>fr_pending := Some u\<rparr>)"
    if "ct_done u = ct_done t \<and> ct_sequence u = ct_sequence t" for u
    using ticket [OF that, where f = "\<lambda>x. x"] by simp
  have "lives s (read_pixels a px t s)" for px
    using lives_finish [OF tm] lives_close [OF tm] by (simp add: read_pixels_def barrier split: option.split)
  moreover have "lives s (read_header a header t s)" for header
    unfolding read_header_def Let_def
    by (simp add: barrier shut stop stay split: list.split option.split)
  moreover have "lives s (s\<lparr>fr_pending := Some (t\<lparr>ct_input := px\<rparr>)\<rparr>)" for px
    by (rule stay) simp
  ultimately show ?thesis using lives_close [OF tm] by (simp add: fr_receive_def Let_def)
qed

lemma lives_read: "timed_frames s \<Longrightarrow> lives s (fr_read a input s)"
  using lives_close [of s] lives_receive [of s]
  by (simp add: fr_read_def split: option.split received.split)

lemma configure_fields:
  "fr_pending (fr_event (Configure m) s) = fr_pending s" "fr_timers (fr_event (Configure m) s) = fr_timers s"
  "fr_closed (fr_event (Configure m) s) = fr_closed s" "fr_done (fr_event (Configure m) s) = fr_done s"
  "fr_query (fr_event (Configure m) s) = fr_query s" "fr_sequence (fr_event (Configure m) s) = fr_sequence s"
  by (simp_all add: fr_configure_def split: option.split)

lemma lives_event: "timed_frames s \<Longrightarrow> lives s (fr_event e s)"
proof (cases e)
  case (Configure m)
  have "life_of (fr_event e s) = life_of s" using configure_fields [where s = s and m = m] by (simp add: life_of_def Configure)
  then show ?thesis by simp
next
  case Cancel_capture
  have "life_of (fr_cancel s) = life_of s" by (cases "fr_pending s") (simp_all add: fr_cancel_def life_of_def)
  then show ?thesis using Cancel_capture by simp
qed (simp_all del: fr_event.simps(1) add: lives_capture lives_observed lives_write lives_read lives_expired lives_close,
     simp add: fr_refine_def life_of_def)

lemma timed_new: "timed_frames new_frames"
  by (simp add: timed_def life_of_def new_frames_def)

lemma lives_run: "timed_frames s \<Longrightarrow> lives s (fr_run evs s)"
  unfolding fr_run_def
proof (induction evs arbitrary: s)
  case (Cons e evs)
  have "lives s (fr_event e s)" using Cons.prems by (rule lives_event)
  then show ?case using lives_trans [OF _ Cons.IH Cons.prems] by simp
qed simp

subsection \<open>Every accepted capture is completed once, in order\<close>

definition queue :: "frames \<Rightarrow> nat list" where
  "queue s = map fst (fr_done s) @ (case fr_pending s of None \<Rightarrow> [] | Some t \<Rightarrow> [ct_done t])"

text \<open>The ticket that an event hands in, unless \<open>capture\<close> raises.\<close>

primrec accepted :: "capture_event \<Rightarrow> frames \<Rightarrow> nat list" where
  "accepted (Configure m) s = []"
| "accepted Refine s = []"
| "accepted (Request target k answer) s = (if fst (fr_capture answer target k s) then [] else [k])"
| "accepted (Scene_reply window generation) s = []"
| "accepted (Writable count) s = []"
| "accepted (Readable input answer) s = []"
| "accepted Cancel_capture s = []"
| "accepted (Timer n) s = []"
| "accepted Close_frames s = []"

primrec accepted_run :: "capture_event list \<Rightarrow> frames \<Rightarrow> nat list" where
  "accepted_run [] s = []"
| "accepted_run (e # evs) s = accepted e s @ accepted_run evs (fr_event e s)"

lemma queue_finish [simp]: "queue (fr_finish r s) = queue s"
  by (simp add: queue_def fr_finish_def split: option.split)

lemma queue_fields [simp]:
  "queue (s\<lparr>fr_closed := c\<rparr>) = queue s" "queue (s\<lparr>fr_query := q\<rparr>) = queue s"
  "queue (s\<lparr>fr_sequence := n\<rparr>) = queue s" "queue (s\<lparr>fr_timers := ts\<rparr>) = queue s"
  by (simp_all add: queue_def)

lemma queue_close [simp]: "queue (fr_close e s) = queue s"
  by (simp add: fr_close_def)

lemma queue_ticket: "fr_pending s = Some t \<Longrightarrow> ct_done u = ct_done t \<Longrightarrow> queue (s\<lparr>fr_pending := Some u\<rparr>) = queue s"
  by (simp add: queue_def)

lemma queue_matched: "fr_pending s = Some t \<Longrightarrow> queue (fr_matched final w g t s) = queue s"
  by (simp add: fr_matched_def) (simp add: queue_def)

lemma queue_barrier [simp]: "queue (fr_barrier a final s) = queue s"
  using queue_matched [of s] by (simp add: fr_barrier_def split: option.split)

lemma queue_observed [simp]: "queue (fr_observed w g s) = queue s"
  using queue_matched [of "s\<lparr>fr_query := None\<rparr>"] by (simp add: fr_observed_def Let_def split: option.split)

lemma queue_capture: "queue (snd (fr_capture a target k s)) = queue s @ (if fst (fr_capture a target k s) then [] else [k])"
proof (cases "fr_pending s = None \<and> \<not> fr_closed s")
  case True
  let ?c = "fr_close CAPTURE_UNAVAILABLE (s\<lparr>fr_sequence := Suc (fr_sequence s)\<rparr>)"
  have "fr_pending ?c = None" "fr_done ?c = fr_done s" using True by (simp_all add: fr_close_def fr_finish_def)
  then have "queue (?c\<lparr>fr_done := fr_done ?c @ [(k, r)]\<rparr>) = queue s @ [k]" for r using True by (simp add: queue_def)
  with True show ?thesis by (simp add: fr_capture_def Let_def) (simp add: queue_def)
qed (auto simp: fr_capture_def queue_def)

lemma queue_expired [simp]: "queue (fr_expired n s) = queue s"
  by (simp add: fr_expired_def Let_def split: option.split)

lemma queue_write [simp]: "queue (fr_write n s) = queue s"
  by (simp add: fr_write_def queue_ticket split: option.split)

lemma queue_receive: "fr_pending s = Some t \<Longrightarrow> queue (fr_receive a data t s) = queue s"
proof -
  assume t: "fr_pending s = Some t"
  have "queue (read_header a header t s) = queue s" for header
    unfolding read_header_def Let_def using t by (simp add: queue_ticket split: list.split option.split)
  moreover have "queue (read_pixels a px t s) = queue s" for px
    using t by (simp add: read_pixels_def queue_ticket split: option.split)
  ultimately show ?thesis using t by (simp add: fr_receive_def Let_def queue_ticket)
qed

lemma queue_read [simp]: "queue (fr_read a input s) = queue s"
  by (simp add: fr_read_def queue_receive split: option.split received.split)

lemma queue_event: "queue (fr_event e s) = queue s @ accepted e s"
proof (cases e)
  case (Configure m)
  then show ?thesis using configure_fields [where s = s and m = m] by (simp add: queue_def)
next
  case Cancel_capture
  then show ?thesis by (cases "fr_pending s") (simp_all add: fr_cancel_def queue_def)
qed (simp_all add: queue_capture, simp add: fr_refine_def queue_def)

lemma queue_run: "queue (fr_run evs s) = queue s @ accepted_run evs s"
  by (induction evs arbitrary: s) (simp_all add: fr_run_def queue_event)

subsection \<open>Frames are bracketed\<close>

definition description_ok :: "frame_description \<Rightarrow> bool" where
  "description_ok d \<longleftrightarrow>
     0 < fd_width d \<and> fd_width d \<le> 4096 \<and> 0 < fd_height d \<and> fd_height d \<le> 4096 \<and>
     0 < fd_region_width d \<and> 0 < fd_region_height d \<and>
     fd_x d + fd_region_width d \<le> fd_width d \<and> fd_y d + fd_region_height d \<le> fd_height d \<and>
     (fd_encoding d = ''png'' \<or> fd_encoding d = ''jpeg'' \<or> fd_encoding d = ''webp'')"

definition content_ok :: "frame_description \<Rightarrow> bytes \<Rightarrow> bool" where
  "content_ok d px \<longleftrightarrow> description_ok d \<and> pixels_ok d px \<and> 20 \<le> length px \<and> length px \<le> MAX_PIXELS"

definition reply_of :: "native_target \<Rightarrow> capture_event" where
  "reply_of target = Scene_reply (tg_window target) (tg_generation target)"

text \<open>The capture was requested, and \<open>n\<close> replies named its target since.\<close>

definition replied :: "capture_event list \<Rightarrow> native_target \<Rightarrow> nat \<Rightarrow> nat \<Rightarrow> bool" where
  "replied h target k n \<longleftrightarrow> (\<exists>a. subseq (Request target k a # replicate n (reply_of target)) h)"

definition results_ok :: "capture_event list \<Rightarrow> frames \<Rightarrow> bool" where
  "results_ok h s \<longleftrightarrow> (\<forall>k d px. (k, Frame d px) \<in> set (fr_done s) \<longrightarrow> content_ok d px \<and> (\<exists>target. replied h target k 2))"

text \<open>The ticket in progress and the query that is outstanding for it.\<close>

definition stage_ok :: "capture_event list \<Rightarrow> capture_ticket \<Rightarrow> (nat \<times> bool) option \<Rightarrow> bool" where
  "stage_ok h t q \<longleftrightarrow>
     (case ct_stage t of
        Begin \<Rightarrow> q = Some (ct_sequence t, False) \<and> replied h (ct_target t) (ct_done t) 0 \<and> ct_input t = []
      | Header \<Rightarrow> q = None \<and> replied h (ct_target t) (ct_done t) 1 \<and> length (ct_input t) < 40
      | Pixels \<Rightarrow> q = None \<and> replied h (ct_target t) (ct_done t) 1 \<and>
          (\<exists>d. ct_description t = Some d \<and> description_ok d) \<and>
          20 \<le> ct_length t \<and> ct_length t \<le> MAX_PIXELS \<and> length (ct_input t) < ct_length t
      | End \<Rightarrow> q = Some (ct_sequence t, True) \<and> replied h (ct_target t) (ct_done t) 1 \<and>
          (\<forall>d. ct_description t = Some d \<longrightarrow> content_ok d (ct_input t)))"

definition bracketed :: "capture_event list \<Rightarrow> frames \<Rightarrow> bool" where
  "bracketed h s \<longleftrightarrow>
     results_ok h s \<and>
     (case fr_pending s of
        None \<Rightarrow> fr_query s = None \<or> fr_closed s
      | Some t \<Rightarrow> \<not> fr_closed s \<and> tg_window (ct_target t) \<noteq> 0 \<and> stage_ok h t (fr_query s))"







lemma results_fields [simp]:
  "results_ok h (s\<lparr>fr_closed := c\<rparr>) = results_ok h s" "results_ok h (s\<lparr>fr_query := q\<rparr>) = results_ok h s"
  "results_ok h (s\<lparr>fr_sequence := n\<rparr>) = results_ok h s" "results_ok h (s\<lparr>fr_timers := ts\<rparr>) = results_ok h s"
  "results_ok h (s\<lparr>fr_pending := p\<rparr>) = results_ok h s" "results_ok h (s\<lparr>fr_reset := b\<rparr>) = results_ok h s"
  "results_ok h (s\<lparr>fr_refining := b\<rparr>) = results_ok h s" "results_ok h (s\<lparr>fr_target := x\<rparr>) = results_ok h s"
  "results_ok h (s\<lparr>fr_mode := m\<rparr>) = results_ok h s"
  by (simp_all add: results_ok_def)

lemma finish_fields [simp]:
  "fr_pending (fr_finish r s) = None" "fr_closed (fr_finish r s) = fr_closed s" "fr_query (fr_finish r s) = fr_query s"
  by (simp_all add: fr_finish_def split: option.split)













lemma bracketed_same:
  assumes "fr_done u = fr_done s" "fr_pending u = fr_pending s" "fr_closed u = fr_closed s" "fr_query u = fr_query s"
  shows "bracketed h u = bracketed h s"
  using assms by (cases "fr_pending s") (simp_all add: bracketed_def results_ok_def)



lemma bracketed_timers [simp]: "bracketed h (s\<lparr>fr_timers := ts\<rparr>) = bracketed h s"
  by (rule bracketed_same) simp_all




subsection \<open>Properties\<close>

lemma captures_in_queue: "queue (fr_run evs new_frames) = accepted_run evs new_frames"
  using queue_run [of evs new_frames] by (simp add: queue_def new_frames_def)



text \<open>C14: Every capture that is accepted is completed exactly once and in the order of acceptance: the completed
  tickets, followed by the one in progress, are the accepted ones.\<close>
theorem captures_complete_in_order: "queue (fr_run evs new_frames) = accepted_run evs new_frames"
  by (rule captures_in_queue)


text \<open>C34: No accepted capture is left hanging: at any time it is completed, or one timer is armed whose expiry
  completes it.\<close>
theorem accepted_captures_end:
  assumes "k \<in> set (accepted_run evs new_frames)"
  shows "k \<in> fst ` set (fr_done (fr_run evs new_frames)) \<or>
    (\<exists>n. fr_timers (fr_run evs new_frames) = [n] \<and> k \<in> fst ` set (fr_done (fr_expired n (fr_run evs new_frames))))"
proof -
  let ?s = "fr_run evs new_frames"
  have q: "k \<in> set (queue ?s)" using assms captures_in_queue by simp
  have tm: "timed_frames ?s" using timed_lives [OF lives_run [OF timed_new] timed_new] .
  show ?thesis
  proof (cases "fr_pending ?s")
    case None
    with q show ?thesis by (simp add: queue_def)
  next
    case (Some t)
    then have "fr_timers ?s = [ct_sequence t]" "\<not> fr_closed ?s" using tm by (simp_all add: timed_def life_of_def)
    then have "fr_done (fr_expired (ct_sequence t) ?s) = fr_done ?s @ [(ct_done t, Capture_failed CAPTURE_TIMEOUT)]"
      using Some by (simp add: fr_expired_def fr_close_def fr_finish_def)
    with q Some \<open>fr_timers ?s = [ct_sequence t]\<close> show ?thesis by (auto simp: queue_def)
  qed
qed

subsection \<open>A run\<close>

definition webp_bytes :: bytes where
  "webp_bytes = [82, 73, 70, 70, 12, 0, 0, 0, 87, 69, 66, 80, 1, 2, 3, 4, 5, 6, 7, 8]"


definition capture_script :: "capture_event list" where
  "capture_script =
     [Request \<lparr>tg_window = 7, tg_generation = 5\<rparr> 40 Asked, Scene_reply 7 5, Writable 12,
      Readable (Received_bytes (concat (map le4 [1, 1, 2, 1, 0x50424557]))) Asked,
      Readable (Received_bytes (concat (map le4 [20, 0, 0, 2, 1]))) Asked,
      Readable (Received_bytes webp_bytes) Asked, Scene_reply 7 5]"



lemma accepted_captures_end_witness:
  "40 \<in> fst ` set (fr_done (fr_run (take 4 capture_script) new_frames)) \<or>
    (\<exists>n. fr_timers (fr_run (take 4 capture_script) new_frames) = [n] \<and>
      40 \<in> fst ` set (fr_done (fr_expired n (fr_run (take 4 capture_script) new_frames))))"
  by (rule accepted_captures_end) (simp add: capture_script_def fr_capture_def new_frames_def fr_barrier_def)

end
