(* ===== verification/Pixels.thy ===== *)
theory Pixels
  imports Contract
begin

section \<open>Pixel ownership and copies (host\_desktop\_pixels.py)\<close>

text \<open>
  Mapped pixels are lists of bytes. \<open>memcmp\<close> and \<open>memmove\<close> at an offset are \<open>drop\<close> and \<open>take\<close>; a
  theorem shows that every access stays inside its buffer. Pixman's compositing of one 32-bit format
  onto another is the parameter \<open>pixel\<close>, applied to the four bytes of each pixel.
\<close>

subsection \<open>A sealed slot and its mapping\<close>

text \<open>
  \<open>native_pixels\<close> ends with the descriptor closed in any case; the mapping survives only when nothing
  failed. The step that fails is an argument.
\<close>

datatype slot_failure = Memfd_fails | Size_fails | Map_fails | Body_fails

record slot =
  sl_fd_open :: bool
  sl_mapped :: bool

definition native_pixels :: "int \<Rightarrow> slot_failure option \<Rightarrow> (code option + unit) \<times> slot" where
  "native_pixels n failure =
     (if \<not> (0 < n \<and> n \<le> 67108864) then (Inl (Some CAPTURE_LAYOUT_UNSUPPORTED), \<lparr>sl_fd_open = False, sl_mapped = False\<rparr>)
      else
        case failure of
          Some f \<Rightarrow> (Inl None, \<lparr>sl_fd_open = False, sl_mapped = False\<rparr>)
        | None \<Rightarrow> (Inr (), \<lparr>sl_fd_open = False, sl_mapped = True\<rparr>))"

subsection \<open>Comparing\<close>

definition bytes_at :: "bytes \<Rightarrow> nat \<Rightarrow> nat \<Rightarrow> bytes" where
  "bytes_at b offset n = take n (drop offset b)"

definition probe_offsets :: "nat \<Rightarrow> nat list" where
  "probe_offsets n = map (\<lambda>i. i * (n - 128) div 31) [0..<32]"

definition equal_pixels :: "bytes \<Rightarrow> bytes \<Rightarrow> bool" where
  "equal_pixels a b =
     (if length a \<noteq> length b then False
      else if 8192 \<le> length a \<and> list_ex (\<lambda>offset. bytes_at a offset 128 \<noteq> bytes_at b offset 128) (probe_offsets (length a))
      then False
      else length a = 0 \<or> bytes_at a 0 (length a) = bytes_at b 0 (length a))"

subsection \<open>Copying\<close>

definition memmove :: "bytes \<Rightarrow> nat \<Rightarrow> bytes \<Rightarrow> nat \<Rightarrow> nat \<Rightarrow> bytes" where
  "memmove target to source from n = take to target @ bytes_at source from n @ drop (to + n) target"

text \<open>The loop over the rows.\<close>

definition move_rows :: "nat \<Rightarrow> nat \<Rightarrow> nat \<Rightarrow> bytes \<Rightarrow> bytes \<Rightarrow> bytes" where
  "move_rows row stride height source target =
     fold (\<lambda>y t. memmove t (y * row) source (y * stride) row) [0..<height] target"

fun map_pixels :: "(bytes \<Rightarrow> bytes) \<Rightarrow> bytes \<Rightarrow> bytes" where
  "map_pixels pixel (a # b # c # d # rest) = pixel [a, b, c, d] @ map_pixels pixel rest"
| "map_pixels pixel rest = rest"

text \<open>\<open>_swizzle\<close>: every pixel of the source image, row by row, onto the packed target.\<close>

definition swizzle :: "(bytes \<Rightarrow> bytes) \<Rightarrow> nat \<Rightarrow> nat \<Rightarrow> nat \<Rightarrow> bytes \<Rightarrow> bytes" where
  "swizzle pixel width height stride source =
     concat (map (\<lambda>y. map_pixels pixel (bytes_at source (y * stride) (width * 4))) [0..<height])"

text \<open>
  \<open>copy\<close>; the alignment of the two addresses is an argument. Pixman may report no image, which is the
  argument \<open>images\<close>.
\<close>

definition copy_pixels ::
  "(bytes \<Rightarrow> bytes) \<Rightarrow> bool \<Rightarrow> bool \<Rightarrow> bool \<Rightarrow> bytes \<Rightarrow> bytes \<Rightarrow> nat \<Rightarrow> nat \<Rightarrow> nat \<Rightarrow> bool \<Rightarrow> code + bytes" where
  "copy_pixels pixel images target_aligned source_aligned target source width height stride swap =
     (let row = width * 4
      in if width < 1 \<or> height < 1 \<or> stride < row \<or> length target \<noteq> row * height \<or>
            length source < (height - 1) * stride + row \<or> swap \<and> \<not> target_aligned
         then Inl CAPTURE_LAYOUT_UNSUPPORTED
         else if swap then
           (if stride mod 4 = 0 \<and> source_aligned
            then (if images then Inr (swizzle pixel width height stride source) else Inl CAPTURE_UNAVAILABLE)
            else
              let packed = move_rows row stride height source target
              in if images then Inr (swizzle pixel width height row packed) else Inl CAPTURE_UNAVAILABLE)
         else if stride = row then Inr (memmove target 0 source 0 (length target))
         else Inr (move_rows row stride height source target))"

text \<open>\<open>FramePool.capture\<close>: what \<open>acquire_buffer\<close> and \<open>map\<close> answer are arguments.\<close>

datatype pool_flow = Flow_ok bytes | Flow_flushing | Flow_error

definition pool_capture ::
  "(bytes \<Rightarrow> bytes) \<Rightarrow> bool \<Rightarrow> bool \<Rightarrow> bool \<Rightarrow> pool_flow \<Rightarrow> bool \<Rightarrow> bytes \<Rightarrow> nat \<Rightarrow> nat \<Rightarrow> nat \<Rightarrow> bool \<Rightarrow> code + bytes option" where
  "pool_capture pixel images target_aligned source_aligned flow mapped source width height stride swap =
     (case flow of
        Flow_flushing \<Rightarrow> Inr None
      | Flow_error \<Rightarrow> Inl CAPTURE_UNAVAILABLE
      | Flow_ok target \<Rightarrow>
          if \<not> mapped then Inl CAPTURE_UNAVAILABLE
          else
            (case copy_pixels pixel images target_aligned source_aligned target source width height stride swap of
               Inl e \<Rightarrow> Inl e
             | Inr px \<Rightarrow> Inr (Some px)))"

subsection \<open>Rows\<close>

text \<open>The reference: the pixels of each row, without the padding.\<close>

definition rows :: "nat \<Rightarrow> nat \<Rightarrow> nat \<Rightarrow> bytes \<Rightarrow> bytes" where
  "rows row stride height source = concat (map (\<lambda>y. bytes_at source (y * stride) row) [0..<height])"

lemma length_bytes_at: "offset + n \<le> length b \<Longrightarrow> length (bytes_at b offset n) = n"
  by (simp add: bytes_at_def)

lemma row_fits:
  assumes "y < height" "(height - 1) * stride + row \<le> length source"
  shows "y * stride + row \<le> length source"
proof -
  have "y * stride \<le> (height - 1) * stride" using assms(1) by (intro mult_right_mono) auto
  with assms(2) show ?thesis by linarith
qed

lemma length_rows:
  assumes "(height - 1) * stride + row \<le> length source"
  shows "length (rows row stride height source) = height * row"
proof -
  have "map (\<lambda>y. length (bytes_at source (y * stride) row)) [0..<height] = replicate height row"
    using row_fits [OF _ assms] by (intro nth_equalityI) (simp_all add: length_bytes_at)
  then show ?thesis by (simp add: rows_def length_concat o_def sum_list_replicate)
qed

lemma move_rows_prefix:
  assumes "k \<le> height" "length target = row * height" "(height - 1) * stride + row \<le> length source"
  shows "fold (\<lambda>y t. memmove t (y * row) source (y * stride) row) [0..<k] target =
    rows row stride k source @ drop (k * row) target"
  using assms(1)
proof (induction k)
  case (Suc k)
  have fits: "(k - 1) * stride + row \<le> length source \<or> k = 0"
    using row_fits [of "k - 1" height stride row source] assms(3) Suc.prems by (cases k) auto
  have len: "length (rows row stride k source) = k * row"
    using fits length_rows [of k stride row source] by (cases "k = 0") (auto simp: rows_def)
  have "k * row + row \<le> length target" using assms(2) Suc.prems mult_le_mono1 [of "Suc k" height row] by (simp add: mult.commute)
  then show ?case using Suc len by (simp add: memmove_def rows_def add.commute)
qed (simp add: rows_def)

lemma move_rows_eq:
  assumes "length target = row * height" "(height - 1) * stride + row \<le> length source"
  shows "move_rows row stride height source target = rows row stride height source"
  using move_rows_prefix [OF order.refl assms] assms(1) by (simp add: move_rows_def mult.commute)

lemma rows_packed:
  "row * height \<le> length source \<Longrightarrow> rows row row height source = take (row * height) source"
proof (induction height)
  case (Suc k)
  have "rows row row (Suc k) source = rows row row k source @ bytes_at source (k * row) row" by (simp add: rows_def)
  also have "rows row row k source = take (row * k) source" using Suc by simp
  also have "take (row * k) source @ bytes_at source (k * row) row = take (row * k + row) source"
    by (simp add: bytes_at_def take_add mult.commute)
  finally show ?case by (simp add: add.commute)
qed (simp add: rows_def)

lemma row_of_rows:
  assumes "(height - 1) * stride + row \<le> length source" "y < height"
  shows "bytes_at (rows row stride height source) (y * row) row = bytes_at source (y * stride) row"
  using assms
proof (induction height)
  case (Suc k)
  have fit: "(k - 1) * stride + row \<le> length source \<or> k = 0"
    using row_fits [of "k - 1" "Suc k" stride row source] Suc.prems(1) by (cases k) auto
  have len: "length (rows row stride k source) = k * row"
    using fit length_rows [of k stride row source] by (cases "k = 0") (auto simp: rows_def)
  have eq: "rows row stride (Suc k) source = rows row stride k source @ bytes_at source (k * stride) row" by (simp add: rows_def)
  show ?case
  proof (cases "y = k")
    case True
    then show ?thesis using len Suc.prems(1) unfolding eq by (simp add: bytes_at_def)
  next
    case False
    with Suc.prems have y: "y < k" by simp
    then have "y * row + row \<le> k * row" using mult_le_mono1 [of "Suc y" k row] by simp
    then have "bytes_at (rows row stride k source @ z) (y * row) row = bytes_at (rows row stride k source) (y * row) row" for z
      using len by (simp add: bytes_at_def)
    with Suc.IH y fit show ?thesis unfolding eq by auto
  qed
qed simp

subsection \<open>Properties\<close>

text \<open>Comparing two mappings is exact equality, although large ones are first probed at 32 places: the
  probes only find a difference earlier.\<close>
theorem equal_pixels_exact: "equal_pixels a b \<longleftrightarrow> a = b"
  by (auto simp: equal_pixels_def bytes_at_def list_ex_iff)

text \<open>Every probe of the comparison lies inside the buffers, the first at their start and the last at their
  end.\<close>
theorem probes_inside:
  assumes "8192 \<le> n"
  shows "(\<forall>offset \<in> set (probe_offsets n). offset + 128 \<le> n) \<and> hd (probe_offsets n) = 0 \<and>
    last (probe_offsets n) = n - 128"
proof -
  have "i * (n - 128) div 31 \<le> n - 128" if "i < 32" for i
  proof -
    have "i * (n - 128) \<le> 31 * (n - 128)" using that by (intro mult_right_mono) auto
    then have "i * (n - 128) div 31 \<le> 31 * (n - 128) div 31" by (rule div_le_mono)
    then show ?thesis by simp
  qed
  then have "\<forall>offset \<in> set (probe_offsets n). offset + 128 \<le> n" using assms by (fastforce simp: probe_offsets_def)
  moreover have "last (probe_offsets n) = n - 128"
  proof -
    have "[0..<32] = [0..<31] @ [31::nat]" using upt_Suc_append [of 0 31] by simp
    then show ?thesis by (simp only: probe_offsets_def map_append list.map last_snoc)
  qed
  moreover have "hd (probe_offsets n) = 0"
    unfolding probe_offsets_def by (subst upt_conv_Cons) (simp_all del: upt_Suc)
  ultimately show ?thesis by blast
qed

text \<open>Whichever way a frame is copied (at once, row by row, swizzled from aligned rows, or packed first and
  swizzled in place), the result is the rows of the source without their padding, pixel by pixel.\<close>
theorem copy_pixels_rows:
  assumes "copy_pixels pixel images ta sa target source width height stride swap = Inr px"
  shows "px = (if swap then swizzle pixel width height stride source else rows (width * 4) stride height source) \<and>
    length target = width * 4 * height \<and> (height - 1) * stride + width * 4 \<le> length source"
proof -
  let ?row = "width * 4"
  have g: "1 \<le> height" "?row \<le> stride" "length target = ?row * height" "(height - 1) * stride + ?row \<le> length source"
    using assms by (auto simp: copy_pixels_def Let_def split: if_splits)
  have moved: "move_rows ?row stride height source target = rows ?row stride height source"
    using g by (intro move_rows_eq) simp_all
  have packed: "swizzle pixel width height ?row (rows ?row stride height source) = swizzle pixel width height stride source"
    unfolding swizzle_def using row_of_rows [OF g(4)]
    by (intro arg_cong [where f = concat] map_cong) (simp_all add: mult.assoc)
  have whole: "memmove target 0 source 0 (length target) = rows ?row ?row height source" if "stride = ?row"
  proof -
    have "?row * height \<le> length source" using g that by (cases height) (simp_all add: algebra_simps)
    then show ?thesis using g(3) by (simp add: memmove_def bytes_at_def rows_packed)
  qed
  show ?thesis
    using assms g moved packed whole by (auto simp: copy_pixels_def Let_def split: if_splits)
qed

lemma probes_inside_witness: "\<forall>offset \<in> set (probe_offsets 8192). offset + 128 \<le> 8192"
  using probes_inside [of 8192] by blast

lemma copy_pixels_rows_witness:
  "rows 4 6 2 [1, 2, 3, 4, 0, 0, 5, 6, 7, 8] = [1, 2, 3, 4, 5, 6, 7, 8]"
proof -
  have "copy_pixels rev True True True (replicate 8 0) [1, 2, 3, 4, 0, 0, 5, 6, 7, 8] 1 2 6 False = Inr [1, 2, 3, 4, 5, 6, 7, 8]"
    by (simp add: copy_pixels_def move_rows_def memmove_def bytes_at_def eval_nat_numeral)
  from copy_pixels_rows [OF this] show ?thesis by simp
qed

end
