(* ===== verification/Processes.thy ===== *)
theory Processes
  imports Contract "HOL-Library.AList"
begin

section \<open>Process ownership (application\_processes.py)\<close>

text \<open>
  The kernel's process table is an argument. Every read of \<open>/proc\<close> or of a pidfd is a moment of its own,
  so a walk up the ancestors is given three views of the table: what it observes first (\<open>a\<close>), what it
  reads again once a pidfd is held (\<open>b\<close>), and what it reads when it validates the whole chain (\<open>c\<close>); a
  process is read once in each. \<open>pv_identity\<close> is the pair of parent and start time (\<open>None\<close> is an
  \<open>OSError\<close> or \<open>ValueError\<close>), \<open>pv_exited\<close> the poll of the process's pidfd, and \<open>pv_opens\<close> whether
  \<open>pidfd_open\<close> succeeds.
\<close>

record process_view =
  pv_identity :: "int \<Rightarrow> (int \<times> int) option"
  pv_exited :: "int \<Rightarrow> bool"
  pv_opens :: "int \<Rightarrow> bool"

record process_tree =
  pt_pid :: int
  pt_started :: int
  pt_open :: bool
  pt_references :: "nat list"

definition started_of :: "process_view \<Rightarrow> int \<Rightarrow> int option" where
  "started_of v pid = map_option snd (pv_identity v pid)"

text \<open>\<open>ProcessTree.__init__\<close>; \<open>None\<close> is the error.\<close>

definition new_tree :: "process_view \<Rightarrow> int \<Rightarrow> int \<Rightarrow> process_tree option" where
  "new_tree v pid started =
     (if \<not> pv_opens v pid \<or> pv_exited v pid \<or> started_of v pid \<noteq> Some started then None
      else Some \<lparr>pt_pid = pid, pt_started = started, pt_open = True, pt_references = []\<rparr>)"

subsection \<open>The walk up the ancestors\<close>

definition root_alive :: "process_view \<Rightarrow> process_tree \<Rightarrow> bool" where
  "root_alive v t \<longleftrightarrow> \<not> pv_exited v (pt_pid t) \<and> started_of v (pt_pid t) = Some (pt_started t)"

text \<open>One ancestor, observed and read again.\<close>

definition observe_process :: "process_view \<Rightarrow> process_view \<Rightarrow> int \<Rightarrow> (int \<times> int) option" where
  "observe_process a b pid =
     (case pv_identity a pid of
        None \<Rightarrow> None
      | Some observed \<Rightarrow>
          if pv_opens a pid \<and> \<not> pv_exited b pid \<and> pv_identity b pid = Some observed then Some observed else None)"

definition still_valid :: "process_view \<Rightarrow> (int \<times> (int \<times> int)) list \<Rightarrow> bool" where
  "still_valid c ancestors = list_all (\<lambda>(pid, observed). \<not> pv_exited c pid \<and> pv_identity c pid = Some observed) ancestors"

text \<open>The loop, with the rounds left and the ancestors seen so far.\<close>

primrec walk_up ::
  "process_view \<Rightarrow> process_view \<Rightarrow> process_view \<Rightarrow> process_tree \<Rightarrow> nat \<Rightarrow> int \<Rightarrow> (int \<times> (int \<times> int)) list \<Rightarrow> bool" where
  "walk_up a b c t 0 pid ancestors = False"
| "walk_up a b c t (Suc n) pid ancestors =
     (if pid \<le> 1 \<or> pid \<in> fst ` set ancestors then False
      else
        case observe_process a b pid of
          None \<Rightarrow> False
        | Some observed \<Rightarrow>
            let chain = ancestors @ [(pid, observed)]
            in if fst observed = pt_pid t then root_alive c t \<and> still_valid c chain
               else walk_up a b c t n (fst observed) chain)"

definition owns :: "process_view \<Rightarrow> process_view \<Rightarrow> process_view \<Rightarrow> process_tree \<Rightarrow> int \<Rightarrow> bool" where
  "owns a b c t pid =
     (if \<not> pt_open t \<or> pid = pt_pid t \<or> \<not> root_alive a t then False else walk_up a b c t 128 pid [])"

text \<open>\<open>admit\<close>: \<open>None\<close> is the error; a reference is named by the number its caller chose.\<close>

record process_reference =
  rf_name :: nat
  rf_pid :: int
  rf_started :: int
  rf_open :: bool

definition admit ::
  "process_view \<Rightarrow> process_view \<Rightarrow> process_view \<Rightarrow> process_view \<Rightarrow> nat \<Rightarrow> pyval \<Rightarrow> process_tree \<Rightarrow>
     (process_reference \<times> process_tree) option" where
  "admit v a b c name pid t =
     (case pid of
        PInt p \<Rightarrow>
          if p \<le> 1 \<or> 256 \<le> length (pt_references t) then None
          else
            (case observe_process v a p of
               None \<Rightarrow> None
             | Some before \<Rightarrow>
                 if \<not> owns a b c t p then None
                 else Some (\<lparr>rf_name = name, rf_pid = p, rf_started = snd before, rf_open = True\<rparr>,
                        t\<lparr>pt_references := List.insert name (pt_references t)\<rparr>))
      | _ \<Rightarrow> None)"

definition reference_valid :: "process_view \<Rightarrow> process_view \<Rightarrow> process_view \<Rightarrow> process_tree \<Rightarrow> process_reference \<Rightarrow> bool" where
  "reference_valid a b c t r \<longleftrightarrow>
     rf_open r \<and> \<not> pv_exited a (rf_pid r) \<and> started_of a (rf_pid r) = Some (rf_started r) \<and> owns a b c t (rf_pid r)"

definition close_reference :: "process_reference \<Rightarrow> process_tree \<Rightarrow> process_reference \<times> process_tree" where
  "close_reference r t =
     (if \<not> rf_open r then (r, t) else (r\<lparr>rf_open := False\<rparr>, t\<lparr>pt_references := removeAll (rf_name r) (pt_references t)\<rparr>))"

definition close_tree :: "process_tree \<Rightarrow> process_tree" where
  "close_tree t = t\<lparr>pt_open := False, pt_references := []\<rparr>"

subsection \<open>What ownership means\<close>

text \<open>A descendant of the supervisor: a chain of parents from the process up to a child of the supervisor.\<close>

fun parent_chain :: "process_view \<Rightarrow> int \<Rightarrow> int \<Rightarrow> int list \<Rightarrow> bool" where
  "parent_chain v boss pid [] = False"
| "parent_chain v boss pid [p] \<longleftrightarrow> p = pid \<and> map_option fst (pv_identity v p) = Some boss"
| "parent_chain v boss pid (p # q # ps) \<longleftrightarrow>
     p = pid \<and> map_option fst (pv_identity v p) = Some q \<and> q \<noteq> boss \<and> parent_chain v boss q (q # ps)"

lemma observe_processD:
  "observe_process a b pid = Some observed \<Longrightarrow>
     pv_identity a pid = Some observed \<and> pv_identity b pid = Some observed \<and> pv_opens a pid \<and> \<not> pv_exited b pid"
  by (auto simp: observe_process_def split: option.splits if_splits)

lemma walk_up_chain:
  assumes "walk_up a b c t n pid ancestors"
  shows "\<exists>chain. parent_chain b (pt_pid t) pid chain \<and> parent_chain c (pt_pid t) pid chain \<and> length chain \<le> n \<and>
    distinct chain \<and> set chain \<inter> fst ` set ancestors = {} \<and>
    (\<forall>p \<in> set chain \<union> fst ` set ancestors. 1 < p \<or> p \<in> fst ` set ancestors) \<and>
    (\<forall>p \<in> set chain. \<not> pv_exited c p \<and> pv_identity c p = pv_identity b p) \<and> root_alive c t \<and> still_valid c ancestors"
  using assms
proof (induction n arbitrary: pid ancestors)
  case (Suc n)
  have new: "1 < pid" "pid \<notin> fst ` set ancestors" using Suc.prems by (auto split: if_splits)
  obtain observed where o: "observe_process a b pid = Some observed"
    using Suc.prems new by (cases "observe_process a b pid") (simp_all split: if_splits)
  note seen = observe_processD [OF o]
  let ?more = "ancestors @ [(pid, observed)]"
  show ?case
  proof (cases "fst observed = pt_pid t")
    case True
    with Suc.prems new o have "root_alive c t" "still_valid c ?more" by (simp_all add: Let_def split: if_splits)
    then show ?thesis using True new seen
      by (intro exI [of _ "[pid]"]) (auto simp: still_valid_def)
  next
    case False
    with Suc.prems new o have "walk_up a b c t n (fst observed) ?more" by (simp add: Let_def split: if_splits)
    from Suc.IH [OF this] obtain chain where chain: "parent_chain b (pt_pid t) (fst observed) chain"
      "parent_chain c (pt_pid t) (fst observed) chain" "length chain \<le> n" "distinct chain"
      "set chain \<inter> fst ` set ?more = {}" "\<forall>p \<in> set chain \<union> fst ` set ?more. 1 < p \<or> p \<in> fst ` set ?more"
      "\<forall>p \<in> set chain. \<not> pv_exited c p \<and> pv_identity c p = pv_identity b p" "root_alive c t" "still_valid c ?more"
      by blast
    then obtain q ps where q: "chain = q # ps" by (cases chain) auto
    then have "q = fst observed" using chain(1) by (cases ps) auto
    have pc: "\<not> pv_exited c pid" "pv_identity c pid = Some observed" using chain(9) by (simp_all add: still_valid_def)
    show ?thesis
      using chain new seen q \<open>q = fst observed\<close> False pc
      by (intro exI [of _ "pid # chain"]) (auto simp: still_valid_def)
  qed
qed simp

text \<open>In a table that does not change, a chain of living processes is found.\<close>

lemma walk_up_finds:
  assumes "parent_chain v (pt_pid t) pid chain" "length chain \<le> n" "distinct chain" "root_alive v t"
    "\<forall>p \<in> set chain. 1 < p \<and> pv_opens v p \<and> \<not> pv_exited v p"
    "set chain \<inter> fst ` set ancestors = {}" "still_valid v ancestors"
  shows "walk_up v v v t n pid ancestors"
  using assms
proof (induction chain arbitrary: n pid ancestors)
  case (Cons p chain)
  then obtain m where n: "n = Suc m" by (cases n) auto
  have p: "p = pid" using Cons.prems(1) by (cases chain) auto
  obtain observed where o: "pv_identity v pid = Some observed" using Cons.prems(1) p by (cases chain) auto
  have obs: "observe_process v v pid = Some observed" using o Cons.prems(5) p by (simp add: observe_process_def)
  have more: "still_valid v (ancestors @ [(pid, observed)])"
    using Cons.prems(5,7) o p by (simp add: still_valid_def)
  have new: "1 < pid" "pid \<notin> fst ` set ancestors" using Cons.prems(5,6) p by auto
  show ?case
  proof (cases chain)
    case Nil
    then have "fst observed = pt_pid t" using Cons.prems(1) o p by simp
    then show ?thesis using n new obs more Cons.prems(4) by simp
  next
    case (Cons q ps)
    with \<open>parent_chain v (pt_pid t) pid (p # chain)\<close> o p
    have q: "fst observed = q" "q \<noteq> pt_pid t" "parent_chain v (pt_pid t) q chain" by auto
    have "walk_up v v v t m q (ancestors @ [(pid, observed)])"
      using q Cons.prems n more p by (intro Cons.IH) auto
    with n new obs q show ?thesis by (simp add: Let_def)
  qed
qed simp

subsection \<open>Launched children\<close>

text \<open>
  \<open>LaunchChildren\<close> is the sole wait boundary: \<open>lc_roots\<close> are the registered launchers with their start
  times, \<open>lc_pins\<close> counts the open leases of a launcher, and \<open>lc_reaped\<close> lists what \<open>waitpid\<close>
  released. A lease is named by a number.
\<close>

record lease =
  ls_pid :: int
  ls_started :: int

record children =
  lc_roots :: "(int \<times> int) list"
  lc_pins :: "(int \<times> nat) list"
  lc_leases :: "(nat \<times> lease) list"
  lc_waiting :: bool
  lc_reaped :: "int list"

definition new_children :: children where
  "new_children = \<lparr>lc_roots = [], lc_pins = [], lc_leases = [], lc_waiting = False, lc_reaped = []\<rparr>"

definition register_child :: "process_view \<Rightarrow> int \<Rightarrow> int \<Rightarrow> children \<Rightarrow> children option" where
  "register_child v self pid s =
     (case pv_identity v pid of
        None \<Rightarrow> None
      | Some (parent, started) \<Rightarrow>
          if parent \<noteq> self \<or> map_of (lc_roots s) pid \<noteq> None then None
          else Some (s\<lparr>lc_roots := AList.update pid started (lc_roots s)\<rparr>))"

definition pins_of :: "int \<Rightarrow> children \<Rightarrow> nat" where
  "pins_of pid s = (case map_of (lc_pins s) pid of None \<Rightarrow> 0 | Some n \<Rightarrow> n)"

definition pin_child :: "process_view \<Rightarrow> process_view \<Rightarrow> int \<Rightarrow> nat \<Rightarrow> int \<Rightarrow> children \<Rightarrow> children option" where
  "pin_child a b self name pid s =
     (case map_of (lc_roots s) pid of
        None \<Rightarrow> None
      | Some started \<Rightarrow>
          if pv_identity a pid \<noteq> Some (self, started) \<or> \<not> pv_opens a pid \<or> pv_exited b pid \<or>
             pv_identity b pid \<noteq> Some (self, started)
          then None
          else Some (s\<lparr>lc_pins := AList.update pid (pins_of pid s + 1) (lc_pins s),
                 lc_leases := AList.update name \<lparr>ls_pid = pid, ls_started = started\<rparr> (lc_leases s)\<rparr>))"

text \<open>\<open>ChildLease.close\<close>: a closed lease is no longer in \<open>lc_leases\<close>.\<close>

definition close_lease :: "nat \<Rightarrow> children \<Rightarrow> children" where
  "close_lease name s =
     (case map_of (lc_leases s) name of
        None \<Rightarrow> s
      | Some l \<Rightarrow>
          let n = pins_of (ls_pid l) s - 1
          in s\<lparr>lc_leases := AList.delete name (lc_leases s),
               lc_pins := (if n = 0 then AList.delete (ls_pid l) (lc_pins s) else AList.update (ls_pid l) n (lc_pins s))\<rparr>)"

text \<open>\<open>wait\<close>: its start, one round for the child that \<open>waitid\<close> found, and its end. The round waits until
  the child is not pinned: \<open>None\<close> is still waiting.\<close>

definition start_wait :: "children \<Rightarrow> children option" where
  "start_wait s = (if lc_waiting s then None else Some (s\<lparr>lc_waiting := True\<rparr>))"

definition reap :: "int \<Rightarrow> children \<Rightarrow> children option" where
  "reap pid s =
     (if \<not> lc_waiting s \<or> map_of (lc_pins s) pid \<noteq> None then None
      else Some (s\<lparr>lc_roots := AList.delete pid (lc_roots s), lc_reaped := lc_reaped s @ [pid]\<rparr>))"

definition end_wait :: "children \<Rightarrow> children" where
  "end_wait s = s\<lparr>lc_waiting := False\<rparr>"

definition leases_of :: "int \<Rightarrow> children \<Rightarrow> nat list" where
  "leases_of pid s = map fst (filter (\<lambda>(name, l). ls_pid l = pid) (lc_leases s))"

definition children_ok :: "children \<Rightarrow> bool" where
  "children_ok s \<longleftrightarrow>
     distinct (map fst (lc_leases s)) \<and>
     (\<forall>pid. map_of (lc_pins s) pid = (if leases_of pid s = [] then None else Some (length (leases_of pid s)))) \<and>
     (\<forall>(name, l) \<in> set (lc_leases s). map_of (lc_roots s) (ls_pid l) = Some (ls_started l))"

lemma children_ok_new: "children_ok new_children"
  by (simp add: children_ok_def new_children_def leases_of_def)

lemma pins_of_ok: "children_ok s \<Longrightarrow> pins_of pid s = length (leases_of pid s)"
  by (simp add: children_ok_def pins_of_def)

lemma leases_of_empty: "leases_of pid s = [] \<longleftrightarrow> (\<forall>(name, l) \<in> set (lc_leases s). ls_pid l \<noteq> pid)"
  by (auto simp: leases_of_def filter_empty_conv)

lemma update_new: "map_of al k = None \<Longrightarrow> AList.update k v al = al @ [(k, v)]"
  by (induction al) (auto split: if_splits)

lemma children_ok_register: "children_ok s \<Longrightarrow> register_child v self pid s = Some u \<Longrightarrow> children_ok u"
  by (fastforce simp: register_child_def children_ok_def leases_of_def update_conv' split: option.splits prod.splits if_splits)

lemma children_ok_pin:
  assumes "children_ok s" "pin_child a b self name pid s = Some u" "map_of (lc_leases s) name = None"
  shows "children_ok u"
proof -
  obtain started where r: "map_of (lc_roots s) pid = Some started"
    and u: "u = s\<lparr>lc_pins := AList.update pid (pins_of pid s + 1) (lc_pins s),
                 lc_leases := AList.update name \<lparr>ls_pid = pid, ls_started = started\<rparr> (lc_leases s)\<rparr>"
    using assms(2) by (auto simp: pin_child_def split: option.splits if_splits)
  have l: "lc_leases u = lc_leases s @ [(name, \<lparr>ls_pid = pid, ls_started = started\<rparr>)]"
    using assms(3) by (simp add: u update_new)
  have "leases_of q u = leases_of q s @ (if q = pid then [name] else [])" for q
    by (simp add: leases_of_def l)
  moreover have "map_of (lc_pins u) q = (if q = pid then Some (Suc (length (leases_of pid s))) else map_of (lc_pins s) q)" for q
    by (simp add: u update_conv' pins_of_ok [OF assms(1)])
  moreover have "name \<notin> fst ` set (lc_leases s)" using assms(3) by (simp add: map_of_eq_None_iff)
  moreover have "lc_roots u = lc_roots s" by (simp add: u)
  ultimately show ?thesis using assms(1) r by (auto simp: children_ok_def l)
qed

lemma length_filter_delete:
  "distinct (map fst al) \<Longrightarrow> map_of al k = Some v \<Longrightarrow>
     length (filter P (AList.delete k al)) = length (filter P al) - (if P (k, v) then 1 else 0)"
proof (induction al)
  case (Cons x al)
  obtain j w where x: "x = (j, w)" by (cases x)
  show ?case
  proof (cases "j = k")
    case True
    then have "AList.delete k al = al" using Cons.prems(1) x by (force simp: AList.delete_eq filter_id_conv)
    with True Cons.prems x show ?thesis by simp
  next
    case False
    have "P (k, v) \<Longrightarrow> 0 < length (filter P al)"
      using Cons.prems x False by (auto simp: length_greater_0_conv filter_empty_conv dest: map_of_SomeD)
    with False Cons x show ?thesis by auto
  qed
qed simp

lemma children_ok_close: "children_ok s \<Longrightarrow> children_ok (close_lease name s)"
proof (cases "map_of (lc_leases s) name")
  case (Some l)
  assume ok: "children_ok s"
  let ?u = "close_lease name s" and ?p = "ls_pid l"
  have d: "distinct (map fst (lc_leases s))" using ok by (simp add: children_ok_def)
  have leases: "lc_leases ?u = AList.delete name (lc_leases s)"
    and pins: "lc_pins ?u = (if pins_of ?p s - 1 = 0 then AList.delete ?p (lc_pins s) else AList.update ?p (pins_of ?p s - 1) (lc_pins s))"
    and roots: "lc_roots ?u = lc_roots s"
    using Some by (simp_all add: close_lease_def Let_def)
  have len: "length (leases_of q ?u) = length (leases_of q s) - (if q = ?p then 1 else 0)" for q
    using length_filter_delete [OF d Some, of "\<lambda>(name, l). ls_pid l = q"] by (simp add: leases_of_def leases)
  have here: "0 < length (leases_of ?p s)"
    using Some by (auto simp: leases_of_def length_greater_0_conv filter_empty_conv dest: map_of_SomeD)
  have "map_of (lc_pins ?u) q = (if leases_of q ?u = [] then None else Some (length (leases_of q ?u)))" for q
  proof (cases "q = ?p")
    case True
    have "map_of (lc_pins ?u) ?p = (if length (leases_of ?p s) - 1 = 0 then None else Some (length (leases_of ?p s) - 1))"
      unfolding pins pins_of_ok [OF ok] by (simp add: update_conv' delete_conv')
    then show ?thesis unfolding True using len [of ?p] by (cases "leases_of ?p ?u") simp_all
  next
    case False
    then have "map_of (lc_pins ?u) q = map_of (lc_pins s) q" unfolding pins by (simp add: update_conv' delete_conv')
    moreover have "length (leases_of q ?u) = length (leases_of q s)" using len [of q] False by simp
    moreover have "map_of (lc_pins s) q = (if leases_of q s = [] then None else Some (length (leases_of q s)))"
      using ok by (simp add: children_ok_def)
    ultimately show ?thesis by (cases "leases_of q s"; cases "leases_of q ?u") simp_all
  qed
  moreover have "distinct (map fst (lc_leases ?u))" unfolding leases using d by (rule distinct_delete)
  moreover have "\<forall>(n, l) \<in> set (lc_leases ?u). map_of (lc_roots ?u) (ls_pid l) = Some (ls_started l)"
    using ok unfolding leases roots by (auto simp: children_ok_def AList.delete_eq)
  ultimately show ?thesis by (simp add: children_ok_def)
qed (simp add: close_lease_def)

lemma children_ok_reap:
  assumes "children_ok s" "reap pid s = Some u"
  shows "children_ok u \<and> leases_of pid s = []"
proof -
  have free: "map_of (lc_pins s) pid = None" and u: "u = s\<lparr>lc_roots := AList.delete pid (lc_roots s), lc_reaped := lc_reaped s @ [pid]\<rparr>"
    using assms(2) by (auto simp: reap_def split: if_splits)
  from free assms(1) have empty: "leases_of pid s = []" by (simp add: children_ok_def split: if_splits)
  then have "\<forall>(name, l) \<in> set (lc_leases s). map_of (AList.delete pid (lc_roots s)) (ls_pid l) = Some (ls_started l)"
    using assms(1) by (auto simp: children_ok_def leases_of_empty delete_conv')
  with assms(1) empty show ?thesis by (simp add: children_ok_def u leases_of_def)
qed

subsection \<open>Runs of the supervisor\<close>

datatype child_op =
    Register_child process_view int int
  | Pin_child process_view process_view int nat int
  | Close_lease nat
  | Start_wait
  | Reap int
  | End_wait

text \<open>An operation that raises, or a round that still waits, changes nothing; lease names are fresh.\<close>

primrec child_step :: "child_op \<Rightarrow> children \<Rightarrow> children" where
  "child_step (Register_child v self pid) s = (case register_child v self pid s of None \<Rightarrow> s | Some u \<Rightarrow> u)"
| "child_step (Pin_child a b self name pid) s =
     (if map_of (lc_leases s) name \<noteq> None then s else case pin_child a b self name pid s of None \<Rightarrow> s | Some u \<Rightarrow> u)"
| "child_step (Close_lease name) s = close_lease name s"
| "child_step Start_wait s = (case start_wait s of None \<Rightarrow> s | Some u \<Rightarrow> u)"
| "child_step (Reap pid) s = (case reap pid s of None \<Rightarrow> s | Some u \<Rightarrow> u)"
| "child_step End_wait s = end_wait s"

lemma children_ok_waiting [simp]: "children_ok (s\<lparr>lc_waiting := w\<rparr>) = children_ok s"
  by (simp add: children_ok_def leases_of_def)

lemma children_ok_step:
  assumes "children_ok s"
  shows "children_ok (child_step op s)"
proof (cases op)
  case (Register_child v self pid)
  with assms children_ok_register [of s v self pid] show ?thesis by (cases "register_child v self pid s") simp_all
next
  case (Pin_child a b self name pid)
  with assms children_ok_pin [of s a b self name pid] show ?thesis
    by (cases "pin_child a b self name pid s"; cases "map_of (lc_leases s) name") simp_all
next
  case (Reap pid)
  with assms children_ok_reap [of s pid] show ?thesis by (cases "reap pid s") simp_all
qed (use assms children_ok_close in \<open>simp_all add: start_wait_def end_wait_def\<close>)

lemma children_ok_run: "children_ok s \<Longrightarrow> children_ok (fold child_step ops s)"
  by (induction ops arbitrary: s) (simp_all add: children_ok_step)

subsection \<open>Properties\<close>

text \<open>C19: A window or a bus peer is admitted only as a descendant of the supervisor: if \<open>owns\<close> says yes, there is
  a chain of at most 128 distinct processes from it to a child of the supervisor, the same when each
  was pinned and when all were validated, every one alive at that validation, and the supervisor
  itself alive with the recorded start time.\<close>
theorem owned_process_descends:
  assumes "owns a b c t pid"
  shows "\<exists>chain. parent_chain b (pt_pid t) pid chain \<and> parent_chain c (pt_pid t) pid chain \<and>
    length chain \<le> 128 \<and> distinct chain \<and> (\<forall>p \<in> set chain. \<not> pv_exited c p) \<and> root_alive c t \<and> pid \<noteq> pt_pid t"
proof -
  have "walk_up a b c t 128 pid []" "pid \<noteq> pt_pid t" using assms by (auto simp: owns_def split: if_splits)
  with walk_up_chain [of a b c t 128 pid "[]"] show ?thesis by auto
qed

text \<open>In a process table that does not change, the walk is exact: it finds every living descendant within
  128 generations, and nothing else.\<close>
theorem owns_exact:
  assumes "pt_open t" "root_alive v t" "\<forall>p > 1. pv_opens v p \<and> \<not> pv_exited v p"
  shows "owns v v v t pid \<longleftrightarrow> pid \<noteq> pt_pid t \<and>
    (\<exists>chain. parent_chain v (pt_pid t) pid chain \<and> length chain \<le> 128 \<and> distinct chain \<and> (\<forall>p \<in> set chain. 1 < p))"
proof
  assume o: "owns v v v t pid"
  then have "walk_up v v v t 128 pid []" "pid \<noteq> pt_pid t" by (auto simp: owns_def split: if_splits)
  with walk_up_chain [of v v v t 128 pid "[]"]
  show "pid \<noteq> pt_pid t \<and> (\<exists>chain. parent_chain v (pt_pid t) pid chain \<and> length chain \<le> 128 \<and> distinct chain \<and> (\<forall>p \<in> set chain. 1 < p))"
    by auto
next
  assume r: "pid \<noteq> pt_pid t \<and>
    (\<exists>chain. parent_chain v (pt_pid t) pid chain \<and> length chain \<le> 128 \<and> distinct chain \<and> (\<forall>p \<in> set chain. 1 < p))"
  then obtain chain where chain: "parent_chain v (pt_pid t) pid chain" "length chain \<le> 128" "distinct chain" "\<forall>p \<in> set chain. 1 < p"
    by blast
  then have "\<forall>p \<in> set chain. 1 < p \<and> pv_opens v p \<and> \<not> pv_exited v p" using assms(3) by simp
  with chain assms have "walk_up v v v t 128 pid []" by (intro walk_up_finds [of v t pid chain]) (simp_all add: still_valid_def)
  with r assms show "owns v v v t pid" by (simp add: owns_def)
qed

text \<open>However launches, host-service requests and the wait loop interleave, a launcher whose identity is
  leased stays registered with the start time of its lease, is not reaped, and its leases are counted
  exactly.\<close>
theorem leased_child_not_reaped:
  assumes "(name, l) \<in> set (lc_leases (fold child_step ops new_children))"
  shows "map_of (lc_roots (fold child_step ops new_children)) (ls_pid l) = Some (ls_started l) \<and>
    reap (ls_pid l) (fold child_step ops new_children) = None \<and>
    pins_of (ls_pid l) (fold child_step ops new_children) = length (leases_of (ls_pid l) (fold child_step ops new_children))"
proof -
  let ?s = "fold child_step ops new_children"
  have ok: "children_ok ?s" by (rule children_ok_run [OF children_ok_new])
  have "map_of (lc_roots ?s) (ls_pid l) = Some (ls_started l)" using ok assms by (auto simp: children_ok_def)
  moreover have "leases_of (ls_pid l) ?s \<noteq> []" using assms by (auto simp: leases_of_empty)
  moreover from this have "reap (ls_pid l) ?s = None" using ok by (simp add: reap_def children_ok_def)
  ultimately show ?thesis using pins_of_ok [OF ok] by simp
qed

definition small_table :: process_view where
  "small_table = \<lparr>pv_identity = (\<lambda>p. if p = 20 then Some (10, 3) else if p = 10 then Some (5, 2) else if p = 5 then Some (1, 1) else None),
     pv_exited = (\<lambda>p. False), pv_opens = (\<lambda>p. True)\<rparr>"

definition small_tree :: process_tree where
  "small_tree = \<lparr>pt_pid = 5, pt_started = 1, pt_open = True, pt_references = []\<rparr>"

lemma small_owns: "owns small_table small_table small_table small_tree 20"
  by code_simp

lemma owned_process_descends_witness:
  "\<exists>chain. parent_chain small_table 5 20 chain \<and> length chain \<le> 128"
  using owned_process_descends [OF small_owns] by (auto simp: small_tree_def)

lemma owns_exact_witness:
  "owns small_table small_table small_table small_tree 20 \<longleftrightarrow> 20 \<noteq> pt_pid small_tree \<and>
    (\<exists>chain. parent_chain small_table (pt_pid small_tree) 20 chain \<and> length chain \<le> 128 \<and> distinct chain \<and> (\<forall>p \<in> set chain. 1 < p))"
  by (rule owns_exact) (simp_all add: small_tree_def small_table_def root_alive_def started_of_def)

lemma leased_child_not_reaped_witness:
  "reap 10 (fold child_step [Register_child small_table 5 10, Pin_child small_table small_table 5 0 10, Start_wait] new_children) = None"
proof -
  have "(0, \<lparr>ls_pid = 10, ls_started = 2\<rparr>) \<in>
      set (lc_leases (fold child_step [Register_child small_table 5 10, Pin_child small_table small_table 5 0 10, Start_wait] new_children))"
    by (simp add: register_child_def pin_child_def small_table_def new_children_def pins_of_def start_wait_def)
  from leased_child_not_reaped [OF this] show ?thesis by simp
qed

end
