(* ===== verification/Scope.thy ===== *)
theory Scope
  imports Processes
begin

section \<open>The constrained scope service (application\_scope.py)\<close>

text \<open>
  A private \<open>org.freedesktop.systemd1\<close> forwards one kind of request to the user's real systemd: an
  admitted launcher moves itself into a new scope. The launcher's identity is leased
  (\<open>Processes.pin_child\<close>) until systemd is done with its numeric PID, so the lease is part of the
  pending request. The buses are not modelled: what a call to them answers is an argument, and what
  the service sends is listed in \<open>sv_replies\<close> (the answer to an invocation), \<open>sv_signals\<close> (the relayed
  \<open>JobRemoved\<close>) and \<open>sv_records\<close>. A pending request is named by its lease, which is never reused.
\<close>

subsection \<open>Checking a request\<close>

definition lower_digit :: "nat \<Rightarrow> bool" where
  "lower_digit c \<longleftrightarrow> 97 \<le> c \<and> c \<le> 122 \<or> 48 \<le> c \<and> c \<le> 57 \<or> c = 95 \<or> c = 45"

definition letter_digit :: "nat \<Rightarrow> bool" where
  "letter_digit c \<longleftrightarrow> lower_digit c \<or> 65 \<le> c \<and> c \<le> 90"

definition hex_code :: "nat \<Rightarrow> bool" where
  "hex_code c \<longleftrightarrow> 48 \<le> c \<and> c \<le> 57 \<or> 97 \<le> c \<and> c \<le> 102"

text \<open>\<open>snap\.[a-z0-9_-]+\.[a-zA-Z0-9_-]+\<close>: neither class contains the dot.\<close>

definition security_tag_ok :: "pystr \<Rightarrow> bool" where
  "security_tag_ok tag =
     (let rest = drop 5 tag; name = takeWhile lower_digit rest; tail = drop (length name) rest
      in take 5 tag = py ''snap.'' \<and> name \<noteq> [] \<and>
         (case tail of [] \<Rightarrow> False | c # app \<Rightarrow> c = 46 \<and> app \<noteq> [] \<and> list_all letter_digit app))"

definition uuid_ok :: "pystr \<Rightarrow> bool" where
  "uuid_ok u \<longleftrightarrow> length u = 36 \<and>
     list_all (\<lambda>(i, c). if i \<in> {8, 13, 18, 23} then c = 45 else hex_code c) (enumerate 0 u)"

definition unit_ok :: "pystr \<Rightarrow> pystr \<Rightarrow> bool" where
  "unit_ok tag unit =
     (let rest = drop (length tag + 1) unit
      in take (length tag + 1) unit = tag @ [45] \<and> uuid_ok (take 36 rest) \<and> drop 36 rest = py ''.scope'')"

text \<open>
  The unpacked call: unit, mode, properties (name and variant) and auxiliary units. \<open>None\<close> is the
  \<open>ValueError\<close> (or the \<open>TypeError\<close> or \<open>KeyError\<close> of a variant of another shape, which \<open>call\<close> catches
  as well).
\<close>

record scope_request =
  sr_unit :: pystr
  sr_mode :: pystr
  sr_properties :: "(pystr \<times> pyval) list"
  sr_auxiliary :: "pyval list"

definition validate_request :: "pystr \<Rightarrow> int \<Rightarrow> scope_request \<Rightarrow> pystr option" where
  "validate_request tag caller r =
     (if \<not> security_tag_ok tag \<or> \<not> unit_ok tag (sr_unit r) \<or> sr_mode r \<noteq> py ''fail'' \<or> sr_auxiliary r \<noteq> [] then None
      else
        case sr_properties r of
          [(key, PList [PInt pid])] \<Rightarrow> if key = py ''PIDs'' \<and> pid = caller then Some (sr_unit r) else None
        | _ \<Rightarrow> None)"

subsection \<open>The service\<close>

datatype scope_reply =
    Scope_job pystr
  | Access_denied
  | Scope_failed pystr
  | Service_ended

record scope_state =
  ss_lease :: nat
  ss_pid :: int
  ss_sender :: pystr
  ss_invocation :: "nat option"
  ss_job :: "pystr option"
  ss_early :: "(pystr \<times> pystr) option"
  ss_uncertain :: bool

record service =
  sv_tag :: pystr
  sv_children :: children
  sv_pending :: "(pystr \<times> scope_state) list"
  sv_admitted :: "int list"
  sv_replies :: "(nat \<times> scope_reply) list"
  sv_signals :: "(pystr \<times> pystr \<times> pystr) list"
  sv_records :: "(string \<times> int) list"

text \<open>What the private bus knows of the caller (\<open>None\<close>: the call failed), and the two reads of the pin.\<close>

record caller_view =
  cv_credentials :: "(int \<times> int) option"
  cv_uid :: int
  cv_self :: int
  cv_before :: process_view
  cv_after :: process_view

definition sv_reply :: "nat \<Rightarrow> scope_reply \<Rightarrow> service \<Rightarrow> service" where
  "sv_reply invocation r s = s\<lparr>sv_replies := sv_replies s @ [(invocation, r)]\<rparr>"

definition admit_request :: "caller_view \<Rightarrow> string \<Rightarrow> scope_request \<Rightarrow> nat \<Rightarrow> service \<Rightarrow> (int \<times> pystr \<times> children) option" where
  "admit_request v method r name s =
     (if method \<noteq> ''StartTransientUnit'' \<or> 8 \<le> length (sv_admitted s) then None
      else
        case cv_credentials v of
          None \<Rightarrow> None
        | Some (pid, uid) \<Rightarrow>
            if uid \<noteq> cv_uid v \<or> pid \<in> set (sv_admitted s) then None
            else
              (case validate_request (sv_tag s) pid r of
                 None \<Rightarrow> None
               | Some unit \<Rightarrow>
                   if map_of (sv_pending s) unit \<noteq> None then None
                   else map_option (\<lambda>ch. (pid, unit, ch)) (pin_child (cv_before v) (cv_after v) (cv_self v) name pid (sv_children s))))"

text \<open>\<open>call\<close>; when the request is admitted it goes to systemd, whose answer is \<open>sv_completed\<close>.\<close>

definition sv_call :: "caller_view \<Rightarrow> string \<Rightarrow> pystr \<Rightarrow> scope_request \<Rightarrow> nat \<Rightarrow> nat \<Rightarrow> service \<Rightarrow> service" where
  "sv_call v method sender r invocation name s =
     (case admit_request v method r name s of
        None \<Rightarrow> sv_reply invocation Access_denied s
      | Some (pid, unit, ch) \<Rightarrow>
          s\<lparr>sv_children := ch, sv_admitted := sv_admitted s @ [pid],
            sv_pending := AList.update unit \<lparr>ss_lease = name, ss_pid = pid, ss_sender = sender,
              ss_invocation = Some invocation, ss_job = None, ss_early = None, ss_uncertain = False\<rparr> (sv_pending s)\<rparr>)"

definition sv_retire :: "pystr \<Rightarrow> service \<Rightarrow> service" where
  "sv_retire unit s =
     (case map_of (sv_pending s) unit of
        None \<Rightarrow> s
      | Some st \<Rightarrow> s\<lparr>sv_pending := AList.delete unit (sv_pending s), sv_children := close_lease (ss_lease st) (sv_children s)\<rparr>)"

definition sv_put :: "pystr \<Rightarrow> scope_state \<Rightarrow> service \<Rightarrow> service" where
  "sv_put unit st s = s\<lparr>sv_pending := AList.update unit st (sv_pending s)\<rparr>"

text \<open>\<open>reply_error\<close>.\<close>

definition sv_reply_error :: "pystr \<Rightarrow> scope_reply \<Rightarrow> service \<Rightarrow> service" where
  "sv_reply_error unit e s =
     (case map_of (sv_pending s) unit of
        None \<Rightarrow> s
      | Some st \<Rightarrow>
          (case ss_invocation st of
             None \<Rightarrow> s
           | Some n \<Rightarrow> sv_put unit (st\<lparr>ss_invocation := None\<rparr>) (sv_reply n e s)))"

text \<open>\<open>relay\<close> of the job path and the result in \<open>parameters\<close>; the emission may raise, the request is
  retired all the same.\<close>

definition sv_relay :: "bool \<Rightarrow> pystr \<Rightarrow> pystr \<Rightarrow> pystr \<Rightarrow> service \<Rightarrow> service" where
  "sv_relay emits unit job result s =
     (case map_of (sv_pending s) unit of
        None \<Rightarrow> s
      | Some st \<Rightarrow>
          if ss_job st \<noteq> Some job then s
          else sv_retire unit
                 (if emits then s\<lparr>sv_signals := sv_signals s @ [(ss_sender st, job, result)],
                     sv_records := sv_records s @ [(''scope-completed'', ss_pid st)]\<rparr>
                  else s))"

datatype systemd_answer = Job_created pystr | Job_error "pystr option"

definition systemd_error :: "pystr \<Rightarrow> bool" where
  "systemd_error name \<longleftrightarrow> take 25 name = py ''org.freedesktop.systemd1.''"

text \<open>The closure \<open>completed\<close> of the request with this lease.\<close>

definition sv_completed :: "bool \<Rightarrow> pystr \<Rightarrow> nat \<Rightarrow> systemd_answer \<Rightarrow> service \<Rightarrow> service" where
  "sv_completed emits unit name answer s =
     (case map_of (sv_pending s) unit of
        None \<Rightarrow> s
      | Some st \<Rightarrow>
          if ss_lease st \<noteq> name then s
          else
            case answer of
              Job_error e \<Rightarrow>
                let s1 = sv_reply_error unit (Scope_failed (case e of None \<Rightarrow> py ''org.freedesktop.DBus.Error.Failed'' | Some n \<Rightarrow> n)) s
                in (case e of
                      Some n \<Rightarrow>
                        if systemd_error n then sv_retire unit s1
                        else if ss_early st \<noteq> None then sv_retire unit s1
                        else sv_put unit (st\<lparr>ss_invocation := None, ss_uncertain := True\<rparr>) s1
                    | None \<Rightarrow>
                        if ss_early st \<noteq> None then sv_retire unit s1
                        else sv_put unit (st\<lparr>ss_invocation := None, ss_uncertain := True\<rparr>) s1)
            | Job_created job \<Rightarrow>
                let s1 = (case ss_invocation st of None \<Rightarrow> s | Some n \<Rightarrow> sv_reply n (Scope_job job) s);
                    s2 = sv_put unit (st\<lparr>ss_job := Some job, ss_invocation := None\<rparr>) s1;
                    s3 = s2\<lparr>sv_records := sv_records s2 @ [(''scope-accepted'', ss_pid st)]\<rparr>
                in (case ss_early st of None \<Rightarrow> s3 | Some (j, result) \<Rightarrow> sv_relay emits unit j result s3))"

definition sv_job_removed :: "bool \<Rightarrow> pystr \<Rightarrow> pystr \<Rightarrow> pystr \<Rightarrow> service \<Rightarrow> service" where
  "sv_job_removed emits unit job result s =
     (case map_of (sv_pending s) unit of
        None \<Rightarrow> s
      | Some st \<Rightarrow>
          if ss_uncertain st then sv_retire unit s
          else if ss_job st = None then sv_put unit (st\<lparr>ss_early := Some (job, result)\<rparr>) s
          else sv_relay emits unit job result s)"

text \<open>\<open>owner_changed\<close> when the real systemd's unique name has no owner any more.\<close>

definition sv_owner_lost :: "service \<Rightarrow> service" where
  "sv_owner_lost s = fold (\<lambda>unit u. sv_retire unit (sv_reply_error unit Service_ended u)) (map fst (sv_pending s)) s"

text \<open>\<open>close\<close> refuses while a request is pending.\<close>

definition sv_can_close :: "service \<Rightarrow> bool" where
  "sv_can_close s \<longleftrightarrow> sv_pending s = []"

subsection \<open>Invariant\<close>

text \<open>
  Every pending request holds its own open lease, of the launcher that asked and at that launcher's
  registered start time; an answered request has no invocation left.
\<close>

definition lease_held :: "service \<Rightarrow> scope_state \<Rightarrow> bool" where
  "lease_held s st \<longleftrightarrow> (case map_of (lc_leases (sv_children s)) (ss_lease st) of None \<Rightarrow> False | Some l \<Rightarrow> ls_pid l = ss_pid st)"

definition service_ok :: "service \<Rightarrow> bool" where
  "service_ok s \<longleftrightarrow>
     children_ok (sv_children s) \<and> distinct (map fst (sv_pending s)) \<and>
     distinct (map (ss_lease \<circ> snd) (sv_pending s)) \<and> list_all (lease_held s \<circ> snd) (sv_pending s) \<and>
     length (sv_admitted s) \<le> 8 \<and> distinct (sv_admitted s)"

datatype scope_event =
    Scope_call caller_view string pystr scope_request nat nat
  | Scope_completed bool pystr nat systemd_answer
  | Job_removed bool pystr pystr pystr
  | Owner_lost
  | Child_event child_op

text \<open>The supervisor's own steps; only the service closes its leases, and a lease's name is fresh.\<close>

definition own_lease :: "child_op \<Rightarrow> bool" where
  "own_lease op = (case op of Close_lease n \<Rightarrow> True | Pin_child a b self n p \<Rightarrow> True | _ \<Rightarrow> False)"

primrec scope_step :: "scope_event \<Rightarrow> service \<Rightarrow> service" where
  "scope_step (Scope_call v method sender r invocation name) s =
     (if map_of (lc_leases (sv_children s)) name \<noteq> None then s else sv_call v method sender r invocation name s)"
| "scope_step (Scope_completed emits unit name answer) s = sv_completed emits unit name answer s"
| "scope_step (Job_removed emits unit job result) s = sv_job_removed emits unit job result s"
| "scope_step Owner_lost s = sv_owner_lost s"
| "scope_step (Child_event op) s = (if own_lease op then s else s\<lparr>sv_children := child_step op (sv_children s)\<rparr>)"

definition new_service :: "pystr \<Rightarrow> service" where
  "new_service tag = \<lparr>sv_tag = tag, sv_children = new_children, sv_pending = [], sv_admitted = [], sv_replies = [],
     sv_signals = [], sv_records = []\<rparr>"


lemma lease_held_same: "sv_children u = sv_children s \<Longrightarrow> lease_held u = lease_held s"
  by (simp add: lease_held_def fun_eq_iff)

lemma service_ok_same:
  "sv_children u = sv_children s \<Longrightarrow> sv_pending u = sv_pending s \<Longrightarrow> sv_admitted u = sv_admitted s \<Longrightarrow>
     service_ok u = service_ok s"
  by (simp add: service_ok_def lease_held_same [of u s])

lemma service_ok_fields [simp]:
  "service_ok (s\<lparr>sv_replies := x\<rparr>) = service_ok s" "service_ok (s\<lparr>sv_signals := y\<rparr>) = service_ok s"
  "service_ok (s\<lparr>sv_records := z\<rparr>) = service_ok s"
  by (rule service_ok_same; simp)+

lemma service_ok_reply [simp]: "service_ok (sv_reply n r s) = service_ok s"
  by (simp add: sv_reply_def)














lemma admit_request_some:
  assumes "admit_request v method r name s = Some (pid, unit, ch)"
  shows "length (sv_admitted s) < 8" "pid \<notin> set (sv_admitted s)" "map_of (sv_pending s) unit = None"
    "pin_child (cv_before v) (cv_after v) (cv_self v) name pid (sv_children s) = Some ch"
    "validate_request (sv_tag s) pid r = Some unit" "cv_credentials v = Some (pid, cv_uid v)"
  using assms by (auto simp: admit_request_def split: if_splits option.splits prod.splits)





subsection \<open>Properties\<close>


text \<open>A request that the service forwards names one new scope of the admitted package and moves one
  process, its caller, which belongs to the service's user and was never admitted before.\<close>
theorem forwarded_request_is_own_scope:
  assumes "admit_request v method r name s = Some (pid, unit, ch)"
  shows "method = ''StartTransientUnit'' \<and> cv_credentials v = Some (pid, cv_uid v) \<and> pid \<notin> set (sv_admitted s) \<and>
    sr_properties r = [(py ''PIDs'', PList [PInt pid])] \<and> sr_auxiliary r = [] \<and> sr_mode r = py ''fail'' \<and>
    sr_unit r = unit \<and> security_tag_ok (sv_tag s) \<and> unit_ok (sv_tag s) unit \<and> map_of (sv_pending s) unit = None"
proof -
  note a = admit_request_some [OF assms]
  have "method = ''StartTransientUnit''" using assms by (simp add: admit_request_def split: if_splits)
  with a show ?thesis
    by (auto simp: validate_request_def split: if_splits list.splits prod.splits pyval.splits)
qed

definition sample_tag :: pystr where "sample_tag = py ''snap.a.b''"

definition sample_unit :: pystr where
  "sample_unit = sample_tag @ [45] @ replicate 8 48 @ [45] @ replicate 4 49 @ [45] @ replicate 4 50 @ [45] @ replicate 4 51 @ [45] @
     replicate 12 97 @ py ''.scope''"

definition sample_request :: scope_request where
  "sample_request = \<lparr>sr_unit = sample_unit, sr_mode = py ''fail'', sr_properties = [(py ''PIDs'', PList [PInt 10])], sr_auxiliary = []\<rparr>"

definition sample_caller :: caller_view where
  "sample_caller = \<lparr>cv_credentials = Some (10, 1000), cv_uid = 1000, cv_self = 5, cv_before = small_table, cv_after = small_table\<rparr>"

lemma sample_valid: "validate_request sample_tag 10 sample_request = Some sample_unit"
  by code_simp

definition registered_service :: service where
  "registered_service = scope_step (Child_event (Register_child small_table 5 10)) (new_service sample_tag)"


lemma sample_registered:
  "sv_children registered_service = new_children\<lparr>lc_roots := [(10, 2)]\<rparr>" "sv_tag registered_service = sample_tag"
  "sv_pending registered_service = []" "sv_admitted registered_service = []"
  by (simp_all add: registered_service_def new_service_def own_lease_def register_child_def small_table_def new_children_def)

lemma sample_admitted:
  "\<exists>ch. admit_request sample_caller ''StartTransientUnit'' sample_request 0 registered_service = Some (10, sample_unit, ch)"
  by (simp add: admit_request_def sample_registered sample_valid sample_caller_def pin_child_def small_table_def new_children_def
      pins_of_def)

lemma forwarded_request_is_own_scope_witness:
  "unit_ok sample_tag sample_unit \<and> sr_properties sample_request = [(py ''PIDs'', PList [PInt 10])]"
proof -
  obtain ch where a: "admit_request sample_caller ''StartTransientUnit'' sample_request 0 registered_service = Some (10, sample_unit, ch)"
    using sample_admitted by blast
  from forwarded_request_is_own_scope [OF a] show ?thesis by (simp add: sample_registered)
qed


end
