(* ===== verification/Attachment.thy ===== *)
theory Attachment
  imports Input_Order Native_Input Capture
begin

section \<open>A viewer's attachment (desktop\_attachment.py)\<close>

text \<open>
  \<open>DesktopAttachment\<close> decides what a viewer may do to the application's windows: it sends frames,
  waits for the viewer to acknowledge that a frame was painted, and only then lets input for that
  frame's target through the ordered scheduler to the native backend. It also paces the frames.

  The native backend and the viewer's connection are given by \<open>backend\<close>: what each call to them
  answers, on the state \<open>'n\<close> of everything outside the attachment. A call may call the attachment back
  before it returns (a lost channel retires the target, a capture completes at once): those calls are
  its notices, handled when the call has changed the outside. The handling calls the backend again, so
  it nests; the nesting is bounded by a number every theorem leaves free. \<open>release\<close>, \<open>refine\<close>,
  \<open>configure_stream\<close>, \<open>unregister_attachment\<close> and \<open>register_attachment\<close> are taken not to raise, and
  what a text adapter's \<open>commit\<close> or \<open>cancel\<close> makes the backend notify arrives as a step of its own.
  Targets are compared by value (\<open>Native_View\<close>).
\<close>

subsection \<open>The outside\<close>

datatype native_call =
    Register_viewer int
  | Unregister_viewer
  | Configure_stream string
  | Refine
  | Select_window int
  | Close_window int
  | Deliver int native_target operation
  | Release int
  | Sync_clipboard int native_target
  | Capture_target native_target nat
  | Terminate_application

text \<open>\<open>Call_raises\<close> is any exception of the call.\<close>

datatype native_answer = Call_value int | Call_raises

datatype viewer_notice =
    Scene_notice
  | Metadata_notice
  | Damage_notice
  | Cursor_notice
  | Clipboard_notice native_target int "pystr option"
  | Captured_notice nat capture_result

datatype reply_body = Result pyval | Failed code

record frame_message =
  fm_description :: frame_description
  fm_sequence :: int
  fm_connection :: int
  fm_target :: native_target
  fm_base :: int

datatype viewer_message =
    Attached_message int pyval
  | State_message int pyval
  | Reply_message int reply_body
  | Capture_unavailable
  | Clipboard_message int native_target "pystr option"
  | Frame_message frame_message bytes
  | Cursor_message int "(nat \<times> pyval \<times> bytes) option" int

datatype text_route = Native_contexts | Native_clipboard

datatype context_answer = Context_token nat | No_context | Context_raises

datatype send_answer = Sent | Unsent | Connection_lost

text \<open>
  \<open>bk_send\<close> queues the message, refuses it, or closes the connection, which detaches the viewer. A cursor is named by a number, its tuple's identity.
\<close>

record 'n backend =
  bk_call :: "native_call \<Rightarrow> 'n \<Rightarrow> native_answer \<times> viewer_notice list \<times> 'n"
  bk_target :: "'n \<Rightarrow> native_target option"
  bk_snapshot :: "'n \<Rightarrow> pyval"
  bk_cursor :: "'n \<Rightarrow> (nat \<times> pyval \<times> bytes) option"
  bk_cursor_revision :: "'n \<Rightarrow> int"
  bk_context :: "native_target \<Rightarrow> 'n \<Rightarrow> context_answer \<times> 'n"
  bk_clipboard_token :: "native_target \<Rightarrow> 'n \<Rightarrow> nat option"
  bk_commit :: "text_route \<Rightarrow> nat option \<Rightarrow> pystr \<Rightarrow> nat \<Rightarrow> 'n \<Rightarrow> commit_outcome \<times> 'n"
  bk_cancel :: "text_route \<Rightarrow> nat option \<Rightarrow> 'n \<Rightarrow> 'n"
  bk_send :: "nat \<Rightarrow> viewer_message \<Rightarrow> 'n \<Rightarrow> send_answer \<times> 'n"
  bk_disconnect :: "nat \<Rightarrow> 'n \<Rightarrow> 'n"
  bk_frame_pending :: "nat \<Rightarrow> 'n \<Rightarrow> bool"
  bk_cursor_pending :: "nat \<Rightarrow> 'n \<Rightarrow> bool"
  bk_terminates :: bool

subsection \<open>The attachment's state\<close>

datatype view_timer = Refine_timer nat native_target | Cadence_timer

text \<open>
  The scheduler \<open>self.order\<close> holds this record as its client's state. A capture's ticket tuple is named
  by a number, a timer by another; \<open>vw_timers\<close> lists the live ones. \<open>vw_painted\<close> (the frames acknowledged
  in this connection), \<open>vw_sent\<close> and \<open>vw_calls\<close> (the native calls, with the target that was ready, the
  one the backend had and what was painted) record what happened; only theorems read them.
\<close>

record call_record =
  cr_call :: native_call
  cr_ready :: "native_target option"
  cr_target :: "native_target option"
  cr_painted :: "(int \<times> native_target) list"

record 'n viewer =
  vw_native :: 'n
  vw_owner :: "nat option"
  vw_epoch :: int
  vw_last_request :: int
  vw_native_epoch :: int
  vw_controls :: "nat \<Rightarrow> bool"
  vw_ready :: "native_target option"
  vw_capture :: "(nat \<times> nat \<times> native_target) option"
  vw_tickets :: nat
  vw_awaiting :: "(int \<times> native_target) list"
  vw_mode :: "string option"
  vw_capacity :: nat
  vw_refinement :: "nat option"
  vw_cadence :: "nat option"
  vw_timers :: "(nat \<times> view_timer) list"
  vw_next_timer :: nat
  vw_lossy :: bool
  vw_frame_sequence :: int
  vw_dirty :: bool
  vw_failed :: bool
  vw_cursor_sent :: "nat option"
  vw_painted :: "(int \<times> native_target) list"
  vw_calls :: "call_record list"
  vw_sent :: "(nat \<times> viewer_message) list"

datatype viewer_op = Close_op int int | Input_op native_target int operation

type_synonym 'n attachment = "(nat, viewer_op, text_route, nat option, 'n viewer) order"

type_synonym 'n attachment_op = "'n attachment \<Rightarrow> 'n attachment"

text \<open>What an operation of the attachment is given: the outside, how a call's notices are handled, and
  the drain the scheduler's callbacks may use.\<close>

record 'n setting =
  st_backend :: "'n backend"
  st_notify :: "viewer_notice list \<Rightarrow> 'n attachment_op"
  st_drain :: "'n attachment_op"
  st_rounds :: nat

definition new_viewer :: "'n \<Rightarrow> int \<Rightarrow> (nat \<Rightarrow> bool) \<Rightarrow> 'n viewer" where
  "new_viewer n epoch controls =
     \<lparr>vw_native = n, vw_owner = None, vw_epoch = epoch, vw_last_request = 0, vw_native_epoch = 0, vw_controls = controls,
      vw_ready = None, vw_capture = None, vw_tickets = 0, vw_awaiting = [], vw_mode = None, vw_capacity = 1,
      vw_refinement = None, vw_cadence = None, vw_timers = [], vw_next_timer = 0, vw_lossy = False, vw_frame_sequence = 0,
      vw_dirty = False, vw_failed = False, vw_cursor_sent = None, vw_painted = [], vw_calls = [], vw_sent = []\<rparr>"

definition upd :: "('n viewer \<Rightarrow> 'n viewer) \<Rightarrow> 'n attachment_op" where
  "upd f s = s\<lparr>oenv := f (oenv s)\<rparr>"

text \<open>A native call, and the handling of what it notified.\<close>

definition ask :: "'n setting \<Rightarrow> native_call \<Rightarrow> 'n attachment \<Rightarrow> native_answer \<times> 'n attachment" where
  "ask x call s =
     (let v = oenv s; (r, notices, n) = bk_call (st_backend x) call (vw_native v)
      in (r, st_notify x notices
               (upd (\<lambda>v. v\<lparr>vw_native := n, vw_calls := vw_calls v @ [\<lparr>cr_call = call, cr_ready = vw_ready v,
                 cr_target = bk_target (st_backend x) (vw_native v), cr_painted = vw_painted v\<rparr>]\<rparr>) s)))"

definition tell :: "'n setting \<Rightarrow> native_call \<Rightarrow> 'n attachment_op" where
  "tell x call s = snd (ask x call s)"

definition target_now :: "'n setting \<Rightarrow> 'n attachment \<Rightarrow> native_target option" where
  "target_now x s = bk_target (st_backend x) (vw_native (oenv s))"

subsection \<open>Timers\<close>

definition cancel_refinement :: "'n viewer \<Rightarrow> 'n viewer" where
  "cancel_refinement v =
     (case vw_refinement v of
        None \<Rightarrow> v
      | Some t \<Rightarrow> v\<lparr>vw_timers := filter (\<lambda>y. fst y \<noteq> t) (vw_timers v), vw_refinement := None\<rparr>)"

definition cancel_cadence :: "'n viewer \<Rightarrow> 'n viewer" where
  "cancel_cadence v =
     (case vw_cadence v of
        None \<Rightarrow> v
      | Some t \<Rightarrow> v\<lparr>vw_timers := filter (\<lambda>y. fst y \<noteq> t) (vw_timers v), vw_cadence := None\<rparr>)"

definition schedule_refinement :: "nat \<Rightarrow> native_target \<Rightarrow> bool \<Rightarrow> 'n viewer \<Rightarrow> 'n viewer" where
  "schedule_refinement owner target changed v =
     (if vw_refinement v \<noteq> None \<and> \<not> changed then v
      else
        let v1 = cancel_refinement v
        in if \<not> vw_lossy v1 then v1
           else v1\<lparr>vw_refinement := Some (vw_next_timer v1), vw_next_timer := vw_next_timer v1 + 1,
                   vw_timers := vw_timers v1 @ [(vw_next_timer v1, Refine_timer owner target)]\<rparr>)"

definition start_cadence :: "'n viewer \<Rightarrow> 'n viewer" where
  "start_cadence v =
     v\<lparr>vw_cadence := Some (vw_next_timer v), vw_next_timer := vw_next_timer v + 1,
       vw_timers := vw_timers v @ [(vw_next_timer v, Cadence_timer)]\<rparr>"

subsection \<open>Authority\<close>

definition att_available :: "nat \<Rightarrow> 'n viewer \<Rightarrow> bool" where
  "att_available owner v \<longleftrightarrow> vw_owner v = Some owner \<and> \<not> vw_failed v"

definition controllable :: "nat \<Rightarrow> 'n viewer \<Rightarrow> bool" where
  "controllable owner v \<longleftrightarrow> att_available owner v \<and> vw_controls v owner"

definition authorized :: "nat \<Rightarrow> 'n viewer \<Rightarrow> bool" where
  "authorized owner v \<longleftrightarrow> vw_owner v = Some owner \<and> vw_controls v owner"

definition att_cancel :: "'n backend \<Rightarrow> text_route \<Rightarrow> nat option \<Rightarrow> 'n viewer \<Rightarrow> 'n viewer" where
  "att_cancel b route token v = v\<lparr>vw_native := bk_cancel b route token (vw_native v)\<rparr>"

definition att_commit :: "'n backend \<Rightarrow> text_route \<Rightarrow> nat option \<Rightarrow> pystr \<Rightarrow> nat \<Rightarrow> 'n viewer \<Rightarrow> commit_outcome \<times> 'n viewer" where
  "att_commit b route token tx k v =
     (let (r, n) = bk_commit b route token tx k (vw_native v) in (r, v\<lparr>vw_native := n\<rparr>))"

subsection \<open>Sending, detaching and retiring\<close>

text \<open>\<open>detach\<close>, for a native that registers its viewers.\<close>

definition att_detach :: "'n setting \<Rightarrow> nat \<Rightarrow> 'n attachment_op" where
  "att_detach x owner s =
     (if vw_owner (oenv s) \<noteq> Some owner then s
      else
        let s1 = upd (\<lambda>v. cancel_cadence (cancel_refinement (v\<lparr>vw_owner := None, vw_ready := None, vw_awaiting := []\<rparr>))) s;
            s2 = snd (invalidate (att_cancel (st_backend x)) (st_drain x) owner s1);
            s3 = tell x Unregister_viewer s2
        in upd (\<lambda>v. v\<lparr>vw_native_epoch := 0\<rparr>) s3)"

definition send_to :: "'n setting \<Rightarrow> nat \<Rightarrow> viewer_message \<Rightarrow> 'n attachment \<Rightarrow> bool \<times> 'n attachment" where
  "send_to x owner m s =
     (let (r, n) = bk_send (st_backend x) owner m (vw_native (oenv s));
          s1 = upd (\<lambda>v. v\<lparr>vw_native := n, vw_sent := vw_sent v @ [(owner, m)]\<rparr>) s
      in (r = Sent, if r = Connection_lost then att_detach x owner s1 else s1))"

definition post :: "'n setting \<Rightarrow> nat \<Rightarrow> viewer_message \<Rightarrow> 'n attachment_op" where
  "post x owner m s = snd (send_to x owner m s)"

definition att_reply :: "'n setting \<Rightarrow> nat \<Rightarrow> int \<Rightarrow> reply_body \<Rightarrow> 'n attachment_op" where
  "att_reply x owner request body s = post x owner (Reply_message request body) s"

definition request_of :: "viewer_op \<Rightarrow> int" where
  "request_of operation = (case operation of Close_op request w \<Rightarrow> request | Input_op t request v \<Rightarrow> request)"

definition cancel_input :: "'n setting \<Rightarrow> 'n attachment_op" where
  "cancel_input x s =
     (case vw_owner (oenv s) of
        None \<Rightarrow> s
      | Some owner \<Rightarrow>
          let ((pending, queued), s1) = invalidate (att_cancel (st_backend x)) (st_drain x) owner s;
              requests = (case pending of None \<Rightarrow> [] | Some r \<Rightarrow> [r]) @ map request_of queued;
              s2 = fold (\<lambda>r. att_reply x owner r (Failed INPUT_TARGET_UNAVAILABLE)) requests s1
          in tell x (Release (vw_native_epoch (oenv s2))) s2)"

definition retire_input :: "'n setting \<Rightarrow> 'n attachment_op" where
  "retire_input x s =
     cancel_input x (upd (\<lambda>v. cancel_cadence (cancel_refinement (v\<lparr>vw_ready := None, vw_awaiting := []\<rparr>))) s)"

definition input_result :: "'n setting \<Rightarrow> nat \<Rightarrow> int \<Rightarrow> code option \<Rightarrow> 'n attachment_op" where
  "input_result x owner request err s =
     (if vw_owner (oenv s) \<noteq> Some owner then s
      else
        case err of
          None \<Rightarrow> att_reply x owner request (Result (PStr (py ''completed''))) s
        | Some e \<Rightarrow> att_reply x owner request (Failed e) (retire_input x (upd (\<lambda>v. v\<lparr>vw_failed := True\<rparr>) s)))"

subsection \<open>Frames\<close>

definition full_frame :: "frame_description \<Rightarrow> bool" where
  "full_frame d \<longleftrightarrow> fd_x d = 0 \<and> fd_y d = 0 \<and> fd_region_width d = fd_width d \<and> fd_region_height d = fd_height d"

definition refine_if_streaming :: "'n setting \<Rightarrow> 'n attachment_op" where
  "refine_if_streaming x s = (if vw_mode (oenv s) \<noteq> None then tell x Refine s else s)"

definition next_frame :: "frame_description \<Rightarrow> native_target \<Rightarrow> 'n viewer \<Rightarrow> frame_message" where
  "next_frame d target v =
     \<lparr>fm_description = d, fm_sequence = vw_frame_sequence v + 1, fm_connection = vw_epoch v, fm_target = target,
      fm_base = (if full_frame d then 0 else vw_frame_sequence v)\<rparr>"

definition frame_sent :: "frame_description \<Rightarrow> nat \<Rightarrow> native_target \<Rightarrow> 'n viewer \<Rightarrow> 'n viewer" where
  "frame_sent d owner target v =
     (let v1 = schedule_refinement owner target True
            (v\<lparr>vw_awaiting := vw_awaiting v @ [(vw_frame_sequence v, target)],
               vw_lossy := (if fd_encoding d = ''jpeg'' then True else if full_frame d then False else vw_lossy v)\<rparr>)
      in if vw_mode v1 = Some ''data'' then start_cadence v1 else v1)"

text \<open>\<open>captured\<close> of the ticket \<open>k\<close>; \<open>pump\<close> is what it calls when there may be another frame.\<close>

definition captured_by :: "'n setting \<Rightarrow> 'n attachment_op \<Rightarrow> nat \<Rightarrow> capture_result \<Rightarrow> 'n attachment_op" where
  "captured_by x pump k r s =
     (case vw_capture (oenv s) of
        None \<Rightarrow> s
      | Some (k', owner, target) \<Rightarrow>
          if k' \<noteq> k then s
          else
            let s1 = upd (\<lambda>v. v\<lparr>vw_capture := None\<rparr>) s
            in if vw_owner (oenv s1) \<noteq> Some owner \<or> target_now x s1 \<noteq> Some target
               then pump (upd (\<lambda>v. v\<lparr>vw_dirty := True\<rparr>) (refine_if_streaming x s1))
               else
                 case r of
                   Capture_failed e \<Rightarrow> post x owner Capture_unavailable (refine_if_streaming x (retire_input x s1))
                 | Unchanged \<Rightarrow> pump (upd (schedule_refinement owner target False) s1)
                 | Frame d px \<Rightarrow>
                     let m = Frame_message (next_frame d target (oenv s1)) px;
                         (sent, s2) = send_to x owner m (upd (\<lambda>v. v\<lparr>vw_frame_sequence := vw_frame_sequence v + 1\<rparr>) s1)
                     in if sent then pump (upd (frame_sent d owner target) s2)
                        else upd (\<lambda>v. v\<lparr>vw_dirty := True\<rparr>) (refine_if_streaming x s2))"

text \<open>
  \<open>pump\<close>. A capture that the backend refuses is completed at once, and \<open>captured\<close> pumps again only
  when the target or the viewer changed meanwhile; the rounds bound those repetitions.
\<close>

definition idle_viewer :: "'n setting \<Rightarrow> 'n attachment \<Rightarrow> bool" where
  "idle_viewer x s =
     (let v = oenv s in
      case (vw_owner v, target_now x s) of
        (Some owner, Some target) \<Rightarrow>
          vw_dirty v \<and> vw_capture v = None \<and> length (vw_awaiting v) < vw_capacity v \<and>
          \<not> bk_frame_pending (st_backend x) owner (vw_native v) \<and> vw_cadence v = None
      | _ \<Rightarrow> False)"

primrec att_pump :: "nat \<Rightarrow> 'n setting \<Rightarrow> 'n attachment_op" where
  "att_pump 0 x s = s"
| "att_pump (Suc n) x s =
     (if \<not> idle_viewer x s then s
      else
        let v = oenv s; k = vw_tickets v; owner = the (vw_owner v); target = the (target_now x s);
            (r, s1) = ask x (Capture_target target k)
              (upd (\<lambda>v. v\<lparr>vw_capture := Some (k, owner, target), vw_tickets := k + 1, vw_dirty := False\<rparr>) s)
        in if r = Call_raises then captured_by x (att_pump n x) k (Capture_failed CAPTURE_UNAVAILABLE) s1 else s1)"

definition pump :: "'n setting \<Rightarrow> 'n attachment_op" where
  "pump x = att_pump (st_rounds x) x"

definition captured :: "'n setting \<Rightarrow> nat \<Rightarrow> capture_result \<Rightarrow> 'n attachment_op" where
  "captured x = captured_by x (pump x)"

definition damage :: "'n setting \<Rightarrow> 'n attachment_op" where
  "damage x s = pump x (upd (\<lambda>v. v\<lparr>vw_dirty := True\<rparr>) s)"

subsection \<open>What the native side notifies\<close>

definition metadata_changed :: "'n setting \<Rightarrow> 'n attachment_op" where
  "metadata_changed x s =
     (case vw_owner (oenv s) of
        None \<Rightarrow> s
      | Some owner \<Rightarrow> post x owner (State_message (vw_epoch (oenv s)) (bk_snapshot (st_backend x) (vw_native (oenv s)))) s)"

definition scene_changed :: "'n setting \<Rightarrow> 'n attachment_op" where
  "scene_changed x s = damage x (metadata_changed x (retire_input x s))"

definition cursor_changed :: "'n setting \<Rightarrow> 'n attachment_op" where
  "cursor_changed x s =
     (let v = oenv s; b = st_backend x in
      case vw_owner v of
        None \<Rightarrow> s
      | Some owner \<Rightarrow>
          if bk_cursor_pending b owner (vw_native v) then s
          else
            let current = bk_cursor b (vw_native v)
            in if map_option fst current = vw_cursor_sent v then s
               else
                 let (sent, s1) = send_to x owner (Cursor_message (vw_epoch v) current (bk_cursor_revision b (vw_native v))) s
                 in if sent then upd (\<lambda>v. v\<lparr>vw_cursor_sent := map_option fst current\<rparr>) s1 else s1)"

definition writable :: "'n setting \<Rightarrow> nat \<Rightarrow> 'n attachment_op" where
  "writable x owner s = (if vw_owner (oenv s) = Some owner then pump x (cursor_changed x s) else s)"

definition clipboard_changed :: "'n setting \<Rightarrow> native_target \<Rightarrow> int \<Rightarrow> pystr option \<Rightarrow> 'n attachment_op" where
  "clipboard_changed x target epoch tx s =
     (let v = oenv s in
      case vw_owner v of
        None \<Rightarrow> s
      | Some owner \<Rightarrow>
          if vw_failed v \<or> epoch \<noteq> vw_epoch v \<or> vw_ready v \<noteq> Some target \<or> target_now x s \<noteq> Some target then s
          else post x owner (Clipboard_message epoch target tx) s)"

definition handle_notice :: "'n setting \<Rightarrow> viewer_notice \<Rightarrow> 'n attachment_op" where
  "handle_notice x notice s =
     (case notice of
        Scene_notice \<Rightarrow> scene_changed x s
      | Metadata_notice \<Rightarrow> metadata_changed x s
      | Damage_notice \<Rightarrow> damage x s
      | Cursor_notice \<Rightarrow> cursor_changed x s
      | Clipboard_notice target epoch tx \<Rightarrow> clipboard_changed x target epoch tx s
      | Captured_notice k r \<Rightarrow> captured x k r s)"

text \<open>Notices during a call that handles a notice are handled one level deeper.\<close>

primrec notices_at :: "nat \<Rightarrow> 'n backend \<Rightarrow> 'n attachment_op \<Rightarrow> nat \<Rightarrow> viewer_notice list \<Rightarrow> 'n attachment_op" where
  "notices_at 0 b dr n notices s = s"
| "notices_at (Suc d) b dr n notices s =
     fold (handle_notice \<lparr>st_backend = b, st_notify = notices_at d b dr n, st_drain = dr, st_rounds = Suc n\<rparr>) notices s"

definition setting_at :: "'n backend \<Rightarrow> nat \<Rightarrow> 'n attachment_op \<Rightarrow> 'n setting" where
  "setting_at b d dr = \<lparr>st_backend = b, st_notify = notices_at d b dr d, st_drain = dr, st_rounds = Suc d\<rparr>"

subsection \<open>Input\<close>

text \<open>The text of an operation; the clipboard refuses a value that is not text as it refuses a NUL.\<close>

definition text_of :: "operation \<Rightarrow> pystr" where
  "text_of value = (case dict_get value ''text'' of PStr tx \<Rightarrow> tx | _ \<Rightarrow> [0])"

definition is_kind :: "operation \<Rightarrow> string \<Rightarrow> bool" where
  "is_kind value kind \<longleftrightarrow> dict_get value ''kind'' = PStr (py kind)"

definition att_admit ::
  "'n setting \<Rightarrow> nat \<Rightarrow> viewer_op \<Rightarrow> 'n attachment \<Rightarrow> (int \<times> text_route \<times> nat option \<times> pystr) option \<times> 'n attachment" where
  "att_admit x owner operation s =
     (case operation of
        Close_op request window \<Rightarrow>
          let (r, s1) = ask x (Close_window window) s
          in (None, if r = Call_raises then input_result x owner request (Some INPUT_DELIVERY_FAILED) s1
                    else att_reply x owner request (Result (PStr (py ''requested''))) s1)
      | Input_op target request value \<Rightarrow>
          if target_now x s \<noteq> Some target \<or> vw_ready (oenv s) \<noteq> Some target
          then (None, att_reply x owner request (Failed INPUT_TARGET_UNAVAILABLE) s)
          else if is_kind value ''text'' then
            let (r, n) = bk_context (st_backend x) target (vw_native (oenv s)); s1 = upd (\<lambda>v. v\<lparr>vw_native := n\<rparr>) s
            in (case r of
                  Context_token token \<Rightarrow> (Some (request, Native_contexts, Some token, text_of value), s1)
                | No_context \<Rightarrow> (None, input_result x owner request (Some INPUT_CONTEXT_UNAVAILABLE) s1)
                | Context_raises \<Rightarrow> (None, input_result x owner request (Some INPUT_DELIVERY_FAILED) s1))
          else if is_kind value ''clipboard'' then
            (Some (request, Native_clipboard, bk_clipboard_token (st_backend x) target (vw_native (oenv s)), text_of value), s)
          else
            let (r, s1) = ask x (Deliver (vw_native_epoch (oenv s)) target value) s
            in (None, if r = Call_raises then input_result x owner request (Some INPUT_DELIVERY_FAILED) s1
                      else att_reply x owner request (Result (PStr (py ''submitted''))) s1))"

text \<open>The scheduler's client: \<open>lambda owner: owner.close()\<close> closes the connection, which detaches.\<close>

definition att_overflow :: "'n setting \<Rightarrow> nat \<Rightarrow> 'n attachment_op" where
  "att_overflow x owner s =
     att_detach x owner (upd (\<lambda>v. v\<lparr>vw_native := bk_disconnect (st_backend x) owner (vw_native v)\<rparr>) s)"

definition viewer_client :: "'n backend \<Rightarrow> nat \<Rightarrow> (nat, viewer_op, text_route, nat option, 'n viewer) client" where
  "viewer_client b d =
     \<lparr>c_available = att_available, c_admit = (\<lambda>dr. att_admit (setting_at b d dr)),
      c_result = (\<lambda>dr. input_result (setting_at b d dr)), c_overflow = (\<lambda>dr. att_overflow (setting_at b d dr)),
      c_commit = att_commit b, c_cancel = att_cancel b\<rparr>"

text \<open>Outside the scheduler's own loop, the callbacks' drain is \<open>drain\<close> itself.\<close>

definition viewer_setting :: "'n backend \<Rightarrow> nat \<Rightarrow> 'n setting" where
  "viewer_setting b d = setting_at b d (drain (viewer_client b d))"

definition att_enqueue :: "'n backend \<Rightarrow> nat \<Rightarrow> nat \<Rightarrow> viewer_op \<Rightarrow> 'n attachment_op" where
  "att_enqueue b d owner operation s = enqueue (viewer_client b d) (drain (viewer_client b d)) owner operation s"

definition matches_target :: "'n setting \<Rightarrow> nat \<Rightarrow> operation \<Rightarrow> 'n attachment \<Rightarrow> bool" where
  "matches_target x owner m s =
     (let v = oenv s in
      case vw_ready v of
        None \<Rightarrow> False
      | Some target \<Rightarrow>
          att_available owner v \<and> target_now x s = Some target \<and> dict_get m ''connection'' = PInt (vw_epoch v) \<and>
          dict_get m ''window'' = PInt (tg_window target) \<and> dict_get m ''generation'' = PInt (tg_generation target))"

text \<open>An operation that answers whether it raised: \<open>validate_input\<close>'s \<open>OverflowError\<close> is not caught.\<close>

definition enqueue_input :: "'n backend \<Rightarrow> nat \<Rightarrow> nat \<Rightarrow> int \<Rightarrow> operation \<Rightarrow> 'n attachment \<Rightarrow> bool \<times> 'n attachment" where
  "enqueue_input b d owner request m s =
     (let x = viewer_setting b d; v = oenv s in
      if \<not> controllable owner v then (False, att_reply x owner request (Failed INPUT_NOT_AUTHORIZED) s)
      else if \<not> matches_target x owner m s then (False, att_reply x owner request (Failed INPUT_TARGET_UNAVAILABLE) s)
      else
        case validate_input (dict_get m ''operation'') of
          Overflowed \<Rightarrow> (True, s)
        | Bad_value \<Rightarrow> (False, input_result x owner request (Some INPUT_OPERATION_INVALID) s)
        | Checked value \<Rightarrow>
            if is_kind value ''text'' \<and> \<not> valid_text (dict_get value ''text'')
            then (False, input_result x owner request (Some INPUT_TEXT_INVALID) s)
            else (False, att_enqueue b d owner (Input_op (the (vw_ready v)) request value) s))"

subsection \<open>Requests\<close>

definition has_keys :: "operation \<Rightarrow> string list \<Rightarrow> bool" where
  "has_keys m names \<longleftrightarrow> set (map fst m) = py ` set names"

definition stream_modes :: "string list" where
  "stream_modes = [''auto'', ''clarity'', ''smooth'', ''data'']"

definition stream_mode_of :: "operation \<Rightarrow> string option" where
  "stream_mode_of m = List.find (\<lambda>name. dict_get m ''mode'' = PStr (py name)) stream_modes"

definition request_terminate :: "'n setting \<Rightarrow> nat \<Rightarrow> int \<Rightarrow> operation \<Rightarrow> 'n attachment_op" where
  "request_terminate x owner request m s =
     (if \<not> has_keys m [''id'', ''method''] then att_reply x owner request (Failed REQUEST_INVALID) s
      else if \<not> controllable owner (oenv s) then att_reply x owner request (Failed INPUT_NOT_AUTHORIZED) s
      else if \<not> bk_terminates (st_backend x) then att_reply x owner request (Failed METHOD_UNSUPPORTED) s
      else
        let (r, s1) = ask x Terminate_application (retire_input x s)
        in att_reply x owner request
             (if r = Call_raises then Failed APPLICATION_UNAVAILABLE else Result (PStr (py ''requested''))) s1)"

definition request_frame_ack :: "'n setting \<Rightarrow> nat \<Rightarrow> int \<Rightarrow> operation \<Rightarrow> 'n attachment \<Rightarrow> bool \<times> 'n attachment" where
  "request_frame_ack x owner request m s =
     (let unavailable = (False, att_reply x owner request (Failed FRAME_TARGET_UNAVAILABLE) s) in
      case vw_awaiting (oenv s) of
        [] \<Rightarrow> unavailable
      | (sequence, target) # rest \<Rightarrow>
          if dict_get m ''frame'' \<noteq> PInt sequence \<or> target_now x s \<noteq> Some target then unavailable
          else
            let fresh = (vw_ready (oenv s) \<noteq> Some target);
                s1 = upd (\<lambda>v. v\<lparr>vw_ready := Some target, vw_awaiting := rest, vw_painted := vw_painted v @ [(sequence, target)]\<rparr>) s;
                s2 = att_reply x owner request (Result (PStr (py ''painted''))) s1
            in if \<not> fresh then (False, pump x s2)
               else
                 (case vw_ready (oenv s2) of
                    None \<Rightarrow> (True, s2)
                  | Some ready \<Rightarrow>
                      let (r, s3) = ask x (Sync_clipboard (vw_native_epoch (oenv s2)) ready) s2
                      in if r = Call_raises then (True, s3) else (False, pump x s3)))"

definition request_configure :: "'n setting \<Rightarrow> nat \<Rightarrow> int \<Rightarrow> operation \<Rightarrow> 'n attachment_op" where
  "request_configure x owner request m s =
     (case stream_mode_of m of
        None \<Rightarrow> att_reply x owner request (Failed REQUEST_INVALID) s
      | Some mode \<Rightarrow>
          if \<not> has_keys m [''id'', ''method'', ''mode''] then att_reply x owner request (Failed REQUEST_INVALID) s
          else
            let s1 = (if Some mode = vw_mode (oenv s) then s
                      else damage x (upd (\<lambda>v. v\<lparr>vw_mode := Some mode, vw_capacity := 2\<rparr>)
                             (tell x (Configure_stream mode) (upd cancel_cadence s))))
            in att_reply x owner request
                 (Result (PDict [(py ''mode'', case vw_mode (oenv s1) of None \<Rightarrow> PNone | Some name \<Rightarrow> PStr (py name))])) s1)"

definition request_window :: "'n backend \<Rightarrow> nat \<Rightarrow> nat \<Rightarrow> int \<Rightarrow> bool \<Rightarrow> operation \<Rightarrow> 'n attachment_op" where
  "request_window b d owner request closes m s =
     (let x = viewer_setting b d in
      case dict_get m ''window'' of
        PInt window \<Rightarrow>
          if window < 1 \<or> 9007199254740991 < window then att_reply x owner request (Failed WINDOW_UNAVAILABLE) s
          else if \<not> authorized owner (oenv s) then att_reply x owner request (Failed INPUT_NOT_AUTHORIZED) s
          else if closes \<and> \<not> vw_failed (oenv s) then att_enqueue b d owner (Close_op request window) s
          else
            let (r, s1) = (if closes then ask x (Close_window window) s else ask x (Select_window window) (retire_input x s))
            in att_reply x owner request
                 (if r = Call_raises then Failed WINDOW_UNAVAILABLE else Result (PStr (py ''requested''))) s1
      | _ \<Rightarrow> att_reply x owner request (Failed WINDOW_UNAVAILABLE) s)"

text \<open>
  \<open>request\<close> of a checked message (\<open>Control\<close>: an integer \<open>id\<close> and a text \<open>method\<close>); the answer is whether
  an exception came out of it.
\<close>

definition att_request :: "'n backend \<Rightarrow> nat \<Rightarrow> nat \<Rightarrow> int \<Rightarrow> string \<Rightarrow> operation \<Rightarrow> 'n attachment \<Rightarrow> bool \<times> 'n attachment" where
  "att_request b d owner request method m s =
     (let x = viewer_setting b d; quiet = (\<lambda>u. (False, u)) in
      if vw_owner (oenv s) \<noteq> Some owner then (False, s)
      else if request \<le> vw_last_request (oenv s) then quiet (att_reply x owner request (Failed REQUEST_SEQUENCE_INVALID) s)
      else
        let s1 = upd (\<lambda>v. v\<lparr>vw_last_request := request\<rparr>) s
        in if method = ''terminate_application'' then quiet (request_terminate x owner request m s1)
           else if method = ''status'' then
             quiet (att_reply x owner request (Result (bk_snapshot (st_backend x) (vw_native (oenv s1)))) s1)
           else if method = ''frame_ack'' then request_frame_ack x owner request m s1
           else if method = ''configure_stream'' then quiet (request_configure x owner request m s1)
           else if method = ''refresh'' then
             quiet (att_reply x owner request (Result (PStr (py ''requested''))) (damage x (refine_if_streaming x s1)))
           else if method = ''input'' then enqueue_input b d owner request m s1
           else if method = ''release_input'' then
             quiet (if \<not> has_keys m [''id'', ''method'', ''connection'', ''window'', ''generation'']
                    then att_reply x owner request (Failed REQUEST_INVALID) s1
                    else if \<not> controllable owner (oenv s1) \<or> \<not> matches_target x owner m s1
                    then att_reply x owner request (Failed INPUT_TARGET_UNAVAILABLE) s1
                    else att_reply x owner request (Result (PStr (py ''released''))) (cancel_input x s1))
           else if method = ''select_window'' then quiet (request_window b d owner request False m s1)
           else if method = ''close_window'' then quiet (request_window b d owner request True m s1)
           else quiet (att_reply x owner request (Failed METHOD_UNSUPPORTED) s1))"

subsection \<open>Attaching, the event loop and closing\<close>

text \<open>\<open>attach\<close>, for a native that registers its viewers.\<close>

definition att_attach :: "'n setting \<Rightarrow> nat \<Rightarrow> 'n attachment_op" where
  "att_attach x owner s =
     (let s1 = (case vw_owner (oenv s) of None \<Rightarrow> s | Some old \<Rightarrow> att_detach x old s);
          s2 = upd (\<lambda>v. v\<lparr>vw_owner := Some owner, vw_last_request := 0, vw_mode := None, vw_capacity := 1, vw_lossy := False,
                 vw_cursor_sent := None, vw_epoch := vw_epoch v + 1, vw_failed := False, vw_painted := []\<rparr>) s1;
          (r, s3) = ask x (Register_viewer (vw_epoch (oenv s2))) s2;
          s4 = upd (\<lambda>v. v\<lparr>vw_native_epoch := (case r of Call_value e \<Rightarrow> e | Call_raises \<Rightarrow> 0)\<rparr>) s3;
          s5 = post x owner (Attached_message (vw_epoch (oenv s4)) (bk_snapshot (st_backend x) (vw_native (oenv s4)))) s4
      in damage x (cursor_changed x s5))"

text \<open>A timer of the event loop fires: it is live, and its source ends.\<close>

definition view_timer_fires :: "'n setting \<Rightarrow> nat \<Rightarrow> 'n attachment_op" where
  "view_timer_fires x t s =
     (case map_of (vw_timers (oenv s)) t of
        None \<Rightarrow> s
      | Some timer \<Rightarrow>
          let s1 = upd (\<lambda>v. v\<lparr>vw_timers := filter (\<lambda>y. fst y \<noteq> t) (vw_timers v)\<rparr>) s
          in (case timer of
                Cadence_timer \<Rightarrow> pump x (upd (\<lambda>v. v\<lparr>vw_cadence := None\<rparr>) s1)
              | Refine_timer owner target \<Rightarrow>
                  let s2 = upd (\<lambda>v. v\<lparr>vw_refinement := None\<rparr>) s1
                  in if vw_owner (oenv s2) = Some owner \<and> target_now x s2 = Some target
                     then damage x (tell x Refine s2) else s2))"

definition att_close :: "'n backend \<Rightarrow> nat \<Rightarrow> 'n attachment_op" where
  "att_close b d s =
     (let x = viewer_setting b d;
          s1 = upd (\<lambda>v. cancel_refinement (cancel_cadence v)) s;
          s2 = (case vw_owner (oenv s1) of None \<Rightarrow> s1 | Some owner \<Rightarrow> att_detach x owner s1)
      in upd (\<lambda>v. v\<lparr>vw_capture := None\<rparr>) (close_order (viewer_client b d) s2))"

text \<open>
  Everything that can reach an attachment: its connection, the native side, the event loop, text
  completions, a takeover, and changes of the outside.
\<close>

datatype 'n viewer_event =
    Attach nat
  | Detach nat
  | Request nat int string operation
  | Writable nat
  | Notice viewer_notice
  | Timer nat
  | Text_completed nat "code option"
  | Text_deadline nat
  | Takeover "nat \<Rightarrow> bool"
  | Retire
  | Outside 'n
  | Closed

definition viewer_step :: "'n backend \<Rightarrow> nat \<Rightarrow> 'n viewer_event \<Rightarrow> 'n attachment_op" where
  "viewer_step b d event s =
     (let x = viewer_setting b d; c = viewer_client b d in
      case event of
        Attach owner \<Rightarrow> att_attach x owner s
      | Detach owner \<Rightarrow> att_detach x owner s
      | Request owner request method m \<Rightarrow> snd (att_request b d owner request method m s)
      | Writable owner \<Rightarrow> writable x owner s
      | Notice notice \<Rightarrow> handle_notice x notice s
      | Timer t \<Rightarrow> view_timer_fires x t s
      | Text_completed k err \<Rightarrow> completed c (drain c) k err s
      | Text_deadline k \<Rightarrow> if k \<in> set (oarmed s) then expired c (drain c) k s else s
      | Takeover controls \<Rightarrow> upd (\<lambda>v. v\<lparr>vw_controls := controls\<rparr>) s
      | Retire \<Rightarrow> retire_input x s
      | Outside n \<Rightarrow> upd (\<lambda>v. v\<lparr>vw_native := n\<rparr>) s
      | Closed \<Rightarrow> att_close b d s)"

definition viewer_run :: "'n backend \<Rightarrow> nat \<Rightarrow> 'n viewer_event list \<Rightarrow> 'n attachment_op" where
  "viewer_run b d events s = fold (viewer_step b d) events s"

end
