(* ===== verification/Attachment_Safety.thy ===== *)
theory Attachment_Safety
  imports Attachment
begin

section \<open>What a viewer's attachment guarantees (desktop\_attachment.py)\<close>

text \<open>
  The attachment's state only moves along \<open>view_le\<close> between two calls of \<open>attach\<close>. A property that
  follows this order and survives the scheduler's withdrawals survives every operation
  (\<open>view_keeper\<close>), the attachment is a client of the ordered scheduler (\<open>viewing\<close>), and so the
  invariants of both hold in every run.
\<close>

subsection \<open>What every operation keeps\<close>

definition delivery_ok :: "call_record \<Rightarrow> bool" where
  "delivery_ok r =
     (case cr_call r of
        Deliver epoch target value \<Rightarrow> cr_ready r = Some target \<and> cr_target r = Some target \<and> target \<in> snd ` set (cr_painted r)
      | _ \<Rightarrow> True)"

text \<open>A frame of this connection: it was sent, with this sequence number and for this target.\<close>

definition frame_known :: "'n viewer \<Rightarrow> int \<times> native_target \<Rightarrow> bool" where
  "frame_known v f \<longleftrightarrow>
     (\<exists>owner m px. (owner, Frame_message m px) \<in> set (vw_sent v) \<and> fm_sequence m = fst f \<and> fm_target m = snd f \<and>
        fm_connection m = vw_epoch v)"

definition timers_ok :: "'n viewer \<Rightarrow> bool" where
  "timers_ok v \<longleftrightarrow>
     distinct (map fst (vw_timers v)) \<and> (\<forall>t \<in> fst ` set (vw_timers v). t < vw_next_timer v) \<and>
     (\<forall>t. (t, Cadence_timer) \<in> set (vw_timers v) \<longleftrightarrow> vw_cadence v = Some t) \<and>
     (\<forall>t. (\<exists>owner target. (t, Refine_timer owner target) \<in> set (vw_timers v)) \<longleftrightarrow> vw_refinement v = Some t)"

definition view_ok :: "'n viewer \<Rightarrow> bool" where
  "view_ok v \<longleftrightarrow>
     list_all delivery_ok (vw_calls v) \<and>
     (\<forall>f \<in> set (vw_awaiting v) \<union> set (vw_painted v). frame_known v f) \<and>
     (\<forall>t. vw_ready v = Some t \<longrightarrow> t \<in> snd ` set (vw_painted v)) \<and>
     (vw_owner v = None \<longrightarrow> vw_ready v = None \<and> vw_awaiting v = []) \<and>
     length (vw_awaiting v) + (if vw_capture v = None then 0 else 1) \<le> vw_capacity v \<and> 1 \<le> vw_capacity v \<and> vw_capacity v \<le> 2 \<and>
     timers_ok v \<and> (vw_capture v \<noteq> None \<longrightarrow> vw_cadence v = None)"

text \<open>How the attachment's state evolves between two calls of \<open>attach\<close>.\<close>

definition view_le :: "'n viewer \<Rightarrow> 'n viewer \<Rightarrow> bool" where
  "view_le v w \<longleftrightarrow>
     vw_epoch w = vw_epoch v \<and> (vw_owner w = vw_owner v \<or> vw_owner w = None) \<and> vw_controls w = vw_controls v \<and>
     (vw_failed v \<longrightarrow> vw_failed w) \<and> (view_ok v \<longrightarrow> view_ok w)"

lemma view_le_refl [simp]: "view_le v v"
  by (simp add: view_le_def)

lemma view_le_trans: "view_le u v \<Longrightarrow> view_le v w \<Longrightarrow> view_le u w"
  by (auto simp: view_le_def)

text \<open>Changes of fields that nothing is claimed of.\<close>

lemma view_ok_fields [simp]:
  "view_ok (v\<lparr>vw_native := n\<rparr>) = view_ok v" "view_ok (v\<lparr>vw_native_epoch := i\<rparr>) = view_ok v"
  "view_ok (v\<lparr>vw_failed := c\<rparr>) = view_ok v" "view_ok (v\<lparr>vw_dirty := c\<rparr>) = view_ok v"
  "view_ok (v\<lparr>vw_last_request := i\<rparr>) = view_ok v" "view_ok (v\<lparr>vw_mode := m\<rparr>) = view_ok v"
  "view_ok (v\<lparr>vw_lossy := c\<rparr>) = view_ok v" "view_ok (v\<lparr>vw_cursor_sent := k\<rparr>) = view_ok v"
  "view_ok (v\<lparr>vw_tickets := j\<rparr>) = view_ok v" "view_ok (v\<lparr>vw_frame_sequence := i\<rparr>) = view_ok v"
  "view_ok (v\<lparr>vw_controls := cs\<rparr>) = view_ok v"
  by (simp_all add: view_ok_def timers_ok_def frame_known_def)

lemma filter_timers:
  assumes "timers_ok v"
  shows "timers_ok (v\<lparr>vw_timers := filter (\<lambda>y. fst y \<noteq> t) (vw_timers v),
    vw_cadence := (if vw_cadence v = Some t then None else vw_cadence v),
    vw_refinement := (if vw_refinement v = Some t then None else vw_refinement v)\<rparr>)"
  using assms by (auto simp: timers_ok_def distinct_map_filter)

lemma cadence_not_refinement:
  assumes "timers_ok v" "vw_cadence v = Some t"
  shows "vw_refinement v \<noteq> Some t"
proof
  assume "vw_refinement v = Some t"
  with assms(1) have "\<exists>owner target. (t, Refine_timer owner target) \<in> set (vw_timers v)" unfolding timers_ok_def by blast
  then obtain owner target where "(t, Refine_timer owner target) \<in> set (vw_timers v)" by blast
  moreover have "(t, Cadence_timer) \<in> set (vw_timers v)" "distinct (map fst (vw_timers v))" using assms by (simp_all add: timers_ok_def)
  ultimately show False by (blast dest: eq_key_imp_eq_value)
qed

lemma timers_cancel_cadence: "timers_ok v \<Longrightarrow> timers_ok (cancel_cadence v)"
proof (cases "vw_cadence v")
  case (Some t)
  assume "timers_ok v"
  with Some filter_timers [of v t] cadence_not_refinement [of v t] show ?thesis
    by (simp add: cancel_cadence_def timers_ok_def)
qed (simp add: cancel_cadence_def)

lemma timers_cancel_refinement: "timers_ok v \<Longrightarrow> timers_ok (cancel_refinement v)"
proof (cases "vw_refinement v")
  case (Some t)
  assume "timers_ok v"
  moreover from this have "vw_cadence v \<noteq> Some t" using Some cadence_not_refinement [of v t] by auto
  ultimately show ?thesis using Some filter_timers [of v t] by (simp add: cancel_refinement_def timers_ok_def)
qed (simp add: cancel_refinement_def)

lemma timers_ok_lossy [simp]: "timers_ok (v\<lparr>vw_lossy := c\<rparr>) = timers_ok v" "timers_ok (v\<lparr>vw_awaiting := a\<rparr>) = timers_ok v"
  by (simp_all add: timers_ok_def)

lemma timers_schedule: "timers_ok v \<Longrightarrow> timers_ok (schedule_refinement owner target changed v)"
proof -
  assume "timers_ok v"
  then have "timers_ok (cancel_refinement v)" by (rule timers_cancel_refinement)
  moreover have "vw_refinement (cancel_refinement v) = None" by (simp add: cancel_refinement_def split: option.split)
  moreover note \<open>timers_ok v\<close>
  ultimately show ?thesis by (auto simp: schedule_refinement_def Let_def timers_ok_def)
qed

lemma timers_start: "timers_ok v \<Longrightarrow> vw_cadence v = None \<Longrightarrow> timers_ok (start_cadence v)"
  by (auto simp: start_cadence_def timers_ok_def)

lemma live_timers: "timers_ok v \<Longrightarrow> fst ` set (vw_timers v) = set_option (vw_refinement v) \<union> set_option (vw_cadence v)"
proof (rule set_eqI)
  fix t
  assume ok: "timers_ok v"
  have "t \<in> fst ` set (vw_timers v) \<longleftrightarrow> (\<exists>k. (t, k) \<in> set (vw_timers v))" by force
  also have "\<dots> \<longleftrightarrow> (\<exists>owner target. (t, Refine_timer owner target) \<in> set (vw_timers v)) \<or> (t, Cadence_timer) \<in> set (vw_timers v)"
    by (metis view_timer.exhaust)
  also have "\<dots> \<longleftrightarrow> vw_refinement v = Some t \<or> vw_cadence v = Some t" using ok unfolding timers_ok_def by blast
  finally show "t \<in> fst ` set (vw_timers v) \<longleftrightarrow> t \<in> set_option (vw_refinement v) \<union> set_option (vw_cadence v)" by auto
qed

text \<open>The timer operations change the timers only.\<close>

definition same_but_timers :: "'n viewer \<Rightarrow> 'n viewer \<Rightarrow> bool" where
  "same_but_timers v w \<longleftrightarrow> (\<exists>a b c d. w = v\<lparr>vw_timers := a, vw_cadence := b, vw_refinement := c, vw_next_timer := d\<rparr>)"

lemma same_cancel_cadence: "same_but_timers v (cancel_cadence v)"
  unfolding same_but_timers_def cancel_cadence_def
  by (cases v; cases "vw_cadence v") auto

lemma same_cancel_refinement: "same_but_timers v (cancel_refinement v)"
  unfolding same_but_timers_def cancel_refinement_def
  by (cases v; cases "vw_refinement v") auto

lemma same_trans: "same_but_timers u v \<Longrightarrow> same_but_timers v w \<Longrightarrow> same_but_timers u w"
  unfolding same_but_timers_def by (cases u) fastforce

lemma same_refl: "same_but_timers v v"
  unfolding same_but_timers_def by (cases v) auto

lemma same_armed: "same_but_timers v (v\<lparr>vw_refinement := r, vw_next_timer := n, vw_timers := a\<rparr>)"
  unfolding same_but_timers_def by (cases v) auto

lemma same_schedule: "same_but_timers v (schedule_refinement owner target changed v)"
  by (simp add: schedule_refinement_def Let_def same_refl same_cancel_refinement same_trans [OF same_cancel_refinement same_armed])

lemma same_start: "same_but_timers v (start_cadence v)"
  unfolding same_but_timers_def start_cadence_def by (cases v) auto

lemma same_fields:
  assumes "same_but_timers v w"
  shows "vw_native w = vw_native v \<and> vw_owner w = vw_owner v \<and> vw_epoch w = vw_epoch v \<and> vw_ready w = vw_ready v \<and>
    vw_capture w = vw_capture v \<and> vw_awaiting w = vw_awaiting v \<and> vw_capacity w = vw_capacity v \<and> vw_failed w = vw_failed v \<and>
    vw_painted w = vw_painted v \<and> vw_calls w = vw_calls v \<and> vw_sent w = vw_sent v \<and> vw_mode w = vw_mode v \<and> vw_lossy w = vw_lossy v \<and>
    vw_controls w = vw_controls v"
  using assms by (auto simp: same_but_timers_def)

lemma view_le_timers:
  assumes "same_but_timers v w" "timers_ok v \<Longrightarrow> timers_ok w" "vw_cadence v = None \<Longrightarrow> vw_cadence w = None"
  shows "view_le v w"
  using same_fields [OF assms(1)] assms(2,3) by (auto simp: view_le_def view_ok_def frame_known_def)

lemma cadence_kept [simp]:
  "vw_cadence (cancel_refinement v) = vw_cadence v" "vw_cadence (cancel_cadence v) = None"
  "vw_cadence (schedule_refinement owner target changed v) = vw_cadence v"
  by (simp_all add: cancel_refinement_def cancel_cadence_def schedule_refinement_def Let_def split: option.split)

lemma view_le_cancel_cadence: "view_le v (cancel_cadence v)"
  using same_cancel_cadence timers_cancel_cadence by (rule view_le_timers) simp_all

lemma view_le_cancel_refinement: "view_le v (cancel_refinement v)"
  using same_cancel_refinement timers_cancel_refinement by (rule view_le_timers) simp_all

lemma view_le_cancels: "view_le v (cancel_cadence (cancel_refinement v))"
  using view_le_cancel_refinement view_le_cancel_cadence by (rule view_le_trans)

lemma view_le_schedule: "view_le v (schedule_refinement owner target changed v)"
  using same_schedule timers_schedule by (rule view_le_timers) simp_all

lemma view_le_retired: "view_le v (cancel_cadence (cancel_refinement (v\<lparr>vw_ready := None, vw_awaiting := []\<rparr>)))"
proof -
  have "view_le v (v\<lparr>vw_ready := None, vw_awaiting := []\<rparr>)"
    by (auto simp: view_le_def view_ok_def timers_ok_def frame_known_def)
  then show ?thesis using view_le_cancels by (rule view_le_trans)
qed

lemma view_le_detached:
  "view_le v (cancel_cadence (cancel_refinement (v\<lparr>vw_owner := None, vw_ready := None, vw_awaiting := []\<rparr>)))"
proof -
  have "view_le v (v\<lparr>vw_owner := None, vw_ready := None, vw_awaiting := []\<rparr>)"
    by (auto simp: view_le_def view_ok_def timers_ok_def frame_known_def)
  then show ?thesis using view_le_cancels by (rule view_le_trans)
qed

text \<open>Changes of the other fields, and more calls and messages.\<close>

lemma view_le_same:
  "vw_epoch w = vw_epoch v \<Longrightarrow> vw_owner w = vw_owner v \<Longrightarrow> vw_controls w = vw_controls v \<Longrightarrow> (vw_failed v \<Longrightarrow> vw_failed w) \<Longrightarrow> (view_ok v \<Longrightarrow> view_ok w) \<Longrightarrow>
     view_le v w"
  by (simp add: view_le_def)

lemma view_le_call:
  assumes "view_ok v \<Longrightarrow> delivery_ok r"
  shows "view_le v (v\<lparr>vw_native := n, vw_calls := vw_calls v @ [r]\<rparr>)"
  using assms by (auto intro!: view_le_same simp: view_ok_def timers_ok_def frame_known_def)

lemma view_le_sent: "view_le v (v\<lparr>vw_native := n, vw_sent := vw_sent v @ ms\<rparr>)"
proof -
  have "frame_known v f \<Longrightarrow> frame_known (v\<lparr>vw_native := n, vw_sent := vw_sent v @ ms\<rparr>) f" for f
    unfolding frame_known_def by auto
  then show ?thesis by (intro view_le_same) (auto simp: view_ok_def timers_ok_def)
qed

lemma view_le_ended: "view_le v (v\<lparr>vw_capture := None\<rparr>)"
  by (rule view_le_same) (auto simp: view_ok_def timers_ok_def frame_known_def)

lemma view_le_capture:
  assumes "vw_capture v = None" "length (vw_awaiting v) < vw_capacity v" "vw_cadence v = None"
  shows "view_le v (v\<lparr>vw_capture := Some c, vw_tickets := k, vw_dirty := b\<rparr>)"
  using assms by (intro view_le_same) (auto simp: view_ok_def timers_ok_def frame_known_def)

text \<open>A frame whose message was queued.\<close>

definition sent_frame :: "frame_description \<Rightarrow> nat \<Rightarrow> native_target \<Rightarrow> bytes \<Rightarrow> 'n \<Rightarrow> 'n viewer \<Rightarrow> 'n viewer" where
  "sent_frame d owner target px n v =
     v\<lparr>vw_capture := None, vw_frame_sequence := vw_frame_sequence v + 1, vw_native := n,
       vw_sent := vw_sent v @ [(owner, Frame_message (next_frame d target (v\<lparr>vw_capture := None\<rparr>)) px)]\<rparr>"

lemma view_le_frame_sent:
  assumes c: "vw_capture v = Some (k, owner, target)" and o: "vw_owner v = Some owner"
  shows "view_le v (frame_sent d owner target (sent_frame d owner target px n v))"
proof -
  let ?w = "sent_frame d owner target px n v"
  let ?l = "if fd_encoding d = ''jpeg'' then True else if full_frame d then False else vw_lossy ?w"
  let ?a = "?w\<lparr>vw_awaiting := vw_awaiting ?w @ [(vw_frame_sequence ?w, target)], vw_lossy := ?l\<rparr>"
  have known: "frame_known v f \<Longrightarrow> frame_known ?a f" for f
    unfolding frame_known_def sent_frame_def by auto
  have new: "frame_known ?a (vw_frame_sequence ?w, target)"
    unfolding frame_known_def
    by (intro exI [of _ owner] exI [of _ "next_frame d target (v\<lparr>vw_capture := None\<rparr>)"] exI [of _ px])
       (simp add: sent_frame_def next_frame_def)
  have a: "view_le v ?a \<and> (view_ok v \<longrightarrow> vw_cadence ?a = None \<and> timers_ok ?a \<and> vw_capture ?a = None)"
    using c o known new by (auto simp: view_le_def view_ok_def timers_ok_def sent_frame_def)
  let ?b = "schedule_refinement owner target True ?a"
  have b: "view_le v ?b" using a view_le_schedule view_le_trans by blast
  have f: "frame_sent d owner target ?w = (if vw_mode ?b = Some ''data'' then start_cadence ?b else ?b)"
    by (simp add: frame_sent_def Let_def)
  have "view_le v (start_cadence ?b)"
  proof (rule view_le_same)
    assume v: "view_ok v"
    then have "view_ok ?b" using b by (simp add: view_le_def)
    moreover have "vw_capture ?b = None" "vw_cadence ?b = None"
      using a v same_fields [OF same_schedule [of ?a owner target True]] by simp_all
    moreover from this have "timers_ok (start_cadence ?b)" using \<open>view_ok ?b\<close> by (simp add: timers_start view_ok_def)
    ultimately show "view_ok (start_cadence ?b)"
      using same_fields [OF same_start [of ?b]] by (simp add: view_ok_def frame_known_def)
  qed (use same_fields [OF same_start [of ?b]] same_fields [OF same_schedule [of ?a owner target True]] in \<open>simp_all add: sent_frame_def\<close>)
  with b f show ?thesis by simp
qed

subsection \<open>A property every operation keeps\<close>

text \<open>
  A property that follows the evolution of the attachment's state, survives a viewer's invalidation
  with the given drain and the given handling of notices, survives every operation.
\<close>

locale view_keeper =
  fixes x :: "'n setting" and keeps :: "'n attachment \<Rightarrow> bool"
  assumes step: "keeps s \<Longrightarrow> view_le (oenv s) v \<Longrightarrow> keeps (s\<lparr>oenv := v\<rparr>)"
    and invalidating: "keeps s \<Longrightarrow> keeps (snd (invalidate (att_cancel (st_backend x)) (st_drain x) owner s))"
    and notifying: "keeps s \<Longrightarrow> keeps (st_notify x notices s)"
begin

lemma upd_keeps: "keeps s \<Longrightarrow> view_le (oenv s) (f (oenv s)) \<Longrightarrow> keeps (upd f s)"
  by (simp add: upd_def step)

lemma native_keeps: "keeps s \<Longrightarrow> keeps (upd (\<lambda>v. v\<lparr>vw_native := f (vw_native v)\<rparr>) s)"
  by (rule upd_keeps) (simp_all add: view_le_def)

text \<open>A call that is not a delivery, or one to the painted current target.\<close>

definition allowed :: "native_call \<Rightarrow> 'n attachment \<Rightarrow> bool" where
  "allowed call s \<longleftrightarrow>
     (case call of
        Deliver epoch target value \<Rightarrow> vw_ready (oenv s) = Some target \<and> target_now x s = Some target
      | _ \<Rightarrow> True)"

lemma ask_keeps:
  assumes "keeps s" "allowed call s"
  shows "keeps (snd (ask x call s))"
proof -
  let ?v = "oenv s"
  let ?r = "\<lparr>cr_call = call, cr_ready = vw_ready ?v, cr_target = bk_target (st_backend x) (vw_native ?v), cr_painted = vw_painted ?v\<rparr>"
  have "view_ok ?v \<Longrightarrow> delivery_ok ?r"
    using assms(2) by (cases call) (auto simp: delivery_ok_def allowed_def target_now_def view_ok_def)
  then have "view_le ?v (?v\<lparr>vw_native := n, vw_calls := vw_calls ?v @ [?r]\<rparr>)" for n by (rule view_le_call)
  then have "keeps (upd (\<lambda>v. v\<lparr>vw_native := n, vw_calls := vw_calls v @ [\<lparr>cr_call = call, cr_ready = vw_ready v,
      cr_target = bk_target (st_backend x) (vw_native v), cr_painted = vw_painted v\<rparr>]\<rparr>) s)" for n
    using assms(1) by (rule_tac upd_keeps)
  then show ?thesis using notifying by (simp add: ask_def Let_def split_beta)
qed

lemma tell_keeps: "keeps s \<Longrightarrow> allowed call s \<Longrightarrow> keeps (tell x call s)"
  by (simp add: tell_def ask_keeps)

lemma allowed_other [simp]:
  "allowed (Register_viewer i) s" "allowed Unregister_viewer s" "allowed (Configure_stream m) s" "allowed Refine s"
  "allowed (Select_window i) s" "allowed (Close_window i) s" "allowed (Release i) s" "allowed (Sync_clipboard i t) s"
  "allowed (Capture_target t k) s" "allowed Terminate_application s"
  by (simp_all add: allowed_def)

lemma detach_keeps: "keeps s \<Longrightarrow> keeps (att_detach x owner s)"
  unfolding att_detach_def Let_def
  by (simp add: upd_keeps tell_keeps invalidating view_le_detached) (intro impI upd_keeps tell_keeps invalidating view_le_detached; simp add: view_le_def)

lemma send_keeps:
  assumes "keeps s"
  shows "keeps (snd (send_to x owner m s))"
proof -
  have "keeps (upd (\<lambda>v. v\<lparr>vw_native := n, vw_sent := vw_sent v @ [(owner, m)]\<rparr>) s)" for n
    using assms view_le_sent by (rule upd_keeps)
  then show ?thesis by (simp add: send_to_def Let_def split_beta detach_keeps)
qed

lemma post_keeps: "keeps s \<Longrightarrow> keeps (post x owner m s)"
  by (simp add: post_def send_keeps)

lemma reply_keeps: "keeps s \<Longrightarrow> keeps (att_reply x owner request body s)"
  by (simp add: att_reply_def post_keeps)

lemma replies_keep: "keeps s \<Longrightarrow> keeps (fold (\<lambda>r. att_reply x owner r body) rs s)"
  by (induction rs arbitrary: s) (simp_all add: reply_keeps)

lemma cancel_input_keeps:
  assumes "keeps s"
  shows "keeps (cancel_input x s)"
proof (cases "vw_owner (oenv s)")
  case (Some owner)
  obtain p q u where i: "invalidate (att_cancel (st_backend x)) (st_drain x) owner s = ((p, q), u)"
    by (metis prod.exhaust)
  then have "keeps u" using invalidating [OF assms, of owner] by simp
  with i Some show ?thesis by (simp add: cancel_input_def Let_def tell_keeps replies_keep)
qed (use assms in \<open>simp add: cancel_input_def\<close>)

lemma retire_keeps: "keeps s \<Longrightarrow> keeps (retire_input x s)"
  unfolding retire_input_def by (intro cancel_input_keeps upd_keeps view_le_retired)

lemma result_keeps: "keeps s \<Longrightarrow> keeps (input_result x owner request err s)"
  by (cases err) (simp_all add: input_result_def reply_keeps retire_keeps upd_keeps view_le_def)

lemma refine_keeps: "keeps s \<Longrightarrow> keeps (refine_if_streaming x s)"
  by (simp add: refine_if_streaming_def tell_keeps)

lemma dirty_keeps: "keeps s \<Longrightarrow> keeps (upd (\<lambda>v. v\<lparr>vw_dirty := c\<rparr>) s)"
  by (rule upd_keeps) (simp_all add: view_le_def)

lemma captured_keeps:
  assumes s: "keeps s" and again: "\<And>u. keeps u \<Longrightarrow> keeps (pmp u)"
  shows "keeps (captured_by x pmp k r s)"
proof (cases "\<exists>owner target. vw_capture (oenv s) = Some (k, owner, target)")
  case True
  then obtain owner target where c: "vw_capture (oenv s) = Some (k, owner, target)" by blast
  let ?s1 = "upd (\<lambda>v. v\<lparr>vw_capture := None\<rparr>) s"
  have s1: "keeps ?s1" using s by (rule upd_keeps) (rule view_le_ended)
  show ?thesis
  proof (cases "vw_owner (oenv ?s1) \<noteq> Some owner \<or> target_now x ?s1 \<noteq> Some target")
    case True
    then have "captured_by x pmp k r s = pmp (upd (\<lambda>v. v\<lparr>vw_dirty := True\<rparr>) (refine_if_streaming x ?s1))"
      using c by (simp add: captured_by_def Let_def)
    then show ?thesis using s1 by (simp add: again dirty_keeps refine_keeps)
  next
    case False
    note here = this
    then have o: "vw_owner (oenv s) = Some owner" by (simp add: upd_def)
    show ?thesis
    proof (cases r)
      case (Frame d px)
      let ?m = "Frame_message (next_frame d target (oenv ?s1)) px"
      let ?s2 = "upd (\<lambda>v. v\<lparr>vw_frame_sequence := vw_frame_sequence v + 1\<rparr>) ?s1"
      obtain sent u where send: "send_to x owner ?m ?s2 = (sent, u)" by (cases "send_to x owner ?m ?s2")
      have r: "captured_by x pmp k r s = (if sent then pmp (upd (frame_sent d owner target) u)
          else upd (\<lambda>v. v\<lparr>vw_dirty := True\<rparr>) (refine_if_streaming x u))"
        using c here Frame send by (simp add: captured_by_def Let_def del: not_None_eq)
      show ?thesis
      proof (cases sent)
        case True
        then obtain n where "u = upd (\<lambda>v. v\<lparr>vw_native := n, vw_sent := vw_sent v @ [(owner, ?m)]\<rparr>) ?s2"
          using send by (auto simp: send_to_def Let_def split: prod.splits if_splits)
        then have "upd (frame_sent d owner target) u = s\<lparr>oenv := frame_sent d owner target (sent_frame d owner target px n (oenv s))\<rparr>"
          by (simp add: upd_def sent_frame_def)
        then have "keeps (upd (frame_sent d owner target) u)"
          using step [OF s view_le_frame_sent [OF c o]] by simp
        with True r show ?thesis by (simp add: again)
      next
        case False
        have "keeps ?s2" using s1 by (rule upd_keeps) (simp add: view_le_def)
        then have "keeps u" using send_keeps [of ?s2 owner ?m] send by simp
        with False r show ?thesis by (simp add: dirty_keeps refine_keeps)
      qed
    next
      case Unchanged
      then have "captured_by x pmp k r s = pmp (upd (schedule_refinement owner target False) ?s1)"
        using c here by (simp add: captured_by_def Let_def)
      then show ?thesis using s1 by (simp add: again upd_keeps view_le_schedule)
    next
      case (Capture_failed e)
      then have "captured_by x pmp k r s = post x owner Capture_unavailable (refine_if_streaming x (retire_input x ?s1))"
        using c here by (simp add: captured_by_def Let_def)
      then show ?thesis using s1 by (simp add: post_keeps refine_keeps retire_keeps)
    qed
  qed
next
  case False
  then have "captured_by x pmp k r s = s" by (auto simp: captured_by_def split: option.split)
  with s show ?thesis by simp
qed

lemma att_pump_keeps: "keeps s \<Longrightarrow> keeps (att_pump n x s)"
proof (induction n arbitrary: s)
  case (Suc n)
  show ?case
  proof (cases "idle_viewer x s")
    case True
    then obtain owner target where t: "vw_owner (oenv s) = Some owner" "target_now x s = Some target"
      and idle: "vw_capture (oenv s) = None" "length (vw_awaiting (oenv s)) < vw_capacity (oenv s)" "vw_cadence (oenv s) = None"
      by (auto simp: idle_viewer_def Let_def split: option.splits)
    let ?k = "vw_tickets (oenv s)"
    let ?s1 = "upd (\<lambda>v. v\<lparr>vw_capture := Some (?k, owner, target), vw_tickets := ?k + 1, vw_dirty := False\<rparr>) s"
    obtain r u where a: "ask x (Capture_target target ?k) ?s1 = (r, u)" by (cases "ask x (Capture_target target ?k) ?s1")
    have "keeps ?s1" using Suc.prems view_le_capture [OF idle] by (rule upd_keeps)
    then have "keeps u" using ask_keeps [of ?s1 "Capture_target target ?k"] a by simp
    moreover have "att_pump (Suc n) x s =
        (if r = Call_raises then captured_by x (att_pump n x) ?k (Capture_failed CAPTURE_UNAVAILABLE) u else u)"
      using True t a by (simp add: Let_def)
    ultimately show ?thesis using captured_keeps Suc.IH by simp
  qed (use Suc.prems in simp)
qed simp

lemma pump_keeps: "keeps s \<Longrightarrow> keeps (pump x s)"
  by (simp add: pump_def att_pump_keeps)

lemma damage_keeps: "keeps s \<Longrightarrow> keeps (damage x s)"
  by (simp add: damage_def pump_keeps dirty_keeps)

lemma metadata_keeps: "keeps s \<Longrightarrow> keeps (metadata_changed x s)"
  by (simp add: metadata_changed_def post_keeps split: option.split)

lemma scene_keeps: "keeps s \<Longrightarrow> keeps (scene_changed x s)"
  by (simp add: scene_changed_def damage_keeps metadata_keeps retire_keeps)

lemma cursor_keeps: "keeps s \<Longrightarrow> keeps (cursor_changed x s)"
proof -
  assume s: "keeps s"
  have "keeps (case send_to x owner m s of (sent, u) \<Rightarrow> if sent then upd (\<lambda>v. v\<lparr>vw_cursor_sent := k\<rparr>) u else u)" for owner m k
    using send_keeps [OF s, of owner m] by (auto simp: split_beta view_le_def intro: upd_keeps)
  with s show ?thesis by (auto simp: cursor_changed_def Let_def split: option.split)
qed

lemma writable_keeps: "keeps s \<Longrightarrow> keeps (writable x owner s)"
  by (simp add: writable_def pump_keeps cursor_keeps)

lemma clipboard_keeps: "keeps s \<Longrightarrow> keeps (clipboard_changed x target epoch tx s)"
  by (simp add: clipboard_changed_def Let_def post_keeps split: option.split)

lemma notice_keeps: "keeps s \<Longrightarrow> keeps (handle_notice x notice s)"
  by (cases notice)
     (simp_all add: handle_notice_def scene_keeps metadata_keeps damage_keeps cursor_keeps clipboard_keeps captured_def captured_keeps pump_keeps)

lemma notices_keep: "keeps s \<Longrightarrow> keeps (fold (handle_notice x) notices s)"
  by (induction notices arbitrary: s) (simp_all add: notice_keeps)

text \<open>The operations that input, requests and the event loop start.\<close>

lemma admit_keeps: "keeps s \<Longrightarrow> keeps (snd (att_admit x owner operation s))"
proof (cases operation)
  case (Close_op request window)
  assume "keeps s"
  then have "keeps (snd (ask x (Close_window window) s))" by (rule ask_keeps) simp
  with Close_op show ?thesis by (simp add: att_admit_def split_beta result_keeps reply_keeps)
next
  case (Input_op target request val)
  assume s: "keeps s"
  show ?thesis
  proof (cases "target_now x s \<noteq> Some target \<or> vw_ready (oenv s) \<noteq> Some target")
    case True
    with Input_op s show ?thesis by (simp add: att_admit_def reply_keeps)
  next
    case False
    then have "allowed (Deliver (vw_native_epoch (oenv s)) target val) s" by (simp add: allowed_def)
    with s have "keeps (snd (ask x (Deliver (vw_native_epoch (oenv s)) target val) s))" by (rule ask_keeps)
    with False Input_op s show ?thesis
      by (simp add: att_admit_def Let_def split_beta result_keeps reply_keeps native_keeps [of s "\<lambda>_. n" for n] split: context_answer.split)
  qed
qed

lemma overflow_keeps: "keeps s \<Longrightarrow> keeps (att_overflow x owner s)"
  unfolding att_overflow_def by (intro detach_keeps native_keeps)

lemma terminate_keeps: "keeps s \<Longrightarrow> keeps (request_terminate x owner request m s)"
  using ask_keeps [of "retire_input x s" Terminate_application]
  by (simp add: request_terminate_def Let_def split_beta reply_keeps retire_keeps)

lemma frame_ack_keeps: "keeps s \<Longrightarrow> keeps (snd (request_frame_ack x owner request m s))"
proof (cases "vw_awaiting (oenv s)")
  case (Cons f rest)
  assume s: "keeps s"
  obtain q target where f: "f = (q, target)" by (cases f)
  let ?f = "\<lambda>v. v\<lparr>vw_ready := Some target, vw_awaiting := rest, vw_painted := vw_painted v @ [(q, target)]\<rparr>"
  have "view_le (oenv s) (?f (oenv s))"
    using Cons f by (intro view_le_same) (auto simp: view_ok_def timers_ok_def frame_known_def)
  with s have "keeps (upd ?f s)" by (rule upd_keeps)
  then have r: "keeps (att_reply x owner request (Result (PStr (py ''painted''))) (upd ?f s))" by (rule reply_keeps)
  then have "keeps (snd (ask x (Sync_clipboard i t) (att_reply x owner request (Result (PStr (py ''painted''))) (upd ?f s))))" for i t
    by (rule ask_keeps) simp
  with r s Cons f show ?thesis
    by (simp add: request_frame_ack_def Let_def split_beta reply_keeps pump_keeps split: option.split)
qed (simp add: request_frame_ack_def reply_keeps)

lemma configure_keeps: "keeps s \<Longrightarrow> keeps (request_configure x owner request m s)"
proof (cases "stream_mode_of m")
  case (Some mode)
  assume s: "keeps s"
  let ?s1 = "tell x (Configure_stream mode) (upd cancel_cadence s)"
  have "keeps ?s1" using s by (simp add: tell_keeps upd_keeps view_le_cancel_cadence)
  moreover have "view_le v (v\<lparr>vw_mode := Some mode, vw_capacity := 2\<rparr>)" for v :: "'n viewer"
    by (rule view_le_same) (auto simp: view_ok_def timers_ok_def frame_known_def)
  ultimately have "keeps (damage x (upd (\<lambda>v. v\<lparr>vw_mode := Some mode, vw_capacity := 2\<rparr>) ?s1))"
    by (intro damage_keeps upd_keeps)
  with s Some show ?thesis by (simp add: request_configure_def Let_def reply_keeps)
qed (simp add: request_configure_def reply_keeps)

lemma timer_keeps: "keeps s \<Longrightarrow> keeps (view_timer_fires x t s)"
proof (cases "map_of (vw_timers (oenv s)) t")
  case (Some timer)
  assume s: "keeps s"
  have live: "(t, timer) \<in> set (vw_timers (oenv s))" using Some by (rule map_of_SomeD)
  let ?f = "\<lambda>v. v\<lparr>vw_timers := filter (\<lambda>y. fst y \<noteq> t) (vw_timers v)\<rparr>"
  show ?thesis
  proof (cases timer)
    case Cadence_timer
    have "view_le (oenv s) ((?f (oenv s))\<lparr>vw_cadence := None\<rparr>)"
    proof (rule view_le_timers)
      show "same_but_timers (oenv s) ((?f (oenv s))\<lparr>vw_cadence := None\<rparr>)"
        unfolding same_but_timers_def by (cases "oenv s") auto
    next
      assume ok: "timers_ok (oenv s)"
      then have "vw_cadence (oenv s) = Some t" using live Cadence_timer by (auto simp: timers_ok_def)
      with filter_timers [OF ok, of t] cadence_not_refinement [OF ok]
      show "timers_ok ((?f (oenv s))\<lparr>vw_cadence := None\<rparr>)" by (simp add: timers_ok_def)
    qed simp
    with s have "keeps (s\<lparr>oenv := (?f (oenv s))\<lparr>vw_cadence := None\<rparr>\<rparr>)" by (rule step)
    with Some Cadence_timer show ?thesis by (simp add: view_timer_fires_def upd_def pump_keeps)
  next
    case (Refine_timer owner target)
    have "view_le (oenv s) ((?f (oenv s))\<lparr>vw_refinement := None\<rparr>)"
    proof (rule view_le_timers)
      show "same_but_timers (oenv s) ((?f (oenv s))\<lparr>vw_refinement := None\<rparr>)"
        unfolding same_but_timers_def by (cases "oenv s") auto
    next
      assume ok: "timers_ok (oenv s)"
      then have r: "vw_refinement (oenv s) = Some t" using live Refine_timer by (auto simp: timers_ok_def)
      then have "vw_cadence (oenv s) \<noteq> Some t" using cadence_not_refinement [OF ok, of t] by auto
      with r filter_timers [OF ok, of t] show "timers_ok ((?f (oenv s))\<lparr>vw_refinement := None\<rparr>)"
        by (simp add: timers_ok_def)
    qed simp
    with s have "keeps (s\<lparr>oenv := (?f (oenv s))\<lparr>vw_refinement := None\<rparr>\<rparr>)" by (rule step)
    with Some Refine_timer show ?thesis by (simp add: view_timer_fires_def Let_def upd_def damage_keeps tell_keeps)
  qed
qed (simp add: view_timer_fires_def)

end

subsection \<open>Every setting keeps what its drain keeps\<close>

lemma keeper_at:
  assumes "\<And>s v. I s \<Longrightarrow> view_le (oenv s) v \<Longrightarrow> I (s\<lparr>oenv := v\<rparr>)"
    and "\<And>owner s. I s \<Longrightarrow> I (snd (invalidate (att_cancel b) dr owner s))"
  shows "view_keeper \<lparr>st_backend = b, st_notify = notices_at d b dr n, st_drain = dr, st_rounds = m\<rparr> I"
proof (induction d arbitrary: m)
  case 0
  with assms show ?case by unfold_locales simp_all
next
  case (Suc d)
  from view_keeper.notices_keep [OF Suc.IH] assms show ?case by unfold_locales simp_all
qed

lemma keeper_of_kept: "kept_by view_le dr I \<Longrightarrow> view_keeper (setting_at b d dr) I"
  unfolding setting_at_def
  by (rule keeper_at) (auto intro: kept_by_env kept_by_invalidate simp: att_cancel_def view_le_def)

lemma viewer_client_sel [simp]:
  "c_available (viewer_client b d) = att_available" "c_cancel (viewer_client b d) = att_cancel b"
  "c_commit (viewer_client b d) = att_commit b" "c_admit (viewer_client b d) dr = att_admit (setting_at b d dr)"
  "c_result (viewer_client b d) dr = input_result (setting_at b d dr)"
  "c_overflow (viewer_client b d) dr = att_overflow (setting_at b d dr)"
  by (simp_all add: viewer_client_def)

interpretation viewing: ordered_client "viewer_client b d" view_le for b :: "'n backend" and d
proof unfold_locales
  fix dr :: "'n attachment_op" and I s and o1 :: nat
  assume K: "kept_by view_le dr I" and s: "I s"
  show "I (snd (c_admit (viewer_client b d) dr o1 y s))" for y
    using view_keeper.admit_keeps [OF keeper_of_kept [OF K, of b d] s] by simp
  show "I (c_result (viewer_client b d) dr o1 q err s)" for q err
    using view_keeper.result_keeps [OF keeper_of_kept [OF K, of b d] s] by simp
  show "I (c_overflow (viewer_client b d) dr o1 s)"
    using view_keeper.overflow_keeps [OF keeper_of_kept [OF K, of b d] s] by simp
qed (auto simp: att_cancel_def att_commit_def split_beta view_le_def)

text \<open>The coarser evolution that a takeover follows too.\<close>

definition view_after :: "'n viewer \<Rightarrow> 'n viewer \<Rightarrow> bool" where
  "view_after v w \<longleftrightarrow>
     vw_epoch w = vw_epoch v \<and> (vw_owner v = None \<longrightarrow> vw_owner w = None) \<and> (vw_failed v \<longrightarrow> vw_failed w) \<and>
     (view_ok v \<longrightarrow> view_ok w)"

lemma after_le: "view_le v w \<Longrightarrow> view_after v w"
  by (auto simp: view_le_def view_after_def)

lemma after_trans: "view_after u v \<Longrightarrow> view_after v w \<Longrightarrow> view_after u w"
  by (auto simp: view_after_def)

lemma kept_by_after: "kept_by view_after dr I \<Longrightarrow> kept_by view_le dr I"
  by (auto simp: kept_by_def withdrawal_def after_le)

interpretation evolving: ordered_client "viewer_client b d" view_after for b :: "'n backend" and d
proof unfold_locales
  fix dr :: "'n attachment_op" and I s and o1 :: nat
  assume "kept_by view_after dr I" and s: "I s"
  then have K: "kept_by view_le dr I" by (rule_tac kept_by_after)
  show "I (snd (c_admit (viewer_client b d) dr o1 y s))" for y using K s by (rule viewing.admit_keeps)
  show "I (c_result (viewer_client b d) dr o1 q err s)" for q err using K s by (rule viewing.result_keeps)
  show "I (c_overflow (viewer_client b d) dr o1 s)" using K s by (rule viewing.overflow_keeps)
qed (auto simp: att_cancel_def att_commit_def split_beta view_after_def)

subsection \<open>Steps\<close>

lemma controllable_authorized: "controllable owner v \<Longrightarrow> authorized owner v"
  by (simp add: controllable_def authorized_def att_available_def)

locale attachment_keeper = view_keeper "viewer_setting b d" keeps
  for b :: "'n backend" and d :: nat and keeps :: "'n attachment \<Rightarrow> bool" +
  assumes enqueuing: "keeps s \<Longrightarrow> authorized owner (oenv s) \<Longrightarrow> keeps (att_enqueue b d owner operation s)"
    and completing: "keeps s \<Longrightarrow> keeps (completed (viewer_client b d) (drain (viewer_client b d)) k err s)"
    and expiring: "keeps s \<Longrightarrow> k \<in> set (oarmed s) \<Longrightarrow> keeps (expired (viewer_client b d) (drain (viewer_client b d)) k s)"
    and closing: "keeps s \<Longrightarrow> keeps (close_order (viewer_client b d) s)"
begin

lemma enqueue_input_keeps: "keeps s \<Longrightarrow> keeps (snd (enqueue_input b d owner request m s))"
  by (simp add: enqueue_input_def Let_def reply_keeps result_keeps enqueuing controllable_authorized split: input_check.split)

lemma window_keeps: "keeps s \<Longrightarrow> keeps (request_window b d owner request closes m s)"
proof -
  assume s: "keeps s"
  then have "keeps (snd (ask (viewer_setting b d) (Close_window w) s))" for w by (rule ask_keeps) simp
  moreover have "keeps (snd (ask (viewer_setting b d) (Select_window w) (retire_input (viewer_setting b d) s)))" for w
    using retire_keeps [OF s] by (rule ask_keeps) simp
  ultimately show ?thesis
    using s by (cases "dict_get m ''window''") (simp_all add: request_window_def Let_def split_beta reply_keeps enqueuing)
qed

lemma request_keeps: "keeps s \<Longrightarrow> keeps (snd (att_request b d owner request method m s))"
proof -
  assume s: "keeps s"
  then have s1: "keeps (upd (\<lambda>v. v\<lparr>vw_last_request := request\<rparr>) s)" by (rule upd_keeps) (simp add: view_le_def)
  show ?thesis
    using s s1 unfolding att_request_def Let_def
    by (simp add: reply_keeps terminate_keeps frame_ack_keeps configure_keeps damage_keeps refine_keeps enqueue_input_keeps
        cancel_input_keeps window_keeps)
qed

lemma close_keeps: "keeps s \<Longrightarrow> keeps (att_close b d s)"
proof -
  assume s: "keeps s"
  have "view_le v (cancel_refinement (cancel_cadence v))" for v :: "'n viewer"
    using view_le_cancel_cadence view_le_cancel_refinement by (rule view_le_trans)
  with s have "keeps (upd (\<lambda>v. cancel_refinement (cancel_cadence v)) s)" by (intro upd_keeps)
  then have "keeps (case vw_owner (oenv (upd (\<lambda>v. cancel_refinement (cancel_cadence v)) s)) of
      None \<Rightarrow> upd (\<lambda>v. cancel_refinement (cancel_cadence v)) s
    | Some owner \<Rightarrow> att_detach (viewer_setting b d) owner (upd (\<lambda>v. cancel_refinement (cancel_cadence v)) s))"
    by (simp add: detach_keeps split: option.split)
  then show ?thesis unfolding att_close_def Let_def by (intro upd_keeps closing view_le_ended)
qed

text \<open>Every step but \<open>attach\<close>.\<close>

lemma step_keeps:
  assumes s: "keeps s" and e: "\<And>owner. event \<noteq> Attach owner"
    and taking_over: "\<And>controls. event = Takeover controls \<Longrightarrow> keeps (upd (\<lambda>v. v\<lparr>vw_controls := controls\<rparr>) s)"
  shows "keeps (viewer_step b d event s)"
proof (cases event)
  case (Attach owner)
  with e show ?thesis by blast
next
  case (Outside n)
  with s native_keeps [of s "\<lambda>_. n"] show ?thesis by (simp add: viewer_step_def)
qed (use s in \<open>simp_all add: viewer_step_def Let_def detach_keeps request_keeps writable_keeps notice_keeps timer_keeps completing
    expiring retire_keeps close_keeps taking_over\<close>)

end

text \<open>What a step keeps, from any state the attachment can be in.\<close>

definition attachment_above ::
  "'n backend \<Rightarrow> nat \<Rightarrow> 'n viewer \<Rightarrow> nat \<Rightarrow> (nat \<times> viewer_op) list \<Rightarrow> nat set \<Rightarrow> 'n attachment \<Rightarrow> bool" where
  "attachment_above b d e o1 A T s \<longleftrightarrow> evolving.idle_above b d e o1 A T s \<and> order_settled s"

interpretation attached: attachment_keeper b d "attachment_above b d e o1 A T"
  for b :: "'n backend" and d e o1 A T
proof -
  have settled: "order_settled (s\<lparr>oenv := v\<rparr>) = order_settled s" for s :: "'n attachment" and v
    by (simp add: order_settled_def)
  have "view_keeper (viewer_setting b d) (attachment_above b d e o1 A T)"
    unfolding viewer_setting_def setting_at_def
  proof (rule keeper_at)
    fix s :: "'n attachment" and v
    assume "attachment_above b d e o1 A T s" "view_le (oenv s) v"
    then have "attachment_above b d e o1 A T s" "view_after (oenv s) v" by (simp_all add: after_le)
    then show "attachment_above b d e o1 A T (s\<lparr>oenv := v\<rparr>)"
      using kept_by_env [OF evolving.kept_by_drain_idle, of b d e o1 A T s v] by (simp add: attachment_above_def settled)
  next
    fix owner :: nat and s :: "'n attachment"
    assume "attachment_above b d e o1 A T s"
    then show "attachment_above b d e o1 A T (snd (invalidate (att_cancel b) (drain (viewer_client b d)) owner s))"
      using evolving.invalidate_done [of b d e o1 A T s owner] by (simp add: attachment_above_def)
  qed
  moreover have "attachment_keeper_axioms b d (attachment_above b d e o1 A T)"
  proof
    fix s :: "'n attachment" and owner operation k err
    assume s: "attachment_above b d e o1 A T s"
    then have i: "evolving.idle_above b d e o1 A T s" "order_settled s" by (simp_all add: attachment_above_def)
    show "attachment_above b d e o1 A T (att_enqueue b d owner operation s)"
      using evolving.enqueue_done [OF i] by (simp add: attachment_above_def att_enqueue_def)
    show c: "attachment_above b d e o1 A T (completed (viewer_client b d) (drain (viewer_client b d)) k err s)" for err
      using evolving.completed_done [OF i] by (simp add: attachment_above_def)
    show "attachment_above b d e o1 A T (expired (viewer_client b d) (drain (viewer_client b d)) k s)" if "k \<in> set (oarmed s)"
      using c that i(1) by (simp add: evolving.idle_above_def order_idle_def evolving.expired_is_completed)
    show "attachment_above b d e o1 A T (close_order (viewer_client b d) s)"
      using evolving.close_done [OF i(1)] by (simp add: attachment_above_def)
  qed
  ultimately show "attachment_keeper b d (attachment_above b d e o1 A T)" by (rule attachment_keeper.intro)
qed

lemma above_takeover:
  assumes "attachment_above b d e o1 A T s"
  shows "attachment_above b d e o1 A T (upd (\<lambda>v. v\<lparr>vw_controls := controls\<rparr>) s)"
proof -
  have "view_after (oenv s) ((oenv s)\<lparr>vw_controls := controls\<rparr>)" by (simp add: view_after_def)
  then show ?thesis
    using assms kept_by_env [OF evolving.kept_by_drain_idle, of b d e o1 A T s] by (simp add: attachment_above_def upd_def order_settled_def)
qed

subsection \<open>Runs\<close>

text \<open>The invariant of an attachment between two steps.\<close>

definition attachment_ok :: "'n attachment \<Rightarrow> bool" where
  "attachment_ok s \<longleftrightarrow> order_idle s \<and> order_settled s \<and> view_ok (oenv s)"

lemma above_self: "attachment_ok s \<Longrightarrow> attachment_above b d (oenv s) o1 (admitted_by o1 s) {} s"
  by (simp add: attachment_ok_def attachment_above_def evolving.idle_above_def after_le)

lemma above_ok: "attachment_above b d e o1 A T s \<Longrightarrow> view_ok e \<Longrightarrow> attachment_ok s"
  by (auto simp: attachment_ok_def attachment_above_def evolving.idle_above_def view_after_def)

lemma ok_upd: "attachment_ok s \<Longrightarrow> view_ok (f (oenv s)) \<Longrightarrow> attachment_ok (upd f s)"
  by (simp add: attachment_ok_def upd_def order_idle_def order_good_def order_inv_def order_history_def order_settled_def)

lemma cancels_owner: "vw_owner (cancel_cadence (cancel_refinement v)) = vw_owner v"
  using same_fields [OF same_trans [OF same_cancel_refinement same_cancel_cadence]] by blast

lemma detach_vacates:
  assumes "attachment_ok s"
  shows "attachment_ok (att_detach (viewer_setting b d) owner s) \<and>
    (vw_owner (oenv s) = Some owner \<longrightarrow> vw_owner (oenv (att_detach (viewer_setting b d) owner s)) = None)"
proof (cases "vw_owner (oenv s) = Some owner")
  case True
  let ?x = "viewer_setting b d"
  let ?s1 = "upd (\<lambda>v. cancel_cadence (cancel_refinement (v\<lparr>vw_owner := None, vw_ready := None, vw_awaiting := []\<rparr>))) s"
  have ok1: "attachment_ok ?s1"
    using assms view_le_detached [of "oenv s"] by (intro ok_upd) (simp_all add: attachment_ok_def view_le_def)
  have none: "vw_owner (oenv ?s1) = None"
    by (simp add: upd_def cancels_owner)
  let ?s4 = "upd (\<lambda>v. v\<lparr>vw_native_epoch := 0\<rparr>) (tell ?x Unregister_viewer
      (snd (invalidate (att_cancel (st_backend ?x)) (st_drain ?x) owner ?s1)))"
  let ?I = "attachment_above b d (oenv ?s1) 0 (admitted_by 0 ?s1) {}"
  have "?I ?s1" by (rule above_self [OF ok1])
  then have "?I (snd (invalidate (att_cancel (st_backend ?x)) (st_drain ?x) owner ?s1))" by (rule attached.invalidating)
  then have "?I (tell ?x Unregister_viewer (snd (invalidate (att_cancel (st_backend ?x)) (st_drain ?x) owner ?s1)))"
    by (rule attached.tell_keeps) (simp add: attached.allowed_other)
  then have a: "?I ?s4" by (rule attached.upd_keeps) (simp add: view_le_def)
  then have "vw_owner (oenv ?s4) = None"
    using none by (simp add: attachment_above_def evolving.idle_above_def view_after_def)
  moreover have "attachment_ok ?s4" using above_ok [OF a] ok1 by (simp add: attachment_ok_def)
  moreover have "att_detach ?x owner s = ?s4" using True by (simp add: att_detach_def Let_def)
  ultimately show ?thesis by simp
qed (use assms in \<open>simp add: att_detach_def\<close>)

lemma ok_attach: "attachment_ok s \<Longrightarrow> attachment_ok (att_attach (viewer_setting b d) owner s)"
proof -
  assume s: "attachment_ok s"
  let ?x = "viewer_setting b d"
  let ?s1 = "case vw_owner (oenv s) of None \<Rightarrow> s | Some old \<Rightarrow> att_detach ?x old s"
  have s1: "attachment_ok ?s1" "vw_owner (oenv ?s1) = None"
    using s detach_vacates [OF s] by (simp_all split: option.split)
  let ?f = "\<lambda>v. v\<lparr>vw_owner := Some owner, vw_last_request := 0, vw_mode := None, vw_capacity := 1, vw_lossy := False,
     vw_cursor_sent := None, vw_epoch := vw_epoch v + 1, vw_failed := False, vw_painted := []\<rparr>"
  let ?s2 = "upd ?f ?s1"
  have "view_ok (?f (oenv ?s1))"
    using s1 by (auto simp: attachment_ok_def view_ok_def timers_ok_def frame_known_def)
  with s1(1) have s2: "attachment_ok ?s2" by (rule ok_upd)
  let ?I = "attachment_above b d (oenv ?s2) 0 (admitted_by 0 ?s2) {}"
  have "?I ?s2" by (rule above_self [OF s2])
  then have s3: "?I (snd (ask ?x (Register_viewer e) ?s2))" for e by (rule attached.ask_keeps) (simp add: attached.allowed_other)
  have "?I (damage ?x (cursor_changed ?x (post ?x owner m (upd (\<lambda>v. v\<lparr>vw_native_epoch := i\<rparr>) (snd (ask ?x (Register_viewer e) ?s2))))))"
    for e i m
    using s3 by (intro attached.damage_keeps attached.cursor_keeps attached.post_keeps attached.upd_keeps) (simp_all add: view_le_def)
  then have "?I (att_attach ?x owner s)" unfolding att_attach_def Let_def by (simp add: split_beta)
  moreover have "view_ok (oenv ?s2)" using s2 unfolding attachment_ok_def by blast
  ultimately show ?thesis by (rule above_ok)
qed

lemma ok_step: "attachment_ok s \<Longrightarrow> attachment_ok (viewer_step b d event s)"
proof (cases "\<exists>owner. event = Attach owner")
  case True
  assume "attachment_ok s"
  with True show ?thesis by (auto simp: viewer_step_def ok_attach)
next
  case False
  assume s: "attachment_ok s"
  from attached.step_keeps [OF above_self [OF s] _ above_takeover [OF above_self [OF s]]] False s show ?thesis
    by (intro above_ok) (auto simp: attachment_ok_def)
qed

lemma ok_run: "attachment_ok s \<Longrightarrow> attachment_ok (viewer_run b d events s)"
  unfolding viewer_run_def by (induction events arbitrary: s) (simp_all add: ok_step)

definition init_attachment :: "'n \<Rightarrow> int \<Rightarrow> (nat \<Rightarrow> bool) \<Rightarrow> 'n attachment" where
  "init_attachment n epoch controls = new_order (new_viewer n epoch controls)"

lemma ok_init: "attachment_ok (init_attachment n epoch controls)"
  using order_good_new [of "new_viewer n epoch controls"]
  by (simp add: attachment_ok_def order_idle_def order_settled_def init_attachment_def new_order_def new_viewer_def
      view_ok_def timers_ok_def)

text \<open>Between two attachments, the state moves along \<open>view_after\<close>.\<close>

lemma above_run:
  assumes "attachment_above b d e o1 A T s" "\<forall>owner. Attach owner \<notin> set events"
  shows "attachment_above b d e o1 A T (viewer_run b d events s)"
  using assms unfolding viewer_run_def
proof (induction events arbitrary: s)
  case (Cons event events)
  have "attachment_above b d e o1 A T (viewer_step b d event s)"
    using Cons.prems by (intro attached.step_keeps above_takeover) auto
  with Cons show ?case by simp
qed simp

lemma failed_viewer_shut: "vw_failed v \<Longrightarrow> evolving.shut b d v owner"
  by (auto simp: evolving.shut_def view_after_def att_available_def)

lemma notices_none: "notices_at d b dr n [] s = s"
  by (cases d) simp_all

lemma pump_one_round:
  assumes "\<forall>target k v. fst (bk_call (st_backend x) (Capture_target target k) v) = Call_raises \<longrightarrow>
      fst (snd (bk_call (st_backend x) (Capture_target target k) v)) = [] \<and>
      bk_target (st_backend x) (snd (snd (bk_call (st_backend x) (Capture_target target k) v))) = bk_target (st_backend x) v"
    and quiet: "\<And>s. st_notify x [] s = s"
  shows "att_pump (Suc m) x s = att_pump 1 x s"
proof (cases "idle_viewer x s")
  case True
  then obtain owner target where t: "vw_owner (oenv s) = Some owner" "target_now x s = Some target"
    by (auto simp: idle_viewer_def Let_def split: option.splits)
  let ?k = "vw_tickets (oenv s)"
  let ?s1 = "upd (\<lambda>v. v\<lparr>vw_capture := Some (?k, owner, target), vw_tickets := ?k + 1, vw_dirty := False\<rparr>) s"
  obtain r u where a: "ask x (Capture_target target ?k) ?s1 = (r, u)" by (cases "ask x (Capture_target target ?k) ?s1")
  have "captured_by x p ?k (Capture_failed e) u = captured_by x q ?k (Capture_failed e) u" if "r = Call_raises" for p q e
  proof -
    obtain r' ns n where c': "bk_call (st_backend x) (Capture_target target ?k) (vw_native (oenv s)) = (r', ns, n)"
      by (cases "bk_call (st_backend x) (Capture_target target ?k) (vw_native (oenv s))") auto
    then have "r' = r" using a by (simp add: ask_def Let_def upd_def)
    with c' that have c: "bk_call (st_backend x) (Capture_target target ?k) (vw_native (oenv s)) = (Call_raises, ns, n)" by simp
    then have "ns = [] \<and> bk_target (st_backend x) n = Some target"
      using assms(1) [rule_format, of target ?k "vw_native (oenv s)"] t(2) by (simp add: target_now_def)
    with c a quiet have "vw_owner (oenv u) = Some owner \<and> vw_capture (oenv u) = Some (?k, owner, target) \<and> target_now x u = Some target"
      using t by (auto simp: ask_def Let_def upd_def target_now_def)
    then show ?thesis by (simp add: captured_by_def Let_def upd_def target_now_def)
  qed
  with True t a show ?thesis by (simp add: Let_def)
qed simp

subsection \<open>Properties\<close>

text \<open>C4: In every run, whatever the connection, the native side, text completions, timers and takeovers do in
  any order, an input operation is delivered only to the target that is the native side's current one and
  that is ready, and that target is one of which the viewer acknowledged painting a frame in the
  connection; every acknowledged frame was sent to a viewer in that connection, for that target.\<close>
theorem input_follows_painted_frame:
  "(\<forall>r \<in> set (vw_calls (oenv (viewer_run b d events (init_attachment n epoch controls)))).
      \<forall>i target val. cr_call r = Deliver i target val \<longrightarrow>
        cr_ready r = Some target \<and> cr_target r = Some target \<and> (\<exists>q. (q, target) \<in> set (cr_painted r))) \<and>
   (\<forall>f \<in> set (vw_painted (oenv (viewer_run b d events (init_attachment n epoch controls)))).
      frame_known (oenv (viewer_run b d events (init_attachment n epoch controls))) f)"
proof -
  let ?v = "oenv (viewer_run b d events (init_attachment n epoch controls))"
  have "attachment_ok (viewer_run b d events (init_attachment n epoch controls))" by (rule ok_run [OF ok_init])
  then have "view_ok ?v" by (simp add: attachment_ok_def)
  then have "list_all delivery_ok (vw_calls ?v)" "\<forall>f \<in> set (vw_painted ?v). frame_known ?v f" by (simp_all add: view_ok_def)
  then show ?thesis by (fastforce simp: list_all_iff delivery_ok_def)
qed

text \<open>Once an input error has failed a viewer's input, nothing of it is admitted again until a viewer
  attaches anew.\<close>
theorem failed_viewer_admits_nothing:
  assumes "vw_failed (oenv (viewer_run b d events (init_attachment n epoch controls)))"
    and "\<forall>owner. Attach owner \<notin> set later"
  shows "admitted_by owner (viewer_run b d later (viewer_run b d events (init_attachment n epoch controls))) =
      admitted_by owner (viewer_run b d events (init_attachment n epoch controls)) \<and>
    vw_failed (oenv (viewer_run b d later (viewer_run b d events (init_attachment n epoch controls))))"
proof -
  let ?s = "viewer_run b d events (init_attachment n epoch controls)"
  have "attachment_above b d (oenv ?s) owner (admitted_by owner ?s) {} ?s" by (rule above_self [OF ok_run [OF ok_init]])
  from above_run [OF this assms(2)] assms(1) failed_viewer_shut [OF assms(1), of b d owner] show ?thesis
    by (simp add: attachment_above_def evolving.idle_above_def view_after_def)
qed

text \<open>The attachment is bounded in every run: at most two frames are unacknowledged or being captured, at
  most 256 operations are queued with one deadline per outstanding text, and the live timers are exactly
  the refinement's and the cadence's, one each at most.\<close>
theorem attachment_bounded:
  "let s = viewer_run b d events (init_attachment n epoch controls); v = oenv s in
     length (vw_awaiting v) + (if vw_capture v = None then 0 else 1) \<le> 2 \<and> length (oq s) \<le> queue_limit \<and>
     length (oarmed s) = (if opend s = None then 0 else 1) \<and> distinct (map fst (vw_timers v)) \<and>
     set (map fst (vw_timers v)) = set_option (vw_refinement v) \<union> set_option (vw_cadence v)"
proof -
  let ?s = "viewer_run b d events (init_attachment n epoch controls)"
  have ok: "attachment_ok ?s" by (rule ok_run [OF ok_init])
  then have t: "timers_ok (oenv ?s)" by (simp add: attachment_ok_def view_ok_def)
  have "set (map fst (vw_timers (oenv ?s))) = set_option (vw_refinement (oenv ?s)) \<union> set_option (vw_cadence (oenv ?s))"
    using live_timers [OF t] by simp
  moreover have "length (oarmed ?s) = (if opend ?s = None then 0 else 1)" "length (oq ?s) \<le> queue_limit"
    using ok by (cases "opend ?s"; simp add: attachment_ok_def order_idle_def order_good_def order_inv_def)+
  moreover have "length (vw_awaiting (oenv ?s)) + (if vw_capture (oenv ?s) = None then 0 else 1) \<le> 2"
    using ok by (simp add: attachment_ok_def view_ok_def)
  ultimately show ?thesis using t unfolding Let_def timers_ok_def by blast
qed

text \<open>The repetition inside \<open>pump\<close> ends after its first round when a capture that the backend refuses at once
  has not changed the target or detached the viewer: more rounds than one make no difference.\<close>
theorem pump_settles_in_one_round:
  assumes "\<forall>target k v. fst (bk_call b (Capture_target target k) v) = Call_raises \<longrightarrow>
      fst (snd (bk_call b (Capture_target target k) v)) = [] \<and>
      bk_target b (snd (snd (bk_call b (Capture_target target k) v))) = bk_target b v"
  shows "att_pump (Suc m) (viewer_setting b d) s = att_pump 1 (viewer_setting b d) s"
  using assms by (intro pump_one_round) (simp_all add: viewer_setting_def setting_at_def notices_none)


subsection \<open>Witnesses\<close>

definition sample_target :: native_target where "sample_target = \<lparr>tg_window = 1, tg_generation = 4\<rparr>"

text \<open>A native side with one target, and a connection that takes every message.\<close>

definition calm_backend :: "unit backend" where
  "calm_backend =
     \<lparr>bk_call = (\<lambda>call u. (Call_value 1, [], ())), bk_target = (\<lambda>u. Some sample_target), bk_snapshot = (\<lambda>u. PNone),
      bk_cursor = (\<lambda>u. None), bk_cursor_revision = (\<lambda>u. 0), bk_context = (\<lambda>target u. (No_context, ())),
      bk_clipboard_token = (\<lambda>target u. None), bk_commit = (\<lambda>route token tx k u. (Raised, ())), bk_cancel = (\<lambda>route token u. ()),
      bk_send = (\<lambda>owner m u. (Sent, ())), bk_disconnect = (\<lambda>owner u. ()), bk_frame_pending = (\<lambda>owner u. False),
      bk_cursor_pending = (\<lambda>owner u. False), bk_terminates = False\<rparr>"

definition sample_frame :: frame_description where
  "sample_frame = \<lparr>fd_encoding = ''png'', fd_width = 2, fd_height = 2, fd_x = 0, fd_y = 0, fd_region_width = 2, fd_region_height = 2\<rparr>"

definition key_message :: operation where
  "key_message = [(py ''connection'', PInt 1), (py ''window'', PInt 1), (py ''generation'', PInt 4),
     (py ''operation'', PDict [(py ''kind'', PStr (py ''key'')), (py ''code'', PInt 30), (py ''pressed'', PBool True)])]"

definition typing_events :: "unit viewer_event list" where
  "typing_events =
     [Attach 5, Notice (Captured_notice 0 (Frame sample_frame [0])), Request 5 1 ''frame_ack'' [(py ''frame'', PInt 1)],
      Request 5 2 ''input'' key_message]"

definition typing_state :: "unit attachment" where
  "typing_state = viewer_run calm_backend 1 typing_events (init_attachment () 0 (\<lambda>owner. True))"

lemma typing_calls:
  "map cr_call (vw_calls (oenv typing_state)) =
    [Register_viewer 1, Capture_target sample_target 0, Sync_clipboard 1 sample_target, Deliver 1 sample_target
      [(py ''kind'', PStr (py ''key'')), (py ''code'', PInt 30), (py ''pressed'', PBool True)]]"
  by code_simp

lemma input_follows_painted_frame_witness:
  "\<exists>q. (q, sample_target) \<in> set (cr_painted (vw_calls (oenv typing_state) ! 3))"
proof -
  let ?r = "vw_calls (oenv typing_state) ! 3"
  have c: "length (vw_calls (oenv typing_state)) = 4"
    "cr_call ?r = Deliver 1 sample_target [(py ''kind'', PStr (py ''key'')), (py ''code'', PInt 30), (py ''pressed'', PBool True)]"
    using arg_cong [OF typing_calls, of length] arg_cong [OF typing_calls, of "\<lambda>l. l ! 3"] by simp_all
  then have "?r \<in> set (vw_calls (oenv typing_state))" by simp
  with c(2) input_follows_painted_frame [of calm_backend 1 typing_events "()" 0 "\<lambda>owner. True"] show ?thesis
    unfolding typing_state_def by blast
qed

definition bad_message :: operation where
  "bad_message = [(py ''connection'', PInt 1), (py ''window'', PInt 1), (py ''generation'', PInt 4),
     (py ''operation'', PDict [(py ''kind'', PStr (py ''key''))])]"

definition failing_events :: "unit viewer_event list" where
  "failing_events =
     [Attach 5, Notice (Captured_notice 0 (Frame sample_frame [0])), Request 5 1 ''frame_ack'' [(py ''frame'', PInt 1)],
      Request 5 2 ''input'' bad_message]"

lemma failing_failed: "vw_failed (oenv (viewer_run calm_backend 1 failing_events (init_attachment () 0 (\<lambda>owner. True))))"
  by code_simp

lemma failed_viewer_admits_nothing_witness:
  "vw_failed (oenv (viewer_run calm_backend 1 [Notice Damage_notice, Timer 0]
     (viewer_run calm_backend 1 failing_events (init_attachment () 0 (\<lambda>owner. True)))))"
  by (rule failed_viewer_admits_nothing [OF failing_failed, THEN conjunct2]) simp

lemma pump_settles_in_one_round_witness:
  "att_pump 7 (viewer_setting calm_backend 1) typing_state = att_pump 1 (viewer_setting calm_backend 1) typing_state"
  using pump_settles_in_one_round [of calm_backend 6 1 typing_state] by (simp add: calm_backend_def)

end
