(* ===== verification/Helper.thy ===== *)
theory Helper
  imports Attachment_Safety
begin

section \<open>The viewers of one application (desktop\_helper.py)\<close>

text \<open>
  \<open>DesktopApplication\<close> gives every viewer an attachment of its own on the one native backend and lets
  one viewer control. The attachments share the outside \<open>ap_native\<close> and see the controller through
  \<open>can_control\<close>, so both are handed to an attachment when one of its methods runs. What a native call
  of one attachment notifies to the others arrives as steps of theirs.

  \<open>DesktopControl\<close> calls \<open>takeover\<close> with its current peer, which is the controller or was detached
  before (\<open>Control\<close>), so the previous controller is read from the state.
\<close>

record 'n application =
  ap_attachments :: "(nat \<times> 'n attachment) list"
  ap_controller :: "nat option"
  ap_epoch :: int
  ap_native :: 'n

definition new_application :: "'n \<Rightarrow> 'n application" where
  "new_application n = \<lparr>ap_attachments = [], ap_controller = None, ap_epoch = 0, ap_native = n\<rparr>"

definition lend :: "'n application \<Rightarrow> 'n attachment \<Rightarrow> 'n attachment" where
  "lend s a = upd (\<lambda>v. v\<lparr>vw_native := ap_native s, vw_controls := (\<lambda>p. ap_controller s = Some p)\<rparr>) a"

text \<open>
  A method of the attachment of \<open>owner\<close>. A send that loses the connection closes the peer, which detaches
  the viewer here as well: the attachment is then without an owner.
\<close>

definition drop_viewer :: "nat \<Rightarrow> 'n application \<Rightarrow> 'n application" where
  "drop_viewer owner s =
     s\<lparr>ap_attachments := AList.delete owner (ap_attachments s),
       ap_controller := (if ap_controller s = Some owner then None else ap_controller s)\<rparr>"

definition on_attachment :: "nat \<Rightarrow> 'n attachment_op \<Rightarrow> 'n application \<Rightarrow> 'n application" where
  "on_attachment owner f s =
     (case map_of (ap_attachments s) owner of
        None \<Rightarrow> s
      | Some a \<Rightarrow>
          let a1 = f (lend s a); s1 = s\<lparr>ap_native := vw_native (oenv a1)\<rparr>
          in if vw_owner (oenv a1) = None then drop_viewer owner s1
             else s1\<lparr>ap_attachments := AList.update owner a1 (ap_attachments s)\<rparr>)"

definition app_attach :: "'n backend \<Rightarrow> nat \<Rightarrow> nat \<Rightarrow> 'n application \<Rightarrow> 'n application" where
  "app_attach b d owner s =
     (let n = ap_epoch s + 1;
          a = init_attachment (ap_native s) (n - 1) (\<lambda>p. False);
          s1 = s\<lparr>ap_epoch := n, ap_attachments := AList.update owner a (ap_attachments s)\<rparr>
      in on_attachment owner (att_attach (viewer_setting b d) owner) s1)"

definition app_takeover :: "'n backend \<Rightarrow> nat \<Rightarrow> nat option \<Rightarrow> nat option \<Rightarrow> 'n application \<Rightarrow> 'n application" where
  "app_takeover b d previous owner s =
     (let s1 = (case previous of
                  None \<Rightarrow> s
                | Some p \<Rightarrow> if previous \<noteq> owner then on_attachment p (retire_input (viewer_setting b d)) s else s)
      in s1\<lparr>ap_controller :=
           (case owner of None \<Rightarrow> None | Some p \<Rightarrow> if map_of (ap_attachments s1) p = None then None else Some p)\<rparr>)"

definition app_detach :: "'n backend \<Rightarrow> nat \<Rightarrow> nat \<Rightarrow> 'n application \<Rightarrow> 'n application" where
  "app_detach b d owner s =
     (case map_of (ap_attachments s) owner of
        None \<Rightarrow> drop_viewer owner s
      | Some a \<Rightarrow> drop_viewer owner (s\<lparr>ap_native := vw_native (oenv (att_detach (viewer_setting b d) owner (lend s a)))\<rparr>))"

definition app_request :: "'n backend \<Rightarrow> nat \<Rightarrow> nat \<Rightarrow> int \<Rightarrow> string \<Rightarrow> operation \<Rightarrow> 'n application \<Rightarrow> 'n application" where
  "app_request b d owner request method m = on_attachment owner (\<lambda>a. snd (att_request b d owner request method m a))"

definition app_writable :: "'n backend \<Rightarrow> nat \<Rightarrow> nat \<Rightarrow> 'n application \<Rightarrow> 'n application" where
  "app_writable b d owner = on_attachment owner (writable (viewer_setting b d) owner)"

definition app_close :: "'n backend \<Rightarrow> nat \<Rightarrow> 'n application \<Rightarrow> 'n application" where
  "app_close b d s = fold (app_detach b d) (map fst (ap_attachments s)) s"

text \<open>The calls of the control socket, what the native side and the event loop do to one attachment, and
  changes of the outside. A peer authenticates once, so it is attached once.\<close>

datatype 'n app_event =
    App_attach nat
  | App_takeover "nat option"
  | App_detach nat
  | App_request nat int string operation
  | App_writable nat
  | App_notice nat viewer_notice
  | App_timer nat nat
  | App_completed nat nat "code option"
  | App_deadline nat nat
  | App_outside 'n
  | App_close

definition app_step :: "'n backend \<Rightarrow> nat \<Rightarrow> 'n app_event \<Rightarrow> 'n application \<Rightarrow> 'n application" where
  "app_step b d event s =
     (case event of
        App_attach owner \<Rightarrow> if map_of (ap_attachments s) owner = None then app_attach b d owner s else s
      | App_takeover owner \<Rightarrow> app_takeover b d (ap_controller s) owner s
      | App_detach owner \<Rightarrow> app_detach b d owner s
      | App_request owner request method m \<Rightarrow> app_request b d owner request method m s
      | App_writable owner \<Rightarrow> app_writable b d owner s
      | App_notice p notice \<Rightarrow> on_attachment p (viewer_step b d (Notice notice)) s
      | App_timer p t \<Rightarrow> on_attachment p (viewer_step b d (Timer t)) s
      | App_completed p k err \<Rightarrow> on_attachment p (viewer_step b d (Text_completed k err)) s
      | App_deadline p k \<Rightarrow> on_attachment p (viewer_step b d (Text_deadline k)) s
      | App_outside n \<Rightarrow> s\<lparr>ap_native := n\<rparr>
      | App_close \<Rightarrow> app_close b d s)"

definition app_run :: "'n backend \<Rightarrow> nat \<Rightarrow> 'n app_event list \<Rightarrow> 'n \<Rightarrow> 'n application" where
  "app_run b d events n = fold (app_step b d) events (new_application n)"

subsection \<open>One viewer's operations stay its own\<close>

definition owned :: "'o \<Rightarrow> ('o, 'p, 'a, 't, 'e) order \<Rightarrow> bool" where
  "owned p s \<longleftrightarrow> (\<forall>y \<in> set (oq s). fst y = p) \<and> (\<forall>pd. opend s = Some pd \<longrightarrow> p_owner pd = p)"

definition silent :: "('o, 'p, 'a, 't, 'e) order \<Rightarrow> bool" where
  "silent s \<longleftrightarrow> oq s = [] \<and> opend s = None"

lemma silent_owned: "silent s \<Longrightarrow> owned p s"
  by (simp add: silent_def owned_def)

lemma owned_shrinks: "owned p x \<Longrightarrow> shrinks x y \<Longrightarrow> owned p y"
  unfolding owned_def shrinks_def same_delivery_def dropped_delivery_def by (auto dest: list_emb_set)

lemma silent_shrinks: "silent x \<Longrightarrow> shrinks x y \<Longrightarrow> silent y"
  by (auto simp: silent_def shrinks_def same_delivery_def dropped_delivery_def)

lemma silent_drain: "silent s \<Longrightarrow> silent (drain c s) \<and> oenv (drain c s) = oenv s"
  by (simp add: silent_def drain_def)

context ordered_client
begin

lemma owned_withdrawal: "owned p x \<and> le e (oenv x) \<Longrightarrow> withdrawal le x y \<Longrightarrow> owned p y \<and> le e (oenv y)"
  unfolding withdrawal_def using owned_shrinks [of p x y] le_trans [of e "oenv x" "oenv y"] by blast

lemma owned_start:
  assumes "owned p s" "le e (oenv s)"
  shows "owned p (start_delivery c p q ad tk tx s) \<and> le e (oenv (start_delivery c p q ad tk tx s))"
proof -
  let ?r = "c_commit c ad tk tx (oticket s) (oenv s)"
  let ?s1 = "s\<lparr>opend := Some (Pending (oticket s) p q ad tk), oticket := oticket s + 1,
      otimer := Some (oticket s), oarmed := oarmed s @ [oticket s], oenv := snd ?r\<rparr>"
  have s1: "owned p ?s1 \<and> le e (oenv ?s1)"
    using assms le_trans [OF assms(2) commit_le] by (simp add: owned_def)
  have d: "owned p (completed c (\<lambda>x. x) k err ?s1) \<and> le e (oenv (completed c (\<lambda>x. x) k err ?s1))" for k err
    using s1 completed_withdraws by (rule owned_withdrawal)
  show ?thesis
    using s1 d [of "oticket s"] unfolding start_delivery_pending Let_def by (cases "fst ?r") simp_all
qed

lemma owned_loop:
  assumes "owned p s" "le e (oenv s)"
  shows "owned p (drain_loop c n s) \<and> le e (oenv (drain_loop c n s))"
  using assms
proof (induction n arbitrary: s)
  case (Suc n)
  show ?case
  proof (cases "oq s = [] \<or> opend s \<noteq> None \<or> oclosed s")
    case True
    then show ?thesis using Suc.prems by (auto split: list.split)
  next
    case False
    then obtain ow y rest where q: "oq s = (ow, y) # rest" by (cases "oq s") auto
    then have own: "ow = p" "owned p (s\<lparr>oq := rest\<rparr>)" using Suc.prems(1) by (auto simp: owned_def)
    let ?s2 = "s\<lparr>oq := rest, oadmitted := oadmitted s @ [(ow, y)]\<rparr>"
    obtain r s3 where adm: "c_admit c (\<lambda>x. x) ow y ?s2 = (r, s3)" by (cases "c_admit c (\<lambda>x. x) ow y ?s2")
    have "owned p ?s2" using own by (simp add: owned_def)
    moreover have w: "withdrawal le ?s2 s3" using admit_withdraws [of ?s2 ow y] adm by simp
    ultimately have s3: "owned p s3" "le e (oenv s3)"
      using owned_shrinks Suc.prems(2) le_trans unfolding withdrawal_def by auto
    have s4: "owned p (start_delivery c ow sq ad tk tx s3)" "le e (oenv (start_delivery c ow sq ad tk tx s3))" for sq ad tk tx
      using owned_start [OF s3] own(1) by blast+
    have skip: "owned p (drain_loop c n (s\<lparr>oq := rest\<rparr>)) \<and> le e (oenv (drain_loop c n (s\<lparr>oq := rest\<rparr>)))"
      using own(2) Suc.prems(2) by (intro Suc.IH) simp_all
    show ?thesis
    proof (cases r)
      case None
      with skip Suc.IH [OF s3] False q adm show ?thesis by (simp add: Let_def)
    next
      case (Some t)
      obtain sq ad tk tx where "t = (sq, ad, tk, tx)" by (cases t) auto
      with Some skip Suc.IH [OF s4] False q adm show ?thesis by (simp add: Let_def)
    qed
  qed
qed simp

lemma kept_by_owned: "kept_by le (drain c) (\<lambda>s. owned p s \<and> le e (oenv s))"
  unfolding kept_by_def
proof (intro conjI allI impI)
  fix x y :: "('o, 'p, 'a, 't, 'e) order"
  assume "owned p x \<and> le e (oenv x)" "withdrawal le x y"
  from owned_withdrawal [OF this] show "owned p y" "le e (oenv y)" by simp_all
next
  fix x :: "('o, 'p, 'a, 't, 'e) order"
  assume x: "owned p x \<and> le e (oenv x)"
  show "owned p (drain c x)"
  proof (cases "odraining x \<or> oclosed x")
    case False
    have "owned p (x\<lparr>odraining := True\<rparr>)" "le e (oenv (x\<lparr>odraining := True\<rparr>))" using x by (simp_all add: owned_def)
    from owned_loop [OF this] have "owned p (drain_loop c (length (oq x)) (x\<lparr>odraining := True\<rparr>))" by blast
    with False show ?thesis by (simp add: drain_def owned_def)
  qed (use x in \<open>simp add: drain_def\<close>)
  show "le e (oenv (drain c x))"
  proof (cases "odraining x \<or> oclosed x")
    case False
    have "owned p (x\<lparr>odraining := True\<rparr>)" "le e (oenv (x\<lparr>odraining := True\<rparr>))" using x by (simp_all add: owned_def)
    from owned_loop [OF this] have "le e (oenv (drain_loop c (length (oq x)) (x\<lparr>odraining := True\<rparr>)))" by blast
    with False show ?thesis by (simp add: drain_def)
  qed (use x in \<open>simp add: drain_def\<close>)
qed

lemma kept_by_silent: "kept_by le (drain c) (\<lambda>s. silent s \<and> le e (oenv s))"
  unfolding kept_by_def
proof (intro conjI allI impI)
  fix x y :: "('o, 'p, 'a, 't, 'e) order"
  assume "silent x \<and> le e (oenv x)" "withdrawal le x y"
  then show "silent y" "le e (oenv y)"
    unfolding withdrawal_def using silent_shrinks [of x y] le_trans [of e "oenv x" "oenv y"] by blast+
next
  fix x :: "('o, 'p, 'a, 't, 'e) order"
  assume x: "silent x \<and> le e (oenv x)"
  with silent_drain [of x c] show "silent (drain c x)" "le e (oenv (drain c x))" by simp_all
qed

lemma expired_keeps:
  assumes K: "kept_by le dr I" and s: "I s" and timers: "\<And>u a t. I u \<Longrightarrow> I (u\<lparr>oarmed := a, otimer := t\<rparr>)"
  shows "I (expired c dr k s)"
proof -
  have "I (s\<lparr>oarmed := remove1 k (oarmed s), otimer := otimer s\<rparr>)" using s by (rule timers)
  then have "I (s\<lparr>oarmed := remove1 k (oarmed s)\<rparr>)" by (cases s) simp
  moreover have "I (completed c dr k err (s\<lparr>oarmed := remove1 k (oarmed s), otimer := None\<rparr>))" for err
    using K timers [OF s] by (rule completed_keeps)
  ultimately show ?thesis by (simp add: expired_def Let_def split: option.split)
qed

lemma enqueue_keeps:
  assumes K: "kept_by le dr I" and s: "I s"
    and append: "I (s\<lparr>oq := oq s @ [(ow, y)], oenqueued := oenqueued s @ [(ow, y)]\<rparr>)"
  shows "I (enqueue c dr ow y s)"
proof -
  have "I (snd (invalidate (c_cancel c) dr ow (c_overflow c dr ow s)))"
    using K overflow_keeps [OF K s] le_refl cancel_le by (rule kept_by_invalidate)
  with s kept_by_drain [OF K append] show ?thesis by (simp add: enqueue_def)
qed

end

subsection \<open>What a viewer's operations keep\<close>

definition own_view :: "nat \<Rightarrow> 'n viewer \<Rightarrow> 'n attachment \<Rightarrow> bool" where
  "own_view p e s \<longleftrightarrow> vw_owner e = Some p \<and> owned p s \<and> view_le e (oenv s)"

definition idle_view :: "nat \<Rightarrow> 'n viewer \<Rightarrow> 'n attachment \<Rightarrow> bool" where
  "idle_view p e s \<longleftrightarrow> vw_owner e = Some p \<and> \<not> vw_controls e p \<and> silent s \<and> view_le e (oenv s)"

lemma kept_own: "kept_by view_le (drain (viewer_client b d)) (own_view p e)"
  using viewing.kept_by_owned [of b d p e] unfolding kept_by_def own_view_def by blast

lemma kept_idle: "kept_by view_le (drain (viewer_client b d)) (idle_view p e)"
  using viewing.kept_by_silent [of b d e] unfolding kept_by_def idle_view_def by blast

lemma kept_silent: "kept_by view_le (drain c) silent"
  unfolding kept_by_def withdrawal_def using silent_shrinks silent_drain by blast

lemma close_silent: "silent (close_order (viewer_client b d) s) \<and> view_le (oenv s) (oenv (close_order (viewer_client b d) s))"
  by (simp add: close_order_def cancel_pending_def clear_timer_def silent_def att_cancel_def view_le_def split: option.split)

interpretation owning: attachment_keeper b d "own_view p e" for b :: "'n backend" and d p e
proof -
  have "view_keeper (viewer_setting b d) (own_view p e)" unfolding viewer_setting_def by (rule keeper_of_kept [OF kept_own])
  moreover have "attachment_keeper_axioms b d (own_view p e)"
  proof
    fix s :: "'n attachment" and owner operation k err
    assume s: "own_view p e s"
    then show "own_view p e (completed (viewer_client b d) (drain (viewer_client b d)) k err s)"
      by (rule viewing.completed_keeps [OF kept_own])
    from s show "own_view p e (expired (viewer_client b d) (drain (viewer_client b d)) k s)"
      by (rule viewing.expired_keeps [OF kept_own]) (simp add: own_view_def owned_def)
    from s show "own_view p e (close_order (viewer_client b d) s)"
      using close_silent [of b d s] by (auto simp: own_view_def silent_owned intro: view_le_trans)
    assume "authorized owner (oenv s)"
    with s have "owner = p" by (auto simp: authorized_def own_view_def view_le_def)
    with s show "own_view p e (att_enqueue b d owner operation s)"
      unfolding att_enqueue_def by (intro viewing.enqueue_keeps [OF kept_own]) (auto simp: own_view_def owned_def)
  qed
  ultimately show "attachment_keeper b d (own_view p e)" by (rule attachment_keeper.intro)
qed

interpretation idling: attachment_keeper b d "idle_view p e" for b :: "'n backend" and d p e
proof -
  have "view_keeper (viewer_setting b d) (idle_view p e)" unfolding viewer_setting_def by (rule keeper_of_kept [OF kept_idle])
  moreover have "attachment_keeper_axioms b d (idle_view p e)"
  proof
    fix s :: "'n attachment" and owner operation k err
    assume s: "idle_view p e s"
    then show "idle_view p e (completed (viewer_client b d) (drain (viewer_client b d)) k err s)"
      by (rule viewing.completed_keeps [OF kept_idle])
    from s show "idle_view p e (expired (viewer_client b d) (drain (viewer_client b d)) k s)"
      by (rule viewing.expired_keeps [OF kept_idle]) (simp add: idle_view_def silent_def)
    from s show "idle_view p e (close_order (viewer_client b d) s)"
      using close_silent [of b d s] by (auto simp: idle_view_def intro: view_le_trans)
    assume "authorized owner (oenv s)"
    with s have False by (auto simp: authorized_def idle_view_def view_le_def)
    then show "idle_view p e (att_enqueue b d owner operation s)" by blast
  qed
  ultimately show "attachment_keeper b d (idle_view p e)" by (rule attachment_keeper.intro)
qed

lemma silent_keeper: "view_keeper (viewer_setting b d) silent"
  unfolding viewer_setting_def by (rule keeper_of_kept [OF kept_silent])

text \<open>Retiring a viewer's input leaves nothing of it in the scheduler.\<close>

lemma retire_silences:
  assumes "owned p s" "vw_owner (oenv s) = Some p"
  shows "silent (retire_input (viewer_setting b d) s)"
proof -
  let ?x = "viewer_setting b d"
  let ?s1 = "upd (\<lambda>v. cancel_cadence (cancel_refinement (v\<lparr>vw_ready := None, vw_awaiting := []\<rparr>))) s"
  let ?t = "snd (invalidate (att_cancel (st_backend ?x)) (st_drain ?x) p ?s1)"
  have "silent (let u = ?s1\<lparr>oq := filter (\<lambda>y. fst y \<noteq> p) (oq ?s1)\<rparr> in
      case opend ?s1 of None \<Rightarrow> u | Some pd \<Rightarrow> if p_owner pd = p then cancel_pending (att_cancel (st_backend ?x)) u else u)"
    using assms(1) by (auto simp: upd_def owned_def silent_def cancel_pending_def clear_timer_def filter_empty_conv Let_def split: option.split)
  then have t: "silent ?t"
    unfolding invalidate_eq by (simp add: viewer_setting_def setting_at_def silent_drain)
  have o: "vw_owner (oenv ?s1) = Some p" using assms(2) by (simp add: upd_def cancels_owner)
  let ?f = "\<lambda>r. att_reply ?x p r (Failed INPUT_TARGET_UNAVAILABLE)"
  have "silent (tell ?x (Release i) (fold ?f rs (fold ?f rs' ?t)))" for i rs rs'
    by (intro view_keeper.tell_keeps [OF silent_keeper] view_keeper.replies_keep [OF silent_keeper] t)
       (simp add: view_keeper.allowed_other [OF silent_keeper])
  with o show ?thesis by (simp add: retire_input_def cancel_input_def Let_def split_beta)
qed

subsection \<open>The application's invariant\<close>

text \<open>
  Every viewer's scheduler holds its own operations only, those of the controller only, and the viewers'
  connections have different numbers.
\<close>

definition listed_ok :: "'n application \<Rightarrow> nat \<Rightarrow> 'n attachment \<Rightarrow> bool" where
  "listed_ok s p a \<longleftrightarrow>
     attachment_ok a \<and> owned p a \<and> vw_owner (oenv a) = Some p \<and> (ap_controller s \<noteq> Some p \<longrightarrow> silent a) \<and>
     vw_epoch (oenv a) \<le> ap_epoch s"

definition app_ok :: "'n application \<Rightarrow> bool" where
  "app_ok s \<longleftrightarrow>
     (\<forall>p a. map_of (ap_attachments s) p = Some a \<longrightarrow> listed_ok s p a) \<and>
     (\<forall>p q a c. map_of (ap_attachments s) p = Some a \<longrightarrow> map_of (ap_attachments s) q = Some c \<longrightarrow>
        vw_epoch (oenv a) = vw_epoch (oenv c) \<longrightarrow> p = q)"

lemma app_ok_new: "app_ok (new_application n)"
  by (simp add: app_ok_def new_application_def)

lemma app_ok_native [simp]: "app_ok (s\<lparr>ap_native := n\<rparr>) = app_ok s"
  by (simp add: app_ok_def listed_ok_def)

lemma lend_fields:
  "vw_owner (oenv (lend s a)) = vw_owner (oenv a)" "vw_epoch (oenv (lend s a)) = vw_epoch (oenv a)"
  "vw_controls (oenv (lend s a)) p \<longleftrightarrow> ap_controller s = Some p" "owned p (lend s a) = owned p a" "silent (lend s a) = silent a"
  "attachment_ok a \<Longrightarrow> attachment_ok (lend s a)"
  by (simp_all add: lend_def upd_def owned_def silent_def) (metis ok_upd attachment_ok_def upd_def view_ok_fields(1,11))

lemma app_ok_drop:
  assumes "app_ok s"
  shows "app_ok (drop_viewer p s)"
proof -
  have m: "map_of (AList.delete p (ap_attachments s)) q = (if q = p then None else map_of (ap_attachments s) q)" for q
    by (simp add: delete_conv)
  have l: "listed_ok s q a \<Longrightarrow> q \<noteq> p \<Longrightarrow> listed_ok (drop_viewer p s) q a" for q a
    by (auto simp: listed_ok_def drop_viewer_def split: if_splits)
  have "map_of (ap_attachments (drop_viewer p s)) q = Some a \<longleftrightarrow> q \<noteq> p \<and> map_of (ap_attachments s) q = Some a" for q a
    by (simp add: drop_viewer_def m)
  with assms l show ?thesis unfolding app_ok_def by blast
qed

text \<open>An attachment's change that keeps its operations its own, its connection's number, and a silence.\<close>

lemma app_ok_update:
  assumes s: "app_ok s" and a: "attachment_ok a" "owned p a" "vw_owner (oenv a) = Some p" "ap_controller s \<noteq> Some p \<Longrightarrow> silent a"
    "vw_epoch (oenv a) \<le> ap_epoch s"
    and new: "\<And>q c. q \<noteq> p \<Longrightarrow> map_of (ap_attachments s) q = Some c \<Longrightarrow> vw_epoch (oenv c) \<noteq> vw_epoch (oenv a)"
  shows "app_ok (s\<lparr>ap_attachments := AList.update p a (ap_attachments s)\<rparr>)"
proof -
  have "listed_ok (s\<lparr>ap_attachments := AList.update p a (ap_attachments s)\<rparr>) q c"
    if "map_of (AList.update p a (ap_attachments s)) q = Some c" for q c
    using that s a by (cases "q = p") (auto simp: update_conv app_ok_def listed_ok_def)
  moreover have "q = r" if "map_of (AList.update p a (ap_attachments s)) q = Some c" "map_of (AList.update p a (ap_attachments s)) r = Some c'"
    "vw_epoch (oenv c) = vw_epoch (oenv c')" for q r c c'
    using that s new [of q c] new [of r c'] by (cases "q = p"; cases "r = p") (auto simp: update_conv app_ok_def)
  ultimately show ?thesis unfolding app_ok_def by simp
qed

lemma app_ok_on:
  assumes s: "app_ok s"
    and good: "\<And>a. attachment_ok a \<Longrightarrow> attachment_ok (f a)"
    and own: "\<And>a. own_view p (oenv a) a \<Longrightarrow> own_view p (oenv a) (f a)"
    and idle: "\<And>a. idle_view p (oenv a) a \<Longrightarrow> idle_view p (oenv a) (f a)"
  shows "app_ok (on_attachment p f s)"
proof (cases "map_of (ap_attachments s) p")
  case (Some a)
  let ?a = "lend s a" let ?b = "f ?a"
  have l: "listed_ok s p a" using s Some by (simp add: app_ok_def)
  then have ok: "attachment_ok ?b" by (intro good lend_fields(6)) (simp add: listed_ok_def)
  have o: "own_view p (oenv ?a) ?b" using l by (intro own) (simp add: own_view_def listed_ok_def lend_fields)
  have i: "ap_controller s \<noteq> Some p \<Longrightarrow> idle_view p (oenv ?a) ?b"
    using l by (intro idle) (simp add: idle_view_def listed_ok_def lend_fields)
  have e: "vw_epoch (oenv ?b) = vw_epoch (oenv a)" "vw_owner (oenv ?b) \<noteq> None \<Longrightarrow> vw_owner (oenv ?b) = Some p"
    using o by (auto simp: own_view_def view_le_def lend_fields)
  let ?s1 = "s\<lparr>ap_native := vw_native (oenv ?b)\<rparr>"
  have s1: "app_ok ?s1" using s by simp
  have "vw_owner (oenv ?b) \<noteq> None \<Longrightarrow> app_ok (?s1\<lparr>ap_attachments := AList.update p ?b (ap_attachments ?s1)\<rparr>)"
    using l o i e s Some ok by (intro app_ok_update [OF s1]) (auto simp: listed_ok_def own_view_def idle_view_def app_ok_def)
  with Some s1 show ?thesis by (simp add: on_attachment_def Let_def app_ok_drop)
qed (use s in \<open>simp add: on_attachment_def\<close>)

lemma app_ok_event:
  assumes "app_ok s" "\<And>owner. event \<noteq> Attach owner" "\<And>controls. event \<noteq> Takeover controls"
  shows "app_ok (on_attachment p (viewer_step b d event) s)"
  using assms by (intro app_ok_on ok_step owning.step_keeps idling.step_keeps) auto


lemma attach_new:
  assumes "attachment_ok a" "vw_owner (oenv a) = None" "silent a"
  shows "attachment_ok (att_attach (viewer_setting b d) p a) \<and> silent (att_attach (viewer_setting b d) p a) \<and>
    vw_epoch (oenv (att_attach (viewer_setting b d) p a)) = vw_epoch (oenv a) + 1 \<and>
    vw_owner (oenv (att_attach (viewer_setting b d) p a)) \<in> {None, Some p}"
proof -
  let ?x = "viewer_setting b d"
  let ?f = "\<lambda>v. v\<lparr>vw_owner := Some p, vw_last_request := 0, vw_mode := None, vw_capacity := 1, vw_lossy := False,
     vw_cursor_sent := None, vw_epoch := vw_epoch v + 1, vw_failed := False, vw_painted := []\<rparr>"
  let ?s2 = "upd ?f a"
  let ?I = "\<lambda>s. silent s \<and> view_le (oenv ?s2) (oenv s)"
  have K: "view_keeper ?x ?I"
    unfolding viewer_setting_def by (rule keeper_of_kept [OF viewing.kept_by_silent])
  have "?I ?s2" using assms(3) by (simp add: silent_def upd_def)
  then have s3: "?I (snd (ask ?x (Register_viewer e) ?s2))" for e by (rule view_keeper.ask_keeps [OF K]) (simp add: view_keeper.allowed_other [OF K])
  have "?I (damage ?x (cursor_changed ?x (post ?x p m (upd (\<lambda>v. v\<lparr>vw_native_epoch := i\<rparr>) (snd (ask ?x (Register_viewer e) ?s2))))))" for e i m
    using s3 by (intro view_keeper.damage_keeps [OF K] view_keeper.cursor_keeps [OF K] view_keeper.post_keeps [OF K] view_keeper.upd_keeps [OF K])
      (simp_all add: view_le_def)
  then have "?I (att_attach ?x p a)" unfolding att_attach_def Let_def by (simp add: split_beta assms(2))
  then show ?thesis using ok_attach [OF assms(1)] by (auto simp: view_le_def upd_def)
qed


text \<open>The number of the newest connection may grow.\<close>

lemma app_ok_later: "app_ok s \<Longrightarrow> ap_epoch s \<le> e \<Longrightarrow> app_ok (s\<lparr>ap_epoch := e\<rparr>)"
  by (fastforce simp: app_ok_def listed_ok_def)

lemma app_ok_added:
  assumes s: "app_ok s" "map_of (ap_attachments s) p = None" and a: "attachment_ok a" "vw_owner (oenv a) = None" "silent a" "vw_epoch (oenv a) = e"
    and e: "ap_epoch s = e + 1" "\<And>q c. map_of (ap_attachments s) q = Some c \<Longrightarrow> vw_epoch (oenv c) \<le> e"
  shows "app_ok (on_attachment p (att_attach (viewer_setting b d) p) (s\<lparr>ap_attachments := AList.update p a (ap_attachments s)\<rparr>))"
proof -
  let ?s1 = "s\<lparr>ap_attachments := AList.update p a (ap_attachments s)\<rparr>"
  define u where "u = att_attach (viewer_setting b d) p (lend ?s1 a)"
  have "attachment_ok u \<and> silent u \<and> vw_epoch (oenv u) = vw_epoch (oenv (lend ?s1 a)) + 1 \<and> vw_owner (oenv u) \<in> {None, Some p}"
    unfolding u_def using a by (intro attach_new) (simp_all add: lend_fields)
  then have u: "attachment_ok u" "silent u" "vw_epoch (oenv u) = e + 1" "vw_owner (oenv u) \<in> {None, Some p}"
    using a(4) by (simp_all add: lend_fields)
  let ?s2 = "s\<lparr>ap_native := vw_native (oenv u)\<rparr>"
  have s2: "app_ok ?s2" using s(1) by simp
  have m: "map_of (ap_attachments ?s1) p = Some a" by (simp add: update_conv')
  show ?thesis
  proof (cases "vw_owner (oenv u)")
    case None
    have "AList.delete p (AList.update p a (ap_attachments s)) = AList.delete p (ap_attachments s)"
      by (rule delete_update_same)
    with m None have "on_attachment p (att_attach (viewer_setting b d) p) ?s1 = drop_viewer p ?s2"
      by (simp add: on_attachment_def u_def [symmetric] drop_viewer_def)
    then show ?thesis using app_ok_drop [OF s2] by simp
  next
    case (Some q)
    then have q: "vw_owner (oenv u) = Some p" using u(4) by auto
    have n: "vw_epoch (oenv c) \<noteq> vw_epoch (oenv u)" if "map_of (ap_attachments ?s2) r = Some c" for r c
      using that e(2) [of r c] u(3) by simp
    have "app_ok (?s2\<lparr>ap_attachments := AList.update p u (ap_attachments ?s2)\<rparr>)"
      using u e q n by (intro app_ok_update [OF s2]) (simp_all add: silent_owned)
    moreover have "on_attachment p (att_attach (viewer_setting b d) p) ?s1 =
        ?s1\<lparr>ap_native := vw_native (oenv u), ap_attachments := AList.update p u (ap_attachments ?s1)\<rparr>"
      using m q by (simp add: on_attachment_def u_def [symmetric])
    ultimately show ?thesis by simp
  qed
qed

lemma app_ok_attach:
  assumes s: "app_ok s" "map_of (ap_attachments s) p = None"
  shows "app_ok (app_attach b d p s)"
proof -
  let ?s1 = "s\<lparr>ap_epoch := ap_epoch s + 1\<rparr>"
  have "app_ok ?s1" using s(1) by (intro app_ok_later) simp_all
  moreover have "vw_epoch (oenv c) \<le> ap_epoch s" if "map_of (ap_attachments s) q = Some c" for q c
    using s(1) that by (auto simp: app_ok_def listed_ok_def)
  moreover have "vw_owner (oenv (init_attachment n i cs)) = None" "silent (init_attachment n i cs)" "vw_epoch (oenv (init_attachment n i cs)) = i" for n :: 'a and i cs
    by (simp_all add: init_attachment_def new_order_def new_viewer_def silent_def)
  ultimately show ?thesis
    using app_ok_added [of ?s1 p "init_attachment (ap_native s) (ap_epoch s) (\<lambda>p. False)" "ap_epoch s" b d] s(2) ok_init [of "ap_native s"]
    by (simp add: app_attach_def Let_def)
qed

lemma takeover_silences:
  assumes s: "app_ok s" "ap_controller s = Some p" "map_of (ap_attachments (on_attachment p (retire_input (viewer_setting b d)) s)) q = Some a"
  shows "silent a"
proof (cases "map_of (ap_attachments s) p")
  case None
  with s have m: "map_of (ap_attachments s) q = Some a" "q \<noteq> p" by (auto simp: on_attachment_def)
  with s(1,2) show ?thesis by (auto simp: app_ok_def listed_ok_def)
next
  case (Some c)
  let ?b = "retire_input (viewer_setting b d) (lend s c)"
  have "listed_ok s p c" using s(1) Some by (simp add: app_ok_def)
  then have b: "silent ?b" by (intro retire_silences) (simp_all add: lend_fields listed_ok_def)
  have "map_of (ap_attachments s) q = Some a \<and> q \<noteq> p \<or> a = ?b"
    using s(3) Some by (auto simp: on_attachment_def Let_def drop_viewer_def delete_conv' update_conv' split: if_splits)
  with b s(1,2) show ?thesis by (auto simp: app_ok_def listed_ok_def)
qed

lemma app_ok_takeover: "app_ok s \<Longrightarrow> app_ok (app_takeover b d (ap_controller s) owner s)"
proof -
  assume s: "app_ok s"
  let ?s1 = "case ap_controller s of None \<Rightarrow> s
    | Some p \<Rightarrow> if ap_controller s \<noteq> owner then on_attachment p (retire_input (viewer_setting b d)) s else s"
  let ?c = "case owner of None \<Rightarrow> None | Some p \<Rightarrow> if map_of (ap_attachments ?s1) p = None then None else Some p"
  have r: "viewer_step b d Retire = retire_input (viewer_setting b d)" by (rule ext) (simp add: viewer_step_def)
  have "app_ok (on_attachment p (viewer_step b d Retire) s)" for p using s by (rule app_ok_event) simp_all
  then have s1: "app_ok ?s1" using s by (simp add: r split: option.split)
  have "silent a" if m: "map_of (ap_attachments ?s1) q = Some a" "?c \<noteq> Some q" for q a
  proof (cases "ap_controller s")
    case None
    with s m show ?thesis by (auto simp: app_ok_def listed_ok_def)
  next
    case (Some p)
    show ?thesis
    proof (cases "ap_controller s = owner")
      case True
      with Some m have "q \<noteq> p" by (auto split: if_splits)
      with s m Some True show ?thesis by (auto simp: app_ok_def listed_ok_def)
    next
      case False
      with Some m takeover_silences [OF s Some] show ?thesis by simp
    qed
  qed
  with s1 have "app_ok (?s1\<lparr>ap_controller := ?c\<rparr>)" unfolding app_ok_def listed_ok_def by simp
  then show ?thesis by (simp add: app_takeover_def Let_def)
qed

lemma app_ok_detach: "app_ok s \<Longrightarrow> app_ok (app_detach b d p s)"
  by (simp add: app_detach_def app_ok_drop split: option.split)

lemma app_ok_close: "app_ok s \<Longrightarrow> app_ok (app_close b d s)"
proof -
  have "app_ok s \<Longrightarrow> app_ok (fold (app_detach b d) ps s)" for ps by (induction ps arbitrary: s) (simp_all add: app_ok_detach)
  then show "app_ok s \<Longrightarrow> app_ok (app_close b d s)" by (simp add: app_close_def)
qed

lemma app_ok_step:
  assumes "app_ok s"
  shows "app_ok (app_step b d event s)"
proof (cases event)
  case (App_request owner request verb m)
  have "viewer_step b d (Request owner request verb m) = (\<lambda>a. snd (att_request b d owner request verb m a))"
    by (rule ext) (simp add: viewer_step_def)
  with App_request app_ok_event [OF assms, of "Request owner request verb m" owner b d] show ?thesis
    by (simp add: app_step_def app_request_def)
next
  case (App_writable owner)
  have "viewer_step b d (Writable owner) = writable (viewer_setting b d) owner" by (rule ext) (simp add: viewer_step_def)
  with App_writable app_ok_event [OF assms, of "Writable owner" owner b d] show ?thesis by (simp add: app_step_def app_writable_def)
qed (use assms in \<open>simp_all add: app_step_def app_ok_attach app_ok_takeover app_ok_detach app_ok_close app_ok_event\<close>)

lemma app_ok_run: "app_ok (app_run b d events n)"
proof -
  have "app_ok s \<Longrightarrow> app_ok (fold (app_step b d) events s)" for s by (induction events arbitrary: s) (simp_all add: app_ok_step)
  then show ?thesis by (simp add: app_run_def app_ok_new)
qed

subsection \<open>Properties\<close>

text \<open>C15: Only the controller's input is ever waiting: however viewers come, go, take over and ask, and whatever the
  native side does meanwhile, an attachment of another viewer has no operation queued and no text
  outstanding, and no attachment holds an operation of a viewer that is not its own.\<close>
theorem controller_only_input:
  assumes "map_of (ap_attachments (app_run b d events n)) p = Some a"
  shows "(ap_controller (app_run b d events n) \<noteq> Some p \<longrightarrow> oq a = [] \<and> opend a = None) \<and>
    (\<forall>y \<in> set (oq a). fst y = p) \<and> (\<forall>pd. opend a = Some pd \<longrightarrow> p_owner pd = p)"
  using assms app_ok_run [of b d events n] by (auto simp: app_ok_def listed_ok_def silent_def owned_def)

text \<open>A clipboard selection reaches one viewer at most: it carries the native connection's number, the
  attachments compare it with their own connection's number, and no two of those are equal.\<close>
theorem clipboard_reaches_one_viewer:
  assumes "map_of (ap_attachments (app_run b d events n)) p = Some a" "map_of (ap_attachments (app_run b d events n)) q = Some c"
    and "p \<noteq> q"
  shows "clipboard_changed x target epoch tx a = a \<or> clipboard_changed x target epoch tx c = c"
proof -
  have "vw_epoch (oenv a) \<noteq> vw_epoch (oenv c)" using assms app_ok_run [of b d events n] unfolding app_ok_def by blast
  then have "epoch \<noteq> vw_epoch (oenv a) \<or> epoch \<noteq> vw_epoch (oenv c)" by blast
  then show ?thesis by (auto simp: clipboard_changed_def Let_def split: option.split)
qed

subsection \<open>Witnesses\<close>

definition two_viewers :: "unit app_event list" where
  "two_viewers = [App_attach 1, App_takeover (Some 1), App_attach 2, App_takeover (Some 2)]"

definition shared_run :: "unit application" where
  "shared_run = app_run calm_backend 1 two_viewers ()"

lemma shared_viewers:
  "ap_controller shared_run = Some 2 \<and> map (\<lambda>y. (fst y, vw_epoch (oenv (snd y)), vw_owner (oenv (snd y)))) (ap_attachments shared_run) =
     [(1, 1, Some 1), (2, 2, Some 2)]"
  by code_simp

lemma shared_attachments: "\<exists>a c. map_of (ap_attachments shared_run) 1 = Some a \<and> map_of (ap_attachments shared_run) 2 = Some c"
proof -
  have "fst ` set (ap_attachments shared_run) = {1, 2}"
    using arg_cong [OF conjunct2 [OF shared_viewers], of "\<lambda>l. fst ` set l"] by (simp add: image_image)
  then have "1 \<in> fst ` set (ap_attachments shared_run)" "2 \<in> fst ` set (ap_attachments shared_run)" by auto
  then show ?thesis using map_of_eq_None_iff [of "ap_attachments shared_run"] by (metis not_None_eq)
qed

lemma controller_only_input_witness:
  "\<exists>a. map_of (ap_attachments shared_run) 1 = Some a \<and> oq a = [] \<and> opend a = None"
proof -
  obtain a where a: "map_of (ap_attachments shared_run) 1 = Some a" using shared_attachments by blast
  with controller_only_input [of calm_backend 1 two_viewers "()" 1 a] shared_viewers show ?thesis
    unfolding shared_run_def by auto
qed

lemma clipboard_reaches_one_viewer_witness:
  "\<exists>a c. map_of (ap_attachments shared_run) 1 = Some a \<and> map_of (ap_attachments shared_run) 2 = Some c \<and>
     (clipboard_changed (viewer_setting calm_backend 1) sample_target 1 None a = a \<or>
      clipboard_changed (viewer_setting calm_backend 1) sample_target 1 None c = c)"
proof -
  obtain a c where "map_of (ap_attachments shared_run) 1 = Some a" "map_of (ap_attachments shared_run) 2 = Some c"
    using shared_attachments by blast
  with clipboard_reaches_one_viewer [of calm_backend 1 two_viewers "()" 1 a 2 c] show ?thesis
    unfolding shared_run_def by auto
qed

end
