(* ===== verification/Lifecycle.thy ===== *)
theory Lifecycle
  imports Prelude
begin

section \<open>The life of a helper (desktop\_helper.py)\<close>

text \<open>
  \<open>DesktopHelper\<close> assembles the helper: the native channel from the start, the text input parts once,
  sharing any number of times, and it owns what it opened until it closes it. A part is a kind and a
  number. \<open>hp_opened\<close> and \<open>hp_ended\<close> list the parts in the order they were taken over and closed (a part
  may be closed twice); nothing but theorems reads them. What a constructor or an activation outside
  this class does, return or raise, is an argument, and so is whether there is an X11 connection.
\<close>

datatype part_kind = Channel | Contexts | X11_connection | Context_service | Ibus | Xim | Server | Application | Frames

type_synonym part = "part_kind \<times> nat"




primrec those_part :: "part option \<Rightarrow> part list" where
  "those_part None = []"
| "those_part (Some p) = [p]"













subsection \<open>What the helper holds\<close>


text \<open>The order of the closed parts: no toolkit part before the text contexts.\<close>

definition toolkit_part :: "part option \<Rightarrow> bool" where
  "toolkit_part p \<longleftrightarrow> (\<exists>x. p = Some x \<and> fst x \<in> {X11_connection, Context_service, Xim})"

definition revoked :: "part list \<Rightarrow> bool" where
  "revoked ps \<longleftrightarrow> (\<exists>n. (Contexts, n) \<in> set ps)"

definition revoked_first :: "part list \<Rightarrow> bool" where
  "revoked_first ps \<longleftrightarrow> (\<forall>i < length ps. toolkit_part (Some (ps ! i)) \<longrightarrow> revoked (take i ps))"




lemma set_those [simp]: "set (those_part p) = set_option p"
  by (cases p) simp_all

lemma toolkit_part_simps [simp]: "\<not> toolkit_part None" "toolkit_part (Some (k, n)) \<longleftrightarrow> k \<in> {X11_connection, Context_service, Xim}"
  by (simp_all add: toolkit_part_def)

lemma revoked_those [simp]: "revoked (ps @ qs) \<longleftrightarrow> revoked ps \<or> revoked qs" "revoked [(k, n)] \<longleftrightarrow> k = Contexts" "\<not> revoked []"
  by (auto simp: revoked_def)

lemma revoked_part [simp]: "revoked (those_part p) \<longleftrightarrow> (\<exists>n. p = Some (Contexts, n))"
  by (cases p) (auto simp: revoked_def)

lemma revoked_first_append [simp]:
  "revoked_first (ps @ those_part p) \<longleftrightarrow> revoked_first ps \<and> (toolkit_part p \<longrightarrow> revoked ps)"
  by (cases p) (auto simp: revoked_first_def nth_append less_Suc_eq)

lemma revoked_first_snoc [simp]: "revoked_first (ps @ [p]) \<longleftrightarrow> revoked_first ps \<and> (toolkit_part (Some p) \<longrightarrow> revoked ps)"
  using revoked_first_append [of ps "Some p"] by simp









































subsection \<open>Properties\<close>



end
