(* ===== verification/Control.thy ===== *)
theory Control
  imports Wire "HOL-Library.AList"
begin

section \<open>The viewers' control socket (desktop\_control.py)\<close>

text \<open>
  \<open>DesktopControl\<close> accepts a few local viewers, authenticates them and frames their messages;
  \<open>Peer\<close> owns one viewer's buffers. A peer is named by a number; a closed peer has left \<open>ct_peers\<close>.

  The application behind it is a function \<open>ap\<close> on the whole state: what it does when it is called,
  sending and closing peers included. It gets the call, and answers how the call ended. The runs at
  the end are those of any application that reacts to a call with sends and closes (\<open>perform\<close>). The
  event loop's watches and the socket file are not modelled; what a socket takes or gives is an
  argument.
\<close>

definition MAX_MESSAGE :: nat where "MAX_MESSAGE = 131072"
definition MAX_OUTPUT :: nat where "MAX_OUTPUT = 2097152"
definition MAX_OUTPUT_RECORDS :: nat where "MAX_OUTPUT_RECORDS = 512"
definition MAX_FRAME :: nat where "MAX_FRAME = 67108864"
definition MAX_CURSOR :: nat where "MAX_CURSOR = 5242880"
definition MAX_PEERS :: nat where "MAX_PEERS = 8"

subsection \<open>Messages\<close>

text \<open>\<open>struct.pack('!BI', kind, size)\<close>, and the frame of a message. \<open>None\<close> is the \<open>ValueError\<close>.\<close>

definition frame_header :: "nat \<Rightarrow> nat \<Rightarrow> bytes" where
  "frame_header kind n = kind # pack4 n"

definition encode_message :: "(rat \<Rightarrow> pystr) \<Rightarrow> pyval \<Rightarrow> nat \<Rightarrow> bytes option" where
  "encode_message fr message maximum =
     (case Option.bind (json_dumps fr True message) utf8_encode of
        None \<Rightarrow> None
      | Some body \<Rightarrow> if 0 < length body \<and> length body \<le> maximum then Some (frame_header 1 (length body) @ body) else None)"

subsection \<open>The state\<close>

record out_record =
  or_data :: bytes
  or_payload :: bool
  or_completed :: "string option"

record peer =
  pr_authenticated :: bool
  pr_sequence :: nat
  pr_input :: bytes
  pr_output :: "out_record list"
  pr_buffered :: nat
  pr_control :: nat
  pr_frame_pending :: bool
  pr_cursor_pending :: bool
  pr_timer :: bool

definition new_peer :: peer where
  "new_peer = \<lparr>pr_authenticated = False, pr_sequence = 0, pr_input = [], pr_output = [], pr_buffered = 0, pr_control = 0,
     pr_frame_pending = False, pr_cursor_pending = False, pr_timer = True\<rparr>"

datatype app_call =
    Attach_call nat
  | Detach_call nat
  | Takeover_call "nat option" "nat option"
  | Request_call nat "(pystr \<times> pyval) list"
  | Writable_call nat

text \<open>A call returns, raises one of the exceptions \<open>read\<close> answers by closing the peer, or another one.\<close>

datatype call_end = Call_returns | Call_refuses | Call_escapes

text \<open>\<open>ct_calls\<close> lists the calls of the application, for the theorems.\<close>

record 'a control =
  ct_instance :: pystr
  ct_token :: pystr
  ct_peers :: "(nat \<times> peer) list"
  ct_next :: nat
  ct_current :: "nat option"
  ct_closed :: bool
  ct_sequence :: nat
  ct_app :: 'a
  ct_calls :: "app_call list"

type_synonym 'a app = "app_call \<Rightarrow> 'a control \<Rightarrow> call_end \<times> 'a control"

text \<open>\<open>DesktopControl.__init__\<close>, the check of the helper's identity.\<close>

definition token_ok :: "pystr \<Rightarrow> bool" where
  "token_ok t \<longleftrightarrow> length t = 64 \<and> list_all (\<lambda>c. c \<in> set (py ''0123456789abcdef'')) t"

definition new_control :: "pyval \<Rightarrow> pyval \<Rightarrow> 'a \<Rightarrow> 'a control option" where
  "new_control inst token a =
     (case (inst, token) of
        (PStr i, PStr t) \<Rightarrow>
          if 1 \<le> length i \<and> length i \<le> 128 \<and> token_ok t
          then Some \<lparr>ct_instance = i, ct_token = t, ct_peers = [], ct_next = 0, ct_current = None, ct_closed = False,
                 ct_sequence = 0, ct_app = a, ct_calls = []\<rparr>
          else None
      | _ \<Rightarrow> None)"

definition tell_app :: "'a app \<Rightarrow> app_call \<Rightarrow> 'a control \<Rightarrow> call_end \<times> 'a control" where
  "tell_app ap call s = ap call (s\<lparr>ct_calls := ct_calls s @ [call]\<rparr>)"

definition peer_of :: "'a control \<Rightarrow> nat \<Rightarrow> peer option" where
  "peer_of s p = map_of (ct_peers s) p"

definition set_peer :: "nat \<Rightarrow> peer \<Rightarrow> 'a control \<Rightarrow> 'a control" where
  "set_peer p x s = s\<lparr>ct_peers := AList.update p x (ct_peers s)\<rparr>"

subsection \<open>Closing a peer\<close>

text \<open>\<open>max(remaining, key=...)\<close>: the most recently authenticated one.\<close>

definition newest :: "(nat \<times> peer) list \<Rightarrow> nat option" where
  "newest ps =
     (case filter (\<lambda>y. pr_authenticated (snd y)) ps of
        [] \<Rightarrow> None
      | y # ys \<Rightarrow> Some (fst (fold (\<lambda>z best. if pr_sequence (snd best) < pr_sequence (snd z) then z else best) ys y)))"

definition close_peer :: "'a app \<Rightarrow> nat \<Rightarrow> 'a control \<Rightarrow> 'a control" where
  "close_peer ap p s =
     (case peer_of s p of
        None \<Rightarrow> s
      | Some x \<Rightarrow>
          let s1 = s\<lparr>ct_peers := AList.delete p (ct_peers s)\<rparr>;
              was_current = (ct_current s1 = Some p);
              s2 = (if pr_authenticated x then snd (tell_app ap (Detach_call p) s1) else s1)
          in if was_current
             then let replacement = newest (ct_peers s2)
                  in snd (tell_app ap (Takeover_call (Some p) replacement) (s2\<lparr>ct_current := replacement\<rparr>))
             else s2)"

definition expired_peer :: "'a app \<Rightarrow> nat \<Rightarrow> 'a control \<Rightarrow> 'a control" where
  "expired_peer ap p s =
     (case peer_of s p of
        None \<Rightarrow> s
      | Some x \<Rightarrow> if \<not> pr_timer x \<or> pr_authenticated x then s else close_peer ap p (set_peer p (x\<lparr>pr_timer := False\<rparr>) s))"

subsection \<open>Sending\<close>

definition append_record :: "bytes \<Rightarrow> bool \<Rightarrow> string option \<Rightarrow> peer \<Rightarrow> peer" where
  "append_record data payload completed x =
     x\<lparr>pr_output := pr_output x @ [\<lparr>or_data = data, or_payload = payload, or_completed = completed\<rparr>],
       pr_buffered := pr_buffered x + length data,
       pr_control := (if payload then pr_control x else pr_control x + length data)\<rparr>"

definition send_message :: "'a app \<Rightarrow> (rat \<Rightarrow> pystr) \<Rightarrow> nat \<Rightarrow> pyval \<Rightarrow> string option \<Rightarrow> 'a control \<Rightarrow> bool \<times> 'a control" where
  "send_message ap fr p message completed s =
     (case peer_of s p of
        None \<Rightarrow> (False, s)
      | Some x \<Rightarrow>
          if \<not> pr_authenticated x then (False, s)
          else
            (case encode_message fr message (MAX_OUTPUT - 5) of
               None \<Rightarrow> (False, close_peer ap p s)
             | Some data \<Rightarrow>
                 if MAX_OUTPUT < pr_control x + length data \<or> MAX_OUTPUT_RECORDS \<le> length (pr_output x)
                 then (False, close_peer ap p s)
                 else (True, set_peer p (append_record data False completed x) s)))"

text \<open>\<open>Bad_size\<close> is the \<open>ValueError\<close> of the two methods below.\<close>

datatype send_end = Sent_ok | Not_sent | Bad_size

definition frame_event :: "string \<Rightarrow> pyval \<Rightarrow> nat \<Rightarrow> pyval" where
  "frame_event name description n =
     PDict [(py ''event'', PStr (py name)), (py name, description), (py ''bytes'', PInt (int n))]"

definition add_payload :: "nat \<Rightarrow> string \<Rightarrow> nat \<Rightarrow> bytes \<Rightarrow> 'a control \<Rightarrow> 'a control" where
  "add_payload kind name p pixels s =
     (case peer_of s p of
        None \<Rightarrow> s
      | Some x \<Rightarrow> set_peer p (append_record pixels True (Some name) (append_record (frame_header kind (length pixels)) False None x)) s)"

definition send_frame :: "'a app \<Rightarrow> (rat \<Rightarrow> pystr) \<Rightarrow> nat \<Rightarrow> pyval \<Rightarrow> bytes \<Rightarrow> 'a control \<Rightarrow> send_end \<times> 'a control" where
  "send_frame ap fr p description pixels s =
     (case peer_of s p of
        None \<Rightarrow> (Not_sent, s)
      | Some x \<Rightarrow>
          if \<not> pr_authenticated x \<or> pr_frame_pending x then (Not_sent, s)
          else if pixels = [] \<or> MAX_FRAME < length pixels then (Bad_size, s)
          else
            let (sent, s1) = send_message ap fr p (frame_event ''frame'' description (length pixels)) None s
            in if \<not> sent then (Not_sent, s1)
               else
                 (case peer_of s1 p of
                    None \<Rightarrow> (Sent_ok, s1)
                  | Some y \<Rightarrow> (Sent_ok, add_payload 2 ''frame'' p pixels (set_peer p (y\<lparr>pr_frame_pending := True\<rparr>) s1))))"

definition send_cursor :: "'a app \<Rightarrow> (rat \<Rightarrow> pystr) \<Rightarrow> nat \<Rightarrow> pyval \<Rightarrow> bytes option \<Rightarrow> 'a control \<Rightarrow> send_end \<times> 'a control" where
  "send_cursor ap fr p description pixels s =
     (case peer_of s p of
        None \<Rightarrow> (Not_sent, s)
      | Some x \<Rightarrow>
          if \<not> pr_authenticated x \<or> pr_cursor_pending x then (Not_sent, s)
          else
            case pixels of
              None \<Rightarrow>
                let (sent, s1) = send_message ap fr p (frame_event ''cursor'' description 0) (Some ''cursor'') s
                in (case peer_of s1 p of
                      None \<Rightarrow> (Not_sent, s1)
                    | Some y \<Rightarrow> if sent then (Sent_ok, set_peer p (y\<lparr>pr_cursor_pending := True\<rparr>) s1) else (Not_sent, s1))
            | Some px \<Rightarrow>
                if px = [] \<or> MAX_CURSOR < length px then (Bad_size, s)
                else
                  let (sent, s1) = send_message ap fr p (frame_event ''cursor'' description (length px)) None s
                  in (case peer_of s1 p of
                        None \<Rightarrow> (Not_sent, s1)
                      | Some y \<Rightarrow>
                          if sent then (Sent_ok, add_payload 3 ''cursor'' p px (set_peer p (y\<lparr>pr_cursor_pending := True\<rparr>) s1))
                          else (Not_sent, s1)))"

subsection \<open>Writing\<close>

datatype socket_answer = Takes nat | Blocks | Breaks

text \<open>The record at the head after \<open>count\<close> of its bytes were taken.\<close>

definition taken :: "nat \<Rightarrow> peer \<Rightarrow> bool \<times> peer" where
  "taken count x =
     (case pr_output x of
        [] \<Rightarrow> (False, x)
      | r # rs \<Rightarrow>
          let x1 = x\<lparr>pr_buffered := pr_buffered x - count, pr_control := (if or_payload r then pr_control x else pr_control x - count)\<rparr>
          in if count = length (or_data r)
             then (or_completed r \<noteq> None,
                   x1\<lparr>pr_output := rs,
                      pr_cursor_pending := (if or_completed r = Some ''cursor'' then False else pr_cursor_pending x),
                      pr_frame_pending := (if or_completed r = Some ''frame'' then False else pr_frame_pending x)\<rparr>)
             else (False, x1\<lparr>pr_output := r\<lparr>or_data := drop count (or_data r)\<rparr> # rs\<rparr>))"

text \<open>The loop, one socket answer per round; no answer left is one that blocks. The first result tells
  whether \<open>write\<close> returned from inside it.\<close>

fun write_loop :: "'a app \<Rightarrow> nat \<Rightarrow> socket_answer list \<Rightarrow> nat \<Rightarrow> bool \<Rightarrow> 'a control \<Rightarrow> bool \<times> bool \<times> 'a control" where
  "write_loop ap p [] budget drained s = (False, drained, s)"
| "write_loop ap p (a # answers) budget drained s =
     (case peer_of s p of
        None \<Rightarrow> (False, drained, s)
      | Some x \<Rightarrow>
          (case pr_output x of
             [] \<Rightarrow> (False, drained, s)
           | r # rs \<Rightarrow>
               if budget = 0 then (False, drained, s)
               else
                 (case a of
                    Blocks \<Rightarrow> (False, drained, s)
                  | Breaks \<Rightarrow> (False, drained, close_peer ap p s)
                  | Takes n \<Rightarrow>
                      let count = min n (min budget (length (or_data r)))
                      in if count = 0 then (True, drained, close_peer ap p s)
                         else
                           let (done', y) = taken count x
                           in write_loop ap p answers (budget - count) (drained \<or> done') (set_peer p y s))))"

definition write_peer :: "'a app \<Rightarrow> nat \<Rightarrow> socket_answer list \<Rightarrow> 'a control \<Rightarrow> 'a control" where
  "write_peer ap p answers s =
     (let (returned, drained, s1) = write_loop ap p answers MAX_MESSAGE False s
      in case peer_of s1 p of
           None \<Rightarrow> s1
         | Some x \<Rightarrow> if \<not> returned \<and> drained \<and> pr_authenticated x then snd (tell_app ap (Writable_call p) s1) else s1)"

subsection \<open>Reading\<close>

definition has_fields :: "(pystr \<times> pyval) list \<Rightarrow> string list \<Rightarrow> bool" where
  "has_fields m names \<longleftrightarrow> set (map fst m) = py ` set names"

definition credentials_ok :: "'a control \<Rightarrow> (pystr \<times> pyval) list \<Rightarrow> bool" where
  "credentials_ok s m \<longleftrightarrow>
     has_fields m [''version'', ''instance'', ''token''] \<and> dict_get m ''version'' = PInt 1 \<and>
     dict_get m ''instance'' = PStr (ct_instance s) \<and>
     (case dict_get m ''token'' of PStr t \<Rightarrow> token_ok t \<and> t = ct_token s | _ \<Rightarrow> False)"

definition authenticate :: "'a app \<Rightarrow> nat \<Rightarrow> (pystr \<times> pyval) list \<Rightarrow> 'a control \<Rightarrow> 'a control" where
  "authenticate ap p m s =
     (case peer_of s p of
        None \<Rightarrow> s
      | Some x \<Rightarrow>
          if \<not> credentials_ok s m then close_peer ap p s
          else
            let previous = ct_current s; n = ct_sequence s + 1;
                s1 = (set_peer p (x\<lparr>pr_sequence := n, pr_authenticated := True, pr_timer := False\<rparr>) s)
                       \<lparr>ct_sequence := n, ct_current := Some p\<rparr>;
                s2 = snd (tell_app ap (Attach_call p) s1)
            in snd (tell_app ap (Takeover_call previous (Some p)) s2))"

definition request_ok :: "(pystr \<times> pyval) list \<Rightarrow> bool" where
  "request_ok m \<longleftrightarrow>
     integer (dict_get m ''id'') 1 9007199254740991 \<and>
     (case dict_get m ''method'' of PStr t \<Rightarrow> 1 \<le> length t \<and> length t \<le> 64 | _ \<Rightarrow> False)"

text \<open>
  One message of the loop in \<open>read\<close>: \<open>None\<close> stops it. \<open>decode\<close> is how \<open>json.loads\<close> decodes bytes.
\<close>

definition read_one ::
  "'a app \<Rightarrow> (bytes \<Rightarrow> pystr option) \<Rightarrow> nat \<Rightarrow> 'a control \<Rightarrow> bool \<times> 'a control" where
  "read_one ap decode p s =
     (case peer_of s p of
        None \<Rightarrow> (False, s)
      | Some x \<Rightarrow>
          if length (pr_input x) < 5 then (False, s)
          else
            let kind = pr_input x ! 0; n = unpack4 (take 4 (drop 1 (pr_input x)))
            in if kind \<noteq> 1 \<or> n = 0 \<or> MAX_MESSAGE < n then (False, close_peer ap p s)
               else if length (pr_input x) < n + 5 then (False, s)
               else
                 (case Option.bind (decode (take n (drop 5 (pr_input x)))) json_loads of
                    None \<Rightarrow> (False, close_peer ap p s)
                  | Some message \<Rightarrow>
                      let s1 = set_peer p (x\<lparr>pr_input := drop (n + 5) (pr_input x)\<rparr>) s
                      in (case message of
                            PDict m \<Rightarrow>
                              if \<not> pr_authenticated x then (True, authenticate ap p m s1)
                              else if \<not> request_ok m then (False, close_peer ap p s1)
                              else
                                (case tell_app ap (Request_call p m) s1 of
                                   (Call_returns, s2) \<Rightarrow> (True, s2)
                                 | (Call_refuses, s2) \<Rightarrow> (False, close_peer ap p s2)
                                 | (Call_escapes, s2) \<Rightarrow> (False, s2))
                          | _ \<Rightarrow> (True, close_peer ap p s1))))"

text \<open>Each round takes at least six bytes off the input, so its length is rounds enough.\<close>

primrec read_loop :: "'a app \<Rightarrow> (bytes \<Rightarrow> pystr option) \<Rightarrow> nat \<Rightarrow> nat \<Rightarrow> 'a control \<Rightarrow> 'a control" where
  "read_loop ap decode p 0 s = s"
| "read_loop ap decode p (Suc n) s =
     (case read_one ap decode p s of (goes_on, s1) \<Rightarrow> if goes_on then read_loop ap decode p n s1 else s1)"

text \<open>What \<open>recv\<close> gives: some bytes, the end, or an \<open>OSError\<close> (\<open>BlockingIOError\<close> is one). It is asked for no
  more than what completes the largest message.\<close>

datatype receive_answer = Received bytes | Receive_fails

definition read_peer :: "'a app \<Rightarrow> (bytes \<Rightarrow> pystr option) \<Rightarrow> nat \<Rightarrow> receive_answer \<Rightarrow> 'a control \<Rightarrow> 'a control" where
  "read_peer ap decode p answer s =
     (case peer_of s p of
        None \<Rightarrow> s
      | Some x \<Rightarrow>
          (case answer of
             Receive_fails \<Rightarrow> close_peer ap p s
           | Received bs \<Rightarrow>
               let data = take (MAX_MESSAGE + 5 - length (pr_input x)) bs
               in if data = [] then close_peer ap p s
                  else
                    let input = pr_input x @ data
                    in read_loop ap decode p (length input) (set_peer p (x\<lparr>pr_input := input\<rparr>) s)))"

subsection \<open>Accepting and closing\<close>

text \<open>A connection that waits: the user at the other end, \<open>None\<close> when that cannot be read.\<close>

definition accept_one :: "int \<Rightarrow> int option \<Rightarrow> 'a control \<Rightarrow> 'a control" where
  "accept_one me user s =
     (if MAX_PEERS \<le> length (ct_peers s) \<or> user \<noteq> Some me then s
      else s\<lparr>ct_peers := ct_peers s @ [(ct_next s, new_peer)], ct_next := ct_next s + 1\<rparr>)"

definition accept_peers :: "int \<Rightarrow> int option list \<Rightarrow> 'a control \<Rightarrow> 'a control" where
  "accept_peers me users s = (if ct_closed s then s else fold (accept_one me) (take MAX_PEERS users) s)"

definition close_control :: "'a app \<Rightarrow> 'a control \<Rightarrow> 'a control" where
  "close_control ap s =
     (if ct_closed s then s
      else fold (close_peer ap) (map fst (ct_peers s)) (s\<lparr>ct_closed := True\<rparr>))"

subsection \<open>An application\<close>

text \<open>
  What an application does when it is called: messages, frames and cursors for peers, and peers it
  closes. It sees the whole state, so it knows what each of them will answer. The calls its actions
  cause are answered one level deeper, where an application that is called at level 0 does nothing.
\<close>

datatype app_action =
    Send_action nat pyval
  | Frame_action nat pyval bytes
  | Cursor_action nat pyval "bytes option"
  | Close_action nat

definition act :: "'a app \<Rightarrow> (rat \<Rightarrow> pystr) \<Rightarrow> app_action \<Rightarrow> 'a control \<Rightarrow> 'a control" where
  "act ap fr a s =
     (case a of
        Send_action p m \<Rightarrow> snd (send_message ap fr p m None s)
      | Frame_action p d px \<Rightarrow> snd (send_frame ap fr p d px s)
      | Cursor_action p d px \<Rightarrow> snd (send_cursor ap fr p d px s)
      | Close_action p \<Rightarrow> close_peer ap p s)"

type_synonym 'a reaction = "app_call \<Rightarrow> 'a control \<Rightarrow> app_action list \<times> call_end \<times> 'a"

primrec perform :: "nat \<Rightarrow> (rat \<Rightarrow> pystr) \<Rightarrow> 'a reaction \<Rightarrow> 'a app" where
  "perform 0 fr react call s = (Call_returns, s)"
| "perform (Suc n) fr react call s =
     (let (actions, e, a) = react call s in (e, fold (act (perform n fr react) fr) actions (s\<lparr>ct_app := a\<rparr>)))"

text \<open>Everything that happens to the control socket; the application may act on its own at any time.\<close>

datatype control_event =
    Accept int "int option list"
  | Read nat receive_answer
  | Write nat "socket_answer list"
  | Expire nat
  | Act app_action
  | Close_all

definition control_step ::
  "'a app \<Rightarrow> (rat \<Rightarrow> pystr) \<Rightarrow> (bytes \<Rightarrow> pystr option) \<Rightarrow> control_event \<Rightarrow> 'a control \<Rightarrow> 'a control" where
  "control_step ap fr decode event s =
     (case event of
        Accept me users \<Rightarrow> accept_peers me users s
      | Read p answer \<Rightarrow> read_peer ap decode p answer s
      | Write p answers \<Rightarrow> write_peer ap p answers s
      | Expire p \<Rightarrow> expired_peer ap p s
      | Act a \<Rightarrow> act ap fr a s
      | Close_all \<Rightarrow> close_control ap s)"

definition control_run ::
  "'a app \<Rightarrow> (rat \<Rightarrow> pystr) \<Rightarrow> (bytes \<Rightarrow> pystr option) \<Rightarrow> control_event list \<Rightarrow> 'a control \<Rightarrow> 'a control" where
  "control_run ap fr decode events s = fold (control_step ap fr decode) events s"

end
