(* ===== verification/Control_Safety.thy ===== *)
theory Control_Safety
  imports Control
begin

section \<open>What the control socket guarantees (desktop\_control.py)\<close>

subsection \<open>A peer's output\<close>

text \<open>
  A payload follows its five-byte header. \<open>plain\<close> are the records that are neither; \<open>send\<close> bounds
  them, and the pending flags bound the payloads.
\<close>

definition control_bytes :: "out_record list \<Rightarrow> nat" where
  "control_bytes rs = sum_list (map (\<lambda>r. if or_payload r then 0 else length (or_data r)) rs)"

fun plain :: "out_record list \<Rightarrow> out_record list" where
  "plain [] = []"
| "plain [r] = (if or_payload r then [] else [r])"
| "plain (r # q # rs) = (if or_payload r \<or> or_payload q then plain (q # rs) else r # plain (q # rs))"

fun headed :: "out_record list \<Rightarrow> bool" where
  "headed [] = True"
| "headed [r] = True"
| "headed (r # q # rs) \<longleftrightarrow>
     (or_payload q \<longrightarrow> \<not> or_payload r \<and> length (or_data r) \<le> 5 \<and> or_completed r = None) \<and> headed (q # rs)"

definition completions :: "string \<Rightarrow> out_record list \<Rightarrow> nat" where
  "completions name rs = length (filter (\<lambda>r. or_completed r = Some name) rs)"

definition payloads :: "out_record list \<Rightarrow> nat" where
  "payloads rs = length (filter or_payload rs)"

lemma plain_append: "\<not> or_payload r \<Longrightarrow> plain (rs @ [r]) = plain rs @ [r]"
  by (induction rs rule: plain.induct) auto

lemma plain_append_payload:
  "\<not> or_payload h \<Longrightarrow> or_payload p \<Longrightarrow> plain (rs @ [h, p]) = plain rs"
  by (induction rs rule: plain.induct) auto

lemma headed_append: "headed rs \<Longrightarrow> \<not> or_payload r \<Longrightarrow> headed (rs @ [r])"
  by (induction rs rule: headed.induct) auto

lemma headed_append_payload:
  "headed rs \<Longrightarrow> \<not> or_payload h \<Longrightarrow> length (or_data h) \<le> 5 \<Longrightarrow> or_completed h = None \<Longrightarrow> headed (rs @ [h, p])"
  by (induction rs rule: headed.induct) auto

lemma headed_tl: "headed (r # rs) \<Longrightarrow> headed rs"
  by (cases rs) auto

lemma headed_shorter:
  "headed (r # rs) \<Longrightarrow> or_payload q = or_payload r \<Longrightarrow> length (or_data q) \<le> length (or_data r) \<Longrightarrow>
     or_completed q = or_completed r \<Longrightarrow> headed (q # rs)"
  by (cases rs) auto

lemma plain_tl: "plain (r # rs) = plain rs \<or> plain (r # rs) = r # plain rs"
  by (cases rs) auto

lemma plain_shorter:
  assumes "or_payload q = or_payload r"
  shows "plain (r # rs) = plain rs \<and> plain (q # rs) = plain rs \<or> plain (r # rs) = r # plain rs \<and> plain (q # rs) = q # plain rs"
  using assms by (cases rs) auto

lemma control_bytes_simps [simp]:
  "control_bytes [] = 0" "control_bytes (r # rs) = (if or_payload r then 0 else length (or_data r)) + control_bytes rs"
  "control_bytes (rs @ qs) = control_bytes rs + control_bytes qs"
  by (simp_all add: control_bytes_def)

lemma completions_simps [simp]:
  "completions name [] = 0" "completions name (r # rs) = (if or_completed r = Some name then 1 else 0) + completions name rs"
  "completions name (rs @ qs) = completions name rs + completions name qs"
  by (simp_all add: completions_def)

lemma payloads_simps [simp]:
  "payloads [] = 0" "payloads (r # rs) = (if or_payload r then 1 else 0) + payloads rs"
  "payloads (rs @ qs) = payloads rs + payloads qs"
  by (simp_all add: payloads_def)

definition led_by_payload :: "out_record list \<Rightarrow> bool" where
  "led_by_payload rs = (case rs of [] \<Rightarrow> False | r # _ \<Rightarrow> or_payload r)"

text \<open>
  At the head of the output a header may already have left, so there may be one more payload than
  headers.
\<close>

lemma output_bounds:
  "headed rs \<Longrightarrow>
     control_bytes rs + (if led_by_payload rs then 5 else 0) \<le> control_bytes (plain rs) + 5 * payloads rs \<and>
     length rs + (if led_by_payload rs then 1 else 0) \<le> length (plain rs) + 2 * payloads rs"
  by (induction rs rule: plain.induct) (auto simp: led_by_payload_def split: if_splits)

definition peer_ok :: "peer \<Rightarrow> bool" where
  "peer_ok x \<longleftrightarrow>
     headed (pr_output x) \<and> control_bytes (plain (pr_output x)) \<le> MAX_OUTPUT \<and>
     length (plain (pr_output x)) \<le> MAX_OUTPUT_RECORDS \<and>
     (\<forall>r \<in> set (pr_output x). (or_payload r \<longrightarrow> or_completed r = Some ''frame'' \<or> or_completed r = Some ''cursor'') \<and> or_data r \<noteq> []) \<and>
     completions ''frame'' (pr_output x) = (if pr_frame_pending x then 1 else 0) \<and>
     completions ''cursor'' (pr_output x) = (if pr_cursor_pending x then 1 else 0) \<and>
     pr_buffered x = sum_list (map (length \<circ> or_data) (pr_output x)) \<and> pr_control x = control_bytes (pr_output x) \<and>
     length (pr_input x) \<le> MAX_MESSAGE + 5"

lemma peer_okD:
  assumes "peer_ok x"
  shows "headed (pr_output x)" "control_bytes (plain (pr_output x)) \<le> MAX_OUTPUT"
    "length (plain (pr_output x)) \<le> MAX_OUTPUT_RECORDS"
    "\<forall>r \<in> set (pr_output x). (or_payload r \<longrightarrow> or_completed r = Some ''frame'' \<or> or_completed r = Some ''cursor'') \<and> or_data r \<noteq> []"
    "completions ''frame'' (pr_output x) = (if pr_frame_pending x then 1 else 0)"
    "completions ''cursor'' (pr_output x) = (if pr_cursor_pending x then 1 else 0)"
    "pr_buffered x = sum_list (map (length \<circ> or_data) (pr_output x))" "pr_control x = control_bytes (pr_output x)"
    "length (pr_input x) \<le> MAX_MESSAGE + 5"
  using assms unfolding peer_ok_def by blast+

lemma payloads_completions:
  "\<forall>r \<in> set rs. (or_payload r \<longrightarrow> or_completed r = Some ''frame'' \<or> or_completed r = Some ''cursor'') \<and> or_data r \<noteq> [] \<Longrightarrow>
     payloads rs \<le> completions ''frame'' rs + completions ''cursor'' rs"
  by (induction rs) auto

lemma peer_bounds:
  assumes "peer_ok x"
  shows "pr_control x \<le> MAX_OUTPUT + 10 \<and> length (pr_output x) \<le> MAX_OUTPUT_RECORDS + 4"
proof -
  note x = peer_okD [OF assms]
  have "payloads (pr_output x) \<le> 2" using payloads_completions [OF x(4)] x(5,6) by (simp split: if_splits)
  moreover have "control_bytes (pr_output x) \<le> control_bytes (plain (pr_output x)) + 5 * payloads (pr_output x)"
    "length (pr_output x) \<le> length (plain (pr_output x)) + 2 * payloads (pr_output x)"
    using output_bounds [OF x(1)] by linarith+
  ultimately show ?thesis using x(2,3,8) by linarith
qed

lemma plain_subseq: "control_bytes (plain rs) \<le> control_bytes rs \<and> length (plain rs) \<le> length rs"
  by (induction rs rule: plain.induct) auto

lemma peer_ok_new: "peer_ok new_peer"
  by (simp add: peer_ok_def new_peer_def)

lemma peer_ok_message:
  assumes x: "peer_ok x" and d: "d \<noteq> []" "pr_control x + length d \<le> MAX_OUTPUT" "length (pr_output x) < MAX_OUTPUT_RECORDS"
    and y: "pr_output y = pr_output x @ [\<lparr>or_data = d, or_payload = False, or_completed = c\<rparr>]"
      "pr_buffered y = pr_buffered x + length d" "pr_control y = pr_control x + length d" "pr_input y = pr_input x"
    and c: "c = None \<and> pr_frame_pending y = pr_frame_pending x \<and> pr_cursor_pending y = pr_cursor_pending x \<or>
      c = Some ''cursor'' \<and> \<not> pr_cursor_pending x \<and> pr_cursor_pending y \<and> pr_frame_pending y = pr_frame_pending x"
  shows "peer_ok y"
  unfolding peer_ok_def y
proof (intro conjI)
  note x = peer_okD [OF x]
  let ?r = "\<lparr>or_data = d, or_payload = False, or_completed = c\<rparr>"
  show "headed (pr_output x @ [?r])" using x(1) by (simp add: headed_append)
  show "control_bytes (plain (pr_output x @ [?r])) \<le> MAX_OUTPUT" "length (plain (pr_output x @ [?r])) \<le> MAX_OUTPUT_RECORDS"
    using plain_subseq [of "pr_output x"] d x(8) by (simp_all add: plain_append)
  show "\<forall>r \<in> set (pr_output x @ [?r]). (or_payload r \<longrightarrow> or_completed r = Some ''frame'' \<or> or_completed r = Some ''cursor'') \<and> or_data r \<noteq> []"
    using x(4) d(1) by (simp add: ball_Un)
  show "completions ''frame'' (pr_output x @ [?r]) = (if pr_frame_pending y then 1 else 0)"
    "completions ''cursor'' (pr_output x @ [?r]) = (if pr_cursor_pending y then 1 else 0)"
    using c unfolding completions_simps x(5,6) by (elim disjE conjE; simp)+
  show "pr_buffered x + length d = sum_list (map (length \<circ> or_data) (pr_output x @ [?r]))"
    "pr_control x + length d = control_bytes (pr_output x @ [?r])" using x(7,8) by simp_all
  show "length (pr_input x) \<le> MAX_MESSAGE + 5" by (rule x(9))
qed

lemma peer_ok_added:
  assumes x: "peer_ok x" and px: "px \<noteq> []" "length h \<le> 5" "h \<noteq> []"
    and y: "pr_output y = pr_output x @ [\<lparr>or_data = h, or_payload = False, or_completed = None\<rparr>,
         \<lparr>or_data = px, or_payload = True, or_completed = Some name\<rparr>]"
      "pr_buffered y = pr_buffered x + (length h + length px)" "pr_control y = pr_control x + length h" "pr_input y = pr_input x"
    and pending: "(if pr_frame_pending y then 1 else 0) = (if pr_frame_pending x then 1 else 0) + (if name = ''frame'' then 1 else 0 :: nat)"
      "(if pr_cursor_pending y then 1 else 0) = (if pr_cursor_pending x then 1 else 0) + (if name = ''cursor'' then 1 else 0 :: nat)"
    and name: "name = ''frame'' \<or> name = ''cursor''"
  shows "peer_ok y"
  unfolding peer_ok_def y pending
proof (intro conjI)
  note x = peer_okD [OF x]
  let ?h = "\<lparr>or_data = h, or_payload = False, or_completed = None\<rparr>"
  let ?p = "\<lparr>or_data = px, or_payload = True, or_completed = Some name\<rparr>"
  show "headed (pr_output x @ [?h, ?p])" using x(1) px by (intro headed_append_payload) simp_all
  have "plain (pr_output x @ [?h, ?p]) = plain (pr_output x)" by (rule plain_append_payload) simp_all
  then show "control_bytes (plain (pr_output x @ [?h, ?p])) \<le> MAX_OUTPUT" "length (plain (pr_output x @ [?h, ?p])) \<le> MAX_OUTPUT_RECORDS"
    using x(2,3) by simp_all
  show "\<forall>r \<in> set (pr_output x @ [?h, ?p]). (or_payload r \<longrightarrow> or_completed r = Some ''frame'' \<or> or_completed r = Some ''cursor'') \<and> or_data r \<noteq> []"
    using x(4) px name by (simp add: ball_Un)
  show "completions ''frame'' (pr_output x @ [?h, ?p]) = (if pr_frame_pending x then 1 else 0) + (if name = ''frame'' then 1 else 0)"
    "completions ''cursor'' (pr_output x @ [?h, ?p]) = (if pr_cursor_pending x then 1 else 0) + (if name = ''cursor'' then 1 else 0)"
    unfolding completions_simps x(5,6) by simp_all
  show "pr_buffered x + (length h + length px) = sum_list (map (length \<circ> or_data) (pr_output x @ [?h, ?p]))"
    "pr_control x + length h = control_bytes (pr_output x @ [?h, ?p])" using x(7,8) by simp_all
  show "length (pr_input x) \<le> MAX_MESSAGE + 5" by (rule x(9))
qed

lemma peer_ok_popped:
  assumes x: "peer_ok x" and out: "pr_output x = r # rs"
    and y: "pr_output y = rs" "pr_buffered y = pr_buffered x - length (or_data r)"
      "pr_control y = (if or_payload r then pr_control x else pr_control x - length (or_data r))" "pr_input y = pr_input x"
      "pr_cursor_pending y = (if or_completed r = Some ''cursor'' then False else pr_cursor_pending x)"
      "pr_frame_pending y = (if or_completed r = Some ''frame'' then False else pr_frame_pending x)"
  shows "peer_ok y"
  unfolding peer_ok_def y
proof (intro conjI)
  note x = peer_okD [OF x, unfolded out]
  show "headed rs" using x(1) by (rule headed_tl)
  show "control_bytes (plain rs) \<le> MAX_OUTPUT" "length (plain rs) \<le> MAX_OUTPUT_RECORDS"
    using x(2,3) plain_tl [of r rs] by (auto split: if_splits)
  show "\<forall>r \<in> set rs. (or_payload r \<longrightarrow> or_completed r = Some ''frame'' \<or> or_completed r = Some ''cursor'') \<and> or_data r \<noteq> []"
    using x(4) by simp
  show "completions ''frame'' rs = (if if or_completed r = Some ''frame'' then False else pr_frame_pending x then 1 else 0)"
    using x(5) by (simp split: if_splits)
  show "completions ''cursor'' rs = (if if or_completed r = Some ''cursor'' then False else pr_cursor_pending x then 1 else 0)"
    using x(6) by (simp split: if_splits)
  show "pr_buffered x - length (or_data r) = sum_list (map (length \<circ> or_data) rs)" using x(7) by simp
  show "(if or_payload r then pr_control x else pr_control x - length (or_data r)) = control_bytes rs" using x(8) by simp
  show "length (pr_input x) \<le> MAX_MESSAGE + 5" by (rule x(9))
qed

lemma peer_ok_shortened:
  assumes x: "peer_ok x" and out: "pr_output x = r # rs" and n: "n < length (or_data r)"
    and y: "pr_output y = r\<lparr>or_data := drop n (or_data r)\<rparr> # rs" "pr_buffered y = pr_buffered x - n"
      "pr_control y = (if or_payload r then pr_control x else pr_control x - n)" "pr_input y = pr_input x"
      "pr_cursor_pending y = pr_cursor_pending x" "pr_frame_pending y = pr_frame_pending x"
  shows "peer_ok y"
  unfolding peer_ok_def y
proof (intro conjI)
  note x = peer_okD [OF x, unfolded out]
  let ?q = "r\<lparr>or_data := drop n (or_data r)\<rparr>"
  show "headed (?q # rs)" using x(1) by (rule headed_shorter) simp_all
  have p: "control_bytes (plain (?q # rs)) \<le> control_bytes (plain (r # rs))" "length (plain (?q # rs)) = length (plain (r # rs))"
    using plain_shorter [of ?q r rs] by auto
  show "control_bytes (plain (?q # rs)) \<le> MAX_OUTPUT" "length (plain (?q # rs)) \<le> MAX_OUTPUT_RECORDS"
    using p x(2,3) by linarith+
  show "\<forall>r \<in> set (?q # rs). (or_payload r \<longrightarrow> or_completed r = Some ''frame'' \<or> or_completed r = Some ''cursor'') \<and> or_data r \<noteq> []"
    using x(4) n by simp
  show "completions ''frame'' (?q # rs) = (if pr_frame_pending x then 1 else 0)"
    "completions ''cursor'' (?q # rs) = (if pr_cursor_pending x then 1 else 0)" using x(5,6) by simp_all
  show "pr_buffered x - n = sum_list (map (length \<circ> or_data) (?q # rs))" using x(7) n by simp
  show "(if or_payload r then pr_control x else pr_control x - n) = control_bytes (?q # rs)" using x(8) n by simp
  show "length (pr_input x) \<le> MAX_MESSAGE + 5" by (rule x(9))
qed

lemma peer_ok_taken:
  assumes "peer_ok x" "pr_output x = r # rs" "n \<le> length (or_data r)"
  shows "peer_ok (snd (taken n x))"
proof (cases "n = length (or_data r)")
  case True
  then show ?thesis using assms(2) by (intro peer_ok_popped [OF assms(1,2)]) (simp_all add: taken_def Let_def)
next
  case False
  then show ?thesis using assms(2,3) by (intro peer_ok_shortened [OF assms(1,2), of n]) (simp_all add: taken_def Let_def)
qed

subsection \<open>The peers and the current one\<close>

text \<open>Every request comes from a peer that was attached before.\<close>

definition requests_ok :: "app_call list \<Rightarrow> bool" where
  "requests_ok cs \<longleftrightarrow> (\<forall>i < length cs. \<forall>p m. cs ! i = Request_call p m \<longrightarrow> Attach_call p \<in> set (take i cs))"

definition control_ok :: "'a control \<Rightarrow> bool" where
  "control_ok s \<longleftrightarrow>
     distinct (map fst (ct_peers s)) \<and> length (ct_peers s) \<le> MAX_PEERS \<and> requests_ok (ct_calls s) \<and>
     (\<forall>p x. peer_of s p = Some x \<longrightarrow> p < ct_next s \<and> peer_ok x \<and>
        (pr_authenticated x \<longrightarrow> pr_sequence x \<le> ct_sequence s \<and> Attach_call p \<in> set (ct_calls s)))"

definition current_ok :: "'a control \<Rightarrow> bool" where
  "current_ok s \<longleftrightarrow>
     (case ct_current s of
        None \<Rightarrow> \<forall>p x. peer_of s p = Some x \<longrightarrow> \<not> pr_authenticated x
      | Some p \<Rightarrow> \<exists>x. peer_of s p = Some x \<and> pr_authenticated x \<and>
          (\<forall>q y. peer_of s q = Some y \<and> pr_authenticated y \<longrightarrow> pr_sequence y \<le> pr_sequence x))"

text \<open>\<open>standing (Some p)\<close>: while \<open>p\<close>, the current peer, is being closed.\<close>

definition standing :: "nat option \<Rightarrow> 'a control \<Rightarrow> bool" where
  "standing c s \<longleftrightarrow> control_ok s \<and> (case c of None \<Rightarrow> current_ok s | Some p \<Rightarrow> ct_current s = Some p \<and> peer_of s p = None)"

lemma requests_ok_append: "requests_ok (cs @ [c]) \<longleftrightarrow> requests_ok cs \<and> (\<forall>p m. c = Request_call p m \<longrightarrow> Attach_call p \<in> set cs)"
  by (auto simp: requests_ok_def nth_append less_Suc_eq)

lemma peer_of_set: "peer_of (set_peer p x s) q = (if q = p then Some x else peer_of s q)"
  by (simp add: peer_of_def set_peer_def update_conv')

lemma set_peer_fields [simp]:
  "ct_current (set_peer p x s) = ct_current s" "ct_next (set_peer p x s) = ct_next s" "ct_calls (set_peer p x s) = ct_calls s"
  "ct_sequence (set_peer p x s) = ct_sequence s" "ct_closed (set_peer p x s) = ct_closed s" "ct_app (set_peer p x s) = ct_app s"
  by (simp_all add: set_peer_def)

lemma peer_of_same: "ct_peers u = ct_peers s \<Longrightarrow> peer_of u = peer_of s"
  by (simp add: peer_of_def fun_eq_iff)

lemma length_update: "map_of al k = Some v \<Longrightarrow> length (AList.update k w al) = length al"
  by (induction al) (auto split: if_splits)

lemma standing_set:
  assumes s: "standing c s" and p: "peer_of s p = Some x"
    and y: "peer_ok y" "pr_authenticated y = pr_authenticated x" "pr_sequence y = pr_sequence x"
  shows "standing c (set_peer p y s)"
proof -
  have "control_ok (set_peer p y s)"
    using s p y by (auto simp: standing_def control_ok_def peer_of_set) (auto simp: set_peer_def peer_of_def distinct_update length_update)
  moreover have "current_ok s \<Longrightarrow> current_ok (set_peer p y s)"
  proof (cases "ct_current s")
    case (Some q)
    assume "current_ok s"
    with Some obtain z where z: "peer_of s q = Some z" "pr_authenticated z"
      "\<forall>r y. peer_of s r = Some y \<and> pr_authenticated y \<longrightarrow> pr_sequence y \<le> pr_sequence z"
      by (auto simp: current_ok_def)
    with Some p y show ?thesis
      unfolding current_ok_def by (cases "q = p") (auto simp: peer_of_set)
  next
    case None
    assume "current_ok s"
    with None p y show ?thesis by (auto simp: current_ok_def peer_of_set)
  qed
  ultimately show ?thesis using s p by (auto simp: standing_def peer_of_set split: option.splits)
qed

text \<open>\<open>newest\<close> finds an authenticated peer with the highest sequence.\<close>

definition fresher :: "nat \<times> peer \<Rightarrow> nat \<times> peer \<Rightarrow> nat \<times> peer" where
  "fresher z best = (if pr_sequence (snd best) < pr_sequence (snd z) then z else best)"

lemma newest_fold: "newest ps = (case filter (\<lambda>y. pr_authenticated (snd y)) ps of [] \<Rightarrow> None | y # ys \<Rightarrow> Some (fst (fold fresher ys y)))"
  unfolding newest_def fresher_def by (rule refl)

lemma fold_fresher:
  "fold fresher ys y \<in> set (y # ys) \<and> (\<forall>z \<in> set (y # ys). pr_sequence (snd z) \<le> pr_sequence (snd (fold fresher ys y)))"
proof (induction ys arbitrary: y)
  case (Cons z ys)
  from Cons.IH [of "fresher z y"] show ?case by (auto simp: fresher_def split: if_splits)
qed simp

lemma newest_current:
  assumes d: "distinct (map fst (ct_peers s))"
  shows "current_ok (s\<lparr>ct_current := newest (ct_peers s)\<rparr>)"
proof (cases "filter (\<lambda>y. pr_authenticated (snd y)) (ct_peers s)")
  case Nil
  then have "\<not> pr_authenticated x" if "peer_of s p = Some x" for p x
    using that by (force simp: peer_of_def filter_empty_conv dest: map_of_SomeD)
  with Nil show ?thesis by (auto simp: current_ok_def newest_fold peer_of_same [of "s\<lparr>ct_current := None\<rparr>" s])
next
  case (Cons y ys)
  obtain p x where b: "fold fresher ys y = (p, x)" by (cases "fold fresher ys y")
  have m: "set (y # ys) = {z \<in> set (ct_peers s). pr_authenticated (snd z)}" using Cons [symmetric] by simp
  have best: "(p, x) \<in> set (y # ys)" "\<forall>z \<in> set (y # ys). pr_sequence (snd z) \<le> pr_sequence x"
    using fold_fresher [of ys y] by (simp_all add: b)
  then have "(p, x) \<in> {z \<in> set (ct_peers s). pr_authenticated (snd z)}" using best(1) m by (simp only:)
  then have x: "peer_of s p = Some x" "pr_authenticated x" using d by (auto simp: peer_of_def)
  have "pr_sequence z \<le> pr_sequence x" if "peer_of s q = Some z" "pr_authenticated z" for q z
    using best(2) that m by (force simp: peer_of_def dest: map_of_SomeD)
  with x Cons b show ?thesis
    by (auto simp: current_ok_def newest_fold peer_of_same [of "s\<lparr>ct_current := Some p\<rparr>" s])
qed

subsection \<open>Every operation keeps the standing\<close>

locale sound_app =
  fixes ap :: "'a app"
  assumes reacting: "standing c s \<Longrightarrow> standing c (snd (ap call s))"
begin

lemma telling:
  assumes "standing c s" "\<And>p m. call = Request_call p m \<Longrightarrow> Attach_call p \<in> set (ct_calls s)"
  shows "standing c (snd (tell_app ap call s))"
proof -
  have "standing c (s\<lparr>ct_calls := ct_calls s @ [call]\<rparr>)"
    using assms by (auto simp: standing_def control_ok_def current_ok_def requests_ok_append
        peer_of_same [of "s\<lparr>ct_calls := l\<rparr>" s for l] split: option.splits)
  then show ?thesis unfolding tell_app_def by (rule reacting)
qed

lemma closing:
  assumes s: "standing c s"
  shows "standing c (close_peer ap p s)"
proof (cases "peer_of s p")
  case (Some x)
  let ?s1 = "s\<lparr>ct_peers := AList.delete p (ct_peers s)\<rparr>"
  let ?s2 = "if pr_authenticated x then snd (tell_app ap (Detach_call p) ?s1) else ?s1"
  have p1: "peer_of ?s1 q = (if q = p then None else peer_of s q)" for q
    by (simp add: peer_of_def delete_conv')
  have "length (ct_peers ?s1) \<le> length (ct_peers s)" by (simp add: AList.delete_eq)
  then have ok1: "control_ok ?s1"
    using s p1 by (auto simp: standing_def control_ok_def distinct_delete)
  show ?thesis
  proof (cases "c = None \<and> ct_current s = Some p")
    case True
    with ok1 p1 have "standing (Some p) ?s1" by (simp add: standing_def)
    then have s2: "standing (Some p) ?s2" using telling [of "Some p" ?s1 "Detach_call p"] by simp
    let ?s3 = "?s2\<lparr>ct_current := newest (ct_peers ?s2)\<rparr>"
    have "current_ok ?s3" using s2 by (intro newest_current) (auto simp: standing_def control_ok_def)
    moreover have "control_ok ?s3"
      using s2 by (auto simp: standing_def control_ok_def peer_of_same [of "u\<lparr>ct_current := l\<rparr>" u for u l])
    ultimately have "standing None ?s3" by (simp add: standing_def)
    then have "standing None (snd (tell_app ap (Takeover_call (Some p) (newest (ct_peers ?s2))) ?s3))" by (rule telling) simp
    with True Some show ?thesis by (simp add: close_peer_def Let_def)
  next
    case False
    have "ct_current s \<noteq> Some p" using False s Some by (auto simp: standing_def split: option.splits)
    moreover from this have "current_ok s \<Longrightarrow> current_ok ?s1"
      by (auto simp: current_ok_def p1 split: option.splits)
    ultimately have "standing c ?s1"
      using ok1 s p1 by (auto simp: standing_def split: option.splits)
    then have "standing c ?s2" using telling [of c ?s1 "Detach_call p"] by simp
    with \<open>ct_current s \<noteq> Some p\<close> Some show ?thesis by (simp add: close_peer_def Let_def)
  qed
qed (use s in \<open>simp add: close_peer_def\<close>)

lemma expiring: "standing c s \<Longrightarrow> standing c (expired_peer ap p s)"
proof (cases "peer_of s p")
  case (Some x)
  assume s: "standing c s"
  then have "peer_ok x" using Some by (auto simp: standing_def control_ok_def)
  then have "standing c (set_peer p (x\<lparr>pr_timer := False\<rparr>) s)"
    using s Some by (intro standing_set [of c s p x]) (simp_all add: peer_ok_def)
  with s Some show ?thesis by (simp add: expired_peer_def closing)
qed (simp add: expired_peer_def)

lemma sending:
  assumes s: "standing c s"
  shows "standing c (snd (send_message ap fr p m None s))"
proof (cases "peer_of s p")
  case (Some x)
  note x = this
  show ?thesis
  proof (cases "encode_message fr m (MAX_OUTPUT - 5)")
    case (Some d)
    then have "d \<noteq> []" by (auto simp: encode_message_def frame_header_def split: option.splits if_splits)
    moreover have "peer_ok x" using s x by (auto simp: standing_def control_ok_def)
    ultimately have "standing c (set_peer p (append_record d False None x) s)"
      if "pr_control x + length d \<le> MAX_OUTPUT" "length (pr_output x) < MAX_OUTPUT_RECORDS"
      using that s x
      by (intro standing_set [of c s p x] peer_ok_message [of x d "append_record d False None x" None]) (simp_all add: append_record_def)
    with s x Some show ?thesis by (simp add: send_message_def closing)
  qed (use s x in \<open>simp add: send_message_def closing\<close>)
qed (use s in \<open>simp add: send_message_def\<close>)

lemma header_length [simp]: "length (frame_header kind n) = 5" "frame_header kind n \<noteq> []"
  by (simp_all add: frame_header_def)

text \<open>A sent message leaves the peer where it was, with one more record.\<close>

lemma sent_peer:
  assumes "send_message ap fr p m completed s = (True, u)"
  shows "\<exists>x d. peer_of s p = Some x \<and> d \<noteq> [] \<and> pr_control x + length d \<le> MAX_OUTPUT \<and> length (pr_output x) < MAX_OUTPUT_RECORDS \<and>
    u = set_peer p (append_record d False completed x) s"
proof -
  obtain x d where "peer_of s p = Some x" "encode_message fr m (MAX_OUTPUT - 5) = Some d" "pr_control x + length d \<le> MAX_OUTPUT"
    "length (pr_output x) < MAX_OUTPUT_RECORDS" "u = set_peer p (append_record d False completed x) s"
    using assms by (auto simp: send_message_def split: option.splits if_splits)
  moreover from this have "d \<noteq> []" by (auto simp: encode_message_def frame_header_def split: option.splits if_splits)
  ultimately show ?thesis by blast
qed

lemma set_peer_twice: "set_peer p y (set_peer p x s) = set_peer p y s"
proof -
  have "AList.update p y (AList.update p x l) = AList.update p y l" for l :: "(nat \<times> peer) list"
    by (induction l) auto
  then show ?thesis by (simp add: set_peer_def)
qed

lemma adding:
  assumes s: "standing c s" and x: "peer_of s p = Some x" and px: "px \<noteq> []"
    and kind: "name = ''frame'' \<and> \<not> pr_frame_pending x \<and> y = x\<lparr>pr_frame_pending := True\<rparr> \<or>
      name = ''cursor'' \<and> \<not> pr_cursor_pending x \<and> y = x\<lparr>pr_cursor_pending := True\<rparr>"
  shows "standing c (add_payload k name p px (set_peer p y s))"
proof -
  let ?z = "append_record px True (Some name) (append_record (frame_header k (length px)) False None y)"
  have "peer_ok x" using s x by (auto simp: standing_def control_ok_def)
  then have "peer_ok ?z"
    using px kind by (intro peer_ok_added [of x px "frame_header k (length px)" ?z name]) (auto simp: append_record_def)
  moreover have "pr_authenticated ?z = pr_authenticated x" "pr_sequence ?z = pr_sequence x"
    using kind by (auto simp: append_record_def)
  ultimately have "standing c (set_peer p ?z s)" using s x by (intro standing_set [of c s p x])
  then show ?thesis by (simp add: add_payload_def peer_of_set set_peer_twice)
qed

lemma framing:
  assumes s: "standing c s"
  shows "standing c (snd (send_frame ap fr p description pixels s))"
proof (cases "peer_of s p")
  case (Some x)
  let ?m = "frame_event ''frame'' description (length pixels)"
  obtain sent u where m: "send_message ap fr p ?m None s = (sent, u)" by (cases "send_message ap fr p ?m None s")
  have u: "standing c u" using sending [OF s, of fr p ?m] m by simp
  show ?thesis
  proof (cases "sent \<and> pixels \<noteq> [] \<and> \<not> pr_frame_pending x")
    case True
    then obtain d where d: "u = set_peer p (append_record d False None x) s" using sent_peer [of fr p ?m None s u] m Some by auto
    then have y: "peer_of u p = Some (append_record d False None x)" by (simp add: peer_of_set)
    have "standing c (add_payload 2 ''frame'' p pixels (set_peer p ((append_record d False None x)\<lparr>pr_frame_pending := True\<rparr>) u))"
      using True by (intro adding [OF u y]) (simp_all add: append_record_def)
    with True m s u y Some show ?thesis by (simp add: send_frame_def)
  qed (use s u m Some in \<open>auto simp: send_frame_def split: option.split\<close>)
qed (use s in \<open>simp add: send_frame_def\<close>)

lemma cursing:
  assumes s: "standing c s"
  shows "standing c (snd (send_cursor ap fr p description pixels s))"
proof (cases "peer_of s p")
  case (Some x)
  note x = this
  show ?thesis
  proof (cases "pr_authenticated x \<and> \<not> pr_cursor_pending x")
    case idle: True
    show ?thesis
    proof (cases pixels)
      case (Some px)
      let ?m = "frame_event ''cursor'' description (length px)"
      obtain sent u where m: "send_message ap fr p ?m None s = (sent, u)" by (cases "send_message ap fr p ?m None s")
      have u: "standing c u" using sending [OF s, of fr p ?m] m by simp
      show ?thesis
      proof (cases "sent \<and> px \<noteq> []")
        case True
        then obtain d where d: "u = set_peer p (append_record d False None x) s" using sent_peer [of fr p ?m None s u] m x by auto
        then have y: "peer_of u p = Some (append_record d False None x)" by (simp add: peer_of_set)
        have "standing c (add_payload 3 ''cursor'' p px (set_peer p ((append_record d False None x)\<lparr>pr_cursor_pending := True\<rparr>) u))"
          using True idle by (intro adding [OF u y]) (simp_all add: append_record_def)
        with True idle m s u y x Some show ?thesis by (simp add: send_cursor_def)
      qed (use s u m x Some idle in \<open>auto simp: send_cursor_def split: option.split\<close>)
    next
      case None
      let ?m = "frame_event ''cursor'' description 0"
      obtain sent u where m: "send_message ap fr p ?m (Some ''cursor'') s = (sent, u)" by (cases "send_message ap fr p ?m (Some ''cursor'') s")
      show ?thesis
      proof (cases sent)
        case True
        then obtain d where d: "u = set_peer p (append_record d False (Some ''cursor'') x) s" "d \<noteq> []"
          "pr_control x + length d \<le> MAX_OUTPUT" "length (pr_output x) < MAX_OUTPUT_RECORDS"
          using sent_peer [of fr p ?m "Some ''cursor''" s u] m x by auto
        let ?y = "(append_record d False (Some ''cursor'') x)\<lparr>pr_cursor_pending := True\<rparr>"
        have "peer_ok x" using s x by (auto simp: standing_def control_ok_def)
        then have "peer_ok ?y" using d idle
          by (intro peer_ok_message [of x d ?y "Some ''cursor''"]) (simp_all add: append_record_def)
        then have "standing c (set_peer p ?y s)" using s x by (intro standing_set [of c s p x]) (simp_all add: append_record_def)
        with True idle m x None d show ?thesis by (simp add: send_cursor_def peer_of_set set_peer_twice)
      next
        case False
        then have "u = s \<or> u = close_peer ap p s" using m by (auto simp: send_message_def split: option.splits if_splits)
        then have "standing c u" using s closing by auto
        with False idle m x None show ?thesis by (auto simp: send_cursor_def split: option.split)
      qed
    qed
  qed (use s x in \<open>auto simp: send_cursor_def\<close>)
qed (use s in \<open>simp add: send_cursor_def\<close>)

lemma acting: "standing c s \<Longrightarrow> standing c (act ap fr a s)"
  by (cases a) (simp_all add: act_def sending framing cursing closing)

lemma write_looping: "standing c s \<Longrightarrow> standing c (snd (snd (write_loop ap p answers budget drained s)))"
proof (induction answers arbitrary: budget drained s)
  case (Cons a answers)
  note IH = Cons.IH and s = Cons.prems
  show ?case
  proof (cases "peer_of s p")
    case (Some x)
    show ?thesis
    proof (cases "pr_output x")
      case (Cons r rs)
      show ?thesis
      proof (cases "\<exists>n. a = Takes n \<and> budget \<noteq> 0 \<and> min n (min budget (length (or_data r))) \<noteq> 0")
        case True
        then obtain n where n: "a = Takes n" "budget \<noteq> 0" "min n (min budget (length (or_data r))) \<noteq> 0" by blast
        let ?n = "min n (min budget (length (or_data r)))"
        have "peer_ok x" using s Some by (auto simp: standing_def control_ok_def)
        then have "peer_ok (snd (taken ?n x))" using Cons by (rule peer_ok_taken) simp
        then have "standing c (set_peer p (snd (taken ?n x)) s)"
          using s Some by (intro standing_set [of c s p x]) (auto simp: taken_def Let_def split: list.split)
        then show ?thesis
          using IH Some Cons n closing [OF s, of p] by (simp add: Let_def split_beta)
      next
        case False
        then show ?thesis using s Some Cons closing by (auto simp: Let_def split: socket_answer.split)
      qed
    qed (use s Some in simp)
  qed (use s in simp)
qed simp

lemma writing:
  assumes "standing c s"
  shows "standing c (write_peer ap p answers s)"
proof -
  obtain r d u where w: "write_loop ap p answers MAX_MESSAGE False s = (r, d, u)" by (metis prod.exhaust)
  then have "standing c u" using write_looping [OF assms, of p answers MAX_MESSAGE False] by simp
  with w telling [of c u "Writable_call p"] show ?thesis by (auto simp: write_peer_def split: option.split)
qed

lemma reading_set:
  assumes "standing c s" "peer_of s p = Some x" "length input \<le> MAX_MESSAGE + 5"
  shows "standing c (set_peer p (x\<lparr>pr_input := input\<rparr>) s)"
proof -
  have "peer_ok x" using assms(1,2) by (auto simp: standing_def control_ok_def)
  then have "peer_ok (x\<lparr>pr_input := input\<rparr>)" using assms(3) by (simp add: peer_ok_def)
  then show ?thesis using assms(1,2) by (intro standing_set [of c s p x]) simp_all
qed

lemma authenticating:
  assumes s: "standing None s"
  shows "standing None (authenticate ap p m s)"
proof (cases "peer_of s p")
  case (Some x)
  show ?thesis
  proof (cases "credentials_ok s m")
    case True
    let ?y = "x\<lparr>pr_sequence := ct_sequence s + 1, pr_authenticated := True, pr_timer := False\<rparr>"
    let ?s1 = "(set_peer p ?y s)\<lparr>ct_sequence := ct_sequence s + 1, ct_current := Some p\<rparr>"
    let ?s2 = "?s1\<lparr>ct_calls := ct_calls s @ [Attach_call p]\<rparr>"
    have p2: "peer_of ?s2 q = (if q = p then Some ?y else peer_of s q)" for q
      using peer_of_same [of ?s2 "set_peer p ?y s"] by (simp add: peer_of_set)
    have x: "peer_ok x" "p < ct_next s" using s Some by (auto simp: standing_def control_ok_def)
    then have y: "peer_ok ?y" by (simp add: peer_ok_def)
    have ps: "distinct (map fst (ct_peers ?s2))" "length (ct_peers ?s2) \<le> MAX_PEERS"
      using s Some by (simp_all add: standing_def control_ok_def set_peer_def peer_of_def distinct_update length_update)
    have old: "pr_sequence z \<le> ct_sequence s \<and> Attach_call q \<in> set (ct_calls s)" if "peer_of s q = Some z" "pr_authenticated z" for q z
      using s that by (auto simp: standing_def control_ok_def)
    have each: "q < ct_next s \<and> peer_ok z" if "peer_of s q = Some z" for q z
      using s that by (auto simp: standing_def control_ok_def)
    have "requests_ok (ct_calls s)" using s by (simp add: standing_def control_ok_def)
    then have "control_ok ?s2"
      unfolding control_ok_def p2 using ps x y old each by (auto simp: requests_ok_append le_Suc_eq)
    moreover have "current_ok ?s2" unfolding current_ok_def p2 using old by (auto simp: le_Suc_eq)
    ultimately have "standing None ?s2" by (simp add: standing_def)
    then have "standing None (snd (tell_app ap (Attach_call p) ?s1))"
      using reacting [of None ?s2 "Attach_call p"] by (simp add: tell_app_def)
    then have "standing None (snd (tell_app ap (Takeover_call (ct_current s) (Some p)) (snd (tell_app ap (Attach_call p) ?s1))))"
      by (rule telling) simp
    with True Some show ?thesis by (simp add: authenticate_def Let_def)
  next
    case False
    with Some s show ?thesis by (simp add: authenticate_def closing)
  qed
qed (use s in \<open>simp add: authenticate_def\<close>)

lemma reading_one:
  assumes s: "standing None s"
  shows "standing None (snd (read_one ap decode p s))"
proof (cases "peer_of s p")
  case (Some x)
  note x = this
  let ?n = "unpack4 (take 4 (drop 1 (pr_input x)))"
  let ?s1 = "set_peer p (x\<lparr>pr_input := drop (?n + 5) (pr_input x)\<rparr>) s"
  show ?thesis
  proof (cases "length (pr_input x) < 5 \<or> pr_input x ! 0 \<noteq> 1 \<or> ?n = 0 \<or> MAX_MESSAGE < ?n \<or> length (pr_input x) < ?n + 5")
    case True
    with x s closing [OF s, of p] show ?thesis by (auto simp: read_one_def Let_def)
  next
    case False
    have "peer_ok x" using s x by (auto simp: standing_def control_ok_def)
    then have "length (pr_input x) \<le> MAX_MESSAGE + 5" by (rule peer_okD(9))
    then have s1: "standing None ?s1" using s x by (intro reading_set) simp_all
    show ?thesis
    proof (cases "Option.bind (decode (take ?n (drop 5 (pr_input x)))) json_loads")
      case None
      with False x closing [OF s, of p] show ?thesis by (simp add: read_one_def Let_def)
    next
      case (Some message)
      show ?thesis
      proof (cases "\<exists>m. message = PDict m \<and> pr_authenticated x \<and> request_ok m")
        case True
        then obtain m where m: "message = PDict m" "pr_authenticated x" "request_ok m" by blast
        have "Attach_call p \<in> set (ct_calls ?s1)" using s x m(2) by (auto simp: standing_def control_ok_def)
        then have t: "standing None (snd (tell_app ap (Request_call p m) ?s1))" using s1 by (intro telling) auto
        obtain e u where e: "tell_app ap (Request_call p m) ?s1 = (e, u)" by (cases "tell_app ap (Request_call p m) ?s1")
        with t closing [of None u p] False x Some m show ?thesis
          by (cases e) (simp_all add: read_one_def Let_def)
      next
        case refused: False
        have "standing None (close_peer ap p ?s1)" "standing None (authenticate ap p m ?s1)" for m
          using closing [OF s1] authenticating [OF s1] by simp_all
        moreover have "\<not> (pr_authenticated x \<and> request_ok m)" if "message = PDict m" for m using refused that by blast
        ultimately show ?thesis using False x Some
          by (cases message; cases "pr_authenticated x") (simp_all add: read_one_def Let_def)
      qed
    qed
  qed
qed (use s in \<open>simp add: read_one_def\<close>)

lemma reading_loop: "standing None s \<Longrightarrow> standing None (read_loop ap decode p n s)"
proof (induction n arbitrary: s)
  case (Suc n)
  obtain g u where "read_one ap decode p s = (g, u)" by (cases "read_one ap decode p s")
  with Suc reading_one [OF Suc.prems, of decode p] show ?case by simp
qed simp

lemma reading: "standing None s \<Longrightarrow> standing None (read_peer ap decode p answer s)"
proof (cases "peer_of s p")
  case (Some x)
  assume s: "standing None s"
  then have "peer_ok x" using Some by (auto simp: standing_def control_ok_def)
  then have "length (pr_input x) \<le> MAX_MESSAGE + 5" by (rule peer_okD(9))
  then have "standing None (set_peer p (x\<lparr>pr_input := pr_input x @ take (MAX_MESSAGE + 5 - length (pr_input x)) bs\<rparr>) s)" for bs
    using s Some by (intro reading_set) simp_all
  then show ?thesis
    using s Some closing by (auto simp: read_peer_def Let_def reading_loop split: receive_answer.split)
qed (simp add: read_peer_def)

lemma accepting_one: "standing None s \<Longrightarrow> standing None (accept_one me user s)"
proof (cases "MAX_PEERS \<le> length (ct_peers s) \<or> user \<noteq> Some me")
  case False
  assume s: "standing None s"
  let ?u = "s\<lparr>ct_peers := ct_peers s @ [(ct_next s, new_peer)], ct_next := ct_next s + 1\<rparr>"
  have new: "peer_of s (ct_next s) = None"
    using s by (cases "peer_of s (ct_next s)") (auto simp: standing_def control_ok_def)
  then have p: "peer_of ?u q = (if q = ct_next s then Some new_peer else peer_of s q)" for q
    by (auto simp: peer_of_def map_add_def split: option.split)
  have "ct_next s \<notin> fst ` set (ct_peers s)" using new by (simp add: peer_of_def map_of_eq_None_iff)
  then have "distinct (map fst (ct_peers ?u))" "length (ct_peers ?u) \<le> MAX_PEERS"
    using s False by (simp_all add: standing_def control_ok_def)
  moreover have "\<not> pr_authenticated new_peer" by (simp add: new_peer_def)
  moreover have "current_ok ?u"
    using s p new \<open>\<not> pr_authenticated new_peer\<close> by (auto simp: standing_def current_ok_def split: option.splits)
  ultimately have "standing None ?u"
    using s p peer_ok_new by (fastforce simp: standing_def control_ok_def)
  with False show ?thesis by (simp add: accept_one_def)
qed (simp add: accept_one_def)

lemma accepting: "standing None s \<Longrightarrow> standing None (accept_peers me users s)"
proof -
  have "standing None s \<Longrightarrow> standing None (fold (accept_one me) us s)" for us
    by (induction us arbitrary: s) (simp_all add: accepting_one)
  then show "standing None s \<Longrightarrow> standing None (accept_peers me users s)" by (simp add: accept_peers_def)
qed

lemma ending: "standing None s \<Longrightarrow> standing None (close_control ap s)"
proof -
  assume s: "standing None s"
  have "standing None u \<Longrightarrow> standing None (fold (close_peer ap) ps u)" for ps u
    by (induction ps arbitrary: u) (simp_all add: closing)
  moreover have "standing None (s\<lparr>ct_closed := True\<rparr>)"
    using s peer_of_same [of "s\<lparr>ct_closed := True\<rparr>" s]
    by (cases "ct_current s") (simp_all add: standing_def control_ok_def current_ok_def)
  ultimately show ?thesis using s by (simp add: close_control_def)
qed

lemma stepping: "standing None s \<Longrightarrow> standing None (control_step ap fr decode event s)"
  by (cases event) (simp_all add: control_step_def accepting reading writing expiring acting ending)

lemma running: "standing None s \<Longrightarrow> standing None (control_run ap fr decode events s)"
  unfolding control_run_def by (induction events arbitrary: s) (simp_all add: stepping)

end

subsection \<open>Every application that only sends and closes\<close>

lemma standing_app: "standing c (s\<lparr>ct_app := a\<rparr>) = standing c s"
proof -
  have "peer_of (s\<lparr>ct_app := a\<rparr>) = peer_of s" by (rule peer_of_same) simp
  then show ?thesis by (cases "ct_current s"; cases c) (simp_all add: standing_def control_ok_def current_ok_def)
qed

lemma perform_sound: "sound_app (perform n fr react)"
proof (induction n)
  case 0
  show ?case by unfold_locales simp
next
  case (Suc n)
  have keeps: "standing c s \<Longrightarrow> standing c (fold (act (perform n fr react) fr) actions s)" for c actions s
    by (induction actions arbitrary: s) (simp_all add: sound_app.acting [OF Suc.IH])
  show ?case by unfold_locales (simp add: split_beta keeps standing_app)
qed

interpretation performed: sound_app "perform n fr react" for n fr and react :: "'a reaction"
  by (rule perform_sound)

lemma standing_new: "new_control inst token a = Some s \<Longrightarrow> standing None s"
  by (auto simp: new_control_def standing_def control_ok_def current_ok_def requests_ok_def peer_of_def MAX_PEERS_def
      split: pyval.splits if_splits)

lemma standing_run:
  "new_control inst token a = Some s \<Longrightarrow> standing None (control_run (perform n fr react) fr decode events s)"
  by (rule performed.running [OF standing_new])

subsection \<open>A message on the socket\<close>

definition ascii_text :: "pystr \<Rightarrow> bool" where
  "ascii_text s \<longleftrightarrow> list_all (\<lambda>c. 0 < c \<and> c < 128) s"

lemma ascii_text_simps [simp]:
  "ascii_text []" "ascii_text (c # s) \<longleftrightarrow> 0 < c \<and> c < 128 \<and> ascii_text s" "ascii_text (s @ u) \<longleftrightarrow> ascii_text s \<and> ascii_text u"
  by (auto simp: ascii_text_def)

lemma ascii_hex: "n < 16 \<Longrightarrow> 0 < hex_digit n \<and> hex_digit n < 128"
  by (simp add: hex_digit_def)

lemma ascii_u_escape: "c < 65536 \<Longrightarrow> ascii_text (u_escape c)"
  by (simp add: u_escape_def ascii_hex less_mult_imp_div_less)

lemma ascii_escape: "scalar c \<Longrightarrow> ascii_text (escape_char True c)"
proof -
  assume "scalar c"
  then have c: "c < 1114112" by (simp add: scalar_def)
  then have "(c - 65536) div 1024 < 1024" by (simp add: less_mult_imp_div_less)
  then show ?thesis using c by (auto simp: escape_char_def ascii_u_escape)
qed

lemma ascii_string: "list_all scalar s \<Longrightarrow> ascii_text (json_string True s)"
proof -
  assume "list_all scalar s"
  then have "ascii_text (concat (map (escape_char True) s))" by (induction s) (simp_all add: ascii_escape)
  then show ?thesis by (simp add: json_string_def)
qed

lemma ascii_int: "ascii_text (int_text n)"
proof -
  have "ascii_text (digits k)" for k
    using digits_all [of k] by (auto simp: ascii_text_def list_all_iff digit_def)
  then show ?thesis by (simp add: int_text_def)
qed

lemma ascii_json:
  "plain_value v \<Longrightarrow> ascii_text (json_value fr True v)"
  "\<forall>v \<in> set vs. plain_value v \<Longrightarrow> ascii_text (json_items fr True vs)"
  "\<forall>m \<in> set ms. list_all scalar (fst m) \<and> plain_value (snd m) \<Longrightarrow> ascii_text (json_members fr True ms)"
proof (induction fr True v and fr True vs and fr True ms rule: json_value_json_items_json_members.induct)
qed (auto simp: py_def ascii_string ascii_int)

lemma utf8_ascii: "ascii_text s \<Longrightarrow> utf8_encode s = Some s"
proof -
  assume s: "ascii_text s"
  then have "list_all scalar s" by (auto simp: ascii_text_def list_all_iff scalar_def surrogate_def)
  moreover have "concat (map utf8_char s) = s" using s by (induction s) (simp_all add: utf8_char_def)
  ultimately show ?thesis by (simp add: utf8_encode_def)
qed

lemma framed:
  assumes "plain_value (PDict m)" "encode_message fr (PDict m) maximum = Some data" "maximum \<le> MAX_OUTPUT"
  shows "\<exists>body. body = json_value fr True (PDict m) \<and> ascii_text body \<and> data = 1 # pack4 (length body) @ body \<and> 0 < length body \<and>
    length body \<le> maximum \<and> unpack4 (pack4 (length body)) = length body"
proof -
  let ?b = "json_value fr True (PDict m)"
  have a: "ascii_text ?b" by (rule ascii_json(1) [OF assms(1)])
  moreover have "json_dumps fr True (PDict m) = Some ?b" using assms(1) by (simp add: json_dumps_def plain_dumpable del: json_value.simps)
  ultimately have d: "data = 1 # pack4 (length ?b) @ ?b" "0 < length ?b" "length ?b \<le> maximum"
    using assms(2) utf8_ascii [OF a] by (auto simp: encode_message_def frame_header_def split: if_splits simp del: json_value.simps)
  moreover from this assms(3) have "unpack4 (pack4 (length ?b)) = length ?b" by (intro unpack4_pack4) (simp add: MAX_OUTPUT_def)
  ultimately show ?thesis using a by blast
qed

subsection \<open>Properties\<close>

lemma message_read:
  assumes "plain_value (PDict m)" "encode_message fr (PDict m) MAX_MESSAGE = Some data"
    and "peer_of s p = Some x" "pr_input x = data @ rest" "\<forall>bs. ascii_text bs \<longrightarrow> decode bs = Some bs"
  shows "read_one ap decode p s =
    (let s1 = set_peer p (x\<lparr>pr_input := rest\<rparr>) s in
     if \<not> pr_authenticated x then (True, authenticate ap p m s1)
     else if \<not> request_ok m then (False, close_peer ap p s1)
     else
       (case tell_app ap (Request_call p m) s1 of
          (Call_returns, s2) \<Rightarrow> (True, s2)
        | (Call_refuses, s2) \<Rightarrow> (False, close_peer ap p s2)
        | (Call_escapes, s2) \<Rightarrow> (False, s2)))"
proof -
  obtain body where b: "body = json_value fr True (PDict m)" "ascii_text body" "data = 1 # pack4 (length body) @ body"
    "0 < length body" "length body \<le> MAX_MESSAGE" "unpack4 (pack4 (length body)) = length body"
    using framed [OF assms(1,2)] by (auto simp: MAX_MESSAGE_def MAX_OUTPUT_def)
  have "json_loads body = Some (PDict m)" unfolding b(1) by (rule loads_dumps [OF assms(1)])
  then have l: "Option.bind (decode body) json_loads = Some (PDict m)" using assms(5) b(2) by simp
  have i: "pr_input x = 1 # pack4 (length body) @ body @ rest" by (simp add: assms(4) b(3))
  have "drop (length body + 5) (pr_input x) = drop (length body) (drop 5 (pr_input x))" by simp
  also have "\<dots> = rest" by (simp add: i)
  finally have d: "drop (length body + 5) (pr_input x) = rest" .
  have t: "take 4 (drop 1 (pr_input x)) = pack4 (length body)" "drop 5 (pr_input x) = body @ rest" "length (pr_input x) = length body + length rest + 5" "pr_input x ! 0 = 1"
    by (simp_all add: i)
  show ?thesis
    unfolding read_one_def Let_def assms(3) option.case t b(6) d
    using b(4,5) l by simp
qed


text \<open>C32: However the sockets, the timeouts and the application act, there are at most eight peers, and each
  keeps at most one largest message unread, its control output at most ten bytes over the limit of two
  MiB (the two payload headers) and at most 516 records.\<close>
theorem control_bounded:
  assumes "new_control inst token a = Some s"
  shows "length (ct_peers (control_run (perform n fr react) fr decode events s)) \<le> MAX_PEERS \<and>
    (\<forall>p x. peer_of (control_run (perform n fr react) fr decode events s) p = Some x \<longrightarrow>
       length (pr_input x) \<le> MAX_MESSAGE + 5 \<and> pr_control x \<le> MAX_OUTPUT + 10 \<and> length (pr_output x) \<le> MAX_OUTPUT_RECORDS + 4 \<and>
       pr_control x = control_bytes (pr_output x))"
proof -
  have "control_ok (control_run (perform n fr react) fr decode events s)"
    using standing_run [OF assms] by (simp add: standing_def)
  then show ?thesis using peer_bounds peer_okD(8,9) by (auto simp: control_ok_def)
qed



text \<open>A request survives the socket: the bytes of a well-formed request, whatever follows them in the
  buffer, are read as that request and removed from it. \<open>json.loads\<close> decodes bytes without a NUL and
  below 128 as ASCII.\<close>
theorem control_message_round_trip:
  assumes "plain_value (PDict m)" "request_ok m" "encode_message fr (PDict m) MAX_MESSAGE = Some data"
    and "peer_of s p = Some x" "pr_authenticated x" "pr_input x = data @ rest"
    and "\<forall>bs. ascii_text bs \<longrightarrow> decode bs = Some bs"
  shows "read_one ap decode p s =
    (case tell_app ap (Request_call p m) (set_peer p (x\<lparr>pr_input := rest\<rparr>) s) of
       (Call_returns, u) \<Rightarrow> (True, u)
     | (Call_refuses, u) \<Rightarrow> (False, close_peer ap p u)
     | (Call_escapes, u) \<Rightarrow> (False, u))"
  using message_read [OF assms(1,3,4,6,7)] assms(2,5) by (simp add: Let_def)

subsection \<open>Witnesses\<close>

definition sample_control :: "unit control" where
  "sample_control = \<lparr>ct_instance = [105], ct_token = replicate 64 48, ct_peers = [], ct_next = 0, ct_current = None,
     ct_closed = False, ct_sequence = 0, ct_app = (), ct_calls = []\<rparr>"

lemma sample_created: "new_control (PStr [105]) (PStr (replicate 64 48)) () = Some sample_control"
  by (simp add: new_control_def token_ok_def sample_control_def py_def list_all_iff)

text \<open>An application that closes the peer that was attached before.\<close>

definition sample_reaction :: "unit reaction" where
  "sample_reaction call s = ((case call of Attach_call (Suc p) \<Rightarrow> [Close_action p] | _ \<Rightarrow> []), Call_returns, ())"

definition sample_run :: "unit control" where
  "sample_run = control_run (perform 2 (\<lambda>r. []) sample_reaction) (\<lambda>r. []) Some [Accept 7 [Some 7, Some 8, Some 7], Expire 0] sample_control"

lemma control_bounded_witness: "length (ct_peers sample_run) \<le> MAX_PEERS"
  unfolding sample_run_def using control_bounded [OF sample_created] by blast

definition status_request :: "(pystr \<times> pyval) list" where
  "status_request = [(py ''id'', PInt 1), (py ''method'', PStr (py ''status''))]"

definition ready_control :: "bytes \<Rightarrow> unit control" where
  "ready_control input = sample_control\<lparr>ct_peers := [(0, new_peer\<lparr>pr_authenticated := True, pr_input := input\<rparr>)]\<rparr>"

lemma status_plain: "plain_value (PDict status_request)" "request_ok status_request"
  by (simp_all add: status_request_def py_def scalar_def surrogate_def digits_rec int_digits_limit_def request_ok_def dict_get_def
      integer_def in_range_def)

lemma status_length: "length (json_value fr True (PDict status_request)) = 26"
  by (simp add: status_request_def py_def json_string_def escape_char_def int_text_def digits_rec)

lemma status_encoded:
  "encode_message fr (PDict status_request) MAX_MESSAGE =
     Some (frame_header 1 26 @ json_value fr True (PDict status_request))"
  using utf8_ascii [OF ascii_json(1) [OF status_plain(1)], of fr] status_length [of fr] plain_dumpable [OF status_plain(1)]
  by (simp add: encode_message_def json_dumps_def MAX_MESSAGE_def del: json_value.simps)

lemma control_message_round_trip_witness:
  "fst (read_one (perform 2 (\<lambda>r. []) sample_reaction) (\<lambda>bs. if ascii_text bs then Some bs else None) 0
     (ready_control ((frame_header 1 26 @ json_value (\<lambda>r. []) True (PDict status_request)) @ [1, 0])))"
proof -
  let ?data = "frame_header 1 26 @ json_value (\<lambda>r. []) True (PDict status_request)"
  have p: "peer_of (ready_control (?data @ [1, 0])) 0 = Some (new_peer\<lparr>pr_authenticated := True, pr_input := ?data @ [1, 0]\<rparr>)"
    by (simp add: ready_control_def peer_of_def sample_control_def del: json_value.simps)
  show ?thesis
    by (subst control_message_round_trip [OF status_plain status_encoded p, where rest = "[1, 0]"])
       (simp_all add: tell_app_def sample_reaction_def numeral_2_eq_2 split_beta del: json_value.simps)
qed













end
