(* ===== verification/Launch_Plan.thy ===== *)
theory Launch_Plan
  imports Prelude
begin

section \<open>Application identity before launch (launch\_plan.py)\<close>

text \<open>
  \<open>prepare\<close> inspects a desktop entry, the executable it names and the package that owns it, and binds
  what it saw in a plan; \<open>revalidate\<close> accepts a plan only if doing all of it again gives the same plan.

  A text is the list of its UTF-8 bytes, as characters; the code only compares, splits and prefixes
  texts at ASCII characters. The host answers as a record of functions: the file system, the desktop
  entry as GIO reads it, GLib's argument parser, \<open>shutil.which\<close>, the path functions that depend on the
  working directory, the package commands and the snap service, SHA-256. A file is read at several
  moments (\<open>ho_probe\<close>, \<open>ho_stat\<close>), so it may change in between. Any exception that is not \<open>Unavailable\<close> is
  \<open>Escapes\<close>, with whether it is a \<open>KeyError\<close>.
\<close>

datatype plan_error = Unavailable string string | Escapes bool

definition unavailable :: "string \<Rightarrow> plan_error" where
  "unavailable code = Unavailable code ''planning''"

definition stale_plan :: plan_error where
  "stale_plan = Unavailable ''APPLICATION_PLAN_STALE'' ''revalidation''"

fun attempt :: "plan_error + 'a \<Rightarrow> ('a \<Rightarrow> plan_error + 'b) \<Rightarrow> plan_error + 'b" where
  "attempt (Inl e) f = Inl e"
| "attempt (Inr x) f = f x"

definition require :: "bool \<Rightarrow> string \<Rightarrow> plan_error + unit" where
  "require c code = (if c then Inr () else Inl (unavailable code))"

definition found :: "'a option \<Rightarrow> string \<Rightarrow> plan_error + 'a" where
  "found x code = (case x of None \<Rightarrow> Inl (unavailable code) | Some y \<Rightarrow> Inr y)"

subsection \<open>Texts and paths\<close>

primrec split_where :: "(char \<Rightarrow> bool) \<Rightarrow> string \<Rightarrow> string list" where
  "split_where sep [] = [[]]"
| "split_where sep (x # xs) =
     (if sep x then [] # split_where sep xs
      else case split_where sep xs of [] \<Rightarrow> [[x]] | y # ys \<Rightarrow> (x # y) # ys)"

definition split_text :: "char \<Rightarrow> string \<Rightarrow> string list" where
  "split_text c = split_where (\<lambda>x. x = c)"

text \<open>\<open>splitlines\<close> at the ASCII line breaks; \<open>\r\n\<close> leaves an empty line more, which no caller keeps.\<close>

definition text_lines :: "string \<Rightarrow> string list" where
  "text_lines = split_where (\<lambda>x. of_char x \<in> {0x0A, 0x0B, 0x0C, 0x0D, 0x1C, 0x1D, 0x1E :: nat})"

fun join_text :: "string \<Rightarrow> string list \<Rightarrow> string" where
  "join_text sep [] = []"
| "join_text sep [x] = x"
| "join_text sep (x # y # ys) = x @ sep @ join_text sep (y # ys)"

text \<open>\<open>str.partition\<close>, \<open>startswith\<close> and \<open>endswith\<close>.\<close>

definition part_text :: "char \<Rightarrow> string \<Rightarrow> string \<times> bool \<times> string" where
  "part_text c s = (takeWhile (\<lambda>x. x \<noteq> c) s, c \<in> set s, drop 1 (dropWhile (\<lambda>x. x \<noteq> c) s))"

definition starts_with :: "string \<Rightarrow> string \<Rightarrow> bool" where
  "starts_with p s \<longleftrightarrow> take (length p) s = p"

definition ends_with :: "string \<Rightarrow> string \<Rightarrow> bool" where
  "ends_with p s \<longleftrightarrow> length p \<le> length s \<and> drop (length s - length p) s = p"

definition slash :: char where "slash = CHR ''/''"

definition absolute :: "string \<Rightarrow> bool" where
  "absolute path = starts_with ''/'' path"

definition path_join :: "string \<Rightarrow> string \<Rightarrow> string" where
  "path_join a b = (if absolute b then b else if a = [] \<or> ends_with ''/'' a then a @ b else a @ ''/'' @ b)"

definition path_name :: "string \<Rightarrow> string" where
  "path_name path = (case filter (\<lambda>x. x \<noteq> []) (split_text slash path) of [] \<Rightarrow> [] | parts \<Rightarrow> last parts)"

text \<open>\<open>str(Path(path))\<close> of an absolute path.\<close>

definition path_text :: "string \<Rightarrow> string" where
  "path_text path =
     (if starts_with ''//'' path \<and> \<not> starts_with ''///'' path then ''//'' else ''/'') @
     join_text ''/'' (filter (\<lambda>x. x \<noteq> [] \<and> x \<noteq> ''.'') (split_text slash path))"

text \<open>The character classes of the regular expressions.\<close>

definition lower_letter :: "char \<Rightarrow> bool" where
  "lower_letter c \<longleftrightarrow> c \<in> set ''abcdefghijklmnopqrstuvwxyz''"

definition upper_letter :: "char \<Rightarrow> bool" where
  "upper_letter c \<longleftrightarrow> c \<in> set ''ABCDEFGHIJKLMNOPQRSTUVWXYZ''"

definition decimal :: "char \<Rightarrow> bool" where
  "decimal c \<longleftrightarrow> c \<in> set ''0123456789''"

definition hex_digest :: "string \<Rightarrow> bool" where
  "hex_digest s \<longleftrightarrow> length s = 64 \<and> list_all (\<lambda>c. c \<in> set ''0123456789abcdef'') s"

subsection \<open>The host\<close>

record file_stat =
  fs_dev :: nat
  fs_ino :: nat
  fs_size :: int
  fs_mtime :: nat
  fs_ctime :: nat
  fs_mode :: nat
  fs_regular :: bool
  fs_other :: "nat list"

text \<open>What reading one file gives: the status when it is open, its bytes, the status after them.\<close>

record file_probe =
  fp_before :: file_stat
  fp_bytes :: bytes
  fp_after :: file_stat

record desktop_entry =
  de_hidden :: bool
  de_terminal :: bool
  de_exec :: string
  de_path :: string
  de_backend :: "string option"
  de_snap :: "string option"
  de_snap_app :: "string option"
  de_flatpak :: "string option"

text \<open>A package command: its output in blocks, or a wait that ran out; how it ended.\<close>

datatype output_event = Block bytes | Too_late

datatype command_end = Exits int | Fails

record command_run =
  cr_starts :: bool
  cr_output :: "output_event list"
  cr_end :: command_end

text \<open>The answer of the snap service; in a document, \<open>None\<close> is a key or a type that is not there.\<close>

record snap_document =
  sn_type :: string
  sn_name :: string
  sn_status :: string
  sn_confinement :: string
  sn_apps :: "string list option"
  sn_revision :: "string option"
  sn_version :: "string option"

datatype snap_answer = Snap_fails | Snap_refuses | Snap_malformed | Snap_document snap_document

type_synonym environ = "(string \<times> string) list"

record host =
  ho_resolve :: "nat \<Rightarrow> string \<Rightarrow> string option"
  ho_probe :: "nat \<Rightarrow> string \<Rightarrow> file_probe option"
  ho_stat :: "nat \<Rightarrow> string \<Rightarrow> file_stat option"
  ho_sha256 :: "bytes \<Rightarrow> string"
  ho_realpath :: "string \<Rightarrow> string"
  ho_abspath :: "string \<Rightarrow> string"
  ho_cwd :: string
  ho_which :: "string \<Rightarrow> string \<Rightarrow> string option"
  ho_defpath :: string
  ho_entry :: "string \<Rightarrow> desktop_entry option"
  ho_parse :: "string \<Rightarrow> string list option"
  ho_run :: "string list \<Rightarrow> environ \<Rightarrow> command_run"
  ho_text :: "bytes \<Rightarrow> string option"
  ho_snap :: "string \<Rightarrow> snap_answer"
  ho_header :: "string \<Rightarrow> bytes option"

subsection \<open>Files\<close>

record file_identity =
  fi_path :: string
  fi_resolved :: string
  fi_sha256 :: string
  fi_dev :: nat
  fi_ino :: nat
  fi_size :: int
  fi_mtime :: nat
  fi_ctime :: nat
  fi_mode :: nat

definition same_fields :: "file_stat \<Rightarrow> file_stat \<Rightarrow> bool" where
  "same_fields a b \<longleftrightarrow> fs_dev a = fs_dev b \<and> fs_ino a = fs_ino b \<and> fs_size a = fs_size b \<and> fs_mtime a = fs_mtime b \<and>
     fs_ctime a = fs_ctime b \<and> fs_mode a = fs_mode b"

text \<open>\<open>file_identity\<close> at the moments \<open>t\<close> (up to the last read) and \<open>t + 1\<close> (the two checks of the path).\<close>

definition identify_file :: "host \<Rightarrow> nat \<Rightarrow> int \<Rightarrow> string \<Rightarrow> plan_error + file_identity" where
  "identify_file h t limit path =
     (if \<not> absolute path then Inl (unavailable ''APPLICATION_TARGET_INVALID'')
      else attempt (found (ho_resolve h t path) ''APPLICATION_TARGET_UNAVAILABLE'') (\<lambda>resolved.
        attempt (found (ho_probe h t resolved) ''APPLICATION_TARGET_UNAVAILABLE'') (\<lambda>p.
          if \<not> fs_regular (fp_before p) \<or> limit < fs_size (fp_before p) then Inl (unavailable ''APPLICATION_TARGET_INVALID'')
          else if limit < int (length (fp_bytes p)) then Inl (unavailable ''APPLICATION_TARGET_INVALID'')
          else if \<not> same_fields (fp_before p) (fp_after p) then Inl stale_plan
          else attempt (found (ho_resolve h (t + 1) path) ''APPLICATION_TARGET_UNAVAILABLE'') (\<lambda>again.
            if again \<noteq> resolved then Inl stale_plan
            else attempt (found (ho_stat h (t + 1) path) ''APPLICATION_TARGET_UNAVAILABLE'') (\<lambda>now.
              if now \<noteq> fp_after p then Inl stale_plan
              else Inr \<lparr>fi_path = path, fi_resolved = resolved, fi_sha256 = ho_sha256 h (fp_bytes p), fi_dev = fs_dev now,
                     fi_ino = fs_ino now, fi_size = fs_size now, fi_mtime = fs_mtime now, fi_ctime = fs_ctime now,
                     fi_mode = fs_mode now\<rparr>)))))"

subsection \<open>Environments\<close>

definition env_set :: "string \<Rightarrow> string \<Rightarrow> environ \<Rightarrow> environ" where
  "env_set k v e = (if k \<in> fst ` set e then map (\<lambda>y. if fst y = k then (k, v) else y) e else e @ [(k, v)])"

definition env_drop :: "string \<Rightarrow> environ \<Rightarrow> environ" where
  "env_drop k e = filter (\<lambda>y. fst y \<noteq> k) e"

text \<open>\<open>restored_environment\<close>, where \<open>overrides\<close> are the items of the JSON object in the environment.\<close>

definition restored_environment :: "(string \<times> string option) list \<Rightarrow> environ \<Rightarrow> environ" where
  "restored_environment overrides e =
     env_drop ''FLOE_NATIVE_ROOT''
       (fold (\<lambda>y r. case snd y of None \<Rightarrow> env_drop (fst y) r | Some v \<Rightarrow> env_set (fst y) v r) overrides
         (env_drop ''FLOE_NATIVE_APPLICATION_ENV'' e))"



definition search_path :: "host \<Rightarrow> environ \<Rightarrow> string" where
  "search_path h e = (case map_of e ''PATH'' of None \<Rightarrow> ho_defpath h | Some p \<Rightarrow> p)"

subsection \<open>Package commands\<close>

primrec read_blocks :: "output_event list \<Rightarrow> int \<Rightarrow> bytes \<Rightarrow> plan_error + bytes" where
  "read_blocks [] n read = Inr read"
| "read_blocks (x # xs) n read =
     (case x of
        Too_late \<Rightarrow> Inl (unavailable ''PACKAGE_PROBE_TIMEOUT'')
      | Block b \<Rightarrow>
          if b = [] then Inr read
          else if 1048576 < n + int (length b) then Inl (unavailable ''PACKAGE_METADATA_INVALID'')
          else read_blocks xs (n + int (length b)) (read @ b))"

definition command_output :: "host \<Rightarrow> string list \<Rightarrow> environ \<Rightarrow> bool \<Rightarrow> plan_error + string option" where
  "command_output h command e missing =
     (let c = ho_run h command e; failed = unavailable ''PACKAGE_RUNTIME_UNAVAILABLE'' in
      if \<not> cr_starts c then Inl failed
      else attempt (read_blocks (cr_output c) 0 []) (\<lambda>data.
        case cr_end c of
          Fails \<Rightarrow> Inl failed
        | Exits code \<Rightarrow>
            if missing \<and> code = 1 then Inr None
            else if code \<noteq> 0 then Inl failed
            else (case ho_text h data of None \<Rightarrow> Inl failed | Some t \<Rightarrow> Inr (Some t))))"

definition snap_name_ok :: "string \<Rightarrow> bool" where
  "snap_name_ok s \<longleftrightarrow> s \<noteq> [] \<and> length s \<le> 64 \<and> (lower_letter (hd s) \<or> decimal (hd s)) \<and>
     list_all (\<lambda>c. lower_letter c \<or> decimal c \<or> c \<in> set ''_-'') (tl s)"

definition snap_information :: "host \<Rightarrow> string \<Rightarrow> plan_error + snap_document" where
  "snap_information h name =
     (if \<not> snap_name_ok name then Inl (unavailable ''PACKAGE_METADATA_INVALID'')
      else
        case ho_snap h name of
          Snap_fails \<Rightarrow> Inl (unavailable ''PACKAGE_RUNTIME_UNAVAILABLE'')
        | Snap_refuses \<Rightarrow> Inl (unavailable ''PACKAGE_RUNTIME_UNAVAILABLE'')
        | Snap_malformed \<Rightarrow> Inl (unavailable ''PACKAGE_METADATA_INVALID'')
        | Snap_document d \<Rightarrow>
            if sn_type d \<noteq> ''sync'' \<or> sn_name d \<noteq> name \<or> sn_status d \<noteq> ''active''
            then Inl (unavailable ''PACKAGE_METADATA_INVALID'')
            else if sn_confinement d \<notin> {''strict'', ''classic''} then Inl (unavailable ''PACKAGE_CONFINEMENT_UNSUPPORTED'')
            else Inr d)"


subsection \<open>The launcher\<close>

text \<open>\<open>find\<close> inside \<open>launch_tokens\<close>.\<close>

definition find_command :: "host \<Rightarrow> string \<Rightarrow> environ \<Rightarrow> string \<Rightarrow> string option" where
  "find_command h directory e command =
     (let places = map (\<lambda>item. ho_abspath h (path_join directory item)) (split_text (CHR '':'') (search_path h e));
          name = (if slash \<in> set command \<and> \<not> absolute command then path_join directory command else command)
      in ho_which h name (join_text '':'' places))"

definition assignment :: "string \<Rightarrow> bool" where
  "assignment s \<longleftrightarrow>
     (let (key, found, val) = part_text (CHR ''='') s in
      found \<and> key \<noteq> [] \<and> (lower_letter (hd key) \<or> upper_letter (hd key) \<or> hd key = CHR ''_'') \<and>
      list_all (\<lambda>c. lower_letter c \<or> upper_letter c \<or> decimal c \<or> c = CHR ''_'') key)"

fun take_assignments :: "string list \<Rightarrow> environ \<Rightarrow> string list \<times> environ" where
  "take_assignments [] e = ([], e)"
| "take_assignments (t # ts) e =
     (if assignment t then (let (key, found, val) = part_text (CHR ''='') t in take_assignments ts (env_set key val e))
      else (t # ts, e))"

definition launch_tokens :: "host \<Rightarrow> desktop_entry \<Rightarrow> environ \<Rightarrow> plan_error + string \<times> string list \<times> environ" where
  "launch_tokens h entry e =
     attempt (found (ho_parse h (de_exec entry)) ''APPLICATION_TARGET_INVALID'') (\<lambda>tokens.
     attempt (require (tokens \<noteq> []) ''APPLICATION_TARGET_INVALID'') (\<lambda>_.
       let directory = (if de_path entry = [] then ho_cwd h else de_path entry) in
       if \<not> absolute directory then Inl (unavailable ''APPLICATION_TARGET_INVALID'')
       else attempt (found (find_command h directory e (hd tokens)) ''APPLICATION_TARGET_UNAVAILABLE'') (\<lambda>first.
         let executable = ho_abspath h first in
         if path_name executable = ''env'' \<and> ho_realpath h executable = ho_realpath h ''/usr/bin/env'' then
           let (after, e1) = take_assignments (tl tokens) e;
               rest = (if after \<noteq> [] \<and> hd after = ''--'' then tl after else after)
           in if rest = [] \<or> starts_with ''-'' (hd rest) then Inl (unavailable ''APPLICATION_LAUNCHER_UNSUPPORTED'')
              else attempt (found (find_command h directory e1 (hd rest)) ''APPLICATION_TARGET_UNAVAILABLE'') (\<lambda>target.
                Inr (ho_abspath h target, rest, e1))
         else Inr (ho_abspath h executable, tokens, e))))"

subsection \<open>Packages\<close>

datatype package =
    Native_package
  | Deb_package string string
  | Rpm_package string string
  | Snap_package string string string string string
  | Flatpak_package string string string string file_identity
  | Appimage_package string string nat

definition tab :: char where "tab = CHR 0x09"

definition owner_ok :: "string \<Rightarrow> bool" where
  "owner_ok s \<longleftrightarrow>
     (let (name, found, arch) = part_text (CHR '':'') s in
      name \<noteq> [] \<and> (lower_letter (hd name) \<or> decimal (hd name)) \<and>
      list_all (\<lambda>c. lower_letter c \<or> decimal c \<or> c \<in> set ''+.-'') name \<and>
      (found \<longrightarrow> arch \<noteq> [] \<and> list_all (\<lambda>c. lower_letter c \<or> decimal c \<or> c = CHR ''-'') arch))"

definition owners_of :: "string \<Rightarrow> string \<Rightarrow> string list" where
  "owners_of path answer =
     remdups (map (\<lambda>line. take (length line - length ('': '' @ path)) line) (filter (ends_with ('': '' @ path)) (text_lines answer)))"

definition needed :: "string option \<Rightarrow> plan_error + string" where
  "needed x = (case x of None \<Rightarrow> Inl (Escapes False) | Some t \<Rightarrow> Inr t)"

definition show_format :: string where
  "show_format = ''--showformat=${binary:Package}'' @ [tab] @ ''${Version}'' @ [tab] @ ''${db:Status-Status}''"

primrec dpkg_package :: "host \<Rightarrow> environ \<Rightarrow> string \<Rightarrow> string list \<Rightarrow> plan_error + package option" where
  "dpkg_package h e dpkg [] = Inr None"
| "dpkg_package h e dpkg (path # paths) =
     attempt (command_output h [dpkg, ''--search'', path] e True) (\<lambda>answer.
       case answer of
         None \<Rightarrow> dpkg_package h e dpkg paths
       | Some listing \<Rightarrow>
           (case owners_of path listing of
              [owner] \<Rightarrow>
                if \<not> owner_ok owner then Inl (unavailable ''PACKAGE_METADATA_INVALID'')
                else attempt (command_output h [dpkg, ''--show'', show_format, owner] e False) (\<lambda>shown.
                  attempt (needed shown) (\<lambda>line.
                    case split_text tab line of
                      [name, version, status] \<Rightarrow>
                        if status \<noteq> ''installed'' then Inl (unavailable ''PACKAGE_METADATA_INVALID'')
                        else Inr (Some (Deb_package name version))
                    | _ \<Rightarrow> Inl (unavailable ''PACKAGE_METADATA_INVALID'')))
            | _ \<Rightarrow> Inl (unavailable ''PACKAGE_METADATA_INVALID'')))"

definition rpm_format :: string where
  "rpm_format = ''%{NAME}'' @ [tab] @ ''%{EPOCHNUM}:%{VERSION}-%{RELEASE}.%{ARCH}''"

definition native_package :: "host \<Rightarrow> file_identity \<Rightarrow> environ \<Rightarrow> plan_error + package" where
  "native_package h target e =
     attempt (case ho_which h ''dpkg-query'' (search_path h e) of
         None \<Rightarrow> Inr None
       | Some dpkg \<Rightarrow>
           dpkg_package h e dpkg
             (if fi_resolved target = fi_path target then [fi_path target] else [fi_path target, fi_resolved target]))
       (\<lambda>deb.
         case deb of
           Some p \<Rightarrow> Inr p
         | None \<Rightarrow>
             (case ho_which h ''rpm'' (search_path h e) of
                None \<Rightarrow> Inr Native_package
              | Some rpm \<Rightarrow>
                  attempt (command_output h [rpm, ''-qf'', ''--qf'', rpm_format, fi_resolved target] e True) (\<lambda>answer.
                    case answer of
                      None \<Rightarrow> Inr Native_package
                    | Some line \<Rightarrow>
                        (case split_text tab line of
                           [name, version] \<Rightarrow>
                             if name = [] \<or> version = [] then Inl (unavailable ''PACKAGE_METADATA_INVALID'')
                             else Inr (Rpm_package name version)
                         | _ \<Rightarrow> Inl (unavailable ''PACKAGE_METADATA_INVALID'')))))"

subsection \<open>Inspection\<close>

record observation =
  ob_desktop :: file_identity
  ob_executable :: file_identity
  ob_package :: package
  ob_services :: "string list"
  ob_family :: "string option"
  ob_hint :: "string option"

text \<open>An empty text counts as none, as \<open>if text:\<close> does.\<close>

definition given :: "string option \<Rightarrow> string option" where
  "given x = (if x = Some [] then None else x)"

definition snap_command :: "host \<Rightarrow> string \<Rightarrow> string list \<Rightarrow> plan_error + string option" where
  "snap_command h executable tokens =
     (if starts_with ''/snap/bin/'' executable then Inr (given (Some (path_name executable)))
      else if ho_realpath h executable = ho_realpath h ''/usr/bin/snap'' then
        (case tokens of
           t0 # t1 # t2 # rest \<Rightarrow>
             if t1 \<noteq> ''run'' \<or> starts_with ''-'' t2 then Inl (unavailable ''PACKAGE_LAUNCHER_UNSUPPORTED'') else Inr (given (Some t2))
         | _ \<Rightarrow> Inl (unavailable ''PACKAGE_LAUNCHER_UNSUPPORTED''))
      else Inr None)"

text \<open>The snap's name and the application's name that the command implies.\<close>

definition snap_names :: "string option \<Rightarrow> string option \<Rightarrow> plan_error + string option \<times> string option" where
  "snap_names claimed command =
     (case command of
        None \<Rightarrow> Inr (claimed, None)
      | Some c \<Rightarrow>
          let (name, dot, app) = part_text (CHR ''.'') c in
          if claimed \<noteq> None \<and> claimed \<noteq> Some name then Inl (unavailable ''PACKAGE_LAUNCHER_MISMATCH'')
          else Inr (given (Some name), Some (if app = [] then fst (part_text (CHR ''_'') name) else app)))"

definition snap_package :: "host \<Rightarrow> string \<Rightarrow> string option \<Rightarrow> string option \<Rightarrow> string option \<Rightarrow> plan_error + package \<times> string list" where
  "snap_package h name claimed inferred command =
     attempt (snap_information h name) (\<lambda>d.
       case sn_apps d of
         None \<Rightarrow> Inl (Escapes True)
       | Some apps \<Rightarrow>
           let app = (case given claimed of None \<Rightarrow> inferred | Some a \<Rightarrow> Some a);
               expected = (if app = Some (fst (part_text (CHR ''_'') name)) then name
                           else name @ ''.'' @ (case app of None \<Rightarrow> [] | Some a \<Rightarrow> a))
           in (case app of
                 None \<Rightarrow> Inl (unavailable ''PACKAGE_LAUNCHER_MISMATCH'')
               | Some a \<Rightarrow>
                   if a \<notin> set apps \<or> command \<noteq> Some expected then Inl (unavailable ''PACKAGE_LAUNCHER_MISMATCH'')
                   else (case (sn_revision d, sn_version d) of
                           (Some revision, Some version) \<Rightarrow>
                             Inr (Snap_package name a revision version (sn_confinement d),
                                  ''user-systemd-scope'' # (if sn_confinement d = ''strict'' then [''file-portal'', ''document-portal''] else []))
                         | _ \<Rightarrow> Inl (Escapes True))))"

text \<open>The options of \<open>flatpak run\<close> up to the application: the qualifiers, and what is left.\<close>

primrec flatpak_options :: "string list \<Rightarrow> string list \<Rightarrow> string list \<Rightarrow> plan_error + string list \<times> string list" where
  "flatpak_options [] qualifiers seen = Inr (qualifiers, [])"
| "flatpak_options (t # ts) qualifiers seen =
     (if \<not> starts_with ''--'' t then Inr (qualifiers, t # ts)
      else
        let (key, sep, val) = part_text (CHR ''='') t; unsupported = Inl (unavailable ''PACKAGE_LAUNCHER_UNSUPPORTED'') in
        if key \<in> {''--branch'', ''--arch'', ''--installation''} then
          if \<not> sep \<or> val = [] \<or> key \<in> set seen then unsupported else flatpak_options ts (qualifiers @ [t]) (key # seen)
        else if key \<in> {''--user'', ''--system''} then
          if sep \<or> key \<in> set seen \<or> ''--user'' \<in> set seen \<or> ''--system'' \<in> set seen then unsupported
          else flatpak_options ts (qualifiers @ [t]) (key # seen)
        else if key = ''--command'' then
          if \<not> sep \<or> val = [] \<or> key \<in> set seen then unsupported else flatpak_options ts qualifiers (key # seen)
        else if key = ''--nofilesystem'' then
          if \<not> sep \<or> val = [] then unsupported else flatpak_options ts qualifiers seen
        else if t \<noteq> ''--file-forwarding'' then unsupported
        else flatpak_options ts qualifiers seen)"

definition flatpak_name_ok :: "string \<Rightarrow> bool" where
  "flatpak_name_ok s \<longleftrightarrow>
     (let parts = split_text (CHR ''.'') s in
      3 \<le> length parts \<and>
      list_all (\<lambda>p. p \<noteq> [] \<and> list_all (\<lambda>c. lower_letter c \<or> upper_letter c \<or> decimal c \<or> c \<in> set ''_-'') p) parts)"

definition flatpak_value :: "host \<Rightarrow> string \<Rightarrow> string list \<Rightarrow> string \<Rightarrow> string list \<Rightarrow> environ \<Rightarrow> string \<Rightarrow> plan_error + string" where
  "flatpak_value h executable qualifiers name branch e field =
     attempt (command_output h ([executable, ''info'', ''--show-'' @ field] @ qualifiers @ [name] @ branch) e False) needed"

definition flatpak_package :: "host \<Rightarrow> string \<Rightarrow> string list \<Rightarrow> environ \<Rightarrow> string option \<Rightarrow> plan_error + package \<times> string list" where
  "flatpak_package h executable tokens e claimed =
     (if length tokens < 3 \<or> tokens ! 1 \<noteq> ''run'' then Inl (unavailable ''PACKAGE_LAUNCHER_MISMATCH'')
      else attempt (flatpak_options (drop 2 tokens) [] []) (\<lambda>(options, rest).
        if rest = [] \<or> (claimed \<noteq> None \<and> claimed \<noteq> Some (hd rest)) then Inl (unavailable ''PACKAGE_LAUNCHER_MISMATCH'')
        else
          let name = hd rest;
              branch = map (drop (length ''--branch='')) (filter (starts_with ''--branch='') options);
              qualifiers = filter (\<lambda>x. \<not> starts_with ''--branch='' x) options;
              show_value = flatpak_value h executable qualifiers name branch e
          in if \<not> flatpak_name_ok name then Inl (unavailable ''PACKAGE_METADATA_INVALID'')
             else attempt (show_value ''ref'') (\<lambda>ref.
               attempt (show_value ''commit'') (\<lambda>commit.
                 attempt (show_value ''location'') (\<lambda>location.
                   if \<not> starts_with (''app/'' @ name @ ''/'') ref \<or> \<not> hex_digest commit \<or> \<not> absolute location
                   then Inl (unavailable ''PACKAGE_METADATA_INVALID'')
                   else attempt (identify_file h 4 1048576 (path_text (path_join location ''metadata''))) (\<lambda>metadata.
                     Inr (Flatpak_package name commit ref location metadata,
                          [''file-portal'', ''document-portal'', ''ibus-portal''])))))))"

definition plain_package :: "host \<Rightarrow> string \<Rightarrow> file_identity \<Rightarrow> environ \<Rightarrow> plan_error + package" where
  "plain_package h executable target e =
     (case ho_header h (fi_resolved target) of
        None \<Rightarrow> Inl (Escapes False)
      | Some header \<Rightarrow>
          if take 4 header = [0x7F, 0x45, 0x4C, 0x46] \<and> drop 8 (take 11 header) \<in> {[0x41, 0x49, 1], [0x41, 0x49, 2]}
          then Inr (Appimage_package (fi_resolved target) (fi_sha256 target) (header ! 10))
          else if starts_with ''/snap/bin/'' executable \<or> path_name executable \<in> {''snap'', ''flatpak''}
          then Inl (unavailable ''PACKAGE_METADATA_REQUIRED'')
          else native_package h target e)"

definition browser_family :: "string \<Rightarrow> string list \<Rightarrow> string option" where
  "browser_family executable tokens =
     (let name = path_name executable;
          family = (if name \<in> {''google-chrome'', ''google-chrome-stable'', ''chromium'', ''chromium-browser''} then Some ''chromium''
                    else if name \<in> {''firefox'', ''firefox-esr''} then Some ''firefox'' else None);
          flags = [''--user-data-dir'', ''--profile-directory'', ''--profile'', ''-profile'', ''-P'']
      in if list_ex (\<lambda>v. list_ex (\<lambda>f. v = f \<or> starts_with (f @ ''='') v) flags) (tl tokens) then None else family)"

definition hosted :: "package \<Rightarrow> bool" where
  "hosted p \<longleftrightarrow> (case p of Native_package \<Rightarrow> True | Deb_package name v \<Rightarrow> True | Rpm_package name v \<Rightarrow> True | _ \<Rightarrow> False)"

definition application_package ::
  "host \<Rightarrow> desktop_entry \<Rightarrow> string \<Rightarrow> string list \<Rightarrow> environ \<Rightarrow> file_identity \<Rightarrow> plan_error + package \<times> string list" where
  "application_package h entry executable tokens e target =
     (let claimed = given (de_snap entry); flatpak_id = given (de_flatpak entry) in
      if claimed \<noteq> None \<and> flatpak_id \<noteq> None then Inl (unavailable ''PACKAGE_METADATA_INVALID'')
      else attempt (snap_command h executable tokens) (\<lambda>command.
        attempt (snap_names claimed command) (\<lambda>(snap, inferred).
          let flatpak = ho_which h ''flatpak'' (search_path h e);
              is_flatpak = (case flatpak of None \<Rightarrow> False | Some f \<Rightarrow> ho_realpath h executable = ho_realpath h f)
          in if snap \<noteq> None \<and> (flatpak_id \<noteq> None \<or> is_flatpak) then Inl (unavailable ''PACKAGE_LAUNCHER_MISMATCH'')
             else
               case snap of
                 Some name \<Rightarrow> snap_package h name (de_snap_app entry) inferred command
               | None \<Rightarrow>
                   if flatpak_id \<noteq> None \<or> is_flatpak then
                     if \<not> is_flatpak then Inl (unavailable ''PACKAGE_LAUNCHER_MISMATCH'')
                     else flatpak_package h executable tokens e flatpak_id
                   else attempt (plain_package h executable target e) (\<lambda>p. Inr (p, [])))))"

definition inspect_application :: "host \<Rightarrow> string \<Rightarrow> environ \<Rightarrow> plan_error + observation" where
  "inspect_application h path e0 =
     attempt (identify_file h 0 1048576 path) (\<lambda>desktop.
     attempt (found (ho_entry h path) ''APPLICATION_TARGET_INVALID'') (\<lambda>entry.
       if de_hidden entry \<or> de_terminal entry then Inl (unavailable ''APPLICATION_TARGET_INVALID'')
       else if de_backend entry \<notin> {None, Some ''xpra'', Some ''wayland''} then Inl (unavailable ''GRAPHICAL_BACKEND_UNSUPPORTED'')
       else attempt (launch_tokens h entry e0) (\<lambda>(executable, tokens, e).
       attempt (identify_file h 2 4294967296 executable) (\<lambda>target.
       attempt (application_package h entry executable tokens e target) (\<lambda>(package, services).
       attempt (identify_file h 6 1048576 path) (\<lambda>again.
         if again \<noteq> desktop then Inl stale_plan
         else Inr \<lparr>ob_desktop = desktop, ob_executable = target, ob_package = package, ob_services = services,
                ob_family = (if hosted package then browser_family executable tokens else None),
                ob_hint = de_backend entry\<rparr>))))))"

subsection \<open>Plans\<close>










subsection \<open>Facts about the parts\<close>

lemma attempt_Inr: "attempt x f = Inr y \<longleftrightarrow> (\<exists>z. x = Inr z \<and> f z = Inr y)"
  by (cases x) simp_all

lemma require_Inr: "require c code = Inr u \<longleftrightarrow> c"
  by (simp add: require_def)

lemma found_Inr: "found x code = Inr y \<longleftrightarrow> x = Some y"
  by (simp add: found_def split: option.split)

lemmas attempts = attempt_Inr require_Inr found_Inr

lemma identified_path: "identify_file h t limit path = Inr f \<Longrightarrow> fi_path f = path"
  by (auto simp: identify_file_def attempts split: if_splits)


text \<open>Normalising a path again changes nothing.\<close>

lemma split_nonempty: "split_where sep s \<noteq> []"
  by (cases s) (simp_all split: list.split)











lemma snap_not_hosted: "snap_package h name claimed inferred command = Inr (p, services) \<Longrightarrow> \<not> hosted p"
  by (auto simp: snap_package_def attempts Let_def hosted_def split: option.splits if_splits)

lemma flatpak_not_hosted: "flatpak_package h executable tokens e claimed = Inr (p, services) \<Longrightarrow> \<not> hosted p"
  by (auto simp: flatpak_package_def attempts Let_def hosted_def split: if_splits)

lemma no_snap_claimed: "snap_names (given claimed) command = Inr (None, inferred) \<Longrightarrow> given claimed = None"
  by (auto simp: snap_names_def given_def Let_def split: option.splits if_splits prod.splits)

lemma plain_hosted:
  "plain_package h executable target e = Inr p \<Longrightarrow> hosted p \<Longrightarrow>
     \<not> starts_with ''/snap/bin/'' executable \<and> path_name executable \<notin> {''snap'', ''flatpak''}"
  by (auto simp: plain_package_def hosted_def split: option.splits if_splits)

lemma hosted_plain:
  assumes "application_package h entry executable tokens e target = Inr (p, services)" "hosted p"
  shows "given (de_snap entry) = None \<and> given (de_flatpak entry) = None \<and> plain_package h executable target e = Inr p"
proof -
  obtain command snap inferred where c: "snap_command h executable tokens = Inr command"
    "snap_names (given (de_snap entry)) command = Inr (snap, inferred)"
    using assms(1) by (auto simp: application_package_def attempts Let_def split: if_splits)
  have "snap = None" using assms c snap_not_hosted
    by (cases snap) (auto simp: application_package_def Let_def split: if_splits)
  with assms c no_snap_claimed flatpak_not_hosted show ?thesis
    by (auto simp: application_package_def attempts Let_def split: if_splits)
qed

subsection \<open>Properties\<close>



text \<open>C35: The native launch environment is never given to a packaged launcher: an application that is planned as a host
  program was not named as a snap or a flatpak by its desktop entry, and its executable is neither in
  the snaps' directory nor called \<open>snap\<close> or \<open>flatpak\<close>.\<close>
theorem host_program_is_not_packaged:
  assumes "inspect_application h path e = Inr ob" "hosted (ob_package ob)"
  shows "\<not> starts_with ''/snap/bin/'' (fi_path (ob_executable ob)) \<and>
    path_name (fi_path (ob_executable ob)) \<notin> {''snap'', ''flatpak''} \<and>
    (\<exists>entry. ho_entry h path = Some entry \<and> \<not> de_hidden entry \<and> given (de_snap entry) = None \<and> given (de_flatpak entry) = None)"
proof -
  obtain entry executable tokens e1 services where l: "ho_entry h path = Some entry" "\<not> de_hidden entry"
    "identify_file h 2 4294967296 executable = Inr (ob_executable ob)"
    "application_package h entry executable tokens e1 (ob_executable ob) = Inr (ob_package ob, services)"
    using assms(1) by (auto simp: inspect_application_def attempts split: if_splits)
  have "fi_path (ob_executable ob) = executable" using identified_path [OF l(3)] .
  moreover have "given (de_snap entry) = None \<and> given (de_flatpak entry) = None \<and>
      plain_package h executable (ob_executable ob) e1 = Inr (ob_package ob)"
    using hosted_plain [OF l(4) assms(2)] .
  moreover from this have "\<not> starts_with ''/snap/bin/'' executable \<and> path_name executable \<notin> {''snap'', ''flatpak''}"
    using plain_hosted assms(2) by blast
  ultimately show ?thesis using l(1,2) by blast
qed

subsection \<open>Witnesses\<close>

definition plain_stat :: file_stat where
  "plain_stat = \<lparr>fs_dev = 1, fs_ino = 2, fs_size = 3, fs_mtime = 4, fs_ctime = 5, fs_mode = 6, fs_regular = True, fs_other = []\<rparr>"

definition browser_entry :: desktop_entry where
  "browser_entry = \<lparr>de_hidden = False, de_terminal = False, de_exec = ''x'', de_path = [], de_backend = None, de_snap = None,
     de_snap_app = None, de_flatpak = None\<rparr>"

text \<open>A host with one browser and no package manager.\<close>

definition browser_host :: host where
  "browser_host = \<lparr>ho_resolve = (\<lambda>t p. Some p),
     ho_probe = (\<lambda>t p. Some \<lparr>fp_before = plain_stat, fp_bytes = [1, 2, 3], fp_after = plain_stat\<rparr>),
     ho_stat = (\<lambda>t p. Some plain_stat), ho_sha256 = (\<lambda>b. ''d''), ho_realpath = (\<lambda>p. p), ho_abspath = (\<lambda>p. p), ho_cwd = ''/'',
     ho_which = (\<lambda>c p. if c = ''x'' then Some ''/b/firefox'' else None), ho_defpath = ''/b'', ho_entry = (\<lambda>p. Some browser_entry),
     ho_parse = (\<lambda>c. Some [c]), ho_run = (\<lambda>c e. \<lparr>cr_starts = False, cr_output = [], cr_end = Fails\<rparr>),
     ho_text = (\<lambda>b. None), ho_snap = (\<lambda>n. Snap_fails), ho_header = (\<lambda>p. Some [0x23, 0x21])\<rparr>"



definition file_of :: "string \<Rightarrow> file_identity" where
  "file_of path = \<lparr>fi_path = path, fi_resolved = path, fi_sha256 = ''d'', fi_dev = 1, fi_ino = 2, fi_size = 3, fi_mtime = 4,
     fi_ctime = 5, fi_mode = 6\<rparr>"

definition browser_observed :: observation where
  "browser_observed = \<lparr>ob_desktop = file_of ''/a'', ob_executable = file_of ''/b/firefox'', ob_package = Native_package, ob_services = [],
     ob_family = Some ''firefox'', ob_hint = None\<rparr>"


lemma browser_inspected: "inspect_application browser_host ''/a'' [] = Inr browser_observed"
  by code_simp



lemma host_program_is_not_packaged_witness:
  "path_name (fi_path (ob_executable browser_observed)) \<notin> {''snap'', ''flatpak''}"
  using host_program_is_not_packaged [OF browser_inspected] by (simp add: browser_observed_def hosted_def)

end
