(* ===== verification/Native_Context.thy ===== *)
theory Native_Context
  imports Native_Scene Marker Text_Adapter
begin

section \<open>Native text contexts (desktop\_context.py)\<close>

text \<open>
  \<open>NativeContexts\<close> hands one confirmed text at a time to the toolkit that owns the focused surface: to a
  registered client or an adapter by a native marker key (\<open>Marker\<close>), or, on the text-input-v3 route, by
  a text operation of the compositor between two barriers (\<open>Native_Scene.nd_text_operation\<close>).

  The registry of the scene is part of the state. An \<open>ApplicationPeer\<close> is a handle here: \<open>nc_open\<close> are
  the ones not yet closed, and whether one can be made or matches another (\<open>Peer.bind_peer\<close>,
  \<open>Peer.peer_matches\<close>) is an answer of the host. \<open>live\<close> holds these answers at one moment, with X11's, the
  adapters' and the identity of the object \<open>native.focus\<close> is then (the code compares it with \<open>is\<close>); an
  operation that asks twice is given two moments. A completion is the ticket of its callback, called when
  the operation has ended: what \<open>unregister\<close> and \<open>close\<close> do behind it concerns only what the scheduler can
  no longer reach.
\<close>

datatype text_route = Ibus | Xim | Wayland

datatype selection = No_route | Route string | Route_raises

record live =
  li_focus :: nat
  li_owner :: "int \<Rightarrow> int option"
  li_focused :: "int \<Rightarrow> bool"
  li_matches :: "nat \<Rightarrow> nat \<Rightarrow> bool"
  li_usable :: "text_route \<Rightarrow> bool"
  li_select :: "text_route \<Rightarrow> selection"
  li_admits :: "int \<Rightarrow> bool"
  li_again :: bool

record native_token =
  nt_epoch :: int
  nt_target :: native_target
  nt_focus :: nat
  nt_identity :: int
  nt_surface :: int
  nt_sender :: string
  nt_client :: nat
  nt_peer :: nat
  nt_pid :: int
  nt_adapter :: "text_route option"
  nt_xid :: int
  nt_context :: "text_context option"

text \<open>How the text travels: by a marker code (with the \<open>taken\<close> and \<open>done\<close> marks), or by text operations.\<close>

datatype delivery = By_marker nat bool bool | By_text "text_request option"

record native_operation =
  no_token :: native_token
  no_sequence :: int
  no_ticket :: nat
  no_delivery :: delivery

record native_contexts =
  nc_native :: native
  nc_clients :: "(string \<times> nat) list"
  nc_markers :: "string markers"
  nc_ibus :: bool
  nc_xim :: bool
  nc_x11 :: bool
  nc_bound :: "native_token option"
  nc_pending :: "native_operation option"
  nc_sequence :: int
  nc_closed :: bool
  nc_open :: "nat list"
  nc_next :: nat

definition new_native_contexts :: "native \<Rightarrow> native_contexts" where
  "new_native_contexts d = \<lparr>nc_native = d, nc_clients = [], nc_markers = new_markers, nc_ibus = False, nc_xim = False,
     nc_x11 = False, nc_bound = None, nc_pending = None, nc_sequence = 0, nc_closed = False, nc_open = [], nc_next = 0\<rparr>"

subsection \<open>Peers\<close>

definition nc_admit :: "native_contexts \<Rightarrow> nat \<times> native_contexts" where
  "nc_admit s = (nc_next s, s\<lparr>nc_open := nc_open s @ [nc_next s], nc_next := nc_next s + 1\<rparr>)"

definition nc_drop :: "nat \<Rightarrow> native_contexts \<Rightarrow> native_contexts" where
  "nc_drop h s = s\<lparr>nc_open := removeAll h (nc_open s)\<rparr>"

text \<open>\<open>register\<close>; \<open>known\<close> is whether the toolkit is one of the four, and the first answer whether it raised.\<close>

definition nc_register :: "live \<Rightarrow> string \<Rightarrow> int \<Rightarrow> int \<Rightarrow> bool \<Rightarrow> native_contexts \<Rightarrow> bool \<times> native_contexts" where
  "nc_register l sender pid version known s =
     (if nc_closed s \<or> version \<noteq> 1 \<or> \<not> known \<or> map_of (nc_clients s) sender \<noteq> None \<or> 64 \<le> length (nc_clients s) \<or>
         \<not> li_admits l pid then (True, s)
      else let (h, s1) = nc_admit s in (False, s1\<lparr>nc_clients := nc_clients s1 @ [(sender, h)]\<rparr>))"

definition nc_unbind :: "native_contexts \<Rightarrow> native_contexts" where
  "nc_unbind s =
     (case nc_bound s of
        None \<Rightarrow> s
      | Some b \<Rightarrow>
          let s1 = nc_drop (nt_peer b) (s\<lparr>nc_bound := None\<rparr>)
          in if nt_adapter b \<noteq> None then nc_drop (nt_client b) s1 else s1)"

subsection \<open>Whether a token still stands\<close>

definition wayland_selected :: "native \<Rightarrow> text_context option" where
  "wayland_selected d =
     (case nd_focus d of
        None \<Rightarrow> None
      | Some f \<Rightarrow>
          (case filter (\<lambda>v. tc_surface v = nf_identity f) (map snd (nd_text_contexts d)) of
             [v] \<Rightarrow> Some v
           | _ \<Rightarrow> None))"

definition wayland_valid :: "native \<Rightarrow> native_token \<Rightarrow> bool" where
  "wayland_valid d token =
     (case (wayland_selected d, nt_context token) of
        (Some v, Some c) \<Rightarrow> tc_identity v = tc_identity c \<and> tc_surface v = nt_identity token
      | _ \<Rightarrow> False)"

primrec route_valid :: "live \<Rightarrow> native_token \<Rightarrow> native_contexts \<Rightarrow> text_route \<Rightarrow> bool" where
  "route_valid l token s Ibus = (nc_ibus s \<and> li_usable l Ibus)"
| "route_valid l token s Xim = (nc_xim s \<and> li_usable l Xim)"
| "route_valid l token s Wayland = wayland_valid (nc_native s) token"

definition x11_valid :: "live \<Rightarrow> native_token \<Rightarrow> native_contexts \<Rightarrow> bool" where
  "x11_valid l token s \<longleftrightarrow>
     nt_xid token = 0 \<or> nc_x11 s \<and> map_of (nd_x11_windows (nc_native s)) (tg_window (nt_target token)) = Some (nt_xid token) \<and>
       li_owner l (nt_xid token) = Some (nt_pid token)"

definition scene_valid :: "live \<Rightarrow> native_token \<Rightarrow> native \<Rightarrow> bool" where
  "scene_valid l token d \<longleftrightarrow>
     \<not> nd_closed d \<and> nd_target d = Some (nt_target token) \<and> nd_focus d \<noteq> None \<and> li_focus l = nt_focus token \<and>
     nd_epoch d = nt_epoch token"

definition nc_valid :: "live \<Rightarrow> native_token \<Rightarrow> native_contexts \<Rightarrow> bool" where
  "nc_valid l token s \<longleftrightarrow>
     \<not> nc_closed s \<and> nc_bound s = Some token \<and> scene_valid l token (nc_native s) \<and> x11_valid l token s \<and>
     (case nt_adapter token of
        None \<Rightarrow> map_of (nc_clients s) (nt_sender token) = Some (nt_client token)
      | Some a \<Rightarrow> route_valid l token s a) \<and>
     li_matches l (nt_client token) (nt_peer token)"

subsection \<open>Choosing a context\<close>

definition route_name :: "text_context \<Rightarrow> string" where
  "route_name v = ''wayland/'' @ py_str (tc_identity v) @ ''/'' @ py_str (tc_revision v)"

primrec route_select :: "live \<Rightarrow> native \<Rightarrow> text_route \<Rightarrow> selection" where
  "route_select l d Ibus = li_select l Ibus"
| "route_select l d Xim = li_select l Xim"
| "route_select l d Wayland =
     (case wayland_selected d of
        None \<Rightarrow> No_route
      | Some v \<Rightarrow> if li_again l then Route (route_name v) else Route_raises)"

definition candidates :: "int \<Rightarrow> native_contexts \<Rightarrow> text_route list" where
  "candidates xid s =
     (if nc_ibus s then [Ibus] else []) @ (if xid \<noteq> 0 then (if nc_xim s then [Xim] else []) else [Wayland])"

text \<open>The comprehension: whether it raised, the routes it made by then, each with its open peer, and the state.\<close>

primrec select_routes ::
  "live \<Rightarrow> text_route list \<Rightarrow> native_contexts \<Rightarrow> bool \<times> (text_route \<times> string \<times> nat) list \<times> native_contexts" where
  "select_routes l [] s = (False, [], s)"
| "select_routes l (a # as) s =
     (case route_select l (nc_native s) a of
        No_route \<Rightarrow> select_routes l as s
      | Route_raises \<Rightarrow> (True, [], s)
      | Route sender \<Rightarrow>
          (let (h, s1) = nc_admit s; (raised, routes, s2) = select_routes l as s1
           in (raised, (a, sender, h) # routes, s2)))"

definition drop_all :: "nat list \<Rightarrow> native_contexts \<Rightarrow> native_contexts" where
  "drop_all hs s = fold nc_drop hs s"

text \<open>The client or route for an admitted surface peer; \<open>None\<close> when there is not exactly one.\<close>

definition choose_client ::
  "live \<Rightarrow> int \<Rightarrow> nat \<Rightarrow> native_contexts \<Rightarrow> (text_route option \<times> string \<times> nat) option \<times> native_contexts" where
  "choose_client l xid peer s =
     (case filter (\<lambda>(sender, h). li_matches l h peer) (nc_clients s) of
        [(sender, h)] \<Rightarrow> (Some (None, sender, h), s)
      | [] \<Rightarrow>
          (let (raised, routes, s1) = select_routes l (candidates xid s) s
           in if raised then (None, s1)
              else
                case routes of
                  [(a, sender, h)] \<Rightarrow> (Some (Some a, sender, h), s1)
                | _ \<Rightarrow> (None, drop_all (map (snd \<circ> snd) routes) s1))
      | _ \<Rightarrow> (None, s))"

definition surface_owner :: "live \<Rightarrow> native_target \<Rightarrow> native_window \<Rightarrow> native_focus \<Rightarrow> native_contexts \<Rightarrow> (int \<times> int) option" where
  "surface_owner l target window focus s =
     (if nw_protocol window \<noteq> ''x11'' then Some (0, nf_pid focus)
      else
        case map_of (nd_x11_windows (nc_native s)) (tg_window target) of
          None \<Rightarrow> None
        | Some xid \<Rightarrow> if xid = 0 \<or> \<not> nc_x11 s then None else map_option (Pair xid) (li_owner l xid))"

definition bind_context ::
  "live \<Rightarrow> native_target \<Rightarrow> native_focus \<Rightarrow> int \<times> int \<Rightarrow> native_contexts \<Rightarrow> native_token option \<times> native_contexts" where
  "bind_context l target focus owner s =
     (if \<not> li_admits l (snd owner) then (None, s)
      else
        let (peer, s1) = nc_admit s; (choice, s2) = choose_client l (fst owner) peer s1
        in case choice of
             None \<Rightarrow> (None, nc_drop peer s2)
           | Some (adapter, sender, client) \<Rightarrow>
               let token = \<lparr>nt_epoch = nd_epoch (nc_native s2), nt_target = target, nt_focus = li_focus l,
                     nt_identity = nf_identity focus, nt_surface = nf_surface focus, nt_sender = sender, nt_client = client,
                     nt_peer = peer, nt_pid = snd owner, nt_adapter = adapter, nt_xid = fst owner,
                     nt_context = (if adapter = Some Wayland then wayland_selected (nc_native s2) else None)\<rparr>;
                   s3 = s2\<lparr>nc_bound := Some token\<rparr>
               in if nc_valid l token s3 then (Some token, s3) else (None, nc_unbind s3))"

definition nc_context_for :: "live \<Rightarrow> native_target option \<Rightarrow> native_contexts \<Rightarrow> native_token option \<times> native_contexts" where
  "nc_context_for l target s =
     (if nc_pending s \<noteq> None then (None, s)
      else
        let s1 = nc_unbind s; d = nc_native s1
        in case (target, nd_focus d) of
             (Some g, Some f) \<Rightarrow>
               (case map_of (nd_windows d) (tg_window g) of
                  None \<Rightarrow> (None, s1)
                | Some window \<Rightarrow>
                    if nc_closed s1 \<or> nd_closed d \<or> nd_epoch d = 0 \<or> nd_target d \<noteq> Some g \<or> \<not> nf_available f \<or>
                       nf_window f \<noteq> tg_window g then (None, s1)
                    else (case surface_owner l g window f s1 of
                            None \<Rightarrow> (None, s1)
                          | Some owner \<Rightarrow> bind_context l g f owner s1))
           | _ \<Rightarrow> (None, s1))"

subsection \<open>The end of an operation\<close>

type_synonym completion = "(nat \<times> code option) option"

text \<open>
  \<open>finish\<close>: whether it raised (\<open>cancel_delivery\<close> may: it sends), the callback to call, and the state. A
  delivery that was not yet given its request has none to cancel. The hook that the XIM adapter puts on a
  marker operation (\<open>Input_Xim.xim_cancel\<close>) only forgets the fragments of that adapter.
\<close>

definition cancel_delivery :: "delivery \<Rightarrow> native_contexts \<Rightarrow> bool \<times> native_contexts" where
  "cancel_delivery v s =
     (case v of
        By_text (Some r) \<Rightarrow> (let (raised, d) = nd_cancel_text r (nc_native s) in (raised, s\<lparr>nc_native := d\<rparr>))
      | _ \<Rightarrow> (False, s))"

definition nc_finish :: "code option \<Rightarrow> native_contexts \<Rightarrow> bool \<times> completion \<times> native_contexts" where
  "nc_finish err s =
     (case nc_pending s of
        None \<Rightarrow> (False, None, s)
      | Some p \<Rightarrow>
          let s1 = s\<lparr>nc_pending := None\<rparr>
          in case err of
               None \<Rightarrow> (False, Some (no_ticket p, None), nc_unbind s1)
             | Some e \<Rightarrow>
                 (let (raised, s2) = cancel_delivery (no_delivery p) (s1\<lparr>nc_markers := mk_revoke (nc_markers s1)\<rparr>)
                  in if raised then (True, None, s2) else (False, Some (no_ticket p, err), nc_unbind s2)))"

definition nc_cancel :: "native_token \<Rightarrow> native_contexts \<Rightarrow> bool \<times> native_contexts" where
  "nc_cancel token s =
     (case nc_pending s of
        Some p \<Rightarrow>
          if no_token p = token then
            (let (raised, s1) = cancel_delivery (no_delivery p)
                   (s\<lparr>nc_pending := None, nc_markers := mk_revoke (nc_markers s)\<rparr>)
             in if raised then (True, s1) else (False, if nc_bound s1 = Some token then nc_unbind s1 else s1))
          else (False, if nc_bound s = Some token then nc_unbind s else s)
      | None \<Rightarrow> (False, if nc_bound s = Some token then nc_unbind s else s))"

subsection \<open>Text operations\<close>

text \<open>
  The callbacks of \<open>NativeWayland.commit\<close> are closures over the operation and the step they continue
  with: a callback is named by the operation's sequence number and its step, in one number.
\<close>

datatype text_step = First_barrier | Text_sent | Last_barrier

primrec step_number :: "text_step \<Rightarrow> nat" where
  "step_number First_barrier = 0"
| "step_number Text_sent = 1"
| "step_number Last_barrier = 2"

definition callback_name :: "int \<Rightarrow> text_step \<Rightarrow> nat" where
  "callback_name sequence step = 3 * nat sequence + step_number step"

text \<open>The steps are ordered as they are taken, and so are the names of one operation's callbacks.\<close>

instantiation text_step :: linorder
begin

definition less_eq_text_step_def: "a \<le> b \<longleftrightarrow> step_number a \<le> step_number b"

definition less_text_step_def: "a < b \<longleftrightarrow> step_number a < step_number b"

instance
proof
  fix a b c :: text_step
  show "a < b \<longleftrightarrow> a \<le> b \<and> \<not> b \<le> a" by (auto simp: less_eq_text_step_def less_text_step_def)
  show "a \<le> a" by (simp add: less_eq_text_step_def)
  show "a \<le> b \<Longrightarrow> b \<le> c \<Longrightarrow> a \<le> c" by (simp add: less_eq_text_step_def)
  show "a \<le> b \<Longrightarrow> b \<le> a \<Longrightarrow> a = b" by (cases a; cases b) (simp_all add: less_eq_text_step_def)
  show "a \<le> b \<or> b \<le> a" by (auto simp: less_eq_text_step_def)
qed

end

lemma step_number_bound: "step_number a < 3"
  by (cases a) simp_all

lemma callback_name_less:
  assumes "0 \<le> m" "0 \<le> n"
  shows "callback_name m a < callback_name n b \<longleftrightarrow> m < n \<or> m = n \<and> a < b"
proof -
  obtain i j where "m = int i" "n = int j" using assms nonneg_int_cases by metis
  then show ?thesis using step_number_bound [of a] step_number_bound [of b]
    by (auto simp: callback_name_def less_text_step_def)
qed

lemma callback_name_inject:
  assumes "0 \<le> m" "0 \<le> n"
  shows "callback_name m a = callback_name n b \<longleftrightarrow> m = n \<and> a = b"
  using callback_name_less [OF assms, of a b] callback_name_less [OF assms(2,1), of b a] by (auto simp: neq_iff)

definition nc_issue :: "live \<Rightarrow> int \<Rightarrow> text_step \<Rightarrow> pystr \<Rightarrow> native_contexts \<Rightarrow> bool \<times> completion \<times> native_contexts" where
  "nc_issue l sequence step x s =
     (case nc_pending s of
        None \<Rightarrow> (False, None, s)
      | Some p \<Rightarrow>
          if no_sequence p \<noteq> sequence then (False, None, s)
          else if \<not> nc_valid l (no_token p) s then nc_finish (Some INPUT_TARGET_UNAVAILABLE) s
          else
            let d = nc_native s; token = no_token p;
                content = (if step = Text_sent then map_option (\<lambda>v. (tc_identity v, x)) (wayland_selected d) else None);
                (r, d1) = nd_text_operation (nt_epoch token) (nt_target token) content (callback_name sequence step) d;
                s1 = s\<lparr>nc_native := d1\<rparr>
            in case r of
                 None \<Rightarrow> nc_finish (Some INPUT_DELIVERY_FAILED) s1
               | Some request \<Rightarrow>
                   (False, None, s1\<lparr>nc_pending := Some (p\<lparr>no_delivery := By_text (Some request)\<rparr>)\<rparr>))"

text \<open>\<open>arrived\<close>, with what its closure does next: the two moments are its own check and the one of \<open>issue\<close>.\<close>

definition nc_arrived ::
  "(nat \<Rightarrow> live) \<Rightarrow> int \<Rightarrow> text_step \<Rightarrow> pystr \<Rightarrow> code option \<Rightarrow> native_contexts \<Rightarrow> bool \<times> completion \<times> native_contexts" where
  "nc_arrived w sequence step x err s =
     (case nc_pending s of
        None \<Rightarrow> (False, None, s)
      | Some p \<Rightarrow>
          if no_sequence p \<noteq> sequence then (False, None, s)
          else
            case err of
              Some e \<Rightarrow> nc_finish (Some e) s
            | None \<Rightarrow>
                if \<not> nc_valid (w 0) (no_token p) s then nc_finish (Some INPUT_TARGET_UNAVAILABLE) s
                else
                  case step of
                    First_barrier \<Rightarrow> nc_issue (w 1) sequence Text_sent x s
                  | Text_sent \<Rightarrow> nc_issue (w 1) sequence Last_barrier x s
                  | Last_barrier \<Rightarrow> nc_finish None s)"

subsection \<open>Committing a text\<close>

text \<open>
  \<open>commit\<close>: the marker key is submitted as a press and a release. What the first request of a text
  operation finishes at once is completed by the commit itself.
\<close>

definition marker_keys :: "nat \<Rightarrow> string list" where
  "marker_keys c = [''key '' @ dec c @ '' 1'', ''key '' @ dec c @ '' 0'']"

definition at_once :: "bool \<times> completion \<times> native_contexts \<Rightarrow> commit_outcome \<times> native_contexts" where
  "at_once r = (case r of (raised, c, s) \<Rightarrow>
     (if raised then Raised else case c of None \<Rightarrow> Deferred | Some (k, err) \<Rightarrow> Completed err, s))"

definition nc_commit_marker :: "native_token \<Rightarrow> pystr \<Rightarrow> nat \<Rightarrow> native_contexts \<Rightarrow> commit_outcome \<times> native_contexts" where
  "nc_commit_marker token x k s =
     (case mk_enqueue x (Some (nt_sender token)) (nt_xid token \<noteq> 0) (nc_markers s) of
        (Inl e, m) \<Rightarrow> (Completed (Some INPUT_MARKER_UNAVAILABLE), nc_unbind (s\<lparr>nc_markers := m\<rparr>))
      | (Inr c, m) \<Rightarrow>
          let n = nc_sequence s + 1;
              s1 = s\<lparr>nc_markers := m, nc_sequence := n,
                     nc_pending := Some \<lparr>no_token = token, no_sequence = n, no_ticket = k, no_delivery = By_marker c False False\<rparr>\<rparr>;
              (raised, d) = nd_submit (nt_epoch token) (nt_target token) (marker_keys c) (nc_native s1);
              s2 = s1\<lparr>nc_native := d\<rparr>
          in if raised then at_once (nc_finish (Some INPUT_MARKER_UNAVAILABLE) s2) else (Deferred, s2))"

definition nc_commit ::
  "(nat \<Rightarrow> live) \<Rightarrow> native_token \<Rightarrow> pystr \<Rightarrow> nat \<Rightarrow> native_contexts \<Rightarrow> commit_outcome \<times> native_contexts" where
  "nc_commit w token x k s =
     (if nc_pending s \<noteq> None \<or> \<not> nc_valid (w 0) token s then (Completed (Some INPUT_CONTEXT_UNAVAILABLE), s)
      else if \<not> valid_text (PStr x) then (Completed (Some INPUT_TEXT_INVALID), nc_unbind s)
      else if 0xffffffff \<le> nc_sequence s then (Completed (Some INPUT_SESSION_EXHAUSTED), nc_unbind s)
      else if nt_adapter token = Some Wayland then
        let n = nc_sequence s + 1;
            s1 = s\<lparr>nc_sequence := n,
                   nc_pending := Some \<lparr>no_token = token, no_sequence = n, no_ticket = k, no_delivery = By_text None\<rparr>\<rparr>
        in at_once (nc_issue (w 1) n First_barrier x s1)
      else nc_commit_marker token x k s)"

subsection \<open>The client's messages\<close>

definition focused_in :: "live \<Rightarrow> native_token \<Rightarrow> bool" where
  "focused_in l token \<longleftrightarrow> nt_xid token = 0 \<or> li_focused l (nt_xid token)"

definition surface_of :: "native_token \<Rightarrow> int" where
  "surface_of token = (if nt_xid token \<noteq> 0 then nt_xid token else nt_surface token)"

definition owned_code :: "native_operation option \<Rightarrow> string \<Rightarrow> nat \<Rightarrow> bool" where
  "owned_code q sender c =
     (case q of
        None \<Rightarrow> False
      | Some p \<Rightarrow> (case no_delivery p of By_marker e taken fin \<Rightarrow> e = c \<and> nt_sender (no_token p) = sender | _ \<Rightarrow> False))"

text \<open>\<open>take\<close>: the sequence and the text handed out, whether it raised, the callback and the state.\<close>

definition nc_take ::
  "live \<Rightarrow> string \<Rightarrow> nat \<Rightarrow> int \<Rightarrow> native_contexts \<Rightarrow> (int \<times> pystr) option \<times> bool \<times> completion \<times> native_contexts" where
  "nc_take l sender c surface s =
     (let owned = owned_code (nc_pending s) sender c;
          admitted = (case nc_pending s of
              None \<Rightarrow> False
            | Some p \<Rightarrow> owned \<and> nc_valid l (no_token p) s \<and> surface = surface_of (no_token p) \<and> focused_in l (no_token p));
          (x, m) = mk_key c False admitted (Some sender) (nc_markers s);
          s1 = s\<lparr>nc_markers := m\<rparr>
      in if owned \<and> \<not> admitted then (None, nc_finish (Some INPUT_TARGET_UNAVAILABLE) s1)
         else
           case (x, nc_pending s1) of
             (Some text, Some p) \<Rightarrow>
               if admitted then
                 (Some (no_sequence p, text), False, None,
                  s1\<lparr>nc_pending := Some (p\<lparr>no_delivery := (case no_delivery p of By_marker e taken fin \<Rightarrow> By_marker e True fin | v \<Rightarrow> v)\<rparr>)\<rparr>)
               else (None, False, None, s1)
           | _ \<Rightarrow> (None, False, None, s1))"

definition nc_complete :: "live \<Rightarrow> native_contexts \<Rightarrow> bool \<times> completion \<times> native_contexts" where
  "nc_complete l s =
     (case nc_pending s of
        None \<Rightarrow> (False, None, s)
      | Some p \<Rightarrow>
          (case no_delivery p of
             By_marker c taken fin \<Rightarrow>
               if \<not> fin \<or> map_of (mk_slots (nc_markers s)) c \<noteq> None then (False, None, s)
               else if \<not> nc_valid l (no_token p) s \<or> \<not> focused_in l (no_token p) then nc_finish (Some INPUT_TARGET_UNAVAILABLE) s
               else nc_finish None s
           | By_text r \<Rightarrow> (False, None, s)))"

definition nc_released :: "live \<Rightarrow> string \<Rightarrow> nat \<Rightarrow> native_contexts \<Rightarrow> bool \<times> completion \<times> native_contexts" where
  "nc_released l sender c s =
     nc_complete l (s\<lparr>nc_markers := snd (mk_key c True False (Some sender) (nc_markers s))\<rparr>)"

text \<open>
  \<open>done\<close> and \<open>failed\<close>, with their answer. A text operation has no \<open>taken\<close> key; the \<open>KeyError\<close> its
  lookup would raise ends in the same bus error as the answer \<open>False\<close>.
\<close>

definition nc_done :: "(nat \<Rightarrow> live) \<Rightarrow> string \<Rightarrow> int \<Rightarrow> native_contexts \<Rightarrow> bool \<times> bool \<times> completion \<times> native_contexts" where
  "nc_done w sender sequence s =
     (case nc_pending s of
        None \<Rightarrow> (False, False, None, s)
      | Some p \<Rightarrow>
          (case no_delivery p of
             By_marker c taken fin \<Rightarrow>
               if nt_sender (no_token p) \<noteq> sender \<or> no_sequence p \<noteq> sequence \<or> \<not> taken \<or> fin then (False, False, None, s)
               else if \<not> nc_valid (w 0) (no_token p) s \<or> \<not> focused_in (w 0) (no_token p)
               then (False, nc_finish (Some INPUT_TARGET_UNAVAILABLE) s)
               else (True, nc_complete (w 1) (s\<lparr>nc_pending := Some (p\<lparr>no_delivery := By_marker c taken True\<rparr>)\<rparr>))
           | By_text r \<Rightarrow> (False, False, None, s)))"

definition nc_failed :: "string \<Rightarrow> int \<Rightarrow> native_contexts \<Rightarrow> bool \<times> bool \<times> completion \<times> native_contexts" where
  "nc_failed sender sequence s =
     (case nc_pending s of
        None \<Rightarrow> (False, False, None, s)
      | Some p \<Rightarrow>
          (case no_delivery p of
             By_marker c taken fin \<Rightarrow>
               if nt_sender (no_token p) = sender \<and> no_sequence p = sequence \<and> taken
               then (True, nc_finish (Some INPUT_TARGET_UNAVAILABLE) s) else (False, False, None, s)
           | By_text r \<Rightarrow> (False, False, None, s)))"

subsection \<open>Leaving\<close>

definition nc_unregister :: "string \<Rightarrow> native_contexts \<Rightarrow> bool \<times> completion \<times> native_contexts" where
  "nc_unregister sender s =
     (let peer = map_of (nc_clients s) sender;
          s1 = s\<lparr>nc_clients := AList.delete sender (nc_clients s)\<rparr>;
          (raised, c, s2) = (case nc_pending s1 of
              Some p \<Rightarrow> if nt_sender (no_token p) = sender then nc_finish (Some INPUT_CONTEXT_UNAVAILABLE) s1 else (False, None, s1)
            | None \<Rightarrow> (False, None, s1))
      in if raised then (True, c, s2)
         else
           let s3 = (case nc_bound s2 of Some b \<Rightarrow> if nt_sender b = sender then nc_unbind s2 else s2 | None \<Rightarrow> s2);
               s4 = s3\<lparr>nc_markers := mk_remove_owner (Some sender) (nc_markers s3)\<rparr>
           in (False, c, case peer of None \<Rightarrow> s4 | Some h \<Rightarrow> nc_drop h s4))"

definition nc_close :: "native_contexts \<Rightarrow> bool \<times> completion \<times> native_contexts" where
  "nc_close s =
     (if nc_closed s then (False, None, s)
      else
        let (raised, c, s1) = nc_finish (Some INPUT_CONTEXT_UNAVAILABLE) (s\<lparr>nc_closed := True\<rparr>)
        in if raised then (True, c, s1)
           else (False, c, fold (\<lambda>sender u. snd (snd (nc_unregister sender u))) (map fst (nc_clients s1)) (nc_unbind s1)))"

definition nc_native_changed :: "live \<Rightarrow> native_contexts \<Rightarrow> bool \<times> completion \<times> native_contexts" where
  "nc_native_changed l s =
     (case nc_bound s of
        None \<Rightarrow> (False, None, s)
      | Some b \<Rightarrow>
          if nt_adapter b = Some Wayland \<and> \<not> nc_valid l b s then
            (if nc_pending s \<noteq> None then nc_finish (Some INPUT_CONTEXT_UNAVAILABLE) s else (False, None, nc_unbind s))
          else (False, None, s))"

subsection \<open>The bus service\<close>

text \<open>
  \<open>NativeContextService.call\<close>: the credentials the bus gives for a registering sender are its user and
  process. Every exception is one error reply.
\<close>

datatype native_call =
    Register_native int int int bool
  | Take_native nat int
  | Released_native nat
  | Done_native int
  | Failed_native int
  | Unknown_native

datatype native_reply = Empty_reply | Text_reply int pystr | Bus_error

definition reply_of :: "bool \<Rightarrow> native_reply" where
  "reply_of good = (if good then Empty_reply else Bus_error)"

definition nc_call ::
  "int \<Rightarrow> (nat \<Rightarrow> live) \<Rightarrow> string \<Rightarrow> native_call \<Rightarrow> native_contexts \<Rightarrow> native_reply \<times> completion \<times> native_contexts" where
  "nc_call self w sender call s =
     (case call of
        Register_native uid pid version known \<Rightarrow>
          if uid \<noteq> self then (Bus_error, None, s)
          else (let (raised, u) = nc_register (w 0) sender pid version known s in (reply_of (\<not> raised), None, u))
      | Take_native c surface \<Rightarrow>
          (let (r, raised, k, u) = nc_take (w 0) sender c surface s
           in (case r of None \<Rightarrow> Bus_error | Some (n, x) \<Rightarrow> Text_reply n x, k, u))
      | Released_native c \<Rightarrow> (let (raised, k, u) = nc_released (w 0) sender c s in (reply_of (\<not> raised), k, u))
      | Done_native n \<Rightarrow> (let (good, raised, k, u) = nc_done w sender n s in (reply_of (good \<and> \<not> raised), k, u))
      | Failed_native n \<Rightarrow> (let (good, raised, k, u) = nc_failed sender n s in (reply_of (good \<and> \<not> raised), k, u))
      | Unknown_native \<Rightarrow> (Bus_error, None, s))"

definition nc_owner_changed :: "string \<Rightarrow> bool \<Rightarrow> native_contexts \<Rightarrow> bool \<times> completion \<times> native_contexts" where
  "nc_owner_changed sender has_new s = (if has_new then (False, None, s) else nc_unregister sender s)"

subsection \<open>Events\<close>

text \<open>
  What happens between two commits. The IBus and XIM adapters act on the pending operation from outside:
  they press and release its marker, set its marks and finish it; and the scene goes on by itself.
\<close>

datatype native_event =
    Bus_call int "nat \<Rightarrow> live" string native_call
  | Bus_owner string bool
  | Asked live "native_target option"
  | Answered_text "nat \<Rightarrow> live" int text_step pystr "code option"
  | Scene_changed live
  | Scene_is native
  | Adapters bool bool bool
  | Adapter_key nat bool bool string
  | Adapter_marks bool bool
  | Adapter_finish "code option"
  | Contexts_close

primrec nc_event :: "native_event \<Rightarrow> native_contexts \<Rightarrow> bool \<times> completion \<times> native_contexts" where
  "nc_event (Bus_call self w sender call) s = (let (r, c, u) = nc_call self w sender call s in (False, c, u))"
| "nc_event (Bus_owner sender has_new) s = nc_owner_changed sender has_new s"
| "nc_event (Asked l target) s = (False, None, snd (nc_context_for l target s))"
| "nc_event (Answered_text w n step x err) s = nc_arrived w n step x err s"
| "nc_event (Scene_changed l) s = nc_native_changed l s"
| "nc_event (Scene_is d) s = (False, None, s\<lparr>nc_native := d\<rparr>)"
| "nc_event (Adapters ibus xim x11) s = (False, None, s\<lparr>nc_ibus := ibus, nc_xim := xim, nc_x11 := x11\<rparr>)"
| "nc_event (Adapter_key c released focused sender) s =
     (False, None, s\<lparr>nc_markers := snd (mk_key c released focused (Some sender) (nc_markers s))\<rparr>)"
| "nc_event (Adapter_marks taken fin) s =
     (False, None,
      (case nc_pending s of
         None \<Rightarrow> s
       | Some p \<Rightarrow> s\<lparr>nc_pending := Some (p\<lparr>no_delivery := (case no_delivery p of By_marker c t f \<Rightarrow> By_marker c taken fin | v \<Rightarrow> v)\<rparr>)\<rparr>))"
| "nc_event (Adapter_finish err) s = nc_finish err s"
| "nc_event Contexts_close s = nc_close s"

type_synonym native_commit = "(nat \<Rightarrow> live) \<times> native_token"
type_synonym native_step = "(native_commit, native_event) adapter_op"

definition nc_waiting :: "native_contexts \<Rightarrow> nat option" where
  "nc_waiting s = map_option no_ticket (nc_pending s)"

definition nc_commit_op :: "native_commit \<Rightarrow> pystr \<Rightarrow> nat \<Rightarrow> native_contexts \<Rightarrow> commit_outcome \<times> native_contexts" where
  "nc_commit_op a x k s = nc_commit (fst a) (snd a) x k s"

definition nc_cancel_op :: "native_commit \<Rightarrow> native_contexts \<Rightarrow> native_contexts" where
  "nc_cancel_op a s = snd (nc_cancel (snd a) s)"

definition nc_message :: "native_event \<Rightarrow> native_contexts \<Rightarrow> completion \<times> native_contexts" where
  "nc_message ev s = snd (nc_event ev s)"

subsection \<open>The adapter contract\<close>

text \<open>An operation that calls a callback gives it up; another keeps the waiting one or drops it.\<close>

definition settles :: "native_contexts \<Rightarrow> completion \<Rightarrow> native_contexts \<Rightarrow> bool" where
  "settles s c u =
     (case c of
        Some (k, err) \<Rightarrow> nc_waiting s = Some k \<and> nc_waiting u = None
      | None \<Rightarrow> nc_waiting u = nc_waiting s \<or> nc_waiting u = None)"

abbreviation settled :: "native_contexts \<Rightarrow> bool \<times> completion \<times> native_contexts \<Rightarrow> bool" where
  "settled s r \<equiv> settles s (fst (snd r)) (snd (snd r))"

lemma settles_quiet: "nc_waiting u = nc_waiting s \<Longrightarrow> settles s None u"
  by (simp add: settles_def)

lemma settles_cong: "nc_waiting t = nc_waiting s \<Longrightarrow> settles t c u \<Longrightarrow> settles s c u"
  by (auto simp: settles_def split: option.splits)

lemma settles_then: "settles s c t \<Longrightarrow> nc_waiting u = nc_waiting t \<Longrightarrow> settles s c u"
  by (auto simp: settles_def split: option.splits)

lemma waiting_update [simp]:
  "nc_waiting (s\<lparr>nc_native := d\<rparr>) = nc_waiting s" "nc_waiting (s\<lparr>nc_clients := cs\<rparr>) = nc_waiting s"
  "nc_waiting (s\<lparr>nc_markers := m\<rparr>) = nc_waiting s" "nc_waiting (s\<lparr>nc_bound := b\<rparr>) = nc_waiting s"
  "nc_waiting (s\<lparr>nc_sequence := n\<rparr>) = nc_waiting s" "nc_waiting (s\<lparr>nc_closed := cl\<rparr>) = nc_waiting s"
  "nc_waiting (s\<lparr>nc_open := os\<rparr>) = nc_waiting s" "nc_waiting (s\<lparr>nc_next := h\<rparr>) = nc_waiting s"
  "nc_waiting (s\<lparr>nc_ibus := i\<rparr>) = nc_waiting s" "nc_waiting (s\<lparr>nc_xim := x\<rparr>) = nc_waiting s"
  "nc_waiting (s\<lparr>nc_x11 := y\<rparr>) = nc_waiting s"
  "nc_waiting (s\<lparr>nc_pending := q\<rparr>) = map_option no_ticket q"
  by (simp_all add: nc_waiting_def)

lemma waiting_drop [simp]: "nc_waiting (nc_drop h s) = nc_waiting s"
  by (simp add: nc_drop_def)

lemma waiting_unbind [simp]: "nc_waiting (nc_unbind s) = nc_waiting s"
  by (simp add: nc_unbind_def Let_def split: option.split)

lemma waiting_admit: "nc_admit s = (h, t) \<Longrightarrow> nc_waiting t = nc_waiting s"
  by (auto simp: nc_admit_def)

lemma waiting_drop_all [simp]: "nc_waiting (drop_all hs s) = nc_waiting s"
  by (induction hs arbitrary: s) (simp_all add: drop_all_def)

lemma waiting_routes: "select_routes l as s = (r, routes, t) \<Longrightarrow> nc_waiting t = nc_waiting s"
  by (induction as arbitrary: s r routes t)
     (auto split: selection.splits prod.splits dest!: waiting_admit)

lemma waiting_choose: "choose_client l xid peer s = (c, t) \<Longrightarrow> nc_waiting t = nc_waiting s"
  by (auto simp: choose_client_def Let_def dest!: waiting_routes split: list.splits prod.splits if_splits)

lemma waiting_bind: "nc_waiting (snd (bind_context l g f owner s)) = nc_waiting s"
proof -
  obtain h s1 where a: "nc_admit s = (h, s1)" by (cases "nc_admit s")
  obtain c s2 where b: "choose_client l (fst owner) h s1 = (c, s2)" by (cases "choose_client l (fst owner) h s1")
  show ?thesis
    using waiting_admit [OF a] waiting_choose [OF b] by (simp add: bind_context_def a b Let_def split: option.split)
qed

lemma waiting_context_for: "nc_waiting (snd (nc_context_for l g s)) = nc_waiting s"
  by (simp add: nc_context_for_def Let_def waiting_bind split: option.split)

lemma cancel_delivery_fields:
  "cancel_delivery v s = (r, t) \<Longrightarrow> \<exists>d. t = s\<lparr>nc_native := d\<rparr>"
  by (auto simp: cancel_delivery_def split: delivery.splits option.splits prod.splits)
     (metis native_contexts.surjective native_contexts.update_convs(1))+

lemma finish_pending:
  assumes "nc_pending s = Some p"
  shows "nc_waiting (snd (snd (nc_finish err s))) = None \<and>
    (fst (snd (nc_finish err s)) = None \<or> fst (snd (nc_finish err s)) = Some (no_ticket p, err))"
proof (cases err)
  case (Some e)
  obtain r t where c: "cancel_delivery (no_delivery p) (s\<lparr>nc_pending := None, nc_markers := mk_revoke (nc_markers s)\<rparr>) = (r, t)"
    by (metis surj_pair)
  then have "nc_waiting t = None" using cancel_delivery_fields [OF c] by auto
  with Some assms c show ?thesis by (auto simp: nc_finish_def)
qed (use assms in \<open>simp add: nc_finish_def\<close>)

lemma settled_finish: "settled s (nc_finish err s)"
proof (cases "nc_pending s")
  case (Some p)
  then have "nc_waiting s = Some (no_ticket p)" by (simp add: nc_waiting_def)
  with finish_pending [OF Some, of err] show ?thesis by (auto simp: settles_def)
qed (simp add: nc_finish_def settles_def)

lemma settled_finish': "nc_waiting t = nc_waiting s \<Longrightarrow> settled s (nc_finish err t)"
  by (rule settles_cong [OF _ settled_finish]) simp

lemma finish_drops: "nc_waiting (snd (snd (nc_finish err s))) = None"
  using finish_pending [of s _ err] by (cases "nc_pending s") (simp_all add: nc_finish_def nc_waiting_def)

lemma settled_issue: "settled s (nc_issue l n step x s)"
proof (cases "nc_pending s")
  case (Some p)
  show ?thesis
  proof (cases "no_sequence p \<noteq> n \<or> \<not> nc_valid l (no_token p) s")
    case True
    with Some settled_finish show ?thesis by (auto simp: nc_issue_def settles_quiet)
  next
    case False
    obtain r d where r: "nd_text_operation (nt_epoch (no_token p)) (nt_target (no_token p))
        (if step = Text_sent then map_option (\<lambda>v. (tc_identity v, x)) (wayland_selected (nc_native s)) else None)
        (callback_name n step) (nc_native s) = (r, d)" by (metis surj_pair)
    show ?thesis
    proof (cases r)
      case None
      with False Some r show ?thesis by (simp add: nc_issue_def Let_def settled_finish')
    next
      case (Some q)
      with False \<open>nc_pending s = Some p\<close> r show ?thesis
        by (simp add: nc_issue_def Let_def settles_quiet nc_waiting_def [of s])
    qed
  qed
qed (simp add: nc_issue_def settles_def)

lemma settled_arrived: "settled s (nc_arrived w n step x err s)"
  by (auto simp: nc_arrived_def settles_quiet settled_finish settled_issue split: option.split text_step.split)

lemma settled_complete: "settled s (nc_complete l s)"
  by (auto simp: nc_complete_def settles_quiet settled_finish split: option.split delivery.split)

lemma settled_released: "settled s (nc_released l sender c s)"
  unfolding nc_released_def by (rule settles_cong [OF _ settled_complete]) simp

lemma settled_take: "settled s (snd (nc_take l sender c surface s))"
proof -
  define owned where "owned = owned_code (nc_pending s) sender c"
  define admitted where "admitted = (case nc_pending s of None \<Rightarrow> False
      | Some p \<Rightarrow> owned \<and> nc_valid l (no_token p) s \<and> surface = surface_of (no_token p) \<and> focused_in l (no_token p))"
  obtain x m where k: "mk_key c False admitted (Some sender) (nc_markers s) = (x, m)" by (metis surj_pair)
  have t: "nc_take l sender c surface s =
     (if owned \<and> \<not> admitted then (None, nc_finish (Some INPUT_TARGET_UNAVAILABLE) (s\<lparr>nc_markers := m\<rparr>))
      else
        case (x, nc_pending s) of
          (Some text, Some p) \<Rightarrow>
            if admitted then
              (Some (no_sequence p, text), False, None,
               s\<lparr>nc_markers := m, nc_pending := Some (p\<lparr>no_delivery := (case no_delivery p of By_marker e taken fin \<Rightarrow> By_marker e True fin | v \<Rightarrow> v)\<rparr>)\<rparr>)
            else (None, False, None, s\<lparr>nc_markers := m\<rparr>)
        | _ \<Rightarrow> (None, False, None, s\<lparr>nc_markers := m\<rparr>))"
    unfolding nc_take_def Let_def owned_def [symmetric] admitted_def [symmetric] k by simp
  have f: "settled s (nc_finish (Some INPUT_TARGET_UNAVAILABLE) (s\<lparr>nc_markers := m\<rparr>))" by (rule settled_finish') simp
  show ?thesis
  proof (cases "owned \<and> \<not> admitted")
    case False
    then show ?thesis unfolding t if_not_P [OF False]
      by (cases x; cases "nc_pending s"; cases admitted) (simp_all add: settles_quiet nc_waiting_def [of s])
  qed (use f in \<open>simp add: t\<close>)
qed

lemma settled_done: "settled s (snd (nc_done w sender n s))"
proof (cases "nc_pending s")
  case (Some p)
  show ?thesis
  proof (cases "no_delivery p")
    case (By_marker c taken fin)
    have "settled s (nc_complete (w 1) (s\<lparr>nc_pending := Some (p\<lparr>no_delivery := By_marker c taken True\<rparr>)\<rparr>))"
      by (rule settles_cong [OF _ settled_complete]) (simp add: nc_waiting_def [of s] Some)
    with Some By_marker show ?thesis by (auto simp: nc_done_def settles_quiet settled_finish)
  qed (use Some in \<open>simp add: nc_done_def settles_quiet\<close>)
qed (simp add: nc_done_def settles_quiet)

lemma settled_failed: "settled s (snd (nc_failed sender n s))"
  by (auto simp: nc_failed_def settles_quiet settled_finish split: option.split delivery.split)

lemma settled_unregister: "settled s (nc_unregister sender s)"
proof -
  let ?t = "s\<lparr>nc_clients := AList.delete sender (nc_clients s)\<rparr>"
  obtain r c u where e: "(case nc_pending ?t of
      Some p \<Rightarrow> if nt_sender (no_token p) = sender then nc_finish (Some INPUT_CONTEXT_UNAVAILABLE) ?t else (False, None, ?t)
    | None \<Rightarrow> (False, None, ?t)) = (r, c, u)" by (metis prod_cases3)
  then have "settles s c u"
    using settled_finish' [of ?t s "Some INPUT_CONTEXT_UNAVAILABLE"] by (auto simp: settles_quiet split: option.splits if_splits)
  then show ?thesis
    unfolding nc_unregister_def Let_def e by (auto elim!: settles_then split: option.split)
qed

lemma waiting_unregister: "nc_waiting s = None \<Longrightarrow> nc_waiting (snd (snd (nc_unregister sender s))) = None"
  using settled_unregister [of s sender] by (auto simp: settles_def split: option.splits)

lemma waiting_unregister_all:
  "nc_waiting s = None \<Longrightarrow> nc_waiting (fold (\<lambda>sender u. snd (snd (nc_unregister sender u))) senders s) = None"
  by (induction senders arbitrary: s) (simp_all add: waiting_unregister)

lemma settled_close: "settled s (nc_close s)"
proof (cases "nc_closed s")
  case False
  obtain r c u where f: "nc_finish (Some INPUT_CONTEXT_UNAVAILABLE) (s\<lparr>nc_closed := True\<rparr>) = (r, c, u)" by (metis prod_cases3)
  have u: "nc_waiting u = None" using finish_drops [of "Some INPUT_CONTEXT_UNAVAILABLE" "s\<lparr>nc_closed := True\<rparr>"] f by simp
  have "settles s c u" using settled_finish' [of "s\<lparr>nc_closed := True\<rparr>" s "Some INPUT_CONTEXT_UNAVAILABLE"] f by simp
  moreover have "nc_waiting (fold (\<lambda>sender v. snd (snd (nc_unregister sender v))) (map fst (nc_clients u)) (nc_unbind u)) = nc_waiting u"
    using u waiting_unregister_all by simp
  ultimately show ?thesis using False f by (auto simp: nc_close_def intro: settles_then)
qed (simp add: nc_close_def settles_quiet)

lemma settled_native_changed: "settled s (nc_native_changed l s)"
  by (auto simp: nc_native_changed_def settles_quiet settled_finish split: option.split)

lemma settled_call:
  assumes "nc_call self w sender call s = (r, c, u)"
  shows "settles s c u"
proof (cases call)
  case (Register_native uid pid version known)
  then show ?thesis using assms
    by (auto simp: nc_call_def nc_register_def Let_def nc_admit_def settles_quiet split: if_splits prod.splits)
next
  case (Take_native e surface)
  then show ?thesis using assms settled_take [of s "w 0" sender e surface]
    by (auto simp: nc_call_def split: prod.splits)
next
  case (Released_native e)
  then show ?thesis using assms settled_released [of s "w 0" sender e] by (auto simp: nc_call_def split: prod.splits)
next
  case (Done_native n)
  then show ?thesis using assms settled_done [of s w sender n] by (auto simp: nc_call_def split: prod.splits)
next
  case (Failed_native n)
  then show ?thesis using assms settled_failed [of s sender n] by (auto simp: nc_call_def split: prod.splits)
qed (use assms in \<open>simp add: nc_call_def settles_quiet\<close>)

lemma settled_event: "settled s (nc_event ev s)"
proof (cases ev)
  case (Bus_call self w sender call)
  obtain r c u where e: "nc_call self w sender call s = (r, c, u)" by (metis prod_cases3)
  with settled_call [OF e] Bus_call show ?thesis by simp
next
  case (Adapter_marks taken fin)
  then show ?thesis by (simp add: settles_quiet nc_waiting_def [of s] split: option.split)
qed (simp_all add: nc_owner_changed_def settles_quiet settled_unregister waiting_context_for settled_arrived
    settled_native_changed settled_finish settled_close)

lemma finish_answers: "nc_pending s = Some p \<Longrightarrow> nc_finish err s = (False, c, u) \<Longrightarrow> c = Some (no_ticket p, err)"
  by (auto simp: nc_finish_def Let_def split: option.splits prod.splits if_splits)

lemma issue_pending:
  assumes "nc_pending s = Some p" "nc_issue l (no_sequence p) step x s = (r, c, u)"
  shows "if r \<or> c \<noteq> None then nc_waiting u = None else nc_waiting u = Some (no_ticket p)"
proof (cases "nc_valid l (no_token p) s")
  case False
  then have f: "nc_finish (Some INPUT_TARGET_UNAVAILABLE) s = (r, c, u)" using assms by (simp add: nc_issue_def)
  show ?thesis using finish_drops [of "Some INPUT_TARGET_UNAVAILABLE" s] finish_answers [OF assms(1), of _ c u] f
    by (cases r) auto
next
  case True
  obtain q d where q: "nd_text_operation (nt_epoch (no_token p)) (nt_target (no_token p))
      (if step = Text_sent then map_option (\<lambda>v. (tc_identity v, x)) (wayland_selected (nc_native s)) else None)
      (callback_name (no_sequence p) step) (nc_native s) = (q, d)" by (metis surj_pair)
  show ?thesis
  proof (cases q)
    case None
    then have f: "nc_finish (Some INPUT_DELIVERY_FAILED) (s\<lparr>nc_native := d\<rparr>) = (r, c, u)"
      using assms True q by (simp add: nc_issue_def Let_def)
    show ?thesis using finish_drops [of "Some INPUT_DELIVERY_FAILED" "s\<lparr>nc_native := d\<rparr>"]
        finish_answers [of "s\<lparr>nc_native := d\<rparr>" p _ c u] assms(1) f by (cases r) auto
  next
    case (Some request)
    with assms True q show ?thesis by (auto simp: nc_issue_def Let_def)
  qed
qed

lemma commit_marker_waiting:
  assumes "nc_commit_marker token x k s = (r, u)" "nc_pending s = None"
  shows "nc_waiting u = (if r = Deferred then Some k else None)"
proof -
  obtain e m where m: "mk_enqueue x (Some (nt_sender token)) (nt_xid token \<noteq> 0) (nc_markers s) = (e, m)" by (metis surj_pair)
  show ?thesis
  proof (cases e)
    case (Inl f)
    then show ?thesis using assms m by (auto simp: nc_commit_marker_def nc_waiting_def [of s])
  next
    case (Inr c)
    let ?s1 = "s\<lparr>nc_markers := m, nc_sequence := nc_sequence s + 1, nc_pending :=
        Some \<lparr>no_token = token, no_sequence = nc_sequence s + 1, no_ticket = k, no_delivery = By_marker c False False\<rparr>\<rparr>"
    obtain q d where q: "nd_submit (nt_epoch token) (nt_target token) (marker_keys c) (nc_native ?s1) = (q, d)" by (metis surj_pair)
    obtain r' c' u' where f: "nc_finish (Some INPUT_MARKER_UNAVAILABLE) (?s1\<lparr>nc_native := d\<rparr>) = (r', c', u')" by (metis prod_cases3)
    have "nc_waiting u' = None" using finish_drops [of "Some INPUT_MARKER_UNAVAILABLE" "?s1\<lparr>nc_native := d\<rparr>"] f by simp
    moreover have "\<not> r' \<Longrightarrow> c' = Some (k, Some INPUT_MARKER_UNAVAILABLE)"
      using f finish_answers [of "?s1\<lparr>nc_native := d\<rparr>" _ "Some INPUT_MARKER_UNAVAILABLE" c' u'] by (cases r') simp_all
    ultimately show ?thesis using assms m Inr q f
      by (cases q; cases r') (auto simp: nc_commit_marker_def Let_def at_once_def)
  qed
qed

lemma commit_waiting:
  assumes "nc_commit w token x k s = (r, u)"
  shows "if r = Deferred then nc_waiting s = None \<and> nc_waiting u = Some k else nc_waiting u = nc_waiting s"
proof (cases "nc_pending s = None \<and> nc_valid (w 0) token s \<and> valid_text (PStr x) \<and> nc_sequence s < 0xffffffff")
  case False
  then show ?thesis using assms by (auto simp: nc_commit_def split: if_splits)
next
  case True
  note idle = this
  then have w: "nc_waiting s = None" by (simp add: nc_waiting_def)
  show ?thesis
  proof (cases "nt_adapter token = Some Wayland")
    case False
    with True assms commit_marker_waiting w show ?thesis by (auto simp: nc_commit_def)
  next
    case True
    let ?p = "\<lparr>no_token = token, no_sequence = nc_sequence s + 1, no_ticket = k, no_delivery = By_text None\<rparr>"
    let ?s1 = "s\<lparr>nc_sequence := nc_sequence s + 1, nc_pending := Some ?p\<rparr>"
    obtain r' c' u' where i: "nc_issue (w 1) (nc_sequence s + 1) First_barrier x ?s1 = (r', c', u')" by (metis prod_cases3)
    have "if r' \<or> c' \<noteq> None then nc_waiting u' = None else nc_waiting u' = Some k"
      using issue_pending [of ?s1 ?p "w 1" First_barrier x r' c' u'] i by simp
    with assms idle True i w show ?thesis
      by (auto simp: nc_commit_def Let_def at_once_def split: if_splits option.splits)
  qed
qed

lemma cancel_waiting: "nc_waiting (snd (nc_cancel token s)) = nc_waiting s \<or> nc_waiting (snd (nc_cancel token s)) = None"
proof (cases "nc_pending s")
  case (Some p)
  obtain r t where c: "cancel_delivery (no_delivery p) (s\<lparr>nc_pending := None, nc_markers := mk_revoke (nc_markers s)\<rparr>) = (r, t)"
    by (metis surj_pair)
  then have "nc_waiting t = None" using cancel_delivery_fields [OF c] by auto
  with Some c show ?thesis by (auto simp: nc_cancel_def)
qed (simp add: nc_cancel_def)

interpretation native_texts: text_adapter nc_waiting nc_commit_op nc_cancel_op nc_message
proof
  fix a :: native_commit and x k s err ev
  obtain r u where c: "nc_commit (fst a) (snd a) x k s = (r, u)" by (metis surj_pair)
  note w = commit_waiting [OF c]
  show "fst (nc_commit_op a x k s) = Deferred \<Longrightarrow> nc_waiting s = None \<and> nc_waiting (snd (nc_commit_op a x k s)) = Some k"
    using w by (simp add: nc_commit_op_def c)
  show "fst (nc_commit_op a x k s) = Completed err \<Longrightarrow> nc_waiting (snd (nc_commit_op a x k s)) = nc_waiting s"
    using w by (simp add: nc_commit_op_def c)
  show "fst (nc_commit_op a x k s) = Raised \<Longrightarrow>
      nc_waiting (nc_cancel_op a (snd (nc_commit_op a x k s))) = nc_waiting s \<or>
      nc_waiting (nc_cancel_op a (snd (nc_commit_op a x k s))) = None"
    using w cancel_waiting [of "snd a" u] by (simp add: nc_commit_op_def nc_cancel_op_def c)
  show "nc_waiting (nc_cancel_op a s) = nc_waiting s \<or> nc_waiting (nc_cancel_op a s) = None"
    unfolding nc_cancel_op_def by (rule cancel_waiting)
  show "fst (nc_message ev s) = Some (k, err) \<Longrightarrow> nc_waiting s = Some k \<and> nc_waiting (snd (nc_message ev s)) = None"
    using settled_event [of s ev] by (simp add: nc_message_def settles_def)
  show "fst (nc_message ev s) = None \<Longrightarrow>
      nc_waiting (snd (nc_message ev s)) = nc_waiting s \<or> nc_waiting (snd (nc_message ev s)) = None"
    using settled_event [of s ev] by (simp add: nc_message_def settles_def)
qed

end
