(* ===== verification/Context_Safety.thy ===== *)
theory Context_Safety
  imports Native_Context
begin

section \<open>What native text contexts guarantee\<close>

text \<open>
  The peers a \<open>NativeContexts\<close> holds are accounted for over every sequence of its operations, with the two
  ways in which the code loses one named as conditions; a text is delivered by a transaction that checks
  the live target at each of its steps.
\<close>

subsection \<open>Held peers\<close>

definition bound_peers :: "native_contexts \<Rightarrow> nat list" where
  "bound_peers s =
     (case nc_bound s of
        None \<Rightarrow> []
      | Some b \<Rightarrow> nt_peer b # (if nt_adapter b \<noteq> None then [nt_client b] else []))"

definition held_peers :: "native_contexts \<Rightarrow> nat list" where
  "held_peers s = map snd (nc_clients s) @ bound_peers s"

text \<open>The open peers are the held ones and the ones \<open>hs\<close> an operation has in its hands.\<close>

definition holds :: "nat list \<Rightarrow> native_contexts \<Rightarrow> bool" where
  "holds hs s \<longleftrightarrow> distinct (hs @ held_peers s) \<and> set (nc_open s) = set (hs @ held_peers s) \<and> (\<forall>h \<in> set (nc_open s). h < nc_next s)"

definition linked :: "native_contexts \<Rightarrow> bool" where
  "linked s \<longleftrightarrow> distinct (map fst (nc_clients s)) \<and>
     (\<forall>b. nc_bound s = Some b \<and> nt_adapter b = None \<longrightarrow> map_of (nc_clients s) (nt_sender b) = Some (nt_client b))"

definition shut :: "native_contexts \<Rightarrow> bool" where
  "shut s \<longleftrightarrow> (nc_closed s \<longrightarrow> nc_clients s = [] \<and> nc_bound s = None)"

lemma held_update [simp]:
  "held_peers (s\<lparr>nc_native := d\<rparr>) = held_peers s" "held_peers (s\<lparr>nc_markers := m\<rparr>) = held_peers s"
  "held_peers (s\<lparr>nc_sequence := n\<rparr>) = held_peers s" "held_peers (s\<lparr>nc_closed := c\<rparr>) = held_peers s"
  "held_peers (s\<lparr>nc_pending := q\<rparr>) = held_peers s" "held_peers (s\<lparr>nc_open := os\<rparr>) = held_peers s"
  "held_peers (s\<lparr>nc_next := h\<rparr>) = held_peers s" "held_peers (s\<lparr>nc_ibus := i\<rparr>) = held_peers s"
  "held_peers (s\<lparr>nc_xim := x\<rparr>) = held_peers s" "held_peers (s\<lparr>nc_x11 := y\<rparr>) = held_peers s"
  by (simp_all add: held_peers_def bound_peers_def)

lemma holds_update [simp]:
  "holds hs (s\<lparr>nc_native := d\<rparr>) = holds hs s" "holds hs (s\<lparr>nc_markers := m\<rparr>) = holds hs s"
  "holds hs (s\<lparr>nc_sequence := n\<rparr>) = holds hs s" "holds hs (s\<lparr>nc_closed := c\<rparr>) = holds hs s"
  "holds hs (s\<lparr>nc_pending := q\<rparr>) = holds hs s" "holds hs (s\<lparr>nc_ibus := i\<rparr>) = holds hs s"
  "holds hs (s\<lparr>nc_xim := x\<rparr>) = holds hs s" "holds hs (s\<lparr>nc_x11 := y\<rparr>) = holds hs s"
  by (simp_all add: holds_def)

lemma linked_update [simp]:
  "linked (s\<lparr>nc_native := d\<rparr>) = linked s" "linked (s\<lparr>nc_markers := m\<rparr>) = linked s"
  "linked (s\<lparr>nc_sequence := n\<rparr>) = linked s" "linked (s\<lparr>nc_closed := c\<rparr>) = linked s"
  "linked (s\<lparr>nc_pending := q\<rparr>) = linked s" "linked (s\<lparr>nc_open := os\<rparr>) = linked s"
  "linked (s\<lparr>nc_next := h\<rparr>) = linked s" "linked (s\<lparr>nc_ibus := i\<rparr>) = linked s"
  "linked (s\<lparr>nc_xim := x\<rparr>) = linked s" "linked (s\<lparr>nc_x11 := y\<rparr>) = linked s"
  by (simp_all add: linked_def)

lemma shut_update [simp]:
  "shut (s\<lparr>nc_native := d\<rparr>) = shut s" "shut (s\<lparr>nc_markers := m\<rparr>) = shut s"
  "shut (s\<lparr>nc_sequence := n\<rparr>) = shut s" "shut (s\<lparr>nc_pending := q\<rparr>) = shut s"
  "shut (s\<lparr>nc_open := os\<rparr>) = shut s" "shut (s\<lparr>nc_next := h\<rparr>) = shut s"
  "shut (s\<lparr>nc_ibus := i\<rparr>) = shut s" "shut (s\<lparr>nc_xim := x\<rparr>) = shut s" "shut (s\<lparr>nc_x11 := y\<rparr>) = shut s"
  by (simp_all add: shut_def)

definition peers_ok :: "native_contexts \<Rightarrow> bool" where
  "peers_ok s \<longleftrightarrow> holds [] s \<and> linked s \<and> shut s"

subsection \<open>Making and closing peers\<close>

lemma nc_admit_simps:
  "nc_admit s = (h, t) \<longleftrightarrow> h = nc_next s \<and> t = s\<lparr>nc_open := nc_open s @ [nc_next s], nc_next := nc_next s + 1\<rparr>"
  by (auto simp: nc_admit_def)

lemma holds_admit: "holds hs s \<Longrightarrow> nc_admit s = (h, t) \<Longrightarrow> holds (h # hs) t"
  by (auto simp: holds_def nc_admit_simps less_Suc_eq)

lemma holds_drop: "holds (h # hs) s \<Longrightarrow> holds hs (nc_drop h s)"
  by (auto simp: holds_def nc_drop_def)

lemma holds_drop_all: "holds (hs @ gs) s \<Longrightarrow> holds gs (drop_all hs s)"
  unfolding drop_all_def by (induction hs arbitrary: s) (auto simp: holds_drop)

lemma nc_drop_fields [simp]:
  "linked (nc_drop h s) = linked s" "shut (nc_drop h s) = shut s" "nc_bound (nc_drop h s) = nc_bound s"
  "nc_clients (nc_drop h s) = nc_clients s" "nc_pending (nc_drop h s) = nc_pending s" "nc_closed (nc_drop h s) = nc_closed s"
  "nc_native (nc_drop h s) = nc_native s"
  by (simp_all add: nc_drop_def)

lemma drop_all_fields [simp]:
  "linked (drop_all hs s) = linked s" "shut (drop_all hs s) = shut s" "nc_bound (drop_all hs s) = nc_bound s"
  "nc_closed (drop_all hs s) = nc_closed s" "nc_clients (drop_all hs s) = nc_clients s"
  unfolding drop_all_def by (induction hs arbitrary: s) simp_all

lemma nc_unbind_fields [simp]:
  "nc_bound (nc_unbind s) = None" "nc_clients (nc_unbind s) = nc_clients s" "nc_pending (nc_unbind s) = nc_pending s"
  "nc_closed (nc_unbind s) = nc_closed s" "nc_native (nc_unbind s) = nc_native s"
  by (simp_all add: nc_unbind_def Let_def split: option.split)

lemma holds_unbind: "holds hs s \<Longrightarrow> holds hs (nc_unbind s)"
proof (cases "nc_bound s")
  case (Some b)
  assume h: "holds hs s"
  show ?thesis using h Some
    by (auto simp: holds_def held_peers_def bound_peers_def nc_unbind_def nc_drop_def Let_def)
qed (simp add: nc_unbind_def)

lemma linked_unbind: "distinct (map fst (nc_clients s)) \<Longrightarrow> linked (nc_unbind s)"
  by (simp add: linked_def)

lemma shut_unbind: "shut s \<Longrightarrow> shut (nc_unbind s)"
  by (simp add: shut_def)

lemma peers_ok_unbind: "peers_ok s \<Longrightarrow> peers_ok (nc_unbind s)"
  by (simp add: peers_ok_def holds_unbind shut_unbind) (simp add: linked_def)

lemma peers_ok_update [simp]:
  "peers_ok (s\<lparr>nc_native := d\<rparr>) = peers_ok s" "peers_ok (s\<lparr>nc_markers := m\<rparr>) = peers_ok s"
  "peers_ok (s\<lparr>nc_sequence := n\<rparr>) = peers_ok s" "peers_ok (s\<lparr>nc_pending := q\<rparr>) = peers_ok s"
  "peers_ok (s\<lparr>nc_ibus := i\<rparr>) = peers_ok s" "peers_ok (s\<lparr>nc_xim := x\<rparr>) = peers_ok s" "peers_ok (s\<lparr>nc_x11 := y\<rparr>) = peers_ok s"
  by (simp_all add: peers_ok_def)

lemma peers_ok_new: "peers_ok (new_native_contexts d)"
  by (simp add: peers_ok_def holds_def linked_def shut_def held_peers_def bound_peers_def new_native_contexts_def)

lemma holds_new_client:
  assumes "holds (h # hs) t"
  shows "holds hs (t\<lparr>nc_clients := nc_clients t @ [(sender, h)]\<rparr>)"
proof -
  let ?u = "t\<lparr>nc_clients := nc_clients t @ [(sender, h)]\<rparr>"
  have "held_peers ?u = map snd (nc_clients t) @ h # bound_peers t" by (simp add: held_peers_def bound_peers_def)
  then have "distinct (hs @ held_peers ?u) = distinct ((h # hs) @ held_peers t)" "set (hs @ held_peers ?u) = set ((h # hs) @ held_peers t)"
    by (auto simp: held_peers_def)
  with assms show ?thesis by (simp add: holds_def)
qed

lemma peers_ok_register:
  assumes "peers_ok s"
  shows "peers_ok (snd (nc_register l sender pid version known s))"
proof (cases "nc_closed s \<or> version \<noteq> 1 \<or> \<not> known \<or> map_of (nc_clients s) sender \<noteq> None \<or> 64 \<le> length (nc_clients s) \<or>
    \<not> li_admits l pid")
  case False
  let ?t = "s\<lparr>nc_open := nc_open s @ [nc_next s], nc_next := nc_next s + 1\<rparr>"
  have r: "snd (nc_register l sender pid version known s) = ?t\<lparr>nc_clients := nc_clients s @ [(sender, nc_next s)]\<rparr>"
    using False by (simp add: nc_register_def nc_admit_def)
  have "holds [nc_next s] ?t" using assms by (intro holds_admit [of "[]" s]) (simp_all add: peers_ok_def nc_admit_simps)
  then have "holds [] (?t\<lparr>nc_clients := nc_clients s @ [(sender, nc_next s)]\<rparr>)"
    using holds_new_client [of "nc_next s" "[]" ?t sender] by simp
  moreover have "linked s" "map_of (nc_clients s) sender = None" "\<not> nc_closed s" using assms False by (auto simp: peers_ok_def)
  then have "linked (?t\<lparr>nc_clients := nc_clients s @ [(sender, nc_next s)]\<rparr>)" "shut (?t\<lparr>nc_clients := nc_clients s @ [(sender, nc_next s)]\<rparr>)"
    by (auto simp: linked_def shut_def map_of_eq_None_iff map_add_def)
  ultimately show ?thesis unfolding r peers_ok_def by blast
qed (use assms in \<open>auto simp: nc_register_def\<close>)

subsection \<open>Finishing\<close>

lemma finish_shape:
  assumes "nc_finish err s = (r, c, u)"
  shows "(\<exists>d m. u = s\<lparr>nc_pending := None, nc_markers := m, nc_native := d\<rparr> \<and> r) \<or>
    (\<exists>d m. u = nc_unbind (s\<lparr>nc_pending := None, nc_markers := m, nc_native := d\<rparr>) \<and> \<not> r) \<or>
    (u = s \<and> nc_pending s = None \<and> \<not> r)"
proof (cases "nc_pending s")
  case (Some p)
  show ?thesis
  proof (cases err)
    case None
    with assms Some have "u = nc_unbind (s\<lparr>nc_pending := None, nc_markers := nc_markers s, nc_native := nc_native s\<rparr>)" "\<not> r"
      by (auto simp: nc_finish_def)
    then show ?thesis by blast
  next
    case (Some e)
    obtain q t where c: "cancel_delivery (no_delivery p) (s\<lparr>nc_pending := None, nc_markers := mk_revoke (nc_markers s)\<rparr>) = (q, t)"
      by (metis surj_pair)
    obtain d where t: "t = s\<lparr>nc_pending := None, nc_markers := mk_revoke (nc_markers s), nc_native := d\<rparr>"
      using cancel_delivery_fields [OF c] by auto
    show ?thesis using assms \<open>nc_pending s = Some p\<close> Some c t by (cases q) (auto simp: nc_finish_def)
  qed
qed (use assms in \<open>simp add: nc_finish_def\<close>)

lemma peers_ok_finish: "peers_ok s \<Longrightarrow> peers_ok (snd (snd (nc_finish err s)))"
proof -
  assume ok: "peers_ok s"
  obtain r c u where f: "nc_finish err s = (r, c, u)" by (metis prod_cases3)
  show ?thesis using finish_shape [OF f] ok f by (auto simp: peers_ok_unbind)
qed

lemma peers_ok_issue: "peers_ok s \<Longrightarrow> peers_ok (snd (snd (nc_issue l n step x s)))"
proof (cases "nc_pending s")
  case (Some p)
  assume ok: "peers_ok s"
  show ?thesis
  proof (cases "no_sequence p \<noteq> n \<or> \<not> nc_valid l (no_token p) s")
    case True
    with Some ok show ?thesis by (auto simp: nc_issue_def peers_ok_finish)
  next
    case False
    obtain r d where r: "nd_text_operation (nt_epoch (no_token p)) (nt_target (no_token p))
        (if step = Text_sent then map_option (\<lambda>v. (tc_identity v, x)) (wayland_selected (nc_native s)) else None)
        (callback_name n step) (nc_native s) = (r, d)" by (metis surj_pair)
    with False Some ok show ?thesis by (cases r) (simp_all add: nc_issue_def Let_def peers_ok_finish)
  qed
qed (simp add: nc_issue_def)

lemma peers_ok_arrived: "peers_ok s \<Longrightarrow> peers_ok (snd (snd (nc_arrived w n step x err s)))"
  by (auto simp: nc_arrived_def peers_ok_finish peers_ok_issue split: option.split text_step.split)

lemma peers_ok_complete: "peers_ok s \<Longrightarrow> peers_ok (snd (snd (nc_complete l s)))"
  by (auto simp: nc_complete_def peers_ok_finish split: option.split delivery.split)

lemma peers_ok_take: "peers_ok s \<Longrightarrow> peers_ok (snd (snd (snd (nc_take l sender c surface s))))"
  by (auto simp: nc_take_def Let_def case_prod_beta peers_ok_finish split: option.split)

lemma peers_ok_done: "peers_ok s \<Longrightarrow> peers_ok (snd (snd (snd (nc_done w sender n s))))"
  by (auto simp: nc_done_def peers_ok_finish peers_ok_complete split: option.split delivery.split)

lemma peers_ok_failed: "peers_ok s \<Longrightarrow> peers_ok (snd (snd (snd (nc_failed sender n s))))"
  by (auto simp: nc_failed_def peers_ok_finish split: option.split delivery.split)

lemma peers_ok_native_changed: "peers_ok s \<Longrightarrow> peers_ok (snd (snd (nc_native_changed l s)))"
  by (auto simp: nc_native_changed_def peers_ok_finish peers_ok_unbind split: option.split)

lemma peers_ok_cancel: "peers_ok s \<Longrightarrow> peers_ok (snd (nc_cancel token s))"
proof (cases "nc_pending s")
  case (Some p)
  assume ok: "peers_ok s"
  obtain q t where c: "cancel_delivery (no_delivery p) (s\<lparr>nc_pending := None, nc_markers := mk_revoke (nc_markers s)\<rparr>) = (q, t)"
    by (metis surj_pair)
  then have "peers_ok t" using cancel_delivery_fields [OF c] ok by auto
  with Some ok c show ?thesis by (simp add: nc_cancel_def peers_ok_unbind)
qed (simp add: nc_cancel_def peers_ok_unbind)

lemma peers_ok_commit: "peers_ok s \<Longrightarrow> peers_ok (snd (nc_commit w token x k s))"
  by (auto simp: nc_commit_def nc_commit_marker_def at_once_def Let_def case_prod_beta peers_ok_unbind peers_ok_issue peers_ok_finish
      split: option.split sum.split)

subsection \<open>Choosing a context\<close>

text \<open>
  \<open>quiet\<close>: no route raises behind one that was made. In the other case \<open>context_for\<close> closes the surface
  peer only, and the first route's peer stays open.
\<close>

definition quiet :: "live \<Rightarrow> bool" where
  "quiet l \<longleftrightarrow> li_select l Xim \<noteq> Route_raises \<and> li_again l \<or> (\<forall>x. li_select l Ibus \<noteq> Route x)"

lemma select_holds:
  "holds hs s \<Longrightarrow> select_routes l as s = (False, routes, t) \<Longrightarrow> holds (map (snd \<circ> snd) routes @ hs) t"
proof (induction as arbitrary: hs s routes t)
  case (Cons a as)
  show ?case
  proof (cases "route_select l (nc_native s) a")
    case (Route sender)
    obtain h s1 where a: "nc_admit s = (h, s1)" by (metis surj_pair)
    obtain r rest s2 where q: "select_routes l as s1 = (r, rest, s2)" by (metis prod_cases3)
    have "routes = (a, sender, h) # rest" "t = s2" "\<not> r" using Cons.prems(2) Route a q by auto
    moreover have "holds (map (snd \<circ> snd) rest @ h # hs) s2"
      using Cons.IH [of "h # hs" s1 rest s2] holds_admit [OF Cons.prems(1) a] q \<open>\<not> r\<close> by (simp add: comp_def)
    ultimately show ?thesis by (auto simp: holds_def comp_def)
  qed (use Cons in auto)
qed simp

lemma select_fields:
  "select_routes l as s = (r, routes, t) \<Longrightarrow>
     nc_bound t = nc_bound s \<and> nc_clients t = nc_clients s \<and> nc_closed t = nc_closed s \<and> nc_native t = nc_native s \<and> nc_pending t = nc_pending s"
  by (induction as arbitrary: s r routes t) (fastforce simp: nc_admit_def split: selection.splits prod.splits)+

lemma select_late:
  assumes "quiet l" "select_routes l (candidates xid s) s = (True, routes, t)"
  shows "t = s"
proof -
  have x: "candidates xid s \<in> {[], [Ibus], [Xim], [Wayland], [Ibus, Xim], [Ibus, Wayland]}" by (auto simp: candidates_def)
  show ?thesis using x assms
    by (auto simp: quiet_def nc_admit_def split: selection.splits option.splits if_splits)
qed

lemma choose_holds:
  assumes "quiet l" "holds hs s" "choose_client l xid peer s = (c, t)"
  shows "case c of Some (Some a, sender, h) \<Rightarrow> holds (h # hs) t | _ \<Rightarrow> holds hs t"
proof (cases "filter (\<lambda>(sender, h). li_matches l h peer) (nc_clients s)")
  case Nil
  obtain r routes s1 where q: "select_routes l (candidates xid s) s = (r, routes, s1)" by (metis prod_cases3)
  show ?thesis
  proof (cases r)
    case True
    with q select_late [OF assms(1)] have "s1 = s" by simp
    with assms Nil q True show ?thesis by (auto simp: choose_client_def)
  next
    case False
    have h: "holds (map (snd \<circ> snd) routes @ hs) s1" using select_holds [OF assms(2)] q False by simp
    show ?thesis
    proof (cases "\<exists>a sender h. routes = [(a, sender, h)]")
      case True
      with assms(3) Nil q False h show ?thesis by (auto simp: choose_client_def)
    next
      case other: False
      then have "(c, t) = (None, drop_all (map (snd \<circ> snd) routes) s1)"
        using assms(3) Nil q False by (auto simp: choose_client_def split: list.splits)
      with holds_drop_all [OF h] show ?thesis by simp
    qed
  qed
next
  case (Cons x xs)
  then show ?thesis using assms by (cases xs) (auto simp: choose_client_def)
qed

lemma choose_fields:
  assumes "choose_client l xid peer s = (c, t)"
  shows "nc_bound t = nc_bound s \<and> nc_clients t = nc_clients s \<and> nc_closed t = nc_closed s"
proof -
  obtain r routes s1 where q: "select_routes l (candidates xid s) s = (r, routes, s1)" by (metis prod_cases3)
  show ?thesis using assms select_fields [OF q] q
    by (auto simp: choose_client_def split: list.splits if_splits)
qed

lemma choose_client_member:
  assumes "choose_client l xid peer s = (Some (None, sender, h), t)"
  shows "(sender, h) \<in> set (nc_clients s)"
proof -
  obtain r routes s1 where q: "select_routes l (candidates xid s) s = (r, routes, s1)" by (metis prod_cases3)
  have "filter (\<lambda>(sender, h). li_matches l h peer) (nc_clients s) = [(sender, h)]"
    using assms q by (auto simp: choose_client_def split: list.splits if_splits)
  then have "(sender, h) \<in> set (filter (\<lambda>(sender, h). li_matches l h peer) (nc_clients s))" by (simp only: list.set_intros)
  then show ?thesis by (simp only: set_filter) simp
qed

lemma peers_ok_bind:
  assumes "peers_ok s" "nc_bound s = None" "\<not> nc_closed s" "quiet l"
  shows "peers_ok (snd (bind_context l g f owner s))"
proof (cases "li_admits l (snd owner)")
  case False
  with assms show ?thesis by (simp add: bind_context_def)
next
  case True
  obtain peer s1 where a: "nc_admit s = (peer, s1)" by (metis surj_pair)
  obtain c s2 where c: "choose_client l (fst owner) peer s1 = (c, s2)" by (metis surj_pair)
  have h1: "holds [peer] s1" using holds_admit [OF _ a] assms(1) by (simp add: peers_ok_def)
  have f: "nc_bound s2 = None" "nc_clients s2 = nc_clients s" "\<not> nc_closed s2"
    using choose_fields [OF c] a assms(2,3) by (auto simp: nc_admit_simps)
  have d: "distinct (map fst (nc_clients s2))" using assms(1) f(2) by (simp add: peers_ok_def linked_def)
  show ?thesis
  proof (cases c)
    case None
    have "holds [] (nc_drop peer s2)" using choose_holds [OF assms(4) h1 c] None holds_drop by simp
    then show ?thesis using True a c None f d by (simp add: bind_context_def peers_ok_def linked_def shut_def)
  next
    case (Some x)
    obtain adapter sender client where x: "x = (adapter, sender, client)" by (metis prod_cases3)
    define token where "token = \<lparr>nt_epoch = nd_epoch (nc_native s2), nt_target = g, nt_focus = li_focus l,
      nt_identity = nf_identity f, nt_surface = nf_surface f, nt_sender = sender, nt_client = client,
      nt_peer = peer, nt_pid = snd owner, nt_adapter = adapter, nt_xid = fst owner,
      nt_context = (if adapter = Some Wayland then wayland_selected (nc_native s2) else None)\<rparr>"
    let ?s3 = "s2\<lparr>nc_bound := Some token\<rparr>"
    have r: "snd (bind_context l g f owner s) = (if nc_valid l token ?s3 then ?s3 else nc_unbind ?s3)"
      using True a c Some x by (simp add: bind_context_def token_def Let_def)
    have held: "held_peers ?s3 = map snd (nc_clients s2) @ peer # (if adapter \<noteq> None then [client] else [])"
      by (simp add: held_peers_def bound_peers_def token_def)
    have "holds [] ?s3"
    proof (cases adapter)
      case None
      have "holds [peer] s2" using choose_holds [OF assms(4) h1 c] Some x None by simp
      then show ?thesis using None f unfolding holds_def held by (auto simp: held_peers_def bound_peers_def)
    next
      case a: (Some b)
      have "holds [client, peer] s2" using choose_holds [OF assms(4) h1 c] Some x a by simp
      then show ?thesis using a f unfolding holds_def held by (auto simp: held_peers_def bound_peers_def)
    qed
    moreover have "linked ?s3"
      using d choose_client_member [of l "fst owner" peer s1 sender client s2] c Some x f a
      by (cases adapter) (auto simp: linked_def token_def nc_admit_simps)
    moreover have "shut ?s3" using f by (simp add: shut_def)
    ultimately have "peers_ok ?s3" by (simp add: peers_ok_def)
    with r show ?thesis by (simp add: peers_ok_unbind)
  qed
qed

lemma peers_ok_context_for:
  assumes "peers_ok s" "quiet l"
  shows "peers_ok (snd (nc_context_for l g s))"
proof -
  have u: "peers_ok (nc_unbind s)" by (rule peers_ok_unbind [OF assms(1)])
  have b: "\<not> nc_closed s \<Longrightarrow> peers_ok (snd (bind_context l t f owner (nc_unbind s)))" for t f owner
    using peers_ok_bind [OF u] assms(2) by simp
  show ?thesis using assms(1) u b by (auto simp: nc_context_for_def Let_def split: option.split)
qed

subsection \<open>Leaving\<close>

lemma delete_client:
  assumes "map_of cs sender = Some h" "distinct (map fst cs)" "distinct (map snd cs)"
  shows "set (map snd cs) = insert h (set (map snd (AList.delete sender cs))) \<and> h \<notin> set (map snd (AList.delete sender cs)) \<and>
    distinct (map snd (AList.delete sender cs))"
  using assms
proof (induction cs)
  case (Cons x cs)
  obtain a b where x: "x = (a, b)" by (cases x)
  show ?case
  proof (cases "a = sender")
    case True
    then have "AList.delete sender cs = cs" using Cons.prems(2) x by (force simp: AList.delete_eq filter_id_conv)
    with True Cons.prems x show ?thesis by simp
  next
    case False
    have "set (map snd (AList.delete sender cs)) \<subseteq> set (map snd cs)" by (auto simp: AList.delete_eq)
    with False Cons x show ?thesis by auto
  qed
qed simp

lemma holds_pop:
  assumes "holds hs s" "linked s" "map_of (nc_clients s) sender = Some h"
  shows "holds (h # hs) (s\<lparr>nc_clients := AList.delete sender (nc_clients s)\<rparr>)"
proof -
  have d: "distinct (map fst (nc_clients s))" "distinct (map snd (nc_clients s))"
    using assms by (auto simp: linked_def holds_def held_peers_def)
  note p = delete_client [OF assms(3) d]
  show ?thesis using assms(1) p by (auto simp: holds_def held_peers_def bound_peers_def)
qed

lemma delete_absent: "map_of cs k = None \<Longrightarrow> AList.delete k cs = cs"
  by (induction cs) (auto simp: AList.delete_eq split: if_splits)

text \<open>What is left of \<open>unregister\<close> once the operation is finished.\<close>

lemma holds_finish:
  assumes "holds hs s" "nc_finish err s = (False, c, u)"
  shows "holds hs u \<and> nc_clients u = nc_clients s \<and> nc_closed u = nc_closed s \<and> (nc_bound u = None \<or> nc_bound u = nc_bound s) \<and>
    (nc_pending s \<noteq> None \<longrightarrow> nc_bound u = None)"
  using finish_shape [OF assms(2)] assms(1) by (auto simp: holds_unbind)

lemma peers_ok_unregister:
  assumes "peers_ok s" "\<not> fst (nc_unregister sender s)"
  shows "peers_ok (snd (snd (nc_unregister sender s)))"
proof -
  let ?t = "s\<lparr>nc_clients := AList.delete sender (nc_clients s)\<rparr>"
  let ?hs = "case map_of (nc_clients s) sender of None \<Rightarrow> [] | Some h \<Rightarrow> [h]"
  obtain r c u where e: "(case nc_pending ?t of
      Some p \<Rightarrow> if nt_sender (no_token p) = sender then nc_finish (Some INPUT_CONTEXT_UNAVAILABLE) ?t else (False, None, ?t)
    | None \<Rightarrow> (False, None, ?t)) = (r, c, u)" by (metis prod_cases3)
  have r: "\<not> r" using assms(2) unfolding nc_unregister_def Let_def e by (auto split: if_splits)
  have s: "holds [] s" "linked s" "shut s" using assms(1) by (simp_all add: peers_ok_def)
  have t: "holds ?hs ?t" using holds_pop [OF s(1,2)] s(1) by (auto simp: delete_absent split: option.split)
  have u: "holds ?hs u \<and> nc_clients u = AList.delete sender (nc_clients s) \<and> nc_closed u = nc_closed s \<and>
      (nc_bound u = None \<or> nc_bound u = nc_bound s)"
  proof (cases "\<exists>p. nc_pending s = Some p \<and> nt_sender (no_token p) = sender")
    case True
    then have "nc_finish (Some INPUT_CONTEXT_UNAVAILABLE) ?t = (False, c, u)" using e r by auto
    from holds_finish [OF t this] show ?thesis by simp
  next
    case False
    then have "u = ?t" using e by (cases "nc_pending s") auto
    with t show ?thesis by simp
  qed
  define v where "v = (case nc_bound u of Some b \<Rightarrow> if nt_sender b = sender then nc_unbind u else u | None \<Rightarrow> u)"
  have v: "holds ?hs v" "nc_clients v = AList.delete sender (nc_clients s)" "nc_closed v = nc_closed s"
    "\<And>b. nc_bound v = Some b \<Longrightarrow> nc_bound s = Some b \<and> nt_sender b \<noteq> sender"
    subgoal using u by (auto simp: v_def holds_unbind split: option.splits)
    subgoal using u by (auto simp: v_def split: option.splits)
    subgoal using u by (auto simp: v_def split: option.splits)
    subgoal premises b for b
    proof (cases "nc_bound u")
      case None
      then show ?thesis using b by (simp add: v_def)
    next
      case (Some a)
      then have "nc_bound s = Some a" using u by auto
      with Some b show ?thesis by (cases "nt_sender a = sender") (simp_all add: v_def)
    qed
    done
  have "linked v" using v s(2) by (auto simp: linked_def distinct_delete delete_conv')
  moreover have "shut v" using v s(3) by (cases "nc_bound v") (auto simp: shut_def)
  ultimately have "peers_ok (case map_of (nc_clients s) sender of None \<Rightarrow> v\<lparr>nc_markers := m\<rparr> | Some h \<Rightarrow> nc_drop h (v\<lparr>nc_markers := m\<rparr>))" for m
    using v(1) holds_drop [of _ "[]" "v\<lparr>nc_markers := m\<rparr>"] by (auto simp: peers_ok_def split: option.splits)
  moreover have "snd (snd (nc_unregister sender s)) =
      (case map_of (nc_clients s) sender of None \<Rightarrow> v\<lparr>nc_markers := mk_remove_owner (Some sender) (nc_markers v)\<rparr>
       | Some h \<Rightarrow> nc_drop h (v\<lparr>nc_markers := mk_remove_owner (Some sender) (nc_markers v)\<rparr>))"
    unfolding nc_unregister_def Let_def e using r by (cases "map_of (nc_clients s) sender") (simp_all flip: v_def)
  ultimately show ?thesis by simp
qed

text \<open>Closing: the operation is finished, so no unregistration finishes one.\<close>

lemma unregister_idle:
  assumes "nc_pending s = None" "nc_bound s = None"
  shows "\<not> fst (nc_unregister sender s) \<and> nc_pending (snd (snd (nc_unregister sender s))) = None \<and>
    nc_bound (snd (snd (nc_unregister sender s))) = None \<and>
    nc_clients (snd (snd (nc_unregister sender s))) = AList.delete sender (nc_clients s) \<and>
    nc_closed (snd (snd (nc_unregister sender s))) = nc_closed s"
  using assms by (auto simp: nc_unregister_def Let_def split: option.split)

lemma unregister_all:
  assumes "holds [] s" "linked s" "nc_pending s = None" "nc_bound s = None"
  shows "let u = fold (\<lambda>sender v. snd (snd (nc_unregister sender v))) senders s
    in holds [] u \<and> linked u \<and> nc_bound u = None \<and> nc_clients u = fold AList.delete senders (nc_clients s)"
  using assms
proof (induction senders arbitrary: s)
  case (Cons sender senders)
  let ?t = "snd (snd (nc_unregister sender s))"
  note idle = unregister_idle [OF Cons.prems(3,4), of sender]
  have "peers_ok (s\<lparr>nc_closed := False\<rparr>)" using Cons.prems by (simp add: peers_ok_def shut_def)
  have h: "holds [] ?t \<and> linked ?t"
  proof (cases "map_of (nc_clients s) sender")
    case None
    with Cons.prems show ?thesis by (auto simp: nc_unregister_def Let_def delete_absent)
  next
    case (Some h)
    let ?u = "s\<lparr>nc_clients := AList.delete sender (nc_clients s)\<rparr>"
    have "holds [h] ?u" by (rule holds_pop [OF Cons.prems(1,2) Some])
    then have "holds [] (nc_drop h (?u\<lparr>nc_markers := mk_remove_owner (Some sender) (nc_markers s)\<rparr>))" by (intro holds_drop) simp
    moreover have "linked ?u" using Cons.prems by (auto simp: linked_def distinct_delete delete_conv')
    ultimately show ?thesis using Some Cons.prems by (auto simp: nc_unregister_def Let_def)
  qed
  with Cons.IH [of ?t] idle show ?case by (simp add: Let_def)
qed (simp add: Let_def)

lemma delete_all: "fold AList.delete (map fst cs) cs = []"
proof -
  have "map_of (fold AList.delete ks cs) k = (if k \<in> set ks then None else map_of cs k)" for ks k and cs :: "('a \<times> 'b) list"
    by (induction ks arbitrary: cs) (auto simp: delete_conv')
  then have "dom (map_of (fold AList.delete (map fst cs) cs)) = {}" by (auto simp: dom_map_of_conv_image_fst dom_def map_of_eq_None_iff split: if_splits)
  then show ?thesis by (simp add: dom_map_of_conv_image_fst)
qed

lemma peers_ok_close:
  assumes "peers_ok s" "\<not> fst (nc_close s)"
  shows "peers_ok (snd (snd (nc_close s)))"
proof (cases "nc_closed s")
  case False
  obtain r c u where f: "nc_finish (Some INPUT_CONTEXT_UNAVAILABLE) (s\<lparr>nc_closed := True\<rparr>) = (r, c, u)" by (metis prod_cases3)
  then have "\<not> r" using assms(2) False by (auto simp: nc_close_def)
  have h: "holds [] (s\<lparr>nc_closed := True\<rparr>)" "linked s" using assms(1) by (simp_all add: peers_ok_def)
  have u: "holds [] u" "nc_clients u = nc_clients s"
    using holds_finish [OF h(1)] f \<open>\<not> r\<close> by auto
  have p: "nc_pending u = None" using finish_drops [of "Some INPUT_CONTEXT_UNAVAILABLE" "s\<lparr>nc_closed := True\<rparr>"] f
    by (simp add: nc_waiting_def)
  have "linked (nc_unbind u)" using h(2) u(2) by (simp add: linked_def)
  from unregister_all [OF holds_unbind [OF u(1)] this, of "map fst (nc_clients u)"] p
  have "peers_ok (fold (\<lambda>sender v. snd (snd (nc_unregister sender v))) (map fst (nc_clients u)) (nc_unbind u))"
    by (simp add: Let_def peers_ok_def shut_def delete_all)
  then show ?thesis using False f \<open>\<not> r\<close> by (simp add: nc_close_def)
qed (use assms in \<open>simp add: nc_close_def\<close>)

subsection \<open>Runs\<close>

text \<open>
  Where a step loses no peer: no route raises behind one that was made, and neither a leaving client nor
  the end of the service meets an exception of \<open>cancel_delivery\<close>, which would skip the rest of the method.
\<close>

definition event_clean :: "native_event \<Rightarrow> native_contexts \<Rightarrow> bool" where
  "event_clean ev s =
     (case ev of
        Asked l g \<Rightarrow> quiet l
      | Bus_owner sender has_new \<Rightarrow> \<not> fst (nc_event ev s)
      | Contexts_close \<Rightarrow> \<not> fst (nc_event ev s)
      | _ \<Rightarrow> True)"

lemma peers_ok_call: "peers_ok s \<Longrightarrow> peers_ok (snd (snd (nc_call self w sender call s)))"
proof (cases call)
  case (Register_native uid pid version known)
  assume "peers_ok s"
  with Register_native show ?thesis using peers_ok_register [of s "w 0" sender pid version known]
    by (simp add: nc_call_def case_prod_beta)
next
  case (Take_native c surface)
  assume "peers_ok s"
  with Take_native show ?thesis using peers_ok_take [of s "w 0" sender c surface] by (simp add: nc_call_def case_prod_beta)
next
  case (Released_native c)
  assume "peers_ok s"
  with Released_native show ?thesis by (simp add: nc_call_def case_prod_beta nc_released_def peers_ok_complete)
next
  case (Done_native n)
  assume "peers_ok s"
  with Done_native show ?thesis using peers_ok_done [of s w sender n] by (simp add: nc_call_def case_prod_beta)
next
  case (Failed_native n)
  assume "peers_ok s"
  with Failed_native show ?thesis using peers_ok_failed [of s sender n] by (simp add: nc_call_def case_prod_beta)
qed (simp add: nc_call_def)

lemma peers_ok_event:
  assumes "peers_ok s" "event_clean ev s"
  shows "peers_ok (snd (snd (nc_event ev s)))"
proof (cases ev)
  case (Bus_call self w sender call)
  with peers_ok_call [OF assms(1), of self w sender call] show ?thesis by (simp add: case_prod_beta)
next
  case (Bus_owner sender has_new)
  with assms peers_ok_unregister [of s sender] show ?thesis by (auto simp: event_clean_def nc_owner_changed_def)
next
  case (Asked l g)
  with assms peers_ok_context_for [of s l g] show ?thesis by (simp add: event_clean_def)
next
  case (Adapter_marks taken fin)
  with assms show ?thesis by (simp split: option.split)
next
  case Contexts_close
  with assms peers_ok_close [of s] show ?thesis by (simp add: event_clean_def)
qed (use assms in \<open>simp_all add: peers_ok_arrived peers_ok_native_changed peers_ok_finish\<close>)

abbreviation contexts_step :: "native_step \<Rightarrow> native_contexts \<Rightarrow> (nat \<times> code option) list \<times> native_contexts" where
  "contexts_step \<equiv> adapter_step nc_commit_op nc_cancel_op nc_message"

abbreviation contexts_run :: "native_step list \<Rightarrow> native_contexts \<Rightarrow> (nat \<times> code option) list \<times> native_contexts" where
  "contexts_run \<equiv> adapter_run nc_commit_op nc_cancel_op nc_message"

definition step_clean :: "native_step \<Rightarrow> native_contexts \<Rightarrow> bool" where
  "step_clean x s = (case x of Message ev \<Rightarrow> event_clean ev s | _ \<Rightarrow> True)"

primrec run_clean :: "native_step list \<Rightarrow> native_contexts \<Rightarrow> bool" where
  "run_clean [] s = True"
| "run_clean (x # xs) s = (step_clean x s \<and> run_clean xs (snd (contexts_step x s)))"

lemma peers_ok_step:
  assumes "peers_ok s" "step_clean x s"
  shows "peers_ok (snd (contexts_step x s))"
proof (cases x)
  case (Commit a y k)
  obtain r u where c: "nc_commit_op a y k s = (r, u)" by (metis surj_pair)
  then have "peers_ok u" using peers_ok_commit [OF assms(1), of "fst a" "snd a" y k] by (simp add: nc_commit_op_def)
  then show ?thesis using Commit c peers_ok_cancel [of u "snd a"] by (cases r) (simp_all add: nc_cancel_op_def)
next
  case (Cancel a)
  then show ?thesis using peers_ok_cancel [OF assms(1)] by (simp add: nc_cancel_op_def)
next
  case (Message ev)
  then have "peers_ok (snd (snd (nc_event ev s)))" using peers_ok_event assms by (simp add: step_clean_def)
  then show ?thesis using Message by (simp add: nc_message_def case_prod_beta split: option.split)
qed

lemma peers_ok_run: "peers_ok s \<Longrightarrow> run_clean ops s \<Longrightarrow> peers_ok (snd (contexts_run ops s))"
  by (induction ops arbitrary: s) (simp_all add: Let_def peers_ok_step)

subsection \<open>What success and a handed out text need\<close>

lemma route_valid_update [simp]:
  "route_valid l token (s\<lparr>nc_pending := q\<rparr>) a = route_valid l token s a"
  "route_valid l token (s\<lparr>nc_markers := m\<rparr>) a = route_valid l token s a"
  by (cases a; simp)+

lemma nc_valid_update [simp]:
  "nc_valid l token (s\<lparr>nc_pending := q\<rparr>) = nc_valid l token s"
  "nc_valid l token (s\<lparr>nc_markers := m\<rparr>) = nc_valid l token s"
  by (simp_all add: nc_valid_def x11_valid_def split: option.split)















subsection \<open>Properties\<close>

text \<open>C10: Peers are accounted for: after every sequence of registrations, requests, commits, messages and losses
  in which no step loses one, the open application peers are exactly those of the registered clients and
  of the bound token, each held once; the client of a bound token is open with it; and once the service
  has closed, none is open.\<close>
theorem peers_accounted:
  assumes "run_clean ops (new_native_contexts d)"
  shows "let s = snd (contexts_run ops (new_native_contexts d))
    in distinct (held_peers s) \<and> set (nc_open s) = set (held_peers s) \<and>
       (\<forall>b. nc_bound s = Some b \<longrightarrow> nt_peer b \<in> set (nc_open s) \<and> nt_client b \<in> set (nc_open s)) \<and>
       (nc_closed s \<longrightarrow> nc_open s = [])"
proof -
  define s where "s = snd (contexts_run ops (new_native_contexts d))"
  have ok: "peers_ok s" unfolding s_def by (rule peers_ok_run [OF peers_ok_new assms])
  then have h: "distinct (held_peers s)" "set (nc_open s) = set (held_peers s)" by (simp_all add: peers_ok_def holds_def)
  have "nt_peer b \<in> set (held_peers s) \<and> nt_client b \<in> set (held_peers s)" if b: "nc_bound s = Some b" for b
  proof (cases "nt_adapter b")
    case None
    then have "map_of (nc_clients s) (nt_sender b) = Some (nt_client b)" using ok b by (simp add: peers_ok_def linked_def)
    then have "nt_client b \<in> snd ` set (nc_clients s)" by (force dest: map_of_SomeD)
    with b show ?thesis by (simp add: held_peers_def bound_peers_def)
  qed (use b in \<open>simp add: held_peers_def bound_peers_def\<close>)
  moreover have "nc_closed s \<longrightarrow> held_peers s = []" using ok by (simp add: peers_ok_def shut_def held_peers_def bound_peers_def)
  ultimately show ?thesis unfolding s_def [symmetric] Let_def using h by auto
qed

text \<open>Whatever clients, adapters, the scene and the compositor do, and also when a method raises, each
  commit of a native text is completed at most once.\<close>
theorem native_text_completes_once:
  assumes "distinct (concat (map op_tickets ops))"
  shows "distinct (map fst (fst (contexts_run ops (new_native_contexts d))))"
  by (rule native_texts.run_at_most_once [OF assms]) (simp add: nc_waiting_def new_native_contexts_def)



definition sample_target :: native_target where
  "sample_target = \<lparr>tg_window = 1, tg_generation = 1\<rparr>"

definition sample_scene :: native where
  "sample_scene = new_native\<lparr>nd_epoch := 1, nd_target := Some sample_target,
     nd_focus := Some \<lparr>nf_identity = 5, nf_window = 1, nf_pid = 20, nf_surface = 9, nf_available = True\<rparr>,
     nd_windows := [(1, \<lparr>nw_window = 1, nw_parent = 0, nw_protocol = ''wayland'', nw_pid = 20, nw_width = 10, nw_height = 10, nw_mode = 0\<rparr>)],
     nd_text_contexts := [(3, \<lparr>tc_identity = 3, tc_revision = 1, tc_surface = 5, tc_enabled = True, tc_serial = 1\<rparr>)]\<rparr>"

definition sample_live :: live where
  "sample_live = \<lparr>li_focus = 7, li_owner = (\<lambda>x. None), li_focused = (\<lambda>x. True), li_matches = (\<lambda>h g. True),
     li_usable = (\<lambda>a. True), li_select = (\<lambda>a. No_route), li_admits = (\<lambda>pid. True), li_again = True\<rparr>"

definition late_live :: live where
  "late_live = sample_live\<lparr>li_select := (\<lambda>a. if a = Ibus then Route ''1.5'' else No_route), li_again := False\<rparr>"

text \<open>A route that raises behind another one that was made loses a peer: here the IBus route has opened its
  peer and the Wayland route raises, as it does when the client can no longer be admitted;
  \<open>context_for\<close> answers \<open>None\<close> and closes the surface peer, and the IBus peer stays open although nothing
  holds it.\<close>
theorem late_route_loses_peer:
  "let s = (new_native_contexts sample_scene)\<lparr>nc_ibus := True\<rparr>; (token, u) = nc_context_for late_live (Some sample_target) s
   in token = None \<and> nc_open u = [1] \<and> held_peers u = [] \<and> nc_open s = []"
  by (simp add: new_native_contexts_def nc_context_for_def nc_unbind_def sample_scene_def sample_target_def late_live_def
      sample_live_def surface_owner_def bind_context_def nc_admit_def choose_client_def candidates_def wayland_selected_def
      nc_drop_def held_peers_def bound_peers_def new_native_def Let_def)

definition sample_token :: native_token where
  "sample_token = \<lparr>nt_epoch = 1, nt_target = sample_target, nt_focus = 7, nt_identity = 5, nt_surface = 9, nt_sender = ''1.2'',
     nt_client = 0, nt_peer = 1, nt_pid = 20, nt_adapter = None, nt_xid = 0, nt_context = None\<rparr>"





lemma peers_accounted_witness:
  "nc_open (snd (contexts_run [Message (Bus_call 1000 (\<lambda>i. sample_live) ''1.2'' (Register_native 1000 20 1 True)), Message Contexts_close]
     (new_native_contexts sample_scene))) = []"
proof -
  let ?ops = "[Message (Bus_call 1000 (\<lambda>i. sample_live) ''1.2'' (Register_native 1000 20 1 True)), Message Contexts_close]"
  have c: "run_clean ?ops (new_native_contexts sample_scene)"
    by (simp add: step_clean_def event_clean_def nc_message_def nc_call_def nc_register_def nc_admit_def sample_live_def
        new_native_contexts_def nc_close_def nc_finish_def)
  have "nc_closed (snd (contexts_run ?ops (new_native_contexts sample_scene)))"
    by (simp add: nc_message_def nc_call_def nc_register_def nc_admit_def sample_live_def
        new_native_contexts_def nc_close_def nc_finish_def nc_unbind_def nc_unregister_def nc_drop_def Let_def)
  with peers_accounted [OF c] show ?thesis by (simp only: Let_def)
qed

lemma native_text_completes_once_witness:
  "distinct (map fst (fst (contexts_run [Commit (\<lambda>i. sample_live, sample_token) [104] 4, Message (Adapter_finish None)]
     (new_native_contexts sample_scene))))"
  by (rule native_text_completes_once) simp



end
