(* ===== verification/Peer.thy ===== *)
theory Peer
  imports Processes Utf8
begin

section \<open>Application identities (application\_peer.py)\<close>

text \<open>
  A bus peer or the client of a surface is bound to live processes of the launch supervisor, and, for a
  Flatpak, to the process its official metadata names. Every call of a primitive (\<open>identity\<close>, \<open>open\<close>,
  \<open>readlink\<close>) meets the host at a moment of its own: \<open>world\<close> gives the moments of an operation in order,
  so files, links and processes may change at any point in between. Inside a moment the three views of
  \<open>Processes.owns\<close> are separate again. The parsers of \<open>configparser\<close> and \<open>json\<close> are arguments:
  \<open>mo_key x section key\<close> is the value the parsed text \<open>x\<close> has (\<open>None\<close>: \<open>KeyError\<close> or \<open>configparser.Error\<close>),
  \<open>mo_json x\<close> the document (\<open>None\<close>: \<open>ValueError\<close>).
\<close>

datatype peer_failure = Missing_file | Os_failure | Value_failure

definition MAX_METADATA :: int where "MAX_METADATA = 256 * 1024"

text \<open>What \<open>fstat\<close> tells, and the two questions asked of a mode: \<open>S_ISREG\<close>, and \<open>0o022\<close>.\<close>

record file_meta =
  me_mode :: int
  me_uid :: int
  me_device :: int
  me_inode :: int
  me_size :: int
  me_modified :: int
  me_changed :: int

record opened_file =
  op_before :: file_meta
  op_content :: bytes
  op_after :: file_meta

datatype open_answer = Absent | Open_fails | Opens opened_file

record peer_moment =
  mo_first :: process_view
  mo_observed :: process_view
  mo_again :: process_view
  mo_chain :: process_view
  mo_uid :: int
  mo_info :: "int \<Rightarrow> open_answer"
  mo_key :: "pystr \<Rightarrow> string \<Rightarrow> string \<Rightarrow> pystr option"
  mo_namespace :: "int \<Rightarrow> pystr option"
  mo_directory :: "pystr list \<Rightarrow> (int \<times> int) option"
  mo_record :: "pystr list \<Rightarrow> open_answer"
  mo_json :: "pystr \<Rightarrow> pyval option"

type_synonym world = "nat \<Rightarrow> peer_moment"

definition regular_mode :: "int \<Rightarrow> bool" where
  "regular_mode mode \<longleftrightarrow> mode div 0x1000 mod 16 = 8"

definition others_write :: "int \<Rightarrow> bool" where
  "others_write mode \<longleftrightarrow> mode div 16 mod 2 = 1 \<or> mode div 2 mod 2 = 1"

subsection \<open>Metadata files\<close>

definition unsafe_meta :: "int \<Rightarrow> file_meta \<Rightarrow> bool" where
  "unsafe_meta uid m \<longleftrightarrow> \<not> regular_mode (me_mode m) \<or> me_uid m \<noteq> uid \<or> others_write (me_mode m) \<or> MAX_METADATA < me_size m"

definition meta_changed :: "file_meta \<Rightarrow> file_meta \<Rightarrow> bool" where
  "meta_changed a b \<longleftrightarrow>
     (me_device a, me_inode a, me_size a, me_modified a, me_changed a, me_mode a) \<noteq>
     (me_device b, me_inode b, me_size b, me_modified b, me_changed b, me_mode b)"

definition read_regular :: "int \<Rightarrow> open_answer \<Rightarrow> peer_failure + pystr" where
  "read_regular uid answer =
     (case answer of
        Absent \<Rightarrow> Inl Missing_file
      | Open_fails \<Rightarrow> Inl Os_failure
      | Opens f \<Rightarrow>
          if unsafe_meta uid (op_before f) then Inl Value_failure
          else
            let content = take (nat MAX_METADATA + 1) (op_content f)
            in if MAX_METADATA < int (length content) \<or> meta_changed (op_before f) (op_after f) then Inl Value_failure
               else (case utf8_decode content of None \<Rightarrow> Inl Value_failure | Some x \<Rightarrow> Inr x))"

subsection \<open>Flatpak identities\<close>

record flatpak =
  fp_app :: pystr
  fp_instance :: pystr
  fp_revision :: pystr
  fp_runtime :: pystr

definition name_start :: "nat \<Rightarrow> bool" where
  "name_start c \<longleftrightarrow> 65 \<le> c \<and> c \<le> 90 \<or> 97 \<le> c \<and> c \<le> 122 \<or> c = 95"

definition name_code :: "nat \<Rightarrow> bool" where
  "name_code c \<longleftrightarrow> name_start c \<or> 48 \<le> c \<and> c \<le> 57 \<or> c = 45"

primrec dotted :: "pystr \<Rightarrow> pystr list" where
  "dotted [] = [[]]"
| "dotted (c # cs) =
     (if c = 46 then [] # dotted cs
      else case dotted cs of [] \<Rightarrow> [[c]] | x # xs \<Rightarrow> (c # x) # xs)"

definition name_part :: "pystr \<Rightarrow> bool" where
  "name_part x = (case x of [] \<Rightarrow> False | c # cs \<Rightarrow> name_start c \<and> list_all name_code cs)"

definition app_name :: "pystr \<Rightarrow> bool" where
  "app_name x \<longleftrightarrow> 3 \<le> length (dotted x) \<and> list_all name_part (dotted x) \<and> length x \<le> 255"

definition instance_id :: "pystr \<Rightarrow> bool" where
  "instance_id x \<longleftrightarrow> 1 \<le> length x \<and> length x \<le> 20 \<and> list_all (\<lambda>c. 48 \<le> c \<and> c \<le> 57) x"

definition commit_id :: "pystr \<Rightarrow> bool" where
  "commit_id x \<longleftrightarrow> length x = 64 \<and> list_all (\<lambda>c. 48 \<le> c \<and> c \<le> 57 \<or> 97 \<le> c \<and> c \<le> 102) x"

definition flatpak_ok :: "flatpak \<Rightarrow> bool" where
  "flatpak_ok i \<longleftrightarrow> app_name (fp_app i) \<and> instance_id (fp_instance i) \<and> commit_id (fp_revision i) \<and> commit_id (fp_runtime i)"

definition flatpak_identity :: "peer_moment \<Rightarrow> int \<Rightarrow> peer_failure + flatpak option" where
  "flatpak_identity m pid =
     (case read_regular (mo_uid m) (mo_info m pid) of
        Inl Missing_file \<Rightarrow> Inr None
      | Inl e \<Rightarrow> Inl e
      | Inr x \<Rightarrow>
          (case (mo_key m x ''Application'' ''name'', mo_key m x ''Instance'' ''instance-id'',
                 mo_key m x ''Instance'' ''app-commit'', mo_key m x ''Instance'' ''runtime-commit'') of
             (Some app, Some inst, Some revision, Some runtime) \<Rightarrow>
               let i = \<lparr>fp_app = app, fp_instance = inst, fp_revision = revision, fp_runtime = runtime\<rparr>
               in if flatpak_ok i then Inr (Some i) else Inl Value_failure
           | _ \<Rightarrow> Inl Value_failure))"

subsection \<open>The sandbox child\<close>

text \<open>
  The directories are opened one below the other, and closed again in reverse whatever happened:
  \<open>open_chain\<close> answers the error, if any, and the directories open then; \<open>sandbox_child\<close> its result and
  the directories in the order of their closing.
\<close>

fun open_chain :: "peer_moment \<Rightarrow> pystr list \<Rightarrow> pystr list \<Rightarrow> peer_failure option \<times> pystr list list" where
  "open_chain m base [] = (None, [])"
| "open_chain m base (x # xs) =
     (let here = base @ [x]
      in case mo_directory m here of
           None \<Rightarrow> (Some Os_failure, [])
         | Some (uid, mode) \<Rightarrow>
             if uid \<noteq> mo_uid m \<or> others_write mode then (Some Value_failure, [here])
             else (let (e, rest) = open_chain m here xs in (e, here # rest)))"

definition child_of_document :: "pyval option \<Rightarrow> peer_failure + int" where
  "child_of_document document =
     (case document of
        Some (PDict d) \<Rightarrow>
          (case dict_get d ''child-pid'' of
             PInt pid \<Rightarrow> if 1 < pid \<and> pid \<le> 0x7fffffff then Inr pid else Inl Value_failure
           | _ \<Rightarrow> Inl Value_failure)
      | _ \<Rightarrow> Inl Value_failure)"

definition sandbox_child :: "peer_moment \<Rightarrow> pystr \<Rightarrow> pystr \<Rightarrow> (peer_failure + int) \<times> pystr list list" where
  "sandbox_child m runtime inst =
     (let path = [runtime, py ''.flatpak'', inst]; (e, opened) = open_chain m [] path
      in (case e of
            Some e \<Rightarrow> Inl e
          | None \<Rightarrow>
              (case read_regular (mo_uid m) (mo_record m path) of
                 Inl e \<Rightarrow> Inl e
               | Inr x \<Rightarrow> child_of_document (mo_json m x)),
          rev opened))"

subsection \<open>Peers\<close>

record application_peer =
  ap_process :: process_reference
  ap_child :: "process_reference option"
  ap_runtime :: pystr
  ap_package :: "flatpak option"
  ap_namespace :: pystr
  ap_child_namespace :: "pystr option"

definition reference_ok :: "peer_moment \<Rightarrow> process_tree \<Rightarrow> process_reference \<Rightarrow> bool" where
  "reference_ok m = reference_valid (mo_observed m) (mo_again m) (mo_chain m)"

text \<open>\<open>valid\<close>: nine moments, read in the order of the conditions.\<close>

definition child_valid :: "world \<Rightarrow> process_tree \<Rightarrow> application_peer \<Rightarrow> bool" where
  "child_valid w t p =
     (case (ap_child p, ap_package p) of
        (None, _) \<Rightarrow> True
      | (Some c, Some package) \<Rightarrow>
          reference_ok (w 3) t c \<and> flatpak_identity (w 4) (rf_pid c) = Inr (Some package) \<and>
          fst (sandbox_child (w 5) (ap_runtime p) (fp_instance package)) = Inr (rf_pid c) \<and>
          (mo_namespace (w 6) (rf_pid c) \<noteq> None \<and> mo_namespace (w 6) (rf_pid c) = ap_child_namespace p)
      | (Some c, None) \<Rightarrow> False)"

definition peer_valid :: "world \<Rightarrow> process_tree \<Rightarrow> application_peer \<Rightarrow> bool" where
  "peer_valid w t p \<longleftrightarrow>
     reference_ok (w 0) t (ap_process p) \<and>
     flatpak_identity (w 1) (rf_pid (ap_process p)) = Inr (ap_package p) \<and>
     mo_namespace (w 2) (rf_pid (ap_process p)) = Some (ap_namespace p) \<and>
     child_valid w t p \<and>
     reference_ok (w 7) t (ap_process p) \<and>
     (case ap_child p of None \<Rightarrow> True | Some c \<Rightarrow> reference_ok (w 8) t c)"

definition peer_close :: "application_peer \<Rightarrow> process_tree \<Rightarrow> process_tree" where
  "peer_close p t =
     (let t1 = snd (close_reference (ap_process p) t)
      in case ap_child p of None \<Rightarrow> t1 | Some c \<Rightarrow> snd (close_reference c t1))"

definition admit_at :: "peer_moment \<Rightarrow> nat \<Rightarrow> int \<Rightarrow> process_tree \<Rightarrow> (process_reference \<times> process_tree) option" where
  "admit_at m name pid = admit (mo_first m) (mo_observed m) (mo_again m) (mo_chain m) name (PInt pid)"

text \<open>
  The body of \<open>__init__\<close> behind the first admission: the peer as far as it was built, whether it is
  complete, and the tree. \<open>admit\<close> raises an \<open>OSError\<close> or a \<open>ValueError\<close>, which no caller tells apart.
\<close>

definition build_child :: "world \<Rightarrow> nat \<Rightarrow> flatpak \<Rightarrow> application_peer \<Rightarrow> process_tree \<Rightarrow> bool \<times> application_peer \<times> process_tree" where
  "build_child w name package p t =
     (case fst (sandbox_child (w 3) (ap_runtime p) (fp_instance package)) of
        Inl e \<Rightarrow> (False, p, t)
      | Inr pid \<Rightarrow>
          (case admit_at (w 4) name pid t of
             None \<Rightarrow> (False, p, t)
           | Some (c, t1) \<Rightarrow>
               let p1 = p\<lparr>ap_child := Some c\<rparr>
               in (case mo_namespace (w 5) (rf_pid c) of
                     None \<Rightarrow> (False, p1, t1)
                   | Some ns \<Rightarrow>
                       let p2 = p1\<lparr>ap_child_namespace := Some ns\<rparr>
                       in (flatpak_identity (w 6) (rf_pid c) = Inr (Some package), p2, t1))))"

definition build_peer :: "world \<Rightarrow> nat \<Rightarrow> application_peer \<Rightarrow> process_tree \<Rightarrow> bool \<times> application_peer \<times> process_tree" where
  "build_peer w name p t =
     (case flatpak_identity (w 1) (rf_pid (ap_process p)) of
        Inl e \<Rightarrow> (False, p, t)
      | Inr package \<Rightarrow>
          let p1 = p\<lparr>ap_package := package\<rparr>
          in (case mo_namespace (w 2) (rf_pid (ap_process p)) of
                None \<Rightarrow> (False, p1, t)
              | Some ns \<Rightarrow>
                  let p2 = p1\<lparr>ap_namespace := ns\<rparr>;
                      (good, q, u) = (case package of None \<Rightarrow> (True, p2, t) | Some i \<Rightarrow> build_child w name i p2 t)
                  in (good \<and> peer_valid (\<lambda>i. w (7 + i)) u q, q, u)))"

definition bind_peer :: "world \<Rightarrow> nat \<times> nat \<Rightarrow> int \<Rightarrow> pystr \<Rightarrow> process_tree \<Rightarrow> application_peer option \<times> process_tree" where
  "bind_peer w names pid runtime t =
     (case admit_at (w 0) (fst names) pid t of
        None \<Rightarrow> (None, t)
      | Some (r, t1) \<Rightarrow>
          let (good, p, t2) = build_peer w (snd names)
                \<lparr>ap_process = r, ap_child = None, ap_runtime = runtime, ap_package = None, ap_namespace = [],
                 ap_child_namespace = None\<rparr> t1
          in if good then (Some p, t2) else (None, peer_close p t2))"

definition same_process :: "process_reference \<Rightarrow> process_reference \<Rightarrow> bool" where
  "same_process a b \<longleftrightarrow> rf_pid a = rf_pid b \<and> rf_started a = rf_started b"

text \<open>\<open>matches\<close>; \<open>same_tree\<close> is whether both belong to one process tree.\<close>

definition peer_matches :: "bool \<Rightarrow> world \<Rightarrow> world \<Rightarrow> process_tree \<Rightarrow> application_peer \<Rightarrow> application_peer \<Rightarrow> bool" where
  "peer_matches same_tree w v t p surface =
     (if \<not> same_tree \<or> \<not> peer_valid w t p \<or> \<not> peer_valid v t surface then False
      else if same_process (ap_process p) (ap_process surface) then True
      else
        (case (ap_package p, ap_child p, ap_child surface) of
           (Some package, Some c, Some d) \<Rightarrow>
             ap_package surface = Some package \<and> same_process c d \<and> Some (ap_namespace surface) = ap_child_namespace p
         | _ \<Rightarrow> False))"


subsection \<open>References\<close>

text \<open>A reference is held by the tree under its name until it is closed.\<close>

definition holds_reference :: "nat \<Rightarrow> process_reference \<Rightarrow> process_tree \<Rightarrow> process_tree \<Rightarrow> bool" where
  "holds_reference name r t u \<longleftrightarrow>
     rf_open r \<and> rf_name r = name \<and> u = t\<lparr>pt_references := List.insert name (pt_references t)\<rparr>"

lemma admit_at_holds: "admit_at m name pid t = Some (r, u) \<Longrightarrow> holds_reference name r t u"
  by (auto simp: admit_at_def admit_def holds_reference_def split: option.splits if_splits)

lemma close_held:
  "holds_reference name r t u \<Longrightarrow> name \<notin> set (pt_references t) \<Longrightarrow> snd (close_reference r u) = t"
  by (simp add: holds_reference_def close_reference_def)

lemma build_child_held:
  assumes "build_child w name i p t = (good, q, u)" "ap_child p = None"
  shows "ap_process q = ap_process p \<and>
    (case ap_child q of None \<Rightarrow> u = t | Some c \<Rightarrow> holds_reference name c t u)"
  using assms admit_at_holds
  by (auto simp: build_child_def Let_def split: sum.splits option.splits prod.splits)

lemma build_peer_held:
  assumes "build_peer w name p t = (good, q, u)" "ap_child p = None"
  shows "ap_process q = ap_process p \<and>
    (case ap_child q of None \<Rightarrow> u = t | Some c \<Rightarrow> holds_reference name c t u)"
proof -
  let ?ask = "flatpak_identity (w 1) (rf_pid (ap_process p))"
  show ?thesis
  proof (cases "?ask")
    case (Inr package)
    note asked = this
    show ?thesis
    proof (cases "mo_namespace (w 2) (rf_pid (ap_process p))")
      case (Some ns)
      let ?p = "p\<lparr>ap_package := package, ap_namespace := ns\<rparr>"
      show ?thesis
      proof (cases package)
        case None
        with assms asked Some show ?thesis by (auto simp: build_peer_def Let_def)
      next
        case pkg: (Some i)
        obtain g q' u' where b: "build_child w name i ?p t = (g, q', u')" by (metis prod_cases3)
        with assms asked Some pkg have "q' = q" "u' = u" by (simp_all add: build_peer_def Let_def)
        with build_child_held [OF b] assms(2) show ?thesis by (auto split: option.splits)
      qed
    qed (use assms asked in \<open>auto simp: build_peer_def Let_def\<close>)
  qed (use assms in \<open>auto simp: build_peer_def\<close>)
qed

lemma peer_close_held:
  assumes "holds_reference a (ap_process p) t t1"
    and "case ap_child p of None \<Rightarrow> u = t1 | Some c \<Rightarrow> holds_reference b c t1 u"
    and "a \<notin> set (pt_references t)" "b \<notin> set (pt_references t)" "a \<noteq> b"
  shows "peer_close p u = t"
proof (cases "ap_child p")
  case None
  with assms close_held show ?thesis by (simp add: peer_close_def Let_def)
next
  case (Some c)
  with assms show ?thesis by (auto simp: peer_close_def Let_def holds_reference_def close_reference_def)
qed

subsection \<open>Properties\<close>

text \<open>A peer owns exactly the references it admitted: construction that fails at any point, at any later
  moment of the host, leaves the process tree as it was, and closing a constructed peer gives back the
  tree it was constructed in.\<close>
theorem peer_owns_its_references:
  assumes "bind_peer w names pid runtime t = (r, u)"
    and "fst names \<notin> set (pt_references t)" "snd names \<notin> set (pt_references t)" "fst names \<noteq> snd names"
  shows "(case r of None \<Rightarrow> u | Some p \<Rightarrow> peer_close p u) = t"
proof (cases "admit_at (w 0) (fst names) pid t")
  case None
  with assms show ?thesis by (auto simp: bind_peer_def)
next
  case (Some x)
  obtain ref t1 where x: "x = (ref, t1)" by (cases x)
  let ?p = "\<lparr>ap_process = ref, ap_child = None, ap_runtime = runtime, ap_package = None, ap_namespace = [],
    ap_child_namespace = None\<rparr>"
  obtain good p t2 where b: "build_peer w (snd names) ?p t1 = (good, p, t2)" by (metis prod_cases3)
  have h: "holds_reference (fst names) ref t t1" using admit_at_holds Some x by simp
  have "peer_close p t2 = t"
    using build_peer_held [OF b] h assms by (intro peer_close_held [of "fst names" p t t1 t2 "snd names"]) simp_all
  with assms(1) Some x b show ?thesis by (auto simp: bind_peer_def split: if_splits)
qed

text \<open>C20: Two peers are matched only when both were found alive and descend from the supervisor, and either are
  one process with one start time or share one Flatpak identity and one live sandbox child, in whose
  PID namespace the surface's client runs. A name or a metadata file alone never matches.\<close>
theorem matched_peers_share_owner:
  assumes "peer_matches same w v t p surface"
  shows "same \<and> (\<forall>q \<in> {ap_process p, ap_process surface}.
      \<exists>a b c. owns a b c t (rf_pid q) \<and> started_of a (rf_pid q) = Some (rf_started q)) \<and>
    (same_process (ap_process p) (ap_process surface) \<or>
     (\<exists>package c d. ap_package p = Some package \<and> ap_package surface = Some package \<and>
        ap_child p = Some c \<and> ap_child surface = Some d \<and> same_process c d \<and>
        (\<exists>x y z. owns x y z t (rf_pid c)) \<and> fst (sandbox_child (w 5) (ap_runtime p) (fp_instance package)) = Inr (rf_pid c) \<and>
        ap_child_namespace p = Some (ap_namespace surface)))"
proof -
  have v: "same" "peer_valid w t p" "peer_valid v t surface" using assms by (auto simp: peer_matches_def split: if_splits)
  then have o: "\<exists>a b c. owns a b c t (rf_pid q) \<and> started_of a (rf_pid q) = Some (rf_started q)"
    if "q \<in> {ap_process p, ap_process surface}" for q
    using that by (auto simp: peer_valid_def reference_ok_def reference_valid_def)
  show ?thesis
  proof (cases "same_process (ap_process p) (ap_process surface)")
    case False
    with assms obtain package c d where m: "ap_package p = Some package" "ap_child p = Some c" "ap_child surface = Some d"
      "ap_package surface = Some package" "same_process c d" "Some (ap_namespace surface) = ap_child_namespace p"
      by (auto simp: peer_matches_def split: if_splits option.splits)
    then have "child_valid w t p" using v by (simp add: peer_valid_def)
    with m have "\<exists>x y z. owns x y z t (rf_pid c)"
      "fst (sandbox_child (w 5) (ap_runtime p) (fp_instance package)) = Inr (rf_pid c)"
      by (auto simp: child_valid_def reference_ok_def reference_valid_def)
    with m v o show ?thesis by auto
  qed (use v o in auto)
qed

text \<open>Metadata is used only whole and private: the text that \<open>read_regular\<close> returns is the decoded content
  of a regular file of the user's own, that neither group nor others may write, of at most 256 KiB,
  and whose identity, size, times and mode were the same after the read.\<close>
theorem metadata_is_private:
  assumes "read_regular uid answer = Inr x"
  shows "\<exists>f. answer = Opens f \<and> utf8_decode (op_content f) = Some x \<and> length (op_content f) \<le> 262144 \<and>
    me_uid (op_before f) = uid \<and> regular_mode (me_mode (op_before f)) \<and> \<not> others_write (me_mode (op_before f)) \<and>
    \<not> meta_changed (op_before f) (op_after f)"
proof -
  obtain f where f: "answer = Opens f" using assms by (cases answer) (auto simp: read_regular_def)
  have len: "length (take 262145 (op_content f)) \<le> 262144"
    using assms f by (auto simp: read_regular_def MAX_METADATA_def Let_def split: if_splits)
  then have short: "length (op_content f) \<le> 262144" by (simp add: min_def split: if_splits)
  then have all: "take 262145 (op_content f) = op_content f" by simp
  have "utf8_decode (op_content f) = Some x" "\<not> unsafe_meta uid (op_before f)" "\<not> meta_changed (op_before f) (op_after f)"
    using assms f all by (auto simp: read_regular_def MAX_METADATA_def Let_def split: if_splits option.splits)
  with f short show ?thesis by (auto simp: unsafe_meta_def)
qed

definition private_meta :: file_meta where
  "private_meta = \<lparr>me_mode = 0x8180, me_uid = 1000, me_device = 1, me_inode = 2, me_size = 2, me_modified = 3, me_changed = 3\<rparr>"

definition plain_moment :: peer_moment where
  "plain_moment = \<lparr>mo_first = small_table, mo_observed = small_table, mo_again = small_table, mo_chain = small_table,
     mo_uid = 1000, mo_info = (\<lambda>pid. Absent), mo_key = (\<lambda>x s k. None), mo_namespace = (\<lambda>pid. Some [49]),
     mo_directory = (\<lambda>path. None), mo_record = (\<lambda>path. Absent), mo_json = (\<lambda>x. None)\<rparr>"

definition plain_peer :: application_peer where
  "plain_peer = \<lparr>ap_process = \<lparr>rf_name = 1, rf_pid = 20, rf_started = 3, rf_open = True\<rparr>, ap_child = None, ap_runtime = [47],
     ap_package = None, ap_namespace = [49], ap_child_namespace = None\<rparr>"

lemma plain_asks: "flatpak_identity plain_moment pid = Inr None" "mo_namespace plain_moment pid = Some [49]"
  by (simp_all add: flatpak_identity_def read_regular_def plain_moment_def)

lemma walk_up_references: "walk_up a b c (t\<lparr>pt_references := refs\<rparr>) n pid seen = walk_up a b c t n pid seen"
  by (induction n arbitrary: pid seen) (simp_all add: root_alive_def Let_def split: option.split)

lemma owns_references: "owns a b c (t\<lparr>pt_references := refs\<rparr>) pid = owns a b c t pid"
  unfolding owns_def walk_up_references by (simp add: root_alive_def)

lemma plain_reference:
  "reference_ok plain_moment (small_tree\<lparr>pt_references := refs\<rparr>) \<lparr>rf_name = 1, rf_pid = 20, rf_started = 3, rf_open = True\<rparr>"
  using small_owns
  by (simp add: reference_ok_def reference_valid_def plain_moment_def owns_references started_of_def) (simp add: small_table_def)

lemma plain_valid: "peer_valid (\<lambda>i. plain_moment) (small_tree\<lparr>pt_references := refs\<rparr>) plain_peer"
  using plain_reference [of refs]
  by (simp add: peer_valid_def plain_asks plain_peer_def child_valid_def)

lemma plain_bind_peer:
  "bind_peer (\<lambda>i. plain_moment) (1, 2) 20 [47] small_tree = (Some plain_peer, small_tree\<lparr>pt_references := [1]\<rparr>)"
proof -
  have "admit_at plain_moment 1 20 small_tree =
      Some (\<lparr>rf_name = 1, rf_pid = 20, rf_started = 3, rf_open = True\<rparr>, small_tree\<lparr>pt_references := [1]\<rparr>)"
    using small_owns by (simp add: admit_at_def admit_def plain_moment_def small_tree_def observe_process_def small_table_def)
  then show ?thesis
    using plain_valid [of "[1]"] by (simp add: bind_peer_def build_peer_def plain_asks plain_peer_def)
qed

lemma peer_owns_its_references_witness:
  "peer_close plain_peer (small_tree\<lparr>pt_references := [1]\<rparr>) = small_tree"
  using peer_owns_its_references [OF plain_bind_peer] by (simp add: small_tree_def)

lemma matched_peers_share_owner_witness:
  "\<exists>a b c. owns a b c small_tree 20 \<and> started_of a 20 = Some 3"
proof -
  have "peer_valid (\<lambda>i. plain_moment) small_tree plain_peer" using plain_valid [of "[]"] by (simp add: small_tree_def)
  then have "peer_matches True (\<lambda>i. plain_moment) (\<lambda>i. plain_moment) small_tree plain_peer plain_peer"
    by (simp add: peer_matches_def same_process_def)
  from matched_peers_share_owner [OF this] show ?thesis by (simp add: plain_peer_def)
qed

lemma metadata_is_private_witness:
  "\<not> others_write (me_mode private_meta)"
proof -
  have "read_regular 1000 (Opens \<lparr>op_before = private_meta, op_content = [104, 105], op_after = private_meta\<rparr>) = Inr [104, 105]"
    by (simp add: read_regular_def unsafe_meta_def meta_changed_def private_meta_def MAX_METADATA_def regular_mode_def
        others_write_def utf8_decode.simps utf8_next_def)
  from metadata_is_private [OF this] show ?thesis by simp
qed

end
