(* ===== verification/Documents.thy ===== *)
theory Documents
  imports Peer
begin

section \<open>Document exports (desktop\_documents.py)\<close>

text \<open>
  An instance may export files to its sandbox through the host's document portal. \<open>DocumentAuthority\<close> says
  which processes may ask (the private file portal, and the launcher of the plan), and \<open>DocumentGrants\<close>
  which of their requests go on to the official portal and what its replies leave behind. Requests are
  compared by identity; here each has a number of its own. Every error is a \<open>ValueError\<close> or \<open>OSError\<close>
  that the bus service answers with one error, so \<open>None\<close> stands for all of them.
\<close>

definition MAX_DOCUMENTS :: nat where "MAX_DOCUMENTS = 4096"
definition MAX_PENDING :: nat where "MAX_PENDING = 32"
definition MAX_FILES :: nat where "MAX_FILES = 64"

subsection \<open>Who may export\<close>

datatype file_kind = Regular_file | Directory | Other_file

text \<open>\<open>file_identity\<close>: device and inode of an open descriptor, given as its kind and these.\<close>

type_synonym descriptor = "file_kind \<times> int \<times> int"

definition file_key :: "descriptor \<Rightarrow> (int \<times> int) option" where
  "file_key f = (if fst f = Other_file then None else Some (snd f))"

text \<open>\<open>executable_identity\<close>: the fields of \<open>stat\<close>, or nothing for what is not a regular file.\<close>

type_synonym executable = "int \<times> int \<times> int \<times> int \<times> int"

definition executable_identity :: "(file_kind \<times> executable) option \<Rightarrow> executable option" where
  "executable_identity answer =
     (case answer of Some (kind, e) \<Rightarrow> if kind = Regular_file then Some e else None | None \<Rightarrow> None)"

datatype caller_role = Portal_role | Launcher_role

record document_caller =
  dc_role :: caller_role
  dc_peer :: process_reference
  dc_owned :: bool
  dc_files :: "(int \<times> int) list"

record document_authority =
  da_portal :: "process_reference option"
  da_launcher :: "process_tree option"
  da_executable :: "executable option"
  da_initial :: "(int \<times> int) list"
  da_closed :: bool

definition new_document_authority :: document_authority where
  "new_document_authority = \<lparr>da_portal = None, da_launcher = None, da_executable = None, da_initial = [], da_closed = False\<rparr>"

definition bind_portal :: "bool \<Rightarrow> process_reference \<Rightarrow> document_authority \<Rightarrow> document_authority option" where
  "bind_portal alive peer s =
     (if da_closed s \<or> da_portal s \<noteq> None \<or> \<not> alive then None else Some (s\<lparr>da_portal := Some peer\<rparr>))"

text \<open>
  \<open>bind_launcher\<close>: a path is absolute or not, and opens as a descriptor or not. On an error the
  descriptors opened so far are closed and nothing is bound.
\<close>

primrec open_initial :: "(bool \<times> descriptor option) list \<Rightarrow> (int \<times> int) list option" where
  "open_initial [] = Some []"
| "open_initial (f # fs) =
     (case f of
        (True, Some d) \<Rightarrow>
          (case file_key d of None \<Rightarrow> None | Some key \<Rightarrow> map_option (Cons key) (open_initial fs))
      | _ \<Rightarrow> None)"

definition bind_launcher ::
  "process_tree \<Rightarrow> (file_kind \<times> executable) option \<Rightarrow> (bool \<times> descriptor option) list \<Rightarrow> document_authority \<Rightarrow>
     document_authority option" where
  "bind_launcher tree program files s =
     (if da_closed s \<or> da_launcher s \<noteq> None \<or> MAX_FILES < length files then None
      else
        case (executable_identity program, open_initial files) of
          (Some e, Some initial) \<Rightarrow> Some (s\<lparr>da_executable := Some e, da_initial := initial, da_launcher := Some tree\<rparr>)
        | _ \<Rightarrow> None)"

text \<open>
  \<open>admit\<close>: the credentials the bus gives, the host when the portal is checked, when the process is
  admitted and when it is checked again, and the program the process runs. The answer is the caller and
  the authority, whose tree holds the admitted reference.
\<close>

record caller_moment =
  cm_uid :: int
  cm_portal :: bool
  cm_admit :: peer_moment
  cm_program :: "(file_kind \<times> executable) option"
  cm_check :: peer_moment

definition admit_launcher ::
  "caller_moment \<Rightarrow> nat \<Rightarrow> int \<Rightarrow> process_tree \<Rightarrow> document_authority \<Rightarrow> document_caller option \<times> document_authority" where
  "admit_launcher m name pid tree s =
     (case admit_at (cm_admit m) name pid tree of
        None \<Rightarrow> (None, s)
      | Some (r, t) \<Rightarrow>
          if executable_identity (cm_program m) = None \<or> executable_identity (cm_program m) \<noteq> da_executable s \<or>
             \<not> reference_ok (cm_check m) t r
          then (None, s\<lparr>da_launcher := Some (snd (close_reference r t))\<rparr>)
          else (Some \<lparr>dc_role = Launcher_role, dc_peer = r, dc_owned = True, dc_files = da_initial s\<rparr>,
                s\<lparr>da_launcher := Some t\<rparr>))"

definition authority_admit ::
  "caller_moment \<Rightarrow> nat \<Rightarrow> int option \<Rightarrow> pyval \<Rightarrow> document_authority \<Rightarrow> document_caller option \<times> document_authority" where
  "authority_admit m name uid process s =
     (if da_closed s \<or> uid \<noteq> Some (cm_uid m) then (None, s)
      else
        case process of
          PInt pid \<Rightarrow>
            if pid \<le> 1 then (None, s)
            else
              (case da_portal s of
                 Some p \<Rightarrow>
                   if rf_pid p = pid \<and> cm_portal m
                   then (Some \<lparr>dc_role = Portal_role, dc_peer = p, dc_owned = False, dc_files = []\<rparr>, s)
                   else (case da_launcher s of None \<Rightarrow> (None, s) | Some tree \<Rightarrow> admit_launcher m name pid tree s)
               | None \<Rightarrow> (case da_launcher s of None \<Rightarrow> (None, s) | Some tree \<Rightarrow> admit_launcher m name pid tree s))
        | _ \<Rightarrow> (None, s))"

definition caller_close :: "document_caller \<Rightarrow> document_authority \<Rightarrow> document_authority" where
  "caller_close c s =
     (if dc_owned c then s\<lparr>da_launcher := map_option (\<lambda>t. snd (close_reference (dc_peer c) t)) (da_launcher s)\<rparr> else s)"

definition authority_close :: "document_authority \<Rightarrow> document_authority" where
  "authority_close s =
     (if da_closed s then s else s\<lparr>da_closed := True, da_initial := [], da_portal := None, da_launcher := None\<rparr>)"

subsection \<open>Requests\<close>

text \<open>
  The methods with their arguments, as the bus delivers them: a handle is an index into the descriptors
  of the message, a file name is its bytes, flags are an unsigned number.
\<close>

datatype document_call =
    Get_mount_point
  | Add int bool bool
  | Add_full "int list" nat pystr "pystr list"
  | Add_named int bytes bool bool
  | Add_named_full int bytes nat pystr "pystr list"
  | Grant_permissions pystr pystr "pystr list"
  | Revoke_permissions pystr pystr "pystr list"
  | Delete_document pystr
  | Document_info pystr
  | Other_method

record document_record =
  do_unique :: bool
  do_persistent :: bool

text \<open>Of the method, a request keeps what \<open>complete\<close> asks of it: whether it adds, and what it deletes.\<close>

record document_request =
  dr_adds :: bool
  dr_caller :: document_caller
  dr_count :: nat
  dr_unique :: bool
  dr_persistent :: bool
  dr_delete :: "pystr option"

record document_grants =
  dg_app :: pystr
  dg_documents :: "(pystr \<times> document_record) list"
  dg_pending :: "(nat \<times> document_request) list"
  dg_closed :: bool

definition new_grants :: "pystr \<Rightarrow> document_grants option" where
  "new_grants app =
     (if app_name app then Some \<lparr>dg_app = app, dg_documents = [], dg_pending = [], dg_closed = False\<rparr> else None)"

definition permission_names :: "pystr list" where
  "permission_names = map py [''read'', ''write'', ''grant-permissions'', ''delete'']"

definition permissions_ok :: "document_grants \<Rightarrow> pystr \<Rightarrow> pystr list \<Rightarrow> bool" where
  "permissions_ok g app ps \<longleftrightarrow> app = dg_app g \<and> length ps \<le> 4 \<and> distinct ps \<and> set ps \<subseteq> set permission_names"

definition own_document :: "document_grants \<Rightarrow> pystr \<Rightarrow> bool" where
  "own_document g doc \<longleftrightarrow> map_of (dg_documents g) doc \<noteq> None"

definition unique_document :: "document_grants \<Rightarrow> pystr \<Rightarrow> bool" where
  "unique_document g doc \<longleftrightarrow> map_option do_unique (map_of (dg_documents g) doc) = Some True"

primrec document_target_ok :: "document_grants \<Rightarrow> document_call \<Rightarrow> bool" where
  "document_target_ok g Get_mount_point = True"
| "document_target_ok g (Add h r p) = True"
| "document_target_ok g (Add_full hs f app ps) = permissions_ok g app ps"
| "document_target_ok g (Add_named h x r p) = True"
| "document_target_ok g (Add_named_full h x f app ps) = permissions_ok g app ps"
| "document_target_ok g (Grant_permissions doc app ps) = (own_document g doc \<and> permissions_ok g app ps)"
| "document_target_ok g (Revoke_permissions doc app ps) = (unique_document g doc \<and> permissions_ok g app ps)"
| "document_target_ok g (Delete_document doc) = unique_document g doc"
| "document_target_ok g (Document_info doc) = own_document g doc"
| "document_target_ok g Other_method = False"

text \<open>The handles, flags and file name of an export.\<close>

definition add_flags :: "bool \<Rightarrow> bool \<Rightarrow> nat" where
  "add_flags reuse persistent = (if reuse then 1 else 0) + (if persistent then 2 else 0)"

fun export_of :: "document_call \<Rightarrow> (int list \<times> nat \<times> bytes option) option" where
  "export_of (Add h r p) = Some ([h], add_flags r p, None)"
| "export_of (Add_full hs f app ps) = Some (hs, f, None)"
| "export_of (Add_named h x r p) = Some ([h], add_flags r p, Some x)"
| "export_of (Add_named_full h x f app ps) = Some ([h], f, Some x)"
| "export_of c = None"

definition save_name_ok :: "bytes \<Rightarrow> bool" where
  "save_name_ok x \<longleftrightarrow>
     x \<noteq> [] \<and> last x = 0 \<and> 0 \<notin> set (butlast x) \<and> 47 \<notin> set x \<and> butlast x \<notin> {[], [46], [46, 46]} \<and> length x \<le> 256"

definition descriptor_ok :: "document_caller \<Rightarrow> bool \<Rightarrow> descriptor \<Rightarrow> bool" where
  "descriptor_ok c named d =
     (case file_key d of
        None \<Rightarrow> False
      | Some key \<Rightarrow> (dc_role c = Launcher_role \<longrightarrow> key \<in> set (dc_files c)) \<and> (named \<longrightarrow> fst d = Directory))"

definition export_ok :: "document_caller \<Rightarrow> int list \<times> nat \<times> bytes option \<Rightarrow> descriptor list \<Rightarrow> bool" where
  "export_ok c e descriptors =
     (case e of (handles, flags, name) \<Rightarrow>
        flags < 16 \<and> 1 \<le> length handles \<and> length handles \<le> MAX_FILES \<and>
        set handles = int ` {0..<length descriptors} \<and> distinct handles \<and>
        (case name of None \<Rightarrow> True | Some x \<Rightarrow> save_name_ok x \<and> dc_role c \<noteq> Launcher_role) \<and>
        list_all (descriptor_ok c (name \<noteq> None)) descriptors)"

definition pending_count :: "document_grants \<Rightarrow> nat" where
  "pending_count g = sum_list (map (dr_count \<circ> snd) (dg_pending g))"

definition request_for :: "document_caller \<Rightarrow> document_call \<Rightarrow> document_request" where
  "request_for c call =
     (case export_of call of
        None \<Rightarrow> \<lparr>dr_adds = False, dr_caller = c, dr_count = 0, dr_unique = False, dr_persistent = False,
                 dr_delete = (case call of Delete_document doc \<Rightarrow> Some doc | _ \<Rightarrow> None)\<rparr>
      | Some (handles, flags, name) \<Rightarrow>
          \<lparr>dr_adds = True, dr_caller = c, dr_count = length handles, dr_unique = even flags,
           dr_persistent = odd (flags div 2), dr_delete = None\<rparr>)"

text \<open>\<open>admit\<close>, under the number of the new request; \<open>alive\<close> is \<open>caller.valid()\<close>.\<close>

definition grants_admit ::
  "nat \<Rightarrow> bool \<Rightarrow> document_caller \<Rightarrow> document_call \<Rightarrow> descriptor list \<Rightarrow> document_grants \<Rightarrow> document_grants option" where
  "grants_admit name alive c call descriptors g =
     (let r = request_for c call
      in if dg_closed g \<or> \<not> alive \<or> MAX_PENDING \<le> length (dg_pending g) \<or> MAX_FILES < length descriptors \<or>
            \<not> document_target_ok g call \<or>
            \<not> (case export_of call of None \<Rightarrow> descriptors = [] | Some e \<Rightarrow> export_ok c e descriptors) \<or>
            MAX_DOCUMENTS < length (dg_documents g) + pending_count g + dr_count r
         then None
         else Some (g\<lparr>dg_pending := dg_pending g @ [(name, r)]\<rparr>))"

definition document_id :: "pyval \<Rightarrow> bool" where
  "document_id v =
     (case v of
        PStr x \<Rightarrow> x = [] \<or> length x \<le> 128 \<and> list_all (\<lambda>k. 48 \<le> k \<and> k \<le> 57 \<or> 65 \<le> k \<and> k \<le> 90 \<or> 97 \<le> k \<and> k \<le> 122 \<or> k = 95 \<or> k = 45) x
      | _ \<Rightarrow> False)"

definition add_document :: "document_request \<Rightarrow> pyval \<Rightarrow> (pystr \<times> document_record) list \<Rightarrow> (pystr \<times> document_record) list" where
  "add_document r v docs =
     (case v of
        PStr x \<Rightarrow>
          if x = [] then docs
          else
            (let previous = map_of docs x
             in AList.update x \<lparr>do_unique = (dr_unique r \<and> previous = None),
                  do_persistent = (dr_persistent r \<or> (case previous of None \<Rightarrow> False | Some p \<Rightarrow> do_persistent p))\<rparr> docs)
      | _ \<Rightarrow> docs)"

text \<open>\<open>complete\<close>: whether it raised, and the grants. The reply of an export is its list of identifiers.\<close>

definition grants_complete :: "nat \<Rightarrow> pyval list \<Rightarrow> document_grants \<Rightarrow> bool \<times> document_grants" where
  "grants_complete name reply g =
     (case map_of (dg_pending g) name of
        None \<Rightarrow> (True, g)
      | Some r \<Rightarrow>
          let g1 = g\<lparr>dg_pending := AList.delete name (dg_pending g)\<rparr>;
              g2 = (case dr_delete r of None \<Rightarrow> g1 | Some doc \<Rightarrow> g1\<lparr>dg_documents := AList.delete doc (dg_documents g1)\<rparr>)
          in if \<not> dr_adds r then (False, g2)
             else if length reply \<noteq> dr_count r \<or> \<not> list_all document_id reply then (True, g2)
             else (False, g2\<lparr>dg_documents := fold (add_document r) reply (dg_documents g2)\<rparr>))"

definition grants_failed :: "nat \<Rightarrow> document_grants \<Rightarrow> document_grants" where
  "grants_failed name g = g\<lparr>dg_pending := AList.delete name (dg_pending g)\<rparr>"

definition grants_close :: "document_grants \<Rightarrow> document_grants" where
  "grants_close g = g\<lparr>dg_closed := True, dg_pending := [], dg_documents := []\<rparr>"

subsection \<open>Runs\<close>

text \<open>The events of one instance in order; a request has the number of the event that admitted it.\<close>

datatype document_event =
    Asks bool document_caller document_call "descriptor list"
  | Answers nat "pyval list"
  | Fails_request nat
  | Closes_grants

definition grants_step :: "document_event \<Rightarrow> nat \<times> document_grants \<Rightarrow> nat \<times> document_grants" where
  "grants_step ev = (\<lambda>(n, g). (Suc n,
     (case ev of
        Asks alive c call ds \<Rightarrow> (case grants_admit n alive c call ds g of None \<Rightarrow> g | Some u \<Rightarrow> u)
      | Answers m reply \<Rightarrow> snd (grants_complete m reply g)
      | Fails_request m \<Rightarrow> grants_failed m g
      | Closes_grants \<Rightarrow> grants_close g)))"

definition grants_after :: "document_grants \<Rightarrow> document_event list \<Rightarrow> document_grants" where
  "grants_after g h = snd (fold grants_step h (0, g))"

lemma grants_count: "fst (fold grants_step h (n, g)) = n + length h"
  by (induction h arbitrary: n g) (simp_all add: grants_step_def split: prod.split)

lemma grants_after_snoc: "grants_after g (h @ [ev]) = snd (grants_step ev (length h, grants_after g h))"
proof -
  obtain n u where f: "fold grants_step h (0, g) = (n, u)" by (metis surj_pair)
  then have "n = length h" using grants_count [of h 0 g] by simp
  with f show ?thesis by (simp add: grants_after_def)
qed

definition request_ok :: "document_request \<Rightarrow> bool" where
  "request_ok r \<longleftrightarrow> (dr_adds r \<longrightarrow> dr_delete r = None)"

definition grants_ok :: "nat \<Rightarrow> document_grants \<Rightarrow> bool" where
  "grants_ok n g \<longleftrightarrow>
     distinct (map fst (dg_pending g)) \<and> (\<forall>(m, r) \<in> set (dg_pending g). m < n \<and> request_ok r) \<and>
     distinct (map fst (dg_documents g)) \<and> length (dg_pending g) \<le> MAX_PENDING \<and>
     length (dg_documents g) + pending_count g \<le> MAX_DOCUMENTS"

lemma request_for_ok: "request_ok (request_for c call)"
  by (simp add: request_ok_def request_for_def split: option.split)

lemma delete_filter: "AList.delete k xs = filter (\<lambda>x. fst x \<noteq> k) xs"
  by (auto simp: AList.delete_eq intro!: filter_cong)

lemma pending_delete:
  assumes "distinct (map fst ps)" "map_of ps name = Some r"
  shows "sum_list (map (dr_count \<circ> snd) ps) = dr_count r + sum_list (map (dr_count \<circ> snd) (AList.delete name ps))"
  using assms
proof (induction ps)
  case (Cons x ps)
  show ?case
  proof (cases "fst x = name")
    case True
    with Cons.prems(1) have "name \<notin> fst ` set ps" by simp
    then have "\<forall>y \<in> set ps. fst y \<noteq> name" by blast
    then have "AList.delete name ps = ps" by (simp add: delete_filter)
    with True Cons.prems show ?thesis by (cases x) simp
  next
    case False
    with Cons show ?thesis by (cases x) (simp add: delete_filter)
  qed
qed simp

lemma pending_delete_le: "sum_list (map f (AList.delete name ps)) \<le> (sum_list (map f ps) :: nat)"
  by (induction ps) (auto simp: delete_filter)

lemma length_delete: "length (AList.delete k xs) \<le> length xs"
  by (simp add: delete_filter)

lemma length_update_le: "length (AList.update k v xs) \<le> Suc (length xs)"
  by (induction xs) auto

lemma add_document_length: "length (fold (add_document r) vs docs) \<le> length docs + length vs"
proof (induction vs arbitrary: docs)
  case (Cons v vs)
  have "length (add_document r v docs) \<le> Suc (length docs)"
    by (simp add: add_document_def Let_def length_update_le split: pyval.split)
  with Cons [of "add_document r v docs"] show ?case by simp
qed simp

lemma add_document_distinct: "distinct (map fst docs) \<Longrightarrow> distinct (map fst (fold (add_document r) vs docs))"
  by (induction vs arbitrary: docs) (simp_all add: add_document_def Let_def distinct_update split: pyval.split)

text \<open>What a reply makes unique was not in the table before.\<close>

lemma add_document_other:
  "map_of docs x \<noteq> None \<Longrightarrow> \<not> do_unique (the (map_of docs x)) \<Longrightarrow>
     map_of (fold (add_document r) vs docs) x \<noteq> None \<and> \<not> do_unique (the (map_of (fold (add_document r) vs docs) x))"
proof (induction vs arbitrary: docs)
  case (Cons v vs)
  have "map_of (add_document r v docs) x \<noteq> None \<and> \<not> do_unique (the (map_of (add_document r v docs) x))"
    using Cons.prems by (auto simp: add_document_def Let_def update_conv' split: pyval.split)
  with Cons.IH [of "add_document r v docs"] show ?case by simp
qed simp

lemma add_document_unique:
  assumes "map_of (fold (add_document r) vs docs) x = Some d" "do_unique d"
  shows "map_of docs x = Some d \<or> map_of docs x = None \<and> PStr x \<in> set vs \<and> dr_unique r"
  using assms(1)
proof (induction vs arbitrary: docs)
  case (Cons v vs)
  let ?docs = "add_document r v docs"
  show ?case
  proof (cases "v = PStr x \<and> x \<noteq> []")
    case True
    then have new: "map_of ?docs x = Some \<lparr>do_unique = (dr_unique r \<and> map_of docs x = None),
        do_persistent = (dr_persistent r \<or> (case map_of docs x of None \<Rightarrow> False | Some p \<Rightarrow> do_persistent p))\<rparr>"
      by (simp add: add_document_def Let_def update_conv')
    have "dr_unique r \<and> map_of docs x = None"
      using add_document_other [of ?docs x r vs] new Cons.prems assms(2) by (cases "dr_unique r \<and> map_of docs x = None") auto
    with True show ?thesis by simp
  next
    case False
    then have "map_of ?docs x = map_of docs x" by (auto simp: add_document_def Let_def update_conv' split: pyval.split)
    with Cons.IH [of ?docs] Cons.prems show ?thesis by auto
  qed
qed simp

lemma grants_ok_step:
  assumes "grants_ok n g"
  shows "grants_ok (Suc n) (snd (grants_step ev (n, g)))"
proof (cases ev)
  case (Asks alive c call ds)
  show ?thesis
  proof (cases "grants_admit n alive c call ds g")
    case None
    with assms Asks show ?thesis by (auto simp: grants_step_def grants_ok_def)
  next
    case (Some u)
    then have u: "u = g\<lparr>dg_pending := dg_pending g @ [(n, request_for c call)]\<rparr>" "length (dg_pending g) < MAX_PENDING"
      "length (dg_documents g) + pending_count g + dr_count (request_for c call) \<le> MAX_DOCUMENTS"
      by (auto simp: grants_admit_def Let_def split: if_splits)
    with assms Asks Some request_for_ok [of c call] show ?thesis by (auto simp: grants_step_def grants_ok_def pending_count_def)
  qed
next
  case (Answers m reply)
  show ?thesis
  proof (cases "map_of (dg_pending g) m")
    case None
    with assms Answers show ?thesis by (auto simp: grants_step_def grants_ok_def grants_complete_def)
  next
    case (Some r)
    let ?ps = "AList.delete m (dg_pending g)"
    define docs where "docs = (case dr_delete r of None \<Rightarrow> dg_documents g | Some doc \<Rightarrow> AList.delete doc (dg_documents g))"
    define after where "after = (if dr_adds r \<and> length reply = dr_count r \<and> list_all document_id reply
      then fold (add_document r) reply docs else docs)"
    have u: "snd (grants_step ev (n, g)) = g\<lparr>dg_pending := ?ps, dg_documents := after\<rparr>"
      using Answers Some by (auto simp: grants_step_def grants_complete_def Let_def docs_def after_def split: option.split)
    have d: "distinct (map fst docs)" "length docs \<le> length (dg_documents g)"
      using assms by (auto simp: docs_def grants_ok_def distinct_delete length_delete split: option.split)
    have "length after \<le> length docs + dr_count r" using add_document_length [of r reply docs] by (auto simp: after_def)
    moreover have "pending_count g = dr_count r + sum_list (map (dr_count \<circ> snd) ?ps)"
      using pending_delete [OF _ Some] assms by (simp add: pending_count_def grants_ok_def)
    ultimately have "length after + sum_list (map (dr_count \<circ> snd) ?ps) \<le> MAX_DOCUMENTS" using assms d by (simp add: grants_ok_def)
    moreover have "distinct (map fst after)" using d add_document_distinct by (simp add: after_def)
    moreover have "length ?ps \<le> MAX_PENDING" "distinct (map fst ?ps)"
      using assms length_delete [of m "dg_pending g"] by (auto simp: grants_ok_def distinct_delete)
    moreover have "\<forall>(m, r) \<in> set ?ps. m < Suc n \<and> request_ok r" using assms by (auto simp: grants_ok_def delete_filter)
    ultimately show ?thesis unfolding u by (simp add: grants_ok_def pending_count_def)
  qed
next
  case (Fails_request m)
  let ?ps = "AList.delete m (dg_pending g)"
  have "length ?ps \<le> MAX_PENDING" "distinct (map fst ?ps)"
    "length (dg_documents g) + sum_list (map (dr_count \<circ> snd) ?ps) \<le> MAX_DOCUMENTS"
    using assms length_delete [of m "dg_pending g"] pending_delete_le [of "dr_count \<circ> snd" m "dg_pending g"]
    by (auto simp: grants_ok_def distinct_delete pending_count_def)
  moreover have "\<forall>(m, r) \<in> set ?ps. m < Suc n \<and> request_ok r" using assms by (auto simp: grants_ok_def delete_filter)
  ultimately show ?thesis using assms Fails_request
    by (simp add: grants_step_def grants_failed_def grants_ok_def pending_count_def)
qed (auto simp: grants_step_def grants_close_def grants_ok_def pending_count_def)

lemma grants_ok_new: "new_grants app = Some g \<Longrightarrow> grants_ok 0 g"
  by (auto simp: new_grants_def grants_ok_def pending_count_def MAX_DOCUMENTS_def split: if_splits)

lemma grants_ok_after: "grants_ok 0 g \<Longrightarrow> grants_ok (length h) (grants_after g h)"
proof (induction h rule: rev_induct)
  case (snoc ev h)
  then show ?case using grants_ok_step [of "length h" "grants_after g h" ev] by (simp add: grants_after_snoc)
qed (simp add: grants_after_def)

subsection \<open>Properties\<close>

lemma unique_from:
  assumes "grants_ok n g" "map_of (dg_documents (snd (grants_step ev (n, g)))) doc = Some d" "do_unique d"
  shows "map_of (dg_documents g) doc = Some d \<or>
    (\<exists>m ids r. ev = Answers m ids \<and> map_of (dg_pending g) m = Some r \<and> dr_adds r \<and> dr_unique r \<and> PStr doc \<in> set ids \<and>
       map_of (dg_documents g) doc = None)"
proof (cases ev)
  case (Asks alive c call ds)
  show ?thesis using assms(2) Asks
    by (cases "grants_admit n alive c call ds g") (auto simp: grants_step_def grants_admit_def Let_def split: if_splits)
next
  case (Answers m reply)
  show ?thesis
  proof (cases "map_of (dg_pending g) m")
    case None
    with assms(2) Answers show ?thesis by (simp add: grants_step_def grants_complete_def)
  next
    case (Some r)
    then have ok: "request_ok r" using assms(1) by (auto simp: grants_ok_def dest: map_of_SomeD)
    show ?thesis
    proof (cases "dr_adds r \<and> length reply = dr_count r \<and> list_all document_id reply")
      case True
      then have "map_of (fold (add_document r) reply (dg_documents g)) doc = Some d"
        using assms(2) Answers Some ok by (simp add: grants_step_def grants_complete_def Let_def request_ok_def)
      from add_document_unique [OF this assms(3)] True Some Answers show ?thesis by auto
    next
      case False
      then have "map_of (case dr_delete r of None \<Rightarrow> dg_documents g | Some x \<Rightarrow> AList.delete x (dg_documents g)) doc = Some d"
        using assms(2) Answers Some by (auto simp: grants_step_def grants_complete_def Let_def split: option.splits if_splits)
      then show ?thesis by (auto simp: delete_conv' split: option.splits if_splits)
    qed
  qed
qed (use assms(2) in \<open>simp_all add: grants_step_def grants_failed_def grants_close_def\<close>)

definition exported :: "document_grants \<Rightarrow> document_event list \<Rightarrow> pystr \<Rightarrow> bool" where
  "exported g h doc \<longleftrightarrow>
     (\<exists>h1 m ids h2 r. h = h1 @ Answers m ids # h2 \<and> map_of (dg_pending (grants_after g h1)) m = Some r \<and> dr_adds r \<and>
        dr_unique r \<and> PStr doc \<in> set ids \<and> map_of (dg_documents (grants_after g h1)) doc = None)"

lemma unique_exported:
  assumes "grants_ok 0 g" "dg_documents g = []" "map_of (dg_documents (grants_after g h)) doc = Some d" "do_unique d"
  shows "exported g h doc"
  using assms(3)
proof (induction h rule: rev_induct)
  case Nil
  with assms(2) show ?case by (simp add: grants_after_def)
next
  case (snoc ev h)
  from unique_from [OF grants_ok_after [OF assms(1), of h] snoc.prems [unfolded grants_after_snoc] assms(4)]
  show ?case
  proof
    assume "map_of (dg_documents (grants_after g h)) doc = Some d"
    from snoc.IH [OF this] obtain h1 m ids h2 r where e: "h = h1 @ Answers m ids # h2"
      "map_of (dg_pending (grants_after g h1)) m = Some r" "dr_adds r" "dr_unique r" "PStr doc \<in> set ids"
      "map_of (dg_documents (grants_after g h1)) doc = None" unfolding exported_def by blast
    then have "h @ [ev] = h1 @ Answers m ids # (h2 @ [ev])" by simp
    with e show ?case unfolding exported_def by blast
  next
    assume "\<exists>m ids r. ev = Answers m ids \<and> map_of (dg_pending (grants_after g h)) m = Some r \<and> dr_adds r \<and> dr_unique r \<and>
      PStr doc \<in> set ids \<and> map_of (dg_documents (grants_after g h)) doc = None"
    then show ?case unfolding exported_def by blast
  qed
qed

text \<open>C26: An instance deletes a document, or takes back its permissions, only if the document is its own export:
  at some point a reply to a pending request of its own, which asked not to reuse an existing document,
  returned the identifier when the instance did not have it yet.\<close>
theorem deletion_needs_own_export:
  assumes "new_grants app = Some g" "grants_admit n alive c call ds (grants_after g h) = Some u"
    and "call = Delete_document doc \<or> (\<exists>a ps. call = Revoke_permissions doc a ps)"
  shows "\<exists>h1 m ids h2 r. h = h1 @ Answers m ids # h2 \<and> map_of (dg_pending (grants_after g h1)) m = Some r \<and> dr_adds r \<and>
    dr_unique r \<and> PStr doc \<in> set ids \<and> map_of (dg_documents (grants_after g h1)) doc = None"
proof -
  have "unique_document (grants_after g h) doc"
    using assms(2,3) by (auto simp: grants_admit_def Let_def split: if_splits)
  then obtain d where "map_of (dg_documents (grants_after g h)) doc = Some d" "do_unique d" by (auto simp: unique_document_def)
  moreover have "dg_documents g = []" using assms(1) by (auto simp: new_grants_def split: if_splits)
  ultimately have "exported g h doc" using unique_exported grants_ok_new [OF assms(1)] by blast
  then show ?thesis by (simp add: exported_def)
qed

text \<open>The exports of an instance are bounded over every sequence of requests, replies and failures: its
  documents, with those its pending requests may still add, are at most 4096, and at most 32 requests are
  pending.\<close>
theorem grants_bounded:
  assumes "new_grants app = Some g"
  shows "length (dg_documents (grants_after g h)) + pending_count (grants_after g h) \<le> 4096 \<and>
    length (dg_pending (grants_after g h)) \<le> 32 \<and> distinct (map fst (dg_documents (grants_after g h)))"
  using grants_ok_after [OF grants_ok_new [OF assms], of h] by (simp add: grants_ok_def MAX_DOCUMENTS_def MAX_PENDING_def)

text \<open>C27: The launcher exports nothing but what it was started with: a caller admitted in its role is a living
  descendant of the launch supervisor that runs the planned executable, and whatever export it is then
  granted names only descriptors of the files bound at launch and no new file name.\<close>
theorem launcher_exports_launch_files:
  assumes "authority_admit m name uid process s = (Some c, s')" "dc_role c = Launcher_role"
    and "grants_admit n alive c call ds g = Some u"
  shows "(\<exists>tree a b e. da_launcher s = Some tree \<and> owns a b e (the (da_launcher s')) (rf_pid (dc_peer c)) \<and>
      process = PInt (rf_pid (dc_peer c)) \<and> da_executable s \<noteq> None \<and> executable_identity (cm_program m) = da_executable s) \<and>
    (\<forall>d \<in> set ds. \<exists>key. file_key d = Some key \<and> key \<in> set (da_initial s)) \<and>
    (\<forall>e. export_of call = Some e \<longrightarrow> snd (snd e) = None)"
proof -
  obtain pid tree where l: "process = PInt pid" "da_launcher s = Some tree" "admit_launcher m name pid tree s = (Some c, s')"
    using assms(1,2) by (auto simp: authority_admit_def split: pyval.splits option.splits if_splits)
  then obtain r t where r: "admit_at (cm_admit m) name pid tree = Some (r, t)" "reference_ok (cm_check m) t r"
    "c = \<lparr>dc_role = Launcher_role, dc_peer = r, dc_owned = True, dc_files = da_initial s\<rparr>" "da_launcher s' = Some t"
    "executable_identity (cm_program m) = da_executable s" "da_executable s \<noteq> None"
    by (auto simp: admit_launcher_def split: option.splits prod.splits if_splits)
  then have p: "rf_pid r = pid" by (auto simp: admit_at_def admit_def split: option.splits if_splits)
  from r(2) obtain a b e where "owns a b e t pid" using p by (auto simp: reference_ok_def reference_valid_def)
  with r l p have caller: "\<exists>tree a b e. da_launcher s = Some tree \<and> owns a b e (the (da_launcher s')) (rf_pid (dc_peer c)) \<and>
      process = PInt (rf_pid (dc_peer c)) \<and> da_executable s \<noteq> None \<and> executable_identity (cm_program m) = da_executable s" by auto
  have ok: "case export_of call of None \<Rightarrow> ds = [] | Some e \<Rightarrow> export_ok c e ds"
    using assms(3) by (auto simp: grants_admit_def Let_def split: if_splits)
  have "(\<forall>d \<in> set ds. \<exists>key. file_key d = Some key \<and> key \<in> set (da_initial s)) \<and> (\<forall>e. export_of call = Some e \<longrightarrow> snd (snd e) = None)"
  proof (cases "export_of call")
    case None
    with ok show ?thesis by simp
  next
    case (Some e)
    obtain handles flags x where e: "e = (handles, flags, x)" by (metis prod_cases3)
    have "x = None" "list_all (descriptor_ok c False) ds" using ok Some e r(3) by (auto simp: export_ok_def split: option.splits)
    then show ?thesis using Some e r(3) by (auto simp: list_all_iff descriptor_ok_def split: option.splits)
  qed
  with caller show ?thesis by blast
qed

definition sample_app :: pystr where "sample_app = py ''org.example.App''"

definition sample_grants :: document_grants where
  "sample_grants = \<lparr>dg_app = sample_app, dg_documents = [], dg_pending = [], dg_closed = False\<rparr>"

definition portal_caller :: document_caller where
  "portal_caller = \<lparr>dc_role = Portal_role, dc_peer = \<lparr>rf_name = 1, rf_pid = 20, rf_started = 3, rf_open = True\<rparr>, dc_owned = False, dc_files = []\<rparr>"

lemma sample_grants_new: "new_grants sample_app = Some sample_grants"
proof -
  have "app_name sample_app" by code_simp
  then show ?thesis by (simp add: new_grants_def sample_grants_def)
qed

definition sample_history :: "document_event list" where
  "sample_history = [Asks True portal_caller (Add 0 False False) [(Regular_file, 1, 2)], Answers 0 [PStr [97]]]"

lemma sample_export:
  "export_ok portal_caller ([0], 0, None) [(Regular_file, 1, 2)]"
  by (auto simp: export_ok_def MAX_FILES_def descriptor_ok_def file_key_def portal_caller_def)

lemma sample_after:
  "grants_after sample_grants sample_history = sample_grants\<lparr>dg_documents := [([97], \<lparr>do_unique = True, do_persistent = False\<rparr>)]\<rparr>"
  using sample_export
  by (simp add: sample_history_def grants_after_def grants_step_def grants_admit_def sample_grants_def MAX_PENDING_def MAX_FILES_def
      MAX_DOCUMENTS_def pending_count_def request_for_def add_flags_def grants_complete_def document_id_def add_document_def Let_def)

lemma deletion_needs_own_export_witness:
  "\<exists>h1 m ids h2. sample_history = h1 @ Answers m ids # h2 \<and> PStr [97] \<in> set ids"
proof -
  have "\<exists>u. grants_admit 2 True portal_caller (Delete_document [97]) [] (grants_after sample_grants sample_history) = Some u"
    unfolding sample_after by (simp add: grants_admit_def sample_grants_def unique_document_def MAX_PENDING_def MAX_FILES_def MAX_DOCUMENTS_def
        pending_count_def request_for_def Let_def)
  then obtain u where u: "grants_admit 2 True portal_caller (Delete_document [97]) [] (grants_after sample_grants sample_history) = Some u" ..
  from deletion_needs_own_export [OF sample_grants_new u] show ?thesis by blast
qed

lemma grants_bounded_witness:
  "length (dg_documents (grants_after sample_grants sample_history)) \<le> 4096"
  using grants_bounded [OF sample_grants_new, of sample_history] by simp

definition launched_authority :: document_authority where
  "launched_authority = \<lparr>da_portal = None, da_launcher = Some small_tree, da_executable = Some (1, 2, 3, 4, 5), da_initial = [(1, 2)],
     da_closed = False\<rparr>"

definition launcher_moment :: caller_moment where
  "launcher_moment = \<lparr>cm_uid = 1000, cm_portal = False, cm_admit = plain_moment, cm_program = Some (Regular_file, 1, 2, 3, 4, 5),
     cm_check = plain_moment\<rparr>"

lemma launcher_exports_launch_files_witness:
  "(1, 2) \<in> set (da_initial launched_authority)"
proof -
  let ?c = "\<lparr>dc_role = Launcher_role, dc_peer = \<lparr>rf_name = 1, rf_pid = 20, rf_started = 3, rf_open = True\<rparr>, dc_owned = True, dc_files = [(1, 2)]\<rparr>"
  have a: "admit_at plain_moment 1 20 small_tree =
      Some (\<lparr>rf_name = 1, rf_pid = 20, rf_started = 3, rf_open = True\<rparr>, small_tree\<lparr>pt_references := [1]\<rparr>)"
    using small_owns by (simp add: admit_at_def admit_def plain_moment_def small_tree_def observe_process_def small_table_def)
  have c: "authority_admit launcher_moment 1 (Some 1000) (PInt 20) launched_authority =
      (Some ?c, launched_authority\<lparr>da_launcher := Some (small_tree\<lparr>pt_references := [1]\<rparr>)\<rparr>)"
    using a plain_reference [of "[1]"]
    by (simp add: authority_admit_def launched_authority_def launcher_moment_def admit_launcher_def executable_identity_def)
  have "export_ok ?c ([0], 0, None) [(Regular_file, 1, 2)]"
    by (auto simp: export_ok_def MAX_FILES_def descriptor_ok_def file_key_def)
  then have "\<exists>u. grants_admit 0 True ?c (Add 0 False False) [(Regular_file, 1, 2)] sample_grants = Some u"
    by (simp add: grants_admit_def sample_grants_def MAX_PENDING_def MAX_FILES_def MAX_DOCUMENTS_def pending_count_def request_for_def
        add_flags_def Let_def)
  then obtain u where u: "grants_admit 0 True ?c (Add 0 False False) [(Regular_file, 1, 2)] sample_grants = Some u" ..
  from launcher_exports_launch_files [OF c _ u] show ?thesis by (simp add: file_key_def)
qed

end
