(* ===== verification/Grant.thy ===== *)
theory Grant
  imports Contract Utf8 Json
begin

section \<open>The saved permission of the desktop portal (host\_desktop\_portal.py, PortalGrant)\<close>

text \<open>
  The portal hands out a token that restores a permission once. \<open>PortalGrant\<close> keeps it in a file of the
  helper's state directory and rotates it: a token is marked as used on disk before it is handed to the
  portal. The file is its bytes with what \<open>fstat\<close> says of it, read and written with the JSON of theory
  \<open>Json\<close>; opening it, the two lock files and the replacement of the file are the system's, so their
  outcomes are arguments. A replacement can fail before or after the new file is in place. The text
  encodings other than UTF-8 that \<open>json.load\<close> recognises are the argument \<open>wide\<close>.
\<close>

subsection \<open>Reading the file\<close>

record file_mode =
  fm_kind :: bool
  fm_own :: bool
  fm_private :: bool

definition private_file :: "file_mode \<Rightarrow> bool" where
  "private_file m \<longleftrightarrow> fm_kind m \<and> fm_own m \<and> fm_private m"

datatype grant_file = No_file | Unopenable | Grant_file file_mode bytes

datatype grant_state = Saved | Needs_consent | Unknown | Revoked

record grant =
  gr_state :: grant_state
  gr_token :: pystr
  gr_candidate :: pystr

definition grant_states :: "(string \<times> grant_state) list" where
  "grant_states = [(''saved'', Saved), (''needs_consent'', Needs_consent), (''unknown'', Unknown), (''revoked'', Revoked)]"

definition state_of :: "pyval \<Rightarrow> grant_state option" where
  "state_of v = map_of (map (\<lambda>(n, st). (PStr (py n), st)) grant_states) v"

definition valid_token :: "pyval \<Rightarrow> bool" where
  "valid_token v = text_value v 8192"

definition token_text :: "pyval \<Rightarrow> pystr" where
  "token_text v = (case v of PStr s \<Rightarrow> s | _ \<Rightarrow> [])"

definition no_grant :: grant where
  "no_grant = \<lparr>gr_state = Needs_consent, gr_token = [], gr_candidate = []\<rparr>"

abbreviation RESTORE_TOKEN_INVALID :: code where
  "RESTORE_TOKEN_INVALID \<equiv> Host_code ''RESTORE_TOKEN_INVALID''"
abbreviation RESTORE_TOKEN_STORAGE_FAILED :: code where
  "RESTORE_TOKEN_STORAGE_FAILED \<equiv> Host_code ''RESTORE_TOKEN_STORAGE_FAILED''"
abbreviation STATE_DIRECTORY_INVALID :: code where
  "STATE_DIRECTORY_INVALID \<equiv> Host_code ''STATE_DIRECTORY_INVALID''"
abbreviation AUTHORIZATION_PENDING :: code where
  "AUTHORIZATION_PENDING \<equiv> Host_code ''AUTHORIZATION_PENDING''"

text \<open>The constructor wants a private directory; an \<open>OSError\<close> of \<open>lstat\<close> passes through it.\<close>

definition grant_directory :: "file_mode \<Rightarrow> code + unit" where
  "grant_directory m = (if private_file m then Inr () else Inl STATE_DIRECTORY_INVALID)"

text \<open>The decoded record: version 1 had a token only.\<close>

definition grant_of :: "pyval \<Rightarrow> grant option" where
  "grant_of v =
     (case v of
        PDict d \<Rightarrow>
          (case dict_get d ''version'' of
             PInt n \<Rightarrow>
               if \<not> valid_token (dict_get d ''token'') then None
               else let token = token_text (dict_get d ''token'')
                    in if n = 1 \<and> set (map fst d) = {py ''version'', py ''token''} then
                         Some \<lparr>gr_state = (if token \<noteq> [] then Saved else Needs_consent), gr_token = token, gr_candidate = []\<rparr>
                       else if n \<noteq> 2 \<or> set (map fst d) \<noteq> {py ''version'', py ''state'', py ''token'', py ''candidate''} then None
                       else
                         (case state_of (dict_get d ''state'') of
                            None \<Rightarrow> None
                          | Some st \<Rightarrow>
                              if \<not> valid_token (dict_get d ''candidate'') then None
                              else let candidate = token_text (dict_get d ''candidate'')
                                   in if st = Saved \<and> (token = [] \<or> candidate \<noteq> []) \<or>
                                         st \<in> {Needs_consent, Revoked} \<and> (token \<noteq> [] \<or> candidate \<noteq> []) then None
                                      else Some \<lparr>gr_state = st, gr_token = token, gr_candidate = candidate\<rparr>)
           | _ \<Rightarrow> None)
      | _ \<Rightarrow> None)"

text \<open>\<open>json.load\<close> of a binary file first looks for another encoding than UTF-8.\<close>

definition wide_text :: "bytes \<Rightarrow> bool" where
  "wide_text b \<longleftrightarrow> take 2 b \<in> {[0xFE, 0xFF], [0xFF, 0xFE]} \<or> take 3 b = [0xEF, 0xBB, 0xBF] \<or>
     (2 \<le> length b \<and> length b \<noteq> 3 \<and> (b ! 0 = 0 \<or> b ! 1 = 0))"

definition load_json :: "(bytes \<Rightarrow> pystr option) \<Rightarrow> bytes \<Rightarrow> pyval option" where
  "load_json wide b = Option.bind (if wide_text b then wide b else utf8_decode b) json_loads"

definition read_grant :: "(bytes \<Rightarrow> pystr option) \<Rightarrow> grant_file \<Rightarrow> code + grant" where
  "read_grant wide file =
     (case file of
        No_file \<Rightarrow> Inr no_grant
      | Unopenable \<Rightarrow> Inl RESTORE_TOKEN_INVALID
      | Grant_file m b \<Rightarrow>
          if \<not> private_file m \<or> length b > 32768 then Inl RESTORE_TOKEN_INVALID
          else (case Option.bind (load_json wide b) grant_of of None \<Rightarrow> Inl RESTORE_TOKEN_INVALID | Some g \<Rightarrow> Inr g))"

subsection \<open>Writing it\<close>

text \<open>\<open>json.dump\<close> with its default separators.\<close>

fun spaced_members :: "(pystr \<times> pyval) list \<Rightarrow> pystr" where
  "spaced_members [] = [125]"
| "spaced_members ((k, v) # ms) =
     json_string False k @ 58 # 32 # json_value (\<lambda>_. []) False v @ (if ms = [] then [125] else 44 # 32 # spaced_members ms)"

definition state_name :: "grant_state \<Rightarrow> string" where
  "state_name st = (case st of Saved \<Rightarrow> ''saved'' | Needs_consent \<Rightarrow> ''needs_consent'' | Unknown \<Rightarrow> ''unknown'' | Revoked \<Rightarrow> ''revoked'')"

definition grant_fields :: "grant \<Rightarrow> (pystr \<times> pyval) list" where
  "grant_fields g = [(py ''version'', PInt 2), (py ''state'', PStr (py (state_name (gr_state g)))),
     (py ''token'', PStr (gr_token g)), (py ''candidate'', PStr (gr_candidate g))]"

definition grant_text :: "grant \<Rightarrow> pystr" where
  "grant_text g = 123 # spaced_members (grant_fields g)"

text \<open>The replacement of the file: done, failed before it, or failed after it (the directory's \<open>fsync\<close>).\<close>

datatype store = Stored | Store_failed | Stored_unsynced

definition save_grant :: "store \<Rightarrow> grant \<Rightarrow> grant_file \<Rightarrow> bool \<times> grant_file" where
  "save_grant st g file =
     (case utf8_encode (grant_text g) of
        None \<Rightarrow> (False, file)
      | Some b \<Rightarrow>
          let new = Grant_file \<lparr>fm_kind = True, fm_own = True, fm_private = True\<rparr> b
          in (case st of Stored \<Rightarrow> (True, new) | Store_failed \<Rightarrow> (False, file) | Stored_unsynced \<Rightarrow> (False, new)))"

subsection \<open>Operations\<close>

text \<open>
  \<open>portal-grant.lock\<close>: held, not to be opened or not private, or any other \<open>OSError\<close> before the file
  of the permission is changed.
\<close>

datatype lock_answer = Lock_held | Lock_refused | Lock_failed

definition lock_error :: "lock_answer \<Rightarrow> code" where
  "lock_error lock = (if lock = Lock_refused then STATE_DIRECTORY_INVALID else RESTORE_TOKEN_STORAGE_FAILED)"

definition inspect_grant :: "(bytes \<Rightarrow> pystr option) \<Rightarrow> lock_answer \<Rightarrow> grant_file \<Rightarrow> code + grant_state" where
  "inspect_grant wide lock file =
     (if lock \<noteq> Lock_held then Inl (lock_error lock) else map_sum id gr_state (read_grant wide file))"

definition begin_restore :: "(bytes \<Rightarrow> pystr option) \<Rightarrow> lock_answer \<Rightarrow> store \<Rightarrow> grant_file \<Rightarrow> (code + pystr option) \<times> grant_file" where
  "begin_restore wide lock st file =
     (if lock \<noteq> Lock_held then (Inl (lock_error lock), file)
      else
        (case read_grant wide file of
           Inl e \<Rightarrow> (Inl e, file)
         | Inr g \<Rightarrow>
             let token = (if gr_candidate g \<noteq> [] then gr_candidate g else if gr_state g = Saved then gr_token g else [])
             in if token = [] then (Inr None, file)
                else
                  (case save_grant st \<lparr>gr_state = Unknown, gr_token = token, gr_candidate = []\<rparr> file of
                     (False, file') \<Rightarrow> (Inl RESTORE_TOKEN_STORAGE_FAILED, file')
                   | (True, file') \<Rightarrow> (Inr (Some token), file'))))"

definition given :: "pyval \<Rightarrow> pystr" where
  "given token = (if token = PNone then [] else token_text token)"

definition stage_grant :: "(bytes \<Rightarrow> pystr option) \<Rightarrow> lock_answer \<Rightarrow> store \<Rightarrow> pyval \<Rightarrow> grant_file \<Rightarrow> (code + unit) \<times> grant_file" where
  "stage_grant wide lock st token file =
     (if token \<noteq> PNone \<and> \<not> valid_token token then (Inl RESTORE_TOKEN_INVALID, file)
      else if lock \<noteq> Lock_held then (Inl (lock_error lock), file)
      else
        (case read_grant wide file of
           Inl e \<Rightarrow> (Inl e, file)
         | Inr g \<Rightarrow>
             (case save_grant st \<lparr>gr_state = Unknown, gr_token = gr_token g, gr_candidate = given token\<rparr> file of
                (False, file') \<Rightarrow> (Inl RESTORE_TOKEN_STORAGE_FAILED, file')
              | (True, file') \<Rightarrow> (Inr (), file'))))"

definition save_token :: "(bytes \<Rightarrow> pystr option) \<Rightarrow> lock_answer \<Rightarrow> store \<Rightarrow> pyval \<Rightarrow> grant_file \<Rightarrow> (code + unit) \<times> grant_file" where
  "save_token wide lock st token file =
     (if token \<noteq> PNone \<and> \<not> valid_token token then (Inl RESTORE_TOKEN_INVALID, file)
      else if lock \<noteq> Lock_held then (Inl (lock_error lock), file)
      else
        (case read_grant wide file of
           Inl e \<Rightarrow> (Inl e, file)
         | Inr _ \<Rightarrow>
             (case save_grant st \<lparr>gr_state = (if given token \<noteq> [] then Saved else Needs_consent), gr_token = given token,
                      gr_candidate = []\<rparr> file of
                (False, file') \<Rightarrow> (Inl RESTORE_TOKEN_STORAGE_FAILED, file')
              | (True, file') \<Rightarrow> (Inr (), file'))))"

text \<open>\<open>portal-start.lock\<close>, which one start or one \<open>forget\<close> holds at a time.\<close>

datatype lease_answer = Lease_taken | Lease_held | Lease_refused

definition acquire_start :: "lease_answer \<Rightarrow> code + unit" where
  "acquire_start answer =
     (case answer of Lease_taken \<Rightarrow> Inr () | Lease_held \<Rightarrow> Inl AUTHORIZATION_PENDING | Lease_refused \<Rightarrow> Inl STATE_DIRECTORY_INVALID)"

definition forget_grant :: "(bytes \<Rightarrow> pystr option) \<Rightarrow> lease_answer \<Rightarrow> lock_answer \<Rightarrow> store \<Rightarrow> grant_file \<Rightarrow> (code + unit) \<times> grant_file" where
  "forget_grant wide lease lock st file =
     (case acquire_start lease of Inl e \<Rightarrow> (Inl e, file) | Inr _ \<Rightarrow> save_token wide lock st PNone file)"

subsection \<open>What was written is read back\<close>

lemma skip_space_one: "\<not> space c \<Longrightarrow> skip_space (32 # c # r) = c # r"
  by (simp add: skip_space_def space_def)

lemma parse_member:
  assumes k: "list_all scalar k" and v: "\<And>r. stops r \<Longrightarrow> parse_value n (s @ r) = Some (v, r)" and s: "\<exists>c t. s = c # t \<and> \<not> space c"
  shows "parse_members (Suc n) (json_string False k @ 58 # 32 # s @ 44 # 32 # 34 # r) =
      map_option (map_prod (Cons (k, v)) id) (parse_members n (34 # r))"
    "parse_members (Suc n) (json_string False k @ 58 # 32 # s @ 125 # r) = Some ([(k, v)], r)"
proof -
  from s have sk: "skip_space (58 # q) = 58 # q" "skip_space (32 # s @ q) = s @ q" "skip_space (44 # q) = 44 # q"
      "skip_space (125 # q) = 125 # q" "skip_space (32 # 34 # q) = 34 # q" for q
    by (auto simp: skip_space_one skip_space_def space_def)
  have st: "stops (44 # q)" "stops (125 # q)" for q by (simp_all add: stops_def digit_def)
  note mem = parse_members.simps(2) [of n "json_string False k @ q" for q]
  show "parse_members (Suc n) (json_string False k @ 58 # 32 # s @ 44 # 32 # 34 # r) =
      map_option (map_prod (Cons (k, v)) id) (parse_members n (34 # r))"
    "parse_members (Suc n) (json_string False k @ 58 # 32 # s @ 125 # r) = Some ([(k, v)], r)"
    unfolding mem
    by (simp_all add: json_string_def string_body_json [OF k] sk v [OF st(1)] v [OF st(2)]
        del: parse_value.simps parse_members.simps)
qed

lemma parse_spaced:
  "ms \<noteq> [] \<Longrightarrow> \<forall>m \<in> set ms. list_all scalar (fst m) \<and> plain_value (snd m) \<and> value_size (snd m) = 1 \<Longrightarrow>
     length ms < n \<Longrightarrow> parse_members n (spaced_members ms @ r) = Some (ms, r)"
proof (induction ms arbitrary: n)
  case Nil
  then show ?case by simp
next
  case (Cons m ms)
  obtain k v where m: "m = (k, v)" by (cases m)
  obtain j where n: "n = Suc j" using Cons.prems(3) by (cases n) auto
  let ?s = "json_value (\<lambda>_. []) False v"
  have k: "list_all scalar k" and v: "plain_value v" "value_size v \<le> j"
    using Cons.prems m n by auto
  note pv = parse_printed(1) [OF v(1) _ v(2), of _ "\<lambda>_. []" False]
  obtain c t where "?s = c # t" "\<not> space c" by (rule json_value_head [OF v(1), of "\<lambda>_. []" False])
  then have s: "\<exists>c t. ?s = c # t \<and> \<not> space c" by blast
  note step = parse_member [OF k pv s]
  show ?case
  proof (cases ms)
    case Nil
    with step(2) [of r] m n show ?thesis by (simp del: parse_members.simps)
  next
    case (Cons x xs)
    obtain a b where "x = (a, b)" by (cases x)
    with Cons obtain q where q: "spaced_members ms = 34 # q" by (simp add: json_string_def)
    have "parse_members j (spaced_members ms @ r) = Some (ms, r)" using Cons.IH [of j] Cons Cons.prems n by auto
    with step(1) [of "q @ r"] m n q Cons show ?thesis by (simp del: parse_members.simps spaced_members.simps(2) add: spaced_members.simps(2) [of k v])
  qed
qed

lemma valid_token_scalar: "valid_token (PStr s) \<Longrightarrow> list_all scalar s"
  by (auto simp: valid_token_def text_value_def utf8_encode_def split: option.splits if_splits)

lemma valid_token_Nil [simp]: "valid_token (PStr [])"
  by (simp add: valid_token_def text_value_def utf8_encode_def)

definition grant_ok :: "grant \<Rightarrow> bool" where
  "grant_ok g \<longleftrightarrow> valid_token (PStr (gr_token g)) \<and> valid_token (PStr (gr_candidate g)) \<and>
     (gr_state g = Saved \<longrightarrow> gr_token g \<noteq> [] \<and> gr_candidate g = []) \<and>
     (gr_state g \<in> {Needs_consent, Revoked} \<longrightarrow> gr_token g = [] \<and> gr_candidate g = [])"

lemma load_grant_text:
  assumes "grant_ok g"
  shows "json_loads (grant_text g) = Some (PDict (grant_fields g))"
proof -
  have sc: "list_all scalar (gr_token g)" "list_all scalar (gr_candidate g)"
    using assms valid_token_scalar by (auto simp: grant_ok_def)
  have plain: "\<forall>m \<in> set (grant_fields g). list_all scalar (fst m) \<and> plain_value (snd m) \<and> value_size (snd m) = 1"
    using sc by (cases "gr_state g") (auto simp: grant_fields_def py_def scalar_def surrogate_def state_name_def digits_def int_digits_limit_def dec.simps)
  have ne: "grant_fields g \<noteq> []" "length (grant_fields g) = 4" by (simp_all add: grant_fields_def)
  obtain q where q: "spaced_members (grant_fields g) = 34 # q" by (simp add: grant_fields_def json_string_def)
  obtain k where k: "2 * length (grant_text g) + 2 = Suc k" by simp
  have "length (grant_text g) \<ge> 5" by (simp add: grant_text_def grant_fields_def json_string_def py_def)
  with k ne have "length (grant_fields g) < k" by simp
  from parse_spaced [OF ne(1) plain this, of "[]"] q
  have "parse_value (Suc k) (grant_text g) = Some (PDict (grant_fields g), [])"
    by (simp add: grant_text_def skip_space_def space_def grant_fields_def)
  with k show ?thesis
    by (simp add: json_loads_def grant_text_def skip_space_def space_def del: parse_value.simps)
qed

lemma grant_of_fields: "grant_ok g \<Longrightarrow> grant_of (PDict (grant_fields g)) = Some g"
  by (cases "gr_state g")
     (auto simp: grant_of_def grant_fields_def dict_get_def state_of_def grant_states_def state_name_def token_text_def grant_ok_def Let_def)

lemma token_text_valid: "valid_token v \<Longrightarrow> valid_token (PStr (token_text v))"
  by (cases v) (simp_all add: token_text_def)

lemma grant_of_ok: "grant_of v = Some g \<Longrightarrow> grant_ok g"
proof (cases v)
  case (PDict d)
  assume "grant_of v = Some g"
  with PDict show ?thesis
    by (cases "dict_get d ''version''") (auto simp: grant_of_def grant_ok_def Let_def token_text_valid split: if_splits option.splits)
qed (simp_all add: grant_of_def)

lemma read_grant_ok: "read_grant wide f = Inr g \<Longrightarrow> grant_ok g"
  by (cases f) (auto simp: read_grant_def no_grant_def grant_ok_def split: if_splits bind_splits option.splits dest: grant_of_ok)

lemma utf8_grant_text:
  assumes "grant_ok g"
  obtains b where "utf8_encode (grant_text g) = Some b" "utf8_decode b = Some (grant_text g)" "\<not> wide_text b"
proof -
  have sc: "list_all scalar (gr_token g)" "list_all scalar (gr_candidate g)"
    using assms valid_token_scalar by (auto simp: grant_ok_def)
  have esc: "list_all scalar t \<Longrightarrow> list_all scalar (concat (map (escape_char False) t))" for t
    by (induction t) (auto simp: escape_char_def u_escape_def hex_digit_def scalar_def surrogate_def)
  have "list_all scalar (grant_text g)"
    using sc esc by (cases "gr_state g")
      (auto simp: grant_text_def grant_fields_def json_string_def py_def scalar_def surrogate_def state_name_def int_text_def digits_def dec.simps escape_char_def)
  then obtain b where b: "utf8_encode (grant_text g) = Some b" by (simp add: utf8_encode_def)
  have "grant_text g = 123 # 34 # drop 2 (grant_text g)" by (simp add: grant_text_def grant_fields_def json_string_def)
  with b obtain c where "b = 123 # 34 # c"
    by (auto simp: utf8_encode_Some_iff utf8_char_def dest: arg_cong [of _ _ "map utf8_char"])
  then have "\<not> wide_text b" by (simp add: wide_text_def)
  with that [OF b utf8_decode_encode [OF b]] show thesis by simp
qed

text \<open>A write leaves the file as it was, or one that reads as what was written (unless it is too long to read).\<close>

lemma read_saved:
  assumes "grant_ok g" "save_grant st g file = (ok, file')"
  shows "file' = file \<and> \<not> ok \<or> read_grant wide file' \<in> {Inr g, Inl RESTORE_TOKEN_INVALID}"
proof -
  obtain b where b: "utf8_encode (grant_text g) = Some b" "utf8_decode b = Some (grant_text g)" "\<not> wide_text b"
    by (rule utf8_grant_text [OF assms(1)])
  then have "load_json wide b = Some (PDict (grant_fields g))"
    by (simp add: load_json_def load_grant_text [OF assms(1)])
  with b assms(2) show ?thesis
    by (cases st) (auto simp: save_grant_def read_grant_def private_file_def grant_of_fields [OF assms(1)])
qed

definition written :: "grant \<Rightarrow> grant_file" where
  "written g = Grant_file \<lparr>fm_kind = True, fm_own = True, fm_private = True\<rparr> (the (utf8_encode (grant_text g)))"

lemma save_stored: "grant_ok g \<Longrightarrow> save_grant Stored g file = (True, written g)"
  by (rule utf8_grant_text) (auto simp: save_grant_def written_def)

lemma written_reads:
  assumes "grant_ok g"
  shows "read_grant wide (written g) =
    (if length (the (utf8_encode (grant_text g))) \<le> 32768 then Inr g else Inl RESTORE_TOKEN_INVALID)"
proof -
  obtain b where b: "utf8_encode (grant_text g) = Some b" "utf8_decode b = Some (grant_text g)" "\<not> wide_text b"
    by (rule utf8_grant_text [OF assms])
  then have "load_json wide b = Some (PDict (grant_fields g))" by (simp add: load_json_def load_grant_text [OF assms])
  with b(1) show ?thesis by (simp add: written_def read_grant_def private_file_def grant_of_fields [OF assms])
qed

subsection \<open>What the next start may submit\<close>

definition usable :: "(bytes \<Rightarrow> pystr option) \<Rightarrow> grant_file \<Rightarrow> pystr option" where
  "usable wide file =
     (case read_grant wide file of
        Inl _ \<Rightarrow> None
      | Inr g \<Rightarrow> if gr_candidate g \<noteq> [] then Some (gr_candidate g)
                 else if gr_state g = Saved then Some (gr_token g) else None)"

lemma usable_saved:
  assumes "grant_ok g" "save_grant st g file = (ok, file')" "usable wide file' = Some t"
  shows "file' = file \<and> \<not> ok \<or> gr_candidate g = t \<or> gr_candidate g = [] \<and> gr_state g = Saved \<and> gr_token g = t"
  using read_saved [OF assms(1,2), of wide] assms(3) by (auto simp: usable_def split: if_splits)

lemma valid_token_given: "token = PNone \<or> valid_token token \<Longrightarrow> valid_token (PStr (given token))"
  by (cases token) (auto simp: given_def token_text_def)

lemma begin_restore_submits:
  assumes "begin_restore wide lock st file = (Inr (Some t), file')"
  shows "usable wide file = Some t \<and> usable wide file' = None"
proof -
  obtain g where g: "read_grant wide file = Inr g"
    using assms by (auto simp: begin_restore_def split: if_splits sum.splits)
  let ?t = "if gr_candidate g \<noteq> [] then gr_candidate g else if gr_state g = Saved then gr_token g else []"
  have ok: "grant_ok g" by (rule read_grant_ok [OF g])
  have t: "?t = t" "t \<noteq> []" and s: "save_grant st \<lparr>gr_state = Unknown, gr_token = t, gr_candidate = []\<rparr> file = (True, file')"
    using assms g by (auto simp: begin_restore_def Let_def split: if_splits prod.splits bool.splits)
  have ok': "grant_ok \<lparr>gr_state = Unknown, gr_token = t, gr_candidate = []\<rparr>"
    using ok t(1) by (auto simp: grant_ok_def split: if_splits)
  from t g have "usable wide file = Some t" by (auto simp: usable_def split: if_splits)
  moreover have "usable wide file' = None" using read_saved [OF ok' s, of wide] by (auto simp: usable_def)
  ultimately show ?thesis by simp
qed

lemma begin_restore_keeps:
  assumes "begin_restore wide lock st file = (r, file')" "usable wide file' = Some u"
  shows "usable wide file = Some u"
proof -
  obtain g where g: "file' = file \<or> read_grant wide file = Inr g"
    using assms by (auto simp: begin_restore_def split: if_splits sum.splits)
  show ?thesis
  proof (cases "file' = file")
    case True
    with assms(2) show ?thesis by simp
  next
    case False
    with g have g: "read_grant wide file = Inr g" by simp
    let ?t = "if gr_candidate g \<noteq> [] then gr_candidate g else if gr_state g = Saved then gr_token g else []"
    obtain ok where s: "save_grant st \<lparr>gr_state = Unknown, gr_token = ?t, gr_candidate = []\<rparr> file = (ok, file')" "?t \<noteq> []"
      using assms(1) g False by (auto simp: begin_restore_def Let_def split: if_splits prod.splits bool.splits)
    have "grant_ok \<lparr>gr_state = Unknown, gr_token = ?t, gr_candidate = []\<rparr>"
      using read_grant_ok [OF g] by (auto simp: grant_ok_def)
    from usable_saved [OF this s(1) assms(2)] False s(2) assms(2) usable_def [of wide file'] show ?thesis
      using read_saved [OF \<open>grant_ok _\<close> s(1), of wide] by (auto split: if_splits)
  qed
qed

lemma stage_usable:
  assumes "stage_grant wide lock st token file = (r, file')" "usable wide file' = Some u"
  shows "usable wide file = Some u \<or> given token = u"
proof (cases "file' = file")
  case False
  then obtain g ok where g: "read_grant wide file = Inr g"
    and s: "save_grant st \<lparr>gr_state = Unknown, gr_token = gr_token g, gr_candidate = given token\<rparr> file = (ok, file')"
    and v: "token = PNone \<or> valid_token token"
    using assms(1) by (auto simp: stage_grant_def split: if_splits sum.splits prod.splits bool.splits)
  have "grant_ok \<lparr>gr_state = Unknown, gr_token = gr_token g, gr_candidate = given token\<rparr>"
    using read_grant_ok [OF g] valid_token_given [OF v] by (simp add: grant_ok_def)
  from usable_saved [OF this s assms(2)] False show ?thesis by auto
qed (use assms in simp)

lemma save_usable:
  assumes "save_token wide lock st token file = (r, file')" "usable wide file' = Some u"
  shows "usable wide file = Some u \<or> given token = u"
proof (cases "file' = file")
  case False
  let ?g = "\<lparr>gr_state = (if given token \<noteq> [] then Saved else Needs_consent), gr_token = given token, gr_candidate = []\<rparr>"
  from False obtain ok where s: "save_grant st ?g file = (ok, file')" and v: "token = PNone \<or> valid_token token"
    using assms(1) by (auto simp: save_token_def split: if_splits sum.splits prod.splits bool.splits)
  have "grant_ok ?g"
    using valid_token_given [OF v] by (auto simp: grant_ok_def)
  from read_saved [OF this s, of wide] False assms(2) show ?thesis by (auto simp: usable_def split: if_splits)
qed (use assms in simp)

subsection \<open>Runs\<close>

datatype grant_op =
    Inspect_grant lock_answer
  | Begin_restore lock_answer store
  | Stage_grant lock_answer store pyval
  | Save_token lock_answer store pyval
  | Forget_grant lease_answer lock_answer store

datatype grant_event = Submitted pystr | Offered pystr

definition grant_step :: "(bytes \<Rightarrow> pystr option) \<Rightarrow> grant_op \<Rightarrow> grant_file \<times> grant_event list \<Rightarrow> grant_file \<times> grant_event list" where
  "grant_step wide p s =
     (let (file, h) = s in
      case p of
        Inspect_grant lock \<Rightarrow> (let r = inspect_grant wide lock file in s)
      | Begin_restore lock st \<Rightarrow>
          (let (r, file') = begin_restore wide lock st file
           in (file', h @ (case r of Inr (Some t) \<Rightarrow> [Submitted t] | _ \<Rightarrow> [])))
      | Stage_grant lock st token \<Rightarrow> (snd (stage_grant wide lock st token file), h @ [Offered (given token)])
      | Save_token lock st token \<Rightarrow> (snd (save_token wide lock st token file), h @ [Offered (given token)])
      | Forget_grant lease lock st \<Rightarrow> (snd (forget_grant wide lease lock st file), h @ [Offered []]))"

definition grant_run :: "(bytes \<Rightarrow> pystr option) \<Rightarrow> grant_op list \<Rightarrow> grant_file \<Rightarrow> grant_file \<times> grant_event list" where
  "grant_run wide ops file = fold (grant_step wide) ops (file, [])"

definition spent :: "pystr \<Rightarrow> grant_event list \<Rightarrow> bool" where
  "spent t h \<longleftrightarrow> (\<exists>a b. h = a @ Submitted t # b \<and> Offered t \<notin> set b)"

definition fresh_submissions :: "grant_event list \<Rightarrow> bool" where
  "fresh_submissions h \<longleftrightarrow> (\<forall>a t b. h = a @ Submitted t # b \<longrightarrow> \<not> spent t a)"

lemma spent_snoc: "spent t (h @ [x]) \<longleftrightarrow> x = Submitted t \<or> spent t h \<and> x \<noteq> Offered t"
proof
  assume "spent t (h @ [x])"
  then obtain a b where "h @ [x] = a @ Submitted t # b" "Offered t \<notin> set b" by (auto simp: spent_def)
  then show "x = Submitted t \<or> spent t h \<and> x \<noteq> Offered t"
    by (cases b rule: rev_cases) (auto simp: spent_def)
next
  assume "x = Submitted t \<or> spent t h \<and> x \<noteq> Offered t"
  then show "spent t (h @ [x])"
  proof
    assume "spent t h \<and> x \<noteq> Offered t"
    then obtain a b where "h = a @ Submitted t # b" "Offered t \<notin> set b" "x \<noteq> Offered t" by (auto simp: spent_def)
    then have "h @ [x] = a @ Submitted t # (b @ [x])" "Offered t \<notin> set (b @ [x])" by auto
    then show ?thesis unfolding spent_def by blast
  next
    assume "x = Submitted t"
    then have "h @ [x] = h @ Submitted t # []" by simp
    then show ?thesis unfolding spent_def by (metis empty_iff empty_set)
  qed
qed

lemma fresh_snoc: "fresh_submissions (h @ [x]) \<longleftrightarrow> fresh_submissions h \<and> (\<forall>t. x = Submitted t \<longrightarrow> \<not> spent t h)"
proof
  assume f: "fresh_submissions (h @ [x])"
  then have "fresh_submissions h" by (auto simp: fresh_submissions_def)
  moreover have "\<not> spent t h" if "x = Submitted t" for t
    using f that unfolding fresh_submissions_def by blast
  ultimately show "fresh_submissions h \<and> (\<forall>t. x = Submitted t \<longrightarrow> \<not> spent t h)" by blast
next
  assume f: "fresh_submissions h \<and> (\<forall>t. x = Submitted t \<longrightarrow> \<not> spent t h)"
  show "fresh_submissions (h @ [x])"
    unfolding fresh_submissions_def
  proof (intro allI impI)
    fix a t b assume "h @ [x] = a @ Submitted t # b"
    with f show "\<not> spent t a" by (cases b rule: rev_cases) (auto simp: fresh_submissions_def)
  qed
qed

definition grant_inv :: "(bytes \<Rightarrow> pystr option) \<Rightarrow> grant_file \<times> grant_event list \<Rightarrow> bool" where
  "grant_inv wide s \<longleftrightarrow> fresh_submissions (snd s) \<and> (\<forall>t. usable wide (fst s) = Some t \<longrightarrow> \<not> spent t (snd s))"

lemma grant_inv_offered:
  assumes "grant_inv wide (file, h)" "\<And>u. usable wide file' = Some u \<Longrightarrow> usable wide file = Some u \<or> t = u"
  shows "grant_inv wide (file', h @ [Offered t])"
  using assms by (auto simp: grant_inv_def spent_snoc fresh_snoc)

lemma grant_inv_step: "grant_inv wide s \<Longrightarrow> grant_inv wide (grant_step wide p s)"
proof -
  assume I: "grant_inv wide s"
  obtain f h where s: "s = (f, h)" by (cases s)
  show ?thesis
  proof (cases p)
    case (Begin_restore lock st)
    obtain r f' where b: "begin_restore wide lock st f = (r, f')"
      by (cases "begin_restore wide lock st f")
    show ?thesis
    proof (cases "\<exists>t. r = Inr (Some t)")
      case True
      with begin_restore_submits b obtain t where "r = Inr (Some t)" "usable wide f = Some t" "usable wide f' = None" by blast
      with I b s Begin_restore show ?thesis by (simp add: grant_step_def grant_inv_def fresh_snoc)
    next
      case False
      with b s Begin_restore have "grant_step wide p s = (f', h)" by (auto simp: grant_step_def split: sum.splits option.splits)
      with I s begin_restore_keeps [OF b] show ?thesis by (auto simp: grant_inv_def)
    qed
  next
    case (Stage_grant lock st token)
    with s stage_usable [OF surjective_pairing, of wide lock st token f] I show ?thesis
      by (simp add: grant_step_def grant_inv_offered)
  next
    case (Save_token lock st token)
    with s save_usable [OF surjective_pairing, of wide lock st token f] I show ?thesis
      by (simp add: grant_step_def grant_inv_offered)
  next
    case (Forget_grant lease lock st)
    have "usable wide (snd (forget_grant wide lease lock st f)) = Some u \<Longrightarrow> usable wide f = Some u \<or> [] = u" for u
      using save_usable [OF surjective_pairing, of wide lock st PNone f]
      by (cases lease) (auto simp: forget_grant_def acquire_start_def given_def)
    with s Forget_grant I show ?thesis by (simp add: grant_step_def grant_inv_offered)
  qed (use I s in \<open>simp add: grant_step_def Let_def\<close>)
qed

lemma grant_inv_run: "grant_inv wide (grant_run wide ops file)"
proof -
  have "grant_inv wide s \<Longrightarrow> grant_inv wide (fold (grant_step wide) ops s)" for s
    by (induction ops arbitrary: s) (simp_all add: grant_inv_step)
  moreover have "grant_inv wide (file, [])" by (auto simp: grant_inv_def fresh_submissions_def spent_def)
  ultimately show ?thesis by (simp add: grant_run_def)
qed

subsection \<open>Properties\<close>

text \<open>C21: A restore token is submitted to the portal at most once for each time it was received: whatever the
  file held at the start, and however the locks and the replacements of the file fail in between, two submissions
  of the same token have a staging or saving of that token between them.\<close>
theorem restore_token_not_replayed:
  assumes "snd (grant_run wide ops file) = a @ Submitted t # b @ Submitted t # c"
  shows "Offered t \<in> set b"
proof (rule ccontr)
  assume "Offered t \<notin> set b"
  then have "spent t (a @ Submitted t # b)" by (auto simp: spent_def)
  moreover have "fresh_submissions (snd (grant_run wide ops file))" using grant_inv_run by (simp add: grant_inv_def)
  then have "\<not> spent t (a @ Submitted t # b)"
    using assms unfolding fresh_submissions_def by (metis append.assoc append_Cons)
  ultimately show False by simp
qed

lemma small_grant:
  "valid_token (PStr (py ''a''))" "py ''a'' \<noteq> []"
  "st \<in> {Saved, Unknown} \<Longrightarrow> length (the (utf8_encode (grant_text \<lparr>gr_state = st, gr_token = py ''a'', gr_candidate = []\<rparr>))) \<le> 32768"
  by (auto simp: py_def valid_token_def text_value_def grant_text_def grant_fields_def json_string_def utf8_encode_def
      scalar_def surrogate_def state_name_def int_text_def digits_def dec.simps escape_char_def utf8_char_def)

lemma restore_token_not_replayed_witness:
  "\<exists>file ops a b c. snd (grant_run (\<lambda>_. None) ops file) = a @ Submitted (py ''a'') # b @ Submitted (py ''a'') # c \<and>
     Offered (py ''a'') \<in> set b"
proof -
  let ?w = "\<lambda>_. None" and ?t = "py ''a''"
  let ?g = "\<lparr>gr_state = Saved, gr_token = ?t, gr_candidate = []\<rparr>" and ?u = "\<lparr>gr_state = Unknown, gr_token = ?t, gr_candidate = []\<rparr>"
  let ?ops = "[Save_token Lock_held Stored (PStr ?t), Begin_restore Lock_held Stored, Save_token Lock_held Stored (PStr ?t), Begin_restore Lock_held Stored]"
  note v = small_grant(1,2)
  from v have ok: "grant_ok ?g" "grant_ok ?u" by (simp_all add: grant_ok_def)
  have l: "length (the (utf8_encode (grant_text ?g))) \<le> 32768" "length (the (utf8_encode (grant_text ?u))) \<le> 32768"
    by (rule small_grant(3), simp)+
  note w = written_reads [OF ok(1), of ?w] written_reads [OF ok(2), of ?w]
  have run: "snd (grant_run ?w ?ops No_file) = [Offered ?t] @ Submitted ?t # [Offered ?t] @ Submitted ?t # []"
    using v l by (simp add: grant_run_def grant_step_def save_token_def begin_restore_def save_stored [OF ok(1)] save_stored [OF ok(2)]
        w read_grant_def [of _ No_file] given_def token_text_def no_grant_def Let_def)
  from restore_token_not_replayed [OF run] run show ?thesis by metis
qed

text \<open>A token that was saved is what the next start submits, and the file says so before, as long as its text has
  at most 32768 bytes; a longer file is saved but can no longer be read.\<close>
theorem saved_grant_reads_back:
  assumes "t \<noteq> []" "save_token wide Lock_held Stored (PStr t) f = (Inr (), f')"
  shows "if length (the (utf8_encode (grant_text \<lparr>gr_state = Saved, gr_token = t, gr_candidate = []\<rparr>))) \<le> 32768
    then inspect_grant wide Lock_held f' = Inr Saved \<and> fst (begin_restore wide Lock_held Stored f') = Inr (Some t)
    else inspect_grant wide Lock_held f' = Inl RESTORE_TOKEN_INVALID"
proof -
  let ?g = "\<lparr>gr_state = Saved, gr_token = t, gr_candidate = []\<rparr>"
  have v: "valid_token (PStr t)" and s: "save_grant Stored ?g f = (True, f')"
    using assms by (auto simp: save_token_def given_def token_text_def split: if_splits sum.splits prod.splits bool.splits)
  from v assms(1) have ok: "grant_ok ?g" "grant_ok \<lparr>gr_state = Unknown, gr_token = t, gr_candidate = []\<rparr>"
    by (simp_all add: grant_ok_def)
  from s save_stored [OF ok(1)] have "f' = written ?g" by simp
  with written_reads [OF ok(1), of wide] save_stored [OF ok(2)] assms(1) show ?thesis
    by (simp add: inspect_grant_def begin_restore_def)
qed

lemma saved_grant_reads_back_witness:
  "inspect_grant (\<lambda>_. None) Lock_held (snd (save_token (\<lambda>_. None) Lock_held Stored (PStr (py ''a'')) No_file)) = Inr Saved"
proof -
  note v = small_grant(1,2)
  then have "grant_ok \<lparr>gr_state = Saved, gr_token = py ''a'', gr_candidate = []\<rparr>" by (simp add: grant_ok_def)
  from save_stored [OF this] v
  have s: "save_token (\<lambda>_. None) Lock_held Stored (PStr (py ''a'')) No_file =
      (Inr (), snd (save_token (\<lambda>_. None) Lock_held Stored (PStr (py ''a'')) No_file))"
    by (simp add: save_token_def given_def token_text_def read_grant_def)
  from saved_grant_reads_back [OF v(2) s] small_grant(3) [of Saved] show ?thesis by simp
qed

text \<open>A file that cannot be read as a record (another version, damaged, shared, too long) is never overwritten:
  every operation refuses and leaves it, also the one that is to forget the permission.\<close>
theorem damaged_grant_kept:
  assumes "read_grant wide f = Inl e"
  shows "fst (grant_run wide ops f) = f"
proof -
  have "fst (grant_step wide p (f, h)) = f" for p h
    using assms by (auto simp: grant_step_def begin_restore_def stage_grant_def save_token_def forget_grant_def Let_def
      split: grant_op.splits sum.splits)
  then have "fst (fold (grant_step wide) ops (f, h)) = f" for h
    by (induction ops arbitrary: h) (simp, metis fold_simps(2) prod.collapse)
  then show ?thesis by (simp add: grant_run_def)
qed

lemma damaged_grant_kept_witness: "fst (grant_run (\<lambda>_. None) [Forget_grant Lease_taken Lock_held Stored] Unopenable) = Unopenable"
  by (rule damaged_grant_kept [of _ _ RESTORE_TOKEN_INVALID]) (simp add: read_grant_def)

text \<open>A token of 5500 control characters is valid, is saved, and can then neither be inspected nor forgotten: its
  text takes six bytes for each of them.\<close>

lemma long_token_unreadable:
  assumes "n = 5500" "t = replicate n 1" "f' = snd (save_token wide Lock_held Stored (PStr t) No_file)"
  shows "valid_token (PStr t) \<and> fst (save_token wide Lock_held Stored (PStr t) No_file) = Inr () \<and>
     inspect_grant wide Lock_held f' = Inl RESTORE_TOKEN_INVALID \<and> fst (forget_grant wide Lease_taken Lock_held Stored f') = Inl RESTORE_TOKEN_INVALID"
proof -
  have n: "t \<noteq> []" "n \<le> 8192" "32768 < 6 * n" using assms(1,2) by auto
  have "concat (map utf8_char (replicate k 1)) = replicate k 1" for k by (induction k) (simp_all add: utf8_char_def)
  then have b: "utf8_encode t = Some t"
    by (simp add: assms(2) utf8_encode_def scalar_def surrogate_def list_all_iff)
  have v: "valid_token (PStr t)" using n b by (simp add: valid_token_def text_value_def assms(2))
  let ?g = "\<lparr>gr_state = Saved, gr_token = t, gr_candidate = []\<rparr>"
  have ok: "grant_ok ?g" using v n by (simp add: grant_ok_def)
  obtain c where c: "utf8_encode (grant_text ?g) = Some c" by (rule utf8_grant_text [OF ok])
  have "length (concat (map (escape_char False) (replicate k 1))) = 6 * k" for k
    by (induction k) (simp_all add: escape_char_def u_escape_def)
  then have "6 * n \<le> length (grant_text ?g)" by (simp add: assms(2) grant_text_def grant_fields_def json_string_def)
  moreover have "length s \<le> length (concat (map utf8_char s))" for s
    by (induction s) (auto simp: utf8_width_def)
  then have "length (grant_text ?g) \<le> length c" using c by (auto simp: utf8_encode_Some_iff)
  ultimately have r: "read_grant wide (written ?g) = Inl RESTORE_TOKEN_INVALID"
    using n(3) c by (simp add: written_reads [OF ok])
  have "save_token wide Lock_held Stored (PStr t) No_file = (Inr (), written ?g)"
    using v n save_stored [OF ok] by (simp add: save_token_def given_def token_text_def read_grant_def)
  with r v assms(3) show ?thesis
    by (simp add: inspect_grant_def forget_grant_def acquire_start_def save_token_def)
qed

end
