(* ===== verification/Portal.thy ===== *)
theory Portal
  imports Grant
begin

section \<open>The portal session of the host desktop (host\_desktop\_portal.py, PortalSession)\<close>

text \<open>
  A session with the desktop portal is asked for in four requests that the portal answers one after the
  other: create it, select devices, select sources, start. The saved permission of theory \<open>Grant\<close> is
  consumed and rotated on the way. Afterwards the session carries input and the clipboard. Every callback
  of the bus is a function here; what the bus, the kernel and the client answer within one callback is the
  record \<open>turn\<close>. The client's callbacks are logged in \<open>po_log\<close>, with what they did: \<open>HostDesktop\<close> may close
  the session from within the completion, and may raise.
\<close>

subsection \<open>Streams\<close>

definition SESSION_CLOSED :: code where "SESSION_CLOSED = Host_code ''SESSION_CLOSED''"
definition SESSION_ALREADY_STARTED :: code where "SESSION_ALREADY_STARTED = Host_code ''SESSION_ALREADY_STARTED''"
definition PORTAL_UNAVAILABLE :: code where "PORTAL_UNAVAILABLE = Host_code ''PORTAL_UNAVAILABLE''"
definition PORTAL_PROTOCOL_INVALID :: code where "PORTAL_PROTOCOL_INVALID = Host_code ''PORTAL_PROTOCOL_INVALID''"
definition DISPLAY_UNAVAILABLE :: code where "DISPLAY_UNAVAILABLE = Host_code ''DISPLAY_UNAVAILABLE''"
definition INPUT_BACKPRESSURE :: code where "INPUT_BACKPRESSURE = Host_code ''INPUT_BACKPRESSURE''"

text \<open>What a call or a callback can raise: a \<open>DesktopError\<close>, a \<open>GLib.Error\<close>, anything else.\<close>

datatype fault = Desktop code | Bus_error | Other_error

fun stream_nodes :: "int set \<Rightarrow> pyval list \<Rightarrow> bool" where
  "stream_nodes nodes [] = True"
| "stream_nodes nodes (s # ss) =
     (case s of
        PList [PInt node, PDict d] \<Rightarrow>
          0 < node \<and> node < 2 ^ 32 \<and> node \<notin> nodes \<and>
          (case dict_get d ''size'' of
             PList [PInt w, PInt h] \<Rightarrow> 2 \<le> w \<and> w \<le> 32768 \<and> 2 \<le> h \<and> h \<le> 32768
           | _ \<Rightarrow> False) \<and>
          stream_nodes (insert node nodes) ss
      | _ \<Rightarrow> False)"

definition valid_portal_streams :: "pyval \<Rightarrow> bool" where
  "valid_portal_streams v =
     (case v of PList ss \<Rightarrow> 1 \<le> length ss \<and> length ss \<le> 64 \<and> stream_nodes {} ss | _ \<Rightarrow> False)"

subsection \<open>The session\<close>

datatype stage = Creating | Selecting_devices | Selecting_sources | Starting

datatype authorization = Unsupported | Restoring | Recorded grant_state

datatype notice =
    Progress stage bool
  | Authorization authorization
  | Permission_revoked
  | Input_failed code

datatype portal_input = Pointer int rat rat | Press int bool | Keycode int bool | Axis rat rat

datatype portal_event =
    Changed notice
  | Completed "code + pyval" "fault option"
  | Devices_requested "pystr option"
  | Request_closed nat
  | Session_closed pystr
  | Fd_opened nat
  | Fd_closed nat
  | Lease_acquired
  | Lease_released
  | Input_sent portal_input
  | Clipboard_offered pystr
  | Clipboard_read "code + pystr"
  | Clipboard_written bytes
  | Write_done nat bool

text \<open>A clipboard transfer to another application, running in a thread of its own.\<close>

record clip_writer =
  wr_serial :: nat
  wr_epoch :: nat
  wr_data :: bytes
  wr_armed :: bool
  wr_ended :: bool
  wr_failed :: bool

record portal =
  po_session :: "pystr option"
  po_pending :: "(nat \<times> stage) list"
  po_next :: nat
  po_subscriptions :: nat
  po_closed :: bool
  po_fd :: "nat option"
  po_lease :: bool
  po_clipboard :: bool
  po_streams :: pyval
  po_devices :: int
  po_cursor_mode :: int
  po_input_pending :: nat
  po_enabled :: bool
  po_sync :: bool
  po_epoch :: nat
  po_types :: "pystr list"
  po_text :: "pystr option"
  po_authorization :: "authorization option"
  po_version :: int
  po_unattended :: bool
  po_readers :: "(nat \<times> bool) list"
  po_writers :: "clip_writer list"
  po_file :: grant_file
  po_log :: "portal_event list"

definition new_portal :: "grant_file \<Rightarrow> portal" where
  "new_portal f = \<lparr>po_session = None, po_pending = [], po_next = 0, po_subscriptions = 3, po_closed = False, po_fd = None,
     po_lease = False, po_clipboard = False, po_streams = PList [], po_devices = 0, po_cursor_mode = 2, po_input_pending = 0,
     po_enabled = False, po_sync = False, po_epoch = 0, po_types = [], po_text = None, po_authorization = None,
     po_version = 0, po_unattended = False, po_readers = [], po_writers = [], po_file = f, po_log = []\<rparr>"

definition po_note :: "portal_event \<Rightarrow> portal \<Rightarrow> portal" where
  "po_note e s = s\<lparr>po_log := po_log s @ [e]\<rparr>"

definition release_start :: "portal \<Rightarrow> portal" where
  "release_start s = (if po_lease s then po_note Lease_released (s\<lparr>po_lease := False\<rparr>) else s)"

definition portal_close :: "portal \<Rightarrow> portal" where
  "portal_close s =
     (if po_closed s then s
      else
        let s1 = s\<lparr>po_closed := True\<rparr>;
            s2 = s1\<lparr>po_log := po_log s1 @ map (Request_closed \<circ> fst) (po_pending s1), po_pending := [], po_subscriptions := 0\<rparr>;
            s3 = (case po_session s2 of
                    None \<Rightarrow> s2
                  | Some h \<Rightarrow> if h = [] then s2 else po_note (Session_closed h) (s2\<lparr>po_session := None\<rparr>));
            s4 = (case po_fd s3 of None \<Rightarrow> s3 | Some n \<Rightarrow> po_note (Fd_closed n) (s3\<lparr>po_fd := None\<rparr>))
        in release_start s4)"

text \<open>The portal has ended the session.\<close>

definition portal_session_closed :: "pystr \<Rightarrow> portal \<Rightarrow> portal" where
  "portal_session_closed path s =
     (if po_session s = Some path \<and> \<not> po_closed s then po_note (Changed Permission_revoked) (portal_close s) else s)"

subsection \<open>Starting\<close>

record turn =
  tn_restore :: "lock_answer \<times> store"
  tn_stage :: "lock_answer \<times> store"
  tn_save :: "lock_answer \<times> store"
  tn_inspect :: lock_answer
  tn_cursor_modes :: pyval
  tn_clipboard_version :: int
  tn_clipboard_request :: bool
  tn_pipewire :: "nat option"
  tn_client :: "nat \<Rightarrow> bool \<times> fault option"

text \<open>The completion of the client: its \<open>k\<close>-th call within this callback.\<close>

definition complete :: "turn \<Rightarrow> nat \<Rightarrow> code + pyval \<Rightarrow> portal \<Rightarrow> fault option \<times> portal" where
  "complete t k r s =
     (let (closes, raised) = tn_client t k; s1 = po_note (Completed r raised) s
      in (raised, if closes then portal_close s1 else s1))"

text \<open>\<open>done\<close> of \<open>start\<close>: the recorded state of the permission, the lease, then the client.\<close>

definition start_done :: "(bytes \<Rightarrow> pystr option) \<Rightarrow> turn \<Rightarrow> nat \<Rightarrow> code + pyval \<Rightarrow> portal \<Rightarrow> fault option \<times> portal" where
  "start_done wide t k r s =
     (let (r1, s1) =
            (if \<not> po_unattended s then (r, s)
             else case inspect_grant wide (tn_inspect t) (po_file s) of
                    Inl e \<Rightarrow> (Inl e, s)
                  | Inr st \<Rightarrow> (r, po_note (Changed (Authorization (Recorded st))) (s\<lparr>po_authorization := Some (Recorded st)\<rparr>)))
      in complete t k r1 (release_start s1))"

text \<open>\<open>_request\<close>: one pending answer per request, then the call.\<close>

definition po_request :: "(bytes \<Rightarrow> pystr option) \<Rightarrow> turn \<Rightarrow> stage \<Rightarrow> portal \<Rightarrow> fault option \<times> portal" where
  "po_request wide t g s =
     (if po_closed s then start_done wide t 0 (Inl SESSION_CLOSED) s
      else (None, po_note (Changed (Progress g False)) (s\<lparr>po_pending := po_pending s @ [(po_next s, g)], po_next := po_next s + 1\<rparr>)))"

definition portal_start ::
  "(bytes \<Rightarrow> pystr option) \<Rightarrow> turn \<Rightarrow> bool \<Rightarrow> int \<Rightarrow> int \<Rightarrow> lease_answer \<Rightarrow> portal \<Rightarrow> fault option \<times> portal" where
  "portal_start wide t unattended remote screen lease s =
     (if po_session s \<noteq> None \<and> po_session s \<noteq> Some [] \<or> po_closed s then complete t 0 (Inl SESSION_ALREADY_STARTED) s
      else if remote < 1 \<or> screen < 1 then complete t 0 (Inl PORTAL_UNAVAILABLE) s
      else
        (case acquire_start lease of
           Inl e \<Rightarrow> complete t 0 (Inl e) s
         | Inr _ \<Rightarrow>
             po_request wide t Creating (po_note Lease_acquired
               (s\<lparr>po_lease := True, po_version := remote, po_unattended := (unattended \<and> remote \<ge> 2)\<rparr>))))"

definition PATH :: pystr where
  "PATH = py ''/org/freedesktop/portal/desktop''"

definition session_handle_ok :: "pyval \<Rightarrow> bool" where
  "session_handle_ok v = (case v of PStr h \<Rightarrow> prefix (PATH @ py ''/session/'') h | _ \<Rightarrow> False)"

definition created :: "(bytes \<Rightarrow> pystr option) \<Rightarrow> turn \<Rightarrow> (pystr \<times> pyval) list \<Rightarrow> portal \<Rightarrow> fault option \<times> portal" where
  "created wide t result s =
     (let s1 = s\<lparr>po_session := (case dict_get result ''session_handle'' of PStr h \<Rightarrow> Some h | _ \<Rightarrow> None)\<rparr>
      in if \<not> session_handle_ok (dict_get result ''session_handle'')
         then start_done wide t 0 (Inl PORTAL_PROTOCOL_INVALID) s1
         else if po_version s1 < 2 then po_request wide t Selecting_devices (po_note (Devices_requested None) s1)
         else
           (case (if po_unattended s1 then begin_restore wide (fst (tn_restore t)) (snd (tn_restore t)) (po_file s1)
                  else (Inr None, po_file s1)) of
              (Inl e, f) \<Rightarrow> start_done wide t 0 (Inl e) (s1\<lparr>po_file := f\<rparr>)
            | (Inr token, f) \<Rightarrow>
                let a = (if token = None then Recorded Needs_consent else Restoring)
                in po_request wide t Selecting_devices (po_note (Devices_requested token)
                     (po_note (Changed (Authorization a)) (s1\<lparr>po_file := f, po_authorization := Some a\<rparr>)))))"

definition cursor_mode_of :: "pyval \<Rightarrow> int" where
  "cursor_mode_of v = (case v of PInt n \<Rightarrow> if n div 4 mod 2 = 1 then 4 else 2 | _ \<Rightarrow> 2)"

definition selected_devices :: "(bytes \<Rightarrow> pystr option) \<Rightarrow> turn \<Rightarrow> portal \<Rightarrow> fault option \<times> portal" where
  "selected_devices wide t s =
     po_request wide t Selecting_sources (s\<lparr>po_cursor_mode := cursor_mode_of (tn_cursor_modes t)\<rparr>)"

definition selected_sources :: "(bytes \<Rightarrow> pystr option) \<Rightarrow> turn \<Rightarrow> portal \<Rightarrow> fault option \<times> portal" where
  "selected_sources wide t s =
     (if tn_clipboard_version t \<noteq> 0 \<and> \<not> tn_clipboard_request t
      then start_done wide t 0 (Inl (Host_code ''CLIPBOARD_PERMISSION_FAILED'')) s
      else po_request wide t Starting s)"

definition dict_get_or :: "(pystr \<times> pyval) list \<Rightarrow> string \<Rightarrow> pyval \<Rightarrow> pyval" where
  "dict_get_or d k v = (case map_of d (py k) of None \<Rightarrow> v | Some x \<Rightarrow> x)"

text \<open>
  What the \<open>try\<close> block of \<open>started\<close> does before its completion: the error it answers with, or the
  streams. The staged token is kept as a candidate until the session can carry pixels.
\<close>

definition open_streams :: "(bytes \<Rightarrow> pystr option) \<Rightarrow> turn \<Rightarrow> (pystr \<times> pyval) list \<Rightarrow> portal \<Rightarrow> (code + pyval) \<times> portal" where
  "open_streams wide t result s =
     (let s1 = s\<lparr>po_streams := dict_get_or result ''streams'' (PList []),
                 po_devices := (case dict_get result ''devices'' of PInt n \<Rightarrow> n | _ \<Rightarrow> 0),
                 po_clipboard := (dict_get result ''clipboard_enabled'' = PBool True)\<rparr>;
          token = dict_get result ''restore_token''
      in case (if po_unattended s1 then stage_grant wide (fst (tn_stage t)) (snd (tn_stage t)) token (po_file s1)
               else (Inr (), po_file s1)) of
           (Inl e, f) \<Rightarrow> (Inl e, s1\<lparr>po_file := f\<rparr>)
         | (Inr _, f) \<Rightarrow>
             let s2 = s1\<lparr>po_file := f\<rparr>
             in if \<not> valid_portal_streams (po_streams s2) then (Inl DISPLAY_UNAVAILABLE, s2)
                else
                  (case tn_pipewire t of
                     None \<Rightarrow> (Inl (Host_code ''PIPEWIRE_UNAVAILABLE''), s2)
                   | Some fd \<Rightarrow>
                       let s3 = po_note (Fd_opened fd) (s2\<lparr>po_fd := Some fd\<rparr>)
                       in case (if po_unattended s3 then save_token wide (fst (tn_save t)) (snd (tn_save t)) token (po_file s3)
                                else (Inr (), po_file s3)) of
                            (Inl e, f) \<Rightarrow> (Inl e, s3\<lparr>po_file := f\<rparr>)
                          | (Inr _, f) \<Rightarrow> (Inr (po_streams s3), s3\<lparr>po_file := f\<rparr>)))"

text \<open>The completion with the streams is inside the \<open>try\<close>: what it raises is answered by a second one.\<close>

definition started :: "(bytes \<Rightarrow> pystr option) \<Rightarrow> turn \<Rightarrow> (pystr \<times> pyval) list \<Rightarrow> portal \<Rightarrow> fault option \<times> portal" where
  "started wide t result s =
     (case open_streams wide t result s of
        (Inl e, s1) \<Rightarrow> start_done wide t 0 (Inl e) s1
      | (Inr v, s1) \<Rightarrow>
          (case start_done wide t 0 (Inr v) s1 of
             (Some Bus_error, s2) \<Rightarrow> start_done wide t 1 (Inl (Host_code ''PIPEWIRE_UNAVAILABLE'')) s2
           | (Some (Desktop e), s2) \<Rightarrow> start_done wide t 1 (Inl e) s2
           | (r, s2) \<Rightarrow> (r, s2)))"

definition stage_done ::
  "(bytes \<Rightarrow> pystr option) \<Rightarrow> turn \<Rightarrow> stage \<Rightarrow> code + (pystr \<times> pyval) list \<Rightarrow> portal \<Rightarrow> fault option \<times> portal" where
  "stage_done wide t g r s =
     (case r of
        Inl e \<Rightarrow> start_done wide t 0 (Inl e) s
      | Inr result \<Rightarrow>
          (case g of
             Creating \<Rightarrow> created wide t result s
           | Selecting_devices \<Rightarrow> selected_devices wide t s
           | Selecting_sources \<Rightarrow> selected_sources wide t s
           | Starting \<Rightarrow> started wide t result s))"

text \<open>\<open>finish\<close> of a request: only the first answer counts.\<close>

definition po_finish ::
  "(bytes \<Rightarrow> pystr option) \<Rightarrow> turn \<Rightarrow> nat \<Rightarrow> code + (pystr \<times> pyval) list \<Rightarrow> portal \<Rightarrow> fault option \<times> portal" where
  "po_finish wide t k r s =
     (case map_of (po_pending s) k of
        None \<Rightarrow> (None, s)
      | Some g \<Rightarrow> stage_done wide t g r (s\<lparr>po_pending := filter (\<lambda>p. fst p \<noteq> k) (po_pending s)\<rparr>))"

definition response :: "(bytes \<Rightarrow> pystr option) \<Rightarrow> turn \<Rightarrow> nat \<Rightarrow> int \<Rightarrow> (pystr \<times> pyval) list \<Rightarrow> portal \<Rightarrow> fault option \<times> portal" where
  "response wide t k status result s =
     po_finish wide t k
       (if status = 0 then Inr result
        else Inl (if status = 1 then Host_code ''PERMISSION_CANCELLED'' else Host_code ''PORTAL_FAILED'')) s"

text \<open>The reply to the call of a request: the same path, another one, or an error.\<close>

datatype call_reply = Same_path | Other_path | Call_error

definition called :: "(bytes \<Rightarrow> pystr option) \<Rightarrow> turn \<Rightarrow> nat \<Rightarrow> stage \<Rightarrow> call_reply \<Rightarrow> portal \<Rightarrow> fault option \<times> portal" where
  "called wide t k g reply s =
     (case reply of
        Other_path \<Rightarrow> po_finish wide t k (Inl PORTAL_PROTOCOL_INVALID) s
      | Same_path \<Rightarrow> (None, po_note (Changed (Progress g True)) s)
      | Call_error \<Rightarrow> po_finish wide t k (Inl PORTAL_UNAVAILABLE) s)"

subsection \<open>Input\<close>

text \<open>A delivery whose outcome is uncertain ends the session before anyone is told.\<close>

definition input_failed :: "code \<Rightarrow> portal \<Rightarrow> portal" where
  "input_failed code s = (if po_closed s then s else po_note (Changed (Input_failed code)) (portal_close s))"

definition no_session :: "portal \<Rightarrow> bool" where
  "no_session s \<longleftrightarrow> po_session s \<in> {None, Some []} \<or> po_closed s"

definition portal_input :: "portal_input \<Rightarrow> bool \<Rightarrow> portal \<Rightarrow> fault option \<times> portal" where
  "portal_input i accepted s =
     (if no_session s then (Some (Desktop SESSION_CLOSED), s)
      else if po_input_pending s \<ge> 64 then (Some (Desktop INPUT_BACKPRESSURE), input_failed INPUT_BACKPRESSURE s)
      else if accepted then (None, po_note (Input_sent i) (s\<lparr>po_input_pending := po_input_pending s + 1\<rparr>))
      else (Some (Desktop INPUT_DELIVERY_FAILED), input_failed INPUT_DELIVERY_FAILED s))"

definition input_completed :: "bool \<Rightarrow> portal \<Rightarrow> portal" where
  "input_completed ok s =
     (let s1 = s\<lparr>po_input_pending := po_input_pending s - 1\<rparr>
      in if ok then s1 else input_failed INPUT_DELIVERY_FAILED s1)"

subsection \<open>Clipboard\<close>

definition CLIPBOARD_LIMIT :: nat where "CLIPBOARD_LIMIT = 1048576"

definition text_types :: "pystr list" where
  "text_types = [py ''text/plain;charset=utf-8'', py ''text/plain'']"

text \<open>A text goes to the request that asked for it, or, of a changed selection, to the client.\<close>

definition clip_completed :: "bool \<Rightarrow> code + pystr \<Rightarrow> portal \<Rightarrow> portal" where
  "clip_completed notify r s =
     (case r of Inl e \<Rightarrow> if notify then s else po_note (Clipboard_read r) s | Inr _ \<Rightarrow> po_note (Clipboard_read r) s)"

definition read_clipboard :: "bool \<Rightarrow> bool \<Rightarrow> portal \<Rightarrow> portal" where
  "read_clipboard notify opened s =
     (if \<not> po_clipboard s \<or> \<not> po_enabled s \<or> po_closed s then clip_completed notify (Inl CLIPBOARD_UNAVAILABLE) s
      else if \<forall>m \<in> set text_types. m \<notin> set (po_types s) then clip_completed notify (Inr []) s
      else if length (po_readers s) \<ge> 2 then clip_completed notify (Inl (Host_code ''CLIPBOARD_BUSY'')) s
      else if \<not> opened then clip_completed notify (Inl CLIPBOARD_UNAVAILABLE) s
      else s\<lparr>po_readers := po_readers s @ [(po_epoch s, notify)]\<rparr>)"

text \<open>What the reading thread gets: chunks, the end of the data, no data in time, or an error.\<close>

datatype chunk = Chunk bytes | No_chunk | Chunk_error

fun read_chunks :: "bytes \<Rightarrow> chunk list \<Rightarrow> code + pystr" where
  "read_chunks data [] = Inl (Host_code ''CLIPBOARD_TIMEOUT'')"
| "read_chunks data (No_chunk # cs) = Inl (Host_code ''CLIPBOARD_TIMEOUT'')"
| "read_chunks data (Chunk_error # cs) = Inl CLIPBOARD_UNAVAILABLE"
| "read_chunks data (Chunk b # cs) =
     (if b = [] then
        (case utf8_decode data of
           None \<Rightarrow> Inl CLIPBOARD_UNAVAILABLE
         | Some text \<Rightarrow> if 0 \<in> set text then Inl (Host_code ''CLIPBOARD_INVALID'') else Inr text)
      else if length (data @ b) > CLIPBOARD_LIMIT then Inl (Host_code ''CLIPBOARD_TOO_LARGE'')
      else read_chunks (data @ b) cs)"

definition reader_finished :: "nat \<Rightarrow> chunk list \<Rightarrow> portal \<Rightarrow> portal" where
  "reader_finished k cs s =
     (if k \<ge> length (po_readers s) then s
      else
        let (epoch, notify) = po_readers s ! k;
            s1 = s\<lparr>po_readers := take k (po_readers s) @ drop (Suc k) (po_readers s)\<rparr>
        in if \<not> po_closed s \<and> po_enabled s \<and> po_epoch s = epoch then clip_completed notify (read_chunks [] cs) s1 else s1)"

definition is_text :: "pyval \<Rightarrow> bool" where
  "is_text v = (case v of PStr s \<Rightarrow> True | _ \<Rightarrow> False)"

definition selection_types :: "pyval \<Rightarrow> pystr list" where
  "selection_types v =
     (let w = (case v of PList [PList xs] \<Rightarrow> PList xs | _ \<Rightarrow> v)
      in case w of PList xs \<Rightarrow> if list_all is_text xs then map token_text xs else [] | _ \<Rightarrow> [])"

definition selection_changed :: "pystr \<Rightarrow> pyval \<Rightarrow> bool \<Rightarrow> bool \<Rightarrow> portal \<Rightarrow> portal" where
  "selection_changed session types owner opened s =
     (if po_session s \<noteq> Some session \<or> po_closed s then s
      else
        let s1 = s\<lparr>po_types := selection_types types\<rparr>
        in if po_enabled s1 \<and> po_sync s1 \<and> \<not> owner then read_clipboard True opened s1 else s1)"

text \<open>\<open>set_clipboard\<close> of a text; surrogates raise in \<open>encode\<close>.\<close>

definition set_clipboard :: "pystr \<Rightarrow> bool \<Rightarrow> portal \<Rightarrow> fault option \<times> portal" where
  "set_clipboard text accepted s =
     (if \<not> po_clipboard s \<or> \<not> po_enabled s \<or> po_closed s then (Some (Desktop CLIPBOARD_UNAVAILABLE), s)
      else
        (case utf8_encode text of
           None \<Rightarrow> (Some Other_error, s)
         | Some b \<Rightarrow>
             if length b > CLIPBOARD_LIMIT \<or> 0 \<in> set text then (Some (Desktop (Host_code ''CLIPBOARD_INVALID'')), s)
             else
               let s1 = s\<lparr>po_text := Some text\<rparr>
               in if no_session s1 then (Some (Desktop SESSION_CLOSED), s1)
                  else if \<not> accepted then (Some Bus_error, s1)
                  else (None, po_note (Clipboard_offered text) s1)))"

definition selection_transfer :: "pystr \<Rightarrow> pystr \<Rightarrow> nat \<Rightarrow> bool \<Rightarrow> portal \<Rightarrow> portal" where
  "selection_transfer session mime serial opened s =
     (if po_session s \<noteq> Some session \<or> po_closed s \<or> \<not> po_enabled s \<or> po_text s = None then s
      else if mime \<notin> set text_types then s
      else if length (po_writers s) \<ge> 4 then po_note (Write_done serial False) s
      else if \<not> opened then s
      else s\<lparr>po_writers := po_writers s @ [\<lparr>wr_serial = serial, wr_epoch = po_epoch s,
             wr_data = the (utf8_encode (the (po_text s))), wr_armed = False, wr_ended = False, wr_failed = False\<rparr>]\<rparr>)"

text \<open>
  The writing thread checks before each chunk that the clipboard is still the one it was asked for and
  that the reader takes data; the write of the chunk is a step of its own, the system taking part of it.
\<close>

definition writer_check :: "nat \<Rightarrow> bool \<Rightarrow> portal \<Rightarrow> portal" where
  "writer_check k ready s =
     (if k \<ge> length (po_writers s) then s
      else
        let w = po_writers s ! k
        in if wr_armed w \<or> wr_ended w then s
           else if wr_data w \<noteq> [] \<and> \<not> po_closed s \<and> po_enabled s \<and> po_epoch s = wr_epoch w \<and> ready
           then s\<lparr>po_writers := (po_writers s)[k := w\<lparr>wr_armed := True\<rparr>]\<rparr>
           else s\<lparr>po_writers := (po_writers s)[k := w\<lparr>wr_ended := True\<rparr>]\<rparr>)"

definition writer_write :: "nat \<Rightarrow> nat option \<Rightarrow> portal \<Rightarrow> portal" where
  "writer_write k taken s =
     (if k \<ge> length (po_writers s) then s
      else
        let w = po_writers s ! k
        in if \<not> wr_armed w then s
           else
             (case taken of
                None \<Rightarrow> s\<lparr>po_writers := (po_writers s)[k := w\<lparr>wr_armed := False, wr_ended := True, wr_failed := True\<rparr>]\<rparr>
              | Some n \<Rightarrow>
                  let m = min n (min 65536 (length (wr_data w)))
                  in if m = 0 then s\<lparr>po_writers := (po_writers s)[k := w\<lparr>wr_armed := False, wr_ended := True\<rparr>]\<rparr>
                     else po_note (Clipboard_written (take m (wr_data w)))
                       (s\<lparr>po_writers := (po_writers s)[k := w\<lparr>wr_armed := False, wr_data := drop m (wr_data w)\<rparr>]\<rparr>)))"

definition writer_done :: "nat \<Rightarrow> portal \<Rightarrow> portal" where
  "writer_done k s =
     (if k \<ge> length (po_writers s) \<or> \<not> wr_ended (po_writers s ! k) then s
      else
        let w = po_writers s ! k; s1 = s\<lparr>po_writers := take k (po_writers s) @ drop (Suc k) (po_writers s)\<rparr>
        in if po_closed s then s1 else po_note (Write_done (wr_serial w) (wr_data w = [] \<and> \<not> wr_failed w)) s1)"

subsection \<open>Runs\<close>

text \<open>What the client writes into the object: \<open>HostDesktop.clipboard_enabled\<close> and \<open>release_input\<close>.\<close>

datatype portal_step =
    Answer nat int "(pystr \<times> pyval) list" turn
  | Reply nat stage call_reply turn
  | Session_ended pystr
  | Close_portal
  | Send_input portal_input bool
  | Input_completed bool
  | Selection_changed pystr pyval bool bool
  | Read_clipboard bool
  | Reader_finished nat "chunk list"
  | Set_clipboard pystr bool
  | Selection_transfer pystr pystr nat bool
  | Writer_check nat bool
  | Writer_write nat "nat option"
  | Writer_done nat
  | Client_clipboard bool bool
  | Client_retire

definition portal_step :: "(bytes \<Rightarrow> pystr option) \<Rightarrow> portal_step \<Rightarrow> portal \<Rightarrow> portal" where
  "portal_step wide p s =
     (case p of
        Answer k status result t \<Rightarrow> snd (response wide t k status result s)
      | Reply k g reply t \<Rightarrow> snd (called wide t k g reply s)
      | Session_ended path \<Rightarrow> portal_session_closed path s
      | Close_portal \<Rightarrow> portal_close s
      | Send_input i accepted \<Rightarrow> snd (portal_input i accepted s)
      | Input_completed ok \<Rightarrow> if po_input_pending s = 0 then s else input_completed ok s
      | Selection_changed session types owner opened \<Rightarrow> selection_changed session types owner opened s
      | Read_clipboard opened \<Rightarrow> read_clipboard False opened s
      | Reader_finished k cs \<Rightarrow> reader_finished k cs s
      | Set_clipboard text accepted \<Rightarrow> snd (set_clipboard text accepted s)
      | Selection_transfer session mime serial opened \<Rightarrow> selection_transfer session mime serial opened s
      | Writer_check k ready \<Rightarrow> writer_check k ready s
      | Writer_write k taken \<Rightarrow> writer_write k taken s
      | Writer_done k \<Rightarrow> writer_done k s
      | Client_clipboard enabled sync \<Rightarrow> s\<lparr>po_enabled := enabled, po_sync := sync\<rparr>
      | Client_retire \<Rightarrow> s\<lparr>po_enabled := False, po_epoch := po_epoch s + 1, po_text := None\<rparr>)"

text \<open>The client starts a session once.\<close>

definition portal_run ::
  "(bytes \<Rightarrow> pystr option) \<Rightarrow> turn \<Rightarrow> bool \<Rightarrow> int \<Rightarrow> int \<Rightarrow> lease_answer \<Rightarrow> portal_step list \<Rightarrow> grant_file \<Rightarrow> portal" where
  "portal_run wide t unattended remote screen lease ps f =
     fold (portal_step wide) ps (snd (portal_start wide t unattended remote screen lease (new_portal f)))"

subsection \<open>What the session holds, and its answers\<close>

definition completions :: "portal \<Rightarrow> portal_event list" where
  "completions s = filter (\<lambda>e. \<exists>r f. e = Completed r f) (po_log s)"

fun opened_fd :: "portal_event \<Rightarrow> nat list" where
  "opened_fd (Fd_opened n) = [n]" | "opened_fd _ = []"

fun closed_fd :: "portal_event \<Rightarrow> nat list" where
  "closed_fd (Fd_closed n) = [n]" | "closed_fd _ = []"

definition fds_opened :: "portal \<Rightarrow> nat list" where
  "fds_opened s = concat (map opened_fd (po_log s))"

definition fds_closed :: "portal \<Rightarrow> nat list" where
  "fds_closed s = concat (map closed_fd (po_log s))"

primrec those_fd :: "nat option \<Rightarrow> nat list" where
  "those_fd None = []" | "those_fd (Some n) = [n]"

definition fds_ok :: "portal \<Rightarrow> bool" where
  "fds_ok s \<longleftrightarrow> fds_opened s = fds_closed s @ those_fd (po_fd s)"

text \<open>One answer, or a second one, an error, because the client raised during the first.\<close>

definition answered_once :: "portal_event list \<Rightarrow> bool" where
  "answered_once l \<longleftrightarrow> l = [] \<or> (\<exists>r f. l = [Completed r f]) \<or> (\<exists>r f e g. l = [Completed r (Some f), Completed (Inl e) g])"

definition portal_inv :: "portal \<Rightarrow> bool" where
  "portal_inv s \<longleftrightarrow>
     length (po_pending s) \<le> 1 \<and> (\<forall>p \<in> set (po_pending s). fst p < po_next s) \<and>
     (po_lease s \<longrightarrow> po_pending s \<noteq> [] \<and> \<not> po_closed s) \<and>
     (po_closed s \<longrightarrow> po_pending s = [] \<and> po_fd s = None \<and> po_subscriptions s = 0) \<and>
     (completions s \<noteq> [] \<or> po_fd s \<noteq> None \<longrightarrow> po_pending s = []) \<and>
     answered_once (completions s) \<and> fds_ok s"

text \<open>Inside the callback of the one pending answer.\<close>

definition answering :: "portal \<Rightarrow> bool" where
  "answering s \<longleftrightarrow> po_pending s = [] \<and> \<not> po_closed s \<and> completions s = [] \<and> fds_ok s"

lemma completions_note [simp]:
  "completions (po_note e s) = completions s @ (if \<exists>r f. e = Completed r f then [e] else [])"
  by (auto simp: completions_def po_note_def)

lemma note_fields [simp]:
  "po_pending (po_note e s) = po_pending s" "po_next (po_note e s) = po_next s" "po_lease (po_note e s) = po_lease s"
  "po_closed (po_note e s) = po_closed s" "po_fd (po_note e s) = po_fd s" "po_subscriptions (po_note e s) = po_subscriptions s"
  "po_session (po_note e s) = po_session s" "po_unattended (po_note e s) = po_unattended s" "po_file (po_note e s) = po_file s"
  "po_version (po_note e s) = po_version s" "po_streams (po_note e s) = po_streams s" "po_enabled (po_note e s) = po_enabled s"
  "po_epoch (po_note e s) = po_epoch s" "po_input_pending (po_note e s) = po_input_pending s" "po_readers (po_note e s) = po_readers s"
  "po_writers (po_note e s) = po_writers s" "po_log (po_note e s) = po_log s @ [e]" "po_text (po_note e s) = po_text s"
  by (simp_all add: po_note_def)

lemma fds_note: "fds_ok (po_note e s) \<longleftrightarrow> fds_opened s @ opened_fd e = fds_closed s @ closed_fd e @ those_fd (po_fd s)"
  by (simp add: fds_ok_def fds_opened_def fds_closed_def po_note_def)

lemma fds_note_other [simp]: "opened_fd e = [] \<Longrightarrow> closed_fd e = [] \<Longrightarrow> fds_ok (po_note e s) = fds_ok s"
  unfolding fds_note by (simp add: fds_ok_def)

lemma release_start_fields [simp]:
  "po_lease (release_start s) = False" "po_pending (release_start s) = po_pending s" "po_closed (release_start s) = po_closed s"
  "po_next (release_start s) = po_next s" "po_fd (release_start s) = po_fd s" "po_subscriptions (release_start s) = po_subscriptions s"
  "completions (release_start s) = completions s" "fds_ok (release_start s) = fds_ok s"
  by (auto simp: release_start_def completions_def fds_ok_def fds_opened_def fds_closed_def po_note_def)

lemma request_closed_none:
  "filter (\<lambda>e. \<exists>r f. e = Completed r f) (map (Request_closed \<circ> fst) ps) = []"
  "concat (map opened_fd (map (Request_closed \<circ> fst) ps)) = []" "concat (map closed_fd (map (Request_closed \<circ> fst) ps)) = []"
  by (induction ps) auto

lemma portal_close_fields [simp]:
  "po_closed (portal_close s) = True"
  "completions (portal_close s) = completions s"
  "\<not> po_closed s \<Longrightarrow> po_pending (portal_close s) = []"
  "\<not> po_closed s \<Longrightarrow> po_fd (portal_close s) = None"
  "\<not> po_closed s \<Longrightarrow> po_lease (portal_close s) = False"
  "\<not> po_closed s \<Longrightarrow> po_subscriptions (portal_close s) = 0"
  "po_next (portal_close s) = po_next s"
  by (auto simp: portal_close_def Let_def completions_def po_note_def request_closed_none [unfolded comp_def] comp_def
      split: option.splits; simp add: release_start_def po_note_def)+

lemma concat_map_Nil [simp]: "concat (map (\<lambda>x. []) xs) = []"
  by (induction xs) simp_all

lemma portal_close_fds [simp]: "fds_ok s \<Longrightarrow> fds_ok (portal_close s)"
  by (auto simp: portal_close_def Let_def fds_ok_def fds_opened_def fds_closed_def po_note_def comp_def release_start_def
      request_closed_none [unfolded comp_def] split: option.splits)

lemma portal_close_inv [inv_intros]: "portal_inv s \<Longrightarrow> portal_inv (portal_close s)"
proof (cases "po_closed s")
  case True
  then show "portal_inv s \<Longrightarrow> portal_inv (portal_close s)" by (simp add: portal_close_def)
qed (simp add: portal_inv_def)

definition settled :: "portal \<Rightarrow> bool" where
  "settled s \<longleftrightarrow> po_pending s = [] \<and> (po_closed s \<longrightarrow> po_fd s = None \<and> po_subscriptions s = 0) \<and> fds_ok s"

lemma settled_inv: "settled s \<Longrightarrow> \<not> po_lease s \<Longrightarrow> answered_once (completions s) \<Longrightarrow> portal_inv s"
  by (simp add: settled_def portal_inv_def)

lemma inv_settled: "portal_inv s \<Longrightarrow> completions s \<noteq> [] \<Longrightarrow> settled s"
  by (simp add: settled_def portal_inv_def)

lemma complete_inv:
  assumes "settled s" "\<not> po_lease s" "answered_once (completions s @ [Completed r (snd (tn_client t k))])"
  shows "portal_inv (snd (complete t k r s)) \<and> fst (complete t k r s) = snd (tn_client t k) \<and>
    completions (snd (complete t k r s)) = completions s @ [Completed r (snd (tn_client t k))]"
proof -
  obtain c f where t: "tn_client t k = (c, f)" by (cases "tn_client t k")
  have "portal_inv (po_note (Completed r f) s)" using assms t by (intro settled_inv) (simp_all add: settled_def)
  with t show ?thesis by (simp add: complete_def Let_def portal_close_inv)
qed

lemma settled_upd: "settled s \<Longrightarrow> po_pending u = po_pending s \<Longrightarrow> po_closed u = po_closed s \<Longrightarrow> po_fd u = po_fd s \<Longrightarrow>
    po_subscriptions u = po_subscriptions s \<Longrightarrow> fds_ok u = fds_ok s \<Longrightarrow> settled u"
  by (simp add: settled_def)

lemma start_done_inv:
  assumes "settled s" "\<And>f. answered_once (completions s @ [Completed r f])"
    "\<And>e f. answered_once (completions s @ [Completed (Inl e) f])"
  shows "portal_inv (snd (start_done wide t k r s)) \<and>
    (\<exists>r'. completions (snd (start_done wide t k r s)) = completions s @ [Completed r' (fst (start_done wide t k r s))])"
proof -
  have one: "portal_inv (snd (complete t k r' (release_start u))) \<and> fst (complete t k r' (release_start u)) = snd (tn_client t k) \<and>
      completions (snd (complete t k r' (release_start u))) = completions s @ [Completed r' (snd (tn_client t k))]"
    if "settled u" "completions u = completions s" "r' = r \<or> (\<exists>e. r' = Inl e)" for u r'
    using complete_inv [of "release_start u" r' t k] settled_upd [OF that(1), of "release_start u"] that assms(2,3) by auto
  show ?thesis
  proof (cases "po_unattended s")
    case False
    with one [of s r] assms(1) show ?thesis by (auto simp: start_done_def)
  next
    case True
    show ?thesis
    proof (cases "inspect_grant wide (tn_inspect t) (po_file s)")
      case (Inl e)
      with True one [of s "Inl e"] assms(1) show ?thesis by (auto simp: start_done_def)
    next
      case (Inr st)
      let ?v = "s\<lparr>po_authorization := Some (Recorded st)\<rparr>"
      have "completions ?v = completions s" "fds_ok ?v = fds_ok s"
        by (simp_all add: completions_def fds_ok_def fds_opened_def fds_closed_def)
      then have "settled (po_note (Changed (Authorization (Recorded st))) ?v)"
        by (intro settled_upd [OF assms(1)]) simp_all
      with True Inr one [of "po_note (Changed (Authorization (Recorded st))) ?v" r] \<open>completions ?v = _\<close> show ?thesis
        by (auto simp: start_done_def)
    qed
  qed
qed

lemma answering_done: "answering s \<Longrightarrow> portal_inv (snd (start_done wide t k r s))"
  using start_done_inv [of s r wide t k] by (simp add: answering_def settled_def answered_once_def)

lemma request_inv:
  assumes "answering s" "po_fd s = None"
  shows "portal_inv (snd (po_request wide t g s))"
  using assms by (auto simp: po_request_def answering_def portal_inv_def answered_once_def completions_def fds_ok_def
      fds_opened_def fds_closed_def)

lemma answering_upd:
  assumes "answering s" "po_pending u = po_pending s" "po_closed u = po_closed s" "po_log u = po_log s" "po_fd u = po_fd s"
  shows "answering u"
  using assms by (simp add: answering_def completions_def fds_ok_def fds_opened_def fds_closed_def)

lemma answering_note [simp]:
  "opened_fd e = [] \<Longrightarrow> closed_fd e = [] \<Longrightarrow> \<nexists>r f. e = Completed r f \<Longrightarrow> answering (po_note e s) = answering s"
  by (simp add: answering_def)

lemma created_inv:
  assumes "answering s" "po_fd s = None"
  shows "portal_inv (snd (created wide t result s))"
proof -
  let ?s = "s\<lparr>po_session := (case dict_get result ''session_handle'' of PStr h \<Rightarrow> Some h | _ \<Rightarrow> None)\<rparr>"
  have a: "answering ?s" "answering (?s\<lparr>po_file := f, po_authorization := x\<rparr>)" "answering (?s\<lparr>po_file := f\<rparr>)" for f x
    using assms(1) by (rule answering_upd, simp_all)+
  with assms(2) show ?thesis
    by (auto simp: created_def Let_def answering_done request_inv a(2) [where f = "po_file s" and x = "Some (Recorded Needs_consent)", simplified]
        split: prod.split sum.split)
qed

lemma started_inv:
  assumes "answering s" "po_fd s = None"
  shows "portal_inv (snd (started wide t result s))"
proof -
  obtain r u where o: "open_streams wide t result s = (r, u)" by (cases "open_streams wide t result s")
  have upd: "answering (s\<lparr>po_streams := v, po_devices := n, po_clipboard := b, po_file := f\<rparr>)" for v n b f
    using assms(1) by (rule answering_upd) simp_all
  have fd: "answering (po_note (Fd_opened d) (x\<lparr>po_fd := Some d\<rparr>))" if "answering x" "po_fd x = None" for x d
    using that by (auto simp: answering_def fds_ok_def fds_opened_def fds_closed_def completions_def po_note_def)
  have u: "answering u"
    using o upd assms(2) fd [OF upd] answering_upd [OF fd [OF upd]]
    by (auto simp: open_streams_def Let_def split: prod.splits sum.splits if_splits option.splits)
  show ?thesis
  proof (cases r)
    case (Inl e)
    with o answering_done [OF u] show ?thesis by (simp add: started_def)
  next
    case (Inr v)
    obtain f u' where d: "start_done wide t 0 (Inr v) u = (f, u')" by (cases "start_done wide t 0 (Inr v) u")
    have inv: "portal_inv u'" and c: "\<exists>r'. completions u' = [Completed r' f]"
      using start_done_inv [of u "Inr v" wide t 0] u d by (simp_all add: answering_def settled_def answered_once_def)
    from c have "settled u'" by (auto intro: inv_settled [OF inv])
    then have "portal_inv (snd (start_done wide t 1 (Inl e) u'))" if "f = Some x" for e x
      using start_done_inv [of u' "Inl e" wide t 1] c that by (auto simp: answered_once_def)
    with o Inr d inv show ?thesis by (auto simp: started_def split: option.split fault.split)
  qed
qed

lemma stage_done_inv:
  assumes "answering s" "po_fd s = None"
  shows "portal_inv (snd (stage_done wide t g r s))"
proof -
  have "answering (s\<lparr>po_cursor_mode := m\<rparr>)" for m using assms(1) by (rule answering_upd) simp_all
  with assms show ?thesis
    by (auto simp: stage_done_def selected_devices_def selected_sources_def answering_done request_inv created_inv started_inv
        split: sum.split stage.split)
qed

lemma finish_inv [inv_intros]: "portal_inv s \<Longrightarrow> portal_inv (snd (po_finish wide t k r s))"
proof (cases "map_of (po_pending s) k")
  case (Some g)
  assume I: "portal_inv s"
  from Some have ne: "po_pending s \<noteq> []" by auto
  with I obtain p where p: "po_pending s = [p]" by (cases "po_pending s") (auto simp: portal_inv_def)
  let ?u = "s\<lparr>po_pending := filter (\<lambda>p. fst p \<noteq> k) (po_pending s)\<rparr>"
  have "completions ?u = completions s" "fds_ok ?u = fds_ok s"
    by (simp_all add: completions_def fds_ok_def fds_opened_def fds_closed_def)
  with I p ne Some have "answering ?u" "po_fd ?u = None"
    by (cases p; auto simp: portal_inv_def answering_def split: if_splits)+
  with Some show ?thesis by (simp add: po_finish_def stage_done_inv)
qed (simp add: po_finish_def)

text \<open>The other operations change nothing of this, or close the session.\<close>

definition same_core :: "portal \<Rightarrow> portal \<Rightarrow> bool" where
  "same_core s u \<longleftrightarrow> po_pending u = po_pending s \<and> po_next u = po_next s \<and> po_lease u = po_lease s \<and> po_closed u = po_closed s \<and>
     po_fd u = po_fd s \<and> po_subscriptions u = po_subscriptions s \<and> completions u = completions s \<and> fds_opened u = fds_opened s \<and>
     fds_closed u = fds_closed s"

lemma same_core_inv: "same_core s u \<Longrightarrow> portal_inv s \<Longrightarrow> portal_inv u"
  by (simp add: same_core_def portal_inv_def fds_ok_def)

lemma same_core_note:
  "same_core s u \<Longrightarrow> opened_fd e = [] \<Longrightarrow> closed_fd e = [] \<Longrightarrow> \<nexists>r f. e = Completed r f \<Longrightarrow> same_core s (po_note e u)"
  by (auto simp: same_core_def fds_opened_def fds_closed_def)

lemma note_inv: "portal_inv s \<Longrightarrow> opened_fd e = [] \<Longrightarrow> closed_fd e = [] \<Longrightarrow> \<nexists>r f. e = Completed r f \<Longrightarrow> portal_inv (po_note e s)"
  by (rule same_core_inv [OF same_core_note]) (simp_all add: same_core_def)

lemma input_failed_inv: "portal_inv s \<Longrightarrow> portal_inv (input_failed code s)"
  by (simp add: input_failed_def note_inv portal_close_inv)

lemma portal_input_inv: "portal_inv s \<Longrightarrow> portal_inv (snd (portal_input i accepted s))"
proof -
  assume I: "portal_inv s"
  then have "portal_inv (s\<lparr>po_input_pending := n\<rparr>)" for n
    by (rule same_core_inv [rotated]) (simp add: same_core_def completions_def fds_opened_def fds_closed_def)
  with I show ?thesis by (simp add: portal_input_def input_failed_inv note_inv)
qed

lemma clip_core: "same_core s u \<Longrightarrow> same_core s (clip_completed notify r u)"
  by (auto simp: clip_completed_def same_core_note split: sum.split)

lemma core_fields:
  "same_core s (s\<lparr>po_readers := rs\<rparr>)" "same_core s (s\<lparr>po_types := ts\<rparr>)" "same_core s (s\<lparr>po_types := ts, po_readers := rs\<rparr>)"
  "same_core s (s\<lparr>po_text := x\<rparr>)" "same_core s (s\<lparr>po_writers := ws\<rparr>)" "same_core s s"
  "same_core s (s\<lparr>po_enabled := en, po_sync := sy\<rparr>)" "same_core s (s\<lparr>po_enabled := en, po_epoch := ep, po_text := x\<rparr>)"
  by (simp_all add: same_core_def completions_def fds_opened_def fds_closed_def)

lemma read_clipboard_core: "same_core s (read_clipboard notify opened s)"
  by (simp add: read_clipboard_def clip_core core_fields)

lemma same_core_trans: "same_core s u \<Longrightarrow> same_core u v \<Longrightarrow> same_core s v"
  by (simp add: same_core_def)

lemma clipboard_core:
  "same_core s (reader_finished k cs s)" "same_core s (selection_changed session types owner opened s)"
  "same_core s (snd (set_clipboard text accepted s))" "same_core s (selection_transfer session mime serial opened s)"
  "same_core s (writer_check k ready s)" "same_core s (writer_write k taken s)" "same_core s (writer_done k s)"
  using same_core_trans [OF core_fields(2) read_clipboard_core, of s]
  by (auto simp: reader_finished_def selection_changed_def set_clipboard_def selection_transfer_def writer_check_def
      writer_write_def writer_done_def Let_def core_fields clip_core same_core_note split: prod.split option.split)

lemma portal_inv_step: "portal_inv s \<Longrightarrow> portal_inv (portal_step wide p s)"
proof (cases p)
  case (Input_completed ok)
  assume I: "portal_inv s"
  then have "portal_inv (s\<lparr>po_input_pending := n\<rparr>)" for n
    by (rule same_core_inv [rotated]) (simp add: same_core_def completions_def fds_opened_def fds_closed_def)
  with I Input_completed show ?thesis by (simp add: portal_step_def input_completed_def Let_def input_failed_inv)
qed (auto simp: portal_step_def response_def called_def finish_inv portal_session_closed_def note_inv portal_close_inv portal_input_inv
    split: call_reply.split intro: same_core_inv [OF clipboard_core(1)] same_core_inv [OF clipboard_core(2)]
      same_core_inv [OF clipboard_core(3)] same_core_inv [OF clipboard_core(4)] same_core_inv [OF clipboard_core(5)]
      same_core_inv [OF clipboard_core(6)] same_core_inv [OF clipboard_core(7)] same_core_inv [OF read_clipboard_core]
      same_core_inv [OF core_fields(7)] same_core_inv [OF core_fields(8)])

lemma portal_inv_start: "portal_inv (snd (portal_start wide t unattended remote screen lease (new_portal f)))"
proof -
  have s: "settled (new_portal f)" "\<not> po_lease (new_portal f)" "completions (new_portal f) = []"
    by (simp_all add: settled_def new_portal_def fds_ok_def fds_opened_def fds_closed_def completions_def)
  have "portal_inv (snd (complete t 0 (Inl e) (new_portal f)))" for e
    using complete_inv [OF s(1,2), of "Inl e" t 0] s(3) by (simp add: answered_once_def)
  moreover have "answering (po_note Lease_acquired (new_portal f\<lparr>po_lease := True, po_version := remote, po_unattended := b\<rparr>))" for b
    by (simp add: answering_def new_portal_def fds_ok_def fds_opened_def fds_closed_def completions_def)
  ultimately show ?thesis
    by (auto simp: portal_start_def request_inv new_portal_def split: sum.split)
qed

lemma portal_inv_run: "portal_inv (portal_run wide t unattended remote screen lease ps f)"
proof -
  have "portal_inv s \<Longrightarrow> portal_inv (fold (portal_step wide) ps s)" for s
    by (induction ps arbitrary: s) (simp_all add: portal_inv_step)
  then show ?thesis by (simp add: portal_run_def portal_inv_start)
qed

subsection \<open>After the end\<close>

text \<open>What a session does to the world.\<close>

fun admits :: "portal_event \<Rightarrow> bool" where
  "admits (Completed r f) = True"
| "admits (Devices_requested d) = True"
| "admits (Fd_opened n) = True"
| "admits Lease_acquired = True"
| "admits (Input_sent i) = True"
| "admits (Clipboard_offered x) = True"
| "admits (Clipboard_read r) = (case r of Inl _ \<Rightarrow> False | Inr _ \<Rightarrow> True)"
| "admits _ = False"

definition admitted :: "portal \<Rightarrow> portal_event list" where
  "admitted s = filter admits (po_log s)"

lemma admitted_note [simp]: "admitted (po_note e s) = admitted s @ (if admits e then [e] else [])"
  by (simp add: admitted_def)

lemma writer_log:
  "admitted (writer_check k ready s) = admitted s" "po_closed (writer_check k ready s) = po_closed s"
  "admitted (writer_write k taken s) = admitted s" "po_closed (writer_write k taken s) = po_closed s"
  "admitted (writer_done k s) = admitted s" "po_closed (writer_done k s) = po_closed s"
  "po_file (writer_check k ready s) = po_file s" "po_file (writer_write k taken s) = po_file s" "po_file (writer_done k s) = po_file s"
  "po_pending (writer_check k ready s) = po_pending s" "po_pending (writer_write k taken s) = po_pending s"
  "po_pending (writer_done k s) = po_pending s"
  by (auto simp: writer_check_def writer_write_def writer_done_def Let_def admitted_def split: option.split)

lemma closed_portal_step:
  assumes "po_closed s" "po_pending s = []"
  shows "admitted (portal_step wide p s) = admitted s \<and> po_closed (portal_step wide p s) \<and> po_pending (portal_step wide p s) = [] \<and>
    po_file (portal_step wide p s) = po_file s"
proof (cases p)
  case (Reader_finished k cs)
  with assms show ?thesis by (auto simp: portal_step_def reader_finished_def Let_def admitted_def split: prod.split)
next
  case (Writer_check k r)
  with assms show ?thesis by (simp add: portal_step_def writer_log)
next
  case (Writer_write k r)
  with assms show ?thesis by (simp add: portal_step_def writer_log)
next
  case (Writer_done k)
  with assms show ?thesis by (simp add: portal_step_def writer_log)
qed (use assms in \<open>auto simp: portal_step_def response_def called_def po_finish_def portal_session_closed_def portal_close_def
      portal_input_def no_session_def input_completed_def input_failed_def selection_changed_def read_clipboard_def clip_completed_def
      set_clipboard_def selection_transfer_def Let_def admitted_def split: call_reply.split\<close>)

lemma closed_portal_steps:
  "po_closed s \<Longrightarrow> po_pending s = [] \<Longrightarrow> admitted (fold (portal_step wide) ps s) = admitted s \<and> po_file (fold (portal_step wide) ps s) = po_file s"
proof (induction ps arbitrary: s)
  case (Cons p ps)
  then show ?case using closed_portal_step [OF Cons.prems, of wide p] by simp
qed simp

subsection \<open>The submitted token\<close>

definition submitted :: "portal \<Rightarrow> pystr list" where
  "submitted s = concat (map (\<lambda>e. case e of Devices_requested (Some t) \<Rightarrow> [t] | _ \<Rightarrow> []) (po_log s))"

lemma submitted_note [simp]:
  "submitted (po_note e s) = submitted s @ (case e of Devices_requested (Some t) \<Rightarrow> [t] | _ \<Rightarrow> [])"
  by (simp add: submitted_def)

lemma submitted_upd [simp]:
  "submitted (s\<lparr>po_input_pending := n\<rparr>) = submitted s" "submitted (s\<lparr>po_types := ts\<rparr>) = submitted s"
  "submitted (s\<lparr>po_readers := rs\<rparr>) = submitted s" "submitted (s\<lparr>po_writers := ws\<rparr>) = submitted s"
  "submitted (s\<lparr>po_text := x\<rparr>) = submitted s" "submitted (s\<lparr>po_enabled := en, po_sync := sy\<rparr>) = submitted s"
  "submitted (s\<lparr>po_enabled := en, po_epoch := ep, po_text := x\<rparr>) = submitted s" "submitted (s\<lparr>po_enabled := en, po_epoch := ep\<rparr>) = submitted s" "submitted (s\<lparr>po_pending := ps\<rparr>) = submitted s"
  "submitted (s\<lparr>po_cursor_mode := m\<rparr>) = submitted s" "submitted (s\<lparr>po_session := ss\<rparr>) = submitted s"
  "submitted (s\<lparr>po_session := ss, po_file := f\<rparr>) = submitted s" "submitted (s\<lparr>po_session := ss, po_authorization := a\<rparr>) = submitted s"
  "submitted (s\<lparr>po_session := ss, po_file := f, po_authorization := a\<rparr>) = submitted s"
  by (simp_all add: submitted_def)

lemma submitted_close [simp]: "submitted (portal_close s) = submitted s"
proof -
  have n: "concat (map (\<lambda>x. case (Request_closed \<circ> fst) x of Devices_requested (Some t) \<Rightarrow> [t] | _ \<Rightarrow> []) ps) = ([] :: pystr list)" for ps :: "(nat \<times> stage) list"
    by (induction ps) simp_all
  show ?thesis
    using n by (simp add: portal_close_def Let_def submitted_def release_start_def po_note_def comp_def split: option.split)
qed

lemma submitted_release [simp]: "submitted (release_start s) = submitted s"
  by (simp add: release_start_def submitted_def po_note_def)

lemma close_file [simp]: "po_file (portal_close s) = po_file s"
  by (auto simp: portal_close_def Let_def release_start_def po_note_def split: option.split)

lemma release_file [simp]: "po_file (release_start s) = po_file s"
  by (simp add: release_start_def)

lemma submitted_complete [simp]: "submitted (snd (complete t k r s)) = submitted s" "po_file (snd (complete t k r s)) = po_file s"
  by (simp_all add: complete_def Let_def split: prod.split)

lemma submitted_done [simp]: "submitted (snd (start_done wide t k r s)) = submitted s" "po_file (snd (start_done wide t k r s)) = po_file s"
  by (auto simp: start_done_def submitted_def [of "po_authorization_update x y" for x y] submitted_def [symmetric] split: sum.split prod.split)

lemma submitted_request [simp]: "submitted (snd (po_request wide t g s)) = submitted s" "po_file (snd (po_request wide t g s)) = po_file s"
  by (simp_all add: po_request_def) (simp add: submitted_def)

lemma submitted_open [simp]: "submitted (snd (open_streams wide t result s)) = submitted s"
  by (auto simp: open_streams_def Let_def submitted_def po_note_def split: prod.split sum.split option.split)

lemma submitted_started [simp]: "submitted (snd (started wide t result s)) = submitted s"
proof -
  obtain r u where o: "open_streams wide t result s = (r, u)" by (cases "open_streams wide t result s")
  then have "submitted u = submitted s" using submitted_open [of wide t result s] by simp
  with o show ?thesis
    by (auto simp: started_def split: sum.split prod.split option.split fault.split)
       (metis snd_conv submitted_done(1))+
qed

lemma created_submits:
  assumes "submitted (snd (created wide t result s)) \<noteq> submitted s"
  shows "\<exists>x. submitted (snd (created wide t result s)) = submitted s @ [x] \<and> usable wide (po_file s) = Some x \<and>
    usable wide (po_file (snd (created wide t result s))) = None"
proof -
  let ?s = "s\<lparr>po_session := (case dict_get result ''session_handle'' of PStr h \<Rightarrow> Some h | _ \<Rightarrow> None)\<rparr>"
  obtain x f where b: "begin_restore wide (fst (tn_restore t)) (snd (tn_restore t)) (po_file s) = (Inr (Some x), f)"
    and c: "snd (created wide t result s) = snd (po_request wide t Selecting_devices (po_note (Devices_requested (Some x))
              (po_note (Changed (Authorization Restoring)) (?s\<lparr>po_file := f, po_authorization := Some Restoring\<rparr>))))"
    using assms by (auto simp: created_def Let_def split: if_splits prod.splits sum.splits option.splits)
  show ?thesis using begin_restore_submits [OF b] by (simp add: c)
qed

lemma submitted_clipboard:
  "submitted (clip_completed notify r s) = submitted s" "submitted (read_clipboard notify opened s) = submitted s"
  "submitted (reader_finished k cs s) = submitted s" "submitted (selection_changed session types owner opened s) = submitted s"
  "submitted (snd (set_clipboard text accepted s)) = submitted s" "submitted (selection_transfer session mime serial opened s) = submitted s"
  "submitted (writer_check k ready s) = submitted s" "submitted (writer_write k taken s) = submitted s" "submitted (writer_done k s) = submitted s"
proof -
  show c: "submitted (clip_completed notify r s) = submitted s" for notify r s by (simp add: clip_completed_def split: sum.split)
  show r: "submitted (read_clipboard notify opened s) = submitted s" for notify opened s by (simp add: read_clipboard_def c)
  show "submitted (reader_finished k cs s) = submitted s" by (simp add: reader_finished_def Let_def c split: prod.split)
  show "submitted (selection_changed session types owner opened s) = submitted s" by (simp add: selection_changed_def Let_def r)
  show "submitted (snd (set_clipboard text accepted s)) = submitted s" by (simp add: set_clipboard_def Let_def split: option.split)
qed (simp_all add: selection_transfer_def writer_check_def writer_write_def writer_done_def Let_def split: option.split)

lemma submitted_input: "submitted (input_failed e s) = submitted s" "submitted (snd (portal_input i accepted s)) = submitted s"
proof -
  show f: "submitted (input_failed e s) = submitted s" for e s by (simp add: input_failed_def)
  show "submitted (snd (portal_input i accepted s)) = submitted s" by (simp add: portal_input_def f)
qed

lemma finish_submits:
  assumes "submitted (snd (po_finish wide t k r s)) \<noteq> submitted s"
  shows "\<exists>x. submitted (snd (po_finish wide t k r s)) = submitted s @ [x] \<and> usable wide (po_file s) = Some x \<and>
    usable wide (po_file (snd (po_finish wide t k r s))) = None"
proof (cases "map_of (po_pending s) k")
  case (Some g)
  let ?u = "s\<lparr>po_pending := filter (\<lambda>p. fst p \<noteq> k) (po_pending s)\<rparr>"
  show ?thesis
  proof (cases "\<exists>result. g = Creating \<and> r = Inr result")
    case True
    then obtain result where "g = Creating" "r = Inr result" by blast
    with Some assms created_submits [of wide t result ?u] show ?thesis by (simp add: po_finish_def stage_done_def)
  next
    case False
    with Some assms show ?thesis
      by (auto simp: po_finish_def stage_done_def selected_devices_def selected_sources_def split: sum.splits stage.splits if_splits)
  qed
qed (use assms in \<open>simp add: po_finish_def\<close>)

subsection \<open>Bounds\<close>

definition bounded :: "portal \<Rightarrow> bool" where
  "bounded s \<longleftrightarrow> po_input_pending s \<le> 64 \<and> length (po_readers s) \<le> 2 \<and> length (po_writers s) \<le> 4 \<and>
     (\<forall>w \<in> set (po_writers s). length (wr_data w) \<le> CLIPBOARD_LIMIT) \<and>
     (\<forall>x. po_text s = Some x \<longrightarrow> (\<exists>b. utf8_encode x = Some b \<and> length b \<le> CLIPBOARD_LIMIT))"

definition loads :: "portal \<Rightarrow> nat \<times> (nat \<times> bool) list \<times> clip_writer list \<times> pystr option" where
  "loads s = (po_input_pending s, po_readers s, po_writers s, po_text s)"

lemma loads_bounded: "loads u = loads s \<Longrightarrow> bounded s \<Longrightarrow> bounded u"
  by (simp add: loads_def bounded_def)

lemma loads_note [simp]: "loads (po_note e s) = loads s"
  by (simp add: loads_def po_note_def)

lemma loads_close [simp]: "loads (portal_close s) = loads s"
  by (simp add: portal_close_def Let_def loads_def release_start_def po_note_def split: option.split)

lemma loads_release [simp]: "loads (release_start s) = loads s"
  by (simp add: loads_def release_start_def po_note_def)

lemma loads_complete [simp]: "loads (snd (complete t k r s)) = loads s"
  by (simp add: complete_def Let_def split: prod.split)

lemma loads_upd [simp]:
  "loads (s\<lparr>po_pending := ps\<rparr>) = loads s" "loads (s\<lparr>po_pending := ps, po_next := n\<rparr>) = loads s" "loads (s\<lparr>po_session := ss\<rparr>) = loads s"
  "loads (s\<lparr>po_session := ss, po_file := f\<rparr>) = loads s" "loads (s\<lparr>po_session := ss, po_authorization := a\<rparr>) = loads s"
  "loads (s\<lparr>po_session := ss, po_file := f, po_authorization := a\<rparr>) = loads s" "loads (s\<lparr>po_cursor_mode := m\<rparr>) = loads s"
  "loads (s\<lparr>po_authorization := a\<rparr>) = loads s" "loads (s\<lparr>po_types := ts\<rparr>) = loads s"
  "loads (s\<lparr>po_enabled := en, po_sync := sy\<rparr>) = loads s"
  by (simp_all add: loads_def)

lemma loads_done [simp]: "loads (snd (start_done wide t k r s)) = loads s"
  by (auto simp: start_done_def split: sum.split prod.split)

lemma loads_request [simp]: "loads (snd (po_request wide t g s)) = loads s"
  by (simp add: po_request_def)

lemma loads_open: "loads (snd (open_streams wide t result s)) = loads s"
  by (auto simp: open_streams_def Let_def loads_def po_note_def split: prod.split sum.split option.split)

lemma loads_started [simp]: "loads (snd (started wide t result s)) = loads s"
proof -
  obtain r u where o: "open_streams wide t result s = (r, u)" by (cases "open_streams wide t result s")
  then have "loads u = loads s" using loads_open [of wide t result s] by simp
  with o show ?thesis
    by (auto simp: started_def split: sum.split prod.split option.split fault.split) (metis snd_conv loads_done)+
qed

lemma loads_created [simp]: "loads (snd (created wide t result s)) = loads s"
  by (auto simp: created_def Let_def split: prod.split sum.split)

lemma loads_finish [simp]: "loads (snd (po_finish wide t k r s)) = loads s"
  by (auto simp: po_finish_def stage_done_def selected_devices_def selected_sources_def split: option.split sum.split stage.split)

lemma bounded_clip: "bounded (clip_completed notify r s) = bounded s"
  by (auto simp: clip_completed_def bounded_def split: sum.split)

lemma bounded_read: "bounded s \<Longrightarrow> bounded (read_clipboard notify opened s)"
  by (auto simp: read_clipboard_def bounded_clip) (auto simp: bounded_def)

lemma bounded_step: "bounded s \<Longrightarrow> bounded (portal_step wide p s)"
proof (cases p)
  case (Send_input i accepted)
  assume B: "bounded s"
  then have "bounded (po_note (Input_sent i) (s\<lparr>po_input_pending := po_input_pending s + 1\<rparr>))" if "\<not> po_input_pending s \<ge> 64"
    using that by (simp add: bounded_def)
  with B Send_input show ?thesis
    by (simp add: portal_step_def portal_input_def input_failed_def loads_bounded [OF _ B])
next
  case (Input_completed ok)
  assume B: "bounded s"
  then have "bounded (s\<lparr>po_input_pending := po_input_pending s - 1\<rparr>)" by (auto simp: bounded_def)
  with B Input_completed show ?thesis
    by (auto simp: portal_step_def input_completed_def input_failed_def Let_def intro: loads_bounded [rotated])
next
  case (Selection_changed session types owner opened)
  assume B: "bounded s"
  then have "bounded (s\<lparr>po_types := selection_types types\<rparr>)" by (rule loads_bounded [rotated]) simp
  with B Selection_changed show ?thesis by (auto simp: portal_step_def selection_changed_def Let_def bounded_read)
next
  case (Reader_finished k cs)
  assume B: "bounded s"
  then have "bounded (s\<lparr>po_readers := take k (po_readers s) @ drop (Suc k) (po_readers s)\<rparr>)" if "k < length (po_readers s)"
    using that by (auto simp: bounded_def)
  with B Reader_finished show ?thesis by (auto simp: portal_step_def reader_finished_def Let_def bounded_clip split: prod.split)
next
  case (Set_clipboard x accepted)
  assume "bounded s"
  with Set_clipboard show ?thesis
    by (auto simp: portal_step_def set_clipboard_def Let_def split: option.split) (auto simp: bounded_def)
next
  case (Selection_transfer session mime serial opened)
  assume "bounded s"
  with Selection_transfer show ?thesis
    by (auto simp: portal_step_def selection_transfer_def) (auto simp: bounded_def)
next
  case (Writer_check k r)
  assume "bounded s"
  with Writer_check show ?thesis
    by (auto simp: portal_step_def writer_check_def Let_def bounded_def dest!: set_update_subset_insert [THEN subsetD])
next
  case (Writer_write k r)
  assume "bounded s"
  with Writer_write show ?thesis
    by (auto simp: portal_step_def writer_write_def Let_def bounded_def dest!: set_update_subset_insert [THEN subsetD]
        intro!: le_trans [OF diff_le_self] split: option.split)
next
  case (Writer_done k)
  assume "bounded s"
  with Writer_done show ?thesis
    by (auto simp: portal_step_def writer_done_def Let_def bounded_def dest: in_set_takeD in_set_dropD)
next
  case Client_retire
  assume "bounded s"
  with Client_retire show ?thesis by (simp add: portal_step_def bounded_def)
next
  case (Read_clipboard opened)
  assume "bounded s"
  with Read_clipboard show ?thesis by (simp add: portal_step_def bounded_read)
qed (auto simp: portal_step_def response_def called_def portal_session_closed_def split: call_reply.split intro: loads_bounded [rotated])

lemma bounded_run: "bounded (portal_run wide t unattended remote screen lease ps f)"
proof -
  have "bounded s \<Longrightarrow> bounded (fold (portal_step wide) ps s)" for s
    by (induction ps arbitrary: s) (simp_all add: bounded_step)
  moreover have "loads (snd (portal_start wide t unattended remote screen lease (new_portal f))) = loads (new_portal f)"
    by (auto simp: portal_start_def split: sum.split) (simp_all add: loads_def)
  then have "bounded (snd (portal_start wide t unattended remote screen lease (new_portal f)))"
    by (rule loads_bounded) (simp add: bounded_def new_portal_def)
  ultimately show ?thesis by (simp add: portal_run_def)
qed

subsection \<open>Properties\<close>


definition some_turn :: turn where
  "some_turn = \<lparr>tn_restore = (Lock_held, Stored), tn_stage = (Lock_held, Stored), tn_save = (Lock_held, Stored), tn_inspect = Lock_held,
     tn_cursor_modes = PInt 7, tn_clipboard_version = 1, tn_clipboard_request = True, tn_pipewire = Some 9,
     tn_client = (\<lambda>k. (False, if k = 0 then Some Bus_error else None))\<rparr>"


text \<open>C23: A closed session holds nothing, neither a pending request, the lease, a subscription nor a descriptor it was given,
  and what still arrives for it changes nothing: a late consent asks for no device, opens no stream, sends no input,
  delivers no clipboard text, answers nobody and leaves the saved permission alone.\<close>
theorem late_answers_admit_nothing:
  fixes wide t unattended remote screen lease ps qs f
  defines "s \<equiv> portal_run wide t unattended remote screen lease ps f"
  assumes "po_closed s"
  shows "po_pending s = [] \<and> \<not> po_lease s \<and> po_subscriptions s = 0 \<and> fds_closed s = fds_opened s \<and>
    admitted (fold (portal_step wide) qs s) = admitted s \<and> po_file (fold (portal_step wide) qs s) = po_file s"
proof -
  have "portal_inv s" unfolding s_def by (rule portal_inv_run)
  with assms(2) have i: "po_pending s = []" "\<not> po_lease s" "po_fd s = None" "po_subscriptions s = 0" "fds_ok s"
    by (auto simp: portal_inv_def)
  from i(5,3) have "fds_closed s = fds_opened s" by (simp add: fds_ok_def)
  with i closed_portal_steps [OF assms(2) i(1)] show ?thesis by simp
qed

lemma late_answers_admit_nothing_witness:
  "admitted (fold (portal_step (\<lambda>_. None)) [Answer 0 0 [] some_turn]
     (portal_run (\<lambda>_. None) some_turn False 1 1 Lease_taken [Close_portal] No_file)) = [Lease_acquired]"
proof -
  let ?s = "portal_run (\<lambda>_. None) some_turn False 1 1 Lease_taken [Close_portal] No_file"
  have "po_closed ?s" by (simp add: portal_run_def portal_step_def)
  from late_answers_admit_nothing [OF this, of "[Answer 0 0 [] some_turn]"]
  have "admitted (fold (portal_step (\<lambda>_. None)) [Answer 0 0 [] some_turn] ?s) = admitted ?s" by blast
  also have "\<dots> = [Lease_acquired]" by code_simp
  finally show ?thesis .
qed

text \<open>C22: A restore token that goes to the portal was the one the file offered, and by then the file offers none: if the
  helper is killed at that moment, no later start can submit the token again.\<close>
theorem submitted_token_was_consumed:
  assumes "submitted (portal_step wide p s) \<noteq> submitted s"
  shows "\<exists>x. submitted (portal_step wide p s) = submitted s @ [x] \<and> usable wide (po_file s) = Some x \<and>
    usable wide (po_file (portal_step wide p s)) = None"
proof (cases p)
  case (Answer k status result t)
  with assms finish_submits show ?thesis by (simp add: portal_step_def response_def)
next
  case (Reply k g reply t)
  with assms finish_submits show ?thesis by (cases reply) (simp_all add: portal_step_def called_def)
qed (use assms in \<open>simp_all add: portal_step_def submitted_clipboard submitted_input portal_session_closed_def input_completed_def Let_def split: if_splits\<close>)

lemma submitted_token_was_consumed_witness:
  "\<exists>s p. submitted (portal_step (\<lambda>_. None) p s) \<noteq> submitted s \<and>
     (\<exists>x. submitted (portal_step (\<lambda>_. None) p s) = submitted s @ [x] \<and> usable (\<lambda>_. None) (po_file s) = Some x)"
proof -
  let ?w = "\<lambda>_. None" and ?t = "py ''a''"
  let ?g = "\<lparr>gr_state = Saved, gr_token = ?t, gr_candidate = []\<rparr>" and ?u = "\<lparr>gr_state = Unknown, gr_token = ?t, gr_candidate = []\<rparr>"
  let ?s = "new_portal (written ?g)\<lparr>po_pending := [(0, Creating)], po_next := 1, po_version := 2, po_unattended := True\<rparr>"
  let ?p = "Answer 0 0 [(py ''session_handle'', PStr (PATH @ py ''/session/s''))] some_turn"
  have ok: "grant_ok ?g" "grant_ok ?u" using small_grant(1,2) by (simp_all add: grant_ok_def)
  have b: "begin_restore ?w Lock_held Stored (written ?g) = (Inr (Some ?t), written ?u)"
    using small_grant(2) small_grant(3) [of Saved] written_reads [OF ok(1), of ?w] save_stored [OF ok(2)]
    by (simp add: begin_restore_def Let_def)
  have h: "session_handle_ok (PStr (PATH @ py ''/session/s''))" by code_simp
  have "submitted (portal_step ?w ?p ?s) = [?t]"
    using h by (simp add: portal_step_def response_def po_finish_def stage_done_def created_def dict_get_def new_portal_def b some_turn_def)
       (simp add: submitted_def)
  moreover have "submitted ?s = []" by (simp add: submitted_def new_portal_def)
  ultimately have ne: "submitted (portal_step ?w ?p ?s) \<noteq> submitted ?s" by simp
  from submitted_token_was_consumed [OF this] ne show ?thesis by blast
qed

text \<open>At most 64 inputs are under way, two texts being read and four being written, none longer than a mebibyte of
  UTF-8, whatever arrives.\<close>
theorem portal_bounded:
  fixes wide t unattended remote screen lease ps f
  defines "s \<equiv> portal_run wide t unattended remote screen lease ps f"
  shows "po_input_pending s \<le> 64 \<and> length (po_readers s) \<le> 2 \<and> length (po_writers s) \<le> 4 \<and>
    (\<forall>w \<in> set (po_writers s). length (wr_data w) \<le> 1048576)"
  using bounded_run [of wide t unattended remote screen lease ps f] unfolding s_def [symmetric] bounded_def CLIPBOARD_LIMIT_def by simp

end
