(* ===== verification/Login.thy ===== *)
theory Login
  imports Portal
begin

section \<open>The login the host desktop belongs to (host\_desktop\_identity.py)\<close>

text \<open>
  The helper shares the one graphical session the user has at the machine. \<open>logind\<close> is asked for it, its
  property signals are followed, and for X11 the display and the cookie file are found in the environment
  of the processes of that session. The properties of a session are a record of what \<open>logind\<close> documents,
  a missing one being \<open>None\<close>; the calls to \<open>logind\<close>, \<open>lstat\<close> and the files of \<open>/proc\<close> are arguments.
\<close>

subsection \<open>Selection of the session\<close>

record login =
  lg_id :: pystr
  lg_path :: pystr
  lg_user :: "int option"
  lg_type :: "pystr option"
  lg_class :: "pystr option"
  lg_active :: "bool option"
  lg_remote :: "bool option"
  lg_seat :: "pystr option"
  lg_locked :: "bool option"
  lg_scope :: "pystr option"
  lg_display :: "pystr option"

definition graphical :: "int \<Rightarrow> login \<Rightarrow> bool" where
  "graphical uid r \<longleftrightarrow>
     lg_user r = Some uid \<and> lg_type r \<in> {Some (py ''wayland''), Some (py ''x11'')} \<and> lg_class r = Some (py ''user'') \<and>
     lg_active r = Some True \<and> lg_remote r = Some False \<and> lg_seat r \<notin> {None, Some []}"

definition select_session :: "int \<Rightarrow> login list \<Rightarrow> code + login" where
  "select_session uid records =
     (case filter (graphical uid) records of
        [] \<Rightarrow> Inl (Host_code ''DESKTOP_SESSION_UNAVAILABLE'')
      | [r] \<Rightarrow> Inr r
      | _ \<Rightarrow> Inl (Host_code ''DESKTOP_SESSION_AMBIGUOUS''))"

text \<open>One entry of \<open>ListSessions\<close>: id, user, seat and path. \<open>GetAll\<close> of a path may fail.\<close>

type_synonym session_entry = "pystr \<times> int \<times> pystr \<times> pystr"

fun read_sessions :: "int \<Rightarrow> (pystr \<Rightarrow> login option) \<Rightarrow> session_entry list \<Rightarrow> fault + login list" where
  "read_sessions uid props [] = Inr []"
| "read_sessions uid props ((sid, user, seat, path) # es) =
     (if user \<noteq> uid \<or> seat = [] then read_sessions uid props es
      else
        (case props path of
           None \<Rightarrow> Inl Bus_error
         | Some p \<Rightarrow> map_sum id (Cons (p\<lparr>lg_id := sid, lg_path := path\<rparr>)) (read_sessions uid props es)))"

definition current_login :: "int \<Rightarrow> session_entry list option \<Rightarrow> (pystr \<Rightarrow> login option) \<Rightarrow> fault + login" where
  "current_login uid sessions props =
     (case sessions of
        None \<Rightarrow> Inl Bus_error
      | Some es \<Rightarrow>
          (case read_sessions uid props es of
             Inl f \<Rightarrow> Inl f
           | Inr records \<Rightarrow> map_sum Desktop id (select_session uid records)))"

subsection \<open>The state of the login\<close>

record identity =
  hi_selected :: login
  hi_observed :: "login option"

definition hi_backend :: "identity \<Rightarrow> pystr option" where
  "hi_backend i = lg_type (hi_selected i)"

definition login_state :: "identity \<Rightarrow> status" where
  "login_state i =
     (case hi_observed i of
        None \<Rightarrow> SessionUnavailable
      | Some c \<Rightarrow>
          if lg_id c \<noteq> lg_id (hi_selected i) \<or> lg_type c \<noteq> hi_backend i then UserSwitched
          else if lg_active c \<noteq> Some True then SessionUnavailable
          else if lg_locked c = Some False then Ready else Locked)"

text \<open>\<open>lstat\<close> of the runtime directory and of the bus socket: \<open>None\<close> raises \<open>OSError\<close>.\<close>

definition session_bus_ok :: "file_mode option \<Rightarrow> file_mode option \<Rightarrow> bool \<Rightarrow> fault option" where
  "session_bus_ok directory socket connects =
     (case directory of
        None \<Rightarrow> Some Other_error
      | Some d \<Rightarrow>
          if \<not> private_file d then Some (Desktop (Host_code ''SESSION_BUS_UNAVAILABLE''))
          else
            (case socket of
               None \<Rightarrow> Some Other_error
             | Some m \<Rightarrow>
                 if \<not> fm_kind m \<or> \<not> fm_own m then Some (Desktop (Host_code ''SESSION_BUS_UNAVAILABLE''))
                 else if connects then None else Some Bus_error))"

definition new_identity :: "fault + login \<Rightarrow> file_mode option \<Rightarrow> file_mode option \<Rightarrow> bool \<Rightarrow> fault + identity" where
  "new_identity current directory socket connects =
     (case current of
        Inl f \<Rightarrow> Inl f
      | Inr r \<Rightarrow>
          (case session_bus_ok directory socket connects of
             Some f \<Rightarrow> Inl f
           | None \<Rightarrow> Inr \<lparr>hi_selected = r, hi_observed = Some r\<rparr>))"

text \<open>\<open>refresh\<close> swallows a \<open>DesktopError\<close> and a \<open>GLib.Error\<close>; nothing else is raised by \<open>current\<close>.\<close>

definition refresh_identity :: "fault + login \<Rightarrow> identity \<Rightarrow> status \<times> identity" where
  "refresh_identity current i =
     (let i' = i\<lparr>hi_observed := (case current of Inl _ \<Rightarrow> None | Inr r \<Rightarrow> Some r)\<rparr> in (login_state i', i'))"

definition newer :: "'a option \<Rightarrow> 'a option \<Rightarrow> 'a option" where
  "newer a b = (case a of None \<Rightarrow> b | Some _ \<Rightarrow> a)"

text \<open>\<open>observed.update(values)\<close>: the values of a signal never hold \<open>path\<close> or \<open>id\<close>.\<close>

definition login_update :: "login \<Rightarrow> login \<Rightarrow> login" where
  "login_update v r = r\<lparr>lg_user := newer (lg_user v) (lg_user r), lg_type := newer (lg_type v) (lg_type r),
     lg_class := newer (lg_class v) (lg_class r), lg_active := newer (lg_active v) (lg_active r),
     lg_remote := newer (lg_remote v) (lg_remote r), lg_seat := newer (lg_seat v) (lg_seat r),
     lg_locked := newer (lg_locked v) (lg_locked r), lg_scope := newer (lg_scope v) (lg_scope r),
     lg_display := newer (lg_display v) (lg_display r)\<rparr>"

text \<open>A property signal: what \<open>changed\<close> is called with, if it is.\<close>

definition properties_changed :: "bool \<Rightarrow> login \<Rightarrow> bool \<Rightarrow> fault + login \<Rightarrow> identity \<Rightarrow> status option \<times> identity" where
  "properties_changed session_interface v invalidated current i =
     (if \<not> session_interface then (None, i)
      else
        let i' = (case hi_observed i of
                    None \<Rightarrow> snd (refresh_identity current i)
                  | Some r \<Rightarrow> if invalidated then snd (refresh_identity current i) else i\<lparr>hi_observed := Some (login_update v r)\<rparr>)
        in (Some (login_state i'), i'))"

definition lock_login :: "bool \<Rightarrow> identity \<Rightarrow> fault option" where
  "lock_login accepted i =
     (if login_state i \<noteq> Ready then Some (Desktop (Host_code ''DESKTOP_NOT_ACTIVE''))
      else if accepted then None else Some Bus_error)"

subsection \<open>X11 credentials\<close>

primrec split_on :: "('a \<Rightarrow> bool) \<Rightarrow> 'a list \<Rightarrow> 'a list list" where
  "split_on P [] = [[]]"
| "split_on P (x # xs) =
     (if P x then [] # split_on P xs else (case split_on P xs of [] \<Rightarrow> [[x]] | w # ws \<Rightarrow> (x # w) # ws))"

text \<open>The line boundaries of \<open>str.splitlines\<close>; the empty lines it would not give have no path.\<close>

definition line_break :: "nat \<Rightarrow> bool" where
  "line_break c \<longleftrightarrow> c \<in> {10, 11, 12, 13, 28, 29, 30, 133, 0x2028, 0x2029}"

definition after_colon :: "pystr \<Rightarrow> pystr" where
  "after_colon s = tl (dropWhile (\<lambda>c. c \<noteq> 58) s)"

text \<open>\<open>line.split(':', 2)[-1]\<close>.\<close>

definition cgroup_path :: "pystr \<Rightarrow> pystr" where
  "cgroup_path line =
     (if 58 \<notin> set line then line
      else let r = after_colon line in if 58 \<notin> set r then r else after_colon r)"

definition in_scope :: "pystr \<Rightarrow> pystr \<Rightarrow> bool" where
  "in_scope scope cgroup \<longleftrightarrow>
     list_ex (\<lambda>line. scope \<in> set (split_on (\<lambda>c. c = 47) (cgroup_path line))) (split_on line_break cgroup)"

definition decimal :: "nat \<Rightarrow> bool" where
  "decimal c \<longleftrightarrow> 48 \<le> c \<and> c \<le> 57"

definition alphanumeric :: "nat \<Rightarrow> bool" where
  "alphanumeric c \<longleftrightarrow> decimal c \<or> 65 \<le> c \<and> c \<le> 90 \<or> 97 \<le> c \<and> c \<le> 122"

text \<open>\<open>session-[A-Za-z0-9]+\.scope\<close> and \<open>:[0-9]+(?:\.[0-9]+)?\<close>.\<close>

definition scope_name :: "pystr \<Rightarrow> bool" where
  "scope_name s \<longleftrightarrow>
     (let p = py ''session-''; q = py ''.scope''; m = take (length s - length p - length q) (drop (length p) s)
      in s = p @ m @ q \<and> m \<noteq> [] \<and> list_all alphanumeric m)"

definition display_name :: "pystr \<Rightarrow> bool" where
  "display_name s \<longleftrightarrow>
     (case s of
        [] \<Rightarrow> False
      | c # r \<Rightarrow>
          let d = takeWhile decimal r; q = dropWhile decimal r
          in c = 58 \<and> d \<noteq> [] \<and> (q = [] \<or> (hd q = 46 \<and> tl q \<noteq> [] \<and> list_all decimal (tl q))))"

text \<open>A process: who owns it and its two files, \<open>None\<close> where opening or reading fails.\<close>

record proc =
  pr_name :: pystr
  pr_uid :: "int option"
  pr_cgroup :: "bytes option"
  pr_environ :: "bytes option"

definition proc_file :: "bytes option \<Rightarrow> bytes option" where
  "proc_file f = (case f of None \<Rightarrow> None | Some b \<Rightarrow> if length b > 1048576 then None else Some b)"

definition assignments :: "bytes \<Rightarrow> (bytes \<times> bytes) list" where
  "assignments b = map (\<lambda>e. (takeWhile (\<lambda>c. c \<noteq> 61) e, tl (dropWhile (\<lambda>c. c \<noteq> 61) e)))
     (filter (\<lambda>e. 61 \<in> set e) (split_on (\<lambda>c. c = 0) b))"

definition environ_get :: "bytes \<Rightarrow> string \<Rightarrow> bytes" where
  "environ_get b name = (case map_of (rev (assignments b)) (py name) of None \<Rightarrow> [] | Some v \<Rightarrow> v)"

text \<open>What one process says, for a session display \<open>shown\<close>; \<open>home_cookie\<close> is \<open>~/.Xauthority\<close>, \<open>None\<close> without an account.\<close>

definition credentials_of ::
  "int \<Rightarrow> pystr \<Rightarrow> pystr \<Rightarrow> pystr option \<Rightarrow> (pystr \<Rightarrow> file_mode option) \<Rightarrow> proc \<Rightarrow> (pystr \<times> pystr) option" where
  "credentials_of uid scope shown home_cookie lstat p =
     (if pr_name p = [] \<or> \<not> list_all decimal (pr_name p) then None
      else if pr_uid p \<noteq> Some uid then None
      else
        (case Option.bind (proc_file (pr_cgroup p)) utf8_decode of
           None \<Rightarrow> None
         | Some cgroup \<Rightarrow>
             if \<not> in_scope scope cgroup then None
             else
               (case proc_file (pr_environ p) of
                  None \<Rightarrow> None
                | Some b \<Rightarrow>
                    (case utf8_decode (environ_get b ''DISPLAY'') of
                       None \<Rightarrow> None
                     | Some name \<Rightarrow>
                         if \<not> display_name name \<or> (shown \<noteq> [] \<and> name \<noteq> shown) then None
                         else
                           (case (case utf8_decode (environ_get b ''XAUTHORITY'') of
                                    None \<Rightarrow> None | Some a \<Rightarrow> if a = [] then home_cookie else Some a) of
                              None \<Rightarrow> None
                            | Some authority \<Rightarrow>
                                if take 1 authority \<noteq> [47] then None
                                else
                                  (case lstat authority of
                                     None \<Rightarrow> None
                                   | Some m \<Rightarrow> if private_file m then Some (name, authority) else None))))))"

fun remdups_found :: "(pystr \<times> pystr) list \<Rightarrow> (pystr \<times> pystr) option list \<Rightarrow> (pystr \<times> pystr) list" where
  "remdups_found pairs [] = pairs"
| "remdups_found pairs (None # xs) = remdups_found pairs xs"
| "remdups_found pairs (Some x # xs) = remdups_found (List.insert x pairs) xs"

definition x11_credentials ::
  "login \<Rightarrow> int \<Rightarrow> pystr option \<Rightarrow> (pystr \<Rightarrow> file_mode option) \<Rightarrow> proc list \<Rightarrow> code + pystr \<times> pystr" where
  "x11_credentials r uid home_cookie lstat procs =
     (let scope = (case lg_scope r of None \<Rightarrow> [] | Some x \<Rightarrow> x); shown = (case lg_display r of None \<Rightarrow> [] | Some x \<Rightarrow> x)
      in if lg_type r \<noteq> Some (py ''x11'') \<or> \<not> scope_name scope then Inl (Host_code ''X11_SESSION_UNAVAILABLE'')
         else
           (case remdups_found [] (map (credentials_of uid scope shown home_cookie lstat) procs) of
              [] \<Rightarrow> Inl (Host_code ''X11_SESSION_UNAVAILABLE'')
            | [pair] \<Rightarrow> Inr pair
            | _ \<Rightarrow> Inl (Host_code ''X11_SESSION_AMBIGUOUS'')))"

lemma set_remdups_found: "set (remdups_found pairs xs) = set pairs \<union> {x. Some x \<in> set xs}"
  by (induction pairs xs rule: remdups_found.induct) auto

lemma credentials_of_Some:
  assumes "credentials_of uid scope shown home_cookie lstat p = Some (name, authority)"
  shows "pr_uid p = Some uid" "\<exists>cgroup. Option.bind (pr_cgroup p) utf8_decode = Some cgroup \<and> in_scope scope cgroup"
    "display_name name" "shown = [] \<or> shown = name" "\<exists>m. lstat authority = Some m \<and> private_file m"
proof -
  note d = assms [unfolded credentials_of_def]
  show u: "pr_uid p = Some uid" using d by (simp split: if_split_asm)
  obtain cgroup where c: "Option.bind (proc_file (pr_cgroup p)) utf8_decode = Some cgroup" "in_scope scope cgroup"
    using d by (simp split: if_split_asm option.split_asm)
  then show "\<exists>cgroup. Option.bind (pr_cgroup p) utf8_decode = Some cgroup \<and> in_scope scope cgroup"
    by (auto simp: proc_file_def split: option.splits if_splits)
  show "display_name name" "shown = [] \<or> shown = name" "\<exists>m. lstat authority = Some m \<and> private_file m"
    using d c by (simp_all split: if_split_asm option.split_asm) blast+
qed

subsection \<open>Properties\<close>


text \<open>The display and cookie used for X11 come from a process of the user in the scope of the selected session, the
  cookie being a private regular file of the user; every other process of that kind that names usable credentials
  names the same ones.\<close>
theorem credentials_from_the_session:
  assumes "x11_credentials r uid home_cookie lstat procs = Inr (name, authority)"
  shows "\<exists>p \<in> set procs. \<exists>scope cgroup. pr_uid p = Some uid \<and> lg_scope r = Some scope \<and> scope_name scope \<and>
      Option.bind (pr_cgroup p) utf8_decode = Some cgroup \<and> in_scope scope cgroup \<and> display_name name \<and>
      (lg_display r \<in> {None, Some [], Some name}) \<and> (\<exists>m. lstat authority = Some m \<and> private_file m) \<and>
      (\<forall>q \<in> set procs. \<forall>shown x. shown = (case lg_display r of None \<Rightarrow> [] | Some y \<Rightarrow> y) \<longrightarrow>
         credentials_of uid scope shown home_cookie lstat q = Some x \<longrightarrow> x = (name, authority))"
proof -
  define scope where "scope = (case lg_scope r of None \<Rightarrow> [] | Some x \<Rightarrow> x)"
  define shown where "shown = (case lg_display r of None \<Rightarrow> [] | Some x \<Rightarrow> x)"
  let ?c = "credentials_of uid scope shown home_cookie lstat"
  have sc: "scope_name scope" and l: "remdups_found [] (map ?c procs) = [(name, authority)]"
    using assms unfolding x11_credentials_def scope_def [symmetric] shown_def [symmetric] Let_def by (auto split: if_splits list.splits)
  from l have found: "{x. Some x \<in> ?c ` set procs} = {(name, authority)}"
    using set_remdups_found [of "[]" "map ?c procs"] by simp
  have c: "Some x \<in> ?c ` set procs \<longleftrightarrow> x = (name, authority)" for x
    using found by blast
  then obtain p where p: "p \<in> set procs" "?c p = Some (name, authority)" by (metis imageE)
  have some: "lg_scope r = Some scope"
    using sc by (cases "lg_scope r") (simp_all add: scope_def scope_name_def py_def)
  note k = credentials_of_Some [OF p(2)]
  have d: "lg_display r \<in> {None, Some [], Some name}" if "shown = [] \<or> shown = name"
    using that by (auto simp: shown_def split: option.splits)
  have all: "\<forall>q \<in> set procs. \<forall>x. ?c q = Some x \<longrightarrow> x = (name, authority)"
    using c by (metis imageI)
  show ?thesis
  proof (rule bexI [OF _ p(1)])
    from k(2) obtain cgroup where "Option.bind (pr_cgroup p) utf8_decode = Some cgroup" "in_scope scope cgroup" by blast
    with k(1,3,5) some sc d [OF k(4)] all [unfolded shown_def]
    show "\<exists>scope cgroup. pr_uid p = Some uid \<and> lg_scope r = Some scope \<and> scope_name scope \<and>
      Option.bind (pr_cgroup p) utf8_decode = Some cgroup \<and> in_scope scope cgroup \<and> display_name name \<and>
      (lg_display r \<in> {None, Some [], Some name}) \<and> (\<exists>m. lstat authority = Some m \<and> private_file m) \<and>
      (\<forall>q \<in> set procs. \<forall>shown x. shown = (case lg_display r of None \<Rightarrow> [] | Some y \<Rightarrow> y) \<longrightarrow>
         credentials_of uid scope shown home_cookie lstat q = Some x \<longrightarrow> x = (name, authority))"
      by (intro exI [of _ scope] exI [of _ cgroup]) simp
  qed
qed

definition some_login :: login where
  "some_login = \<lparr>lg_id = py ''2'', lg_path = py ''/s'', lg_user = Some 1000, lg_type = Some (py ''x11''), lg_class = Some (py ''user''),
     lg_active = Some True, lg_remote = Some False, lg_seat = Some (py ''seat0''), lg_locked = Some False,
     lg_scope = Some (py ''session-2.scope''), lg_display = None\<rparr>"

definition some_proc :: proc where
  "some_proc = \<lparr>pr_name = py ''77'', pr_uid = Some 1000, pr_cgroup = Some (py ''0::/user.slice/session-2.scope'' @ [10]),
     pr_environ = Some (py ''DISPLAY=:0'' @ 0 # py ''XAUTHORITY=/c'')\<rparr>"

lemma some_proc_credentials:
  "credentials_of 1000 (py ''session-2.scope'') [] None (\<lambda>_. Some \<lparr>fm_kind = True, fm_own = True, fm_private = True\<rparr>) some_proc =
     Some (py '':0'', py ''/c'')"
proof -
  let ?c = "py ''0::/user.slice/session-2.scope'' @ [10]" and ?e = "py ''DISPLAY=:0'' @ 0 # py ''XAUTHORITY=/c''"
  have d: "utf8_decode ?c = Some ?c" "utf8_decode (py '':0'') = Some (py '':0'')" "utf8_decode (py ''/c'') = Some (py ''/c'')"
    by (rule utf8_decode_encode, simp add: utf8_encode_def py_def scalar_def surrogate_def utf8_char_def)+
  have s: "in_scope (py ''session-2.scope'') ?c"
    by (simp add: in_scope_def line_break_def cgroup_path_def after_colon_def py_def)
  have e: "environ_get ?e ''DISPLAY'' = py '':0''" "environ_get ?e ''XAUTHORITY'' = py ''/c''" by code_simp+
  have n: "list_all decimal (py ''77'')" "py ''77'' \<noteq> []" "display_name (py '':0'')" "py ''/c'' \<noteq> []" "take 1 (py ''/c'') = [47]"
    by code_simp+
  have l: "proc_file (Some ?c) = Some ?c" "proc_file (Some ?e) = Some ?e" by (simp_all add: proc_file_def py_def)
  show ?thesis using n by (simp add: credentials_of_def some_proc_def private_file_def l d s e)
qed

lemma credentials_from_the_session_witness:
  "\<exists>p \<in> set [some_proc]. pr_uid p = Some 1000 \<and> display_name (py '':0'')"
proof -
  have "scope_name (py ''session-2.scope'')" by code_simp
  then have "x11_credentials some_login 1000 None (\<lambda>_. Some \<lparr>fm_kind = True, fm_own = True, fm_private = True\<rparr>) [some_proc] =
      Inr (py '':0'', py ''/c'')"
    by (simp add: x11_credentials_def some_login_def some_proc_credentials)
  from credentials_from_the_session [OF this] show ?thesis by blast
qed

end
