(* ===== verification/Spec2Isabelle.thy ===== *)
theory Spec2Isabelle
  imports Held_Input Marker Input_Dispatch Native_Safety Native_Input Capture Pixels Scope Helper Lifecycle Control_Safety Launch_Plan Context_Safety Documents Login
begin

text \<open>
  A verification development of floe-native-apps, the Python side: the helpers that show a Linux
  application, or the user's whole desktop, to remote viewers and bring their input back.

  PARTS OF THE PROGRAM. Three helpers share the same rules.
   - The X11 helper runs Xpra. \<open>input_dispatch.py\<close> admits what a viewer sends, \<open>input_order.py\<close> delivers it in
     order, and confirmed text goes through an adapter: the toolkit's input module (\<open>input_context.py\<close>) or
     XIM (\<open>input_xim.py\<close>).
   - The native helper (\<open>desktop_helper.py\<close>) talks to a private compositor over one channel
     (\<open>desktop_native.py\<close>), captures frames (\<open>desktop_capture.py\<close>), exchanges the selection and the cursor
     (\<open>desktop_clipboard.py\<close>, \<open>desktop_cursor.py\<close>), serves viewers on a socket (\<open>desktop_control.py\<close>,
     \<open>desktop_attachment.py\<close>) and delivers text by \<open>desktop_context.py\<close> and \<open>input_marker.py\<close>.
   - The host-desktop helper reads commands and writes packets (\<open>host_desktop_wire.py\<close>) under an authority
     of its own (\<open>host_desktop_contract.py\<close>), holds keys (\<open>host_desktop_input.py\<close>) and copies pixels
     (\<open>host_desktop_pixels.py\<close>). It belongs to one login (\<open>host_desktop_identity.py\<close>) and reaches a Wayland
     desktop through its portal (\<open>host_desktop_portal.py\<close>).
  Around them: the launch plan and its revalidation (\<open>launch_plan.py\<close>), the supervisor that owns the
  processes (\<open>application_processes.py\<close>), what binds a peer to them (\<open>application_peer.py\<close>), the scope service
  for packaged launchers (\<open>application_scope.py\<close>), and the export of files (\<open>desktop_documents.py\<close>).

  SHARED THEORIES. \<open>Prelude\<close>: diagnostic codes (the constructors of \<open>code\<close>, named as the strings are), Python
  text as code points with its UTF-8 encoding, decoded values (\<open>pyval\<close>), numerals, collections of facts.
  \<open>Utf8\<close> decodes UTF-8, \<open>Float64\<close> rounds to binary64, \<open>Json\<close> reads and writes JSON as the program does,
  \<open>Ascii\<close> has the records of the private channels (\<open>split\<close>, \<open>int\<close>, \<open>float\<close>, hexadecimal data).

  THE THEORIES AND WHAT THEY SHOW.
   - \<open>Contract\<close> (host_desktop_contract.py): argument checks, \<open>capture_size\<close> with the rounding of its quotient,
     \<open>DesktopAuthority\<close> and \<open>FrameCredit\<close>. Input is admitted only in the current generation, in control, and
     behind a frame that was sent and painted; the locale \<open>delivery_window\<close> is the credit's contract.
   - \<open>Held_Input\<close> (host_desktop_input.py): whatever the system holds is owned, so a release reaches it.
   - \<open>Wire\<close> (host_desktop_wire.py): commands, packets, and the writer as interleaved steps of \<open>send\<close>, its
     thread and \<open>close\<close>; \<open>Pixels\<close> (host_desktop_pixels.py): comparison and copy of pixel rows.
   - \<open>Grant\<close>, \<open>Portal\<close> (host_desktop_portal.py): the saved permission, whose token is submitted once for
     each time it was received, also when writes fail or the helper is killed; the portal session, which
     answers its client once, holds nothing and admits nothing after its end. \<open>Login\<close>
     (host_desktop_identity.py): the login that counts as ready, and where its X11 credentials come from.
   - \<open>Input_Order\<close> (input_order.py): the scheduler with the callbacks of its client as parameters that may
     call back into \<open>drain\<close>; the locale \<open>ordered_client\<close> states what a client keeps. \<open>Text_Adapter\<close> is the
     contract with a text adapter: a callback is kept by an idle adapter only and called at most once. It
     is interpreted on \<open>Input_Context\<close>, \<open>Input_Xim\<close>, \<open>Clipboard\<close> and \<open>Native_Context\<close>. \<open>Input_Dispatch\<close>
     composes the first two with the scheduler: order, one completion per operation, admission of the
     current target only, and no delivery from a connection that has failed.
   - \<open>Marker\<close> (input_marker.py): the codes, seen as a mailbox of one letter.
   - \<open>Native_View\<close>, \<open>Native_Channel\<close>, \<open>Native_Scene\<close> (desktop_native.py): the channel, every record of the
     compositor, the viewers' operations, confirmed text, shared captures. \<open>Native_Registry\<close>, \<open>Native_Run\<close>
     and \<open>Native_Safety\<close> show its invariant over every run (bounds, live identities, a sound scene target,
     snapshots that can be encoded); \<open>Native_Input\<close> what a delivery sends and to which target.
   - \<open>Clipboard\<close>, \<open>Cursor\<close> (desktop_clipboard.py, desktop_cursor.py): transfers in chunks under the locale
     \<open>chunk_reader\<close>; the PNG round trip. \<open>Capture\<close> (desktop_capture.py): a frame is answered only between two
     scene reports of its target, captures complete in order and each accepted one ends, and the class
     refines an abstract life of a capture.
   - \<open>Attachment\<close>, \<open>Attachment_Safety\<close> (desktop_attachment.py): every method of a viewer's attachment; input
     follows a frame that was sent and painted. \<open>Helper\<close>, \<open>Lifecycle\<close> (desktop_helper.py): the viewers of one
     application, of which the controller alone gives input; which parts a helper opens and closes.
     \<open>Control\<close>, \<open>Control_Safety\<close> (desktop_control.py): messages, peers, authentication, takeover.
   - \<open>Launch_Plan\<close> (launch_plan.py): inspection, preparation and revalidation of a plan.
   - \<open>Processes\<close> (application_processes.py): the ancestor walk is sound and, in a table at rest, exact; a
     leased launcher is not reaped. \<open>Scope\<close> (application_scope.py): a launcher is kept while systemd may still
     act on it. \<open>Peer\<close> (application_peer.py): matched peers share an owned process or sandbox child;
     a failed construction gives back what it took. \<open>Documents\<close> (desktop_documents.py): an instance
     deletes its own exports only; the launcher exports the files of the launch only.
   - \<open>Native_Context\<close>, \<open>Context_Safety\<close> (desktop_context.py): one confirmed text at a time, over the scene
     registry and the markers: who may take it, when success is reported, and which peers are open.

  CONVENTIONS. A class is a record, a method a function from the record to its result and the record; an
  exception is a value (\<open>None\<close>, \<open>Inl\<close> of a code, or a Boolean), and what a method has changed before it raises
  is changed. Dictionaries are association lists where their order matters. What the program calls (the
  kernel's tables, sockets, D-Bus, X11, GStreamer, SHA-256, zlib) is an argument; where the code reads the
  host several times, each read has a view of its own, so the host may change in between. Calls out of a
  component that may come back into it are parameters (Input_Order, Attachment, Control), or are logged
  and made as steps of their own (Native_Scene, Native_Context). Histories are lists of events; runs are
  folds, and a theorem about runs is an induction over them with one preservation lemma per operation.

  BOUNDS AND FUEL. \<open>Json.parse_value\<close> has fuel for twice the length of the text and two more, which is enough
  for every value (its lemmas show that more changes nothing). \<open>Control.read_loop\<close> takes one round per byte
  of input, and a message has at least six. The pump of an attachment repeats at most \<open>st_rounds\<close> times, and
  notices that handling a notice causes are handled to the depth \<open>d\<close> of \<open>setting_at\<close>; one round is shown
  to settle, and the properties hold for every depth. \<open>Control.perform\<close> lets the application react to a call
  to a depth \<open>n\<close>, again any. \<open>Processes.walk_up\<close> has the 128 rounds of the code. The other recursions are
  structural or carry a measure.

  NOT MODELLED. Set-up and calls that only pass values to an operating system or library interface: GLib
  loops, sockets, D-Bus registration, ctypes bindings, argument parsing. Of the rest of the Python side:
  the adapters to IBus and XIM on the native route (desktop_ibus.py, desktop_xim.py) appear as events of
  \<open>Native_Context\<close>; sessions, services, packages and graphics (desktop_session.py, desktop_services.py,
  desktop_package.py, desktop_graphics.py, desktop_bootstrap.py, application.py) prepare directories and
  start processes; the media pipeline of the host desktop (host_desktop_media.py, host_desktop_pipewire.py,
  host_desktop_drm.py, host_desktop_xcapture.py, host_desktop_encoder.py) lives in GStreamer, PipeWire and
  the kernel; the session helper (host_desktop_helper.py) that puts them together, and its X11 connection
  (host_desktop_x11.py), are not modelled. Go, Swift, JavaScript and C are other languages of the repository.
\<close>

end
